(* ===== verification/Prelude.thy ===== *)
theory Prelude
  imports Main "HOL-Library.Word" "HOL-Library.Monad_Syntax"
begin

unbundle bit_operations_syntax

text \<open>
  Shared vocabulary of the FileOS development: the machine integer types of the
  i686 kernel, little-endian byte codecs (the layout the compiler gives the packed
  on-disk structs), \<^verbatim>\<open>k_memcpy\<close>-style block updates of byte lists, and the
  collections of automation the component theories fill.

  A computation whose C counterpart may fail to return or may touch memory outside
  of an object has an \<open>option\<close> result: \<^term>\<open>None\<close> is \<open>no defined result\<close>, and a
  theorem that a call has a result always states \<open>f x = Some y\<close>.
\<close>

type_synonym byte = "8 word"
type_synonym u16 = "16 word"
type_synonym u32 = "32 word"
type_synonym i32 = "32 word" \<comment> \<open>read with \<^const>\<open>sint\<close>\<close>

text \<open>Facts that discharge the functional behaviour of a component's operations.\<close>
named_theorems mem_simps \<open>block updates and byte codecs\<close>

text \<open>Length facts of buffers, sectors and encodings.\<close>
named_theorems len_simps \<open>lengths\<close>

text \<open>Introduction rules by which operations keep an invariant.\<close>
named_theorems inv_intros \<open>invariant preservation\<close>

subsection \<open>C strings in the model's bytes\<close>

definition bytes_of :: "string \<Rightarrow> byte list" where
  "bytes_of s = map of_char s"

definition ch :: "char \<Rightarrow> byte" where
  "ch c = of_char c"

lemma length_bytes_of [simp, len_simps]: "length (bytes_of s) = length s"
  by (simp add: bytes_of_def)

subsection \<open>Little-endian codecs\<close>

definition le16 :: "byte \<Rightarrow> byte \<Rightarrow> u16" where
  "le16 a b = ucast a OR push_bit 8 (ucast b)"

definition le32 :: "byte \<Rightarrow> byte \<Rightarrow> byte \<Rightarrow> byte \<Rightarrow> u32" where
  "le32 a b c d = ucast a OR push_bit 8 (ucast b) OR push_bit 16 (ucast c) OR push_bit 24 (ucast d)"

definition bytes16 :: "u16 \<Rightarrow> byte list" where
  "bytes16 w = [ucast w, ucast (drop_bit 8 w)]"

definition bytes32 :: "u32 \<Rightarrow> byte list" where
  "bytes32 w = [ucast w, ucast (drop_bit 8 w), ucast (drop_bit 16 w), ucast (drop_bit 24 w)]"

lemma length_bytes16 [simp, len_simps]: "length (bytes16 w) = 2"
  by (simp add: bytes16_def)

lemma length_bytes32 [simp, len_simps]: "length (bytes32 w) = 4"
  by (simp add: bytes32_def)

lemma le16_bytes [mem_simps]: "le16 (ucast w) (ucast (drop_bit 8 w)) = w"
  unfolding le16_def by (rule bit_word_eqI) (auto simp: bit_simps)

lemma le32_bytes [mem_simps]:
  "le32 (ucast w) (ucast (drop_bit 8 w)) (ucast (drop_bit 16 w)) (ucast (drop_bit 24 w)) = w"
proof (rule bit_word_eqI)
  fix n assume "n < LENGTH(32)"
  then show "bit (le32 (ucast w) (ucast (drop_bit 8 w)) (ucast (drop_bit 16 w)) (ucast (drop_bit 24 w))) n = bit w n"
    by (cases "n < 24"; cases "n < 16") (auto simp: le32_def bit_simps)
qed

lemma bytes16_le16 [mem_simps]: "bytes16 (le16 a b) = [a, b]"
  unfolding le16_def bytes16_def
  by (simp, intro conjI; rule bit_word_eqI; auto simp: bit_simps dest: bit_imp_le_length)

lemma bytes32_le32 [mem_simps]: "bytes32 (le32 a b c d) = [a, b, c, d]"
  unfolding le32_def bytes32_def
  by (simp, intro conjI; rule bit_word_eqI; auto simp: bit_simps dest: bit_imp_le_length)

text \<open>Fields of a packed struct, read at their byte offset.\<close>

definition get8 :: "byte list \<Rightarrow> nat \<Rightarrow> byte" where
  "get8 bs i = bs ! i"

definition get16 :: "byte list \<Rightarrow> nat \<Rightarrow> u16" where
  "get16 bs i = le16 (bs ! i) (bs ! (i + 1))"

definition get32 :: "byte list \<Rightarrow> nat \<Rightarrow> u32" where
  "get32 bs i = le32 (bs ! i) (bs ! (i + 1)) (bs ! (i + 2)) (bs ! (i + 3))"

text \<open>An array of \<^verbatim>\<open>uint32_t\<close> seen as bytes, as the FAT cache is when it meets the disk.\<close>

fun words_of :: "byte list \<Rightarrow> u32 list" where
  "words_of (a # b # c # d # bs) = le32 a b c d # words_of bs"
| "words_of _ = []"

definition bytes_of_words :: "u32 list \<Rightarrow> byte list" where
  "bytes_of_words ws = concat (map bytes32 ws)"

lemma bytes_of_words_Nil [simp]: "bytes_of_words [] = []"
  by (simp add: bytes_of_words_def)

lemma bytes_of_words_Cons [simp]: "bytes_of_words (w # ws) = bytes32 w @ bytes_of_words ws"
  by (simp add: bytes_of_words_def)

lemma length_bytes_of_words [simp, len_simps]: "length (bytes_of_words ws) = 4 * length ws"
  by (induction ws) auto

lemma words_of_bytes_of_words [simp, mem_simps]: "words_of (bytes_of_words ws) = ws"
  by (induction ws) (simp_all add: bytes32_def le32_bytes)

lemma length_words_of [len_simps]: "length (words_of bs) = length bs div 4"
  by (induction bs rule: words_of.induct) auto

lemma bytes_of_words_of [mem_simps]:
  "length bs mod 4 = 0 \<Longrightarrow> bytes_of_words (words_of bs) = bs"
  by (induction bs rule: words_of.induct) (auto simp: bytes32_le32)

subsection \<open>Block copies\<close>

text \<open>
  \<open>copy_into dst off src\<close> is the array \<open>dst\<close> after \<^verbatim>\<open>k_memcpy(src, dst + off, length src)\<close>,
  \<^term>\<open>None\<close> when the copy leaves \<open>dst\<close>; \<open>copy_from src off n\<close> is the \<open>n\<close> bytes read at \<open>off\<close>.
\<close>

definition copy_into :: "'a list \<Rightarrow> nat \<Rightarrow> 'a list \<Rightarrow> 'a list option" where
  "copy_into dst off src =
     (if off + length src \<le> length dst
      then Some (take off dst @ src @ drop (off + length src) dst) else None)"

definition copy_from :: "'a list \<Rightarrow> nat \<Rightarrow> nat \<Rightarrow> 'a list option" where
  "copy_from src off n = (if off + n \<le> length src then Some (take n (drop off src)) else None)"

definition patch :: "'a list \<Rightarrow> nat \<Rightarrow> 'a list \<Rightarrow> 'a list" where
  "patch dst off src = take off dst @ src @ drop (off + length src) dst"

lemma copy_into_Some [mem_simps]:
  "off + length src \<le> length dst \<Longrightarrow> copy_into dst off src = Some (patch dst off src)"
  by (simp add: copy_into_def patch_def)

lemma copy_from_Some [mem_simps]:
  "off + n \<le> length src \<Longrightarrow> copy_from src off n = Some (take n (drop off src))"
  by (simp add: copy_from_def)

lemma length_patch [simp, len_simps]:
  "off + length src \<le> length dst \<Longrightarrow> length (patch dst off src) = length dst"
  by (simp add: patch_def)

lemma patch_Nil [simp]: "off \<le> length dst \<Longrightarrow> patch dst off [] = dst"
  by (simp add: patch_def)

lemma patch_whole [simp]: "length src = length dst \<Longrightarrow> patch dst 0 src = src"
  by (simp add: patch_def)

lemma read_patch_same [mem_simps]:
  "off + length src \<le> length dst \<Longrightarrow> take (length src) (drop off (patch dst off src)) = src"
  by (simp add: patch_def)

lemma nth_patch:
  "off + length src \<le> length dst \<Longrightarrow> i < length dst \<Longrightarrow>
   patch dst off src ! i = (if off \<le> i \<and> i < off + length src then src ! (i - off) else dst ! i)"
  by (auto simp: patch_def nth_append min_def)

lemma take_patch: "n \<le> off \<Longrightarrow> off \<le> length dst \<Longrightarrow> take n (patch dst off src) = take n dst"
  by (simp add: patch_def min_def)

text \<open>A write that spans the first of two concatenated parts, or falls in the second.\<close>

lemma patch_append_left:
  "off + length src \<le> length xs \<Longrightarrow> patch (xs @ ys) off src = patch xs off src @ ys"
  by (simp add: patch_def)

lemma patch_append_right:
  "length xs \<le> off \<Longrightarrow> patch (xs @ ys) off src = xs @ patch ys (off - length xs) src"
  by (simp add: patch_def add.commute)

lemma patch_append_both:
  assumes "off \<le> length xs" "length src1 = length xs - off"
  shows "patch (xs @ ys) off (src1 @ src2) = patch xs off src1 @ patch ys 0 src2"
  using assms by (simp add: patch_def)

lemma patch_patch_right:
  "p + length xs + length ys \<le> length buf \<Longrightarrow> patch (patch buf p xs) (p + length xs) ys = patch buf p (xs @ ys)"
  by (simp add: patch_def ac_simps)

subsection \<open>Machine integer arithmetic\<close>

lemma unat_inj_u32 [simp]: "unat (a::u32) = unat b \<longleftrightarrow> a = b"
  by (simp add: word_unat_eq_iff)

lemma unat_image_u32 [simp]: "unat (x::u32) \<in> unat ` S \<longleftrightarrow> x \<in> S"
  by auto

lemma unat_0_iff_u32 [simp]: "unat (a::u32) = 0 \<longleftrightarrow> a = 0"
  using unat_inj_u32 [of a 0] by simp

lemma unat_add_u32 [mem_simps]:
  "unat a + unat b < 2 ^ 32 \<Longrightarrow> unat ((a::u32) + b) = unat a + unat b"
  by (simp add: unat_word_ariths)

lemma unat_diff_u32 [mem_simps]: "b \<le> a \<Longrightarrow> unat ((a::u32) - b) = unat a - unat b"
  by (simp add: unat_sub_if_size word_le_nat_alt)

lemma unat_of_nat_u32 [mem_simps]: "n < 2 ^ 32 \<Longrightarrow> unat (of_nat n :: u32) = n"
  by (simp add: unat_of_nat take_bit_eq_mod)

lemma unat_lt_u32 [simp]: "unat (x::u32) < 4294967296"
  using unsigned_less [of x] by simp

text \<open>Signed comparison of \<^verbatim>\<open>int32_t\<close> values, for values that are not negative.\<close>

lemma uint_lt_iff: "uint (x::32 word) < 2 ^ 31 \<longleftrightarrow> unat x < 2 ^ 31"
proof -
  have "uint x < 2 ^ 31 \<longleftrightarrow> int (unat x) < int (2 ^ 31)" by simp
  also have "\<dots> \<longleftrightarrow> unat x < 2 ^ 31" by (rule of_nat_less_iff)
  finally show ?thesis .
qed

lemma sint_i32: "sint (x::32 word) = (if uint x < 2 ^ 31 then uint x else uint x - 2 ^ 32)"
proof (cases "uint x < 2 ^ 31")
  case True
  have "- (2 ^ 31) \<le> uint x" by (rule order_trans [of _ 0]) simp_all
  with True show ?thesis
    by (simp add: sint_uint signed_take_bit_int_eq_self)
next
  case False
  have b: "2 ^ 31 \<le> uint x" "uint x < 2 ^ 32" using False unsigned_less [of x] by simp_all
  have "signed_take_bit 31 (uint x) = signed_take_bit 31 (uint x - 2 ^ 32)"
    by (simp only: signed_take_bit_eq_iff_take_bit_eq) (simp add: take_bit_eq_mod)
  also have "\<dots> = uint x - 2 ^ 32" using b by (simp add: signed_take_bit_int_eq_self)
  finally show ?thesis using False by (simp add: sint_uint)
qed

lemma sless_i32: "unat (a::32 word) < 2 ^ 31 \<Longrightarrow> unat b < 2 ^ 31 \<Longrightarrow> a <s b \<longleftrightarrow> unat a < unat b"
  by (simp add: word_sless_alt sint_i32 uint_lt_iff [simplified] flip: word_less_def word_less_nat_alt)

lemma sless_i32D:
  assumes ab: "a <s b" and a: "unat (a::32 word) < 2 ^ 31"
  shows "unat a < unat b \<and> unat b < 2 ^ 31"
proof -
  have "unat b < 2 ^ 31"
  proof (rule ccontr)
    assume "\<not> unat b < 2 ^ 31"
    then have "sint b < 0" 
      using unsigned_less [of b, where 'a = int] by (simp add: sint_i32 uint_lt_iff [simplified])
    moreover have "0 \<le> sint a" using a by (simp add: sint_i32 uint_lt_iff [simplified])
    ultimately show False using ab by (simp add: word_sless_alt)
  qed
  with ab a show ?thesis by (simp add: sless_i32)
qed

end
