(* ===== verification/Vfs_Device.thy ===== *)
theory Vfs_Device
  imports Prelude
begin

text \<open>
  The device half of \<^verbatim>\<open>fs/vfs.c\<close>: the \<^verbatim>\<open>VFS_DEVICE\<close> descriptor with its two
  function pointers, the static device table, and the guarded read and write entry
  points every file system goes through. The interface \<open>block_device\<close> states what a
  client may rely on when the driver behind the descriptor stores sectors; it is
  interpreted on \<^verbatim>\<open>vfs_device_read\<close> and \<^verbatim>\<open>vfs_device_write\<close> themselves.
\<close>

subsection \<open>Status codes\<close>

datatype E_DEVICE =
    E_DEVICE_OK | E_DEVICE_NOT_FOUND | E_DEVICE_INCORRECT_DEVICE | E_DEVICE_TOO_SMALL_BUFFER
  | E_DEVICE_BAD_SECTOR | E_DEVICE_WRITE_FAILED | E_DEVICE_READ_FAILED | E_DEVICE_NOT_READABLE
  | E_DEVICE_NOT_WRITABLE | E_DEVICE_BAD_READ | E_DEVICE_BAD_WRITE

primrec E_DEVICE_code :: "E_DEVICE \<Rightarrow> nat" where
  "E_DEVICE_code E_DEVICE_OK = 0"
| "E_DEVICE_code E_DEVICE_NOT_FOUND = 1"
| "E_DEVICE_code E_DEVICE_INCORRECT_DEVICE = 2"
| "E_DEVICE_code E_DEVICE_TOO_SMALL_BUFFER = 3"
| "E_DEVICE_code E_DEVICE_BAD_SECTOR = 4"
| "E_DEVICE_code E_DEVICE_WRITE_FAILED = 5"
| "E_DEVICE_code E_DEVICE_READ_FAILED = 6"
| "E_DEVICE_code E_DEVICE_NOT_READABLE = 7"
| "E_DEVICE_code E_DEVICE_NOT_WRITABLE = 8"
| "E_DEVICE_code E_DEVICE_BAD_READ = 9"
| "E_DEVICE_code E_DEVICE_BAD_WRITE = 10"

lemma inj_E_DEVICE_code: "E_DEVICE_code a = E_DEVICE_code b \<Longrightarrow> a = b"
  by (cases a; cases b) simp_all

text \<open>The C code compares and prints these as integers; the order is that of the codes.\<close>

instantiation E_DEVICE :: linorder
begin

definition less_eq_E_DEVICE :: "E_DEVICE \<Rightarrow> E_DEVICE \<Rightarrow> bool" where
  "a \<le> b \<longleftrightarrow> E_DEVICE_code a \<le> E_DEVICE_code b"

definition less_E_DEVICE :: "E_DEVICE \<Rightarrow> E_DEVICE \<Rightarrow> bool" where
  "a < b \<longleftrightarrow> E_DEVICE_code a < E_DEVICE_code b"

instance
  by standard (auto simp: less_eq_E_DEVICE_def less_E_DEVICE_def dest: inj_E_DEVICE_code)

end

subsection \<open>Device descriptors\<close>

text \<open>
  A driver entry point gets the driver's own data (what \<^verbatim>\<open>vfs_device_get_data\<close> returns
  to it), the caller's buffer, a sector count and the first sector; it returns the
  status, the buffer as it left it and its data. \<^term>\<open>None\<close>: the driver does not return.
\<close>

type_synonym 'd READ_DEVICE = "'d \<Rightarrow> byte list \<Rightarrow> u32 \<Rightarrow> u32 \<Rightarrow> (E_DEVICE \<times> byte list \<times> 'd) option"
type_synonym 'd WRITE_DEVICE = "'d \<Rightarrow> byte list \<Rightarrow> u32 \<Rightarrow> u32 \<Rightarrow> (E_DEVICE \<times> 'd) option"

record ('c, 'd) VFS_DEVICE_ENTRY =
  device_data :: 'c
  read_m :: "'d READ_DEVICE option" \<comment> \<open>\<^verbatim>\<open>read\<close>, \<^term>\<open>None\<close> for a null pointer\<close>
  write_m :: "'d WRITE_DEVICE option" \<comment> \<open>\<^verbatim>\<open>write\<close>\<close>

text \<open>
  What the entry points work on is the data of the descriptor; a driver whose devices share
  hardware also works on that, which no descriptor holds.
\<close>

type_synonym 'd VFS_DEVICE = "('d, 'd) VFS_DEVICE_ENTRY"

definition MAX_DEVICES :: nat where
  "MAX_DEVICES = 16"

text \<open>
  \<^verbatim>\<open>virtual_devices\<close> with its count is the list of the registered devices. The result
  carries the status, the table and, on success, the index \<^verbatim>\<open>*dd\<close> points to. There is
  no bounds check: registering a 17th device writes past the array.
\<close>

definition vfs_device_register ::
  "('c, 'd) VFS_DEVICE_ENTRY list \<Rightarrow> 'c option \<Rightarrow> 'd READ_DEVICE option \<Rightarrow> 'd WRITE_DEVICE option
   \<Rightarrow> (E_DEVICE \<times> ('c, 'd) VFS_DEVICE_ENTRY list \<times> nat option) option" where
  "vfs_device_register devs data rd wr =
     (case data of
        None \<Rightarrow> Some (E_DEVICE_NOT_FOUND, devs, None)
      | Some d \<Rightarrow>
          if rd = None \<and> wr = None then Some (E_DEVICE_INCORRECT_DEVICE, devs, None)
          else if length devs < MAX_DEVICES
          then Some (E_DEVICE_OK,
                 devs @ [\<lparr>device_data = d, read_m = rd, write_m = wr\<rparr>],
                 Some (length devs))
          else None)"

definition vfs_device_read ::
  "'d VFS_DEVICE option \<Rightarrow> byte list option \<Rightarrow> u32 \<Rightarrow> u32
   \<Rightarrow> (E_DEVICE \<times> byte list option \<times> 'd VFS_DEVICE option) option" where
  "vfs_device_read device buffer sectors lba =
     (case device of
        None \<Rightarrow> Some (E_DEVICE_NOT_FOUND, buffer, device)
      | Some dv \<Rightarrow>
          (case read_m dv of
             None \<Rightarrow> Some (E_DEVICE_NOT_READABLE, buffer, device)
           | Some rd \<Rightarrow>
               (case buffer of
                  None \<Rightarrow> Some (E_DEVICE_TOO_SMALL_BUFFER, buffer, device)
                | Some buf \<Rightarrow>
                    if sectors = 0 then Some (E_DEVICE_BAD_READ, buffer, device)
                    else do {
                      (r, buf', d') \<leftarrow> rd (device_data dv) buf sectors lba;
                      Some (r, Some buf', Some (dv\<lparr>device_data := d'\<rparr>))
                    })))"

definition vfs_device_write ::
  "'d VFS_DEVICE option \<Rightarrow> byte list option \<Rightarrow> u32 \<Rightarrow> u32
   \<Rightarrow> (E_DEVICE \<times> 'd VFS_DEVICE option) option" where
  "vfs_device_write device buffer sectors lba =
     (case device of
        None \<Rightarrow> Some (E_DEVICE_NOT_FOUND, device)
      | Some dv \<Rightarrow>
          (case write_m dv of
             None \<Rightarrow> Some (E_DEVICE_NOT_WRITABLE, device)
           | Some wr \<Rightarrow>
               (case buffer of
                  None \<Rightarrow> Some (E_DEVICE_TOO_SMALL_BUFFER, device)
                | Some buf \<Rightarrow>
                    if sectors = 0 then Some (E_DEVICE_BAD_WRITE, device)
                    else do {
                      (r, d') \<leftarrow> wr (device_data dv) buf sectors lba;
                      Some (r, Some (dv\<lparr>device_data := d'\<rparr>))
                    })))"

definition vfs_device_get_data :: "('c, 'd) VFS_DEVICE_ENTRY option \<Rightarrow> 'c option" where
  "vfs_device_get_data device = map_option device_data device"

subsection \<open>Drivers that store sectors\<close>

text \<open>
  \<open>stores_sectors n I view rd wr\<close>: in every driver state satisfying \<open>I\<close>, one-sector
  transfers below sector \<open>n\<close> succeed, a read delivers the sector that \<open>view\<close> shows and
  changes no sector, and a write changes exactly the sector it addresses. This is the
  documented contract of a disk without bad sectors; which driver state and which view
  realise it is left to the driver. \<open>reads_sectors\<close> is the half of it about reading.
\<close>

definition reads_sectors :: "nat \<Rightarrow> ('d \<Rightarrow> bool) \<Rightarrow> ('d \<Rightarrow> nat \<Rightarrow> byte list) \<Rightarrow> 'd READ_DEVICE \<Rightarrow> bool" where
  "reads_sectors n I view rd \<longleftrightarrow>
     (\<forall>d. I d \<longrightarrow>
        (\<forall>lba. unat lba < n \<longrightarrow> length (view d (unat lba)) = 512
           \<and> (\<forall>buf. length buf = 512 \<longrightarrow>
                (\<exists>d'. rd d buf 1 lba = Some (E_DEVICE_OK, view d (unat lba), d') \<and> I d'
                   \<and> (\<forall>k<n. view d' k = view d k)))))"

definition stores_sectors ::
  "nat \<Rightarrow> ('d \<Rightarrow> bool) \<Rightarrow> ('d \<Rightarrow> nat \<Rightarrow> byte list) \<Rightarrow> 'd READ_DEVICE \<Rightarrow> 'd WRITE_DEVICE \<Rightarrow> bool" where
  "stores_sectors n I view rd wr \<longleftrightarrow>
     (\<forall>d. I d \<longrightarrow>
        (\<forall>lba. unat lba < n \<longrightarrow> length (view d (unat lba)) = 512
           \<and> (\<forall>buf. length buf = 512 \<longrightarrow>
                (\<exists>d'. rd d buf 1 lba = Some (E_DEVICE_OK, view d (unat lba), d') \<and> I d'
                   \<and> (\<forall>k<n. view d' k = view d k))
              \<and> (\<exists>d'. wr d buf 1 lba = Some (E_DEVICE_OK, d') \<and> I d'
                   \<and> (\<forall>k<n. view d' k = (if k = unat lba then buf else view d k))))))"

lemma stores_reads: "stores_sectors n I view rd wr \<Longrightarrow> reads_sectors n I view rd"
  unfolding stores_sectors_def reads_sectors_def by blast

text \<open>
  A descriptor is good for \<open>n\<close> sectors when its driver stores sectors and is in a good state,
  and readable when this holds of reading alone.
\<close>

definition good_device :: "nat \<Rightarrow> 'd VFS_DEVICE \<Rightarrow> bool" where
  "good_device n dv \<longleftrightarrow>
     (\<exists>I view rd wr. read_m dv = Some rd \<and> write_m dv = Some wr
        \<and> stores_sectors n I view rd wr \<and> I (device_data dv))"

definition readable_device :: "nat \<Rightarrow> 'd VFS_DEVICE \<Rightarrow> bool" where
  "readable_device n dv \<longleftrightarrow>
     (\<exists>I view rd. read_m dv = Some rd \<and> reads_sectors n I view rd \<and> I (device_data dv))"

lemma good_readable: "good_device n dv \<Longrightarrow> readable_device n dv"
  unfolding good_device_def readable_device_def using stores_reads by blast

text \<open>What is stored at a sector is what reading it delivers.\<close>

definition sector :: "'d VFS_DEVICE \<Rightarrow> nat \<Rightarrow> byte list" where
  "sector dv k =
     (case read_m dv of None \<Rightarrow> []
      | Some rd \<Rightarrow> (case rd (device_data dv) (replicate 512 0) 1 (of_nat k) of
           None \<Rightarrow> [] | Some (r, buf, d') \<Rightarrow> buf))"

lemma reads_sectors_length:
  fixes lba :: u32
  assumes "reads_sectors n I view rd" "I d" "unat lba < n"
  shows "length (view d (unat lba)) = 512"
  using assms unfolding reads_sectors_def by blast

lemma reads_sectors_readE:
  assumes "reads_sectors n I view rd" "I d" "unat lba < n" "length buf = 512"
  obtains d' where "rd d buf 1 lba = Some (E_DEVICE_OK, view d (unat lba), d')" "I d'"
    "\<forall>k<n. view d' k = view d k"
  using assms unfolding reads_sectors_def by metis

lemmas stores_sectors_length = reads_sectors_length [OF stores_reads]
lemmas stores_sectors_readE = reads_sectors_readE [OF stores_reads]

lemma stores_sectors_writeE:
  assumes "stores_sectors n I view rd wr" "I d" "unat lba < n" "length buf = 512"
  obtains d' where "wr d buf 1 lba = Some (E_DEVICE_OK, d')" "I d'"
    "\<forall>k<n. view d' k = (if k = unat lba then buf else view d k)"
  using assms unfolding stores_sectors_def by metis

lemma sector_eq_read_view:
  assumes "read_m dv = Some rd" "reads_sectors n I view rd" "I (device_data dv)"
    and "k < n" "n \<le> 2 ^ 32"
  shows "sector dv k = view (device_data dv) k"
proof -
  have u: "unat (of_nat k :: u32) = k"
    using assms(4,5) by (simp add: mem_simps)
  from assms(4) u have "unat (of_nat k :: u32) < n" by simp
  obtain d1 where "rd (device_data dv) (replicate 512 0) 1 (of_nat k)
      = Some (E_DEVICE_OK, view (device_data dv) (unat (of_nat k :: u32)), d1)"
    using reads_sectors_readE [OF assms(2,3) \<open>unat (of_nat k :: u32) < n\<close>, of "replicate 512 0"]
    by auto
  with assms(1) u show ?thesis by (simp add: sector_def)
qed

lemmas sector_eq_view = sector_eq_read_view [OF _ stores_reads]

subsection \<open>The block device interface\<close>

text \<open>
  What \<^verbatim>\<open>fs/fat32.c\<close> needs of the device layer: one-sector reads on a descriptor state, the
  sector contents as an abstraction and a good-state predicate; where it changes the volume,
  also one-sector writes.
\<close>

locale sector_reader =
  fixes rd :: "'s \<Rightarrow> byte list \<Rightarrow> u32 \<Rightarrow> (E_DEVICE \<times> byte list \<times> 's) option"
    and sec :: "'s \<Rightarrow> nat \<Rightarrow> byte list"
    and good :: "nat \<Rightarrow> 's \<Rightarrow> bool"
  assumes sec_length: "good n s \<Longrightarrow> n \<le> 2 ^ 32 \<Longrightarrow> k < n \<Longrightarrow> length (sec s k) = 512"
    and rd_ok: "good n s \<Longrightarrow> n \<le> 2 ^ 32 \<Longrightarrow> unat lba < n \<Longrightarrow> length buf = 512 \<Longrightarrow>
      \<exists>s'. rd s buf lba = Some (E_DEVICE_OK, sec s (unat lba), s') \<and> good n s'
         \<and> (\<forall>k<n. sec s' k = sec s k)"
begin

lemma rdE:
  assumes "good n s" "n \<le> 2 ^ 32" "unat lba < n" "length buf = 512"
  obtains s' where "rd s buf lba = Some (E_DEVICE_OK, sec s (unat lba), s')" "good n s'"
    "\<forall>k<n. sec s' k = sec s k"
  using rd_ok [OF assms] by blast

text \<open>Reading two sectors one after the other delivers what was stored before the first.\<close>

lemma read_then_read:
  assumes "good n s" "n \<le> 2 ^ 32" "unat lba < n" "unat lba' < n" "length buf = 512" "length buf' = 512"
  shows "\<exists>s1 s2. rd s buf lba = Some (E_DEVICE_OK, sec s (unat lba), s1)
     \<and> rd s1 buf' lba' = Some (E_DEVICE_OK, sec s (unat lba'), s2) \<and> good n s2 \<and> (\<forall>k<n. sec s2 k = sec s k)"
proof -
  obtain s1 where s1: "rd s buf lba = Some (E_DEVICE_OK, sec s (unat lba), s1)" "good n s1" "\<forall>k<n. sec s1 k = sec s k"
    using rdE [OF assms(1-3,5)] .
  obtain s2 where "rd s1 buf' lba' = Some (E_DEVICE_OK, sec s1 (unat lba'), s2)" "good n s2" "\<forall>k<n. sec s2 k = sec s1 k"
    using rdE [OF s1(2) assms(2,4,6)] .
  with s1 assms(4) show ?thesis by simp
qed

end

locale block_device = sector_reader rd sec good
  for rd :: "'s \<Rightarrow> byte list \<Rightarrow> u32 \<Rightarrow> (E_DEVICE \<times> byte list \<times> 's) option" and sec and good +
  fixes wr :: "'s \<Rightarrow> byte list \<Rightarrow> u32 \<Rightarrow> (E_DEVICE \<times> 's) option"
  assumes wr_ok: "good n s \<Longrightarrow> n \<le> 2 ^ 32 \<Longrightarrow> unat lba < n \<Longrightarrow> length buf = 512 \<Longrightarrow>
      \<exists>s'. wr s buf lba = Some (E_DEVICE_OK, s') \<and> good n s'
         \<and> (\<forall>k<n. sec s' k = (if k = unat lba then buf else sec s k))"
begin

lemma wrE:
  assumes "good n s" "n \<le> 2 ^ 32" "unat lba < n" "length buf = 512"
  obtains s' where "wr s buf lba = Some (E_DEVICE_OK, s')" "good n s'"
    "\<forall>k<n. sec s' k = (if k = unat lba then buf else sec s k)"
  using wr_ok [OF assms] by blast

text \<open>A sector reads back as it was last written.\<close>

lemma write_then_read:
  assumes "good n s" "n \<le> 2 ^ 32" "unat lba < n" "length buf = 512" "length buf0 = 512"
  shows "\<exists>s1 s2. wr s buf lba = Some (E_DEVICE_OK, s1)
     \<and> rd s1 buf0 lba = Some (E_DEVICE_OK, buf, s2) \<and> good n s2
     \<and> (\<forall>k<n. k \<noteq> unat lba \<longrightarrow> sec s2 k = sec s k)"
proof -
  obtain s1 where s1: "wr s buf lba = Some (E_DEVICE_OK, s1)" "good n s1"
    "\<forall>k<n. sec s1 k = (if k = unat lba then buf else sec s k)"
    using wrE [OF assms(1-4)] by blast
  obtain s2 where s2: "rd s1 buf0 lba = Some (E_DEVICE_OK, sec s1 (unat lba), s2)" "good n s2"
    "\<forall>k<n. sec s2 k = sec s1 k"
    using rdE [OF s1(2) assms(2,3,5)] by blast
  have "sec s1 (unat lba) = buf" using s1(3) assms(3) by simp
  moreover have "\<forall>k<n. k \<noteq> unat lba \<longrightarrow> sec s2 k = sec s k" using s1(3) s2(3) by simp
  ultimately show ?thesis using s1(1) s2(1,2) by simp
qed

text \<open>Two writes to the same sector: the later one wins and no other sector is touched.\<close>

lemma write_twice:
  assumes "good n s" "n \<le> 2 ^ 32" "unat lba < n" "length b1 = 512" "length b2 = 512"
  shows "\<exists>s1 s2. wr s b1 lba = Some (E_DEVICE_OK, s1) \<and> wr s1 b2 lba = Some (E_DEVICE_OK, s2)
     \<and> good n s2 \<and> (\<forall>k<n. sec s2 k = (if k = unat lba then b2 else sec s k))"
proof -
  obtain s1 where s1: "wr s b1 lba = Some (E_DEVICE_OK, s1)" "good n s1"
    "\<forall>k<n. sec s1 k = (if k = unat lba then b1 else sec s k)"
    using wrE [OF assms(1-4)] by blast
  obtain s2 where "wr s1 b2 lba = Some (E_DEVICE_OK, s2)" "good n s2"
    "\<forall>k<n. sec s2 k = (if k = unat lba then b2 else sec s1 k)"
    using wrE [OF s1(2) assms(2,3,5)] by blast
  with s1 show ?thesis by auto
qed

end

text \<open>One-sector transfers through the VFS entry points, on a descriptor that is not null.\<close>

definition dev_rd :: "'d VFS_DEVICE \<Rightarrow> byte list \<Rightarrow> u32 \<Rightarrow> (E_DEVICE \<times> byte list \<times> 'd VFS_DEVICE) option" where
  "dev_rd dv buf lba = do {
     (r, buf', dv') \<leftarrow> vfs_device_read (Some dv) (Some buf) 1 lba;
     case (buf', dv') of (Some b, Some v) \<Rightarrow> Some (r, b, v) | _ \<Rightarrow> None
   }"

definition dev_wr :: "'d VFS_DEVICE \<Rightarrow> byte list \<Rightarrow> u32 \<Rightarrow> (E_DEVICE \<times> 'd VFS_DEVICE) option" where
  "dev_wr dv buf lba = do {
     (r, dv') \<leftarrow> vfs_device_write (Some dv) (Some buf) 1 lba;
     case dv' of Some v \<Rightarrow> Some (r, v) | _ \<Rightarrow> None
   }"

lemma good_deviceE:
  assumes "good_device n dv"
  obtains I view rd wr where "read_m dv = Some rd" "write_m dv = Some wr"
    "stores_sectors n I view rd wr" "I (device_data dv)"
  using assms unfolding good_device_def by blast

lemma dev_rd_readable:
  assumes g: "readable_device n dv" and n: "n \<le> 2 ^ 32" and l: "unat lba < n" and b: "length buf = 512"
  shows "\<exists>dv'. dev_rd dv buf lba = Some (E_DEVICE_OK, sector dv (unat lba), dv')
     \<and> readable_device n dv' \<and> (\<forall>k<n. sector dv' k = sector dv k)"
proof -
  from g obtain I view rd where m: "read_m dv = Some rd"
    and st: "reads_sectors n I view rd" and I: "I (device_data dv)"
    unfolding readable_device_def by blast
  obtain d1 where d1: "rd (device_data dv) buf 1 lba
      = Some (E_DEVICE_OK, view (device_data dv) (unat lba), d1)" "I d1"
    and v1: "\<forall>k<n. view d1 k = view (device_data dv) k"
    using reads_sectors_readE [OF st I l b] by blast
  let ?dv = "dv\<lparr>device_data := d1\<rparr>"
  have s: "k < n \<Longrightarrow> sector dv k = view (device_data dv) k" for k
    by (rule sector_eq_read_view [OF m st I _ n])
  have s': "k < n \<Longrightarrow> sector ?dv k = view d1 k" for k
    using sector_eq_read_view [of ?dv rd n I view k] m st d1(2) n by simp
  have "dev_rd dv buf lba = Some (E_DEVICE_OK, sector dv (unat lba), ?dv)"
    using m d1(1) s [OF l] by (simp add: dev_rd_def vfs_device_read_def)
  moreover have "readable_device n ?dv"
    unfolding readable_device_def using m st d1(2) by auto
  ultimately show ?thesis using s s' v1 by auto
qed

lemma dev_rd_good:
  assumes g: "good_device n dv" and n: "n \<le> 2 ^ 32" and l: "unat lba < n" and b: "length buf = 512"
  shows "\<exists>dv'. dev_rd dv buf lba = Some (E_DEVICE_OK, sector dv (unat lba), dv')
     \<and> good_device n dv' \<and> (\<forall>k<n. sector dv' k = sector dv k)"
proof -
  from g obtain I view rd wr where m: "read_m dv = Some rd" "write_m dv = Some wr"
    and st: "stores_sectors n I view rd wr" and I: "I (device_data dv)"
    by (rule good_deviceE)
  obtain d1 where d1: "rd (device_data dv) buf 1 lba
      = Some (E_DEVICE_OK, view (device_data dv) (unat lba), d1)" "I d1"
    and v1: "\<forall>k<n. view d1 k = view (device_data dv) k"
    using stores_sectors_readE [OF st I l b] by blast
  let ?dv = "dv\<lparr>device_data := d1\<rparr>"
  have s: "k < n \<Longrightarrow> sector dv k = view (device_data dv) k" for k
    by (rule sector_eq_view [OF m(1) st I _ n])
  have s': "k < n \<Longrightarrow> sector ?dv k = view d1 k" for k
    using sector_eq_view [of ?dv rd n I view wr k] m st d1(2) n by simp
  have "dev_rd dv buf lba = Some (E_DEVICE_OK, sector dv (unat lba), ?dv)"
    using m d1(1) s [OF l] by (simp add: dev_rd_def vfs_device_read_def)
  moreover have "good_device n ?dv"
    unfolding good_device_def using m st d1(2) by auto
  ultimately show ?thesis using s s' v1 by auto
qed

lemma dev_wr_good:
  assumes g: "good_device n dv" and n: "n \<le> 2 ^ 32" and l: "unat lba < n" and b: "length buf = 512"
  shows "\<exists>dv'. dev_wr dv buf lba = Some (E_DEVICE_OK, dv')
     \<and> good_device n dv' \<and> (\<forall>k<n. sector dv' k = (if k = unat lba then buf else sector dv k))"
proof -
  from g obtain I view rd wr where m: "read_m dv = Some rd" "write_m dv = Some wr"
    and st: "stores_sectors n I view rd wr" and I: "I (device_data dv)"
    by (rule good_deviceE)
  obtain d1 where d1: "wr (device_data dv) buf 1 lba = Some (E_DEVICE_OK, d1)" "I d1"
    and v1: "\<forall>k<n. view d1 k = (if k = unat lba then buf else view (device_data dv) k)"
    using stores_sectors_writeE [OF st I l b] by blast
  let ?dv = "dv\<lparr>device_data := d1\<rparr>"
  have s: "k < n \<Longrightarrow> sector dv k = view (device_data dv) k" for k
    by (rule sector_eq_view [OF m(1) st I _ n])
  have s': "k < n \<Longrightarrow> sector ?dv k = view d1 k" for k
    using sector_eq_view [of ?dv rd n I view wr k] m st d1(2) n by simp
  have "dev_wr dv buf lba = Some (E_DEVICE_OK, ?dv)"
    using m d1(1) by (simp add: dev_wr_def vfs_device_write_def)
  moreover have "good_device n ?dv"
    unfolding good_device_def using m st d1(2) by auto
  ultimately show ?thesis using s s' v1 by auto
qed

lemma sector_length:
  assumes g: "readable_device n dv" and n: "n \<le> 2 ^ 32" and k: "k < n"
  shows "length (sector dv k) = 512"
proof -
  from g obtain I view rd where m: "read_m dv = Some rd"
    and st: "reads_sectors n I view rd" and I: "I (device_data dv)"
    unfolding readable_device_def by blast
  have u: "unat (of_nat k :: u32) = k" using n k by (simp add: mem_simps)
  then have "length (view (device_data dv) k) = 512"
    using st I k unfolding reads_sectors_def by metis
  then show ?thesis using sector_eq_read_view [OF m st I k n] by simp
qed

interpretation rdev: sector_reader dev_rd sector readable_device
  by unfold_locales (rule sector_length dev_rd_readable; assumption)+

interpretation vdev: block_device dev_rd sector good_device dev_wr
  by unfold_locales (rule sector_length [OF good_readable] dev_rd_good dev_wr_good; assumption)+

text \<open>A device for reading and writing, or for reading only.\<close>

definition device_ok :: "bool \<Rightarrow> nat \<Rightarrow> 'd VFS_DEVICE \<Rightarrow> bool" where
  "device_ok w n dv \<longleftrightarrow> (if w then good_device n dv else readable_device n dv)"

lemma device_ok_True [simp]: "device_ok True n dv = good_device n dv"
  by (simp add: device_ok_def)

lemma device_ok_readable: "device_ok w n dv \<Longrightarrow> readable_device n dv"
  by (auto simp: device_ok_def good_readable split: if_splits)

lemma device_read_ok:
  assumes "device_ok w n dv" "n \<le> 2 ^ 32" "unat lba < n" "length buf = 512"
  shows "\<exists>dv'. dev_rd dv buf lba = Some (E_DEVICE_OK, sector dv (unat lba), dv')
     \<and> device_ok w n dv' \<and> (\<forall>k<n. sector dv' k = sector dv k)"
  using assms rdev.rd_ok vdev.rd_ok by (cases w) (simp_all add: device_ok_def)

end
