(* ===== verification/Fat32_Layout.thy ===== *)
theory Fat32_Layout
  imports Vfs_Device
begin

text \<open>
  The on-disk structures of \<^verbatim>\<open>fs/fat32.h\<close> and the in-memory partition descriptor: packed
  structs are records with a decoder from the bytes of a sector, and directory entries
  (\<^verbatim>\<open>struct FAT32_NODE\<close>, 32 bytes, sixteen to a sector) also have the encoder, with both
  round trips. \<^verbatim>\<open>init_partition\<close> builds the partition descriptor from a boot record.
\<close>

subsection \<open>The boot record\<close>

record FAT32_BPB =
  jmp_signature :: "byte list"
  oem_identifier :: "byte list"
  bytes_per_sector :: u16
  bpb_sectors_per_cluster :: byte
  bpb_reserved_sectors :: u16
  fats :: byte
  directory_entries :: u16
  sectors_in_volume :: u16
  media_descriptor_type :: byte
  bpb_sectors_per_fat :: u16
  sectors_per_track :: u16
  heads_on_media :: u16
  bpb_hidden_sectors :: u32
  large_sectors_count :: u32

record FAT32_EBR =
  ebr_sectors_per_fat :: u32
  ebr_flags :: u16
  version :: u16
  cluster_of_root :: u32
  sector_of_FSInfo :: u16
  sector_of_backup :: u16
  ebr_reserved :: "byte list"
  drive_number :: byte
  windows_flags :: byte
  signature :: byte
  volume_ID :: u32
  volume_label :: "byte list"
  filesystem_ID :: "byte list"
  boot_code :: "byte list"
  boot_signature :: u16

record FAT32_BOOT_RECORD =
  bpb :: FAT32_BPB
  ebr :: FAT32_EBR

definition bytes_at :: "byte list \<Rightarrow> nat \<Rightarrow> nat \<Rightarrow> byte list" where
  "bytes_at bs i n = take n (drop i bs)"

definition bpb_of_bytes :: "byte list \<Rightarrow> FAT32_BPB" where
  "bpb_of_bytes bs = \<lparr>
     jmp_signature = bytes_at bs 0 3,
     oem_identifier = bytes_at bs 3 8,
     bytes_per_sector = get16 bs 11,
     bpb_sectors_per_cluster = get8 bs 13,
     bpb_reserved_sectors = get16 bs 14,
     fats = get8 bs 16,
     directory_entries = get16 bs 17,
     sectors_in_volume = get16 bs 19,
     media_descriptor_type = get8 bs 21,
     bpb_sectors_per_fat = get16 bs 22,
     sectors_per_track = get16 bs 24,
     heads_on_media = get16 bs 26,
     bpb_hidden_sectors = get32 bs 28,
     large_sectors_count = get32 bs 32\<rparr>"

definition ebr_of_bytes :: "byte list \<Rightarrow> FAT32_EBR" where
  "ebr_of_bytes bs = \<lparr>
     ebr_sectors_per_fat = get32 bs 36,
     ebr_flags = get16 bs 40,
     version = get16 bs 42,
     cluster_of_root = get32 bs 44,
     sector_of_FSInfo = get16 bs 48,
     sector_of_backup = get16 bs 50,
     ebr_reserved = bytes_at bs 52 12,
     drive_number = get8 bs 64,
     windows_flags = get8 bs 65,
     signature = get8 bs 66,
     volume_ID = get32 bs 67,
     volume_label = bytes_at bs 71 11,
     filesystem_ID = bytes_at bs 82 8,
     boot_code = bytes_at bs 90 420,
     boot_signature = get16 bs 510\<rparr>"

definition boot_record_of_bytes :: "byte list \<Rightarrow> FAT32_BOOT_RECORD" where
  "boot_record_of_bytes bs = \<lparr>bpb = bpb_of_bytes bs, ebr = ebr_of_bytes bs\<rparr>"

subsection \<open>Directory entries\<close>

definition FAT32_DA_READ_ONLY :: byte where "FAT32_DA_READ_ONLY = 0x01"
definition FAT32_DA_HIDDEN :: byte where "FAT32_DA_HIDDEN = 0x02"
definition FAT32_DA_SYSTEM :: byte where "FAT32_DA_SYSTEM = 0x04"
definition FAT32_DA_VOLUME_ID :: byte where "FAT32_DA_VOLUME_ID = 0x08"
definition FAT32_DA_DIR :: byte where "FAT32_DA_DIR = 0x10"
definition FAT32_DA_ARCHIVE :: byte where "FAT32_DA_ARCHIVE = 0x20"

record FAT32_NODE =
  filename :: "byte list" \<comment> \<open>\<^verbatim>\<open>int8_t filename[11]\<close>\<close>
  attributes :: byte
  reserved_NT :: byte
  creation_length :: byte
  creation_time :: u16
  creation_date :: u16
  last_accessed_data :: u16
  start_high :: u16
  last_modification_time :: u16
  last_modification_date :: u16
  start_low :: u16
  node_size :: u32

record FAT32_NODE_INFO =
  descriptor_cluster :: u32
  descriptor_offset :: u32
  node :: FAT32_NODE
  parent_cluster :: u32

definition node_of_bytes :: "byte list \<Rightarrow> FAT32_NODE" where
  "node_of_bytes bs = \<lparr>
     filename = bytes_at bs 0 11,
     attributes = get8 bs 11,
     reserved_NT = get8 bs 12,
     creation_length = get8 bs 13,
     creation_time = get16 bs 14,
     creation_date = get16 bs 16,
     last_accessed_data = get16 bs 18,
     start_high = get16 bs 20,
     last_modification_time = get16 bs 22,
     last_modification_date = get16 bs 24,
     start_low = get16 bs 26,
     node_size = get32 bs 28\<rparr>"

definition bytes_of_node :: "FAT32_NODE \<Rightarrow> byte list" where
  "bytes_of_node nd =
     filename nd @ [attributes nd, reserved_NT nd, creation_length nd]
     @ bytes16 (creation_time nd) @ bytes16 (creation_date nd) @ bytes16 (last_accessed_data nd)
     @ bytes16 (start_high nd) @ bytes16 (last_modification_time nd)
     @ bytes16 (last_modification_date nd) @ bytes16 (start_low nd) @ bytes32 (node_size nd)"

text \<open>The all-zero entry, \<^verbatim>\<open>{}\<close> in an initialiser.\<close>

definition zero_node :: FAT32_NODE where
  "zero_node = \<lparr>filename = replicate 11 0, attributes = 0, reserved_NT = 0, creation_length = 0,
     creation_time = 0, creation_date = 0, last_accessed_data = 0, start_high = 0,
     last_modification_time = 0, last_modification_date = 0, start_low = 0, node_size = 0\<rparr>"

definition wf_node :: "FAT32_NODE \<Rightarrow> bool" where
  "wf_node nd \<longleftrightarrow> length (filename nd) = 11"

lemma length_bytes_of_node [len_simps]: "wf_node nd \<Longrightarrow> length (bytes_of_node nd) = 32"
  by (simp add: bytes_of_node_def wf_node_def)

lemma list_of_11:
  assumes "length xs = 11"
  obtains a b c d e f g h i j k where "xs = [a, b, c, d, e, f, g, h, i, j, k]"
  using assms by (auto simp: numeral_eq_Suc length_Suc_conv)

lemma node_of_bytes_of_node [mem_simps]:
  assumes "wf_node nd"
  shows "node_of_bytes (bytes_of_node nd) = nd"
proof -
  from assms have "length (filename nd) = 11" by (simp add: wf_node_def)
  then show ?thesis
    by (elim list_of_11)
      (simp add: node_of_bytes_def bytes_of_node_def bytes_at_def get8_def get16_def get32_def
         bytes16_def bytes32_def le16_bytes le32_bytes)
qed

lemma wf_node_of_bytes [len_simps]: "length bs = 32 \<Longrightarrow> wf_node (node_of_bytes bs)"
  by (simp add: wf_node_def node_of_bytes_def bytes_at_def)

lemma bytes_of_node_of_bytes [mem_simps]:
  assumes "length bs = 32"
  shows "bytes_of_node (node_of_bytes bs) = bs"
proof -
  have "bytes_of_node (node_of_bytes bs) = take 11 bs @ map ((!) bs) [11..<32]"
    by (simp add: bytes_of_node_def node_of_bytes_def bytes_at_def get8_def get16_def get32_def
        bytes16_le16 bytes32_le32)
  also have "\<dots> = bs"
    by (rule nth_equalityI) (use assms in \<open>auto simp: nth_append simp del: upt_rec_numeral\<close>)
  finally show ?thesis .
qed

text \<open>A directory sector is an array of sixteen entries.\<close>

definition entry_at :: "byte list \<Rightarrow> nat \<Rightarrow> FAT32_NODE" where
  "entry_at sec i = node_of_bytes (bytes_at sec (32 * i) 32)"

lemma wf_entry_at [len_simps]: "32 * i + 32 \<le> length sec \<Longrightarrow> wf_node (entry_at sec i)"
  by (simp add: entry_at_def wf_node_of_bytes bytes_at_def)

lemma entry_at_patch_same [mem_simps]:
  assumes "wf_node nd" "32 * i + 32 \<le> length sec"
  shows "entry_at (patch sec (32 * i) (bytes_of_node nd)) i = nd"
  using assms read_patch_same [of "32 * i" "bytes_of_node nd" sec]
  by (simp add: entry_at_def bytes_at_def length_bytes_of_node node_of_bytes_of_node)

lemma take_drop_patch_other:
  assumes "off + length src \<le> length dst" "j + m \<le> off \<or> off + length src \<le> j" "j + m \<le> length dst"
  shows "take m (drop j (patch dst off src)) = take m (drop j dst)"
  by (rule nth_equalityI) (use assms in \<open>auto simp: nth_patch\<close>)

lemma entry_at_patch_other [mem_simps]:
  assumes "wf_node nd" "32 * i + 32 \<le> length sec" "32 * j + 32 \<le> length sec" "i \<noteq> j"
  shows "entry_at (patch sec (32 * i) (bytes_of_node nd)) j = entry_at sec j"
proof -
  have "32 * j + 32 \<le> 32 * i \<or> 32 * i + 32 \<le> 32 * j" using assms(4) by arith
  then show ?thesis
    using assms take_drop_patch_other [of "32 * i" "bytes_of_node nd" sec "32 * j" 32]
    by (simp add: entry_at_def bytes_at_def length_bytes_of_node)
qed

subsection \<open>The partition descriptor\<close>

record FAT32_PARTITION =
  sectors_per_cluster :: byte
  reserved_sectors :: u16
  FATs :: byte
  root_entries :: u16
  sectors :: u32
  sectors_per_fat :: u16
  hidden_sectors :: u32
  label :: "byte list"
  fat_offset :: u32
  data_offset :: u32
  backup_boot_offset :: u32
  fsinfo_offset :: u32
  root_size :: u32
  root_sector :: u32
  buffer :: "u32 list" \<comment> \<open>\<^verbatim>\<open>uint32_t buffer[0x80]\<close>, the cached FAT sector\<close>
  current_sector :: u32
  buffer_loaded :: bool
  buffer_changed :: bool

text \<open>
  \<open>mem\<close> is the descriptor as \<^verbatim>\<open>k_malloc\<close> hands it out: the allocator does not clear
  memory, so the fields the C code leaves unassigned keep what they held.
\<close>

definition init_partition :: "FAT32_PARTITION \<Rightarrow> FAT32_BOOT_RECORD \<Rightarrow> FAT32_PARTITION" where
  "init_partition mem info = (let
     p1 = mem\<lparr>
       sectors_per_cluster := bpb_sectors_per_cluster (bpb info),
       reserved_sectors := bpb_reserved_sectors (bpb info),
       FATs := fats (bpb info),
       root_entries := directory_entries (bpb info),
       sectors := (if sectors_in_volume (bpb info) < 0xFFFF
                   then ucast (sectors_in_volume (bpb info)) else large_sectors_count (bpb info)),
       sectors_per_fat := ucast (ebr_sectors_per_fat (ebr info)),
       hidden_sectors := bpb_hidden_sectors (bpb info)\<rparr>;
     p2 = p1\<lparr>
       backup_boot_offset := ucast (sector_of_backup (ebr info)),
       fsinfo_offset := ucast (sector_of_FSInfo (ebr info)),
       fat_offset := ucast (bpb_reserved_sectors (bpb info)),
       root_size := (ucast (root_entries p1) * 32 + 511) div 512,
       data_offset := ucast (reserved_sectors p1) + ucast (FATs p1) * ucast (sectors_per_fat p1),
       root_sector := cluster_of_root (ebr info),
       buffer_loaded := False,
       buffer_changed := False\<rparr>
     in p2\<lparr>label := volume_label (ebr info)\<rparr>)"

end
