(* ===== verification/Vfs_Partition.thy ===== *)
theory Vfs_Partition
  imports Vfs_Device
begin

text \<open>
  The partitions and node descriptors of \<^verbatim>\<open>fs/vfs.c\<close> as the file systems see them in a call,
  with the accessors that guard against null pointers (\<^term>\<open>None\<close>). A volume is a partition with
  what its pointers lead to: the file system's own data and the device. The table of the
  partitions, whose entries point to the shared table of the devices, and the path front end
  are in the theory \<^verbatim>\<open>Vfs\<close>, where each call loads a volume and stores it back.
\<close>

record ('d, 'p) VFS_VOLUME =
  letter :: byte
  partition_data :: 'p
  device :: "'d VFS_DEVICE"

datatype NODE_TYPE = INVALID | DIRECTORY | FILE

record VFS_NODE_INFO =
  info_name :: "byte list"
  info_size :: u32
  info_access :: u32
  info_type :: NODE_TYPE

record 'n VFS_NODE =
  info :: VFS_NODE_INFO
  node_data :: 'n
  offset :: i32

definition vfs_node_get_data :: "'n VFS_NODE option \<Rightarrow> 'n option" where
  "vfs_node_get_data node = map_option node_data node"

definition vfs_node_get_offset :: "'n VFS_NODE option \<Rightarrow> i32" where
  "vfs_node_get_offset node = (case node of None \<Rightarrow> -1 | Some nd \<Rightarrow> offset nd)"

definition vfs_node_move_offset :: "'n VFS_NODE option \<Rightarrow> i32 \<Rightarrow> i32 \<times> 'n VFS_NODE option" where
  "vfs_node_move_offset node translation =
     (case node of None \<Rightarrow> (-1, None)
      | Some nd \<Rightarrow> (let nd' = nd\<lparr>offset := offset nd + translation\<rparr> in (offset nd', Some nd')))"

definition empty_info :: VFS_NODE_INFO where
  "empty_info = \<lparr>info_name = replicate 64 0, info_size = 0, info_access = 0, info_type = INVALID\<rparr>"

definition info_file :: "'n VFS_NODE option \<Rightarrow> VFS_NODE_INFO" where
  "info_file file = (case file of None \<Rightarrow> empty_info | Some nd \<Rightarrow> info nd)"

text \<open>One-sector transfers on a partition's device, keeping the device the driver returns.\<close>

definition vol_read ::
  "('d, 'p) VFS_VOLUME \<Rightarrow> byte list \<Rightarrow> u32 \<Rightarrow> (E_DEVICE \<times> byte list \<times> ('d, 'p) VFS_VOLUME) option" where
  "vol_read p buf lba = do {
     (r, buf', dv) \<leftarrow> dev_rd (device p) buf lba;
     Some (r, buf', p\<lparr>device := dv\<rparr>)
   }"

definition vol_write ::
  "('d, 'p) VFS_VOLUME \<Rightarrow> byte list \<Rightarrow> u32 \<Rightarrow> (E_DEVICE \<times> ('d, 'p) VFS_VOLUME) option" where
  "vol_write p buf lba = do {
     (r, dv) \<leftarrow> dev_wr (device p) buf lba;
     Some (r, p\<lparr>device := dv\<rparr>)
   }"

lemma vol_read_ok:
  assumes "device_ok w n (device p)" "n \<le> 2 ^ 32" "unat lba < n" "length buf = 512"
  shows "\<exists>dv. vol_read p buf lba = Some (E_DEVICE_OK, sector (device p) (unat lba), p\<lparr>device := dv\<rparr>)
     \<and> device_ok w n dv \<and> (\<forall>k<n. sector dv k = sector (device p) k)"
  using device_read_ok [OF assms] by (auto simp: vol_read_def)

lemma vol_write_ok:
  assumes "good_device n (device p)" "n \<le> 2 ^ 32" "unat lba < n" "length buf = 512"
  shows "\<exists>dv. vol_write p buf lba = Some (E_DEVICE_OK, p\<lparr>device := dv\<rparr>) \<and> good_device n dv
     \<and> (\<forall>k<n. sector dv k = (if k = unat lba then buf else sector (device p) k))"
  using vdev.wr_ok [OF assms] by (auto simp: vol_write_def)

end
