(* ===== verification/Fat32_Table.thy ===== *)
theory Fat32_Table
  imports Fat32_Layout Vfs_Partition
begin

text \<open>
  The file allocation table of \<^verbatim>\<open>fs/fat32.c\<close>: a one-sector write-back cache over two
  copies of the table on the device. \<open>abs_vol\<close> is what a volume means (a table of cluster
  links and the data of each cluster), \<open>vol_ok\<close> the invariant under which the cache
  represents it (\<open>vol_state False\<close> for a device that is only read); every operation is shown to keep the invariant and to act on the
  abstract volume the way the table should.
\<close>

type_synonym 'd fat_volume = "('d, FAT32_PARTITION) VFS_VOLUME"

subsection \<open>Operations\<close>

record FAT32_NODE_POSITION =
  pos_sector :: u32
  pos_offset :: byte

definition calculate_fat_position :: "u32 \<Rightarrow> FAT32_NODE_POSITION" where
  "calculate_fat_position cluster =
     \<lparr>pos_sector = cluster div 128, pos_offset = ucast (cluster mod 128)\<rparr>"

definition save_current_fat :: "'d fat_volume \<Rightarrow> (E_DEVICE \<times> 'd fat_volume) option" where
  "save_current_fat p = (let f = partition_data p in
     if \<not> buffer_changed f \<or> \<not> buffer_loaded f then Some (E_DEVICE_OK, p)
     else do {
       (result, p) \<leftarrow> vol_write p (bytes_of_words (buffer f)) (current_sector f + fat_offset f);
       if result \<noteq> E_DEVICE_OK then Some (result, p)
       else do {
         (result, p) \<leftarrow> vol_write p (bytes_of_words (buffer f))
            (current_sector f + fat_offset f + ucast (sectors_per_fat f));
         Some (result, partition_data_update (buffer_changed_update (\<lambda>_. False)) p)
       }
     })"

definition load_fat_sector :: "'d fat_volume \<Rightarrow> u32 \<Rightarrow> (E_DEVICE \<times> 'd fat_volume) option" where
  "load_fat_sector p sect =
     (if current_sector (partition_data p) = sect \<and> buffer_loaded (partition_data p)
      then Some (E_DEVICE_OK, p)
      else do {
        (result, p) \<leftarrow> save_current_fat p;
        if result \<noteq> E_DEVICE_OK then Some (result, p)
        else do {
          (result, buf, p) \<leftarrow> vol_read p (bytes_of_words (buffer (partition_data p)))
             (sect + fat_offset (partition_data p));
          let p = partition_data_update (buffer_update (\<lambda>_. words_of buf)) p;
          if result = E_DEVICE_OK
          then Some (result, partition_data_update
                 (\<lambda>f. f\<lparr>buffer_loaded := True, current_sector := sect\<rparr>) p)
          else Some (result, p)
        }
      })"

definition get_next_cluster :: "'d fat_volume \<Rightarrow> u32 \<Rightarrow> (u32 \<times> 'd fat_volume) option" where
  "get_next_cluster p cluster = (let pos = calculate_fat_position cluster in do {
     (_, p) \<leftarrow> load_fat_sector p (pos_sector pos);
     Some (buffer (partition_data p) ! unat (pos_offset pos), p)
   })"

text \<open>\<^verbatim>\<open>fat_partition->buffer[pos.offset] = v; fat_partition->buffer_changed = 1;\<close>\<close>

definition put_entry :: "FAT32_NODE_POSITION \<Rightarrow> u32 \<Rightarrow> 'd fat_volume \<Rightarrow> 'd fat_volume" where
  "put_entry pos v p = partition_data_update
     (\<lambda>f. f\<lparr>buffer := (buffer f)[unat (pos_offset pos) := v], buffer_changed := True\<rparr>) p"

text \<open>
  The C function has no \<^verbatim>\<open>return\<close> on its success path; no caller uses the result, which
  is \<^term>\<open>None\<close> there.
\<close>

definition change_fat :: "'d fat_volume \<Rightarrow> u32 \<Rightarrow> u32 \<Rightarrow> (E_DEVICE option \<times> 'd fat_volume) option" where
  "change_fat p end_of_chain_cluster new_cluster = (let
     old_pos = calculate_fat_position end_of_chain_cluster;
     new_pos = calculate_fat_position new_cluster
     in do {
       (result, p) \<leftarrow> load_fat_sector p (pos_sector old_pos);
       if result \<noteq> E_DEVICE_OK then Some (Some result, p)
       else do {
         let p = put_entry old_pos new_cluster p;
         (result, p) \<leftarrow> load_fat_sector p (pos_sector new_pos);
         if result \<noteq> E_DEVICE_OK then Some (Some result, p)
         else do {
           let p = put_entry new_pos 0xFFFFFFF p;
           (_, p) \<leftarrow> save_current_fat p;
           Some (None, p)
         }
       }
     })"

subsection \<open>Volumes: abstraction and invariant\<close>

definition spf :: "'d fat_volume \<Rightarrow> nat" where
  "spf p = unat (sectors_per_fat (partition_data p))"

definition fat_start :: "'d fat_volume \<Rightarrow> nat" where
  "fat_start p = unat (fat_offset (partition_data p))"

definition fat_entries :: "'d fat_volume \<Rightarrow> nat" where
  "fat_entries p = 128 * spf p"

definition data_lba :: "'d fat_volume \<Rightarrow> nat \<Rightarrow> nat" where
  "data_lba p c = unat (data_offset (partition_data p)) + c - 2"

definition cached :: "'d fat_volume \<Rightarrow> nat \<Rightarrow> bool" where
  "cached p s \<longleftrightarrow> buffer_loaded (partition_data p) \<and> unat (current_sector (partition_data p)) = s"

definition dirty :: "'d fat_volume \<Rightarrow> nat \<Rightarrow> bool" where
  "dirty p s \<longleftrightarrow> cached p s \<and> buffer_changed (partition_data p)"

text \<open>The entries of table sector \<open>s\<close>: the cached ones if the sector is cached.\<close>

definition fat_words :: "'d fat_volume \<Rightarrow> nat \<Rightarrow> u32 list" where
  "fat_words p s = (if cached p s then buffer (partition_data p)
                    else words_of (sector (device p) (fat_start p + s)))"

definition fat_view :: "'d fat_volume \<Rightarrow> nat \<Rightarrow> u32" where
  "fat_view p c = fat_words p (c div 128) ! (c mod 128)"

record avol =
  a_fat :: "nat \<Rightarrow> u32" \<comment> \<open>the link of each cluster\<close>
  a_data :: "nat \<Rightarrow> byte list" \<comment> \<open>the 512 bytes of each cluster\<close>

definition abs_vol :: "'d fat_volume \<Rightarrow> avol" where
  "abs_vol p = \<lparr>
     a_fat = (\<lambda>c. if c < fat_entries p then fat_view p c else 0),
     a_data = (\<lambda>c. if 2 \<le> c \<and> c < fat_entries p then sector (device p) (data_lba p c) else [])\<rparr>"

text \<open>Everything in the descriptor but the cache.\<close>

definition geom :: "'d fat_volume \<Rightarrow> FAT32_PARTITION" where
  "geom p = (partition_data p)\<lparr>buffer := [], current_sector := 0, buffer_loaded := False,
     buffer_changed := False\<rparr>"

text \<open>
  Both table copies, then one data sector for every entry of the table, lie on the \<open>n\<close>
  sectors of the device; sector numbers do not wrap.
\<close>

definition layout_ok :: "nat \<Rightarrow> 'd fat_volume \<Rightarrow> bool" where
  "layout_ok n p \<longleftrightarrow> n + 2 \<le> 2 ^ 32
     \<and> fat_start p + 2 * spf p \<le> unat (data_offset (partition_data p))
     \<and> unat (data_offset (partition_data p)) + fat_entries p \<le> n + 2
     \<and> 2 \<le> fat_entries p"

definition cache_ok :: "'d fat_volume \<Rightarrow> bool" where
  "cache_ok p \<longleftrightarrow> length (buffer (partition_data p)) = 128
     \<and> (\<forall>s. cached p s \<longrightarrow> s < spf p
          \<and> (\<not> buffer_changed (partition_data p)
             \<longrightarrow> buffer (partition_data p) = words_of (sector (device p) (fat_start p + s))))"

text \<open>The second copy of the table equals the first but for the sector waiting to be written.\<close>

definition mirrored :: "'d fat_volume \<Rightarrow> bool" where
  "mirrored p \<longleftrightarrow> (\<forall>s < spf p. \<not> dirty p s \<longrightarrow>
     sector (device p) (fat_start p + spf p + s) = sector (device p) (fat_start p + s))"

text \<open>
  The invariant of a volume. With \<open>w\<close> its device can be read and written; without, only
  reading is relied on, and no sector of the table waits to be written.
\<close>

definition vol_state :: "bool \<Rightarrow> nat \<Rightarrow> 'd fat_volume \<Rightarrow> bool" where
  "vol_state w n p \<longleftrightarrow> device_ok w n (device p) \<and> layout_ok n p \<and> cache_ok p \<and> mirrored p
     \<and> (w \<or> \<not> buffer_changed (partition_data p))"

abbreviation vol_ok :: "nat \<Rightarrow> 'd fat_volume \<Rightarrow> bool" where
  "vol_ok \<equiv> vol_state True"

lemma vol_ok_def: "vol_ok n p \<longleftrightarrow> good_device n (device p) \<and> layout_ok n p \<and> cache_ok p \<and> mirrored p"
  by (simp add: vol_state_def)

text \<open>\<open>p'\<close> is a later state of the volume \<open>p\<close>: still well formed, same geometry.\<close>

definition evolves_in :: "bool \<Rightarrow> nat \<Rightarrow> 'd fat_volume \<Rightarrow> 'd fat_volume \<Rightarrow> bool" where
  "evolves_in w n p p' \<longleftrightarrow> vol_state w n p' \<and> geom p' = geom p \<and> letter p' = letter p"

abbreviation evolves :: "nat \<Rightarrow> 'd fat_volume \<Rightarrow> 'd fat_volume \<Rightarrow> bool" where
  "evolves \<equiv> evolves_in True"

lemma evolves_refl: "vol_state w n p \<Longrightarrow> evolves_in w n p p"
  by (simp add: evolves_in_def)

lemma evolves_trans [trans]: "evolves_in w n p q \<Longrightarrow> evolves_in w n q r \<Longrightarrow> evolves_in w n p r"
  by (simp add: evolves_in_def)

lemma evolves_vol_ok [dest]: "evolves_in w n p q \<Longrightarrow> vol_state w n q"
  by (simp add: evolves_in_def)

lemma geom_fields:
  assumes "geom q = geom p"
  shows "sectors_per_fat (partition_data q) = sectors_per_fat (partition_data p)"
    "fat_offset (partition_data q) = fat_offset (partition_data p)"
    "data_offset (partition_data q) = data_offset (partition_data p)"
    "root_sector (partition_data q) = root_sector (partition_data p)"
proof -
  show "sectors_per_fat (partition_data q) = sectors_per_fat (partition_data p)"
    using arg_cong [OF assms, of sectors_per_fat] by (simp add: geom_def)
  show "fat_offset (partition_data q) = fat_offset (partition_data p)"
    using arg_cong [OF assms, of fat_offset] by (simp add: geom_def)
  show "data_offset (partition_data q) = data_offset (partition_data p)"
    using arg_cong [OF assms, of data_offset] by (simp add: geom_def)
  show "root_sector (partition_data q) = root_sector (partition_data p)"
    using arg_cong [OF assms, of root_sector] by (simp add: geom_def)
qed

lemma geom_derived:
  assumes "geom q = geom p"
  shows "spf q = spf p" "fat_start q = fat_start p" "fat_entries q = fat_entries p"
    "data_lba q = data_lba p" "layout_ok n q = layout_ok n p"
  using geom_fields [OF assms]
  by (simp_all add: spf_def fat_start_def fat_entries_def data_lba_def layout_ok_def fun_eq_iff)

lemmas evolves_geom = geom_fields [OF evolves_in_def [THEN iffD1, THEN conjunct2, THEN conjunct1]]
  geom_derived [OF evolves_in_def [THEN iffD1, THEN conjunct2, THEN conjunct1]]

lemma unat_ucast_16_32 [simp]: "unat (ucast (w::u16) :: u32) = unat w"
  by (simp add: unsigned_ucast_eq take_bit_nat_eq_self_iff less_le_trans [OF unsigned_less])

lemma vol_stateD:
  assumes "vol_state w n p"
  shows "device_ok w n (device p)" "layout_ok n p" "cache_ok p" "mirrored p" "n \<le> 2 ^ 32"
    "length (buffer (partition_data p)) = 128" "w \<or> \<not> buffer_changed (partition_data p)"
  using assms by (auto simp: vol_state_def layout_ok_def cache_ok_def)

lemmas vol_okD = vol_stateD [where w = True, unfolded device_ok_True]

text \<open>Sector numbers are computed without wrap-around.\<close>

lemma fat_lba:
  assumes "layout_ok n p" "unat x < spf p"
  shows "unat (x + fat_offset (partition_data p)) = fat_start p + unat x"
    "unat (x + fat_offset (partition_data p) + ucast (sectors_per_fat (partition_data p)))
     = fat_start p + spf p + unat x"
    "fat_start p + unat x < n" "fat_start p + spf p + unat x < n"
proof -
  from assms have b: "fat_start p + spf p + unat x < n" "n \<le> 2 ^ 32"
    by (auto simp: layout_ok_def fat_entries_def)
  have 1: "unat (x + fat_offset (partition_data p)) = unat x + fat_start p"
    using b by (simp add: fat_start_def unat_add_u32)
  then show "unat (x + fat_offset (partition_data p)) = fat_start p + unat x" by simp
  show "unat (x + fat_offset (partition_data p) + ucast (sectors_per_fat (partition_data p)))
     = fat_start p + spf p + unat x"
    using b 1 by (subst unat_add_u32) (simp_all add: spf_def)
  show "fat_start p + unat x < n" "fat_start p + spf p + unat x < n" using b by auto
qed

lemma data_lba_bounds:
  assumes "layout_ok n p" "2 \<le> c" "c < fat_entries p"
  shows "fat_start p + 2 * spf p \<le> data_lba p c" "data_lba p c < n"
  using assms by (auto simp: layout_ok_def data_lba_def)

lemma data_lba_inj:
  assumes "2 \<le> c" "2 \<le> d" shows "data_lba p c = data_lba p d \<longleftrightarrow> c = d"
  using assms by (auto simp: data_lba_def)

lemma abs_vol_eqI:
  assumes g: "geom q = geom p"
    and f: "\<And>s. s < spf p \<Longrightarrow> fat_words q s = fat_words p s"
    and d: "\<And>c. 2 \<le> c \<Longrightarrow> c < fat_entries p \<Longrightarrow>
      sector (device q) (data_lba p c) = sector (device p) (data_lba p c)"
  shows "abs_vol q = abs_vol p"
  using geom_derived [OF g] f d
  by (auto simp: abs_vol_def fun_eq_iff fat_view_def fat_entries_def)

lemma cache_update_simps [simp]:
  "geom (partition_data_update f p) = (f (partition_data p))\<lparr>buffer := [], current_sector := 0,
     buffer_loaded := False, buffer_changed := False\<rparr>"
  "geom (p\<lparr>device := dv\<rparr>) = geom p"
  "spf (p\<lparr>device := dv\<rparr>) = spf p"
  "fat_start (p\<lparr>device := dv\<rparr>) = fat_start p"
  "fat_entries (p\<lparr>device := dv\<rparr>) = fat_entries p"
  "data_lba (p\<lparr>device := dv\<rparr>) = data_lba p"
  "layout_ok n (p\<lparr>device := dv\<rparr>) = layout_ok n p"
  "cached (p\<lparr>device := dv\<rparr>) = cached p"
  "dirty (p\<lparr>device := dv\<rparr>) = dirty p"
  by (simp_all add: geom_def spf_def fat_start_def fat_entries_def data_lba_def layout_ok_def
      cached_def dirty_def fun_eq_iff)

subsection \<open>Writing the cache back\<close>

text \<open>The state after the two sector writes of \<^verbatim>\<open>save_current_fat\<close>.\<close>

lemma saved_ok:
  assumes ok: "vol_ok n p" and dirty: "dirty p s"
    and q: "q = partition_data_update (buffer_changed_update (\<lambda>_. False)) (p\<lparr>device := dv\<rparr>)"
    and g: "good_device n dv"
    and dv: "\<forall>k<n. sector dv k = (if k = fat_start p + spf p + s \<or> k = fat_start p + s
        then bytes_of_words (buffer (partition_data p)) else sector (device p) k)"
  shows "evolves n p q \<and> abs_vol q = abs_vol p \<and> \<not> dirty q s'"
proof -
  note okD = vol_okD [OF ok]
  have s: "s < spf p" "cached p s" "unat (current_sector (partition_data p)) = s"
    using dirty okD(3) by (auto simp: dirty_def cached_def cache_ok_def)
  have geo: "geom q = geom p" by (simp add: q geom_def)
  note gd = geom_derived [OF geo]
  have cq: "cached q t \<longleftrightarrow> t = s" for t
    using s by (auto simp: q cached_def)
  have lay: "t < spf p \<Longrightarrow> fat_start p + t < n \<and> fat_start p + spf p + t < n" for t
    using okD(2) by (auto simp: layout_ok_def fat_entries_def)
  have bq: "buffer (partition_data q) = buffer (partition_data p)"
    and chq: "\<not> buffer_changed (partition_data q)" and devq: "device q = dv"
    by (simp_all add: q)
  have cache: "cache_ok q"
    using s okD(6) lay [OF s(1)] dv gd by (auto simp: cache_ok_def cq bq devq)
  have mir: "mirrored q"
    unfolding mirrored_def
  proof (intro allI impI)
    fix t assume "t < spf q" "\<not> dirty q t"
    then have t: "t < spf p" using gd by simp
    then have "\<not> dirty p t \<or> t = s"
      using s by (auto simp: dirty_def cached_def)
    then show "sector (device q) (fat_start q + spf q + t) = sector (device q) (fat_start q + t)"
      using okD(4) dv lay [OF t] t s(1) gd by (auto simp: devq mirrored_def)
  qed
  have "abs_vol q = abs_vol p"
  proof (rule abs_vol_eqI [OF geo])
    fix t assume t: "t < spf p"
    have "cached p t \<longleftrightarrow> t = s" using s by (auto simp: cached_def)
    then show "fat_words q t = fat_words p t"
      using dv lay [OF t] t s(1) gd by (auto simp: fat_words_def cq bq devq)
  next
    fix c assume c: "2 \<le> c" "c < fat_entries p"
    show "sector (device q) (data_lba p c) = sector (device p) (data_lba p c)"
      using dv data_lba_bounds [OF okD(2) c] s(1) by (auto simp: devq)
  qed
  moreover have "evolves n p q"
    using geo gd okD(2) cache mir g by (simp add: evolves_in_def vol_ok_def devq) (simp add: q)
  ultimately show ?thesis by (simp add: dirty_def chq)
qed

lemma save_current_fat_ok:
  assumes ok: "vol_state w n p"
  shows "\<exists>q. save_current_fat p = Some (E_DEVICE_OK, q) \<and> evolves_in w n p q
     \<and> abs_vol q = abs_vol p \<and> (\<forall>s. \<not> dirty q s)"
proof (cases "buffer_changed (partition_data p) \<and> buffer_loaded (partition_data p)")
  case False
  then show ?thesis
    using ok by (auto simp: save_current_fat_def Let_def evolves_refl dirty_def cached_def)
next
  case True
  then have w: "w = True" using vol_stateD(7) [OF ok] by blast
  note ok = ok [unfolded w] and okD = vol_okD [OF ok [unfolded w]]
  let ?f = "partition_data p" and ?s = "unat (current_sector (partition_data p))"
  let ?b = "bytes_of_words (buffer ?f)"
  have d: "dirty p ?s" using True by (simp add: dirty_def cached_def)
  have s: "?s < spf p" using okD(3) d by (auto simp: cache_ok_def dirty_def)
  note lba = fat_lba [OF okD(2) s]
  have b: "length ?b = 512" using okD(6) by simp
  have l: "unat (current_sector ?f + fat_offset ?f) < n"
    "unat (current_sector ?f + fat_offset ?f + ucast (sectors_per_fat ?f)) < n"
    using lba by simp_all
  obtain dv1 where w1: "vol_write p ?b (current_sector ?f + fat_offset ?f)
      = Some (E_DEVICE_OK, p\<lparr>device := dv1\<rparr>)" "good_device n dv1"
    and v1: "\<forall>k<n. sector dv1 k = (if k = fat_start p + ?s then ?b else sector (device p) k)"
    using vol_write_ok [OF okD(1,5) l(1) b] by (auto simp: lba)
  have g1: "good_device n (device (p\<lparr>device := dv1\<rparr>))" using w1(2) by simp
  obtain dv2 where w2: "vol_write (p\<lparr>device := dv1\<rparr>) ?b
      (current_sector ?f + fat_offset ?f + ucast (sectors_per_fat ?f))
      = Some (E_DEVICE_OK, p\<lparr>device := dv1\<rparr>\<lparr>device := dv2\<rparr>)" "good_device n dv2"
    and v2: "\<forall>k<n. sector dv2 k = (if k = fat_start p + spf p + ?s then ?b else sector dv1 k)"
    using vol_write_ok [OF g1 okD(5) l(2) b] by (auto simp: lba)
  let ?q = "partition_data_update (buffer_changed_update (\<lambda>_. False)) (p\<lparr>device := dv2\<rparr>)"
  have "save_current_fat p = Some (E_DEVICE_OK, ?q)"
    using True w1(1) w2(1) by (simp add: save_current_fat_def Let_def)
  then show ?thesis
    using saved_ok [OF ok d refl w2(2)] v1 v2 unfolding w by auto
qed

subsection \<open>Loading a table sector\<close>

lemma loaded_ok:
  assumes ok: "vol_state w n p" and clean: "\<And>s. \<not> dirty p s" and nc: "\<not> cached p (unat sect)"
    and s: "unat sect < spf p"
    and q: "q = partition_data_update (\<lambda>f. f\<lparr>buffer_loaded := True, current_sector := sect\<rparr>)
       (partition_data_update (buffer_update (\<lambda>_. words_of (sector (device p) (fat_start p + unat sect))))
         (p\<lparr>device := dv\<rparr>))"
    and g: "device_ok w n dv" and dv: "\<forall>k<n. sector dv k = sector (device p) k"
  shows "evolves_in w n p q \<and> abs_vol q = abs_vol p \<and> cached q (unat sect)"
proof -
  note okD = vol_stateD [OF ok]
  have geo: "geom q = geom p" by (simp add: q geom_def)
  note gd = geom_derived [OF geo]
  have cq: "cached q t \<longleftrightarrow> t = unat sect" for t
    by (auto simp: q cached_def)
  have bq: "buffer (partition_data q) = words_of (sector (device p) (fat_start p + unat sect))"
    and devq: "device q = dv"
    and chq: "buffer_changed (partition_data q) = buffer_changed (partition_data p)"
    by (simp_all add: q)
  have lay: "t < spf p \<Longrightarrow> fat_start p + t < n \<and> fat_start p + spf p + t < n" for t
    using okD(2) by (auto simp: layout_ok_def fat_entries_def)
  have len: "length (buffer (partition_data q)) = 128"
    using lay [OF s] rdev.sec_length [OF device_ok_readable [OF okD(1)] okD(5)] by (simp add: bq length_words_of)
  have cache: "cache_ok q"
    using s lay [OF s] dv gd len by (auto simp: cache_ok_def cq bq devq)
  have mir: "mirrored q"
    unfolding mirrored_def
  proof (intro allI impI)
    fix t assume "t < spf q"
    then have t: "t < spf p" using gd by simp
    then show "sector (device q) (fat_start q + spf q + t) = sector (device q) (fat_start q + t)"
      using okD(4) clean dv lay [OF t] gd by (auto simp: devq mirrored_def)
  qed
  have "abs_vol q = abs_vol p"
  proof (rule abs_vol_eqI [OF geo])
    fix t assume t: "t < spf p"
    have "fat_words p t = words_of (sector (device p) (fat_start p + t))"
      using okD(3) clean by (auto simp: fat_words_def cache_ok_def dirty_def)
    then show "fat_words q t = fat_words p t"
      using dv lay [OF t] gd by (auto simp: fat_words_def cq bq devq)
  next
    fix c assume c: "2 \<le> c" "c < fat_entries p"
    show "sector (device q) (data_lba p c) = sector (device p) (data_lba p c)"
      using dv data_lba_bounds [OF okD(2) c] by (auto simp: devq)
  qed
  moreover have "evolves_in w n p q"
    using geo gd okD(2,7) cache mir g by (simp add: evolves_in_def vol_state_def devq chq) (simp add: q)
  ultimately show ?thesis by (simp add: cq)
qed

lemma load_fat_sector_ok:
  assumes ok: "vol_state w n p" and s: "unat sect < spf p"
  shows "\<exists>q. load_fat_sector p sect = Some (E_DEVICE_OK, q) \<and> evolves_in w n p q
     \<and> abs_vol q = abs_vol p \<and> cached q (unat sect)"
proof (cases "current_sector (partition_data p) = sect \<and> buffer_loaded (partition_data p)")
  case True
  then show ?thesis using ok by (auto simp: load_fat_sector_def evolves_refl cached_def)
next
  case False
  obtain p1 where p1: "save_current_fat p = Some (E_DEVICE_OK, p1)" "evolves_in w n p p1"
    "abs_vol p1 = abs_vol p" "\<And>t. \<not> dirty p1 t"
    using save_current_fat_ok [OF ok] by blast
  have ok1: "vol_state w n p1" using p1(2) by blast
  note okD = vol_stateD [OF ok1]
  have same: "current_sector (partition_data p1) = current_sector (partition_data p)
      \<and> buffer_loaded (partition_data p1) = buffer_loaded (partition_data p)"
    using p1(1) by (auto simp: save_current_fat_def vol_write_def Let_def
        split: if_splits bind_splits)
  have nc: "\<not> cached p1 (unat sect)"
    using False same by (auto simp: cached_def)
  have s1: "unat sect < spf p1" using s evolves_geom [OF p1(2)] by simp
  note lba = fat_lba [OF okD(2) s1]
  have l: "unat (sect + fat_offset (partition_data p1)) < n" using lba by simp
  have b: "length (bytes_of_words (buffer (partition_data p1))) = 512" using okD(6) by simp
  obtain dv where dv: "vol_read p1 (bytes_of_words (buffer (partition_data p1)))
        (sect + fat_offset (partition_data p1))
      = Some (E_DEVICE_OK, sector (device p1) (fat_start p1 + unat sect), p1\<lparr>device := dv\<rparr>)"
    "device_ok w n dv" "\<forall>k<n. sector dv k = sector (device p1) k"
    using vol_read_ok [OF okD(1,5) l b] by (auto simp: lba)
  let ?q = "partition_data_update (\<lambda>f. f\<lparr>buffer_loaded := True, current_sector := sect\<rparr>)
       (partition_data_update (buffer_update (\<lambda>_. words_of (sector (device p1) (fat_start p1 + unat sect))))
         (p1\<lparr>device := dv\<rparr>))"
  have "load_fat_sector p sect = Some (E_DEVICE_OK, ?q)"
    using False p1(1) dv(1) by (auto simp: load_fat_sector_def Let_def)
  moreover have q: "evolves_in w n p1 ?q \<and> abs_vol ?q = abs_vol p1 \<and> cached ?q (unat sect)"
    by (rule loaded_ok [OF ok1 p1(4) nc s1 refl dv(2,3)])
  moreover have "evolves_in w n p ?q" using evolves_trans [OF p1(2)] q by blast
  ultimately show ?thesis using p1(3) by (intro exI [of _ ?q]) simp
qed

subsection \<open>Reading and writing entries\<close>

lemma fat_position [simp]:
  "unat (pos_sector (calculate_fat_position c)) = unat c div 128"
  "unat (pos_offset (calculate_fat_position c)) = unat c mod 128"
proof -
  show "unat (pos_sector (calculate_fat_position c)) = unat c div 128"
    by (simp add: calculate_fat_position_def unat_div)
  have "unat (c mod 128) < 128" by (simp add: unat_mod)
  then show "unat (pos_offset (calculate_fat_position c)) = unat c mod 128"
    by (simp add: calculate_fat_position_def unsigned_ucast_eq take_bit_nat_eq_self unat_mod)
qed

lemma entry_sector: "c < fat_entries p \<Longrightarrow> c div 128 < spf p"
  by (simp add: fat_entries_def less_mult_imp_div_less mult.commute)

lemma fat_view_cached: "cached p (c div 128) \<Longrightarrow> fat_view p c = buffer (partition_data p) ! (c mod 128)"
  by (simp add: fat_view_def fat_words_def)

lemma get_next_cluster_ok:
  assumes ok: "vol_state w n p" and c: "unat c < fat_entries p"
  shows "\<exists>q. get_next_cluster p c = Some (a_fat (abs_vol p) (unat c), q) \<and> evolves_in w n p q
     \<and> abs_vol q = abs_vol p \<and> cached q (unat c div 128)"
proof -
  have s: "unat (pos_sector (calculate_fat_position c)) < spf p"
    using entry_sector [OF c] by simp
  obtain q where q: "load_fat_sector p (pos_sector (calculate_fat_position c)) = Some (E_DEVICE_OK, q)"
    "evolves_in w n p q" "abs_vol q = abs_vol p" "cached q (unat c div 128)"
    using load_fat_sector_ok [OF ok s] by auto
  have "a_fat (abs_vol q) (unat c) = buffer (partition_data q) ! (unat c mod 128)"
    using c evolves_geom [OF q(2)] by (simp add: abs_vol_def fat_view_cached [OF q(4)])
  then have "get_next_cluster p c = Some (a_fat (abs_vol p) (unat c), q)"
    using q(1,3) by (simp add: get_next_cluster_def Let_def)
  with q(2-4) show ?thesis by blast
qed

lemma put_entry_ok:
  assumes ok: "vol_ok n p" and c: "unat c < fat_entries p" and ca: "cached p (unat c div 128)"
    and q: "q = put_entry (calculate_fat_position c) v p"
  shows "evolves n p q \<and> abs_vol q = (abs_vol p)\<lparr>a_fat := (a_fat (abs_vol p))(unat c := v)\<rparr>
     \<and> cached q (unat c div 128)"
proof -
  note okD = vol_okD [OF ok]
  let ?s = "unat c div 128"
  have geo: "geom q = geom p" by (simp add: q put_entry_def geom_def)
  note gd = geom_derived [OF geo]
  have bq: "buffer (partition_data q) = (buffer (partition_data p))[unat c mod 128 := v]"
    and devq: "device q = device p" and chq: "buffer_changed (partition_data q)"
    by (simp_all add: q put_entry_def)
  have cs: "cached p t \<longleftrightarrow> t = ?s" for t using ca by (auto simp: cached_def)
  have cq: "cached q t \<longleftrightarrow> t = ?s" for t
    using ca by (auto simp: q put_entry_def cached_def)
  have cache: "cache_ok q"
    using okD(6) entry_sector [OF c] gd by (auto simp: cache_ok_def cq bq chq)
  have mir: "mirrored q"
    using okD(4) gd by (auto simp: mirrored_def devq dirty_def cq cs chq)
  have "fat_view q d = (if d = unat c then v else fat_view p d)" for d
  proof (cases "d div 128 = ?s")
    case True
    then have "d = unat c \<longleftrightarrow> d mod 128 = unat c mod 128"
      by (metis div_mult_mod_eq)
    then show ?thesis
      using True okD(6) by (auto simp: fat_view_def fat_words_def cq cs bq)
  next
    case False
    then show ?thesis using gd by (auto simp: fat_view_def fat_words_def cq cs devq)
  qed
  then have "abs_vol q = (abs_vol p)\<lparr>a_fat := (a_fat (abs_vol p))(unat c := v)\<rparr>"
    using c gd by (auto simp: abs_vol_def fun_eq_iff devq)
  moreover have "evolves n p q"
    using geo gd okD cache mir by (simp add: evolves_in_def vol_ok_def devq) (simp add: q put_entry_def)
  ultimately show ?thesis by (simp add: cq)
qed

lemma change_fat_ok:
  assumes ok: "vol_ok n p" and e: "unat e < fat_entries p" and c: "unat c < fat_entries p"
  shows "\<exists>q. change_fat p e c = Some (None, q) \<and> evolves n p q \<and> (\<forall>s. \<not> dirty q s)
     \<and> abs_vol q = (abs_vol p)\<lparr>a_fat := (a_fat (abs_vol p))(unat e := c, unat c := 0xFFFFFFF)\<rparr>"
proof -
  have s: "unat (pos_sector (calculate_fat_position e)) < spf p"
    using entry_sector [OF e] by simp
  obtain p1 where p1: "load_fat_sector p (pos_sector (calculate_fat_position e)) = Some (E_DEVICE_OK, p1)"
    "evolves n p p1" "abs_vol p1 = abs_vol p" "cached p1 (unat e div 128)"
    using load_fat_sector_ok [OF ok s] by auto
  let ?p2 = "put_entry (calculate_fat_position e) c p1"
  have p2: "evolves n p1 ?p2"
    "abs_vol ?p2 = (abs_vol p1)\<lparr>a_fat := (a_fat (abs_vol p1))(unat e := c)\<rparr>"
    using put_entry_ok [OF _ _ p1(4) refl] p1(2) e evolves_geom [OF p1(2)] by auto
  have e2: "evolves n p ?p2" using p1(2) p2(1) by (rule evolves_trans)
  have "unat (pos_sector (calculate_fat_position c)) < spf ?p2"
    using entry_sector [OF c] evolves_geom [OF e2] by simp
  then obtain p3 where p3: "load_fat_sector ?p2 (pos_sector (calculate_fat_position c)) = Some (E_DEVICE_OK, p3)"
    "evolves n ?p2 p3" "abs_vol p3 = abs_vol ?p2" "cached p3 (unat c div 128)"
    using load_fat_sector_ok [OF evolves_vol_ok [OF e2]] by fastforce
  let ?p4 = "put_entry (calculate_fat_position c) 0xFFFFFFF p3"
  have e3: "evolves n p p3" using e2 p3(2) by (rule evolves_trans)
  have p4: "evolves n p3 ?p4"
    "abs_vol ?p4 = (abs_vol p3)\<lparr>a_fat := (a_fat (abs_vol p3))(unat c := 0xFFFFFFF)\<rparr>"
    using put_entry_ok [OF evolves_vol_ok [OF e3] _ p3(4) refl] c evolves_geom [OF e3] by auto
  obtain q where q: "save_current_fat ?p4 = Some (E_DEVICE_OK, q)" "evolves n ?p4 q"
    "abs_vol q = abs_vol ?p4" "\<forall>s. \<not> dirty q s"
    using save_current_fat_ok [OF evolves_vol_ok [OF p4(1)]] by blast
  have "change_fat p e c = Some (None, q)"
    using p1(1) p3(1) q(1) by (simp add: change_fat_def Let_def)
  moreover have "evolves n p q" using e3 p4(1) q(2) evolves_trans by blast
  moreover have "abs_vol q = (abs_vol p)\<lparr>a_fat := (a_fat (abs_vol p))(unat e := c, unat c := 0xFFFFFFF)\<rparr>"
    using q(3) p4(2) p3(3) p2(2) p1(3) by simp
  ultimately show ?thesis using q(4) by blast
qed

end
