(* ===== verification/Fat32_Cluster.thy ===== *)
theory Fat32_Cluster
  imports Fat32_Table
begin

text \<open>
  Cluster input and output, allocation, chain traversal and chain deletion of
  \<^verbatim>\<open>fs/fat32.c\<close>. \<open>chain\<close> is the list of clusters a table links from a first cluster to an
  end-of-chain mark. \<^verbatim>\<open>traverse_fat_coroutine\<close> takes the action to run on a cluster as a
  function pointer; what it relies on is the locale \<open>cluster_action\<close>, interpreted on the
  three actions the code passes.
\<close>

subsection \<open>Operations\<close>

text \<open>A sector-sized array on the stack, whose contents are set by the device before use.\<close>

definition temp_sector :: "byte list" where
  "temp_sector = replicate 512 0"

definition cluster_lba :: "FAT32_PARTITION \<Rightarrow> u32 \<Rightarrow> u32" where
  "cluster_lba f cluster = data_offset f + cluster - 2"

definition read_cluster ::
  "'d fat_volume \<Rightarrow> u32 \<Rightarrow> byte list \<Rightarrow> (E_DEVICE \<times> byte list \<times> 'd fat_volume) option" where
  "read_cluster p cluster buf = vol_read p buf (cluster_lba (partition_data p) cluster)"

definition write_cluster ::
  "'d fat_volume \<Rightarrow> u32 \<Rightarrow> byte list \<Rightarrow> (E_DEVICE \<times> 'd fat_volume) option" where
  "write_cluster p cluster buf = vol_write p buf (cluster_lba (partition_data p) cluster)"

text \<open>
  An action gets the caller's buffer from the position its pointer argument has, and
  returns it as it left it. A copy that leaves the 512-byte array or the buffer has no
  defined result.
\<close>

type_synonym 'd CLUSTER_ACTION =
  "'d fat_volume \<Rightarrow> u32 \<Rightarrow> byte list \<Rightarrow> u32 \<Rightarrow> u32 \<Rightarrow> (E_DEVICE \<times> byte list \<times> 'd fat_volume) option"

definition read_part_cluster :: "'d CLUSTER_ACTION" where
  "read_part_cluster p cluster buf sz off = do {
     (result, temp, p) \<leftarrow> read_cluster p cluster temp_sector;
     if result \<noteq> E_DEVICE_OK then Some (result, buf, p)
     else do {
       part \<leftarrow> copy_from temp (unat off) (unat sz);
       buf \<leftarrow> copy_into buf 0 part;
       Some (E_DEVICE_OK, buf, p)
     }
   }"

definition idle_cluster :: "'d CLUSTER_ACTION" where
  "idle_cluster p cluster buf sz off = Some (E_DEVICE_OK, buf, p)"

definition write_part_cluster :: "'d CLUSTER_ACTION" where
  "write_part_cluster p cluster buf sz off = do {
     (result, temp, p) \<leftarrow> read_cluster p cluster temp_sector;
     if result \<noteq> E_DEVICE_OK then Some (result, buf, p)
     else do {
       part \<leftarrow> copy_from buf 0 (unat sz);
       temp \<leftarrow> copy_into temp (unat off) part;
       (result, p) \<leftarrow> write_cluster p cluster temp;
       Some (result, buf, p)
     }
   }"

text \<open>The \<^verbatim>\<open>for\<close> loop of \<^verbatim>\<open>find_empty_cluster\<close>, over the candidates still to try.\<close>

fun find_empty_loop :: "'d fat_volume \<Rightarrow> nat list \<Rightarrow> (u32 \<times> 'd fat_volume) option" where
  "find_empty_loop p [] = Some (0, p)"
| "find_empty_loop p (i # is) = do {
     (potential_cluster, p) \<leftarrow> get_next_cluster p (of_nat i);
     if potential_cluster = 0 then Some (of_nat i, p) else find_empty_loop p is
   }"

definition find_empty_cluster :: "'d fat_volume \<Rightarrow> (u32 \<times> 'd fat_volume) option" where
  "find_empty_cluster p = find_empty_loop p [2..<unat (sectors_per_fat (partition_data p)) * 128]"

definition allocate_cluster :: "'d fat_volume \<Rightarrow> u32 \<Rightarrow> (u32 \<times> 'd fat_volume) option" where
  "allocate_cluster p end_of_cluster = do {
     (new_cluster, p) \<leftarrow> find_empty_cluster p;
     if new_cluster = 0 then Some (0, p)
     else do {
       (result, p) \<leftarrow> write_cluster p new_cluster (replicate 512 0);
       if result \<noteq> E_DEVICE_OK then Some (0, p)
       else do {
         (_, p) \<leftarrow> change_fat p (if end_of_cluster = 0 then new_cluster else end_of_cluster) new_cluster;
         Some (new_cluster, p)
       }
     }
   }"

text \<open>The first mark that ends a chain: \<^verbatim>\<open>0xFFFFFF8\<close>.\<close>

definition EOC :: u32 where
  "EOC = 0xFFFFFF8"

definition traverse_fat_coroutine ::
  "'d fat_volume \<Rightarrow> byte list \<Rightarrow> u32 \<Rightarrow> u32 \<Rightarrow> u32 \<Rightarrow> 'd CLUSTER_ACTION \<Rightarrow> bool
   \<Rightarrow> (u32 \<times> byte list \<times> 'd fat_volume) option" where
  "traverse_fat_coroutine p buf cluster sz off action is_allocating =
     (if cluster = 0 \<or> cluster \<ge> EOC then Some (0, buf, p)
      else do {
        (_, buf, p) \<leftarrow> action p cluster buf sz off;
        (new_cluster, p) \<leftarrow> get_next_cluster p cluster;
        if new_cluster \<ge> EOC \<and> is_allocating
        then do { (c, p) \<leftarrow> allocate_cluster p cluster; Some (c, buf, p) }
        else Some (new_cluster, buf, p)
      })"

definition get_cluster_from_node :: "FAT32_PARTITION \<Rightarrow> FAT32_NODE option \<Rightarrow> u32" where
  "get_cluster_from_node f dir = (case dir of None \<Rightarrow> root_sector f
     | Some nd \<Rightarrow> push_bit 16 (ucast (start_high nd)) OR ucast (start_low nd))"

text \<open>The \<^verbatim>\<open>while\<close> loop of \<^verbatim>\<open>delete_fat_chain\<close>; nothing bounds it but the table's contents.\<close>

partial_function (option) delete_loop :: "'d fat_volume \<Rightarrow> u32 \<Rightarrow> 'd fat_volume option" where
  "delete_loop p current_cluster =
     (if 2 \<le> current_cluster \<and> current_cluster < EOC
      then do {
        (next_cluster, p) \<leftarrow> get_next_cluster p current_cluster;
        (_, p) \<leftarrow> load_fat_sector p (pos_sector (calculate_fat_position current_cluster));
        delete_loop (put_entry (calculate_fat_position current_cluster) 0 p) next_cluster
      }
      else Some p)"

definition delete_fat_chain :: "'d fat_volume \<Rightarrow> u32 \<Rightarrow> (E_DEVICE \<times> 'd fat_volume) option" where
  "delete_fat_chain p start_cluster = do {
     p \<leftarrow> delete_loop p start_cluster;
     save_current_fat p
   }"

subsection \<open>Chains\<close>

fun chain :: "(nat \<Rightarrow> u32) \<Rightarrow> u32 \<Rightarrow> u32 list \<Rightarrow> bool" where
  "chain F c [] \<longleftrightarrow> EOC \<le> c"
| "chain F c (x # xs) \<longleftrightarrow> x = c \<and> c \<noteq> 0 \<and> c < EOC \<and> chain F (F (unat c)) xs"

definition valid_cluster :: "'d fat_volume \<Rightarrow> u32 \<Rightarrow> bool" where
  "valid_cluster p c \<longleftrightarrow> 2 \<le> unat c \<and> unat c < fat_entries p"

definition file_chain :: "'d fat_volume \<Rightarrow> u32 \<Rightarrow> u32 list \<Rightarrow> bool" where
  "file_chain p c cs \<longleftrightarrow> chain (a_fat (abs_vol p)) c cs \<and> (\<forall>x \<in> set cs. valid_cluster p x)"

lemma chain_unique: "chain F c xs \<Longrightarrow> chain F c ys \<Longrightarrow> xs = ys"
proof (induction xs arbitrary: c ys)
  case Nil
  then show ?case by (cases ys) auto
next
  case (Cons x xs)
  then show ?case by (cases ys) auto
qed

lemma chain_suffix: "chain F c (xs @ y # ys) \<Longrightarrow> chain F y (y # ys)"
  by (induction xs arbitrary: c) auto

lemma chain_distinct: "chain F c cs \<Longrightarrow> distinct cs"
proof (induction cs arbitrary: c)
  case (Cons x xs)
  have "x \<notin> set xs"
  proof
    assume "x \<in> set xs"
    then obtain us vs where "xs = us @ x # vs" by (auto simp: in_set_conv_decomp)
    with Cons.prems have "chain F x (x # us @ x # vs)" "chain F x (x # vs)"
      using chain_suffix [of F c "x # us" x vs] by auto
    then have "x # us @ x # vs = x # vs" by (rule chain_unique)
    then show False by simp
  qed
  with Cons show ?case by auto
qed simp

lemma chain_cong: "(\<And>x. x \<in> set cs \<Longrightarrow> F (unat x) = G (unat x)) \<Longrightarrow> chain F c cs = chain G c cs"
  by (induction cs arbitrary: c) auto

lemma chain_update_other: "x \<notin> set cs \<Longrightarrow> chain (F(unat x := v)) c cs = chain F c cs"
  by (rule chain_cong) auto

lemma chain_nth_next:
  "chain F c cs \<Longrightarrow> i < length cs \<Longrightarrow>
   F (unat (cs ! i)) = (if Suc i < length cs then cs ! Suc i else F (unat (last cs)))"
proof (induction cs arbitrary: c i)
  case (Cons x xs)
  then show ?case by (cases i; cases xs) auto
qed simp

lemma chain_last: "chain F c cs \<Longrightarrow> cs \<noteq> [] \<Longrightarrow> EOC \<le> F (unat (last cs))"
  by (induction cs arbitrary: c) (auto split: if_splits)

lemma fat_entries_lt_EOC: "fat_entries p < unat EOC"
proof -
  have "unat (sectors_per_fat (partition_data p)) < 2 ^ 16"
    using unsigned_less [of "sectors_per_fat (partition_data p)"] by simp
  then show ?thesis by (simp add: fat_entries_def spf_def EOC_def)
qed

lemma valid_clusterD:
  assumes "valid_cluster p c"
  shows "c \<noteq> 0" "c < EOC" "2 \<le> c" "\<not> EOC \<le> c" "unat c < fat_entries p" "2 \<le> unat c"
proof -
  show 1: "unat c < fat_entries p" "2 \<le> unat c" using assms by (auto simp: valid_cluster_def)
  then show "c \<noteq> 0" by auto
  show 2: "c < EOC" using 1 fat_entries_lt_EOC [of p] by (simp add: word_less_nat_alt)
  then show "\<not> EOC \<le> c" by simp
  show "2 \<le> c" using 1 by (simp add: word_le_nat_alt)
qed

lemma valid_cluster_geom: "geom q = geom p \<Longrightarrow> valid_cluster q c = valid_cluster p c"
  using geom_derived(3) [of q p] by (simp add: valid_cluster_def)

lemmas valid_cluster_evolves = valid_cluster_geom [OF evolves_in_def [THEN iffD1, THEN conjunct2, THEN conjunct1]]

subsection \<open>Cluster input and output\<close>

lemma cluster_lba_ok:
  assumes l: "layout_ok n p" and c: "valid_cluster p c"
  shows "unat (cluster_lba (partition_data p) c) = data_lba p (unat c)"
proof -
  note cD = valid_clusterD [OF c]
  have "unat (data_offset (partition_data p)) + unat c < 2 ^ 32"
    using l cD by (simp add: layout_ok_def)
  then have s: "unat (data_offset (partition_data p) + c) = unat (data_offset (partition_data p)) + unat c"
    by (rule unat_add_u32)
  then have "2 \<le> data_offset (partition_data p) + c"
    using cD by (simp add: word_le_nat_alt)
  then show ?thesis
    using s unat_diff_u32 [of 2 "data_offset (partition_data p) + c"]
    by (simp add: cluster_lba_def data_lba_def)
qed

lemma data_written:
  assumes ok: "vol_state w n p" and c: "2 \<le> c" "c < fat_entries p" and g: "device_ok w n dv"
    and dv: "\<forall>k<n. sector dv k = (if k = data_lba p c then b else sector (device p) k)"
  shows "evolves_in w n p (p\<lparr>device := dv\<rparr>)
     \<and> abs_vol (p\<lparr>device := dv\<rparr>) = (abs_vol p)\<lparr>a_data := (a_data (abs_vol p))(c := b)\<rparr>"
proof -
  let ?q = "p\<lparr>device := dv\<rparr>"
  note okD = vol_stateD [OF ok]
  have fat: "s < spf p \<Longrightarrow> sector dv (fat_start p + s) = sector (device p) (fat_start p + s)
      \<and> sector dv (fat_start p + spf p + s) = sector (device p) (fat_start p + spf p + s)" for s
    using dv data_lba_bounds [OF okD(2) c] by auto
  have "cache_ok ?q"
    using okD(3) fat by (auto simp: cache_ok_def)
  moreover have "mirrored ?q"
    using okD(4) fat by (auto simp: mirrored_def)
  ultimately have "evolves_in w n p ?q"
    using g okD(2,7) by (simp add: evolves_in_def vol_state_def)
  moreover have "fat_words ?q s = fat_words p s" if "s < spf p" for s
    using fat [OF that] by (simp add: fat_words_def)
  then have "d < fat_entries p \<Longrightarrow> fat_view ?q d = fat_view p d" for d
    by (simp add: fat_view_def entry_sector)
  then have "abs_vol ?q = (abs_vol p)\<lparr>a_data := (a_data (abs_vol p))(c := b)\<rparr>"
    using dv c data_lba_bounds [OF okD(2)] by (auto simp: abs_vol_def fun_eq_iff data_lba_inj)
  ultimately show ?thesis by blast
qed

lemma length_a_data [len_simps]:
  assumes "vol_state w n p" "2 \<le> c" "c < fat_entries p"
  shows "length (a_data (abs_vol p) c) = 512"
  using assms vol_stateD [OF assms(1)] rdev.sec_length [OF device_ok_readable [OF vol_stateD(1) [OF assms(1)]], of "data_lba p c"]
    data_lba_bounds [of n p c]
  by (simp add: abs_vol_def)

lemma read_cluster_ok:
  assumes ok: "vol_state w n p" and c: "valid_cluster p c" and b: "length buf = 512"
  shows "\<exists>q. read_cluster p c buf = Some (E_DEVICE_OK, a_data (abs_vol p) (unat c), q)
     \<and> evolves_in w n p q \<and> abs_vol q = abs_vol p"
proof -
  note okD = vol_stateD [OF ok] and cD = valid_clusterD [OF c]
  note lba = cluster_lba_ok [OF okD(2) c] and bd = data_lba_bounds [OF okD(2) cD(6,5)]
  have l: "unat (cluster_lba (partition_data p) c) < n" using lba bd by simp
  obtain dv where dv: "vol_read p buf (cluster_lba (partition_data p) c)
      = Some (E_DEVICE_OK, sector (device p) (data_lba p (unat c)), p\<lparr>device := dv\<rparr>)"
    "device_ok w n dv" "\<forall>k<n. sector dv k = sector (device p) k"
    using vol_read_ok [OF okD(1,5) l b] by (auto simp: lba)
  have "evolves_in w n p (p\<lparr>device := dv\<rparr>) \<and> abs_vol (p\<lparr>device := dv\<rparr>)
      = (abs_vol p)\<lparr>a_data := (a_data (abs_vol p))(unat c := sector (device p) (data_lba p (unat c)))\<rparr>"
    by (rule data_written [OF ok cD(6,5) dv(2)]) (use dv(3) in auto)
  moreover have "sector (device p) (data_lba p (unat c)) = a_data (abs_vol p) (unat c)"
    using cD by (simp add: abs_vol_def)
  ultimately show ?thesis using dv(1) by (simp add: read_cluster_def)
qed

lemma write_cluster_ok:
  assumes ok: "vol_ok n p" and c: "valid_cluster p c" and b: "length buf = 512"
  shows "\<exists>q. write_cluster p c buf = Some (E_DEVICE_OK, q) \<and> evolves n p q
     \<and> abs_vol q = (abs_vol p)\<lparr>a_data := (a_data (abs_vol p))(unat c := buf)\<rparr>"
proof -
  note okD = vol_okD [OF ok] and cD = valid_clusterD [OF c]
  note lba = cluster_lba_ok [OF okD(2) c] and bd = data_lba_bounds [OF okD(2) cD(6,5)]
  have l: "unat (cluster_lba (partition_data p) c) < n" using lba bd by simp
  obtain dv where dv: "vol_write p buf (cluster_lba (partition_data p) c)
      = Some (E_DEVICE_OK, p\<lparr>device := dv\<rparr>)" "good_device n dv"
    "\<forall>k<n. sector dv k = (if k = data_lba p (unat c) then buf else sector (device p) k)"
    using vol_write_ok [OF okD(1,5) l b] by (auto simp: lba)
  show ?thesis
    using data_written [where w = True, unfolded device_ok_True, OF ok cD(6,5) dv(2,3)] dv(1) by (simp add: write_cluster_def)
qed

subsection \<open>Actions on part of a cluster\<close>

text \<open>
  The contract of an action on cluster contents \<open>d\<close>: where \<open>pre\<close> holds of the buffer, the
  size and the offset, it succeeds, leaves the buffer as \<open>buf_eff\<close> and the cluster as
  \<open>data_eff\<close> say, and touches neither the table nor any other cluster. An action that is
  \<open>writing\<close> needs a device that can be written.
\<close>

locale cluster_action =
  fixes act :: "'d CLUSTER_ACTION"
    and pre :: "byte list \<Rightarrow> nat \<Rightarrow> nat \<Rightarrow> bool"
    and buf_eff :: "byte list \<Rightarrow> byte list \<Rightarrow> nat \<Rightarrow> nat \<Rightarrow> byte list"
    and data_eff :: "byte list \<Rightarrow> byte list \<Rightarrow> nat \<Rightarrow> nat \<Rightarrow> byte list"
    and writing :: bool
  assumes act_ok: "vol_state w n p \<Longrightarrow> (writing \<Longrightarrow> w) \<Longrightarrow> valid_cluster p c \<Longrightarrow> pre buf (unat sz) (unat off) \<Longrightarrow>
      \<exists>q. act p c buf sz off
            = Some (E_DEVICE_OK, buf_eff (a_data (abs_vol p) (unat c)) buf (unat sz) (unat off), q)
        \<and> evolves_in w n p q
        \<and> abs_vol q = (abs_vol p)\<lparr>a_data := (a_data (abs_vol p))
             (unat c := data_eff (a_data (abs_vol p) (unat c)) buf (unat sz) (unat off))\<rparr>"
begin

text \<open>A step of the coroutine on a cluster of a chain, where it does not have to extend the chain.\<close>

lemma traverse_step:
  assumes ok: "vol_state w n p" and w: "writing \<Longrightarrow> w" and c: "valid_cluster p c"
    and pre: "pre buf (unat sz) (unat off)" and na: "\<not> (EOC \<le> a_fat (abs_vol p) (unat c) \<and> al)"
  shows "\<exists>q. traverse_fat_coroutine p buf c sz off act al
       = Some (a_fat (abs_vol p) (unat c),
               buf_eff (a_data (abs_vol p) (unat c)) buf (unat sz) (unat off), q)
     \<and> evolves_in w n p q
     \<and> abs_vol q = (abs_vol p)\<lparr>a_data := (a_data (abs_vol p))
          (unat c := data_eff (a_data (abs_vol p) (unat c)) buf (unat sz) (unat off))\<rparr>"
proof -
  note cD = valid_clusterD [OF c]
  obtain p1 where p1: "act p c buf sz off
        = Some (E_DEVICE_OK, buf_eff (a_data (abs_vol p) (unat c)) buf (unat sz) (unat off), p1)"
    "evolves_in w n p p1"
    "abs_vol p1 = (abs_vol p)\<lparr>a_data := (a_data (abs_vol p))
             (unat c := data_eff (a_data (abs_vol p) (unat c)) buf (unat sz) (unat off))\<rparr>"
    using act_ok [OF ok w c pre] by blast
  have ok1: "vol_state w n p1" using p1(2) by blast
  have c1: "unat c < fat_entries p1" using cD(5) evolves_geom [OF p1(2)] by simp
  obtain q where q: "get_next_cluster p1 c = Some (a_fat (abs_vol p1) (unat c), q)"
    "evolves_in w n p1 q" "abs_vol q = abs_vol p1"
    using get_next_cluster_ok [OF ok1 c1] by blast
  have "a_fat (abs_vol p1) = a_fat (abs_vol p)" by (simp add: p1(3))
  then have "traverse_fat_coroutine p buf c sz off act al
      = Some (a_fat (abs_vol p) (unat c),
          buf_eff (a_data (abs_vol p) (unat c)) buf (unat sz) (unat off), q)"
    using p1(1) q(1) cD na by (auto simp: traverse_fat_coroutine_def)
  then show ?thesis using q p1 evolves_trans by (intro exI [of _ q]) auto
qed

end

text \<open>Past the end of a chain the coroutine does nothing.\<close>

lemma traverse_stop:
  "c = 0 \<or> EOC \<le> c \<Longrightarrow> traverse_fat_coroutine p buf c sz off act al = Some (0, buf, p)"
  by (simp add: traverse_fat_coroutine_def)

lemma idle_cluster_ok:
  "vol_state w n p \<Longrightarrow> \<exists>q. idle_cluster p c buf sz off = Some (E_DEVICE_OK, buf, q) \<and> evolves_in w n p q
     \<and> abs_vol q = (abs_vol p)\<lparr>a_data := (a_data (abs_vol p))(unat c := a_data (abs_vol p) (unat c))\<rparr>"
  by (simp add: idle_cluster_def evolves_refl)

lemma read_part_cluster_ok:
  assumes ok: "vol_state w n p" and c: "valid_cluster p c"
    and sz: "unat off + unat sz \<le> 512" "unat sz \<le> length buf"
  shows "\<exists>q. read_part_cluster p c buf sz off
       = Some (E_DEVICE_OK, patch buf 0 (take (unat sz) (drop (unat off) (a_data (abs_vol p) (unat c)))), q)
     \<and> evolves_in w n p q
     \<and> abs_vol q = (abs_vol p)\<lparr>a_data := (a_data (abs_vol p))(unat c := a_data (abs_vol p) (unat c))\<rparr>"
proof -
  obtain q where q: "read_cluster p c temp_sector = Some (E_DEVICE_OK, a_data (abs_vol p) (unat c), q)"
    "evolves_in w n p q" "abs_vol q = abs_vol p"
    using read_cluster_ok [OF ok c, of temp_sector] by (auto simp: temp_sector_def)
  have "length (a_data (abs_vol p) (unat c)) = 512"
    using length_a_data [OF ok] valid_clusterD [OF c] by blast
  then show ?thesis
    using q sz by (simp add: read_part_cluster_def copy_from_Some copy_into_Some)
qed

lemma write_part_cluster_ok:
  assumes ok: "vol_ok n p" and c: "valid_cluster p c"
    and sz: "unat off + unat sz \<le> 512" "unat sz \<le> length buf"
  shows "\<exists>q. write_part_cluster p c buf sz off = Some (E_DEVICE_OK, buf, q) \<and> evolves n p q
     \<and> abs_vol q = (abs_vol p)\<lparr>a_data := (a_data (abs_vol p))
          (unat c := patch (a_data (abs_vol p) (unat c)) (unat off) (take (unat sz) buf))\<rparr>"
proof -
  let ?d = "a_data (abs_vol p) (unat c)" and ?part = "take (unat sz) buf"
  obtain p1 where p1: "read_cluster p c temp_sector = Some (E_DEVICE_OK, ?d, p1)"
    "evolves n p p1" "abs_vol p1 = abs_vol p"
    using read_cluster_ok [OF ok c, of temp_sector] by (auto simp: temp_sector_def)
  have len: "length ?d = 512"
    using length_a_data [OF ok] valid_clusterD [OF c] by blast
  have ok1: "vol_ok n p1" and c1: "valid_cluster p1 c"
    using p1(2) c valid_cluster_evolves by blast+
  have "length (patch ?d (unat off) ?part) = 512" using len sz by simp
  from write_cluster_ok [OF ok1 c1 this]
  obtain q where q: "write_cluster p1 c (patch ?d (unat off) ?part) = Some (E_DEVICE_OK, q)"
    "evolves n p1 q"
    "abs_vol q = (abs_vol p1)\<lparr>a_data := (a_data (abs_vol p1))(unat c := patch ?d (unat off) ?part)\<rparr>"
    by blast
  have "write_part_cluster p c buf sz off = Some (E_DEVICE_OK, buf, q)"
    using p1(1) q(1) len sz by (simp add: write_part_cluster_def copy_from_Some copy_into_Some)
  then show ?thesis using q p1 evolves_trans by (intro exI [of _ q]) auto
qed

interpretation idle: cluster_action idle_cluster "\<lambda>_ _ _. True" "\<lambda>d buf _ _. buf" "\<lambda>d _ _ _. d" False
  by unfold_locales (rule idle_cluster_ok)

interpretation rdp: cluster_action read_part_cluster
  "\<lambda>buf sz off. off + sz \<le> 512 \<and> sz \<le> length buf"
  "\<lambda>d buf sz off. patch buf 0 (take sz (drop off d))" "\<lambda>d _ _ _. d" False
  by unfold_locales (rule read_part_cluster_ok; simp)

interpretation wrp: cluster_action write_part_cluster
  "\<lambda>buf sz off. off + sz \<le> 512 \<and> sz \<le> length buf"
  "\<lambda>d buf sz off. buf" "\<lambda>d buf sz off. patch d off (take sz buf)" True
proof (unfold_locales, goal_cases)
  case (1 w n p c buf sz off)
  then have "w = True" by simp
  then show ?case using write_part_cluster_ok [of n p c off sz buf] 1 by simp
qed

end
