(* ===== verification/Fat32_Alloc.thy ===== *)
theory Fat32_Alloc
  imports Fat32_Cluster
begin

text \<open>
  What the allocation and deletion routines of \<^verbatim>\<open>fs/fat32.c\<close> do to the abstract volume:
  \<^verbatim>\<open>find_empty_cluster\<close> is first fit over the table, \<^verbatim>\<open>allocate_cluster\<close> clears and links
  the cluster found, \<^verbatim>\<open>delete_fat_chain\<close> frees exactly the clusters of the chain and
  returns on every table whose links stay inside it, cyclic ones included.
\<close>

subsection \<open>First fit\<close>

definition free_cluster :: "avol \<Rightarrow> nat \<Rightarrow> nat option" where
  "free_cluster v N = find (\<lambda>i. a_fat v i = 0) [2..<N]"

lemma free_cluster_SomeD:
  assumes "free_cluster v N = Some i"
  shows "2 \<le> i" "i < N" "a_fat v i = 0" "\<And>j. 2 \<le> j \<Longrightarrow> j < i \<Longrightarrow> a_fat v j \<noteq> 0"
proof -
  from assms obtain k where k: "k < length [2..<N]" "a_fat v ([2..<N] ! k) = 0" "i = [2..<N] ! k"
    "\<forall>j<k. a_fat v ([2..<N] ! j) \<noteq> 0"
    by (auto simp: free_cluster_def find_Some_iff)
  then show "2 \<le> i" "i < N" "a_fat v i = 0" by auto
  fix j assume "2 \<le> j" "j < i"
  then have "j - 2 < k" "[2..<N] ! (j - 2) = j" using k by auto
  with k(4) show "a_fat v j \<noteq> 0" by metis
qed

lemma free_cluster_None_iff:
  "free_cluster v N = None \<longleftrightarrow> (\<forall>i. 2 \<le> i \<and> i < N \<longrightarrow> a_fat v i \<noteq> 0)"
  by (auto simp: free_cluster_def find_None_iff)

lemma fat_entries_bound: "fat_entries p < 2 ^ 32"
  using fat_entries_lt_EOC [of p] by (simp add: EOC_def)

lemma find_empty_loop_ok:
  assumes "vol_ok n p" "\<And>i. i \<in> set is \<Longrightarrow> i < fat_entries p"
  shows "\<exists>q. find_empty_loop p is
       = Some (case find (\<lambda>i. a_fat (abs_vol p) i = 0) is of None \<Rightarrow> 0 | Some i \<Rightarrow> of_nat i, q)
     \<and> evolves n p q \<and> abs_vol q = abs_vol p"
  using assms
proof (induction "is" arbitrary: p)
  case Nil
  then show ?case by (simp add: evolves_refl)
next
  case (Cons i "is")
  have i: "unat (of_nat i :: u32) = i"
    using Cons.prems(2) [of i] fat_entries_bound [of p] by (simp add: unat_of_nat_u32)
  have "unat (of_nat i :: u32) < fat_entries p" using i Cons.prems(2) by simp
  from get_next_cluster_ok [OF Cons.prems(1) this] obtain p1 where p1:
    "get_next_cluster p (of_nat i) = Some (a_fat (abs_vol p) i, p1)" "evolves n p p1"
    "abs_vol p1 = abs_vol p"
    by (auto simp: i)
  show ?case
  proof (cases "a_fat (abs_vol p) i = 0")
    case True
    then show ?thesis using p1 by simp
  next
    case False
    have "\<And>j. j \<in> set is \<Longrightarrow> j < fat_entries p1"
      using Cons.prems(2) evolves_geom [OF p1(2)] by simp
    from Cons.IH [OF evolves_vol_ok [OF p1(2)] this] show ?thesis
      using False p1 evolves_trans [OF p1(2)] by auto
  qed
qed

lemma find_empty_cluster_ok:
  assumes ok: "vol_ok n p"
  shows "\<exists>q. find_empty_cluster p
       = Some (case free_cluster (abs_vol p) (fat_entries p) of None \<Rightarrow> 0 | Some i \<Rightarrow> of_nat i, q)
     \<and> evolves n p q \<and> abs_vol q = abs_vol p"
proof -
  have "unat (sectors_per_fat (partition_data p)) * 128 = fat_entries p"
    by (simp add: fat_entries_def spf_def)
  then show ?thesis
    using find_empty_loop_ok [OF ok, of "[2..<fat_entries p]"]
    by (simp add: find_empty_cluster_def free_cluster_def)
qed

subsection \<open>Allocation\<close>

text \<open>The abstract effect of giving cluster \<open>i\<close> to the chain that ends in \<open>e\<close>, 0 for none.\<close>

definition link_cluster :: "avol \<Rightarrow> u32 \<Rightarrow> nat \<Rightarrow> avol" where
  "link_cluster v e i = v\<lparr>
     a_fat := (if e = 0 then (a_fat v)(i := 0xFFFFFFF)
               else (a_fat v)(unat e := of_nat i, i := 0xFFFFFFF)),
     a_data := (a_data v)(i := replicate 512 0)\<rparr>"

lemma free_cluster_valid:
  assumes "free_cluster (abs_vol p) (fat_entries p) = Some i"
  shows "unat (of_nat i :: u32) = i" "valid_cluster p (of_nat i)" "(of_nat i :: u32) \<noteq> 0"
proof -
  note D = free_cluster_SomeD [OF assms]
  show u: "unat (of_nat i :: u32) = i"
    using D(2) fat_entries_bound [of p] by (simp add: unat_of_nat_u32)
  with D(1,2) show v: "valid_cluster p (of_nat i)" by (simp add: valid_cluster_def)
  show "(of_nat i :: u32) \<noteq> 0" by (rule valid_clusterD(1) [OF v])
qed

lemma allocate_cluster_full:
  assumes ok: "vol_ok n p" and f: "free_cluster (abs_vol p) (fat_entries p) = None"
  shows "\<exists>q. allocate_cluster p e = Some (0, q) \<and> evolves n p q \<and> abs_vol q = abs_vol p"
  using find_empty_cluster_ok [OF ok] f by (auto simp: allocate_cluster_def)

lemma allocate_cluster_ok:
  assumes ok: "vol_ok n p" and f: "free_cluster (abs_vol p) (fat_entries p) = Some i"
    and e: "e = 0 \<or> unat e < fat_entries p"
  shows "\<exists>q. allocate_cluster p e = Some (of_nat i, q) \<and> evolves n p q
     \<and> abs_vol q = link_cluster (abs_vol p) e i \<and> (\<forall>s. \<not> dirty q s)"
proof -
  note fv = free_cluster_valid [OF f]
  obtain p1 where p1: "find_empty_cluster p = Some (of_nat i, p1)" "evolves n p p1"
    "abs_vol p1 = abs_vol p"
    using find_empty_cluster_ok [OF ok] f by auto
  have ok1: "vol_ok n p1" and v1: "valid_cluster p1 (of_nat i)"
    using p1(2) fv(2) valid_cluster_evolves by blast+
  obtain p2 where p2: "write_cluster p1 (of_nat i) (replicate 512 0) = Some (E_DEVICE_OK, p2)"
    "evolves n p1 p2"
    "abs_vol p2 = (abs_vol p1)\<lparr>a_data := (a_data (abs_vol p1))(i := replicate 512 0)\<rparr>"
    using write_cluster_ok [OF ok1 v1, of "replicate 512 0"] fv(1) by auto
  have e2: "evolves n p p2" using evolves_trans [OF p1(2) p2(2)] .
  let ?e = "if e = 0 then of_nat i else e"
  have b: "unat ?e < fat_entries p2" "unat (of_nat i :: u32) < fat_entries p2"
    using e fv free_cluster_SomeD(2) [OF f] evolves_geom [OF e2] by (auto split: if_splits)
  obtain q where q: "change_fat p2 ?e (of_nat i) = Some (None, q)" "evolves n p2 q"
    "\<forall>s. \<not> dirty q s"
    "abs_vol q = (abs_vol p2)\<lparr>a_fat := (a_fat (abs_vol p2))
       (unat ?e := of_nat i, unat (of_nat i :: u32) := 0xFFFFFFF)\<rparr>"
    using change_fat_ok [OF evolves_vol_ok [OF e2] b] by blast
  have "allocate_cluster p e = Some (of_nat i, q)"
    using p1(1) p2(1) q(1) fv(3) by (auto simp: allocate_cluster_def)
  moreover have "abs_vol q = link_cluster (abs_vol p) e i"
    using q(4) p2(3) p1(3) fv(1) by (simp add: link_cluster_def fun_upd_def fun_eq_iff)
  ultimately show ?thesis using q(2,3) evolves_trans [OF e2] by blast
qed

context cluster_action
begin

text \<open>A step of the coroutine at the end of a chain, when it is asked to extend it.\<close>

lemma traverse_extend:
  assumes ok: "vol_ok n p" and c: "valid_cluster p c" and pre: "pre buf (unat sz) (unat off)"
    and last: "EOC \<le> a_fat (abs_vol p) (unat c)"
    and f: "free_cluster (abs_vol p) (fat_entries p) = Some i"
  shows "\<exists>q. traverse_fat_coroutine p buf c sz off act True
       = Some (of_nat i, buf_eff (a_data (abs_vol p) (unat c)) buf (unat sz) (unat off), q)
     \<and> evolves n p q
     \<and> abs_vol q = link_cluster ((abs_vol p)\<lparr>a_data := (a_data (abs_vol p))
          (unat c := data_eff (a_data (abs_vol p) (unat c)) buf (unat sz) (unat off))\<rparr>) c i"
proof -
  note cD = valid_clusterD [OF c]
  obtain p1 where p1: "act p c buf sz off
        = Some (E_DEVICE_OK, buf_eff (a_data (abs_vol p) (unat c)) buf (unat sz) (unat off), p1)"
    "evolves n p p1"
    "abs_vol p1 = (abs_vol p)\<lparr>a_data := (a_data (abs_vol p))
             (unat c := data_eff (a_data (abs_vol p) (unat c)) buf (unat sz) (unat off))\<rparr>"
    using act_ok [OF ok _ c pre] by blast
  have ok1: "vol_ok n p1" using p1(2) by blast
  have c1: "unat c < fat_entries p1" using cD(5) evolves_geom [OF p1(2)] by simp
  obtain p2 where p2: "get_next_cluster p1 c = Some (a_fat (abs_vol p1) (unat c), p2)"
    "evolves n p1 p2" "abs_vol p2 = abs_vol p1"
    using get_next_cluster_ok [OF ok1 c1] by blast
  have e2: "evolves n p p2" using evolves_trans [OF p1(2) p2(2)] .
  have "free_cluster (abs_vol p2) (fat_entries p2) = Some i"
    using f p2(3) p1(3) evolves_geom [OF e2] by (simp add: free_cluster_def)
  moreover have "unat c < fat_entries p2" using cD(5) evolves_geom [OF e2] by simp
  ultimately obtain q where q: "allocate_cluster p2 c = Some (of_nat i, q)" "evolves n p2 q"
    "abs_vol q = link_cluster (abs_vol p2) c i"
    using allocate_cluster_ok [OF evolves_vol_ok [OF e2]] by blast
  have "a_fat (abs_vol p1) = a_fat (abs_vol p)" by (simp add: p1(3))
  then have "traverse_fat_coroutine p buf c sz off act True
      = Some (of_nat i, buf_eff (a_data (abs_vol p) (unat c)) buf (unat sz) (unat off), q)"
    using p1(1) p2(1) q(1) cD last by (auto simp: traverse_fat_coroutine_def)
  then show ?thesis using q p2(3) p1(3) evolves_trans [OF e2] by auto
qed

text \<open>The same step on a full volume: the action has run, and the chain stays as it was.\<close>

lemma traverse_full:
  assumes ok: "vol_ok n p" and c: "valid_cluster p c" and pre: "pre buf (unat sz) (unat off)"
    and last: "EOC \<le> a_fat (abs_vol p) (unat c)"
    and f: "free_cluster (abs_vol p) (fat_entries p) = None"
  shows "\<exists>q. traverse_fat_coroutine p buf c sz off act True
       = Some (0, buf_eff (a_data (abs_vol p) (unat c)) buf (unat sz) (unat off), q)
     \<and> evolves n p q
     \<and> abs_vol q = (abs_vol p)\<lparr>a_data := (a_data (abs_vol p))
          (unat c := data_eff (a_data (abs_vol p) (unat c)) buf (unat sz) (unat off))\<rparr>"
proof -
  note cD = valid_clusterD [OF c]
  obtain p1 where p1: "act p c buf sz off
        = Some (E_DEVICE_OK, buf_eff (a_data (abs_vol p) (unat c)) buf (unat sz) (unat off), p1)"
    "evolves n p p1"
    "abs_vol p1 = (abs_vol p)\<lparr>a_data := (a_data (abs_vol p))
             (unat c := data_eff (a_data (abs_vol p) (unat c)) buf (unat sz) (unat off))\<rparr>"
    using act_ok [OF ok _ c pre] by blast
  have c1: "unat c < fat_entries p1" using cD(5) evolves_geom [OF p1(2)] by simp
  obtain p2 where p2: "get_next_cluster p1 c = Some (a_fat (abs_vol p1) (unat c), p2)"
    "evolves n p1 p2" "abs_vol p2 = abs_vol p1"
    using get_next_cluster_ok [OF evolves_vol_ok [OF p1(2)] c1] by blast
  have e2: "evolves n p p2" using evolves_trans [OF p1(2) p2(2)] .
  have "free_cluster (abs_vol p2) (fat_entries p2) = None"
    using f p2(3) p1(3) evolves_geom [OF e2] by (simp add: free_cluster_def)
  then obtain q where q: "allocate_cluster p2 c = Some (0, q)" "evolves n p2 q" "abs_vol q = abs_vol p2"
    using allocate_cluster_full [OF evolves_vol_ok [OF e2]] by blast
  have "a_fat (abs_vol p1) = a_fat (abs_vol p)" by (simp add: p1(3))
  then have "traverse_fat_coroutine p buf c sz off act True
      = Some (0, buf_eff (a_data (abs_vol p) (unat c)) buf (unat sz) (unat off), q)"
    using p1(1) p2(1) q(1) cD last by (auto simp: traverse_fat_coroutine_def)
  then show ?thesis using q p2(3) p1(3) evolves_trans [OF e2] by auto
qed

end

subsection \<open>Deletion\<close>

definition free_clusters :: "nat set \<Rightarrow> avol \<Rightarrow> avol" where
  "free_clusters S v = v\<lparr>a_fat := (\<lambda>x. if x \<in> S then 0 else a_fat v x)\<rparr>"

text \<open>One round of the deletion loop.\<close>

lemma delete_round:
  assumes ok: "vol_ok n p" and c: "valid_cluster p c"
  shows "\<exists>q. delete_loop p c = delete_loop q (a_fat (abs_vol p) (unat c)) \<and> evolves n p q
     \<and> abs_vol q = (abs_vol p)\<lparr>a_fat := (a_fat (abs_vol p))(unat c := 0)\<rparr>"
proof -
  note cD = valid_clusterD [OF c]
  obtain p1 where p1: "get_next_cluster p c = Some (a_fat (abs_vol p) (unat c), p1)"
    "evolves n p p1" "abs_vol p1 = abs_vol p"
    using get_next_cluster_ok [OF ok cD(5)] by blast
  have c1: "unat c < fat_entries p1" using cD(5) evolves_geom [OF p1(2)] by simp
  have "unat (pos_sector (calculate_fat_position c)) < spf p1" using entry_sector [OF c1] by simp
  from load_fat_sector_ok [OF evolves_vol_ok [OF p1(2)] this] obtain p2 where p2:
    "load_fat_sector p1 (pos_sector (calculate_fat_position c)) = Some (E_DEVICE_OK, p2)"
    "evolves n p1 p2" "abs_vol p2 = abs_vol p1" "cached p2 (unat c div 128)"
    by auto
  have e2: "evolves n p p2" using evolves_trans [OF p1(2) p2(2)] .
  have c2: "unat c < fat_entries p2" using cD(5) evolves_geom [OF e2] by simp
  let ?q = "put_entry (calculate_fat_position c) 0 p2"
  have q: "evolves n p2 ?q"
    "abs_vol ?q = (abs_vol p2)\<lparr>a_fat := (a_fat (abs_vol p2))(unat c := 0)\<rparr>"
    using put_entry_ok [OF evolves_vol_ok [OF e2] c2 p2(4) refl] by blast+
  have "delete_loop p c = delete_loop ?q (a_fat (abs_vol p) (unat c))"
    using p1(1) p2(1) cD by (subst delete_loop.simps) simp
  then show ?thesis using q p2(3) p1(3) evolves_trans [OF e2] by auto
qed

lemma delete_loop_stop: "c < 2 \<or> EOC \<le> c \<Longrightarrow> delete_loop p c = Some p"
  by (subst delete_loop.simps) auto

lemma delete_loop_ok:
  assumes "vol_ok n p" "file_chain p c cs"
  shows "\<exists>q. delete_loop p c = Some q \<and> evolves n p q
     \<and> abs_vol q = free_clusters (unat ` set cs) (abs_vol p)"
  using assms
proof (induction cs arbitrary: p c)
  case Nil
  then show ?case by (auto simp: file_chain_def delete_loop_stop evolves_refl free_clusters_def)
next
  case (Cons x cs)
  from Cons.prems have x: "x = c" "valid_cluster p c"
    and ch: "chain (a_fat (abs_vol p)) (a_fat (abs_vol p) (unat c)) cs"
    and d: "c \<notin> set cs"
    using chain_distinct [of "a_fat (abs_vol p)" c "x # cs"] by (auto simp: file_chain_def)
  obtain p1 where p1: "delete_loop p c = delete_loop p1 (a_fat (abs_vol p) (unat c))" "evolves n p p1"
    "abs_vol p1 = (abs_vol p)\<lparr>a_fat := (a_fat (abs_vol p))(unat c := 0)\<rparr>"
    using delete_round [OF Cons.prems(1) x(2)] by blast
  have "file_chain p1 (a_fat (abs_vol p) (unat c)) cs"
    using ch d Cons.prems(2) valid_cluster_evolves [OF p1(2)]
    by (simp add: file_chain_def p1(3) chain_update_other)
  from Cons.IH [OF evolves_vol_ok [OF p1(2)] this] obtain q where q:
    "delete_loop p1 (a_fat (abs_vol p) (unat c)) = Some q" "evolves n p1 q"
    "abs_vol q = free_clusters (unat ` set cs) (abs_vol p1)" by blast
  have "free_clusters (unat ` set cs) (abs_vol p1) = free_clusters (unat ` set (x # cs)) (abs_vol p)"
    using x(1) by (simp add: p1(3) free_clusters_def fun_eq_iff)
  then show ?case using p1 q evolves_trans by (intro exI [of _ q]) auto
qed

text \<open>Links that leave the table would make the cache load sectors outside of it.\<close>

definition links_inside :: "avol \<Rightarrow> nat \<Rightarrow> bool" where
  "links_inside v N \<longleftrightarrow> (\<forall>c<N. unat (a_fat v c) < N \<or> EOC \<le> a_fat v c)"

definition used_links :: "avol \<Rightarrow> nat \<Rightarrow> nat set" where
  "used_links v N = {c. c < N \<and> a_fat v c \<noteq> 0}"

lemma delete_loop_returns:
  assumes "vol_ok n p" "links_inside (abs_vol p) (fat_entries p)"
    "unat c < fat_entries p \<or> EOC \<le> c"
  shows "\<exists>q. delete_loop p c = Some q \<and> evolves n p q"
  using assms
proof (induction "card (used_links (abs_vol p) (fat_entries p))" arbitrary: p c rule: less_induct)
  case less
  show ?case
  proof (cases "valid_cluster p c")
    case False
    then have "c < 2 \<or> EOC \<le> c"
      using less.prems(3) by (auto simp: valid_cluster_def word_less_nat_alt)
    then show ?thesis using less.prems(1) by (auto simp: delete_loop_stop evolves_refl)
  next
    case True
    let ?F = "a_fat (abs_vol p)"
    note cD = valid_clusterD [OF True]
    obtain p1 where p1: "delete_loop p c = delete_loop p1 (?F (unat c))" "evolves n p p1"
      "abs_vol p1 = (abs_vol p)\<lparr>a_fat := ?F(unat c := 0)\<rparr>"
      using delete_round [OF less.prems(1) True] by blast
    have fe: "fat_entries p1 = fat_entries p" using evolves_geom [OF p1(2)] by simp
    show ?thesis
    proof (cases "?F (unat c) = 0")
      case True
      then show ?thesis using p1 by (auto simp: delete_loop_stop)
    next
      case False
      have "used_links (abs_vol p1) (fat_entries p1) = used_links (abs_vol p) (fat_entries p) - {unat c}"
        by (auto simp: used_links_def p1(3) fe)
      moreover have "unat c \<in> used_links (abs_vol p) (fat_entries p)"
        using False cD by (simp add: used_links_def)
      moreover have "finite (used_links (abs_vol p) (fat_entries p))"
        by (simp add: used_links_def)
      ultimately have less1: "card (used_links (abs_vol p1) (fat_entries p1))
          < card (used_links (abs_vol p) (fat_entries p))"
        by (metis card_Diff1_less)
      have "links_inside (abs_vol p1) (fat_entries p1)"
        using less.prems(2) cD by (auto simp: links_inside_def p1(3) fe)
      moreover have "unat (?F (unat c)) < fat_entries p1 \<or> EOC \<le> ?F (unat c)"
        using less.prems(2) cD by (auto simp: links_inside_def fe)
      ultimately obtain q where "delete_loop p1 (?F (unat c)) = Some q" "evolves n p1 q"
        using less.hyps [OF less1 evolves_vol_ok [OF p1(2)]] by blast
      then show ?thesis using p1(1) evolves_trans [OF p1(2)] by auto
    qed
  qed
qed

end
