(* ===== verification/Fat32_File.thy ===== *)
theory Fat32_File
  imports Fat32_Alloc
begin

text \<open>
  File contents in \<^verbatim>\<open>fs/fat32.c\<close>: seeking along the chain of a file, and the read and
  write loops that move a buffer through its clusters, the write loop extending the chain
  as it goes. The contents of a file are the data of the clusters of its chain.
\<close>

subsection \<open>Operations\<close>

definition min32 :: "u32 \<Rightarrow> u32 \<Rightarrow> u32" where
  "min32 a b = (if a > b then b else a)"

definition max32 :: "u32 \<Rightarrow> u32 \<Rightarrow> u32" where
  "max32 a b = (if a > b then a else b)"

text \<open>\<^verbatim>\<open>while (offset > 512) { current_cluster = traverse(..., idle_cluster, 1); offset -= 512; }\<close>\<close>

function seek_loop ::
  "'d fat_volume \<Rightarrow> byte list \<Rightarrow> u32 \<Rightarrow> i32 \<Rightarrow> (u32 \<times> i32 \<times> byte list \<times> 'd fat_volume) option" where
  "seek_loop p buf cluster off =
     (if 512 <s off
      then do {
        (cluster, buf, p) \<leftarrow> traverse_fat_coroutine p buf cluster 512 0 idle_cluster True;
        seek_loop p buf cluster (off - 512)
      }
      else Some (cluster, off, buf, p))"
  by pat_completeness auto

lemma seek_step:
  assumes "512 <s (off::i32)"
  shows "unat (off - 512) = unat off - 512" "512 < unat off" "unat off < 2 ^ 31"
proof -
  have "unat (512::i32) < unat off \<and> unat off < 2 ^ 31" by (rule sless_i32D [OF assms]) simp
  then show 1: "512 < unat off" "unat off < 2 ^ 31" by simp_all
  show "unat (off - 512) = unat off - 512"
    using 1 by (simp add: unat_diff_u32 word_le_nat_alt)
qed

termination seek_loop
  by (relation "measure (\<lambda>(p, buf, c, off). unat off)") (auto simp: seek_step(1) dest: seek_step(2))

text \<open>
  The transfer loops. \<open>buf\<close> is the caller's whole buffer, \<open>done\<close> is \<^verbatim>\<open>bytes_read\<close> or
  \<^verbatim>\<open>bytes_written\<close>; the action gets the buffer from position \<open>done\<close> on.
\<close>

lemma min32_0 [simp]: "min32 sz 0 = 0"
  by (auto simp: min32_def word_gt_0)

lemma transfer_shrinks:
  assumes sz: "0 < (sz::u32)" and off: "off \<noteq> 512"
  shows "unat (sz - min32 sz (512 - off)) < unat sz"
proof -
  from off have "512 - off \<noteq> 0" by simp
  then have "0 < 512 - off" by (simp only: word_neq_0_conv)
  then have "0 < min32 sz (512 - off)" "min32 sz (512 - off) \<le> sz"
    using sz by (auto simp: min32_def)
  then show ?thesis by (simp add: unat_diff_u32 word_less_nat_alt word_le_nat_alt)
qed

function read_loop ::
  "'d fat_volume \<Rightarrow> byte list \<Rightarrow> u32 \<Rightarrow> u32 \<Rightarrow> i32 \<Rightarrow> i32 \<Rightarrow> (i32 \<times> byte list \<times> 'd fat_volume) option" where
  "read_loop p buf cluster sz off done =
     (if sz > 0
      then do {
        (cluster, part, p) \<leftarrow> traverse_fat_coroutine p (drop (unat done) buf) cluster
           (min32 sz (512 - off)) off read_part_cluster False;
        if cluster = 0
        then Some (done + min32 sz (512 - off), take (unat done) buf @ part, p)
        else read_loop p (take (unat done) buf @ part) cluster
               (sz - min32 sz (512 - off)) 0 (done + min32 sz (512 - off))
      }
      else Some (done, buf, p))"
  by pat_completeness auto
termination
  by (relation "measure (\<lambda>(p, buf, c, sz, off, done). 2 * unat sz + (if off = 512 then 1 else 0))")
    (auto simp: transfer_shrinks)

function write_loop ::
  "'d fat_volume \<Rightarrow> byte list \<Rightarrow> u32 \<Rightarrow> u32 \<Rightarrow> i32 \<Rightarrow> i32 \<Rightarrow> (i32 \<times> 'd fat_volume) option" where
  "write_loop p buf cluster sz off done =
     (if sz > 0
      then do {
        (cluster, _, p) \<leftarrow> traverse_fat_coroutine p (drop (unat done) buf) cluster
           (min32 sz (512 - off)) off write_part_cluster (min32 sz (512 - off) < sz);
        if cluster = 0
        then Some (done + min32 sz (512 - off), p)
        else write_loop p buf cluster
               (sz - min32 sz (512 - off)) 0 (done + min32 sz (512 - off))
      }
      else Some (done, p))"
  by pat_completeness auto
termination
  by (relation "measure (\<lambda>(p, buf, c, sz, off, done). 2 * unat sz + (if off = 512 then 1 else 0))")
    (auto simp: transfer_shrinks)

declare seek_loop.simps [simp del] read_loop.simps [simp del] write_loop.simps [simp del]

definition save_descriptor :: "'d fat_volume \<Rightarrow> FAT32_NODE_INFO \<Rightarrow> (E_DEVICE \<times> 'd fat_volume) option" where
  "save_descriptor p node_info = do {
     (result, _, p) \<leftarrow> write_part_cluster p (descriptor_cluster node_info)
        (bytes_of_node (node node_info)) 32 (descriptor_offset node_info * 32);
     Some (result, p)
   }"

definition read_bytes_from_file ::
  "'d fat_volume \<Rightarrow> FAT32_NODE_INFO VFS_NODE \<Rightarrow> byte list \<Rightarrow> u32 \<Rightarrow> (i32 \<times> byte list \<times> 'd fat_volume) option" where
  "read_bytes_from_file p nd buf sz = (let
     inf = node_data nd;
     off = vfs_node_get_offset (Some nd);
     max_size = node_size (node inf) - off;
     sz = min32 sz max_size
     in do {
       (current_cluster, off, buf, p) \<leftarrow> seek_loop p buf
          (get_cluster_from_node (partition_data p) (Some (node inf))) off;
       read_loop p buf current_cluster sz off 0
     })"

definition write_bytes_in_file ::
  "'d fat_volume \<Rightarrow> FAT32_NODE_INFO VFS_NODE \<Rightarrow> byte list \<Rightarrow> u32
   \<Rightarrow> (i32 \<times> FAT32_NODE_INFO VFS_NODE \<times> 'd fat_volume) option" where
  "write_bytes_in_file p nd buf sz = (let
     inf = node_data nd;
     starting_offset = vfs_node_get_offset (Some nd)
     in do {
       (current_cluster, off, buf, p) \<leftarrow> seek_loop p buf
          (get_cluster_from_node (partition_data p) (Some (node inf))) starting_offset;
       (bytes_written, p) \<leftarrow> write_loop p buf current_cluster sz off 0;
       let inf = inf\<lparr>node := (node inf)\<lparr>node_size :=
          max32 (node_size (node inf)) (starting_offset + bytes_written)\<rparr>\<rparr>;
       (_, p) \<leftarrow> save_current_fat p;
       (_, p) \<leftarrow> save_descriptor p inf;
       Some (bytes_written, nd\<lparr>node_data := inf\<rparr>, p)
     })"

definition fat32_read_file ::
  "'d fat_volume \<Rightarrow> FAT32_NODE_INFO VFS_NODE \<Rightarrow> byte list \<Rightarrow> u32
   \<Rightarrow> (i32 \<times> byte list \<times> FAT32_NODE_INFO VFS_NODE \<times> 'd fat_volume) option" where
  "fat32_read_file p nd buf sz = do {
     (bytes_read, buf, p) \<leftarrow> read_bytes_from_file p nd buf sz;
     case vfs_node_move_offset (Some nd) bytes_read of
       (_, Some nd) \<Rightarrow> Some (bytes_read, buf, nd, p)
     | _ \<Rightarrow> None
   }"

definition fat32_write_file ::
  "'d fat_volume \<Rightarrow> FAT32_NODE_INFO VFS_NODE \<Rightarrow> byte list \<Rightarrow> u32
   \<Rightarrow> (i32 \<times> FAT32_NODE_INFO VFS_NODE \<times> 'd fat_volume) option" where
  "fat32_write_file p nd buf sz = do {
     (bytes_written, nd, p) \<leftarrow> write_bytes_in_file p nd buf sz;
     case vfs_node_move_offset (Some nd) bytes_written of
       (_, Some nd) \<Rightarrow> Some (bytes_written, nd, p)
     | _ \<Rightarrow> None
   }"

datatype SEEK = SEEK_SET | SEEK_CUR | SEEK_END | SEEK_OTHER

text \<open>\<^verbatim>\<open>E_LSEEK_BADF\<close> and \<^verbatim>\<open>E_LSEEK_INVAL\<close>.\<close>

definition fat32_lseek ::
  "FAT32_NODE_INFO VFS_NODE option \<Rightarrow> i32 \<Rightarrow> SEEK \<Rightarrow> i32 \<times> FAT32_NODE_INFO VFS_NODE option" where
  "fat32_lseek nd off whence =
     (case nd of
        None \<Rightarrow> (- 1, nd)
      | Some f \<Rightarrow>
          (case whence of
             SEEK_SET \<Rightarrow>
               let nd' = snd (if vfs_node_get_offset nd <s off
                 then vfs_node_move_offset nd (off - vfs_node_get_offset nd)
                 else vfs_node_move_offset nd (- vfs_node_get_offset nd))
               in (vfs_node_get_offset nd', nd')
           | SEEK_CUR \<Rightarrow>
               let nd' = snd (vfs_node_move_offset nd off) in (vfs_node_get_offset nd', nd')
           | SEEK_END \<Rightarrow>
               let nd' = snd (vfs_node_move_offset nd (node_size (node (node_data f)) + off))
               in (vfs_node_get_offset nd', nd')
           | SEEK_OTHER \<Rightarrow> (- 2, nd)))"

end
