(* ===== verification/Fat32_Read.thy ===== *)
theory Fat32_Read
  imports Fat32_File
begin

text \<open>
  Reading a file: seeking finds the cluster the offset falls into, and the read loop
  delivers the bytes of the file contents from there, without changing the volume.
\<close>

definition file_data :: "avol \<Rightarrow> u32 list \<Rightarrow> byte list" where
  "file_data v cs = concat (map (\<lambda>c. a_data v (unat c)) cs)"

lemma file_data_simps [simp]:
  "file_data v [] = []"
  "file_data v (c # cs) = a_data v (unat c) @ file_data v cs"
  "file_data v (xs @ ys) = file_data v xs @ file_data v ys"
  by (simp_all add: file_data_def)

lemma file_data_cong:
  "(\<And>c. c \<in> set cs \<Longrightarrow> a_data v (unat c) = a_data w (unat c)) \<Longrightarrow> file_data v cs = file_data w cs"
  by (simp add: file_data_def cong: map_cong)

lemma file_chain_Nil: "file_chain p c [] \<longleftrightarrow> EOC \<le> c"
  by (simp add: file_chain_def)

lemma file_chain_Cons:
  "file_chain p c (x # xs) \<longleftrightarrow> x = c \<and> valid_cluster p c \<and> file_chain p (a_fat (abs_vol p) (unat c)) xs"
  using valid_clusterD [of p c] by (auto simp: file_chain_def)

lemma file_chain_ne: "file_chain p c cs \<Longrightarrow> c \<noteq> 0"
  by (cases cs) (auto simp: file_chain_Nil file_chain_Cons EOC_def dest: valid_clusterD)

lemma file_chain_cong:
  assumes "evolves_in w n p q" "\<And>x. x \<in> set cs \<Longrightarrow> a_fat (abs_vol q) (unat x) = a_fat (abs_vol p) (unat x)"
  shows "file_chain q c cs \<longleftrightarrow> file_chain p c cs"
  using chain_cong [of cs "a_fat (abs_vol q)" "a_fat (abs_vol p)" c] assms(2)
    valid_cluster_evolves [OF assms(1)] by (simp add: file_chain_def)

lemma length_cluster:
  "vol_state w n p \<Longrightarrow> valid_cluster p c \<Longrightarrow> length (a_data (abs_vol p) (unat c)) = 512"
  using length_a_data [of w n p "unat c"] valid_clusterD [of p c] by blast

lemma length_file_data [len_simps]:
  "vol_state w n p \<Longrightarrow> file_chain p c cs \<Longrightarrow> length (file_data (abs_vol p) cs) = 512 * length cs"
  by (induction cs arbitrary: c) (auto simp: file_chain_Cons length_cluster)

lemma unat_min32: "unat (min32 a b) = min (unat a) (unat b)"
  by (auto simp: min32_def min_def word_less_nat_alt)

lemma unat_max32: "unat (max32 a b) = max (unat a) (unat b)"
  by (auto simp: max32_def max_def word_less_nat_alt)

lemma unat_512_minus: "unat (off::u32) \<le> 512 \<Longrightarrow> unat (512 - off) = 512 - unat off"
  by (simp add: unat_diff_u32 word_le_nat_alt)

subsection \<open>Seeking\<close>

lemma seek_loop_ok:
  assumes "vol_state w n p" "file_chain p c cs" "unat off \<le> 512 * length cs" "unat off < 2 ^ 31"
  shows "\<exists>k c' off' q. seek_loop p buf c off = Some (c', off', buf, q)
     \<and> evolves_in w n p q \<and> abs_vol q = abs_vol p
     \<and> k \<le> length cs \<and> file_chain q c' (drop k cs)
     \<and> unat off' \<le> 512 \<and> 512 * k + unat off' = unat off \<and> (k = 0 \<or> 0 < unat off')"
  using assms
proof (induction cs arbitrary: p c off)
  case Nil
  then have "\<not> 512 <s off" by (auto dest: seek_step(2))
  then show ?case
    using Nil.prems by (subst seek_loop.simps) (auto simp: evolves_refl)
next
  case (Cons x cs)
  show ?case
  proof (cases "512 <s off")
    case False
    then have "unat off \<le> 512" using Cons.prems(4) by (simp add: sless_i32)
    then show ?thesis
      using False Cons.prems by (subst seek_loop.simps) (auto simp: evolves_refl intro!: exI [of _ 0])
  next
    case True
    note st = seek_step [OF True]
    let ?c' = "a_fat (abs_vol p) (unat c)"
    from Cons.prems(2) have c: "valid_cluster p c" and ch: "file_chain p ?c' cs"
      by (auto simp: file_chain_Cons)
    have "cs \<noteq> []" using st(2) Cons.prems(3) by auto
    then have "\<not> EOC \<le> ?c'"
      using ch by (cases cs) (auto simp: file_chain_Cons dest: valid_clusterD)
    then obtain q where q: "traverse_fat_coroutine p buf c 512 0 idle_cluster True = Some (?c', buf, q)"
      "evolves_in w n p q" "abs_vol q = abs_vol p"
      using idle.traverse_step [OF Cons.prems(1) _ c, where buf = buf and sz = 512 and off = 0 and al = True] by auto
    have chq: "file_chain q ?c' cs" using ch file_chain_cong [OF q(2)] q(3) by simp
    have "unat (off - 512) \<le> 512 * length cs" "unat (off - 512) < 2 ^ 31"
      using st Cons.prems(3) by auto
    from Cons.IH [OF evolves_vol_ok [OF q(2)] chq this] obtain k c2 off2 q2 where r:
      "seek_loop q buf ?c' (off - 512) = Some (c2, off2, buf, q2)" "evolves_in w n q q2"
      "abs_vol q2 = abs_vol q" "k \<le> length cs" "file_chain q2 c2 (drop k cs)"
      "unat off2 \<le> 512" "512 * k + unat off2 = unat (off - 512)" "k = 0 \<or> 0 < unat off2"
      by blast
    have "seek_loop p buf c off = Some (c2, off2, buf, q2)"
      using True q(1) r(1) by (subst seek_loop.simps) simp
    moreover have "512 * Suc k + unat off2 = unat off" using r(7) st by simp
    moreover have "0 < unat off2" using r(7,8) st(1,2) by auto
    ultimately show ?thesis
      using r q evolves_trans [OF q(2) r(2)] by (intro exI [of _ "Suc k"] exI [of _ c2] exI [of _ off2] exI [of _ q2]) simp
  qed
qed

subsection \<open>The read loop\<close>

lemma patch_patch_append:
  "d + length xs + length ys \<le> length buf \<Longrightarrow>
   patch (patch buf d xs) (d + length xs) ys = patch buf d (xs @ ys)"
  by (cases xs) (auto simp: patch_def min_def ac_simps)

lemma take_patch_drop:
  "d + length xs \<le> length buf \<Longrightarrow> take d buf @ patch (drop d buf) 0 xs = patch buf d xs"
  by (simp add: patch_def add.commute)

lemma read_loop_ok:
  assumes "vol_state w n p" "file_chain p c cs" "unat off \<le> 512"
    "unat off + unat sz \<le> 512 * length cs" "unat done + unat sz \<le> length buf" "length buf < 2 ^ 31"
  shows "\<exists>q. read_loop p buf c sz off done
       = Some (done + sz, patch buf (unat done) (take (unat sz) (drop (unat off) (file_data (abs_vol p) cs))), q)
     \<and> evolves_in w n p q \<and> abs_vol q = abs_vol p"
  using assms
proof (induction cs arbitrary: p c off sz "done" buf)
  case Nil
  then have "sz = 0" by simp
  then show ?case using Nil by (subst read_loop.simps) (simp add: evolves_refl)
next
  case (Cons x cs)
  show ?case
  proof (cases "sz = 0")
    case True
    then show ?thesis using Cons by (subst read_loop.simps) (simp add: evolves_refl)
  next
    case False
    then have sz: "0 < sz" by (simp add: word_gt_0)
    let ?m = "min32 sz (512 - off)" and ?c' = "a_fat (abs_vol p) (unat c)"
    let ?d = "a_data (abs_vol p) (unat c)"
    have m: "unat ?m = min (unat sz) (512 - unat off)"
      using Cons.prems(3) by (simp add: unat_min32 unat_512_minus)
    from Cons.prems(2) have c: "valid_cluster p c" "x = c" and ch: "file_chain p ?c' cs"
      by (auto simp: file_chain_Cons)
    have ld: "length ?d = 512" using length_cluster [OF Cons.prems(1) c(1)] .
    let ?part = "take (unat ?m) (drop (unat off) ?d)"
    have lp: "length ?part = unat ?m" using m ld by simp
    have pre: "unat off + unat ?m \<le> 512 \<and> unat ?m \<le> length (drop (unat done) buf)"
      using m Cons.prems(3,5) by auto
    obtain q where q: "traverse_fat_coroutine p (drop (unat done) buf) c ?m off read_part_cluster False
        = Some (?c', patch (drop (unat done) buf) 0 ?part, q)" "evolves_in w n p q" "abs_vol q = abs_vol p"
      using rdp.traverse_step [OF Cons.prems(1) _ c(1) pre, where al = False] by auto
    have c'0: "?c' \<noteq> 0" by (rule file_chain_ne [OF ch])
    have fits: "unat done + length ?part \<le> length buf" unfolding lp using m Cons.prems(5) by simp
    have buf': "take (unat done) buf @ patch (drop (unat done) buf) 0 ?part = patch buf (unat done) ?part"
      by (rule take_patch_drop [OF fits])
    have "?m \<le> sz" by (auto simp: min32_def)
    then have rest: "unat (sz - ?m) = unat sz - unat ?m" by (rule unat_diff_u32)
    have done': "unat (done + ?m) = unat done + unat ?m"
      using m Cons.prems(5,6) by (simp add: unat_add_u32)
    have chq: "file_chain q ?c' cs" using ch file_chain_cong [OF q(2)] q(3) by simp
    have bl: "length (patch buf (unat done) ?part) = length buf"
      by (rule length_patch [OF fits])
    have b1: "unat (0::i32) + unat (sz - ?m) \<le> 512 * length cs"
      using rest m Cons.prems(3,4) by (simp add: min_def split: if_splits)
    have b2: "unat (done + ?m) + unat (sz - ?m) \<le> length (patch buf (unat done) ?part)"
      unfolding bl using rest m Cons.prems(5) done' by simp
    note b = b1 b2
    obtain q2 where q2: "read_loop q (patch buf (unat done) ?part) ?c' (sz - ?m) 0 (done + ?m)
        = Some (done + ?m + (sz - ?m), patch (patch buf (unat done) ?part) (unat (done + ?m))
             (take (unat (sz - ?m)) (drop (unat (0::i32)) (file_data (abs_vol q) cs))), q2)"
      "evolves_in w n q q2" "abs_vol q2 = abs_vol q"
      using Cons.IH [OF evolves_vol_ok [OF q(2)] chq _ b] bl Cons.prems(6) by auto
    have l2: "length (file_data (abs_vol q) cs) = 512 * length cs"
      using length_file_data [OF evolves_vol_ok [OF q(2)] chq] .
    have whole: "take (unat sz) (drop (unat off) (file_data (abs_vol p) (x # cs)))
        = ?part @ take (unat (sz - ?m)) (file_data (abs_vol q) cs)"
      using ld m Cons.prems(3) c(2) q(3) rest by (auto simp: min_def)
    let ?rest = "take (unat (sz - ?m)) (file_data (abs_vol q) cs)"
    have lr: "length ?rest = unat (sz - ?m)" using l2 b1 by simp
    have "unat done + length ?part + length ?rest \<le> length buf"
      unfolding lp lr using rest m Cons.prems(5) by simp
    from patch_patch_append [OF this]
    have both: "patch (patch buf (unat done) ?part) (unat (done + ?m)) ?rest
      = patch buf (unat done) (?part @ ?rest)"
      unfolding lp done' .
    have sum: "done + ?m + (sz - ?m) = done + sz" by simp
    have "read_loop p buf c sz off done
       = read_loop q (patch buf (unat done) ?part) ?c' (sz - ?m) 0 (done + ?m)"
      unfolding read_loop.simps [of p buf c sz off "done"] q(1)
      by (simp only: sz if_True Option.bind.simps prod.case c'0 if_False buf')
    also have "\<dots> = Some (done + sz, patch buf (unat done)
         (take (unat sz) (drop (unat off) (file_data (abs_vol p) (x # cs)))), q2)"
      using q2(1) unfolding sum whole by (simp only: both unsigned_0 drop_0)
    finally show ?thesis
      by (intro exI [of _ q2] conjI evolves_trans [OF q(2) q2(2)]) (assumption | simp only: q2(3) q(3))+
  qed
qed

subsection \<open>Reading from an open file\<close>

definition node_start :: "FAT32_NODE \<Rightarrow> u32" where
  "node_start nd = push_bit 16 (ucast (start_high nd)) OR ucast (start_low nd)"

lemma get_cluster_from_node_Some [simp]: "get_cluster_from_node f (Some nd) = node_start nd"
  by (simp add: get_cluster_from_node_def node_start_def)

text \<open>
  An open file: its chain is long enough for the recorded size, sizes and offsets are
  not negative as \<^verbatim>\<open>int32_t\<close>, and the offset is within the file.
\<close>

definition file_ok :: "'d fat_volume \<Rightarrow> FAT32_NODE_INFO VFS_NODE \<Rightarrow> u32 list \<Rightarrow> bool" where
  "file_ok p nd cs \<longleftrightarrow> file_chain p (node_start (node (node_data nd))) cs
     \<and> unat (node_size (node (node_data nd))) \<le> 512 * length cs
     \<and> unat (node_size (node (node_data nd))) < 2 ^ 31
     \<and> unat (offset nd) \<le> unat (node_size (node (node_data nd)))"

lemma file_okD:
  assumes "file_ok p nd cs"
  shows "file_chain p (node_start (node (node_data nd))) cs"
    "unat (node_size (node (node_data nd))) \<le> 512 * length cs"
    "unat (node_size (node (node_data nd))) < 2 ^ 31"
    "unat (offset nd) \<le> unat (node_size (node (node_data nd)))"
    "unat (offset nd) < 2 ^ 31" "unat (offset nd) \<le> 512 * length cs"
  using assms by (auto simp: file_ok_def)

lemma file_chain_subset: "file_chain p c cs \<Longrightarrow> x \<in> set cs \<Longrightarrow> valid_cluster p x"
  by (simp add: file_chain_def)

lemma length_file_data_valid:
  assumes "vol_state w n p" "\<And>x. x \<in> set cs \<Longrightarrow> valid_cluster p x"
  shows "length (file_data (abs_vol p) cs) = 512 * length cs"
  using assms(2) by (induction cs) (auto simp: length_cluster [OF assms(1)])

lemma file_data_drop:
  assumes "vol_state w n p" "file_chain p c cs" "k \<le> length cs"
  shows "drop j (file_data (abs_vol p) (drop k cs)) = drop (512 * k + j) (file_data (abs_vol p) cs)"
proof -
  have "length (file_data (abs_vol p) (take k cs)) = 512 * k"
    using length_file_data_valid [OF assms(1), of "take k cs"] file_chain_subset [OF assms(2)] assms(3)
    by (auto dest: in_set_takeD)
  moreover have "file_data (abs_vol p) cs
      = file_data (abs_vol p) (take k cs) @ file_data (abs_vol p) (drop k cs)"
    by (metis append_take_drop_id file_data_simps(3))
  ultimately show ?thesis by (simp add: add.commute)
qed

lemma file_offset [simp]: "vfs_node_get_offset (Some nd) = offset nd"
  by (simp add: vfs_node_get_offset_def)

lemma read_bytes_ok:
  assumes ok: "vol_state w n p" and f: "file_ok p nd cs" and m: "m = node_size (node (node_data nd)) - offset nd"
    and b: "unat (min32 sz m) \<le> length buf" "length buf < 2 ^ 31"
  shows "\<exists>q. read_bytes_from_file p nd buf sz = Some (min32 sz m,
       patch buf 0 (take (unat (min32 sz m)) (drop (unat (offset nd)) (file_data (abs_vol p) cs))), q)
     \<and> evolves_in w n p q \<and> abs_vol q = abs_vol p"
proof -
  note fD = file_okD [OF f]
  obtain k c off p1 where s: "seek_loop p buf (node_start (node (node_data nd))) (offset nd) = Some (c, off, buf, p1)"
    "evolves_in w n p p1" "abs_vol p1 = abs_vol p" "k \<le> length cs" "file_chain p1 c (drop k cs)"
    "unat off \<le> 512" "512 * k + unat off = unat (offset nd)"
    using seek_loop_ok [OF ok fD(1,6,5)] by blast
  have "offset nd \<le> node_size (node (node_data nd))" using fD(4) by (simp add: word_le_nat_alt)
  then have um: "unat m = unat (node_size (node (node_data nd))) - unat (offset nd)"
    unfolding m by (rule unat_diff_u32)
  have "unat (min32 sz m) \<le> unat m" by (simp add: unat_min32)
  then have r: "unat off + unat (min32 sz m) \<le> 512 * length (drop k cs)"
    using um fD(2,4) s(4,7) by (simp add: right_diff_distrib')
  have r0: "unat (0::i32) + unat (min32 sz m) \<le> length buf" using b(1) by simp
  obtain q where q: "read_loop p1 buf c (min32 sz m) off 0 = Some (0 + min32 sz m, patch buf (unat (0::i32))
      (take (unat (min32 sz m)) (drop (unat off) (file_data (abs_vol p1) (drop k cs)))), q)"
    "evolves_in w n p1 q" "abs_vol q = abs_vol p1"
    using read_loop_ok [OF evolves_vol_ok [OF s(2)] s(5,6) r r0 b(2)] by blast
  have d: "drop (unat off) (file_data (abs_vol p1) (drop k cs)) = drop (unat (offset nd)) (file_data (abs_vol p) cs)"
    unfolding s(3) file_data_drop [OF ok fD(1) s(4)] s(7) ..
  have "read_bytes_from_file p nd buf sz = Some (min32 sz m,
       patch buf 0 (take (unat (min32 sz m)) (drop (unat (offset nd)) (file_data (abs_vol p) cs))), q)"
    unfolding read_bytes_from_file_def Let_def get_cluster_from_node_Some file_offset s(1) m [symmetric]
    using q(1) by (simp add: d)
  then show ?thesis using q(2,3) s(2,3) evolves_trans [OF s(2) q(2)] by auto
qed

lemma fat32_read_file_ok:
  assumes ok: "vol_state w n p" and f: "file_ok p nd cs" and m: "m = node_size (node (node_data nd)) - offset nd"
    and b: "unat (min32 sz m) \<le> length buf" "length buf < 2 ^ 31"
  shows "\<exists>q. fat32_read_file p nd buf sz = Some (min32 sz m,
       patch buf 0 (take (unat (min32 sz m)) (drop (unat (offset nd)) (file_data (abs_vol p) cs))),
       nd\<lparr>offset := offset nd + min32 sz m\<rparr>, q)
     \<and> evolves_in w n p q \<and> abs_vol q = abs_vol p"
  using read_bytes_ok [OF assms]
  by (auto simp: fat32_read_file_def vfs_node_move_offset_def)

end
