(* ===== verification/Fat32_Write.thy ===== *)
theory Fat32_Write
  imports Fat32_Read
begin

text \<open>
  Writing a file: the write loop patches the contents of the chain and appends cleared
  clusters as it needs them, first fit, until the bytes are written or the volume is full.
  No other cluster of the volume changes.
\<close>

subsection \<open>What a write does to the volume\<close>

text \<open>
  \<open>written n p c cs off xs ns q\<close>: from \<open>p\<close> to \<open>q\<close> the bytes \<open>xs\<close> were written at \<open>off\<close> into the
  file that starts at \<open>c\<close> with the chain \<open>cs\<close>, which grew by the free clusters \<open>ns\<close>.
\<close>

definition written :: "nat \<Rightarrow> 'd fat_volume \<Rightarrow> u32 \<Rightarrow> u32 list \<Rightarrow> nat \<Rightarrow> byte list \<Rightarrow> u32 list
  \<Rightarrow> 'd fat_volume \<Rightarrow> bool" where
  "written n p c cs off xs ns q \<longleftrightarrow> evolves n p q \<and> file_chain q c (cs @ ns)
     \<and> (\<forall>x \<in> set ns. a_fat (abs_vol p) (unat x) = 0)
     \<and> off + length xs \<le> 512 * length (cs @ ns)
     \<and> file_data (abs_vol q) (cs @ ns)
         = patch (file_data (abs_vol p) cs @ replicate (512 * length ns) 0) off xs
     \<and> (\<forall>x. x \<notin> unat ` set (cs @ ns) \<longrightarrow> a_fat (abs_vol q) x = a_fat (abs_vol p) x
            \<and> a_data (abs_vol q) x = a_data (abs_vol p) x)"

lemma writtenD:
  assumes "written n p c cs off xs ns q"
  shows "evolves n p q" "file_chain q c (cs @ ns)" "x \<in> set ns \<Longrightarrow> a_fat (abs_vol p) (unat x) = 0"
    "off + length xs \<le> 512 * length (cs @ ns)"
    "file_data (abs_vol q) (cs @ ns) = patch (file_data (abs_vol p) cs @ replicate (512 * length ns) 0) off xs"
    "unat y \<notin> unat ` set (cs @ ns) \<Longrightarrow> a_fat (abs_vol q) (unat y) = a_fat (abs_vol p) (unat y)"
    "unat y \<notin> unat ` set (cs @ ns) \<Longrightarrow> a_data (abs_vol q) (unat y) = a_data (abs_vol p) (unat y)"
  using assms by (auto simp: written_def)

lemma written_nothing:
  "vol_ok n p \<Longrightarrow> file_chain p c cs \<Longrightarrow> off \<le> 512 * length cs \<Longrightarrow> written n p c cs off [] [] p"
  by (simp add: written_def evolves_refl length_file_data)

lemma file_chain_distinct: "file_chain p c cs \<Longrightarrow> distinct cs"
  unfolding file_chain_def by (blast intro: chain_distinct)

lemma chain_used:
  "file_chain p c cs \<Longrightarrow> x \<in> set cs \<Longrightarrow> a_fat (abs_vol p) (unat x) \<noteq> 0"
  by (induction cs arbitrary: c) (auto simp: file_chain_Cons dest: file_chain_ne)

lemma patch_split:
  assumes "length d = 512" "off + length xs \<le> 512" "off + length xs = 512 \<or> ys = []"
  shows "patch d off xs @ patch rest 0 ys = patch (d @ rest) off (xs @ ys)"
  using assms(3)
proof
  assume "off + length xs = 512"
  then show ?thesis using assms by (simp add: patch_append_both)
next
  assume "ys = []"
  then show ?thesis using assms by (simp add: patch_append_left)
qed

lemma file_data_zeros:
  "(\<And>x. x \<in> set ms \<Longrightarrow> a_data v (unat x) = replicate 512 0) \<Longrightarrow>
   file_data v ms = replicate (512 * length ms) 0"
  by (induction ms) (simp_all flip: replicate_add)

text \<open>
  One round of the loop writes \<open>xs\<close> into the first cluster and may link the clusters \<open>ms\<close>
  to the chain; the rest of the loop writes \<open>ys\<close> from the next cluster on.
\<close>

lemma written_step:
  assumes ok: "vol_ok n p" and ch: "file_chain p c (c # cs)"
    and e: "evolves n p p1" and ch1: "file_chain p1 nxt (cs @ ms)" and nxt: "a_fat (abs_vol p1) (unat c) = nxt"
    and ms: "\<And>x. x \<in> set ms \<Longrightarrow> a_fat (abs_vol p) (unat x) = 0 \<and> a_data (abs_vol p1) (unat x) = replicate 512 0"
    and dc: "a_data (abs_vol p1) (unat c) = patch (a_data (abs_vol p) (unat c)) off xs"
    and fr: "\<And>x. x \<noteq> unat c \<Longrightarrow> x \<notin> unat ` set ms \<Longrightarrow>
       a_fat (abs_vol p1) x = a_fat (abs_vol p) x \<and> a_data (abs_vol p1) x = a_data (abs_vol p) x"
    and w: "written n p1 nxt (cs @ ms) 0 ys ns q"
    and off: "off + length xs \<le> 512" "off + length xs = 512 \<or> ys = []"
  shows "written n p c (c # cs) off (xs @ ys) (ms @ ns) q"
proof -
  note wD = writtenD [OF w]
  have c: "valid_cluster p c" using ch by (simp add: file_chain_Cons)
  have cused: "a_fat (abs_vol p) (unat c) \<noteq> 0" by (rule chain_used [OF ch]) simp
  have ccs: "c \<notin> set cs" using file_chain_distinct [OF ch] by simp
  have cms: "c \<notin> set ms" using ms cused by auto
  have nsp1: "x \<in> set ns \<Longrightarrow> x \<noteq> c" for x
    using wD(3) nxt file_chain_ne [OF ch1] by auto
  have cns: "unat c \<notin> unat ` set ((cs @ ms) @ ns)" using ccs cms nsp1 [of c] by auto
  have "file_chain q c (c # cs @ ms @ ns)"
    using wD(2) c valid_cluster_evolves [OF evolves_trans [OF e wD(1)]] wD(6) [OF cns] nxt
    by (simp add: file_chain_Cons)
  moreover have "\<forall>x \<in> set (ms @ ns). a_fat (abs_vol p) (unat x) = 0"
  proof
    fix x assume x: "x \<in> set (ms @ ns)"
    show "a_fat (abs_vol p) (unat x) = 0"
    proof (cases "x \<in> set ms")
      case False
      then have "x \<in> set ns" using x by simp
      then show ?thesis using wD(3) nsp1 False fr [of "unat x"] by auto
    qed (use ms in auto)
  qed
  moreover have "file_data (abs_vol q) (c # cs @ ms @ ns)
     = patch (file_data (abs_vol p) (c # cs) @ replicate (512 * length (ms @ ns)) 0) off (xs @ ys)"
  proof -
    have "x \<in> set cs \<Longrightarrow> a_data (abs_vol p1) (unat x) = a_data (abs_vol p) (unat x)" for x
    proof -
      assume x: "x \<in> set cs"
      then have "x \<noteq> c" using ccs by auto
      moreover have "x \<notin> set ms" using ms chain_used [OF ch, of x] x by auto
      ultimately show "a_data (abs_vol p1) (unat x) = a_data (abs_vol p) (unat x)"
        using fr [of "unat x"] by auto
    qed
    then have "file_data (abs_vol p1) cs = file_data (abs_vol p) cs" by (rule file_data_cong)
    moreover have "file_data (abs_vol p1) ms = replicate (512 * length ms) 0"
      by (rule file_data_zeros) (use ms in simp)
    ultimately have rest: "file_data (abs_vol q) (cs @ ms @ ns)
        = patch (file_data (abs_vol p) cs @ replicate (512 * length (ms @ ns)) 0) 0 ys"
      using wD(5) by (simp add: replicate_add distrib_left)
    have "file_data (abs_vol q) (c # cs @ ms @ ns)
        = patch (a_data (abs_vol p) (unat c)) off xs @ file_data (abs_vol q) (cs @ ms @ ns)"
      using wD(7) [OF cns] dc by simp
    also have "\<dots> = patch (a_data (abs_vol p) (unat c) @ file_data (abs_vol p) cs
          @ replicate (512 * length (ms @ ns)) 0) off (xs @ ys)"
      unfolding rest by (rule patch_split [OF length_cluster [OF ok c] off])
    finally show ?thesis by simp
  qed
  moreover have "off + length (xs @ ys) \<le> 512 * length ((c # cs) @ ms @ ns)"
    using wD(4) off by auto
  moreover have "a_fat (abs_vol q) x = a_fat (abs_vol p) x \<and> a_data (abs_vol q) x = a_data (abs_vol p) x"
    if "x \<notin> unat ` set ((c # cs) @ ms @ ns)" for x
    using that w fr [of x] by (simp add: written_def image_Un)
  ultimately show ?thesis
    using evolves_trans [OF e wD(1)] by (simp add: written_def)
qed

subsection \<open>The write loop\<close>

text \<open>
  \<open>w\<close> bytes are written: all \<open>sz\<close> of them unless the volume is full afterwards. A cluster
  is only allocated when bytes are to go into it.
\<close>

definition full :: "'d fat_volume \<Rightarrow> bool" where
  "full p \<longleftrightarrow> free_cluster (abs_vol p) (fat_entries p) = None"

lemma write_loop_ok:
  assumes "vol_ok n p" "file_chain p c cs" "unat off \<le> 512" "unat off \<le> 512 * length cs"
    "cs = [] \<longrightarrow> sz = 0" "unat done + unat sz \<le> length buf" "length buf < 2 ^ 31"
  shows "\<exists>w ns q. write_loop p buf c sz off done = Some (done + of_nat w, q)
     \<and> w \<le> unat sz \<and> (w < unat sz \<longrightarrow> full q)
     \<and> written n p c cs (unat off) (take w (drop (unat done) buf)) ns q
     \<and> (ns \<noteq> [] \<longrightarrow> 512 * length (cs @ ns) < unat off + unat sz + 512)"
  using assms
proof (induction "2 * unat sz + (if off = 512 then 1 else 0)" arbitrary: p c cs sz off "done"
    rule: less_induct)
  case less
  show ?case
  proof (cases "sz = 0")
    case True
    then show ?thesis
      using less.prems by (intro exI [of _ 0] exI [of _ "[]"] exI [of _ p]) (simp add: write_loop.simps written_nothing)
  next
    case False
    then have sz: "0 < sz" by (simp add: word_gt_0)
    from False less.prems(5) obtain cs' where cs: "cs = c # cs'"
      using less.prems(2) by (cases cs) (auto simp: file_chain_Cons)
    let ?m = "min32 sz (512 - off)" and ?F = "a_fat (abs_vol p)"
    let ?part = "take (unat ?m) (drop (unat done) buf)"
    have ch: "file_chain p c (c # cs')" using less.prems(2) cs by simp
    then have c: "valid_cluster p c" and ch': "file_chain p (?F (unat c)) cs'"
      by (auto simp: file_chain_Cons)
    have m: "unat ?m = min (unat sz) (512 - unat off)"
      using less.prems(3) by (simp add: unat_min32 unat_512_minus)
    have lp: "length ?part = unat ?m" using m less.prems(6) by simp
    have pre: "unat off + unat ?m \<le> 512 \<and> unat ?m \<le> length (drop (unat done) buf)"
      using m less.prems(3,6) by auto
    have "?m \<le> sz" by (auto simp: min32_def)
    then have rest: "unat (sz - ?m) = unat sz - unat ?m" by (rule unat_diff_u32)
    have ml: "unat ?m \<le> unat sz" using m by simp
    have done': "unat (done + ?m) = unat done + unat ?m"
      using m less.prems(6,7) by (simp add: unat_add_u32)
    have fits: "unat (done + ?m) + unat (sz - ?m) \<le> length buf"
      unfolding done' rest using m less.prems(6) by simp
    have dec: "2 * unat (sz - ?m) + (if (0::i32) = 512 then 1 else 0) < 2 * unat sz + (if off = 512 then 1 else 0)"
      using transfer_shrinks [OF sz, of off] by (cases "off = 512") auto
    have lt: "?m < sz \<longleftrightarrow> unat ?m < unat sz" by (simp add: word_less_nat_alt)
    have d512: "length (a_data (abs_vol p) (unat c)) = 512" by (rule length_cluster [OF less.prems(1) c])
    have take2: "take (unat ?m + w) (drop (unat done) buf) = ?part @ take w (drop (unat (done + ?m)) buf)" for w
      unfolding done' by (subst take_add) (simp add: add.commute)
    have next_round: ?thesis
      if t: "\<exists>b. traverse_fat_coroutine p (drop (unat done) buf) c ?m off write_part_cluster (?m < sz) = Some (nxt, b, p1)"
        and e: "evolves n p p1" and ch1: "file_chain p1 nxt (cs' @ ms)"
        and nxt: "a_fat (abs_vol p1) (unat c) = nxt"
        and ms: "\<And>x. x \<in> set ms \<Longrightarrow> a_fat (abs_vol p) (unat x) = 0 \<and> a_data (abs_vol p1) (unat x) = replicate 512 0"
        and dc: "a_data (abs_vol p1) (unat c) = patch (a_data (abs_vol p) (unat c)) (unat off) ?part"
        and fr: "\<And>x. x \<noteq> unat c \<Longrightarrow> x \<notin> unat ` set ms \<Longrightarrow>
          a_fat (abs_vol p1) x = a_fat (abs_vol p) x \<and> a_data (abs_vol p1) x = a_data (abs_vol p) x"
        and sz0: "cs' @ ms = [] \<longrightarrow> sz - ?m = 0"
        and grow: "ms = [] \<or> cs' = [] \<and> ?m < sz \<and> length ms = 1" for nxt p1 ms
    proof -
      have nz: "nxt \<noteq> 0" by (rule file_chain_ne [OF ch1])
      obtain w ns q where r: "write_loop p1 buf nxt (sz - ?m) 0 (done + ?m) = Some (done + ?m + of_nat w, q)"
        "w \<le> unat (sz - ?m)" "w < unat (sz - ?m) \<longrightarrow> full q"
        "written n p1 nxt (cs' @ ms) (unat (0::i32)) (take w (drop (unat (done + ?m)) buf)) ns q"
        "ns \<noteq> [] \<longrightarrow> 512 * length ((cs' @ ms) @ ns) < unat (0::i32) + unat (sz - ?m) + 512"
        using less.hyps [OF dec evolves_vol_ok [OF e] ch1 _ _ sz0 fits less.prems(7)] by auto
      let ?w = "unat ?m + w"
      have "write_loop p buf c sz off done = Some (done + ?m + of_nat w, q)"
        using t sz nz r(1) by (subst write_loop.simps) auto
      then have "write_loop p buf c sz off done = Some (done + of_nat ?w, q)"
        by (simp add: add.assoc)
      moreover have "?w \<le> unat sz" "?w < unat sz \<longrightarrow> full q"
        using r(2,3) ml rest by auto
      moreover have "written n p c cs (unat off) (take ?w (drop (unat done) buf)) (ms @ ns) q"
        unfolding take2 cs
      proof (rule written_step [OF less.prems(1) ch e ch1 nxt ms dc fr])
        show "written n p1 nxt (cs' @ ms) 0 (take w (drop (unat (done + ?m)) buf)) ns q" using r(4) by simp
        show "unat off + length ?part \<le> 512" unfolding lp using pre by simp
        show "unat off + length ?part = 512 \<or> take w (drop (unat (done + ?m)) buf) = []"
          unfolding lp using m r(2) rest pre by (auto simp: min_def split: if_splits)
      qed auto
      moreover have "ms @ ns \<noteq> [] \<longrightarrow> 512 * length (cs @ ms @ ns) < unat off + unat sz + 512"
        using r(5) grow m rest lt cs less.prems(3)
        by (cases ns) (auto simp: min_def split: if_splits)
      ultimately show ?thesis by blast
    qed
    consider (on) "cs' \<noteq> [] \<or> \<not> ?m < sz" | (ext) i where "cs' = []" "?m < sz"
        "free_cluster (abs_vol p) (fat_entries p) = Some i"
      | (full) "cs' = []" "?m < sz" "free_cluster (abs_vol p) (fat_entries p) = None"
      by (cases "free_cluster (abs_vol p) (fat_entries p)") auto
    then show ?thesis
    proof cases
      case on
      have "\<not> (EOC \<le> ?F (unat c) \<and> ?m < sz)"
        using on ch' by (cases cs') (auto simp: file_chain_Cons dest: valid_clusterD)
      then obtain p1 where p1: "traverse_fat_coroutine p (drop (unat done) buf) c ?m off write_part_cluster (?m < sz)
          = Some (?F (unat c), drop (unat done) buf, p1)" "evolves n p p1"
        "abs_vol p1 = (abs_vol p)\<lparr>a_data := (a_data (abs_vol p))
          (unat c := patch (a_data (abs_vol p) (unat c)) (unat off) ?part)\<rparr>"
        using wrp.traverse_step [OF less.prems(1) _ c pre] by blast
      show ?thesis
      proof (rule next_round [where ms = "[]" and ?p1.0 = p1])
        show "\<exists>b. traverse_fat_coroutine p (drop (unat done) buf) c ?m off write_part_cluster (?m < sz)
          = Some (?F (unat c), b, p1)" using p1(1) by blast
        show "file_chain p1 (?F (unat c)) (cs' @ [])"
          using ch' file_chain_cong [OF p1(2)] p1(3) by simp
        show "cs' @ [] = [] \<longrightarrow> sz - ?m = 0"
          using on lt rest m by (auto simp flip: unat_0_iff_u32)
      qed (use p1 in auto)
    next
      case ext
      have "EOC \<le> ?F (unat c)" using ch' ext by (simp add: file_chain_Nil)
      then obtain p1 where p1: "traverse_fat_coroutine p (drop (unat done) buf) c ?m off write_part_cluster True
          = Some (of_nat i, drop (unat done) buf, p1)" "evolves n p p1"
        "abs_vol p1 = link_cluster ((abs_vol p)\<lparr>a_data := (a_data (abs_vol p))
          (unat c := patch (a_data (abs_vol p) (unat c)) (unat off) ?part)\<rparr>) c i"
        using wrp.traverse_extend [OF less.prems(1) c pre _ ext(3)] by blast
      note fv = free_cluster_valid [OF ext(3)] and fD = free_cluster_SomeD [OF ext(3)]
      have ci: "unat c \<noteq> i" using fD(3) chain_used [OF ch, of c] by auto
      have v: "a_fat (abs_vol p1) = ?F(unat c := of_nat i, i := 0xFFFFFFF)"
        "a_data (abs_vol p1) = (a_data (abs_vol p))
          (unat c := patch (a_data (abs_vol p) (unat c)) (unat off) ?part, i := replicate 512 0)"
        using valid_clusterD(1) [OF c] by (simp_all add: p1(3) link_cluster_def)
      show ?thesis
      proof (rule next_round [where ms = "[of_nat i]" and ?p1.0 = p1])
        show "\<exists>b. traverse_fat_coroutine p (drop (unat done) buf) c ?m off write_part_cluster (?m < sz)
          = Some (of_nat i, b, p1)" using p1(1) ext(2) by simp
        show "file_chain p1 (of_nat i) (cs' @ [of_nat i])"
          using fv valid_cluster_evolves [OF p1(2)] ext(1)
          by (simp add: file_chain_Cons file_chain_Nil v(1) EOC_def)
      qed (use p1(2) v ci fv fD(3) ext in auto)
    next
      case full
      have "EOC \<le> ?F (unat c)" using ch' full by (simp add: file_chain_Nil)
      then obtain p1 where p1: "traverse_fat_coroutine p (drop (unat done) buf) c ?m off write_part_cluster True
          = Some (0, drop (unat done) buf, p1)" "evolves n p p1"
        "abs_vol p1 = (abs_vol p)\<lparr>a_data := (a_data (abs_vol p))
          (unat c := patch (a_data (abs_vol p) (unat c)) (unat off) ?part)\<rparr>"
        using wrp.traverse_full [OF less.prems(1) c pre _ full(3)] by blast
      have "write_loop p buf c sz off done = Some (done + of_nat (unat ?m), p1)"
        using p1(1) sz full(2) by (subst write_loop.simps) simp
      moreover have "full p1"
        using full(3) p1(3) evolves_geom [OF p1(2)] by (simp add: full_def free_cluster_def)
      moreover have "file_chain p1 c (c # cs')"
        using ch file_chain_cong [OF p1(2)] p1(3) by simp
      then have "written n p c cs (unat off) ?part [] p1"
        unfolding written_def cs
        using p1(2,3) pre lp patch_append_left [of "unat off" ?part "a_data (abs_vol p) (unat c)"] d512
        by (auto simp: full(1))
      ultimately show ?thesis using m by (intro exI [of _ "unat ?m"] exI [of _ "[]"] exI [of _ p1]) auto
    qed
  qed
qed

subsection \<open>Writing to an open file\<close>

lemma written_Cons:
  assumes ok: "vol_ok n p" and ch: "file_chain p c (c # vs)"
    and w: "written n p (a_fat (abs_vol p) (unat c)) vs off xs ns q"
  shows "written n p c (c # vs) (512 + off) xs ns q"
proof -
  note wD = writtenD [OF w]
  have c: "valid_cluster p c" using ch by (simp add: file_chain_Cons)
  have "c \<notin> set vs" using file_chain_distinct [OF ch] by simp
  moreover have "c \<notin> set ns" using wD(3) [of c] chain_used [OF ch, of c] by auto
  ultimately have cn: "unat c \<notin> unat ` set (vs @ ns)" by simp
  have "file_chain q c (c # vs @ ns)"
    using wD(2) c valid_cluster_evolves [OF wD(1)] wD(6) [OF cn] by (simp add: file_chain_Cons)
  moreover have "file_data (abs_vol q) (c # vs @ ns)
      = patch (file_data (abs_vol p) (c # vs) @ replicate (512 * length ns) 0) (512 + off) xs"
    using wD(5) wD(7) [OF cn] length_cluster [OF ok c] by (simp add: patch_append_right)
  ultimately show ?thesis using w by (auto simp: written_def)
qed

lemma written_append:
  assumes "vol_ok n p" "file_chain p c (us @ vs)" "file_chain p c' vs" "vs \<noteq> []"
    "written n p c' vs off xs ns q"
  shows "written n p c (us @ vs) (512 * length us + off) xs ns q"
  using assms
proof (induction us arbitrary: c)
  case Nil
  then have "c = c'" by (cases vs) (auto simp: file_chain_Cons)
  with Nil show ?case by simp
next
  case (Cons u us)
  then have u: "u = c" "file_chain p (a_fat (abs_vol p) (unat c)) (us @ vs)"
    by (auto simp: file_chain_Cons)
  show ?case
    using written_Cons [OF Cons.prems(1) _ Cons.IH [OF Cons.prems(1) u(2) Cons.prems(3,4,5)]] Cons.prems(2) u(1)
    by (simp add: add.assoc)
qed

lemma written_from:
  "evolves n p p1 \<Longrightarrow> abs_vol p1 = abs_vol p \<Longrightarrow> written n p1 c cs off xs ns q \<Longrightarrow> written n p c cs off xs ns q"
  by (auto simp: written_def dest: evolves_trans)

lemma written_to:
  assumes "written n p c cs off xs ns q" "evolves n q r" "abs_vol r = abs_vol q"
  shows "written n p c cs off xs ns r"
  using assms file_chain_cong [OF assms(2)] by (auto simp: written_def dest: evolves_trans)

text \<open>
  The loops of \<^verbatim>\<open>write_bytes_in_file\<close>: seek, then write. The file grows in clusters no
  further than the last byte to write asks for.
\<close>

lemma seek_write_ok:
  assumes ok: "vol_ok n p" and ch: "file_chain p c0 cs" and ne: "cs \<noteq> []"
    and off: "unat off \<le> 512 * length cs" "unat off < 2 ^ 31"
    and sz: "unat sz \<le> length buf" "length buf < 2 ^ 31"
  shows "\<exists>c off' p1 w ns q. seek_loop p buf c0 off = Some (c, off', buf, p1)
     \<and> write_loop p1 buf c sz off' 0 = Some (of_nat w, q)
     \<and> w \<le> unat sz \<and> (w < unat sz \<longrightarrow> full q)
     \<and> written n p c0 cs (unat off) (take w buf) ns q
     \<and> (ns \<noteq> [] \<longrightarrow> 512 * length (cs @ ns) < unat off + unat sz + 512)"
proof -
  obtain k c off' p1 where s: "seek_loop p buf c0 off = Some (c, off', buf, p1)"
    "evolves n p p1" "abs_vol p1 = abs_vol p" "k \<le> length cs" "file_chain p1 c (drop k cs)"
    "unat off' \<le> 512" "512 * k + unat off' = unat off" "k = 0 \<or> 0 < unat off'"
    using seek_loop_ok [OF ok ch off] by blast
  have k: "k < length cs" using s(4,7,8) off(1) ne by (cases "k = length cs") auto
  then have dne: "drop k cs \<noteq> []" by simp
  have "unat off' \<le> 512 * length (drop k cs)" using s(7) off(1) k by (simp add: right_diff_distrib')
  moreover have "unat (0::i32) + unat sz \<le> length buf" using sz by simp
  ultimately obtain w ns q where w: "write_loop p1 buf c sz off' 0 = Some (0 + of_nat w, q)"
     "w \<le> unat sz" "w < unat sz \<longrightarrow> full q"
     "written n p1 c (drop k cs) (unat off') (take w (drop (unat (0::i32)) buf)) ns q"
     "ns \<noteq> [] \<longrightarrow> 512 * length (drop k cs @ ns) < unat off' + unat sz + 512"
    using write_loop_ok [OF evolves_vol_ok [OF s(2)] s(5,6) _ _ _ sz(2), of sz 0] dne by blast
  have ch1: "file_chain p1 c0 (take k cs @ drop k cs)"
    using ch file_chain_cong [OF s(2)] s(3) by simp
  have "written n p1 c0 (take k cs @ drop k cs) (512 * length (take k cs) + unat off') (take w buf) ns q"
    using written_append [OF evolves_vol_ok [OF s(2)] ch1 s(5) dne] w(4) by simp
  then have "written n p c0 cs (unat off) (take w buf) ns q"
    using written_from [OF s(2,3)] k s(7) by (simp add: min_absorb2)
  moreover have "ns \<noteq> [] \<longrightarrow> 512 * length (cs @ ns) < unat off + unat sz + 512"
    using w(5) s(4,7) by (auto simp: right_diff_distrib')
  ultimately show ?thesis using s(1) w(1,2,3) by auto
qed

text \<open>Saving a descriptor changes one entry of the directory cluster and nothing else.\<close>

definition put_descriptor :: "FAT32_NODE_INFO \<Rightarrow> avol \<Rightarrow> avol" where
  "put_descriptor ni v = v\<lparr>a_data := (a_data v)(unat (descriptor_cluster ni) :=
     patch (a_data v (unat (descriptor_cluster ni))) (32 * unat (descriptor_offset ni))
       (bytes_of_node (node ni)))\<rparr>"

definition descriptor_ok :: "'d fat_volume \<Rightarrow> FAT32_NODE_INFO \<Rightarrow> bool" where
  "descriptor_ok p ni \<longleftrightarrow> valid_cluster p (descriptor_cluster ni)
     \<and> unat (descriptor_offset ni) < 16 \<and> wf_node (node ni)"

lemma descriptor_position:
  "unat (k::u32) < 16 \<Longrightarrow> unat (k * 32) = 32 * unat k"
  by (simp add: unat_word_ariths mult.commute)

lemma save_descriptor_ok:
  assumes ok: "vol_ok n p" and d: "descriptor_ok p ni"
  shows "\<exists>q. save_descriptor p ni = Some (E_DEVICE_OK, q) \<and> evolves n p q
     \<and> abs_vol q = put_descriptor ni (abs_vol p)"
proof -
  have D: "valid_cluster p (descriptor_cluster ni)" "unat (descriptor_offset ni) < 16" "wf_node (node ni)"
    using d by (auto simp: descriptor_ok_def)
  note po = descriptor_position [OF D(2)]
  have "unat (descriptor_offset ni * 32) + unat (32::u32) \<le> 512"
    "unat (32::u32) \<le> length (bytes_of_node (node ni))"
    using D(2,3) by (simp_all add: po length_bytes_of_node)
  from write_part_cluster_ok [OF ok D(1) this] show ?thesis
    using D(3) by (auto simp: save_descriptor_def put_descriptor_def po length_bytes_of_node)
qed

lemma dirty_vol_read: "vol_read p b l = Some (r, b', q) \<Longrightarrow> dirty q s = dirty p s"
  by (auto simp: vol_read_def split: bind_splits)

lemma dirty_vol_write: "vol_write p b l = Some (r, q) \<Longrightarrow> dirty q s = dirty p s"
  by (auto simp: vol_write_def split: bind_splits)

lemma dirty_save_descriptor:
  "save_descriptor p ni = Some (r, q) \<Longrightarrow> dirty q s = dirty p s"
  by (auto simp: save_descriptor_def write_part_cluster_def read_cluster_def write_cluster_def
      dirty_vol_read dirty_vol_write split: bind_splits if_splits)

text \<open>The descriptor of an open file after \<open>w\<close> bytes have been written at its offset.\<close>

definition node_after :: "FAT32_NODE_INFO VFS_NODE \<Rightarrow> nat \<Rightarrow> FAT32_NODE_INFO VFS_NODE" where
  "node_after nd w = nd\<lparr>
     node_data := (node_data nd)\<lparr>node := (node (node_data nd))\<lparr>node_size :=
       of_nat (max (unat (node_size (node (node_data nd)))) (unat (offset nd) + w))\<rparr>\<rparr>,
     offset := offset nd + of_nat w\<rparr>"

lemma max32_of_nat:
  "unat a + w < 2 ^ 32 \<Longrightarrow> max32 s (a + of_nat w) = of_nat (max (unat s) (unat a + w))"
  using unat_max32 [of s "a + of_nat w"] by (simp add: unat_add_u32 unat_of_nat_u32 word_unat_eq_iff)

lemma descriptor_ok_size [simp]:
  "descriptor_ok p (ni\<lparr>node := (node ni)\<lparr>node_size := x\<rparr>\<rparr>) = descriptor_ok p ni"
  by (simp add: descriptor_ok_def wf_node_def)

lemma descriptor_ok_evolves: "evolves n p q \<Longrightarrow> descriptor_ok q ni = descriptor_ok p ni"
  by (simp add: descriptor_ok_def valid_cluster_evolves)

text \<open>
  \<open>v\<close> is the volume after the loops: what \<open>written\<close> says. \<^verbatim>\<open>fat32_write_file\<close> then flushes the
  table and rewrites the descriptor.
\<close>

lemma write_file_steps:
  assumes ok: "vol_ok n p" and f: "file_ok p nd cs" and ne: "cs \<noteq> []"
    and d: "descriptor_ok p (node_data nd)"
    and sz: "unat sz \<le> length buf" "unat (offset nd) + unat sz < 2 ^ 31" "length buf < 2 ^ 31"
  shows "\<exists>w ns q v. fat32_write_file p nd buf sz = Some (of_nat w, node_after nd w, q)
     \<and> w \<le> unat sz \<and> (w < unat sz \<longrightarrow> full q) \<and> (\<forall>s. \<not> dirty q s)
     \<and> written n p (node_start (node (node_data nd))) cs (unat (offset nd)) (take w buf) ns v
     \<and> evolves n v q \<and> abs_vol q = put_descriptor (node_data (node_after nd w)) (abs_vol v)
     \<and> (ns \<noteq> [] \<longrightarrow> 512 * length (cs @ ns) < unat (offset nd) + unat sz + 512)"
proof -
  note fD = file_okD [OF f]
  obtain c off' p1 w ns p2 where l:
    "seek_loop p buf (node_start (node (node_data nd))) (offset nd) = Some (c, off', buf, p1)"
    "write_loop p1 buf c sz off' 0 = Some (of_nat w, p2)" "w \<le> unat sz" "w < unat sz \<longrightarrow> full p2"
    "written n p (node_start (node (node_data nd))) cs (unat (offset nd)) (take w buf) ns p2"
    "ns \<noteq> [] \<longrightarrow> 512 * length (cs @ ns) < unat (offset nd) + unat sz + 512"
    using seek_write_ok [OF ok fD(1) ne fD(6,5) sz(1,3)] by blast
  have e2: "evolves n p p2" by (rule writtenD(1) [OF l(5)])
  obtain p3 where p3: "save_current_fat p2 = Some (E_DEVICE_OK, p3)" "evolves n p2 p3"
    "abs_vol p3 = abs_vol p2" "\<forall>s. \<not> dirty p3 s"
    using save_current_fat_ok [OF evolves_vol_ok [OF e2]] by blast
  let ?inf = "node_data (node_after nd w)"
  have "descriptor_ok p3 ?inf"
    using d descriptor_ok_evolves [OF evolves_trans [OF e2 p3(2)]] by (simp add: node_after_def)
  from save_descriptor_ok [OF evolves_vol_ok [OF p3(2)] this] obtain q where q:
    "save_descriptor p3 ?inf = Some (E_DEVICE_OK, q)" "evolves n p3 q"
    "abs_vol q = put_descriptor ?inf (abs_vol p3)" by blast
  have "unat (offset nd) + w < 2 ^ 32" using l(3) sz(2) by simp
  note size = max32_of_nat [OF this]
  have ni: "node_data nd\<lparr>node := node (node_data nd)\<lparr>node_size :=
      max32 (node_size (node (node_data nd))) (offset nd + of_nat w)\<rparr>\<rparr> = ?inf"
    by (simp add: size node_after_def)
  have "write_bytes_in_file p nd buf sz = Some (of_nat w, nd\<lparr>node_data := ?inf\<rparr>, q)"
    using l(1,2) p3(1) q(1) by (simp add: write_bytes_in_file_def Let_def ni)
  then have "fat32_write_file p nd buf sz = Some (of_nat w, node_after nd w, q)"
    by (simp add: fat32_write_file_def vfs_node_move_offset_def node_after_def)
  moreover have "w < unat sz \<longrightarrow> full q"
    using l(4) q(3) p3(3) evolves_geom [OF evolves_trans [OF p3(2) q(2)]]
    by (simp add: full_def free_cluster_def put_descriptor_def)
  moreover have "\<forall>s. \<not> dirty q s" using p3(4) dirty_save_descriptor [OF q(1)] by simp
  ultimately show ?thesis
    using l(3,5,6) q(3) p3(3) evolves_trans [OF p3(2) q(2)] by metis
qed

text \<open>
  The file and the rest of the volume after both: the descriptor cluster belongs to some
  directory, so it is in use and outside of the file.
\<close>

lemma written_file:
  assumes f: "file_ok p nd cs" and d: "descriptor_ok p (node_data nd)"
    and own: "descriptor_cluster (node_data nd) \<notin> set cs"
      "a_fat (abs_vol p) (unat (descriptor_cluster (node_data nd))) \<noteq> 0"
    and w: "written n p (node_start (node (node_data nd))) cs (unat (offset nd)) xs ns v"
    and sz: "length xs = w" "unat (offset nd) + w < 2 ^ 31"
    and q: "evolves n v q" "abs_vol q = put_descriptor (node_data (node_after nd w)) (abs_vol v)"
  shows "evolves n p q" "file_ok q (node_after nd w) (cs @ ns)"
    "file_data (abs_vol q) (cs @ ns)
       = patch (file_data (abs_vol p) cs @ replicate (512 * length ns) 0) (unat (offset nd)) xs"
    "entry_at (a_data (abs_vol q) (unat (descriptor_cluster (node_data nd))))
       (unat (descriptor_offset (node_data nd))) = node (node_data (node_after nd w))"
    "\<forall>i<16. i \<noteq> unat (descriptor_offset (node_data nd)) \<longrightarrow>
       entry_at (a_data (abs_vol q) (unat (descriptor_cluster (node_data nd)))) i
         = entry_at (a_data (abs_vol p) (unat (descriptor_cluster (node_data nd)))) i"
    "x \<notin> unat ` set (cs @ ns) \<Longrightarrow> a_fat (abs_vol q) x = a_fat (abs_vol p) x"
    "x \<notin> unat ` set (cs @ ns) \<Longrightarrow> x \<noteq> unat (descriptor_cluster (node_data nd)) \<Longrightarrow>
       a_data (abs_vol q) x = a_data (abs_vol p) x"
proof -
  note wD = writtenD [OF w] and fD = file_okD [OF f]
  let ?i = "node_data nd" and ?j = "node_data (node_after nd w)"
  show e: "evolves n p q" by (rule evolves_trans [OF wD(1) q(1)])
  have same: "descriptor_cluster ?j = descriptor_cluster ?i" "descriptor_offset ?j = descriptor_offset ?i"
    "node_start (node ?j) = node_start (node ?i)" "offset (node_after nd w) = offset nd + of_nat w"
    by (simp_all add: node_after_def node_start_def)
  have dj: "descriptor_ok p ?j" using d by (simp add: node_after_def)
  have fat: "a_fat (abs_vol q) = a_fat (abs_vol v)" by (simp add: q(2) put_descriptor_def)
  have dns: "unat (descriptor_cluster ?i) \<notin> unat ` set (cs @ ns)"
    using own wD(3) by auto
  have ch: "file_chain q (node_start (node ?i)) (cs @ ns)"
    using wD(2) file_chain_cong [OF q(1), of "cs @ ns"] by (simp add: fat)
  have fits: "unat (offset nd) + w < 2 ^ 32" using sz(2) by simp
  then have off: "unat (offset nd + of_nat w) = unat (offset nd) + w"
    by (simp add: unat_add_u32 unat_of_nat_u32)
  have size: "unat (node_size (node ?j)) = max (unat (node_size (node ?i))) (unat (offset nd) + w)"
    using fits fD(3) by (simp add: node_after_def unat_of_nat_u32)
  show "file_ok q (node_after nd w) (cs @ ns)"
    using ch fD(2,3) sz wD(4) unfolding file_ok_def same size off by auto
  have "file_data (abs_vol q) (cs @ ns) = file_data (abs_vol v) (cs @ ns)"
    by (rule file_data_cong) (use dns in \<open>auto simp: q(2) put_descriptor_def same\<close>)
  then show "file_data (abs_vol q) (cs @ ns)
       = patch (file_data (abs_vol p) cs @ replicate (512 * length ns) 0) (unat (offset nd)) xs"
    by (simp only: wD(5))
  have "valid_cluster v (descriptor_cluster ?i)" "vol_ok n v"
    using d valid_cluster_evolves [OF wD(1)] wD(1) by (auto simp: descriptor_ok_def)
  then have len: "length (a_data (abs_vol v) (unat (descriptor_cluster ?i))) = 512"
    by (rule length_cluster [rotated])
  then show "entry_at (a_data (abs_vol q) (unat (descriptor_cluster ?i))) (unat (descriptor_offset ?i)) = node ?j"
    using dj by (simp add: q(2) put_descriptor_def same entry_at_patch_same descriptor_ok_def)
  have "a_data (abs_vol v) (unat (descriptor_cluster ?i)) = a_data (abs_vol p) (unat (descriptor_cluster ?i))"
    using dns w by (simp add: written_def)
  then show "\<forall>i<16. i \<noteq> unat (descriptor_offset ?i) \<longrightarrow>
       entry_at (a_data (abs_vol q) (unat (descriptor_cluster ?i))) i = entry_at (a_data (abs_vol p) (unat (descriptor_cluster ?i))) i"
    using dj len by (auto simp: q(2) put_descriptor_def same descriptor_ok_def entry_at_patch_other)
  show "a_fat (abs_vol q) x = a_fat (abs_vol p) x" if "x \<notin> unat ` set (cs @ ns)"
    using that w by (simp add: fat written_def)
  show "a_data (abs_vol q) x = a_data (abs_vol p) x"
    if "x \<notin> unat ` set (cs @ ns)" "x \<noteq> unat (descriptor_cluster ?i)"
    using that w by (simp add: q(2) put_descriptor_def same written_def)
qed

end
