(* ===== verification/Demo_Volume.thy ===== *)
theory Demo_Volume
  imports Fat32_Write
begin

text \<open>
  A concrete volume on which the hypotheses of the theorems about FAT32 hold: a disk held
  in memory, with a one-sector table, a root directory in cluster 2, a file of one
  cluster in cluster 3, and free clusters from 4 on.
\<close>

subsection \<open>A disk in memory\<close>

type_synonym ram = "nat \<Rightarrow> byte list"

definition ram_read :: "ram READ_DEVICE" where
  "ram_read d buf cnt lba = Some (E_DEVICE_OK, d (unat lba), d)"

definition ram_write :: "ram WRITE_DEVICE" where
  "ram_write d buf cnt lba = Some (E_DEVICE_OK, d(unat lba := buf))"

definition ram_device :: "ram \<Rightarrow> ram VFS_DEVICE" where
  "ram_device d = \<lparr>device_data = d, read_m = Some ram_read, write_m = Some ram_write\<rparr>"

lemma ram_stores_sectors: "stores_sectors n (\<lambda>d. \<forall>k. length (d k) = 512) (\<lambda>d. d) ram_read ram_write"
  by (auto simp: stores_sectors_def ram_read_def ram_write_def)

lemma ram_good: "(\<And>k. length (d k) = 512) \<Longrightarrow> good_device n (ram_device d)"
  using ram_stores_sectors [of n] unfolding good_device_def ram_device_def by auto

lemma ram_sector: "k < 2 ^ 32 \<Longrightarrow> sector (ram_device d) k = d k"
  by (simp add: sector_def ram_device_def ram_read_def unat_of_nat_u32)

subsection \<open>The volume\<close>

definition demo_fat :: "u32 list" where
  "demo_fat = [0xFFFFFF8, 0xFFFFFFF, 0xFFFFFFF, 0xFFFFFFF] @ replicate 124 0"

definition demo_entry :: FAT32_NODE where
  "demo_entry = zero_node\<lparr>filename := bytes_of ''KERNEL  TXT'', start_low := 3, node_size := 10\<rparr>"

text \<open>A boot sector: one reserved sector, two tables of one sector, root directory in cluster 2.\<close>

definition demo_boot :: "byte list" where
  "demo_boot = map (\<lambda>i. if i = 14 then 1 else if i = 16 then 2 else if i = 36 then 1
     else if i = 44 then 2 else if i = 66 then 0x29 else if i = 510 then 0x55
     else if i = 511 then 0xAA else 0) [0..<512::nat]"

lemma length_demo_boot [simp]: "length demo_boot = 512"
  by (simp add: demo_boot_def)

lemma demo_boot_nth: "i < 512 \<Longrightarrow> demo_boot ! i = (if i = 14 then 1 else if i = 16 then 2
     else if i = 36 then 1 else if i = 44 then 2 else if i = 66 then 0x29 else if i = 510 then 0x55
     else if i = 511 then 0xAA else 0)"
  by (simp add: demo_boot_def)

text \<open>The disk, for any contents \<open>d\<close> of the root directory's cluster.\<close>

definition demo_disk :: "byte list \<Rightarrow> ram" where
  "demo_disk d k = (if k = 0 then demo_boot
     else if k = 1 \<or> k = 2 then bytes_of_words demo_fat
     else if k = 3 then d
     else if k = 4 then replicate 512 65
     else replicate 512 0)"

definition demo_vol_with :: "byte list \<Rightarrow> ram fat_volume" where
  "demo_vol_with d = \<lparr>letter = 65,
     partition_data = \<lparr>sectors_per_cluster = 1, reserved_sectors = 1, FATs = 2, root_entries = 0,
       sectors = 129, sectors_per_fat = 1, hidden_sectors = 0, label = [], fat_offset = 1,
       data_offset = 3, backup_boot_offset = 0, fsinfo_offset = 0, root_size = 0, root_sector = 2,
       buffer = replicate 128 0, current_sector = 0, buffer_loaded = False, buffer_changed = False\<rparr>,
     device = ram_device (demo_disk d)\<rparr>"

text \<open>A root directory with the file, and one whose sixteen slots are all taken by entries.\<close>

definition demo_dir :: "byte list" where
  "demo_dir = bytes_of_node demo_entry @ replicate 480 0"

definition demo_full_dir :: "byte list" where
  "demo_full_dir = concat (replicate 16 (bytes_of_node demo_entry))"

abbreviation demo_vol :: "ram fat_volume" where
  "demo_vol \<equiv> demo_vol_with demo_dir"

definition demo_file :: "FAT32_NODE_INFO VFS_NODE" where
  "demo_file = \<lparr>info = empty_info,
     node_data = \<lparr>descriptor_cluster = 2, descriptor_offset = 0, node = demo_entry, parent_cluster = 2\<rparr>,
     offset = 0\<rparr>"

lemma demo_entry_wf: "wf_node demo_entry"
  by (simp add: wf_node_def demo_entry_def)

lemma length_demo_dir [simp]: "length demo_dir = 512" "length demo_full_dir = 512"
  using length_bytes_of_node [OF demo_entry_wf] by (simp_all add: demo_dir_def demo_full_dir_def numeral_eq_Suc)

lemma length_demo_fat [simp]: "length demo_fat = 128"
  by (simp add: demo_fat_def)

lemma demo_geometry [simp]:
  "spf (demo_vol_with d) = 1" "fat_start (demo_vol_with d) = 1" "fat_entries (demo_vol_with d) = 128"
  "\<not> cached (demo_vol_with d) s" "\<not> dirty (demo_vol_with d) s"
  "device (demo_vol_with d) = ram_device (demo_disk d)"
  by (simp_all add: spf_def fat_start_def fat_entries_def cached_def dirty_def demo_vol_with_def)

lemma demo_vol_ok: "length d = 512 \<Longrightarrow> vol_ok 129 (demo_vol_with d)"
proof -
  assume "length d = 512"
  then have "good_device 129 (device (demo_vol_with d))"
    using ram_good by (simp add: demo_disk_def)
  moreover have "layout_ok 129 (demo_vol_with d)"
    by (simp add: layout_ok_def) (simp add: demo_vol_with_def)
  moreover have "cache_ok (demo_vol_with d)" by (simp add: cache_ok_def) (simp add: demo_vol_with_def)
  moreover have "mirrored (demo_vol_with d)" by (simp add: mirrored_def ram_sector demo_disk_def)
  ultimately show ?thesis by (simp add: vol_ok_def)
qed

lemma demo_fat_view: "c < 128 \<Longrightarrow> a_fat (abs_vol (demo_vol_with d)) c = demo_fat ! c"
  by (simp add: abs_vol_def fat_view_def fat_words_def ram_sector demo_disk_def)

lemma demo_links:
  "a_fat (abs_vol (demo_vol_with d)) 2 = 0xFFFFFFF" "a_fat (abs_vol (demo_vol_with d)) 3 = 0xFFFFFFF"
  "a_fat (abs_vol (demo_vol_with d)) 4 = 0" "a_fat (abs_vol (demo_vol_with d)) 5 = 0"
  by (simp_all add: demo_fat_view demo_fat_def nth_append)

lemma demo_valid: "valid_cluster (demo_vol_with d) 2" "valid_cluster (demo_vol_with d) 3"
  by (simp_all add: valid_cluster_def)

lemma demo_chain: "file_chain (demo_vol_with d) 3 [3]"
  using demo_valid [of d] by (simp add: file_chain_Cons file_chain_Nil demo_links EOC_def)

lemma demo_start: "node_start (node (node_data demo_file)) = 3"
  by (simp add: demo_file_def demo_entry_def zero_node_def node_start_def)

lemma demo_size: "node_size (node (node_data demo_file)) = 10" "offset demo_file = 0"
  by (simp_all add: demo_file_def demo_entry_def)

lemma demo_file_ok: "file_ok demo_vol demo_file [3]"
  using demo_chain [of demo_dir] by (simp add: file_ok_def demo_start demo_size)

lemma demo_descriptor: "descriptor_cluster (node_data demo_file) = 2"
  "descriptor_offset (node_data demo_file) = 0" "descriptor_ok demo_vol (node_data demo_file)"
  using demo_valid [of demo_dir] demo_entry_wf by (simp_all add: demo_file_def descriptor_ok_def)

lemma demo_free: "free_cluster (abs_vol (demo_vol_with d)) 128 = Some 4"
proof -
  have "[2..<128::nat] = [2, 3, 4] @ [5..<128]" by (simp add: upt_rec)
  then show ?thesis
    unfolding free_cluster_def by (simp only:) (simp add: demo_links)
qed

lemma demo_data: "a_data (abs_vol (demo_vol_with d)) 3 = replicate 512 65"
  "a_data (abs_vol (demo_vol_with d)) 2 = d"
proof -
  have "data_offset (partition_data (demo_vol_with d)) = 3" by (simp add: demo_vol_with_def)
  then show "a_data (abs_vol (demo_vol_with d)) 3 = replicate 512 65"
    "a_data (abs_vol (demo_vol_with d)) 2 = d"
    by (simp_all add: abs_vol_def data_lba_def ram_sector demo_disk_def)
qed

subsection \<open>A volume with two files\<close>

text \<open>The second file has the clusters 4 and 5 and the second entry of the root directory.\<close>

definition two_fat :: "u32 list" where
  "two_fat = [0xFFFFFF8, 0xFFFFFFF, 0xFFFFFFF, 0xFFFFFFF, 5, 0xFFFFFFF] @ replicate 122 0"

definition second_entry :: FAT32_NODE where
  "second_entry = zero_node\<lparr>filename := bytes_of ''SECOND  TXT'', start_low := 4, node_size := 600\<rparr>"

definition two_disk :: ram where
  "two_disk k = (if k = 1 \<or> k = 2 then bytes_of_words two_fat
     else if k = 3 then bytes_of_node demo_entry @ bytes_of_node second_entry @ replicate 448 0
     else if k = 5 then replicate 512 66
     else if k = 6 then replicate 512 67
     else demo_disk demo_dir k)"

definition two_vol :: "ram fat_volume" where
  "two_vol = demo_vol\<lparr>device := ram_device two_disk\<rparr>"

definition second_file :: "FAT32_NODE_INFO VFS_NODE" where
  "second_file = \<lparr>info = empty_info,
     node_data = \<lparr>descriptor_cluster = 2, descriptor_offset = 1, node = second_entry, parent_cluster = 2\<rparr>,
     offset = 510\<rparr>"

lemma second_entry_wf: "wf_node second_entry"
  by (simp add: wf_node_def second_entry_def)

lemma length_two_fat [simp]: "length two_fat = 128"
  by (simp add: two_fat_def)

lemma length_two_disk: "length (two_disk k) = 512"
  using length_bytes_of_node [OF demo_entry_wf] length_bytes_of_node [OF second_entry_wf]
  by (simp add: two_disk_def demo_disk_def)

lemma two_vol_ok: "vol_ok 129 two_vol"
proof -
  have "layout_ok 129 demo_vol" "cache_ok demo_vol" using demo_vol_ok [OF length_demo_dir(1)] by (simp_all add: vol_ok_def)
  then have "layout_ok 129 two_vol" "cache_ok two_vol" by (simp_all add: two_vol_def cache_ok_def)
  moreover have "mirrored two_vol" by (simp add: two_vol_def mirrored_def ram_sector two_disk_def)
  moreover have "good_device 129 (device two_vol)" using ram_good length_two_disk by (simp add: two_vol_def)
  ultimately show ?thesis by (simp add: vol_ok_def)
qed

lemma two_links:
  "a_fat (abs_vol two_vol) 2 = 0xFFFFFFF" "a_fat (abs_vol two_vol) 3 = 0xFFFFFFF"
  "a_fat (abs_vol two_vol) 4 = 5" "a_fat (abs_vol two_vol) 5 = 0xFFFFFFF"
proof -
  have "a_fat (abs_vol two_vol) c = two_fat ! c" if "c < 128" for c
    using that by (simp add: two_vol_def abs_vol_def fat_view_def fat_words_def ram_sector two_disk_def)
  then show "a_fat (abs_vol two_vol) 2 = 0xFFFFFFF" "a_fat (abs_vol two_vol) 3 = 0xFFFFFFF"
    "a_fat (abs_vol two_vol) 4 = 5" "a_fat (abs_vol two_vol) 5 = 0xFFFFFFF"
    by (simp_all add: two_fat_def nth_append)
qed

lemma two_data: "a_data (abs_vol two_vol) 4 = replicate 512 66" "a_data (abs_vol two_vol) 5 = replicate 512 67"
proof -
  have "data_offset (partition_data two_vol) = 3" by (simp add: two_vol_def demo_vol_with_def)
  moreover have "fat_entries two_vol = 128" by (simp add: two_vol_def)
  ultimately show "a_data (abs_vol two_vol) 4 = replicate 512 66" "a_data (abs_vol two_vol) 5 = replicate 512 67"
    by (simp_all add: abs_vol_def data_lba_def two_vol_def ram_sector two_disk_def)
qed

lemma two_files:
  "file_ok two_vol demo_file [3]" "file_ok two_vol second_file [4, 5]"
  "descriptor_ok two_vol (node_data demo_file)" "descriptor_ok two_vol (node_data second_file)"
proof -
  have v: "valid_cluster two_vol c \<longleftrightarrow> 2 \<le> unat c \<and> unat c < 128" for c
    by (simp add: valid_cluster_def two_vol_def)
  have st: "node_start (node (node_data second_file)) = 4"
    by (simp add: second_file_def second_entry_def zero_node_def node_start_def)
  show "file_ok two_vol demo_file [3]"
    by (simp add: file_ok_def demo_start demo_size file_chain_Cons file_chain_Nil v two_links EOC_def)
  show "file_ok two_vol second_file [4, 5]"
    by (simp add: file_ok_def st file_chain_Cons file_chain_Nil v two_links EOC_def)
      (simp add: second_file_def second_entry_def)
  show "descriptor_ok two_vol (node_data demo_file)" "descriptor_ok two_vol (node_data second_file)"
    using demo_entry_wf second_entry_wf by (simp_all add: descriptor_ok_def v demo_file_def second_file_def)
qed

end
