(* ===== verification/Fat32_Theorems.thy ===== *)
theory Fat32_Theorems
  imports Demo_Volume
begin

text \<open>
  The theorems about the FAT32 driver's table, clusters and files, each with the volume of
  \<^verbatim>\<open>Demo_Volume\<close> as the witness that its hypotheses can hold.
\<close>

subsection \<open>Reading and writing files\<close>

text \<open>C1. Writing to an open file writes the first \<open>w\<close> bytes of the buffer at the file
  offset: all of them unless the volume is full afterwards. The chain grows by clusters
  that were free, the contents are the old ones, extended by zeros, with the bytes put in
  at the offset; the descriptor on the disk has the new size, the table is flushed, and no
  link of any other cluster changes, no data of any other cluster, and none of the other fifteen
  entries of the directory cluster that holds the descriptor.\<close>

theorem write_file_correct:
  assumes "vol_ok n p" "file_ok p nd cs" "cs \<noteq> []" "descriptor_ok p (node_data nd)"
    and "descriptor_cluster (node_data nd) \<notin> set cs"
    and "a_fat (abs_vol p) (unat (descriptor_cluster (node_data nd))) \<noteq> 0"
    and "unat sz \<le> length buf" "unat (offset nd) + unat sz < 2 ^ 31" "length buf < 2 ^ 31"
  shows "\<exists>w ns q. fat32_write_file p nd buf sz = Some (of_nat w, node_after nd w, q)
     \<and> w \<le> unat sz \<and> (w < unat sz \<longrightarrow> full q)
     \<and> vol_ok n q \<and> geom q = geom p \<and> (\<forall>s. \<not> dirty q s)
     \<and> (\<forall>x \<in> set ns. a_fat (abs_vol p) (unat x) = 0)
     \<and> file_ok q (node_after nd w) (cs @ ns)
     \<and> file_data (abs_vol q) (cs @ ns)
         = patch (file_data (abs_vol p) cs @ replicate (512 * length ns) 0) (unat (offset nd)) (take w buf)
     \<and> entry_at (a_data (abs_vol q) (unat (descriptor_cluster (node_data nd))))
         (unat (descriptor_offset (node_data nd))) = node (node_data (node_after nd w))
     \<and> (\<forall>i<16. i \<noteq> unat (descriptor_offset (node_data nd)) \<longrightarrow>
            entry_at (a_data (abs_vol q) (unat (descriptor_cluster (node_data nd)))) i
              = entry_at (a_data (abs_vol p) (unat (descriptor_cluster (node_data nd)))) i)
     \<and> (\<forall>x. x \<notin> unat ` set (cs @ ns) \<longrightarrow> a_fat (abs_vol q) x = a_fat (abs_vol p) x)
     \<and> (\<forall>x. x \<notin> unat ` set (cs @ ns) \<and> x \<noteq> unat (descriptor_cluster (node_data nd)) \<longrightarrow>
            a_data (abs_vol q) x = a_data (abs_vol p) x)"
proof -
  obtain w ns q v where s: "fat32_write_file p nd buf sz = Some (of_nat w, node_after nd w, q)"
    "w \<le> unat sz" "w < unat sz \<longrightarrow> full q" "\<forall>s. \<not> dirty q s"
    "written n p (node_start (node (node_data nd))) cs (unat (offset nd)) (take w buf) ns v"
    "evolves n v q" "abs_vol q = put_descriptor (node_data (node_after nd w)) (abs_vol v)"
    using write_file_steps [OF assms(1-4,7-9)] by blast
  have l: "length (take w buf) = w" "unat (offset nd) + w < 2 ^ 31" using s(2) assms(7,8) by auto
  note W = written_file [OF assms(2,4-6) s(5) l s(6,7)]
  show ?thesis
    using s(1-4) W(1) writtenD(3) [OF s(5)] W(2-7) unfolding evolves_in_def
    by (intro exI [of _ w] exI [of _ ns] exI [of _ q]) blast
qed

lemma write_file_correct_witness:
  "\<exists>w ns q. fat32_write_file demo_vol demo_file (replicate 600 7) 600
       = Some (of_nat w, node_after demo_file w, q)
     \<and> w \<le> 600 \<and> file_ok q (node_after demo_file w) (3 # ns)"
  using write_file_correct [OF demo_vol_ok [OF length_demo_dir(1)] demo_file_ok _ demo_descriptor(3), of 600 "replicate 600 7"]
  by (auto simp: demo_descriptor(1) demo_links demo_size)

text \<open>C2. Reading an open file delivers the bytes of its contents at the offset, as many as
  the size of the file leaves, advances the offset by that number and changes neither a
  link nor a cluster.\<close>

theorem read_file_correct:
  assumes "vol_ok n p" "file_ok p nd cs" "left = node_size (node (node_data nd)) - offset nd"
    and "unat (min32 sz left) \<le> length buf" "length buf < 2 ^ 31"
  shows "\<exists>q. fat32_read_file p nd buf sz = Some (min32 sz left,
       patch buf 0 (take (unat (min32 sz left)) (drop (unat (offset nd)) (file_data (abs_vol p) cs))),
       nd\<lparr>offset := offset nd + min32 sz left\<rparr>, q)
     \<and> vol_ok n q \<and> geom q = geom p \<and> abs_vol q = abs_vol p"
  using fat32_read_file_ok [OF assms] unfolding evolves_in_def by blast

lemma read_file_correct_witness:
  "\<exists>q. fat32_read_file demo_vol demo_file (replicate 20 0) 20
     = Some (10, replicate 10 65 @ replicate 10 0, demo_file\<lparr>offset := 10\<rparr>, q)"
proof -
  have m: "min32 20 10 = 10" by (simp add: min32_def)
  have "patch (replicate 20 0) 0 (take 10 (replicate 512 65)) = replicate 10 65 @ replicate 10 (0::byte)"
    by (simp add: patch_def)
  then show ?thesis
    using read_file_correct [OF demo_vol_ok [OF length_demo_dir(1)] demo_file_ok refl, of 20 "replicate 20 0"]
    by (auto simp: demo_size demo_data m)
qed

text \<open>C3. What is written at the start of a file is what is read back after seeking to the
  start again; fewer than \<open>sz\<close> bytes are written only if that filled the volume.\<close>

theorem write_seek_read:
  assumes "vol_ok n p" "file_ok p nd cs" "cs \<noteq> []" "descriptor_ok p (node_data nd)"
    and "descriptor_cluster (node_data nd) \<notin> set cs"
    and "a_fat (abs_vol p) (unat (descriptor_cluster (node_data nd))) \<noteq> 0"
    and "offset nd = 0" "unat sz \<le> length buf" "length buf < 2 ^ 31"
    and "unat sz \<le> length buf2" "length buf2 < 2 ^ 31"
  shows "\<exists>w nd1 nd2 nd3 q q2. fat32_write_file p nd buf sz = Some (of_nat w, nd1, q)
     \<and> w \<le> unat sz \<and> (w < unat sz \<longrightarrow> full q)
     \<and> fat32_lseek (Some nd1) 0 SEEK_SET = (0, Some nd2)
     \<and> fat32_read_file q nd2 buf2 (of_nat w) = Some (of_nat w, patch buf2 0 (take w buf), nd3, q2)"
proof -
  have o: "unat (offset nd) + unat sz < 2 ^ 31" using assms(7-9) by simp
  obtain w ns q v where s: "fat32_write_file p nd buf sz = Some (of_nat w, node_after nd w, q)"
    "w \<le> unat sz" "w < unat sz \<longrightarrow> full q"
    "written n p (node_start (node (node_data nd))) cs (unat (offset nd)) (take w buf) ns v"
    "evolves n v q" "abs_vol q = put_descriptor (node_data (node_after nd w)) (abs_vol v)"
    using write_file_steps [OF assms(1-4,8) o assms(9)] by blast
  have l: "length (take w buf) = w" "unat (offset nd) + w < 2 ^ 31" using s(2) assms(8) o by auto
  note W = written_file [OF assms(2,4-6) s(4) l s(5,6)]
  let ?nd1 = "node_after nd w" and ?nd2 = "(node_after nd w)\<lparr>offset := 0\<rparr>"
  have uw: "unat (of_nat w :: u32) = w" using l(2) by (simp add: unat_of_nat_u32)
  have seek: "fat32_lseek (Some ?nd1) 0 SEEK_SET = (0, Some ?nd2)"
    using l(2) assms(7)
    by (auto simp: fat32_lseek_def vfs_node_move_offset_def node_after_def sless_i32 uw)
  have f2: "file_ok q ?nd2 (cs @ ns)" using W(2) by (simp add: file_ok_def)
  have size: "w \<le> unat (node_size (node (node_data ?nd2)))"
    using W(2) assms(7) uw by (simp add: file_ok_def node_after_def)
  then have m: "min32 (of_nat w) (node_size (node (node_data ?nd2)) - offset ?nd2) = of_nat w"
    by (simp add: min32_def uw word_less_nat_alt)
  have "length (file_data (abs_vol p) cs) = 512 * length cs"
    using length_file_data [OF assms(1) file_okD(1) [OF assms(2)]] .
  then have "take w (drop (unat (offset ?nd2)) (file_data (abs_vol q) (cs @ ns))) = take w buf"
    using read_patch_same [of 0 "take w buf" "file_data (abs_vol p) cs @ replicate (512 * length ns) 0"]
      writtenD(4) [OF s(4)] l(1) assms(7) by (simp add: W(3) del: file_data_simps)
  then obtain q2 where "fat32_read_file q ?nd2 buf2 (of_nat w)
      = Some (of_nat w, patch buf2 0 (take w buf), ?nd2\<lparr>offset := of_nat w\<rparr>, q2)"
    using fat32_read_file_ok [OF evolves_vol_ok [OF W(1)] f2 refl, of "of_nat w" buf2]
      assms(10,11) s(2) unfolding m uw by auto
  with s(1-3) seek show ?thesis by blast
qed

lemma write_seek_read_witness:
  "\<exists>w nd1 nd2 nd3 q q2. fat32_write_file demo_vol demo_file (replicate 600 7) 600 = Some (of_nat w, nd1, q)
     \<and> w \<le> 600 \<and> fat32_lseek (Some nd1) 0 SEEK_SET = (0, Some nd2)
     \<and> fat32_read_file q nd2 (replicate 700 0) (of_nat w)
         = Some (of_nat w, patch (replicate 700 0) 0 (take w (replicate 600 7)), nd3, q2)"
  using write_seek_read [OF demo_vol_ok [OF length_demo_dir(1)] demo_file_ok _ demo_descriptor(3), of 600 "replicate 600 7" "replicate 700 0"]
  by (fastforce simp: demo_descriptor(1) demo_links demo_size)

text \<open>C4. A write to one file leaves every other file as it was: if the files share no cluster
  and have different descriptors, the other file keeps its chain, its contents and its descriptor
  on the disk, and reading it after the write delivers the bytes it had before.\<close>

theorem write_file_frame:
  assumes "vol_ok n p" "file_ok p nd cs" "cs \<noteq> []" "descriptor_ok p (node_data nd)"
    and "descriptor_cluster (node_data nd) \<notin> set cs"
    and "a_fat (abs_vol p) (unat (descriptor_cluster (node_data nd))) \<noteq> 0"
    and "unat sz \<le> length buf" "unat (offset nd) + unat sz < 2 ^ 31" "length buf < 2 ^ 31"
    and other: "file_ok p other ds" "set ds \<inter> set cs = {}" "descriptor_cluster (node_data nd) \<notin> set ds"
    and desc: "descriptor_ok p (node_data other)" "descriptor_cluster (node_data other) \<notin> set cs"
      "a_fat (abs_vol p) (unat (descriptor_cluster (node_data other))) \<noteq> 0"
      "descriptor_cluster (node_data other) = descriptor_cluster (node_data nd) \<longrightarrow>
         descriptor_offset (node_data other) \<noteq> descriptor_offset (node_data nd)"
    and read: "left = node_size (node (node_data other)) - offset other"
      "unat (min32 sz2 left) \<le> length buf2" "length buf2 < 2 ^ 31"
  shows "\<exists>r nd' q q2. fat32_write_file p nd buf sz = Some (r, nd', q)
     \<and> file_ok q other ds \<and> file_data (abs_vol q) ds = file_data (abs_vol p) ds
     \<and> entry_at (a_data (abs_vol q) (unat (descriptor_cluster (node_data other)))) (unat (descriptor_offset (node_data other)))
         = entry_at (a_data (abs_vol p) (unat (descriptor_cluster (node_data other)))) (unat (descriptor_offset (node_data other)))
     \<and> fat32_read_file q other buf2 sz2 = Some (min32 sz2 left,
          patch buf2 0 (take (unat (min32 sz2 left)) (drop (unat (offset other)) (file_data (abs_vol p) ds))),
          other\<lparr>offset := offset other + min32 sz2 left\<rparr>, q2)"
proof -
  obtain w ns q v where s: "fat32_write_file p nd buf sz = Some (of_nat w, node_after nd w, q)" "w \<le> unat sz"
    "written n p (node_start (node (node_data nd))) cs (unat (offset nd)) (take w buf) ns v"
    "evolves n v q" "abs_vol q = put_descriptor (node_data (node_after nd w)) (abs_vol v)"
    using write_file_steps [OF assms(1-4,7-9)] by blast
  have l: "length (take w buf) = w" "unat (offset nd) + w < 2 ^ 31" using s(2) assms(7,8) by auto
  note W = written_file [OF assms(2,4-6) s(3) l s(4,5)]
  note ch = file_okD(1) [OF other(1)]
  have out: "unat x \<notin> unat ` set (cs @ ns)" if "x \<in> set ds" for x
    using that other(2) chain_used [OF ch that] writtenD(3) [OF s(3), of x] by auto
  have f: "file_ok q other ds"
    using file_chain_cong [OF W(1), of ds] W(6) [OF out] other(1) by (simp add: file_ok_def)
  have d: "file_data (abs_vol q) ds = file_data (abs_vol p) ds"
    by (rule file_data_cong, rule W(7) [OF out]) (use other(3) in auto)
  have "unat (descriptor_cluster (node_data other)) \<notin> unat ` set (cs @ ns)"
    using desc(2,3) writtenD(3) [OF s(3), of "descriptor_cluster (node_data other)"] by auto
  then have e: "entry_at (a_data (abs_vol q) (unat (descriptor_cluster (node_data other)))) (unat (descriptor_offset (node_data other)))
      = entry_at (a_data (abs_vol p) (unat (descriptor_cluster (node_data other)))) (unat (descriptor_offset (node_data other)))"
    using W(5,7) desc(1,4) by (cases "descriptor_cluster (node_data other) = descriptor_cluster (node_data nd)")
      (auto simp: descriptor_ok_def)
  obtain q2 where "fat32_read_file q other buf2 sz2 = Some (min32 sz2 left,
      patch buf2 0 (take (unat (min32 sz2 left)) (drop (unat (offset other)) (file_data (abs_vol p) ds))),
      other\<lparr>offset := offset other + min32 sz2 left\<rparr>, q2)"
    using fat32_read_file_ok [OF evolves_vol_ok [OF W(1)] f read] unfolding d by blast
  then show ?thesis using s(1) f d e by blast
qed

lemma write_file_frame_witness:
  "\<exists>r nd' q q2. fat32_write_file two_vol demo_file (replicate 600 1) 600 = Some (r, nd', q)
     \<and> file_ok q second_file [4, 5]
     \<and> fat32_read_file q second_file (replicate 4 0) 4 = Some (4, [66, 66, 67, 67], second_file\<lparr>offset := 514\<rparr>, q2)"
proof -
  have s: "node_size (node (node_data second_file)) = 600" "offset second_file = 510"
    "descriptor_cluster (node_data second_file) = 2" "descriptor_offset (node_data second_file) = 1"
    by (simp_all add: second_file_def second_entry_def)
  have m: "min32 4 90 = 4" by (simp add: min32_def)
  have r: "replicate 2 x = [x, x]" for x :: byte by (simp add: numeral_2_eq_2)
  then show ?thesis
    using write_file_frame [OF two_vol_ok two_files(1) _ two_files(3), of 600 "replicate 600 1" second_file "[4, 5]" 90 4 "replicate 4 0"]
      two_files(2,4)
    by (auto simp: demo_descriptor(1,2) demo_size two_links two_data s m r patch_def)
qed

subsection \<open>Allocation and deletion\<close>

text \<open>C5. Allocation is first fit: on a volume with a free cluster it returns the lowest one,
  cleared, marked as the end of its chain and linked from the chain it extends; on a full
  volume it returns 0 and the volume means what it meant.\<close>

theorem allocate_cluster_first_fit:
  assumes "vol_ok n p" "e = 0 \<or> unat e < fat_entries p"
  shows "\<exists>r q. allocate_cluster p e = Some (r, q) \<and> vol_ok n q \<and> geom q = geom p
     \<and> (if \<exists>i. 2 \<le> i \<and> i < fat_entries p \<and> a_fat (abs_vol p) i = 0
        then (let i = unat r in 2 \<le> i \<and> i < fat_entries p \<and> a_fat (abs_vol p) i = 0
               \<and> (\<forall>j. 2 \<le> j \<and> j < i \<longrightarrow> a_fat (abs_vol p) j \<noteq> 0)
               \<and> abs_vol q = link_cluster (abs_vol p) e i \<and> (\<forall>s. \<not> dirty q s))
        else r = 0 \<and> abs_vol q = abs_vol p)"
proof (cases "free_cluster (abs_vol p) (fat_entries p)")
  case None
  then have "\<not> (\<exists>i. 2 \<le> i \<and> i < fat_entries p \<and> a_fat (abs_vol p) i = 0)"
    by (simp add: free_cluster_None_iff)
  then show ?thesis
    using allocate_cluster_full [OF assms(1) None, of e] unfolding evolves_in_def by auto
next
  case (Some i)
  note D = free_cluster_SomeD [OF Some] and V = free_cluster_valid [OF Some]
  then have ex: "\<exists>i. 2 \<le> i \<and> i < fat_entries p \<and> a_fat (abs_vol p) i = 0" by blast
  obtain q where "allocate_cluster p e = Some (of_nat i, q)" "evolves n p q"
    "abs_vol q = link_cluster (abs_vol p) e i" "\<forall>s. \<not> dirty q s"
    using allocate_cluster_ok [OF assms(1) Some assms(2)] by blast
  then show ?thesis
    unfolding evolves_in_def using ex D V(1) by (intro exI [of _ "of_nat i"] exI [of _ q]) (auto simp: Let_def)
qed

lemma allocate_cluster_first_fit_witness:
  "\<exists>r q. allocate_cluster demo_vol 3 = Some (r, q) \<and> vol_ok 129 q \<and> geom q = geom demo_vol"
  using allocate_cluster_first_fit [OF demo_vol_ok [OF length_demo_dir(1)], of 3] by auto

text \<open>C6. Deleting a chain frees exactly its clusters: their table entries become 0, every
  other entry and all data stay, and the table is flushed.\<close>

theorem delete_fat_chain_frees:
  assumes "vol_ok n p" "file_chain p c cs"
  shows "\<exists>q. delete_fat_chain p c = Some (E_DEVICE_OK, q) \<and> vol_ok n q \<and> geom q = geom p
     \<and> (\<forall>x. a_fat (abs_vol q) x = (if x \<in> unat ` set cs then 0 else a_fat (abs_vol p) x))
     \<and> a_data (abs_vol q) = a_data (abs_vol p) \<and> (\<forall>s. \<not> dirty q s)"
proof -
  obtain p1 where p1: "delete_loop p c = Some p1" "evolves n p p1"
    "abs_vol p1 = free_clusters (unat ` set cs) (abs_vol p)"
    using delete_loop_ok [OF assms] by blast
  obtain q where q: "save_current_fat p1 = Some (E_DEVICE_OK, q)" "evolves n p1 q"
    "abs_vol q = abs_vol p1" "\<forall>s. \<not> dirty q s"
    using save_current_fat_ok [OF evolves_vol_ok [OF p1(2)]] by blast
  show ?thesis
    using p1 q evolves_trans [OF p1(2) q(2)] unfolding evolves_in_def
    by (auto simp: delete_fat_chain_def free_clusters_def)
qed

lemma delete_fat_chain_frees_witness:
  "\<exists>q. delete_fat_chain demo_vol 3 = Some (E_DEVICE_OK, q)
     \<and> a_fat (abs_vol q) 3 = 0 \<and> a_fat (abs_vol q) 2 = 0xFFFFFFF"
  using delete_fat_chain_frees [OF demo_vol_ok [OF length_demo_dir(1)] demo_chain] by (auto simp: demo_links)

text \<open>C7. Deletion returns on every table whose links stay inside the table or end a chain,
  also when the links form a cycle: each round clears one entry that was in use.\<close>

theorem delete_fat_chain_terminates:
  assumes "vol_ok n p" "links_inside (abs_vol p) (fat_entries p)" "unat c < fat_entries p \<or> EOC \<le> c"
  shows "\<exists>q. delete_fat_chain p c = Some (E_DEVICE_OK, q) \<and> vol_ok n q \<and> (\<forall>s. \<not> dirty q s)"
proof -
  obtain p1 where p1: "delete_loop p c = Some p1" "evolves n p p1"
    using delete_loop_returns [OF assms] by blast
  obtain q where "save_current_fat p1 = Some (E_DEVICE_OK, q)" "evolves n p1 q" "\<forall>s. \<not> dirty q s"
    using save_current_fat_ok [OF evolves_vol_ok [OF p1(2)]] by blast
  then show ?thesis using p1 by (auto simp: delete_fat_chain_def)
qed

lemma demo_links_inside: "links_inside (abs_vol demo_vol) 128"
proof -
  have "x = 0 \<or> EOC \<le> x" if "x \<in> set demo_fat" for x
    using that by (auto simp: demo_fat_def EOC_def)
  then have "demo_fat ! c = 0 \<or> EOC \<le> demo_fat ! c" if "c < 128" for c
    using that nth_mem [of c demo_fat] by simp
  then show ?thesis by (fastforce simp: links_inside_def demo_fat_view)
qed

lemma delete_fat_chain_terminates_witness:
  "\<exists>q. delete_fat_chain demo_vol 3 = Some (E_DEVICE_OK, q) \<and> vol_ok 129 q"
  using delete_fat_chain_terminates [OF demo_vol_ok [OF length_demo_dir(1)], of 3] demo_links_inside by auto

text \<open>A chain started by an allocation and deleted again leaves the table as it was.\<close>

theorem allocate_delete_roundtrip:
  assumes "vol_ok n p" "\<not> full p"
  shows "\<exists>c p1 q. allocate_cluster p 0 = Some (c, p1) \<and> file_chain p1 c [c]
     \<and> file_data (abs_vol p1) [c] = replicate 512 0
     \<and> delete_fat_chain p1 c = Some (E_DEVICE_OK, q) \<and> vol_ok n q
     \<and> a_fat (abs_vol q) = a_fat (abs_vol p)"
proof -
  from assms(2) obtain i where i: "free_cluster (abs_vol p) (fat_entries p) = Some i"
    by (auto simp: full_def)
  note D = free_cluster_SomeD [OF i] and V = free_cluster_valid [OF i]
  obtain p1 where p1: "allocate_cluster p 0 = Some (of_nat i, p1)" "evolves n p p1"
    "abs_vol p1 = link_cluster (abs_vol p) 0 i"
    using allocate_cluster_ok [OF assms(1) i] by auto
  have ch: "file_chain p1 (of_nat i) [of_nat i]"
    using V valid_cluster_evolves [OF p1(2)]
    by (simp add: file_chain_Cons file_chain_Nil p1(3) link_cluster_def EOC_def)
  obtain p2 where p2: "delete_loop p1 (of_nat i) = Some p2" "evolves n p1 p2"
    "abs_vol p2 = free_clusters {i} (abs_vol p1)"
    using delete_loop_ok [OF evolves_vol_ok [OF p1(2)] ch] by (auto simp: V(1))
  obtain q where q: "save_current_fat p2 = Some (E_DEVICE_OK, q)" "evolves n p2 q" "abs_vol q = abs_vol p2"
    using save_current_fat_ok [OF evolves_vol_ok [OF p2(2)]] by blast
  have "a_fat (abs_vol q) = a_fat (abs_vol p)"
    using D(3) V(1) by (auto simp: q(3) p2(3) p1(3) free_clusters_def link_cluster_def)
  moreover have "delete_fat_chain p1 (of_nat i) = Some (E_DEVICE_OK, q)"
    using p2(1) q(1) by (simp add: delete_fat_chain_def)
  moreover have "file_data (abs_vol p1) [of_nat i] = replicate 512 0"
    unfolding file_data_def p1(3) link_cluster_def by (simp add: V(1))
  ultimately show ?thesis
    using p1(1) ch evolves_vol_ok [OF q(2)]
    by (intro exI [of _ "of_nat i"] exI [of _ p1] exI [of _ q] conjI) assumption+
qed

lemma allocate_delete_roundtrip_witness:
  "\<exists>c p1 q. allocate_cluster demo_vol 0 = Some (c, p1) \<and> delete_fat_chain p1 c = Some (E_DEVICE_OK, q)
     \<and> a_fat (abs_vol q) = a_fat (abs_vol demo_vol)"
  using allocate_delete_roundtrip [OF demo_vol_ok [OF length_demo_dir(1)]] demo_free by (auto simp: full_def)

subsection \<open>The table cache\<close>

text \<open>C8. Flushing the cache brings both copies of the table on the device to what the
  volume means, and changes nothing it means.\<close>

theorem save_current_fat_flushes:
  assumes "vol_ok n p"
  shows "\<exists>q. save_current_fat p = Some (E_DEVICE_OK, q) \<and> vol_ok n q \<and> abs_vol q = abs_vol p
     \<and> (\<forall>c < fat_entries p.
          words_of (sector (device q) (fat_start p + c div 128)) ! (c mod 128) = a_fat (abs_vol p) c
        \<and> words_of (sector (device q) (fat_start p + spf p + c div 128)) ! (c mod 128) = a_fat (abs_vol p) c)"
proof -
  obtain q where q: "save_current_fat p = Some (E_DEVICE_OK, q)" "evolves n p q" "abs_vol q = abs_vol p"
    "\<And>s. \<not> dirty q s"
    using save_current_fat_ok [OF assms] by blast
  note okD = vol_okD [OF evolves_vol_ok [OF q(2)]] and g = evolves_geom [OF q(2)]
  have "fat_words q s = words_of (sector (device q) (fat_start q + s))" for s
    using okD(3) q(4) by (auto simp: fat_words_def cache_ok_def dirty_def)
  moreover have "s < spf q \<Longrightarrow> sector (device q) (fat_start q + spf q + s) = sector (device q) (fat_start q + s)" for s
    using okD(4) q(4) by (auto simp: mirrored_def)
  moreover have "a_fat (abs_vol p) c = fat_words q (c div 128) ! (c mod 128)" if "c < fat_entries p" for c
    using that g q(3) [symmetric] by (simp add: abs_vol_def fat_view_def)
  ultimately have "words_of (sector (device q) (fat_start p + c div 128)) ! (c mod 128) = a_fat (abs_vol p) c
      \<and> words_of (sector (device q) (fat_start p + spf p + c div 128)) ! (c mod 128) = a_fat (abs_vol p) c"
    if "c < fat_entries p" for c
    using that entry_sector [OF that] g by simp
  then show ?thesis
    using q(1,3) evolves_vol_ok [OF q(2)] by blast
qed

lemma save_current_fat_flushes_witness:
  "\<exists>q. save_current_fat demo_vol = Some (E_DEVICE_OK, q) \<and> words_of (sector (device q) 2) ! 3 = 0xFFFFFFF"
  using save_current_fat_flushes [OF demo_vol_ok [OF length_demo_dir(1)]] by (auto simp: demo_links numeral_2_eq_2 dest!: spec [of _ 3])

text \<open>C9. The cache is transparent: after two entries are changed through it, looking an
  entry up gives the new link, the end mark, or what it was before, whichever sector the
  cache holds.\<close>

theorem change_fat_lookup:
  assumes "vol_ok n p" "unat e < fat_entries p" "unat c < fat_entries p" "unat d < fat_entries p"
  shows "\<exists>p1 q. change_fat p e c = Some (None, p1)
     \<and> get_next_cluster p1 d
         = Some (if d = c then 0xFFFFFFF else if d = e then c else a_fat (abs_vol p) (unat d), q)
     \<and> vol_ok n q \<and> abs_vol q = abs_vol p1"
proof -
  obtain p1 where p1: "change_fat p e c = Some (None, p1)" "evolves n p p1"
    "abs_vol p1 = (abs_vol p)\<lparr>a_fat := (a_fat (abs_vol p))(unat e := c, unat c := 0xFFFFFFF)\<rparr>"
    using change_fat_ok [OF assms(1-3)] by blast
  have "unat d < fat_entries p1" using assms(4) evolves_geom [OF p1(2)] by simp
  then show ?thesis
    using get_next_cluster_ok [OF evolves_vol_ok [OF p1(2)], of d] p1 by (fastforce split: if_splits)
qed

lemma change_fat_lookup_witness:
  "\<exists>p1 q. change_fat demo_vol 3 4 = Some (None, p1) \<and> get_next_cluster p1 3 = Some (4, q)"
  using change_fat_lookup [OF demo_vol_ok [OF length_demo_dir(1)], of 3 4 3] by auto

end
