(* ===== verification/Fat32_Name.thy ===== *)
theory Fat32_Name
  imports Prelude
begin

text \<open>
  File names in \<^verbatim>\<open>fs/fat32.c\<close>: \<^verbatim>\<open>make_8point3_name\<close> turns a name into the eleven bytes a
  directory entry holds. A name is the list of its characters without the terminating
  NUL; pointer arguments that walk over it are the part of the list still to read.
\<close>

subsection \<open>Operations\<close>

definition to_upper_case :: "byte \<Rightarrow> byte" where
  "to_upper_case c = (if ch CHR ''a'' \<le> c \<and> c \<le> ch CHR ''z'' then ch CHR ''A'' + (c - ch CHR ''a'') else c)"

definition alphanumeric :: "byte \<Rightarrow> bool" where
  "alphanumeric c \<longleftrightarrow> ch CHR ''a'' \<le> c \<and> c \<le> ch CHR ''z'' \<or> ch CHR ''A'' \<le> c \<and> c \<le> ch CHR ''Z''
     \<or> ch CHR ''0'' \<le> c \<and> c \<le> ch CHR ''9''"

text \<open>
  The search for the last dot. The bound \<^verbatim>\<open>filename_length - 1\<close> is unsigned: for the empty
  name the loop runs off the string, which has no defined result.
\<close>

fun last_dot_loop :: "byte list \<Rightarrow> nat list \<Rightarrow> nat \<Rightarrow> nat" where
  "last_dot_loop name [] last_dot = last_dot"
| "last_dot_loop name (i # is) last_dot =
     last_dot_loop name is (if name ! i = ch CHR ''.'' \<and> alphanumeric (name ! (i + 1)) then i else last_dot)"

function base_loop :: "nat \<Rightarrow> nat \<Rightarrow> nat \<Rightarrow> byte list \<Rightarrow> byte list \<Rightarrow> nat \<times> byte list \<times> byte list" where
  "base_loop last_dot len counter name buf =
     (if counter < last_dot \<and> counter < len
      then base_loop last_dot len (counter + 1) (tl name)
             (if counter < 8 then buf[counter := to_upper_case (hd name)] else buf)
      else (counter, name, buf))"
  by pat_completeness auto
termination
  by (relation "measure (\<lambda>(last_dot, len, counter, name, buf). len - counter)") auto

function ext_loop :: "nat \<Rightarrow> nat \<Rightarrow> nat \<Rightarrow> byte list \<Rightarrow> byte list \<Rightarrow> byte list" where
  "ext_loop len counter after_dot name buf =
     (if counter < len \<and> after_dot < 3
      then ext_loop len (counter + 1) (after_dot + 1) (tl name)
             (buf[8 + after_dot := to_upper_case (hd name)])
      else buf)"
  by pat_completeness auto
termination
  by (relation "measure (\<lambda>(len, counter, after_dot, name, buf). len - counter)") auto

declare base_loop.simps [simp del] ext_loop.simps [simp del]

definition make_8point3_name :: "byte list \<Rightarrow> byte list option" where
  "make_8point3_name filename =
     (if filename = [] then None
      else (let
        len = length filename;
        buf = replicate 11 (ch CHR '' '');
        last_dot = last_dot_loop filename [0..<len - 1] len;
        (counter, name, buf) = base_loop last_dot len 0 filename buf
        in Some (ext_loop len (counter + 1) 0 (tl name) buf)))"

subsection \<open>The reference: pad and upper-case the two parts\<close>

definition pad :: "nat \<Rightarrow> byte list \<Rightarrow> byte list" where
  "pad n xs = take n (map to_upper_case xs) @ replicate (n - length xs) (ch CHR '' '')"

text \<open>A dot splits a name when a letter or a digit follows it; the last such dot counts.\<close>

definition split_dot :: "byte list \<Rightarrow> nat \<Rightarrow> bool" where
  "split_dot name i \<longleftrightarrow> i + 1 < length name \<and> name ! i = ch CHR ''.'' \<and> alphanumeric (name ! (i + 1))"

definition last_dot :: "byte list \<Rightarrow> nat" where
  "last_dot name = (if \<exists>i < length name. split_dot name i
     then Max {i. i < length name \<and> split_dot name i} else length name)"

definition name83 :: "byte list \<Rightarrow> byte list" where
  "name83 name = pad 8 (take (last_dot name) name) @ pad 3 (drop (last_dot name + 1) name)"

lemma length_pad [simp, len_simps]: "length (pad n xs) = n"
  by (simp add: pad_def)

lemma length_name83 [simp, len_simps]: "length (name83 name) = 11"
  by (simp add: name83_def)

subsection \<open>The loops compute the reference\<close>

lemma last_dot_loop_append:
  "last_dot_loop name (xs @ ys) d = last_dot_loop name ys (last_dot_loop name xs d)"
  by (induction xs arbitrary: d) simp_all

lemma last_dot_loop_correct:
  assumes "\<And>i. i < k \<Longrightarrow> P i \<longleftrightarrow> name ! i = ch CHR ''.'' \<and> alphanumeric (name ! (i + 1))"
  shows "last_dot_loop name [0..<k] len = (if \<exists>i<k. P i then Max {i. i < k \<and> P i} else len)"
  using assms
proof (induction k)
  case (Suc k)
  have step: "last_dot_loop name [0..<Suc k] len = (if P k then k else last_dot_loop name [0..<k] len)"
    using Suc.prems [of k] by (simp add: last_dot_loop_append)
  show ?case
  proof (cases "P k")
    case True
    have "Max {i. i < Suc k \<and> P i} = k" by (rule Max_eqI) (use True in auto)
    then show ?thesis using True unfolding step by auto
  next
    case False
    then have "{i. i < Suc k \<and> P i} = {i. i < k \<and> P i}" "(\<exists>i<Suc k. P i) = (\<exists>i<k. P i)"
      by (auto simp: less_Suc_eq)
    moreover have "last_dot_loop name [0..<k] len = (if \<exists>i<k. P i then Max {i. i < k \<and> P i} else len)"
      by (rule Suc.IH) (use Suc.prems in auto)
    ultimately show ?thesis using False unfolding step by (simp only: if_False)
  qed
qed simp

lemma last_dot_loop_eq:
  assumes "name \<noteq> []"
  shows "last_dot_loop name [0..<length name - 1] (length name) = last_dot name"
proof -
  have "i < length name \<and> split_dot name i \<longleftrightarrow> i < length name - 1 \<and> split_dot name i" for i
    using assms by (auto simp: split_dot_def)
  moreover have "last_dot_loop name [0..<length name - 1] (length name)
     = (if \<exists>i<length name - 1. split_dot name i
        then Max {i. i < length name - 1 \<and> split_dot name i} else length name)"
    by (rule last_dot_loop_correct) (auto simp: split_dot_def)
  ultimately show ?thesis by (simp only: last_dot_def)
qed

lemma last_dot_none: "\<not> (\<exists>i < length name. split_dot name i) \<Longrightarrow> last_dot name = length name"
  unfolding last_dot_def by (rule if_not_P)

lemma last_dot_le: "last_dot name \<le> length name"
proof (cases "\<exists>i < length name. split_dot name i")
  case True
  then have "Max {i. i < length name \<and> split_dot name i} \<in> {i. i < length name \<and> split_dot name i}"
    by (intro Max_in) auto
  then show ?thesis using True by (auto simp: last_dot_def)
qed (simp add: last_dot_none del: not_ex)

lemma base_loop_correct:
  assumes "d \<le> length name" "counter \<le> d" "length buf = 11"
  shows "base_loop d (length name) counter (drop counter name) buf
     = (d, drop d name, take counter buf @ map to_upper_case (take (min d 8 - counter) (drop counter name))
          @ drop (counter + (min d 8 - counter)) buf)"
  using assms
proof (induction "d - counter" arbitrary: counter buf)
  case 0
  then show ?case by (subst base_loop.simps) simp
next
  case (Suc k)
  then have lt: "counter < d" "counter < length name" by auto
  let ?buf = "if counter < 8 then buf[counter := to_upper_case (name ! counter)] else buf"
  have "base_loop d (length name) counter (drop counter name) buf
      = base_loop d (length name) (counter + 1) (drop (counter + 1) name) ?buf"
    using lt by (subst base_loop.simps) (simp add: hd_drop_conv_nth tl_drop drop_Suc)
  also have "\<dots> = (d, drop d name, take (counter + 1) ?buf
      @ map to_upper_case (take (min d 8 - (counter + 1)) (drop (counter + 1) name))
      @ drop (counter + 1 + (min d 8 - (counter + 1))) ?buf)"
    by (rule Suc.hyps(1)) (use Suc lt in auto)
  also have "take (counter + 1) ?buf @ map to_upper_case (take (min d 8 - (counter + 1)) (drop (counter + 1) name))
      @ drop (counter + 1 + (min d 8 - (counter + 1))) ?buf
    = take counter buf @ map to_upper_case (take (min d 8 - counter) (drop counter name))
          @ drop (counter + (min d 8 - counter)) buf"
  proof (cases "counter < 8")
    case True
    then have m: "min d 8 - counter = Suc (min d 8 - (counter + 1))" using lt by auto
    have "drop counter name = name ! counter # drop (counter + 1) name"
      using lt by (simp add: Cons_nth_drop_Suc)
    then show ?thesis
      using True Suc.prems(3) unfolding m by (simp add: take_Suc_conv_app_nth)
  next
    case False
    then have z: "min d 8 - counter = 0" "min d 8 - (counter + 1) = 0" by auto
    show ?thesis unfolding z using False by simp
  qed
  finally show ?case .
qed

lemma ext_loop_correct:
  assumes "length buf = 11" "a \<le> 3" "length name = len - counter"
  shows "ext_loop len counter a name buf
     = take (8 + a) buf @ map to_upper_case (take (3 - a) name)
        @ drop (8 + a + min (3 - a) (length name)) buf"
  using assms
proof (induction "3 - a" arbitrary: a counter name buf)
  case 0
  then show ?case by (subst ext_loop.simps) simp
next
  case (Suc k)
  show ?case
  proof (cases name)
    case Nil
    then show ?thesis using Suc.prems by (subst ext_loop.simps) simp
  next
    case (Cons c cs)
    have a: "a < 3" using Suc.hyps(2) by simp
    have lt: "counter < len" using Suc.prems(3) Cons by simp
    have "ext_loop len counter a name buf
        = ext_loop len (counter + 1) (a + 1) cs (buf[8 + a := to_upper_case c])"
      using lt a by (subst ext_loop.simps) (simp add: Cons)
    also have "\<dots> = take (8 + (a + 1)) (buf[8 + a := to_upper_case c])
        @ map to_upper_case (take (3 - (a + 1)) cs)
        @ drop (8 + (a + 1) + min (3 - (a + 1)) (length cs)) (buf[8 + a := to_upper_case c])"
      by (rule Suc.hyps(1)) (use Suc Cons a in auto)
    also have "take (8 + (a + 1)) (buf[8 + a := to_upper_case c]) = take (8 + a) buf @ [to_upper_case c]"
      using a Suc.prems(1) take_Suc_conv_app_nth [of "8 + a" "buf[8 + a := to_upper_case c]"] by simp
    also have "drop (8 + (a + 1) + min (3 - (a + 1)) (length cs)) (buf[8 + a := to_upper_case c])
        = drop (8 + a + min (3 - a) (length name)) buf"
      using a by (simp add: Cons min_def Suc_diff_le add.assoc)
    also have "(take (8 + a) buf @ [to_upper_case c]) @ map to_upper_case (take (3 - (a + 1)) cs)
        @ drop (8 + a + min (3 - a) (length name)) buf
      = take (8 + a) buf @ map to_upper_case (take (3 - a) name)
        @ drop (8 + a + min (3 - a) (length name)) buf"
    proof -
      have "3 - a = Suc (3 - (a + 1))" using a by simp
      then show ?thesis by (simp only: Cons take_Suc_Cons list.map append_assoc append.simps)
    qed
    finally show ?thesis .
  qed
qed

lemma make_8point3_name_correct:
  assumes "name \<noteq> []"
  shows "make_8point3_name name = Some (name83 name)"
proof -
  let ?d = "last_dot name" and ?sp = "ch CHR '' ''"
  have d: "?d \<le> length name" by (rule last_dot_le)
  let ?b1 = "map to_upper_case (take (min ?d 8) name) @ replicate (11 - min ?d 8) ?sp"
  have base: "base_loop ?d (length name) 0 name (replicate 11 ?sp) = (?d, drop ?d name, ?b1)"
    using base_loop_correct [OF d, of 0 "replicate 11 ?sp"] by simp
  have l: "length ?b1 = 11" using d by simp
  have "ext_loop (length name) (?d + 1) 0 (drop (?d + 1) name) ?b1
      = take 8 ?b1 @ map to_upper_case (take 3 (drop (?d + 1) name))
        @ drop (8 + min 3 (length name - (?d + 1))) ?b1"
    using ext_loop_correct [OF l, of 0 "drop (?d + 1) name" "length name" "?d + 1"] by simp
  also have "take 8 ?b1 = pad 8 (take ?d name)"
    using d by (auto simp: pad_def take_map min_def)
  also have "drop (8 + min 3 (length name - (?d + 1))) ?b1 = replicate (3 - length (drop (?d + 1) name)) ?sp"
    using d by (auto simp: min_def)
  finally have ext: "ext_loop (length name) (?d + 1) 0 (drop (?d + 1) name) ?b1 = name83 name"
    by (simp add: name83_def pad_def take_map)
  have tl: "tl (drop ?d name) = drop (?d + 1) name" by (simp add: tl_drop drop_Suc)
  show ?thesis
    unfolding make_8point3_name_def Let_def last_dot_loop_eq [OF assms] base prod.case tl ext
    using assms by simp
qed

lemma name83_word:
  assumes "\<not> (\<exists>i < length name. split_dot name i)"
  shows "name83 name = pad 8 name @ replicate 3 (ch CHR '' '')"
  unfolding name83_def last_dot_none [OF assms] by (simp add: pad_def)

end
