(* ===== verification/Memory.thy ===== *)
theory Memory
  imports Prelude
begin

text \<open>
  The byte routines of \<^verbatim>\<open>libc/memory.c\<close> and \<^verbatim>\<open>kernel/util.c\<close>, as the loops they are, and
  the block operations they implement. Memory a pointer argument gives access to is a byte
  list from that pointer on; leaving it has no defined result (\<^term>\<open>None\<close>). \<^verbatim>\<open>k_memcpy\<close> is
  modelled on one memory with two positions, since its operands may overlap.
\<close>

subsection \<open>Operations\<close>

fun k_memset :: "byte list \<Rightarrow> nat \<Rightarrow> byte \<Rightarrow> byte list option" where
  "k_memset mem 0 val = Some mem"
| "k_memset [] (Suc n) val = None"
| "k_memset (b # mem) (Suc n) val = do { rest \<leftarrow> k_memset mem n val; Some (val # rest) }"

fun k_memcmp :: "byte list \<Rightarrow> byte list \<Rightarrow> nat \<Rightarrow> int option" where
  "k_memcmp mem1 mem2 0 = Some 0"
| "k_memcmp (a # mem1) (b # mem2) (Suc n) = (if a \<noteq> b then Some 1 else k_memcmp mem1 mem2 n)"
| "k_memcmp mem1 mem2 (Suc n) = None"

text \<open>
  \<^verbatim>\<open>mem[i] == to_replace\<close> compares a \<^verbatim>\<open>uint8_t\<close> with a signed \<^verbatim>\<open>char\<close>, both as \<^verbatim>\<open>int\<close>: a character
  from 0x80 on is negative and equals no byte.
\<close>

fun k_memreplace :: "byte list \<Rightarrow> byte \<Rightarrow> byte \<Rightarrow> nat \<Rightarrow> byte list option" where
  "k_memreplace mem x y 0 = Some mem"
| "k_memreplace [] x y (Suc n) = None"
| "k_memreplace (b # mem) x y (Suc n) = do {
     rest \<leftarrow> k_memreplace mem x y n;
     Some ((if uint b = sint x then y else b) # rest)
   }"

text \<open>\<^verbatim>\<open>for (int i = 0; i < bytes; ++i) d[i] = s[i];\<close> with \<open>s\<close> and \<open>d\<close> positions in \<open>mem\<close>.\<close>

fun memcpy_loop :: "byte list \<Rightarrow> nat \<Rightarrow> nat \<Rightarrow> nat list \<Rightarrow> byte list option" where
  "memcpy_loop mem s d [] = Some mem"
| "memcpy_loop mem s d (i # is) =
     (if s + i < length mem \<and> d + i < length mem
      then memcpy_loop (mem[d + i := mem ! (s + i)]) s d is else None)"

definition k_memcpy :: "byte list \<Rightarrow> nat \<Rightarrow> nat \<Rightarrow> int \<Rightarrow> byte list option" where
  "k_memcpy mem source dest bytes = memcpy_loop mem source dest [0..<nat bytes]"

subsection \<open>What they compute\<close>

lemma k_memset_correct [mem_simps]:
  "k_memset mem n val = (if n \<le> length mem then Some (patch mem 0 (replicate n val)) else None)"
  by (induction mem n val rule: k_memset.induct) (auto simp: patch_def)

lemma k_memcmp_correct [mem_simps]:
  "n \<le> length a \<Longrightarrow> n \<le> length b \<Longrightarrow> k_memcmp a b n = Some (if take n a = take n b then 0 else 1)"
  by (induction a b n rule: k_memcmp.induct) auto

lemma k_memreplace_correct:
  "k_memreplace mem x y n = (if n \<le> length mem
     then Some (map (\<lambda>b. if uint b = sint x then y else b) (take n mem) @ drop n mem) else None)"
  by (induction mem x y n rule: k_memreplace.induct) auto

lemma k_memreplace_zero:
  "k_memreplace mem 0 y n = (if n \<le> length mem
     then Some (map (\<lambda>b. if b = 0 then y else b) (take n mem) @ drop n mem) else None)"
proof -
  have "uint b = 0 \<longleftrightarrow> b = 0" for b :: byte by (metis uint_0_iff)
  then show ?thesis by (simp add: k_memreplace_correct)
qed

lemma memcpy_loop_append:
  "memcpy_loop m s d (xs @ ys) = do { m \<leftarrow> memcpy_loop m s d xs; memcpy_loop m s d ys }"
  by (induction xs arbitrary: m) auto

lemma memcpy_loop_prefix:
  assumes "s + n \<le> length mem" "d + n \<le> length mem" "d \<le> s \<or> s + n \<le> d" "k \<le> n"
  shows "memcpy_loop mem s d [0..<k] = Some (patch mem d (take k (drop s mem)))"
  using assms(4)
proof (induction k)
  case (Suc k)
  let ?m = "patch mem d (take k (drop s mem))"
  have l: "length ?m = length mem" using assms Suc.prems by simp
  have "?m ! (s + k) = mem ! (s + k)"
    using assms Suc.prems by (subst nth_patch) auto
  then have "memcpy_loop mem s d [0..<Suc k] = Some (?m[d + k := mem ! (s + k)])"
    using Suc assms l by (simp add: memcpy_loop_append)
  moreover have "?m[d + k := mem ! (s + k)] = patch mem d (take (Suc k) (drop s mem))"
  proof (rule nth_equalityI)
    fix i assume "i < length (?m[d + k := mem ! (s + k)])"
    then have i: "i < length mem" using l by simp
    have n: "patch mem d (take j (drop s mem)) ! i
        = (if d \<le> i \<and> i < d + j then mem ! (s + (i - d)) else mem ! i)" if "j \<le> n" for j
      using assms that i by (subst nth_patch) auto
    show "?m[d + k := mem ! (s + k)] ! i = patch mem d (take (Suc k) (drop s mem)) ! i"
      using n [of k] n [of "Suc k"] Suc.prems i l by (cases "i = d + k") (auto simp: nth_list_update)
  qed (use l assms Suc.prems in auto)
  ultimately show ?case by simp
qed (use assms in simp)

text \<open>A copy to a lower or to a disjoint place is the block copy of the file system theories.\<close>

lemma k_memcpy_correct:
  assumes "s + n \<le> length mem" "d + n \<le> length mem" "d \<le> s \<or> s + n \<le> d"
  shows "k_memcpy mem s d (int n) = Some (patch mem d (take n (drop s mem)))"
  using memcpy_loop_prefix [OF assms, of n] by (simp add: k_memcpy_def)

text \<open>Copying a block one byte up does not move it: its first byte is repeated.\<close>

lemma memcpy_loop_smear:
  assumes "s + n < length mem" "k \<le> n"
  shows "memcpy_loop mem s (Suc s) [0..<k] = Some (patch mem (Suc s) (replicate k (mem ! s)))"
  using assms(2)
proof (induction k)
  case (Suc k)
  let ?m = "patch mem (Suc s) (replicate k (mem ! s))"
  have l: "length ?m = length mem" using assms Suc.prems by simp
  have "?m ! (s + k) = mem ! s"
    using assms Suc.prems by (cases "k = 0") (auto simp: nth_patch)
  then have "memcpy_loop mem s (Suc s) [0..<Suc k] = Some (?m[Suc s + k := mem ! s])"
    using Suc assms l by (simp add: memcpy_loop_append)
  moreover have "?m[Suc s + k := mem ! s] = patch mem (Suc s) (replicate (Suc k) (mem ! s))"
  proof (rule nth_equalityI)
    have r: "j \<le> k \<Longrightarrow> replicate (Suc k) x ! j = x" for j and x :: byte by (rule nth_replicate) simp
    fix i assume "i < length (?m[Suc s + k := mem ! s])"
    then show "?m[Suc s + k := mem ! s] ! i = patch mem (Suc s) (replicate (Suc k) (mem ! s)) ! i"
      using assms Suc.prems l
      by (cases "i = Suc s + k") (auto simp: nth_patch r simp del: replicate_Suc)
  qed (use assms Suc.prems l in auto)
  ultimately show ?case by simp
qed (use assms in simp)

end
