(* ===== verification/Fat32_Dir.thy ===== *)
theory Fat32_Dir
  imports Fat32_Write Fat32_Name Memory
begin

text \<open>
  Directories in \<^verbatim>\<open>fs/fat32.c\<close>: the search for a name in the clusters of a directory,
  which is also the search for a slot to create it in, the initialisation of a new node and
  of the inside of a new directory, and the listing of a directory.
\<close>

subsection \<open>Operations\<close>

datatype FAT32_NODE_MATCH = FAT32_MATCH_DIR | FAT32_MATCH_END | FAT32_MATCH_NO_MATCH
  | FAT32_MATCH_NOT_DIR | FAT32_MATCH_DELETED

definition is_dir :: "FAT32_NODE \<Rightarrow> bool" where
  "is_dir nd \<longleftrightarrow> attributes nd AND FAT32_DA_DIR \<noteq> 0"

definition compare_directory :: "FAT32_NODE \<Rightarrow> byte list \<Rightarrow> FAT32_NODE_MATCH option" where
  "compare_directory dir_entry name =
     (if filename dir_entry ! 0 = 0 then Some FAT32_MATCH_END
      else if filename dir_entry ! 0 = 0xE5 then Some FAT32_MATCH_DELETED
      else do {
        r \<leftarrow> k_memcmp name (filename dir_entry) 11;
        Some (if r \<noteq> 0 then FAT32_MATCH_NO_MATCH
              else if is_dir dir_entry then FAT32_MATCH_DIR else FAT32_MATCH_NOT_DIR)
      })"

text \<open>\<^verbatim>\<open>{0, 0, {}}\<close>: the result that stands for \<open>not found\<close>.\<close>

definition no_info :: FAT32_NODE_INFO where
  "no_info = \<lparr>descriptor_cluster = 0, descriptor_offset = 0, node = zero_node, parent_cluster = 0\<rparr>"

definition slot_info :: "u32 \<Rightarrow> nat \<Rightarrow> FAT32_NODE \<Rightarrow> u32 \<Rightarrow> FAT32_NODE_INFO" where
  "slot_info cluster i nd start =
     \<lparr>descriptor_cluster = cluster, descriptor_offset = of_nat i, node = nd, parent_cluster = start\<rparr>"

text \<open>The \<^verbatim>\<open>for\<close> loop over the sixteen entries of a sector, and how it is left.\<close>

datatype DIR_SCAN = SCAN_FOUND FAT32_NODE_INFO | SCAN_END nat | SCAN_ON

fun scan_entries :: "byte list \<Rightarrow> byte list \<Rightarrow> u32 \<Rightarrow> u32 \<Rightarrow> nat list \<Rightarrow> FAT32_NODE_INFO
  \<Rightarrow> (DIR_SCAN \<times> FAT32_NODE_INFO) option" where
  "scan_entries buf name cluster start [] for_creation = Some (SCAN_ON, for_creation)"
| "scan_entries buf name cluster start (i # is) for_creation = do {
     m \<leftarrow> compare_directory (entry_at buf i) name;
     case m of
       FAT32_MATCH_END \<Rightarrow> Some (SCAN_END i, for_creation)
     | FAT32_MATCH_NO_MATCH \<Rightarrow> scan_entries buf name cluster start is for_creation
     | FAT32_MATCH_DIR \<Rightarrow> Some (SCAN_FOUND (slot_info cluster i (entry_at buf i) start), for_creation)
     | FAT32_MATCH_NOT_DIR \<Rightarrow> Some (SCAN_FOUND (slot_info cluster i (entry_at buf i) start), for_creation)
     | FAT32_MATCH_DELETED \<Rightarrow>
         scan_entries buf name cluster start is (slot_info cluster i (entry_at buf i) start)
   }"

text \<open>
  The \<^verbatim>\<open>while (new_cluster)\<close> loop: left with the entry found (\<^const>\<open>Inl\<close>), or with the
  cluster, the index and the deleted slot to use (\<^const>\<open>Inr\<close>). Nothing bounds it but the
  table's contents.
\<close>

partial_function (option) find_loop ::
  "'d fat_volume \<Rightarrow> byte list \<Rightarrow> byte list \<Rightarrow> u32 \<Rightarrow> u32 \<Rightarrow> nat \<Rightarrow> u32 \<Rightarrow> FAT32_NODE_INFO
   \<Rightarrow> ((FAT32_NODE_INFO + u32 \<times> nat \<times> FAT32_NODE_INFO) \<times> byte list \<times> 'd fat_volume) option" where
  "find_loop p buf name cluster new_cluster i start for_creation =
     (if new_cluster = 0 then Some (Inr (cluster, i, for_creation), buf, p)
      else do {
        (next_cluster, buf, p) \<leftarrow> traverse_fat_coroutine p buf new_cluster 512 0 read_part_cluster False;
        (r, for_creation) \<leftarrow> scan_entries buf name new_cluster start [0..<16] for_creation;
        case r of
          SCAN_FOUND ni \<Rightarrow> Some (Inl ni, buf, p)
        | SCAN_END j \<Rightarrow> Some (Inr (new_cluster, j, for_creation), buf, p)
        | SCAN_ON \<Rightarrow> find_loop p buf name new_cluster next_cluster 16 start for_creation
      })"

text \<open>\<^verbatim>\<open>buffer[i].filename[0] = 0xE5\<close> marks the slot as newly created.\<close>

definition created_slot :: "byte list \<Rightarrow> u32 \<Rightarrow> nat \<Rightarrow> u32 \<Rightarrow> FAT32_NODE_INFO" where
  "created_slot buf cluster i start = slot_info cluster i
     ((entry_at buf i)\<lparr>filename := (filename (entry_at buf i))[0 := 0xE5]\<rparr>) start"

text \<open>\<open>junk\<close> is the uninitialised sector array on the stack.\<close>

definition find_node_in_directory ::
  "'d fat_volume \<Rightarrow> byte list \<Rightarrow> byte list \<Rightarrow> FAT32_NODE option \<Rightarrow> bool \<Rightarrow> (FAT32_NODE_INFO \<times> 'd fat_volume) option" where
  "find_node_in_directory p junk fname directory is_creating = do {
     name \<leftarrow> make_8point3_name fname;
     let start = get_cluster_from_node (partition_data p) directory;
     (r, buf, p) \<leftarrow> find_loop p junk name start start 0 start no_info;
     case r of
       Inl ni \<Rightarrow> Some (ni, p)
     | Inr (cluster, i, for_creation) \<Rightarrow>
         if \<not> is_creating then Some (no_info, p)
         else if descriptor_cluster for_creation \<noteq> 0 then Some (for_creation, p)
         else if i = 16
         then do {
           (cluster, p) \<leftarrow> allocate_cluster p cluster;
           if cluster = 0 then Some (no_info, p) else Some (created_slot buf cluster 0 start, p)
         }
         else Some (created_slot buf cluster i start, p)
   }"

definition is_created :: "FAT32_NODE_INFO option \<Rightarrow> bool" where
  "is_created node_info = (case node_info of None \<Rightarrow> False
     | Some ni \<Rightarrow> if descriptor_cluster ni = 0 then False else filename (node ni) ! 0 = 0xE5)"

text \<open>\<^verbatim>\<open>enum O_FLAGS\<close>.\<close>

definition O_CREAT :: u32 where "O_CREAT = 1"
definition O_DIR :: u32 where "O_DIR = 2"

text \<open>The result flag, the node as it is left and the volume.\<close>

definition initialize_node ::
  "'d fat_volume \<Rightarrow> FAT32_NODE_INFO \<Rightarrow> byte list \<Rightarrow> u32 \<Rightarrow> (bool \<times> FAT32_NODE_INFO \<times> 'd fat_volume) option" where
  "initialize_node p node_info fname flags =
     (if \<not> is_created (Some node_info) then Some (False, node_info, p)
      else do {
        (first_cluster, p) \<leftarrow> allocate_cluster p 0;
        if first_cluster = 0 then Some (False, node_info, p)
        else do {
          name \<leftarrow> make_8point3_name fname;
          let node_info = node_info\<lparr>node := (node node_info)\<lparr>
            filename := name, node_size := 0,
            start_high := ucast (drop_bit 16 first_cluster), start_low := ucast first_cluster,
            attributes := (if flags AND O_DIR \<noteq> 0 then FAT32_DA_DIR else 0)\<rparr>\<rparr>;
          (result, p) \<leftarrow> save_descriptor p node_info;
          if result \<noteq> E_DEVICE_OK then Some (False, node_info, p)
          else do {
            (result, p) \<leftarrow> save_current_fat p;
            Some (result = E_DEVICE_OK, node_info, p)
          }
        }
      })"

text \<open>The two entries a new directory starts with, in a sector that is otherwise zero.\<close>

definition dot_entry :: "byte list \<Rightarrow> u16 \<Rightarrow> u16 \<Rightarrow> FAT32_NODE" where
  "dot_entry dots high low = zero_node\<lparr>
     filename := dots @ replicate (11 - length dots) (ch CHR '' ''), attributes := FAT32_DA_DIR,
     start_high := high, start_low := low\<rparr>"

definition directory_sector :: "u16 \<Rightarrow> u16 \<Rightarrow> u32 \<Rightarrow> byte list" where
  "directory_sector high low parent =
     bytes_of_node (dot_entry [ch CHR ''.''] high low)
     @ bytes_of_node (dot_entry [ch CHR ''.'', ch CHR ''.''] (ucast (drop_bit 16 parent)) (ucast (parent AND 0xFFFF)))
     @ replicate 448 0"

definition initialize_directory_inside ::
  "'d fat_volume \<Rightarrow> FAT32_NODE_INFO \<Rightarrow> (bool \<times> FAT32_NODE_INFO \<times> 'd fat_volume) option" where
  "initialize_directory_inside p node_info = (let
     node_info = node_info\<lparr>node := (node node_info)\<lparr>attributes := FAT32_DA_DIR, node_size := 0\<rparr>\<rparr>;
     nd = node node_info
     in do {
       (result, p) \<leftarrow> write_cluster p (ucast (start_low nd) + push_bit 16 (ucast (start_high nd)))
          (directory_sector (start_high nd) (start_low nd) (parent_cluster node_info));
       Some (result = E_DEVICE_OK, node_info, p)
     })"

text \<open>Directory listings. A \<^verbatim>\<open>DIR_ENTRY\<close> on the stack has the name copied in; the other bytes of its
  32-byte name are not set and are not part of the model's name.\<close>

record DIR_ENTRY =
  entry_name :: "byte list"
  entry_type :: NODE_TYPE
  entry_size :: u32

definition fat32_entry_to_dir_entry :: "FAT32_NODE \<Rightarrow> DIR_ENTRY" where
  "fat32_entry_to_dir_entry nd = \<lparr>entry_name = filename nd @ [0],
     entry_type = (if is_dir nd then DIRECTORY else FILE), entry_size = node_size nd\<rparr>"

text \<open>The \<^verbatim>\<open>for\<close> loop of \<^verbatim>\<open>fat32_list_dir\<close>: true if it met the end of the directory.\<close>

fun list_entries :: "byte list \<Rightarrow> nat list \<Rightarrow> DIR_ENTRY list \<Rightarrow> nat \<Rightarrow> bool \<times> DIR_ENTRY list" where
  "list_entries buf [] out sz = (False, out)"
| "list_entries buf (i # is) out sz =
     (if length out < sz
      then if filename (entry_at buf i) ! 0 = 0 then (True, out)
           else if filename (entry_at buf i) ! 0 = 0xE5 then list_entries buf is out sz
           else list_entries buf is (out @ [fat32_entry_to_dir_entry (entry_at buf i)]) sz
      else (False, out))"

partial_function (option) list_loop ::
  "'d fat_volume \<Rightarrow> byte list \<Rightarrow> u32 \<Rightarrow> DIR_ENTRY list \<Rightarrow> nat \<Rightarrow> (i32 \<times> DIR_ENTRY list \<times> 'd fat_volume) option" where
  "list_loop p buf cluster out sz =
     (if cluster \<noteq> 0 \<and> length out < sz
      then do {
        (cluster, buf, p) \<leftarrow> traverse_fat_coroutine p buf cluster 512 0 read_part_cluster False;
        let (at_end, out) = list_entries buf [0..<16] out sz;
        if at_end then Some (0, out, p) else list_loop p buf cluster out sz
      }
      else Some (of_nat (length out), out, p))"

definition fat32_list_dir ::
  "'d fat_volume \<Rightarrow> byte list \<Rightarrow> FAT32_NODE_INFO VFS_NODE \<Rightarrow> u32 \<Rightarrow> (i32 \<times> DIR_ENTRY list \<times> 'd fat_volume) option" where
  "fat32_list_dir p junk nd sz =
     list_loop p junk (get_cluster_from_node (partition_data p) (Some (node (node_data nd)))) [] (unat sz)"

end
