(* ===== verification/Fat32_Lookup.thy ===== *)
theory Fat32_Lookup
  imports Fat32_Dir
begin

text \<open>
  Looking names up: the directory as the list of its slots in chain order, the entry a
  name denotes as the first live one with that name, and the proof that
  \<^verbatim>\<open>find_node_in_directory\<close> computes it. Also what the search leaves for the creation of
  a node, and what it does when a directory has no end mark.
\<close>

subsection \<open>Slots\<close>

type_synonym slot = "u32 \<times> nat \<times> FAT32_NODE"

definition sector_slots :: "u32 \<Rightarrow> byte list \<Rightarrow> nat list \<Rightarrow> slot list" where
  "sector_slots c d is = map (\<lambda>i. (c, i, entry_at d i)) is"

definition dir_slots :: "avol \<Rightarrow> u32 list \<Rightarrow> slot list" where
  "dir_slots v cs = concat (map (\<lambda>c. sector_slots c (a_data v (unat c)) [0..<16]) cs)"

fun slot_end :: "slot \<Rightarrow> bool" where
  "slot_end (c, i, e) \<longleftrightarrow> filename e ! 0 = 0"

fun slot_deleted :: "slot \<Rightarrow> bool" where
  "slot_deleted (c, i, e) \<longleftrightarrow> filename e ! 0 = 0xE5"

fun slot_match :: "byte list \<Rightarrow> slot \<Rightarrow> bool" where
  "slot_match name (c, i, e) \<longleftrightarrow> filename e ! 0 \<noteq> 0xE5 \<and> filename e = name"

fun info_of_slot :: "u32 \<Rightarrow> slot \<Rightarrow> FAT32_NODE_INFO" where
  "info_of_slot start (c, i, e) = slot_info c i e start"

text \<open>The slots before the end mark, and the last deleted one among them.\<close>

definition live :: "slot list \<Rightarrow> slot list" where
  "live ss = takeWhile (\<lambda>s. \<not> slot_end s) ss"

definition last_deleted :: "u32 \<Rightarrow> slot list \<Rightarrow> FAT32_NODE_INFO \<Rightarrow> FAT32_NODE_INFO" where
  "last_deleted start ss fc = fold (\<lambda>s fc. if slot_deleted s then info_of_slot start s else fc) (live ss) fc"

definition dir_find :: "byte list \<Rightarrow> slot list \<Rightarrow> slot option" where
  "dir_find name ss = find (slot_match name) (live ss)"

lemma live_simps [simp]:
  "live [] = []"
  "live (s # ss) = (if slot_end s then [] else s # live ss)"
  by (simp_all add: live_def)

lemma live_append: "live (xs @ ys) = (if find slot_end xs = None then xs @ live ys else live xs)"
  by (induction xs) auto

lemma live_all: "find slot_end xs = None \<Longrightarrow> live xs = xs"
  by (induction xs) (auto split: if_splits)

lemma last_deleted_simps [simp]:
  "last_deleted start [] fc = fc"
  "last_deleted start (s # ss) fc = (if slot_end s then fc
     else last_deleted start ss (if slot_deleted s then info_of_slot start s else fc))"
  by (simp_all add: last_deleted_def)

lemma last_deleted_append:
  "find slot_end xs = None \<Longrightarrow> last_deleted start (xs @ ys) fc = last_deleted start ys (last_deleted start xs fc)"
  by (simp add: last_deleted_def live_append live_all)

lemma find_append: "find P (xs @ ys) = (case find P xs of None \<Rightarrow> find P ys | r \<Rightarrow> r)"
  by (induction xs) auto

lemma dir_find_append:
  "find slot_end xs = None \<Longrightarrow>
   dir_find name (xs @ ys) = (case dir_find name xs of None \<Rightarrow> dir_find name ys | r \<Rightarrow> r)"
  by (auto simp: dir_find_def live_append find_append live_all split: option.splits)

lemma dir_find_append_end:
  "find slot_end xs \<noteq> None \<Longrightarrow> dir_find name (xs @ ys) = dir_find name xs
     \<and> last_deleted start (xs @ ys) fc = last_deleted start xs fc"
  by (auto simp: dir_find_def last_deleted_def live_append)

subsection \<open>One sector\<close>

lemma compare_directory_correct:
  "wf_node e \<Longrightarrow> length name = 11 \<Longrightarrow> compare_directory e name = Some (
     if slot_end (c, i, e) then FAT32_MATCH_END
     else if slot_deleted (c, i, e) then FAT32_MATCH_DELETED
     else if slot_match name (c, i, e) then (if is_dir e then FAT32_MATCH_DIR else FAT32_MATCH_NOT_DIR)
     else FAT32_MATCH_NO_MATCH)"
  by (auto simp: compare_directory_def k_memcmp_correct wf_node_def)

definition scan_result :: "byte list \<Rightarrow> u32 \<Rightarrow> slot list \<Rightarrow> DIR_SCAN" where
  "scan_result name start ss = (case dir_find name ss of
       Some s \<Rightarrow> SCAN_FOUND (info_of_slot start s)
     | None \<Rightarrow> (case find slot_end ss of Some (c, i, e) \<Rightarrow> SCAN_END i | None \<Rightarrow> SCAN_ON))"

lemma scan_result_Cons:
  "scan_result name start (s # ss) =
     (if slot_end s then SCAN_END (fst (snd s))
      else if slot_match name s then SCAN_FOUND (info_of_slot start s)
      else scan_result name start ss)"
  by (cases s) (auto simp: scan_result_def dir_find_def split: option.splits)

lemma scan_entries_correct:
  assumes "length buf = 512" "length name = 11" "\<forall>i \<in> set is. i < 16"
  shows "\<exists>fc'. scan_entries buf name c start is fc = Some (scan_result name start (sector_slots c buf is), fc')
     \<and> (dir_find name (sector_slots c buf is) = None \<longrightarrow> fc' = last_deleted start (sector_slots c buf is) fc)"
  using assms(3)
proof (induction "is" arbitrary: fc)
  case Nil
  then show ?case by (simp add: sector_slots_def scan_result_def dir_find_def)
next
  case (Cons i "is")
  let ?e = "entry_at buf i" and ?ss = "sector_slots c buf is"
  have ss: "sector_slots c buf (i # is) = (c, i, ?e) # ?ss" by (simp add: sector_slots_def)
  have "wf_node ?e" using Cons.prems assms(1) by (simp add: wf_entry_at)
  note cmp = compare_directory_correct [OF this assms(2), of c i]
  have del: "slot_deleted (c, i, ?e) \<Longrightarrow> \<not> slot_match name (c, i, ?e)" by simp
  have IH: "\<exists>fc'. scan_entries buf name c start is fc0 = Some (scan_result name start ?ss, fc')
     \<and> (dir_find name ?ss = None \<longrightarrow> fc' = last_deleted start ?ss fc0)" for fc0
    using Cons.IH Cons.prems by simp
  show ?case
  proof (cases "slot_end (c, i, ?e) \<or> slot_match name (c, i, ?e)")
    case True
    then show ?thesis
      using cmp by (auto simp: ss scan_result_Cons dir_find_def simp del: slot_end.simps slot_match.simps slot_deleted.simps
          dest: del)
  next
    case False
    then show ?thesis
      using cmp IH [of fc] IH [of "slot_info c i ?e start"]
      by (simp add: ss scan_result_Cons dir_find_def del: slot_end.simps slot_match.simps slot_deleted.simps)
  qed
qed

subsection \<open>The search along the chain\<close>

lemma find_loop_step:
  assumes ok: "vol_state w n p" and c: "valid_cluster p c" and b: "length buf = 512"
  shows "\<exists>q. evolves_in w n p q \<and> abs_vol q = abs_vol p
     \<and> find_loop p buf name c0 c i start fc = do {
         (r, fc) \<leftarrow> scan_entries (a_data (abs_vol p) (unat c)) name c start [0..<16] fc;
         case r of
           SCAN_FOUND ni \<Rightarrow> Some (Inl ni, a_data (abs_vol p) (unat c), q)
         | SCAN_END j \<Rightarrow> Some (Inr (c, j, fc), a_data (abs_vol p) (unat c), q)
         | SCAN_ON \<Rightarrow> find_loop q (a_data (abs_vol p) (unat c)) name c (a_fat (abs_vol p) (unat c)) 16 start fc
       }"
proof -
  let ?d = "a_data (abs_vol p) (unat c)"
  have pre: "unat (0::u32) + unat (512::u32) \<le> 512 \<and> unat (512::u32) \<le> length buf" using b by simp
  have "length ?d = 512" by (rule length_cluster [OF ok c])
  then have w: "patch buf 0 (take (unat (512::u32)) (drop (unat (0::u32)) ?d)) = ?d" using b by simp
  obtain q where q: "traverse_fat_coroutine p buf c 512 0 read_part_cluster False
      = Some (a_fat (abs_vol p) (unat c), ?d, q)" "evolves_in w n p q" "abs_vol q = abs_vol p"
    using rdp.traverse_step [OF ok _ c pre, where al = False] unfolding w by auto
  have "c \<noteq> 0" by (rule valid_clusterD(1) [OF c])
  then show ?thesis
    using q by (intro exI [of _ q]) (simp add: find_loop.simps [of p buf name c0 c])
qed

text \<open>After the last cluster the loop scans the sector it still holds once more.\<close>

lemma find_loop_past:
  assumes m: "EOC \<le> mark" and b: "length buf = 512" "length name = 11"
    and s: "scan_result name start (sector_slots c buf [0..<16]) = SCAN_ON"
  shows "find_loop p buf name c0 mark i start fc
     = Some (Inr (mark, 16, last_deleted start (sector_slots mark buf [0..<16]) fc), buf, p)"
proof -
  have nz: "mark \<noteq> 0" using m by (auto simp: EOC_def)
  have same: "dir_find name (sector_slots c' buf is) = None \<longleftrightarrow> dir_find name (sector_slots c buf is) = None"
    "find slot_end (sector_slots c' buf is) = None \<longleftrightarrow> find slot_end (sector_slots c buf is) = None" for c' "is"
    by (induction "is") (auto simp: sector_slots_def dir_find_def)
  have d: "dir_find name (sector_slots mark buf [0..<16]) = None"
    "find slot_end (sector_slots mark buf [0..<16]) = None"
    using s same [of mark "[0..<16]"] by (auto simp: scan_result_def split: option.splits)
  then have on: "scan_result name start (sector_slots mark buf [0..<16]) = SCAN_ON"
    by (simp add: scan_result_def)
  obtain fc' where "scan_entries buf name mark start [0..<16] fc = Some (SCAN_ON, fc')"
    "fc' = last_deleted start (sector_slots mark buf [0..<16]) fc"
    using scan_entries_correct [OF b, of "[0..<16]" mark start fc] d(1) unfolding on by auto
  then show ?thesis
    using nz m by (subst find_loop.simps) (simp add: traverse_stop find_loop.simps [of _ _ _ _ 0])
qed

lemma dir_slots_Cons [simp]:
  "dir_slots v (c # cs) = sector_slots c (a_data v (unat c)) [0..<16] @ dir_slots v cs"
  by (simp add: dir_slots_def)

lemma dir_slots_Nil [simp]: "dir_slots v [] = []"
  by (simp add: dir_slots_def)

text \<open>
  What the search returns: the entry found; else the slot of the end mark; else, for a
  directory without an end mark, the mark that ends its chain and the index 16.
\<close>

definition search_result :: "avol \<Rightarrow> byte list \<Rightarrow> u32 \<Rightarrow> u32 list \<Rightarrow> FAT32_NODE_INFO
  \<Rightarrow> FAT32_NODE_INFO + u32 \<times> nat \<times> FAT32_NODE_INFO" where
  "search_result v name start cs fc = (let ss = dir_slots v cs in
     case dir_find name ss of
       Some s \<Rightarrow> Inl (info_of_slot start s)
     | None \<Rightarrow> (case find slot_end ss of
         Some (c, i, e) \<Rightarrow> Inr (c, i, last_deleted start ss fc)
       | None \<Rightarrow> (let mark = a_fat v (unat (last cs)) in
           Inr (mark, 16, last_deleted start (sector_slots mark (a_data v (unat (last cs))) [0..<16])
                            (last_deleted start ss fc)))))"

text \<open>The sector the search holds when it ends.\<close>

definition search_sector :: "avol \<Rightarrow> byte list \<Rightarrow> u32 \<Rightarrow> u32 list \<Rightarrow> byte list" where
  "search_sector v name start cs = (let ss = dir_slots v cs in
     case (case dir_find name ss of Some s \<Rightarrow> Some s | None \<Rightarrow> find slot_end ss) of
       Some (c, i, e) \<Rightarrow> a_data v (unat c) | None \<Rightarrow> a_data v (unat (last cs)))"

lemma dir_find_sectorD:
  "dir_find name (sector_slots c d is) = Some s \<Longrightarrow> fst s = c"
  "find slot_end (sector_slots c d is) = Some s \<Longrightarrow> fst s = c"
  by (induction "is") (auto simp: sector_slots_def dir_find_def split: if_splits)

lemma find_loop_correct:
  assumes "vol_state w n p" "file_chain p c cs" "cs \<noteq> []" "length buf = 512" "length name = 11"
  shows "\<exists>q. find_loop p buf name c0 c i start fc
       = Some (search_result (abs_vol p) name start cs fc, search_sector (abs_vol p) name start cs, q)
     \<and> evolves_in w n p q \<and> abs_vol q = abs_vol p"
  using assms
proof (induction cs arbitrary: p c buf c0 i fc)
  case (Cons x cs)
  let ?v = "abs_vol p" let ?d = "a_data ?v (unat c)"
  let ?here = "sector_slots c ?d [0..<16]"
  from Cons.prems(2) have c: "valid_cluster p c" "x = c" "file_chain p (a_fat ?v (unat c)) cs"
    by (auto simp: file_chain_Cons)
  have ld: "length ?d = 512" by (rule length_cluster [OF Cons.prems(1) c(1)])
  obtain q where q: "evolves_in w n p q" "abs_vol q = ?v" "find_loop p buf name c0 c i start fc = do {
         (r, fc) \<leftarrow> scan_entries ?d name c start [0..<16] fc;
         case r of
           SCAN_FOUND ni \<Rightarrow> Some (Inl ni, ?d, q)
         | SCAN_END j \<Rightarrow> Some (Inr (c, j, fc), ?d, q)
         | SCAN_ON \<Rightarrow> find_loop q ?d name c (a_fat ?v (unat c)) 16 start fc
       }"
    using find_loop_step [OF Cons.prems(1) c(1) Cons.prems(4)] by blast
  obtain fc' where fc': "scan_entries ?d name c start [0..<16] fc = Some (scan_result name start ?here, fc')"
    "dir_find name ?here = None \<Longrightarrow> fc' = last_deleted start ?here fc"
    using scan_entries_correct [OF ld Cons.prems(5), of "[0..<16]" c start fc] by auto
  show ?case
  proof (cases "dir_find name ?here")
    case (Some s)
    then have "dir_find name (dir_slots ?v (x # cs)) = Some s"
      using dir_find_append [of ?here name "dir_slots ?v cs"]
        dir_find_append_end [of ?here name "dir_slots ?v cs"] c(2)
      by (cases "find slot_end ?here = None") auto
    then show ?thesis
      using q fc'(1) Some dir_find_sectorD(1) [OF Some] c(2)
      by (auto simp: search_result_def search_sector_def scan_result_def simp del: dir_slots_Cons
          split: prod.splits)
  next
    case None
    show ?thesis
    proof (cases "find slot_end ?here")
      case (Some s)
      then have e: "dir_find name (dir_slots ?v (x # cs)) = None" "find slot_end (dir_slots ?v (x # cs)) = Some s"
        "last_deleted start (dir_slots ?v (x # cs)) fc = last_deleted start ?here fc"
        using dir_find_append_end [of ?here name "dir_slots ?v cs" start fc] None c(2)
        by (auto simp: find_append)
      obtain j e' where s: "s = (c, j, e')" using dir_find_sectorD(2) [OF Some] by (cases s) auto
      show ?thesis
        using q fc' None Some e s
        by (auto simp: search_result_def search_sector_def scan_result_def simp del: dir_slots_Cons)
    next
      case none: None
      have on: "scan_result name start ?here = SCAN_ON" using None none by (simp add: scan_result_def)
      have onward: "find_loop p buf name c0 c i start fc
          = find_loop q ?d name c (a_fat ?v (unat c)) 16 start (last_deleted start ?here fc)"
        using q(3) fc'(1) fc'(2) [OF None] on by simp
      have app: "dir_find name (?here @ dir_slots ?v cs) = dir_find name (dir_slots ?v cs)"
        "find slot_end (?here @ dir_slots ?v cs) = find slot_end (dir_slots ?v cs)"
        "last_deleted start (?here @ dir_slots ?v cs) fc
          = last_deleted start (dir_slots ?v cs) (last_deleted start ?here fc)"
        using dir_find_append [OF none, of name "dir_slots ?v cs"] last_deleted_append [OF none] None none
        by (auto simp: find_append)
      show ?thesis
      proof (cases "cs = []")
        case True
        then have "EOC \<le> a_fat ?v (unat c)" using c(3) by (simp add: file_chain_Nil)
        then have "find_loop q ?d name c (a_fat ?v (unat c)) 16 start (last_deleted start ?here fc)
          = Some (Inr (a_fat ?v (unat c), 16, last_deleted start
              (sector_slots (a_fat ?v (unat c)) ?d [0..<16]) (last_deleted start ?here fc)), ?d, q)"
          by (rule find_loop_past [OF _ ld Cons.prems(5) on])
        then show ?thesis
          using onward q(1,2) True c(2) None none
          by (simp add: search_result_def search_sector_def Let_def)
      next
        case False
        have "file_chain q (a_fat ?v (unat c)) cs" using c(3) file_chain_cong [OF q(1)] q(2) by simp
        from Cons.IH [OF evolves_vol_ok [OF q(1)] this False ld Cons.prems(5)] obtain r where
          "find_loop q ?d name c (a_fat ?v (unat c)) 16 start (last_deleted start ?here fc)
             = Some (search_result ?v name start cs (last_deleted start ?here fc), search_sector ?v name start cs, r)"
          "evolves_in w n q r" "abs_vol r = ?v"
          unfolding q(2) by blast
        moreover have "search_result ?v name start (x # cs) fc
            = search_result ?v name start cs (last_deleted start ?here fc)"
          "search_sector ?v name start (x # cs) = search_sector ?v name start cs"
          unfolding search_result_def search_sector_def Let_def dir_slots_Cons c(2) app
            last_ConsR [OF False] by (rule refl)+
        ultimately show ?thesis using onward evolves_trans [OF q(1)] by auto
      qed
    qed
  qed
qed simp

end
