(* ===== verification/Fat32_Create.thy ===== *)
theory Fat32_Create
  imports Fat32_Lookup
begin

text \<open>
  Creating nodes: the slot the search chooses, what \<^verbatim>\<open>initialize_node\<close> writes, and the
  effect on later lookups in the same directory.
\<close>

subsection \<open>The search for a slot\<close>

lemma make_name: "fname \<noteq> [] \<Longrightarrow> make_8point3_name fname = Some (name83 fname)"
  by (rule make_8point3_name_correct)

text \<open>A directory with its chain, the way a call finds it.\<close>

definition dir_chain :: "'d fat_volume \<Rightarrow> FAT32_NODE option \<Rightarrow> u32 list \<Rightarrow> bool" where
  "dir_chain p dir cs \<longleftrightarrow> cs \<noteq> [] \<and> file_chain p (get_cluster_from_node (partition_data p) dir) cs"

lemma find_node_search:
  assumes "vol_state w n p" "dir_chain p dir cs" "length junk = 512" "fname \<noteq> []"
  shows "\<exists>q. evolves_in w n p q \<and> abs_vol q = abs_vol p
     \<and> find_node_in_directory p junk fname dir creating
       = (let start = get_cluster_from_node (partition_data p) dir; v = abs_vol p; name = name83 fname;
              buf = search_sector v name start cs in
          case search_result v name start cs no_info of
            Inl ni \<Rightarrow> Some (ni, q)
          | Inr (cluster, i, for_creation) \<Rightarrow>
              if \<not> creating then Some (no_info, q)
              else if descriptor_cluster for_creation \<noteq> 0 then Some (for_creation, q)
              else if i = 16
              then do {
                (cluster, q) \<leftarrow> allocate_cluster q cluster;
                if cluster = 0 then Some (no_info, q) else Some (created_slot buf cluster 0 start, q)
              }
              else Some (created_slot buf cluster i start, q))"
proof -
  let ?start = "get_cluster_from_node (partition_data p) dir"
  obtain q where "find_loop p junk (name83 fname) ?start ?start 0 ?start no_info
       = Some (search_result (abs_vol p) (name83 fname) ?start cs no_info,
               search_sector (abs_vol p) (name83 fname) ?start cs, q)"
     "evolves_in w n p q" "abs_vol q = abs_vol p"
    using find_loop_correct [OF assms(1) _ _ assms(3), of ?start cs "name83 fname" ?start 0 ?start no_info] assms(2)
    by (auto simp: dir_chain_def)
  then show ?thesis
    using assms(4) by (intro exI [of _ q]) (simp add: find_node_in_directory_def make_name Let_def)
qed

lemma find_node_lookup:
  assumes "vol_state w n p" "dir_chain p dir cs" "length junk = 512" "fname \<noteq> []"
  shows "\<exists>q. evolves_in w n p q \<and> abs_vol q = abs_vol p
     \<and> find_node_in_directory p junk fname dir False
       = Some (case dir_find (name83 fname) (dir_slots (abs_vol p) cs) of
           Some s \<Rightarrow> info_of_slot (get_cluster_from_node (partition_data p) dir) s | None \<Rightarrow> no_info, q)"
  using find_node_search [OF assms, of False]
  by (auto simp: search_result_def Let_def split: option.splits sum.splits)

text \<open>
  The slot a directory with an end mark offers for a new name: the last deleted one before
  the mark, else the one of the mark.
\<close>

definition creation_slot :: "avol \<Rightarrow> u32 \<Rightarrow> u32 list \<Rightarrow> FAT32_NODE_INFO" where
  "creation_slot v start cs = (let ss = dir_slots v cs; del = last_deleted start ss no_info in
     if descriptor_cluster del \<noteq> 0 then del
     else case find slot_end ss of
       Some (c, i, e) \<Rightarrow> created_slot (a_data v (unat c)) c i start | None \<Rightarrow> no_info)"

lemma find_SomeD: "find P xs = Some y \<Longrightarrow> P y \<and> y \<in> set xs"
  by (induction xs) (auto split: if_splits)

lemma find_slotD:
  "find slot_end (dir_slots v cs) = Some (c, i, e) \<Longrightarrow>
   c \<in> set cs \<and> i < 16 \<and> e = entry_at (a_data v (unat c)) i \<and> filename e ! 0 = 0"
proof -
  assume f: "find slot_end (dir_slots v cs) = Some (c, i, e)"
  then have "(c, i, e) \<in> set (dir_slots v cs)" "slot_end (c, i, e)"
    using find_SomeD [OF f] by auto
  then show ?thesis by (auto simp: dir_slots_def sector_slots_def)
qed

lemma find_node_create:
  assumes "vol_ok n p" "dir_chain p dir cs" "length junk = 512" "fname \<noteq> []"
    and "find slot_end (dir_slots (abs_vol p) cs) \<noteq> None"
  shows "\<exists>q. evolves n p q \<and> abs_vol q = abs_vol p
     \<and> find_node_in_directory p junk fname dir True
       = Some (case dir_find (name83 fname) (dir_slots (abs_vol p) cs) of
           Some s \<Rightarrow> info_of_slot (get_cluster_from_node (partition_data p) dir) s
         | None \<Rightarrow> creation_slot (abs_vol p) (get_cluster_from_node (partition_data p) dir) cs, q)"
proof -
  let ?start = "get_cluster_from_node (partition_data p) dir" and ?ss = "dir_slots (abs_vol p) cs"
  obtain c i e where e: "find slot_end ?ss = Some (c, i, e)" using assms(5) by auto
  have i: "i < 16" using find_slotD [OF e] by blast
  show ?thesis
  proof (cases "dir_find (name83 fname) ?ss")
    case None
    then have "search_result (abs_vol p) (name83 fname) ?start cs no_info = Inr (c, i, last_deleted ?start ?ss no_info)"
      "search_sector (abs_vol p) (name83 fname) ?start cs = a_data (abs_vol p) (unat c)"
      using e by (simp_all add: search_result_def search_sector_def)
    then show ?thesis
      using find_node_search [OF assms(1-4), of True] None e i by (auto simp: Let_def creation_slot_def)
  next
    case (Some s)
    then have "search_result (abs_vol p) (name83 fname) ?start cs no_info = Inl (info_of_slot ?start s)"
      by (simp add: search_result_def)
    then show ?thesis
      using find_node_search [OF assms(1-4), of True] Some by (auto simp: Let_def)
  qed
qed

subsection \<open>Writing a slot\<close>

lemma last_deleted_cases:
  "last_deleted start ss fc = fc \<or> (\<exists>s \<in> set (live ss). slot_deleted s \<and> last_deleted start ss fc = info_of_slot start s)"
  by (induction ss arbitrary: fc) (auto split: if_splits)

lemma live_prefix: "s \<in> set (live ss) \<Longrightarrow> \<exists>xs ys. ss = xs @ s # ys \<and> find slot_end xs = None"
proof (induction ss)
  case (Cons t ss)
  show ?case
  proof (cases "s = t")
    case True
    then show ?thesis by (intro exI [of _ "[]"] exI [of _ ss]) simp
  next
    case False
    then obtain xs ys where "ss = xs @ s # ys" "find slot_end xs = None" "\<not> slot_end t"
      using Cons by (auto split: if_splits)
    then show ?thesis by (intro exI [of _ "t # xs"] exI [of _ ys]) simp
  qed
qed simp

lemma end_prefix: "find slot_end ss = Some s \<Longrightarrow> \<exists>xs ys. ss = xs @ s # ys \<and> find slot_end xs = None \<and> slot_end s"
proof (induction ss)
  case (Cons t ss)
  then show ?case
  proof (cases "slot_end t")
    case False
    then obtain xs ys where "ss = xs @ s # ys" "find slot_end xs = None" "slot_end s" using Cons by auto
    then show ?thesis using False by (intro exI [of _ "t # xs"] exI [of _ ys]) simp
  qed (auto intro: exI [of _ "[]"])
qed simp

text \<open>Putting an entry into a slot that was deleted or the end mark makes its name found and
  keeps every other name that was.\<close>

lemma dir_find_new:
  assumes "find slot_end xs = None" "dir_find (filename nd) (xs @ s # ys) = None"
    and "filename nd ! 0 \<noteq> 0" "filename nd ! 0 \<noteq> 0xE5"
  shows "dir_find (filename nd) (xs @ (c, i, nd) # ys) = Some (c, i, nd)"
  using assms dir_find_append [OF assms(1)] by (auto simp: dir_find_def split: option.splits)

lemma dir_find_old:
  assumes "find slot_end xs = None" "slot_end s \<or> slot_deleted s"
    and "dir_find name (xs @ s # ys) = Some t" "filename nd \<noteq> name" "filename nd ! 0 \<noteq> 0"
  shows "dir_find name (xs @ (c, i, nd) # ys) = Some t"
proof -
  have "dir_find name (s # ys) = (if slot_end s then None else dir_find name ys)"
    using assms(2) by (cases s) (auto simp: dir_find_def)
  moreover have "dir_find name ((c, i, nd) # ys) = dir_find name ys"
    using assms(4,5) by (simp add: dir_find_def)
  ultimately show ?thesis
    using assms(3) dir_find_append [OF assms(1)] by (auto split: option.splits if_splits)
qed

text \<open>The slots after one of them has been written.\<close>

definition put_slot :: "u32 \<Rightarrow> nat \<Rightarrow> FAT32_NODE \<Rightarrow> slot \<Rightarrow> slot" where
  "put_slot c i nd s = (if fst s = c \<and> fst (snd s) = i then (c, i, nd) else s)"

lemma dir_slots_put:
  assumes "unat (descriptor_offset ni) < 16" "wf_node (node ni)"
    and "\<And>x. x \<in> set cs \<Longrightarrow> length (a_data v (unat x)) = 512"
  shows "dir_slots (put_descriptor ni v) cs
     = map (put_slot (descriptor_cluster ni) (unat (descriptor_offset ni)) (node ni)) (dir_slots v cs)"
proof -
  let ?k = "unat (descriptor_offset ni)" and ?c = "descriptor_cluster ni"
  have "sector_slots x (a_data (put_descriptor ni v) (unat x)) [0..<16]
      = map (put_slot ?c ?k (node ni)) (sector_slots x (a_data v (unat x)) [0..<16])" if "x \<in> set cs" for x
  proof (cases "x = ?c")
    case True
    have "entry_at (patch (a_data v (unat ?c)) (32 * ?k) (bytes_of_node (node ni))) i
        = (if i = ?k then node ni else entry_at (a_data v (unat ?c)) i)" if "i < 16" for i
      using entry_at_patch_same [OF assms(2), of ?k "a_data v (unat ?c)"]
        entry_at_patch_other [OF assms(2), of ?k "a_data v (unat ?c)" i] assms(1) assms(3) [OF \<open>x \<in> set cs\<close>] that True
      by auto
    then show ?thesis
      using True by (simp add: sector_slots_def put_descriptor_def put_slot_def del: upt_rec_numeral)
  next
    case False
    then show ?thesis by (simp add: sector_slots_def put_descriptor_def put_slot_def)
  qed
  then show ?thesis by (auto simp: dir_slots_def map_concat intro!: arg_cong [of _ _ concat])
qed

lemma dir_slots_keys:
  assumes "distinct cs" shows "distinct (map (\<lambda>s. (fst s, fst (snd s))) (dir_slots v cs))"
  using assms
proof (induction cs)
  case (Cons c cs)
  have "distinct (map (\<lambda>s. (fst s, fst (snd s))) (sector_slots c d [0..<16]))" for d
    by (simp add: sector_slots_def distinct_map inj_on_def comp_def del: upt_rec_numeral)
  moreover have "fst s = c" if "s \<in> set (sector_slots c d [0..<16])" for s d
    using that by (auto simp: sector_slots_def)
  moreover have "fst s \<in> set cs" if "s \<in> set (dir_slots v cs)" for s
    using that by (auto simp: sector_slots_def dir_slots_def)
  ultimately show ?case using Cons by fastforce
qed simp

lemma put_slot_split:
  assumes "distinct (map (\<lambda>s. (fst s, fst (snd s))) (xs @ (c, i, e) # ys))"
  shows "map (put_slot c i nd) (xs @ (c, i, e) # ys) = xs @ (c, i, nd) # ys"
proof -
  have "put_slot c i nd s = s" if "s \<in> set xs \<union> set ys" for s
    using that assms by (cases s) (auto simp: put_slot_def rev_image_eqI)
  then show ?thesis by (simp add: map_idI) (simp add: put_slot_def)
qed

subsection \<open>A new node\<close>

definition new_node :: "FAT32_NODE_INFO \<Rightarrow> byte list \<Rightarrow> u32 \<Rightarrow> u32 \<Rightarrow> FAT32_NODE_INFO" where
  "new_node ni fname flags c = ni\<lparr>node := (node ni)\<lparr>
     filename := name83 fname, node_size := 0,
     start_high := ucast (drop_bit 16 c), start_low := ucast c,
     attributes := (if flags AND O_DIR \<noteq> 0 then FAT32_DA_DIR else 0)\<rparr>\<rparr>"

lemma high_low: "push_bit 16 (ucast (ucast (drop_bit 16 (c::u32)) :: u16)) OR ucast (ucast c :: u16) = c"
  by (rule bit_word_eqI) (auto simp: bit_simps)

lemma new_node_simps [simp]:
  "descriptor_cluster (new_node ni fname flags c) = descriptor_cluster ni"
  "descriptor_offset (new_node ni fname flags c) = descriptor_offset ni"
  "parent_cluster (new_node ni fname flags c) = parent_cluster ni"
  "filename (node (new_node ni fname flags c)) = name83 fname"
  "node_size (node (new_node ni fname flags c)) = 0"
  "node_start (node (new_node ni fname flags c)) = c"
  "wf_node (node (new_node ni fname flags c))"
  by (simp_all add: new_node_def node_start_def high_low wf_node_def)

lemma initialize_node_ok:
  assumes ok: "vol_ok n p" and cr: "is_created (Some ni)" and d: "descriptor_ok p ni"
    and f: "free_cluster (abs_vol p) (fat_entries p) = Some i" and ne: "fname \<noteq> []"
  shows "\<exists>q. initialize_node p ni fname flags = Some (True, new_node ni fname flags (of_nat i), q)
     \<and> evolves n p q \<and> (\<forall>s. \<not> dirty q s)
     \<and> abs_vol q = put_descriptor (new_node ni fname flags (of_nat i)) (link_cluster (abs_vol p) 0 i)"
proof -
  let ?ni = "new_node ni fname flags (of_nat i)"
  obtain p1 where p1: "allocate_cluster p 0 = Some (of_nat i, p1)" "evolves n p p1"
    "abs_vol p1 = link_cluster (abs_vol p) 0 i"
    using allocate_cluster_ok [OF ok f] by auto
  have "descriptor_ok p1 ?ni"
    using d descriptor_ok_evolves [OF p1(2), of ni] by (auto simp: descriptor_ok_def)
  from save_descriptor_ok [OF evolves_vol_ok [OF p1(2)] this] obtain p2 where p2:
    "save_descriptor p1 ?ni = Some (E_DEVICE_OK, p2)" "evolves n p1 p2"
    "abs_vol p2 = put_descriptor ?ni (abs_vol p1)" by blast
  obtain q where q: "save_current_fat p2 = Some (E_DEVICE_OK, q)" "evolves n p2 q" "abs_vol q = abs_vol p2"
    "\<forall>s. \<not> dirty q s"
    using save_current_fat_ok [OF evolves_vol_ok [OF p2(2)]] by blast
  have "initialize_node p ni fname flags = Some (True, ?ni, q)"
    using cr p1(1) p2(1) q(1) free_cluster_valid(3) [OF f] make_name [OF ne]
    by (simp add: initialize_node_def new_node_def Let_def)
  then show ?thesis
    using q p1(3) p2(3) evolves_trans [OF evolves_trans [OF p1(2) p2(2)] q(2)] by auto
qed

subsection \<open>Creating a name\<close>

lemma creation_slotD:
  assumes "find slot_end (dir_slots v cs) \<noteq> None"
    and "\<And>x. x \<in> set cs \<Longrightarrow> x \<noteq> 0 \<and> length (a_data v (unat x)) = 512"
    and ni: "ni = creation_slot v start cs"
  shows "descriptor_cluster ni \<in> set cs" "unat (descriptor_offset ni) < 16" "wf_node (node ni)"
    "is_created (Some ni)" "parent_cluster ni = start"
    "\<exists>xs e ys. dir_slots v cs = xs @ (descriptor_cluster ni, unat (descriptor_offset ni), e) # ys
       \<and> find slot_end xs = None
       \<and> (slot_end (descriptor_cluster ni, unat (descriptor_offset ni), e)
          \<or> slot_deleted (descriptor_cluster ni, unat (descriptor_offset ni), e))"
proof -
  let ?ss = "dir_slots v cs"
  have slot: "c \<in> set cs \<and> i < 16 \<and> e = entry_at (a_data v (unat c)) i \<and> wf_node e \<and> c \<noteq> 0
      \<and> unat (of_nat i :: u32) = i" if "(c, i, e) \<in> set ?ss" for c i e
    using that assms(2) by (auto simp: dir_slots_def sector_slots_def wf_entry_at unat_of_nat_u32)
  have "descriptor_cluster ni \<in> set cs \<and> unat (descriptor_offset ni) < 16 \<and> wf_node (node ni)
    \<and> is_created (Some ni) \<and> parent_cluster ni = start
    \<and> (\<exists>xs e ys. ?ss = xs @ (descriptor_cluster ni, unat (descriptor_offset ni), e) # ys
       \<and> find slot_end xs = None
       \<and> (slot_end (descriptor_cluster ni, unat (descriptor_offset ni), e)
          \<or> slot_deleted (descriptor_cluster ni, unat (descriptor_offset ni), e)))"
  proof (cases "descriptor_cluster (last_deleted start ?ss no_info) = 0")
    case False
    then obtain c i e where s: "(c, i, e) \<in> set (live ?ss)" "slot_deleted (c, i, e)"
      "last_deleted start ?ss no_info = slot_info c i e start"
      using last_deleted_cases [of start ?ss no_info] by (auto simp: no_info_def)
    then have n: "ni = slot_info c i e start" using False ni by (simp add: creation_slot_def)
    obtain xs ys where x: "?ss = xs @ (c, i, e) # ys" "find slot_end xs = None"
      using live_prefix [OF s(1)] by blast
    then have "(c, i, e) \<in> set ?ss" by simp
    from slot [OF this] show ?thesis
      using x s(2) by (auto simp: n slot_info_def is_created_def)
  next
    case True
    obtain c i e where e: "find slot_end ?ss = Some (c, i, e)" using assms(1) by auto
    then have n: "ni = created_slot (a_data v (unat c)) c i start"
      using True ni by (simp add: creation_slot_def)
    obtain xs ys where x: "?ss = xs @ (c, i, e) # ys" "find slot_end xs = None" "slot_end (c, i, e)"
      using end_prefix [OF e] by blast
    then have "(c, i, e) \<in> set ?ss" by simp
    note sl = slot [OF this]
    then have "filename e \<noteq> []" by (auto simp: wf_node_def)
    with sl x show ?thesis
      by (auto simp: n created_slot_def slot_info_def is_created_def wf_node_def)
  qed
  then show "descriptor_cluster ni \<in> set cs" "unat (descriptor_offset ni) < 16" "wf_node (node ni)"
    "is_created (Some ni)" "parent_cluster ni = start"
    "\<exists>xs e ys. dir_slots v cs = xs @ (descriptor_cluster ni, unat (descriptor_offset ni), e) # ys
       \<and> find slot_end xs = None
       \<and> (slot_end (descriptor_cluster ni, unat (descriptor_offset ni), e)
          \<or> slot_deleted (descriptor_cluster ni, unat (descriptor_offset ni), e))"
    by blast+
qed

lemma dir_chain_evolves:
  assumes "evolves_in w n p q" "\<And>x. x \<in> set cs \<Longrightarrow> a_fat (abs_vol q) (unat x) = a_fat (abs_vol p) (unat x)"
  shows "dir_chain q dir cs = dir_chain p dir cs"
proof -
  have "get_cluster_from_node (partition_data q) dir = get_cluster_from_node (partition_data p) dir"
    using evolves_geom(4) [OF assms(1)] by (cases dir) (simp_all add: get_cluster_from_node_def)
  then show ?thesis using file_chain_cong [OF assms] by (simp add: dir_chain_def)
qed

text \<open>The directory after \<^verbatim>\<open>initialize_node\<close> has filled the slot of a search that failed.\<close>

lemma created_directory:
  assumes ok: "vol_ok n p" and d: "dir_chain p dir cs"
    and e: "find slot_end (dir_slots (abs_vol p) cs) \<noteq> None"
    and nf: "dir_find (name83 fname) (dir_slots (abs_vol p) cs) = None"
    and nm: "name83 fname ! 0 \<noteq> 0" "name83 fname ! 0 \<noteq> 0xE5"
    and f: "free_cluster (abs_vol p) (fat_entries p) = Some i"
    and ni: "ni = creation_slot (abs_vol p) start cs" and nn: "nn = new_node ni fname flags (of_nat i)"
    and q: "evolves n p q" "abs_vol q = put_descriptor nn (link_cluster (abs_vol p) 0 i)"
  shows "dir_chain q dir cs" "file_chain q (node_start (node nn)) [of_nat i]"
    "dir_find (name83 fname) (dir_slots (abs_vol q) cs)
       = Some (descriptor_cluster nn, unat (descriptor_offset nn), node nn)"
    "m \<noteq> name83 fname \<Longrightarrow> dir_find m (dir_slots (abs_vol p) cs) = Some t \<Longrightarrow>
       dir_find m (dir_slots (abs_vol q) cs) = Some t"
proof -
  let ?v = "abs_vol p" and ?start = "get_cluster_from_node (partition_data p) dir"
  have ch: "file_chain p ?start cs" using d by (simp add: dir_chain_def)
  note fD = free_cluster_SomeD [OF f] and fv = free_cluster_valid [OF f]
  have ics: "unat x \<noteq> i" if "x \<in> set cs" for x using chain_used [OF ch that] fD(3) by auto
  have len: "length (a_data ?v (unat x)) = 512" "x \<noteq> 0" if "x \<in> set cs" for x
    using length_cluster [OF ok file_chain_subset [OF ch that]] valid_clusterD(1) [OF file_chain_subset [OF ch that]]
    by auto
  note D = creation_slotD [OF e _ ni]
  have D': "descriptor_cluster ni \<in> set cs" "unat (descriptor_offset ni) < 16"
    using D(1,2) len by blast+
  obtain xs e0 ys where s: "dir_slots ?v cs = xs @ (descriptor_cluster ni, unat (descriptor_offset ni), e0) # ys"
    "find slot_end xs = None"
    "slot_end (descriptor_cluster ni, unat (descriptor_offset ni), e0)
      \<or> slot_deleted (descriptor_cluster ni, unat (descriptor_offset ni), e0)"
    using D(6) len by blast
  have fat: "a_fat (abs_vol q) = (a_fat ?v)(i := 0xFFFFFFF)"
    by (simp add: q(2) put_descriptor_def link_cluster_def)
  show "dir_chain q dir cs"
    using d dir_chain_evolves [OF q(1), of cs dir] ics by (simp add: fat)
  show "file_chain q (node_start (node nn)) [of_nat i]"
    using fv valid_cluster_evolves [OF q(1)] by (simp add: nn file_chain_Cons file_chain_Nil fat EOC_def)
  have l: "dir_slots (link_cluster ?v 0 i) cs = dir_slots ?v cs"
    using ics by (auto simp: dir_slots_def link_cluster_def intro!: arg_cong [of _ _ concat])
  have "dir_slots (abs_vol q) cs
      = map (put_slot (descriptor_cluster nn) (unat (descriptor_offset nn)) (node nn)) (dir_slots ?v cs)"
    unfolding q(2) l [symmetric]
    by (rule dir_slots_put) (use D' len ics in \<open>auto simp: nn link_cluster_def\<close>)
  also have "\<dots> = xs @ (descriptor_cluster nn, unat (descriptor_offset nn), node nn) # ys"
    using dir_slots_keys [OF file_chain_distinct [OF ch], of ?v]
    unfolding s(1) nn new_node_simps(1,2) by (rule put_slot_split)
  finally have new: "dir_slots (abs_vol q) cs
      = xs @ (descriptor_cluster nn, unat (descriptor_offset nn), node nn) # ys" .
  have fn: "filename (node nn) = name83 fname" by (simp add: nn)
  show "dir_find (name83 fname) (dir_slots (abs_vol q) cs)
       = Some (descriptor_cluster nn, unat (descriptor_offset nn), node nn)"
    unfolding new using dir_find_new [OF s(2), of "node nn"] nf nm unfolding s(1) fn by simp
  show "dir_find m (dir_slots (abs_vol q) cs) = Some t"
    if "m \<noteq> name83 fname" "dir_find m (dir_slots ?v cs) = Some t"
    unfolding new using dir_find_old [OF s(2,3), of m ys t "node nn"] that nm unfolding s(1) fn by simp
qed

end
