(* ===== verification/Strings.thy ===== *)
theory Strings
  imports Prelude
begin

text \<open>
  The string routines of \<^verbatim>\<open>libc/strings.c\<close>. A pointer to a string is the memory from it
  on, as a byte list; leaving that memory has no defined result. \<^verbatim>\<open>strtok\<close>, which keeps a
  static pointer between calls, works on one memory with positions in it.
\<close>

subsection \<open>Operations\<close>

fun str_cmp :: "byte list \<Rightarrow> byte list \<Rightarrow> int option" where
  "str_cmp (a # str1) (b # str2) =
     (if a = 0 \<and> b = 0 then Some 0 else if a = b then str_cmp str1 str2 else Some 1)"
| "str_cmp str1 str2 = None"

fun str_len :: "byte list \<Rightarrow> nat option" where
  "str_len [] = None"
| "str_len (c # str) = (if c = 0 then Some 0 else map_option Suc (str_len str))"

text \<open>\<^verbatim>\<open>str_until\<close> with its counter \<open>i\<close>.\<close>

fun str_until_loop :: "byte list \<Rightarrow> byte \<Rightarrow> nat \<Rightarrow> nat option" where
  "str_until_loop [] x i = None"
| "str_until_loop (c # str) x i =
     (if c \<noteq> x then (if c = 0 then Some 0 else str_until_loop str x (i + 1)) else Some i)"

definition str_until :: "byte list \<Rightarrow> byte \<Rightarrow> nat option" where
  "str_until str x = str_until_loop str x 0"

fun str_cmp_until :: "byte list \<Rightarrow> byte list \<Rightarrow> byte \<Rightarrow> int option" where
  "str_cmp_until (a # str1) (b # str2) x =
     (if a = b \<or> a = x \<or> a = 0
      then (if a = x \<or> a = 0 then Some 0 else str_cmp_until str1 str2 x) else Some 1)"
| "str_cmp_until str1 str2 x = None"

fun str_upper_case :: "byte list \<Rightarrow> byte list option" where
  "str_upper_case [] = None"
| "str_upper_case (c # str) =
     (if c = 0 then Some (c # str)
      else do {
        rest \<leftarrow> str_upper_case str;
        Some ((if ch CHR ''a'' \<le> c \<and> c \<le> ch CHR ''z'' then c - 32 else c) # rest)
      })"

fun str_lower_case :: "byte list \<Rightarrow> byte list option" where
  "str_lower_case [] = None"
| "str_lower_case (c # str) =
     (if c = 0 then Some (c # str)
      else do {
        rest \<leftarrow> str_lower_case str;
        Some ((if ch CHR ''A'' \<le> c \<and> c \<le> ch CHR ''Z'' then c + 32 else c) # rest)
      })"

text \<open>
  \<^verbatim>\<open>str_cat\<close>: find the end of the first string, copy the second there, and write the
  terminator at \<^verbatim>\<open>*(++str1)\<close>. The positions are indices into the first array.
\<close>

fun cat_copy :: "byte list \<Rightarrow> nat \<Rightarrow> byte list \<Rightarrow> (byte list \<times> nat) option" where
  "cat_copy dst d [] = None"
| "cat_copy dst d (c # src) =
     (if c = 0 then Some (dst, d)
      else if d < length dst then cat_copy (dst[d := c]) (d + 1) src else None)"

definition str_cat :: "byte list \<Rightarrow> byte list \<Rightarrow> byte list option" where
  "str_cat str1 str2 = do {
     n \<leftarrow> str_len str1;
     (str1, d) \<leftarrow> cat_copy str1 n str2;
     if d + 1 < length str1 then Some (str1[d + 1 := 0]) else None
   }"

text \<open>The copies stop at the terminator of the source and do not write one.\<close>

definition str_cpy :: "byte list \<Rightarrow> byte list \<Rightarrow> byte list option" where
  "str_cpy source destination = map_option fst (cat_copy destination 0 source)"

fun str_cpy_size :: "byte list \<Rightarrow> byte list \<Rightarrow> nat \<Rightarrow> byte list option" where
  "str_cpy_size source destination 0 = Some destination"
| "str_cpy_size [] destination (Suc n) = None"
| "str_cpy_size (c # source) destination (Suc n) =
     (if c = 0 then Some destination
      else case destination of [] \<Rightarrow> None
        | _ # rest \<Rightarrow> do { rest \<leftarrow> str_cpy_size source rest n; Some (c # rest) })"

text \<open>\<^verbatim>\<open>str_trail_char\<close>: the first loop with \<open>i\<close> and \<open>j\<close>, then the zeros.\<close>

function trail_loop :: "byte list \<Rightarrow> byte \<Rightarrow> nat \<Rightarrow> nat \<Rightarrow> (byte list \<times> nat \<times> nat) option" where
  "trail_loop str x i j =
     (if i < length str
      then if str ! i = 0 then Some (str, i, j)
           else if str ! i = x then trail_loop str x (i + 1) j
           else trail_loop (str[j := str ! i]) x (i + 1) (j + 1)
      else None)"
  by pat_completeness auto
termination
  by (relation "measure (\<lambda>(str, x, i, j). length str - i)") auto

declare trail_loop.simps [simp del]

definition str_trail_char :: "byte list \<Rightarrow> byte \<Rightarrow> byte list option" where
  "str_trail_char str x = do {
     (str, i, j) \<leftarrow> trail_loop str x 0 0;
     Some (fold (\<lambda>k s. s[k := 0]) [j..<i] str)
   }"

text \<open>\<^verbatim>\<open>str_insert\<close>: move the string and its terminator up, last byte first, then fill.\<close>

fun insert_shift :: "byte list \<Rightarrow> nat \<Rightarrow> nat list \<Rightarrow> byte list option" where
  "insert_shift str amount [] = Some str"
| "insert_shift str amount (i # is) =
     (if i + amount < length str then insert_shift (str[i + amount := str ! i]) amount is else None)"

definition str_insert :: "byte list \<Rightarrow> byte \<Rightarrow> u16 \<Rightarrow> byte list option" where
  "str_insert str x amount = do {
     n \<leftarrow> str_len str;
     str \<leftarrow> insert_shift str (unat amount) (rev [0..<n + 1]);
     Some (fold (\<lambda>k s. s[k := x]) [0..<unat amount] str)
   }"

text \<open>The position of the first \<open>c\<close>, \<^term>\<open>Some None\<close> for the null pointer.\<close>

fun strchr_loop :: "byte list \<Rightarrow> byte \<Rightarrow> nat \<Rightarrow> nat option option" where
  "strchr_loop [] c i = None"
| "strchr_loop (a # str) c i =
     (if a = 0 then Some None else if a = c then Some (Some i) else strchr_loop str c (i + 1))"

definition strchr :: "byte list \<Rightarrow> byte \<Rightarrow> nat option option" where
  "strchr str c = strchr_loop str c 0"

text \<open>
  \<^verbatim>\<open>strtok\<close> on the memory \<open>mem\<close> with the static pointer \<open>last\<close>: the token, the memory with
  the delimiter overwritten, and the new static pointer.
\<close>

function strtok_scan :: "byte list \<Rightarrow> byte \<Rightarrow> nat \<Rightarrow> (byte list \<times> nat) option" where
  "strtok_scan mem delim i =
     (if i < length mem
      then if mem ! i = 0 then Some (mem, i)
           else if mem ! i = delim then Some (mem[i := 0], i + 1)
           else strtok_scan mem delim (i + 1)
      else None)"
  by pat_completeness auto
termination
  by (relation "measure (\<lambda>(mem, delim, i). length mem - i)") auto

declare strtok_scan.simps [simp del]

definition strtok :: "byte list \<Rightarrow> nat option \<Rightarrow> nat option \<Rightarrow> byte
  \<Rightarrow> (nat option \<times> byte list \<times> nat option) option" where
  "strtok mem last_pos str delim = (let last_pos = (case str of None \<Rightarrow> last_pos | Some s \<Rightarrow> Some s) in
     case last_pos of
       None \<Rightarrow> Some (None, mem, None)
     | Some begin_pos \<Rightarrow> do {
         (mem, l) \<leftarrow> strtok_scan mem delim begin_pos;
         Some (Some begin_pos, mem, Some l)
       })"

subsection \<open>What they compute\<close>

text \<open>A string \<open>s\<close> in memory is \<open>s @ 0 # rest\<close> where \<open>s\<close> has no zero.\<close>

lemma str_len_correct [mem_simps]: "0 \<notin> set s \<Longrightarrow> str_len (s @ 0 # r) = Some (length s)"
  by (induction s) auto

lemma str_cmp_correct:
  "0 \<notin> set s \<Longrightarrow> 0 \<notin> set t \<Longrightarrow> str_cmp (s @ 0 # r) (t @ 0 # r') = Some (if s = t then 0 else 1)"
proof (induction s arbitrary: t)
  case Nil
  then show ?case by (cases t) auto
next
  case (Cons c s)
  then show ?case by (cases t) auto
qed

lemma str_until_loop_correct:
  "0 \<notin> set s \<Longrightarrow> x \<noteq> 0 \<Longrightarrow>
   str_until_loop (s @ 0 # r) x i = Some (if x \<in> set s then i + length (takeWhile (\<lambda>c. c \<noteq> x) s) else 0)"
  by (induction s arbitrary: i) auto

text \<open>0 is both \<open>not found\<close> and \<open>found at the start\<close>.\<close>

lemma str_until_correct:
  "0 \<notin> set s \<Longrightarrow> x \<noteq> 0 \<Longrightarrow>
   str_until (s @ 0 # r) x = Some (if x \<in> set s then length (takeWhile (\<lambda>c. c \<noteq> x) s) else 0)"
  by (simp add: str_until_def str_until_loop_correct)

lemma str_cmp_until_correct:
  "0 \<notin> set s \<Longrightarrow> 0 \<notin> set t \<Longrightarrow> x \<noteq> 0 \<Longrightarrow>
   str_cmp_until (s @ 0 # r) (t @ 0 # r') x
     = Some (if \<exists>u. t = takeWhile (\<lambda>c. c \<noteq> x) s @ u then 0 else 1)"
proof (induction s arbitrary: t)
  case Nil
  then show ?case by (cases t) auto
next
  case (Cons c s)
  then show ?case by (cases t) auto
qed

lemma str_upper_case_correct:
  "0 \<notin> set s \<Longrightarrow> str_upper_case (s @ 0 # r)
     = Some (map (\<lambda>c. if ch CHR ''a'' \<le> c \<and> c \<le> ch CHR ''z'' then c - 32 else c) s @ 0 # r)"
  by (induction s) auto

lemma str_lower_case_correct:
  "0 \<notin> set s \<Longrightarrow> str_lower_case (s @ 0 # r)
     = Some (map (\<lambda>c. if ch CHR ''A'' \<le> c \<and> c \<le> ch CHR ''Z'' then c + 32 else c) s @ 0 # r)"
  by (induction s) auto

lemma cat_copy_correct:
  "0 \<notin> set t \<Longrightarrow> d + length t \<le> length dst \<Longrightarrow>
   cat_copy dst d (t @ 0 # r) = Some (patch dst d t, d + length t)"
proof (induction t arbitrary: dst d)
  case (Cons c t)
  have "patch (dst[d := c]) (d + 1) t = patch dst d (c # t)"
    by (rule nth_equalityI) (use Cons.prems in \<open>auto simp: nth_patch nth_list_update nth_Cons' le_Suc_eq\<close>)
  then show ?case using Cons by simp
qed simp

text \<open>
  The terminator of \<^verbatim>\<open>str_cat\<close> is one byte too far: the byte behind the joined strings is
  what the array held there, and belongs to the result unless it was 0.
\<close>

lemma str_cat_correct:
  assumes "0 \<notin> set s" "0 \<notin> set t" "length s + length t + 1 < length (s @ 0 # r)"
  shows "str_cat (s @ 0 # r) (t @ 0 # r')
     = Some (s @ t @ [(0 # r) ! length t, 0] @ drop (length t + 1) r)"
proof -
  have "patch (s @ 0 # r) (length s) t = s @ t @ drop (length t) (0 # r)"
    by (simp add: patch_def)
  moreover have "drop (length t) (0 # r) = (0 # r) ! length t # r ! length t # drop (length t + 1) r"
    using assms(3) Cons_nth_drop_Suc [of "length t" "0 # r"] Cons_nth_drop_Suc [of "length t" r] by simp
  ultimately show ?thesis
    using assms by (simp add: str_cat_def str_len_correct cat_copy_correct list_update_append)
qed

lemma str_cpy_correct:
  "0 \<notin> set s \<Longrightarrow> length s \<le> length dst \<Longrightarrow> str_cpy (s @ 0 # r) dst = Some (s @ drop (length s) dst)"
  by (simp add: str_cpy_def cat_copy_correct patch_def)

lemma strtok_scan_correct:
  "0 \<notin> set s \<Longrightarrow> delim \<noteq> 0 \<Longrightarrow> strtok_scan (pre @ s @ 0 # r) delim (length pre)
     = (let t = takeWhile (\<lambda>c. c \<noteq> delim) s in
        if delim \<in> set s then Some (pre @ t @ 0 # drop (length t + 1) s @ 0 # r, length pre + length t + 1)
        else Some (pre @ s @ 0 # r, length pre + length s))"
proof (induction s arbitrary: pre)
  case Nil
  then show ?case by (subst strtok_scan.simps) (simp add: nth_append)
next
  case (Cons c s)
  show ?case
  proof (cases "c = delim")
    case True
    then show ?thesis using Cons.prems by (subst strtok_scan.simps) (simp add: nth_append)
  next
    case False
    then have "strtok_scan (pre @ (c # s) @ 0 # r) delim (length pre)
        = strtok_scan ((pre @ [c]) @ s @ 0 # r) delim (length (pre @ [c]))"
      using Cons.prems by (subst strtok_scan.simps) (simp add: nth_append)
    then show ?thesis using Cons.IH [of "pre @ [c]"] Cons.prems False by (simp add: Let_def)
  qed
qed

text \<open>Filling a range by single stores.\<close>

lemma fold_store:
  "j + m \<le> length s \<Longrightarrow> fold (\<lambda>k s. s[k := x]) [j..<j + m] s = patch s j (replicate m x)"
proof (induction m)
  case (Suc m)
  have "(patch s j (replicate m x))[j + m := x] = patch s j (replicate (Suc m) x)"
  proof (rule nth_equalityI)
    fix i assume "i < length ((patch s j (replicate m x))[j + m := x])"
    then have "i < length s" using Suc.prems by simp
    then show "(patch s j (replicate m x))[j + m := x] ! i = patch s j (replicate (Suc m) x) ! i"
      using Suc.prems by (cases "i = j + m") (auto simp: nth_patch nth_list_update simp del: replicate_Suc)
  qed (use Suc.prems in \<open>simp del: replicate_Suc\<close>)
  then show ?case using Suc by simp
qed simp

text \<open>\<^verbatim>\<open>str_insert\<close> moves a string up by \<open>amount\<close> places, if there is room behind it.\<close>

lemma insert_shift_correct:
  "m + a \<le> length s \<Longrightarrow> insert_shift s a (rev [0..<m]) = Some (patch s a (take m s))"
proof (induction m arbitrary: s)
  case (Suc m)
  let ?s = "s[m + a := s ! m]"
  have t: "take m ?s = take m s" by (cases "a = 0") (simp_all add: take_update_cancel)
  have "patch ?s a (take m s) = patch s a (take (Suc m) s)"
  proof (rule nth_equalityI)
    fix i assume "i < length (patch ?s a (take m s))"
    then have "i < length s" using Suc.prems by simp
    then show "patch ?s a (take m s) ! i = patch s a (take (Suc m) s) ! i"
      using Suc.prems by (cases "i = m + a") (auto simp: nth_patch)
  qed (use Suc.prems in simp)
  then show ?case using Suc.IH [of ?s] Suc.prems t by simp
qed simp

lemma str_insert_correct:
  assumes "0 \<notin> set s" "unat a \<le> length r"
  shows "str_insert (s @ 0 # r) x a = Some (replicate (unat a) x @ s @ 0 # drop (unat a) r)"
proof -
  have "insert_shift (s @ 0 # r) (unat a) (rev [0..<length s + 1]) = Some (patch (s @ 0 # r) (unat a) (s @ [0]))"
    using insert_shift_correct [of "length s + 1" "unat a" "s @ 0 # r"] assms(2) by simp
  moreover have "fold (\<lambda>k s. s[k := x]) [0..<0 + unat a] (patch (s @ 0 # r) (unat a) (s @ [0]))
      = patch (patch (s @ 0 # r) (unat a) (s @ [0])) 0 (replicate (unat a) x)"
    by (rule fold_store) (use assms(2) in simp)
  moreover have "drop (unat a) (patch (s @ 0 # r) (unat a) (s @ [0])) = s @ 0 # drop (unat a) r"
    using assms(2) by (simp add: patch_def)
  ultimately show ?thesis
    using assms(1) by (simp add: str_insert_def str_len_correct) (simp add: patch_def)
qed

text \<open>\<^verbatim>\<open>str_trail_char\<close> on a string that starts with the only occurrence of the character.\<close>

lemma trail_loop_shift:
  assumes "0 \<notin> set t" "x \<notin> set t" "length s = j"
  shows "trail_loop (s @ c # t @ 0 # r) x (Suc j) j = Some (s @ t @ last (c # t) # 0 # r, Suc j + length t, j + length t)"
  using assms
proof (induction t arbitrary: s c j)
  case Nil
  then show ?case by (subst trail_loop.simps) (simp add: nth_append)
next
  case (Cons d t)
  have "trail_loop (s @ c # (d # t) @ 0 # r) x (Suc j) j = trail_loop ((s @ [d]) @ d # t @ 0 # r) x (Suc (Suc j)) (Suc j)"
    using Cons.prems by (subst trail_loop.simps) (auto simp: nth_append list_update_append)
  then show ?case using Cons.IH [of "s @ [d]" "Suc j" d] Cons.prems by simp
qed

lemma str_trail_char_head:
  assumes "0 \<notin> set t" "x \<notin> set t" "x \<noteq> 0"
  shows "str_trail_char (x # t @ 0 # r) x = Some (t @ 0 # 0 # r)"
proof -
  have "trail_loop (x # t @ 0 # r) x 0 0 = trail_loop ([] @ x # t @ 0 # r) x (Suc 0) 0"
    using assms(3) by (subst trail_loop.simps) simp
  then have "trail_loop (x # t @ 0 # r) x 0 0 = Some (t @ last (x # t) # 0 # r, Suc (length t), length t)"
    using trail_loop_shift [OF assms(1,2), of "[]" 0 x r] by simp
  then show ?thesis by (simp add: str_trail_char_def list_update_append)
qed

end
