(* ===== verification/Fat32_Path.thy ===== *)
theory Fat32_Path
  imports Fat32_Create Strings
begin

text \<open>
  Path resolution and the directory operations of \<^verbatim>\<open>fs/fat32.c\<close>: \<^verbatim>\<open>resolve_path\<close> cuts a copy
  of the path into tokens with \<^verbatim>\<open>strtok\<close> and looks each one up in the directory found so
  far. A path argument is the list of its characters; memory that \<^verbatim>\<open>k_malloc\<close> hands out is
  assumed to be granted, and what it held is a parameter where it is read.
\<close>

subsection \<open>Operations\<close>

definition slash :: byte where
  "slash = ch CHR ''/''"

text \<open>The characters of the string at a position of a memory.\<close>

definition cstring_at :: "byte list \<Rightarrow> nat \<Rightarrow> byte list option" where
  "cstring_at mem pos = do { n \<leftarrow> str_len (drop pos mem); Some (take n (drop pos mem)) }"

definition copy_str :: "byte list \<Rightarrow> byte list" where
  "copy_str str = str @ [0]"

text \<open>The loop moves \<^verbatim>\<open>last_slash\<close> to every slash it meets; the result is one past it.\<close>

fun last_slash_loop :: "byte list \<Rightarrow> nat \<Rightarrow> nat \<Rightarrow> nat" where
  "last_slash_loop [] i last_slash = last_slash"
| "last_slash_loop (c # path) i last_slash =
     last_slash_loop path (i + 1) (if c = slash then i else last_slash)"

definition get_filename_from_path :: "byte list \<Rightarrow> byte list option" where
  "get_filename_from_path path = cstring_at (path @ [0]) (last_slash_loop path 0 0 + 1)"

definition dir_of_info :: "FAT32_NODE_INFO \<Rightarrow> FAT32_NODE option" where
  "dir_of_info ni = (if descriptor_cluster ni \<noteq> 0 then Some (node ni) else None)"

partial_function (option) resolve_loop ::
  "'d fat_volume \<Rightarrow> byte list \<Rightarrow> byte list \<Rightarrow> nat option \<Rightarrow> nat \<Rightarrow> FAT32_NODE_INFO \<Rightarrow> u32
   \<Rightarrow> (FAT32_NODE_INFO \<times> 'd fat_volume) option" where
  "resolve_loop p junk mem last_pos token nfo flags =
     (if token < length mem
      then if mem ! token = 0 then Some (nfo, p)
           else do {
             (new_token, mem, last_pos) \<leftarrow> strtok mem last_pos None slash;
             case new_token of None \<Rightarrow> None | Some new_token \<Rightarrow> do {
               name \<leftarrow> cstring_at mem token;
               rest \<leftarrow> cstring_at mem new_token;
               (nfo, p) \<leftarrow> find_node_in_directory p junk name (dir_of_info nfo)
                  (rest = [] \<and> flags AND O_CREAT \<noteq> 0);
               if descriptor_cluster nfo = 0 then Some (nfo, p)
               else resolve_loop p junk mem last_pos new_token nfo flags
             }
           }
      else None)"

text \<open>The result is \<^term>\<open>None\<close> for the null pointer.\<close>

definition resolve_path ::
  "'d fat_volume \<Rightarrow> byte list \<Rightarrow> byte list \<Rightarrow> FAT32_NODE_INFO option \<Rightarrow> u32
   \<Rightarrow> (FAT32_NODE_INFO option \<times> 'd fat_volume) option" where
  "resolve_path p junk path fat32_node flags = (let
     mem = copy_str path;
     absolute = (mem ! 0 = slash);
     fat32_node = (if absolute then None else fat32_node);
     used_path = (if absolute then 1 else 0)
     in do {
       (token, mem, last_pos) \<leftarrow> strtok mem None (Some used_path) slash;
       case token of None \<Rightarrow> None | Some token \<Rightarrow> do {
         (nfo, p) \<leftarrow> resolve_loop p junk mem last_pos token
            (case fat32_node of Some ni \<Rightarrow> ni | None \<Rightarrow> no_info) flags;
         Some (if descriptor_cluster nfo = 0 then None else Some nfo, p)
       }
     })"

text \<open>
  \<^verbatim>\<open>vfs_file_create_descriptor\<close> with the pointers the file system passes, reduced to whether
  it passes them. \<open>fresh\<close> is the node as \<^verbatim>\<open>k_malloc\<close> returns it: neither the offset nor the
  info is set.
\<close>

definition vfs_file_create_descriptor ::
  "'n VFS_NODE \<Rightarrow> 'n option \<Rightarrow> bool \<Rightarrow> bool \<Rightarrow> bool \<Rightarrow> 'n VFS_NODE option" where
  "vfs_file_create_descriptor fresh data has_write has_read has_list =
     (case data of None \<Rightarrow> None
      | Some d \<Rightarrow> if \<not> has_write \<and> \<not> has_read \<and> \<not> has_list then None
                  else Some (fresh\<lparr>node_data := d\<rparr>))"

definition fat32_open_file ::
  "'d fat_volume \<Rightarrow> byte list \<Rightarrow> FAT32_NODE_INFO VFS_NODE \<Rightarrow> FAT32_NODE_INFO VFS_NODE option \<Rightarrow> byte list \<Rightarrow> u32
   \<Rightarrow> (FAT32_NODE_INFO VFS_NODE option \<times> 'd fat_volume) option" where
  "fat32_open_file p junk fresh dir path flags = do {
     (node_info, p) \<leftarrow> resolve_path p junk path (vfs_node_get_data dir) flags;
     case node_info of None \<Rightarrow> Some (None, p)
     | Some ni \<Rightarrow> do {
         (ni, p) \<leftarrow> (if flags AND O_CREAT \<noteq> 0 \<and> is_created (Some ni)
            then do {
              fname \<leftarrow> get_filename_from_path path;
              (_, ni, p) \<leftarrow> initialize_node p ni fname 0;
              Some (ni, p)
            }
            else Some (ni, p));
         if is_dir (node ni) then Some (None, p)
         else Some (vfs_file_create_descriptor fresh (Some ni) True True False, p)
       }
   }"

definition fat32_create_file :: "'d fat_volume \<Rightarrow> FAT32_NODE_INFO VFS_NODE option \<Rightarrow> byte list \<Rightarrow> u32 \<Rightarrow> int" where
  "fat32_create_file p dir path flags = 0"

definition fat32_remove_file ::
  "'d fat_volume \<Rightarrow> byte list \<Rightarrow> FAT32_NODE_INFO VFS_NODE option \<Rightarrow> byte list \<Rightarrow> (int \<times> 'd fat_volume) option" where
  "fat32_remove_file p junk dir path = do {
     (node_info, p) \<leftarrow> resolve_path p junk path (vfs_node_get_data dir) 0;
     case node_info of None \<Rightarrow> Some (1, p)
     | Some ni \<Rightarrow>
         if is_dir (node ni) then Some (1, p)
         else do {
           let ni = ni\<lparr>node := (node ni)\<lparr>filename := (filename (node ni))[0 := 0xE5]\<rparr>\<rparr>;
           (_, p) \<leftarrow> save_descriptor p ni;
           (_, p) \<leftarrow> delete_fat_chain p (get_cluster_from_node (partition_data p) (Some (node ni)));
           Some (0, p)
         }
   }"

definition fat32_open_dir ::
  "'d fat_volume \<Rightarrow> byte list \<Rightarrow> FAT32_NODE_INFO VFS_NODE \<Rightarrow> FAT32_NODE_INFO VFS_NODE option \<Rightarrow> byte list
   \<Rightarrow> (FAT32_NODE_INFO VFS_NODE option \<times> 'd fat_volume) option" where
  "fat32_open_dir p junk fresh dir path = do {
     (node_info, p) \<leftarrow> resolve_path p junk path (vfs_node_get_data dir) 0;
     case node_info of None \<Rightarrow> Some (None, p)
     | Some ni \<Rightarrow> Some (vfs_file_create_descriptor fresh (Some ni) False False True, p)
   }"

definition fat32_make_dir ::
  "'d fat_volume \<Rightarrow> byte list \<Rightarrow> FAT32_NODE_INFO VFS_NODE option \<Rightarrow> byte list \<Rightarrow> (int \<times> 'd fat_volume) option" where
  "fat32_make_dir p junk dir path = do {
     (node_info, p) \<leftarrow> resolve_path p junk path (vfs_node_get_data dir) O_CREAT;
     case node_info of None \<Rightarrow> Some (1, p)
     | Some ni \<Rightarrow>
         if is_created (Some ni)
         then do {
           fname \<leftarrow> get_filename_from_path path;
           (_, ni, p) \<leftarrow> initialize_node p ni fname O_DIR;
           (_, ni, p) \<leftarrow> initialize_directory_inside p ni;
           Some (0, p)
         }
         else Some (0, p)
   }"

definition fat32_remove_dir :: "'d fat_volume \<Rightarrow> FAT32_NODE_INFO VFS_NODE option \<Rightarrow> byte list \<Rightarrow> int" where
  "fat32_remove_dir p dir path = 1"

subsection \<open>Tokens\<close>

text \<open>The names of a path: the parts between slashes, up to the first empty one.\<close>

function path_tokens :: "byte list \<Rightarrow> byte list list" where
  "path_tokens s = (let t = takeWhile (\<lambda>c. c \<noteq> slash) s in
     if t = [] then [] else t # path_tokens (drop (length t + 1) s))"
  by pat_completeness auto
termination by (relation "measure length", simp, case_tac s) auto

declare path_tokens.simps [simp del]

text \<open>The reference: look the names up one after the other.\<close>

fun walk :: "'d fat_volume \<Rightarrow> byte list \<Rightarrow> FAT32_NODE_INFO \<Rightarrow> byte list list \<Rightarrow> u32
  \<Rightarrow> (FAT32_NODE_INFO \<times> 'd fat_volume) option" where
  "walk p junk nfo [] flags = Some (nfo, p)"
| "walk p junk nfo (t # ts) flags = do {
     (nfo, p) \<leftarrow> find_node_in_directory p junk t (dir_of_info nfo) (ts = [] \<and> flags AND O_CREAT \<noteq> 0);
     if descriptor_cluster nfo = 0 then Some (nfo, p) else walk p junk nfo ts flags
   }"

lemma slash_nz [simp]: "slash \<noteq> 0"
  by (simp add: slash_def ch_def)

lemma path_tokens_Nil [simp]: "path_tokens [] = []"
  by (simp add: path_tokens.simps)

lemma path_tokens_eq_Nil: "path_tokens s = [] \<longleftrightarrow> takeWhile (\<lambda>c. c \<noteq> slash) s = []"
  by (subst path_tokens.simps) (simp add: Let_def)

lemma cstring_at_append:
  "0 \<notin> set s \<Longrightarrow> cstring_at (pre @ s @ 0 # r) (length pre) = Some s"
  by (simp add: cstring_at_def str_len_correct)

text \<open>
  One call of \<^verbatim>\<open>strtok\<close> on the rest \<open>s\<close> of the path: the token is the part up to the next
  slash, and the static pointer is at what follows.
\<close>

definition after_token :: "byte list \<Rightarrow> byte list" where
  "after_token s = drop (length (takeWhile (\<lambda>c. c \<noteq> slash) s) + 1) s"

lemma strtok_token:
  assumes "0 \<notin> set s" "str = Some (length pre) \<or> str = None \<and> last_pos = Some (length pre)"
    and t: "t = takeWhile (\<lambda>c. c \<noteq> slash) s"
  shows "\<exists>pre' r. strtok (pre @ s @ [0]) last_pos str slash
       = Some (Some (length pre), pre' @ after_token s @ [0], Some (length pre'))
     \<and> pre' @ after_token s @ [0] = pre @ t @ 0 # r
     \<and> (pre' = pre @ t @ [0] \<or> pre' = pre @ t \<and> after_token s = [])"
proof -
  note sc = strtok_scan_correct [OF assms(1) slash_nz, of pre "[]", folded t]
  show ?thesis
  proof (cases "slash \<in> set s")
    case True
    have a: "after_token s = drop (length t + 1) s" by (simp add: after_token_def t)
    show ?thesis
      using sc assms(2) True unfolding a
      by (intro exI [of _ "pre @ t @ [0]"] exI [of _ "drop (length t + 1) s @ [0]"])
        (auto simp: strtok_def Let_def)
  next
    case False
    then have ts: "t = s" unfolding t takeWhile_eq_all_conv by metis
    then have a: "after_token s = []" unfolding after_token_def t [symmetric] by simp
    show ?thesis
      using sc assms(2) False unfolding a ts
      by (intro exI [of _ "pre @ s"] exI [of _ "[]"]) (auto simp: strtok_def Let_def)
  qed
qed

lemma after_token_subset: "set (after_token s) \<subseteq> set s"
  by (auto simp: after_token_def dest: in_set_dropD)

lemma takeWhile_nz: "0 \<notin> set s \<Longrightarrow> 0 \<notin> set (takeWhile P s)"
  by (auto dest: set_takeWhileD)

lemma path_tokens_step:
  "takeWhile (\<lambda>c. c \<noteq> slash) s \<noteq> [] \<Longrightarrow>
   path_tokens s = takeWhile (\<lambda>c. c \<noteq> slash) s # path_tokens (after_token s)"
  by (subst path_tokens.simps) (simp add: Let_def after_token_def)

lemma path_tokens_single: "slash \<notin> set s \<Longrightarrow> s \<noteq> [] \<Longrightarrow> path_tokens s = [s]"
proof -
  assume s: "slash \<notin> set s" "s \<noteq> []"
  then have t: "takeWhile (\<lambda>c. c \<noteq> slash) s = s" unfolding takeWhile_eq_all_conv by metis
  have "after_token s = []" unfolding after_token_def t by simp
  then show ?thesis using path_tokens_step [of s] s(2) unfolding t by simp
qed

text \<open>The loop looks up the tokens of the path, the last one with the creation flag.\<close>

lemma resolve_loop_walk:
  fixes p :: "'d fat_volume"
  assumes "0 \<notin> set s" "mem = pre' @ after_token s @ [0]" "last_pos = Some (length pre')"
    and "mem = pre @ takeWhile (\<lambda>c. c \<noteq> slash) s @ 0 # r" "token = length pre"
    and "pre' = pre @ takeWhile (\<lambda>c. c \<noteq> slash) s @ [0] \<or> pre' = pre @ takeWhile (\<lambda>c. c \<noteq> slash) s \<and> after_token s = []"
  shows "resolve_loop p junk mem last_pos token nfo flags = walk p junk nfo (path_tokens s) flags"
  using assms
proof (induction s arbitrary: p mem pre' last_pos pre r token nfo rule: path_tokens.induct)
  case (1 s)
  let ?t = "takeWhile (\<lambda>c. c \<noteq> slash) s"
  show ?case
  proof (cases "?t = []")
    case True
    then show ?thesis
      using "1.prems"(4,5) path_tokens_eq_Nil [of s] by (subst resolve_loop.simps) simp
  next
    case False
    let ?s' = "after_token s"
    let ?t' = "takeWhile (\<lambda>c. c \<noteq> slash) ?s'"
    have nz: "0 \<notin> set ?s'" using "1.prems"(1) after_token_subset by blast
    obtain pre2 r2 where st: "strtok mem last_pos None slash
        = Some (Some (length pre'), pre2 @ after_token ?s' @ [0], Some (length pre2))"
      "pre2 @ after_token ?s' @ [0] = pre' @ ?t' @ 0 # r2"
      "pre2 = pre' @ ?t' @ [0] \<or> pre2 = pre' @ ?t' \<and> after_token ?s' = []"
      using strtok_token [OF nz _ refl, of None pre' "last_pos"] "1.prems"(2,3) by auto
    let ?mem = "pre2 @ after_token ?s' @ [0]"
    have name: "cstring_at ?mem token = Some ?t"
    proof -
      have "\<exists>r. ?mem = pre @ ?t @ 0 # r"
        using "1.prems"(6) unfolding st(2) by auto
      then show ?thesis
        using cstring_at_append [OF takeWhile_nz [OF "1.prems"(1)], of pre] "1.prems"(5) by auto
    qed
    have rest: "cstring_at ?mem (length pre') = Some ?t'"
      unfolding st(2) using cstring_at_append [OF takeWhile_nz [OF nz]] by simp
    have tok: "token < length mem" "mem ! token \<noteq> 0"
    proof -
      have "hd ?t \<in> set s" using False hd_in_set set_takeWhileD by metis
      then show "mem ! token \<noteq> 0" "token < length mem"
        using "1.prems"(1,4,5) False by (auto simp: nth_append hd_conv_nth)
    qed
    have IH: "resolve_loop q junk ?mem (Some (length pre2)) (length pre') ni flags
        = walk q junk ni (path_tokens ?s') flags" for q :: "'d fat_volume" and ni
      by (rule "1.IH" [OF refl False, folded after_token_def, OF nz refl refl st(2) refl st(3)])
    have last: "?t' = [] \<longleftrightarrow> path_tokens ?s' = []" by (simp add: path_tokens_eq_Nil)
    show ?thesis
      unfolding path_tokens_step [OF False]
      using tok name rest
      by (subst resolve_loop.simps) (simp add: st(1) IH last cong: if_cong)
  qed
qed

subsection \<open>Resolving a path\<close>

definition path_rest :: "byte list \<Rightarrow> byte list" where
  "path_rest path = (case path of [] \<Rightarrow> [] | c # cs \<Rightarrow> if c = slash then cs else path)"

definition path_start :: "byte list \<Rightarrow> FAT32_NODE_INFO option \<Rightarrow> FAT32_NODE_INFO" where
  "path_start path fat32_node = (case path of
       c # cs \<Rightarrow> if c = slash then no_info else (case fat32_node of Some ni \<Rightarrow> ni | None \<Rightarrow> no_info)
     | [] \<Rightarrow> (case fat32_node of Some ni \<Rightarrow> ni | None \<Rightarrow> no_info))"

lemma resolve_path_walk:
  assumes "0 \<notin> set path"
  shows "resolve_path p junk path fat32_node flags = do {
     (nfo, p) \<leftarrow> walk p junk (path_start path fat32_node) (path_tokens (path_rest path)) flags;
     Some (if descriptor_cluster nfo = 0 then None else Some nfo, p)
   }"
proof -
  let ?abs = "(path @ [0]) ! 0 = slash"
  define pre where "pre = (if ?abs then [slash] else [])"
  have path: "path @ [0] = pre @ path_rest path @ [0]" and len: "length pre = (if ?abs then 1 else 0)"
    by (cases path; auto simp: pre_def path_rest_def)+
  have start: "path_start path fat32_node
      = (case (if ?abs then None else fat32_node) of Some ni \<Rightarrow> ni | None \<Rightarrow> no_info)"
    by (cases path) (auto simp: path_start_def)
  have nz: "0 \<notin> set (path_rest path)" using assms by (auto simp: path_rest_def split: list.splits if_splits)
  obtain pre' r where st: "strtok (pre @ path_rest path @ [0]) None (Some (length pre)) slash
      = Some (Some (length pre), pre' @ after_token (path_rest path) @ [0], Some (length pre'))"
    "pre' @ after_token (path_rest path) @ [0] = pre @ takeWhile (\<lambda>c. c \<noteq> slash) (path_rest path) @ 0 # r"
    "pre' = pre @ takeWhile (\<lambda>c. c \<noteq> slash) (path_rest path) @ [0]
      \<or> pre' = pre @ takeWhile (\<lambda>c. c \<noteq> slash) (path_rest path) \<and> after_token (path_rest path) = []"
    using strtok_token [OF nz _ refl, of "Some (length pre)" pre None] by auto
  note lp = resolve_loop_walk [OF nz refl refl st(2) refl st(3)]
  show ?thesis
    unfolding resolve_path_def Let_def copy_str_def start len [symmetric]
    unfolding path st(1) by (simp add: lp)
qed

text \<open>A node that a chain of directories leads to, by the names of a path.\<close>

inductive path_to :: "'d fat_volume \<Rightarrow> FAT32_NODE option \<Rightarrow> byte list list \<Rightarrow> FAT32_NODE_INFO \<Rightarrow> bool"
  for p :: "'d fat_volume" where
  path_here: "dir_chain p dir cs \<Longrightarrow> t \<noteq> [] \<Longrightarrow> dir_find (name83 t) (dir_slots (abs_vol p) cs) = Some s \<Longrightarrow>
     path_to p dir [t] (info_of_slot (get_cluster_from_node (partition_data p) dir) s)"
| path_down: "dir_chain p dir cs \<Longrightarrow> t \<noteq> [] \<Longrightarrow> dir_find (name83 t) (dir_slots (abs_vol p) cs) = Some s \<Longrightarrow>
     path_to p (Some (snd (snd s))) ts ni \<Longrightarrow> path_to p dir (t # ts) ni"

inductive_cases path_to_NilE: "path_to p dir [] ni"
inductive_cases path_to_ConsE: "path_to p dir (t # ts) ni"

lemma path_to_ne: "path_to p dir ts ni \<Longrightarrow> ts \<noteq> []"
  by (cases ts) (auto elim: path_to_NilE)

lemma dir_find_memD: "dir_find name ss = Some s \<Longrightarrow> s \<in> set ss"
  unfolding dir_find_def live_def by (drule find_SomeD) (auto dest: set_takeWhileD)

lemma dir_find_info:
  assumes "dir_chain p dir cs" "dir_find name (dir_slots (abs_vol p) cs) = Some s"
  shows "descriptor_cluster (info_of_slot start s) \<noteq> 0" "node (info_of_slot start s) = snd (snd s)"
    "dir_of_info (info_of_slot start s) = Some (snd (snd s))"
proof -
  have "s \<in> set (dir_slots (abs_vol p) cs)" by (rule dir_find_memD [OF assms(2)])
  then have "fst s \<in> set cs" by (auto simp: dir_slots_def sector_slots_def)
  then have "fst s \<noteq> 0"
    using assms(1) file_chain_subset valid_clusterD(1) by (fastforce simp: dir_chain_def)
  then show "descriptor_cluster (info_of_slot start s) \<noteq> 0" "node (info_of_slot start s) = snd (snd s)"
    "dir_of_info (info_of_slot start s) = Some (snd (snd s))"
    by (cases s; simp add: slot_info_def dir_of_info_def)+
qed

lemma path_to_evolves:
  assumes "path_to p dir ts ni" "evolves_in w n p q" "abs_vol q = abs_vol p"
  shows "path_to q dir ts ni"
  using assms(1)
proof induction
  have g: "get_cluster_from_node (partition_data q) d = get_cluster_from_node (partition_data p) d" for d
    using evolves_geom(4) [OF assms(2)] by (cases d) (simp_all add: get_cluster_from_node_def)
  have dc: "dir_chain q d cs = dir_chain p d cs" for d cs
    by (rule dir_chain_evolves [OF assms(2)]) (simp add: assms(3))
  {
    case (path_here dir cs t s)
    then show ?case using path_to.path_here [of q dir cs t s] by (simp add: g dc assms(3))
  next
    case (path_down dir cs t s ts ni)
    then show ?case using path_to.path_down [of q dir cs t s ts ni] by (simp add: dc assms(3))
  }
qed

lemma walk_path_to:
  assumes "path_to p dir ts ni" "vol_state w n p" "length junk = 512" "dir_of_info nfo = dir" "flags AND O_CREAT = 0"
  shows "\<exists>q. walk p junk nfo ts flags = Some (ni, q) \<and> evolves_in w n p q \<and> abs_vol q = abs_vol p
     \<and> descriptor_cluster ni \<noteq> 0"
  using assms
proof (induction ts arbitrary: p dir nfo)
  case Nil
  then show ?case by (auto elim: path_to_NilE)
next
  case (Cons t ts)
  from Cons.prems(1) obtain cs s where s: "dir_chain p dir cs" "t \<noteq> []"
    "dir_find (name83 t) (dir_slots (abs_vol p) cs) = Some s"
    and rest: "ts = [] \<and> ni = info_of_slot (get_cluster_from_node (partition_data p) dir) s
       \<or> path_to p (Some (snd (snd s))) ts ni"
    by (rule path_to_ConsE) blast+
  let ?i = "info_of_slot (get_cluster_from_node (partition_data p) dir) s"
  note inf = dir_find_info [OF s(1,3)]
  obtain q where q: "evolves_in w n p q" "abs_vol q = abs_vol p"
    "find_node_in_directory p junk t dir False = Some (?i, q)"
    using find_node_lookup [OF Cons.prems(2) s(1) Cons.prems(3) s(2)] s(3) by auto
  have w: "walk p junk nfo (t # ts) flags = walk q junk ?i ts flags"
    using q(3) Cons.prems(4,5) inf(1) by simp
  from rest show ?case
  proof
    assume "ts = [] \<and> ni = ?i"
    then show ?thesis using w q inf(1) by simp
  next
    assume "path_to p (Some (snd (snd s))) ts ni"
    then have "path_to q (Some (snd (snd s))) ts ni" by (rule path_to_evolves [OF _ q(1,2)])
    from Cons.IH [OF this evolves_vol_ok [OF q(1)] Cons.prems(3) inf(3) Cons.prems(5)] show ?thesis
      using w q(1,2) evolves_trans [OF q(1)] by auto
  qed
qed

text \<open>Resolving a path without the creation flag finds the node its names lead to.\<close>

lemma resolve_path_to:
  assumes "path_to p (dir_of_info (path_start path fat32_node)) (path_tokens (path_rest path)) ni"
    and "vol_state w n p" "length junk = 512" "0 \<notin> set path" "flags AND O_CREAT = 0"
  shows "\<exists>q. resolve_path p junk path fat32_node flags = Some (Some ni, q)
     \<and> evolves_in w n p q \<and> abs_vol q = abs_vol p"
  using walk_path_to [OF assms(1-3) refl assms(5)] resolve_path_walk [OF assms(4), of p junk fat32_node flags]
  by auto

lemma last_slash_loop_append:
  "last_slash_loop (xs @ ys) i k = last_slash_loop ys (i + length xs) (last_slash_loop xs i k)"
  by (induction xs arbitrary: i k) auto

lemma last_slash_loop_none: "slash \<notin> set path \<Longrightarrow> last_slash_loop path i k = k"
  by (induction path arbitrary: i k) auto

text \<open>The last component of a path, and of a path without a slash all but its first character.\<close>

lemma filename_after_slash:
  assumes "0 \<notin> set name" "slash \<notin> set name"
  shows "get_filename_from_path (dirs @ slash # name) = Some name"
proof -
  have "last_slash_loop (dirs @ slash # name) 0 0 = length dirs"
    using assms(2) by (simp add: last_slash_loop_append last_slash_loop_none)
  then show ?thesis
    using cstring_at_append [OF assms(1), of "dirs @ [slash]" "[]"] by (simp add: get_filename_from_path_def)
qed

lemma filename_without_slash:
  assumes "0 \<notin> set path" "slash \<notin> set path" "path \<noteq> []"
  shows "get_filename_from_path path = Some (tl path)"
proof -
  obtain c cs where p: "path = [c] @ cs" using assms(3) by (cases path) auto
  have "last_slash_loop path 0 0 = 0" using assms(2) by (rule last_slash_loop_none)
  then show ?thesis
    using cstring_at_append [of cs "[c]" "[]"] assms(1) by (simp add: get_filename_from_path_def p)
qed

end
