(* ===== verification/Vfs.thy ===== *)
theory Vfs
  imports Fat32_Path
begin

text \<open>
  The tables of devices and partitions and the path front end of \<^verbatim>\<open>fs/vfs.c\<close>, and how
  \<^verbatim>\<open>fs/fat32.c\<close> mounts a device. The function pointers of partitions and nodes can only
  hold the FAT32 functions in this kernel, so a call through one is the call of that
  function; whether a node has a pointer is part of the node.
\<close>

subsection \<open>The tables\<close>

datatype E_PARTITION = E_PARTITION_OK | E_PARTITION_DEVICE_FAILED
  | E_PARTITION_NO_FILESYSTEM_DETECTED | E_PARTITINO_INVALID_SIGNATURE

record VFS_PARTITION =
  part_letter :: byte
  part_data :: FAT32_PARTITION
  part_device :: nat \<comment> \<open>the index in \<^verbatim>\<open>virtual_devices\<close> of the entry \<^verbatim>\<open>device\<close> points to\<close>

definition vfs_partition_get_data :: "VFS_PARTITION option \<Rightarrow> FAT32_PARTITION option" where
  "vfs_partition_get_data part = map_option part_data part"

definition vfs_partition_get_name :: "VFS_PARTITION option \<Rightarrow> byte" where
  "vfs_partition_get_name part = (case part of None \<Rightarrow> 0 | Some p \<Rightarrow> part_letter p)"

definition vfs_partition_get_device :: "VFS_PARTITION option \<Rightarrow> nat option" where
  "vfs_partition_get_device part = map_option part_device part"

text \<open>
  The static variables of the file, and the hardware the drivers work on: a driver entry point
  gets it with the data of the device, so every device is on the same hardware.
\<close>

record ('h, 'c) vfs =
  hardware :: 'h
  virtual_devices :: "('c, 'h \<times> 'c) VFS_DEVICE_ENTRY list"
  partitions :: "VFS_PARTITION list"

text \<open>Following the pointer to a device, and what the device is after a call through it.\<close>

definition device_at :: "('h, 'c) vfs \<Rightarrow> nat \<Rightarrow> ('h \<times> 'c) VFS_DEVICE" where
  "device_at v k = (let e = virtual_devices v ! k in
     \<lparr>device_data = (hardware v, device_data e), read_m = read_m e, write_m = write_m e\<rparr>)"

definition put_device :: "('h, 'c) vfs \<Rightarrow> nat \<Rightarrow> ('h \<times> 'c) VFS_DEVICE \<Rightarrow> ('h, 'c) vfs" where
  "put_device v k dv = v\<lparr>hardware := fst (device_data dv),
     virtual_devices := (virtual_devices v)
       [k := \<lparr>device_data = snd (device_data dv), read_m = read_m dv, write_m = write_m dv\<rparr>]\<rparr>"

definition volume_at :: "('h, 'c) vfs \<Rightarrow> nat \<Rightarrow> ('h \<times> 'c) fat_volume" where
  "volume_at v i = (let e = partitions v ! i in
     \<lparr>letter = part_letter e, partition_data = part_data e, device = device_at v (part_device e)\<rparr>)"

definition put_volume :: "('h, 'c) vfs \<Rightarrow> nat \<Rightarrow> ('h \<times> 'c) fat_volume \<Rightarrow> ('h, 'c) vfs" where
  "put_volume v i p = put_device
     (v\<lparr>partitions := (partitions v)[i := (partitions v ! i)\<lparr>part_data := partition_data p\<rparr>]\<rparr>)
     (part_device (partitions v ! i)) (device p)"

definition MAX_PARTITIONS :: nat where
  "MAX_PARTITIONS = 16"

text \<open>
  The pointer arguments other than the data and the device are functions of the caller and
  not null. A 17th partition is written behind the array.
\<close>

definition vfs_register_partition ::
  "('h, 'c) vfs \<Rightarrow> FAT32_PARTITION option \<Rightarrow> nat option \<Rightarrow> (E_PARTITION \<times> ('h, 'c) vfs) option" where
  "vfs_register_partition v data dev =
     (case (data, dev) of
        (Some f, Some k) \<Rightarrow>
          if length (partitions v) < MAX_PARTITIONS
          then Some (E_PARTITION_OK,
                 v\<lparr>partitions := partitions v
                   @ [\<lparr>part_letter = ch CHR ''A'' + of_nat (length (partitions v)), part_data = f, part_device = k\<rparr>]\<rparr>)
          else None
      | _ \<Rightarrow> Some (E_PARTITION_NO_FILESYSTEM_DETECTED, v))"

text \<open>\<^verbatim>\<open>vfs_device_read\<close> through a pointer to an entry of the device table.\<close>

definition read_through ::
  "('h, 'c) vfs \<Rightarrow> nat option \<Rightarrow> byte list option \<Rightarrow> u32 \<Rightarrow> u32 \<Rightarrow> (E_DEVICE \<times> byte list option \<times> ('h, 'c) vfs) option" where
  "read_through v dev buf cnt lba = do {
     (r, buf, dv) \<leftarrow> vfs_device_read (map_option (device_at v) dev) buf cnt lba;
     Some (r, buf, case (dev, dv) of (Some k, Some dv) \<Rightarrow> put_device v k dv | _ \<Rightarrow> v)
   }"

text \<open>
  \<open>mem\<close> is the block \<^verbatim>\<open>init_partition\<close> gets from \<^verbatim>\<open>k_malloc\<close>. The FSInfo sector is read
  and not used.
\<close>

definition fat32_find_partition ::
  "('h, 'c) vfs \<Rightarrow> FAT32_PARTITION \<Rightarrow> nat option \<Rightarrow> (E_PARTITION \<times> ('h, 'c) vfs) option" where
  "fat32_find_partition v mem dev = do {
     (r, buf, v) \<leftarrow> read_through v dev (Some (replicate 512 0)) 1 0;
     case buf of None \<Rightarrow> None | Some buf \<Rightarrow>
       if r \<noteq> E_DEVICE_OK then Some (E_PARTITION_DEVICE_FAILED, v)
       else let br = boot_record_of_bytes buf in
         if signature (ebr br) \<noteq> 0x28 \<and> signature (ebr br) \<noteq> 0x29
         then Some (E_PARTITION_NO_FILESYSTEM_DETECTED, v)
         else if boot_signature (ebr br) \<noteq> 0xAA55
         then Some (E_PARTITINO_INVALID_SIGNATURE, v)
         else do {
           (_, _, v) \<leftarrow> read_through v dev (Some (replicate 512 0)) 1 (ucast (sector_of_FSInfo (ebr br)));
           (_, v) \<leftarrow> vfs_register_partition v (Some (init_partition mem br)) dev;
           Some (E_PARTITION_OK, v)
         }
   }"

definition PARTITION_FORMAT_FAT32 :: u32 where
  "PARTITION_FORMAT_FAT32 = 4"

text \<open>The result also has the index \<^verbatim>\<open>*parts\<close> points to and \<^verbatim>\<open>*size\<close>.\<close>

definition vfs_partitions_find_on_device ::
  "('h, 'c) vfs \<Rightarrow> FAT32_PARTITION \<Rightarrow> nat option \<Rightarrow> u32 \<Rightarrow> (E_PARTITION \<times> nat \<times> nat \<times> ('h, 'c) vfs) option" where
  "vfs_partitions_find_on_device v mem dev format = do {
     v' \<leftarrow> (if format AND PARTITION_FORMAT_FAT32 \<noteq> 0
        then do { (_, v) \<leftarrow> fat32_find_partition v mem dev; Some v }
        else Some v);
     let sz = length (partitions v') - length (partitions v);
     Some (if sz \<noteq> 0 then E_PARTITION_OK else E_PARTITION_NO_FILESYSTEM_DETECTED,
           length (partitions v'), sz, v')
   }"

subsection \<open>Paths\<close>

text \<open>
  \<^term>\<open>Some None\<close> is the null pointer. The unused entries of the table have the letter 0;
  the letters behind its 16 entries are read from other memory.
\<close>

definition get_partition_from_path :: "('h, 'c) vfs \<Rightarrow> byte list \<Rightarrow> nat option option" where
  "get_partition_from_path v path = (let c = (path @ [0]) ! 0 in
     if c < ch CHR ''A'' \<or> ch CHR ''Z'' < c then Some None
     else let i = unat (c - ch CHR ''A'') in
       if i < length (partitions v) then Some (if part_letter (partitions v ! i) = 0 then None else Some i)
       else if i < MAX_PARTITIONS then Some None else None)"

definition get_path_relative_to_root :: "byte list \<Rightarrow> byte list option option" where
  "get_path_relative_to_root path = do {
     r \<leftarrow> str_until (path @ [0]) slash;
     Some (if r = 0 then None else Some (drop r path))
   }"

text \<open>The partition and the path on it, \<^const>\<open>Inl\<close> the step that failed.\<close>

datatype BAD_PATH = NO_PARTITION | NO_ROOT

definition split_path :: "('h, 'c) vfs \<Rightarrow> byte list \<Rightarrow> (BAD_PATH + nat \<times> byte list) option" where
  "split_path v path = do {
     part \<leftarrow> get_partition_from_path v path;
     case part of None \<Rightarrow> Some (Inl NO_PARTITION)
     | Some i \<Rightarrow> do {
         rest \<leftarrow> get_path_relative_to_root path;
         Some (case rest of None \<Rightarrow> Inl NO_ROOT | Some path \<Rightarrow> Inr (i, path))
       }
   }"

subsection \<open>Nodes\<close>

record VFS_FD =
  fd_partition :: nat
  fd_node :: "FAT32_NODE_INFO VFS_NODE"
  fd_write :: bool
  fd_read :: bool
  fd_lseek :: bool
  fd_list :: bool

definition file_fd :: "nat \<Rightarrow> FAT32_NODE_INFO VFS_NODE \<Rightarrow> VFS_FD" where
  "file_fd i nd = \<lparr>fd_partition = i, fd_node = nd, fd_write = True, fd_read = True, fd_lseek = True, fd_list = False\<rparr>"

definition dir_fd :: "nat \<Rightarrow> FAT32_NODE_INFO VFS_NODE \<Rightarrow> VFS_FD" where
  "dir_fd i nd = \<lparr>fd_partition = i, fd_node = nd, fd_write = False, fd_read = False, fd_lseek = False, fd_list = True\<rparr>"

definition open_file :: "('h, 'c) vfs \<Rightarrow> byte list \<Rightarrow> FAT32_NODE_INFO VFS_NODE \<Rightarrow> byte list \<Rightarrow> u32 \<Rightarrow> (VFS_FD option \<times> ('h, 'c) vfs) option" where
  "open_file v junk fresh path flags = do {
     r \<leftarrow> split_path v path;
     case r of Inl _ \<Rightarrow> Some (None, v)
     | Inr (i, path) \<Rightarrow> do {
         (nd, p) \<leftarrow> fat32_open_file (volume_at v i) junk fresh None path flags;
         Some (map_option (file_fd i) nd, put_volume v i p)
       }
   }"

definition open_file_relative :: "('h, 'c) vfs \<Rightarrow> byte list \<Rightarrow> FAT32_NODE_INFO VFS_NODE \<Rightarrow> VFS_FD option \<Rightarrow> byte list \<Rightarrow> u32
   \<Rightarrow> (VFS_FD option \<times> ('h, 'c) vfs) option" where
  "open_file_relative v junk fresh dir path flags =
     (case dir of None \<Rightarrow> Some (None, v)
      | Some d \<Rightarrow> do {
          let i = fd_partition d;
          (nd, p) \<leftarrow> fat32_open_file (volume_at v i) junk fresh (Some (fd_node d)) path flags;
          Some (map_option (file_fd i) nd, put_volume v i p)
        })"

definition make_file :: "('h, 'c) vfs \<Rightarrow> byte list \<Rightarrow> u32 \<Rightarrow> int option" where
  "make_file v path flags = do {
     r \<leftarrow> split_path v path;
     Some (case r of Inl NO_PARTITION \<Rightarrow> -1 | Inl NO_ROOT \<Rightarrow> -2
           | Inr (i, path) \<Rightarrow> fat32_create_file (volume_at v i) None path flags)
   }"

definition make_file_relative :: "('h, 'c) vfs \<Rightarrow> VFS_FD option \<Rightarrow> byte list \<Rightarrow> u32 \<Rightarrow> int" where
  "make_file_relative v dir path flags =
     (case dir of None \<Rightarrow> -1
      | Some d \<Rightarrow> fat32_create_file (volume_at v (fd_partition d)) (Some (fd_node d)) path flags)"

definition rmv_file :: "('h, 'c) vfs \<Rightarrow> byte list \<Rightarrow> byte list \<Rightarrow> (int \<times> ('h, 'c) vfs) option" where
  "rmv_file v junk path = do {
     r \<leftarrow> split_path v path;
     case r of Inl NO_PARTITION \<Rightarrow> Some (-1, v) | Inl NO_ROOT \<Rightarrow> Some (-2, v)
     | Inr (i, path) \<Rightarrow> do {
         (e, p) \<leftarrow> fat32_remove_file (volume_at v i) junk None path;
         Some (e, put_volume v i p)
       }
   }"

definition rmv_file_relative :: "('h, 'c) vfs \<Rightarrow> byte list \<Rightarrow> VFS_FD option \<Rightarrow> byte list \<Rightarrow> (int \<times> ('h, 'c) vfs) option" where
  "rmv_file_relative v junk dir path =
     (case dir of None \<Rightarrow> Some (-1, v)
      | Some d \<Rightarrow> do {
          (e, p) \<leftarrow> fat32_remove_file (volume_at v (fd_partition d)) junk (Some (fd_node d)) path;
          Some (e, put_volume v (fd_partition d) p)
        })"

text \<open>Node operations: the result of the C function, and the node and the table as they are left.\<close>

definition write_file :: "('h, 'c) vfs \<Rightarrow> VFS_FD option \<Rightarrow> byte list \<Rightarrow> u32 \<Rightarrow> (i32 \<times> VFS_FD option \<times> ('h, 'c) vfs) option" where
  "write_file v fd buf sz =
     (case fd of None \<Rightarrow> Some (-1, fd, v)
      | Some f \<Rightarrow> if \<not> fd_write f then Some (-2, fd, v)
        else do {
          (r, nd, p) \<leftarrow> fat32_write_file (volume_at v (fd_partition f)) (fd_node f) buf sz;
          Some (r, Some (f\<lparr>fd_node := nd\<rparr>), put_volume v (fd_partition f) p)
        })"

definition read_file :: "('h, 'c) vfs \<Rightarrow> VFS_FD option \<Rightarrow> byte list \<Rightarrow> u32
   \<Rightarrow> (i32 \<times> byte list \<times> VFS_FD option \<times> ('h, 'c) vfs) option" where
  "read_file v fd buf sz =
     (case fd of None \<Rightarrow> Some (-1, buf, fd, v)
      | Some f \<Rightarrow> if \<not> fd_read f then Some (-2, buf, fd, v)
        else do {
          (r, buf, nd, p) \<leftarrow> fat32_read_file (volume_at v (fd_partition f)) (fd_node f) buf sz;
          Some (r, buf, Some (f\<lparr>fd_node := nd\<rparr>), put_volume v (fd_partition f) p)
        })"

definition lseek :: "VFS_FD option \<Rightarrow> i32 \<Rightarrow> SEEK \<Rightarrow> i32 \<times> VFS_FD option" where
  "lseek fd off whence =
     (case fd of None \<Rightarrow> (-1, fd)
      | Some f \<Rightarrow> if \<not> fd_lseek f then (-4, fd)
        else case fat32_lseek (Some (fd_node f)) off whence of
          (r, Some nd) \<Rightarrow> (r, Some (f\<lparr>fd_node := nd\<rparr>))
        | (r, None) \<Rightarrow> (r, fd))"

definition open_dir :: "('h, 'c) vfs \<Rightarrow> byte list \<Rightarrow> FAT32_NODE_INFO VFS_NODE \<Rightarrow> byte list \<Rightarrow> (VFS_FD option \<times> ('h, 'c) vfs) option" where
  "open_dir v junk fresh path = do {
     r \<leftarrow> split_path v path;
     case r of Inl _ \<Rightarrow> Some (None, v)
     | Inr (i, path) \<Rightarrow> do {
         (nd, p) \<leftarrow> fat32_open_dir (volume_at v i) junk fresh None path;
         Some (map_option (dir_fd i) nd, put_volume v i p)
       }
   }"

definition open_dir_relative :: "('h, 'c) vfs \<Rightarrow> byte list \<Rightarrow> FAT32_NODE_INFO VFS_NODE \<Rightarrow> VFS_FD option \<Rightarrow> byte list
   \<Rightarrow> (VFS_FD option \<times> ('h, 'c) vfs) option" where
  "open_dir_relative v junk fresh dir path =
     (case dir of None \<Rightarrow> Some (None, v)
      | Some d \<Rightarrow> do {
          let i = fd_partition d;
          (nd, p) \<leftarrow> fat32_open_dir (volume_at v i) junk fresh (Some (fd_node d)) path;
          Some (map_option (dir_fd i) nd, put_volume v i p)
        })"

definition make_dir :: "('h, 'c) vfs \<Rightarrow> byte list \<Rightarrow> byte list \<Rightarrow> (int \<times> ('h, 'c) vfs) option" where
  "make_dir v junk path = do {
     r \<leftarrow> split_path v path;
     case r of Inl NO_PARTITION \<Rightarrow> Some (-1, v) | Inl NO_ROOT \<Rightarrow> Some (-2, v)
     | Inr (i, path) \<Rightarrow> do {
         (e, p) \<leftarrow> fat32_make_dir (volume_at v i) junk None path;
         Some (e, put_volume v i p)
       }
   }"

definition make_dir_relative :: "('h, 'c) vfs \<Rightarrow> byte list \<Rightarrow> VFS_FD option \<Rightarrow> byte list \<Rightarrow> (int \<times> ('h, 'c) vfs) option" where
  "make_dir_relative v junk dir path =
     (case dir of None \<Rightarrow> Some (-1, v)
      | Some d \<Rightarrow> do {
          (e, p) \<leftarrow> fat32_make_dir (volume_at v (fd_partition d)) junk (Some (fd_node d)) path;
          Some (e, put_volume v (fd_partition d) p)
        })"

definition rmv_dir :: "('h, 'c) vfs \<Rightarrow> byte list \<Rightarrow> int option" where
  "rmv_dir v path = do {
     r \<leftarrow> split_path v path;
     Some (case r of Inl NO_PARTITION \<Rightarrow> -1 | Inl NO_ROOT \<Rightarrow> -2
           | Inr (i, path) \<Rightarrow> fat32_remove_dir (volume_at v i) None path)
   }"

definition rmv_dir_relative :: "('h, 'c) vfs \<Rightarrow> VFS_FD option \<Rightarrow> byte list \<Rightarrow> int" where
  "rmv_dir_relative v dir path =
     (case dir of None \<Rightarrow> -1 | Some d \<Rightarrow> fat32_remove_dir (volume_at v (fd_partition d)) (Some (fd_node d)) path)"

text \<open>There is no check that the node is a directory: for a file the call is through a null pointer.\<close>

definition list_dir :: "('h, 'c) vfs \<Rightarrow> byte list \<Rightarrow> VFS_FD option \<Rightarrow> u32 \<Rightarrow> (i32 \<times> DIR_ENTRY list \<times> ('h, 'c) vfs) option" where
  "list_dir v junk fd sz =
     (case fd of None \<Rightarrow> Some (-1, [], v)
      | Some f \<Rightarrow> if \<not> fd_list f then None
        else do {
          (r, out, p) \<leftarrow> fat32_list_dir (volume_at v (fd_partition f)) junk (fd_node f) sz;
          Some (r, out, put_volume v (fd_partition f) p)
        })"

end
