(* ===== verification/Fat32_Dir_Theorems.thy ===== *)
theory Fat32_Dir_Theorems
  imports Fat32_Path Demo_Volume
begin

text \<open>
  The theorems about names, directories and paths of the FAT32 driver, with the volume of
  \<^verbatim>\<open>Demo_Volume\<close> as witness.
\<close>

subsection \<open>The directory of the example volume\<close>

lemma demo_entry_at:
  "entry_at demo_dir 0 = demo_entry"
  "1 \<le> i \<Longrightarrow> i < 16 \<Longrightarrow> entry_at demo_dir i = zero_node"
proof -
  note l = length_bytes_of_node [OF demo_entry_wf]
  show "entry_at demo_dir 0 = demo_entry"
    using l node_of_bytes_of_node [OF demo_entry_wf] by (simp add: demo_dir_def entry_at_def bytes_at_def)
  assume "1 \<le> i" "i < 16"
  then have "bytes_at demo_dir (32 * i) 32 = replicate 32 0"
    using l by (simp add: demo_dir_def bytes_at_def)
  moreover have "wf_node zero_node" by (simp add: wf_node_def zero_node_def)
  moreover have "bytes_of_node zero_node = replicate 32 0"
    by (simp add: bytes_of_node_def zero_node_def bytes16_def bytes32_def numeral_eq_Suc)
  ultimately show "entry_at demo_dir i = zero_node"
    unfolding entry_at_def using node_of_bytes_of_node [of zero_node] by simp
qed

lemma concat_replicate_block:
  "length xs = m \<Longrightarrow> i < k \<Longrightarrow> take m (drop (m * i) (concat (replicate k xs))) = xs"
proof (induction k arbitrary: i)
  case (Suc k)
  then show ?case by (cases i) auto
qed simp

lemma demo_full_entry_at: "i < 16 \<Longrightarrow> entry_at demo_full_dir i = demo_entry"
  using concat_replicate_block [OF length_bytes_of_node [OF demo_entry_wf], of i 16]
    node_of_bytes_of_node [OF demo_entry_wf]
  by (simp add: demo_full_dir_def entry_at_def bytes_at_def)

lemma demo_full_slots: "dir_slots (abs_vol (demo_vol_with demo_full_dir)) [2] = map (\<lambda>i. (2, i, demo_entry)) [0..<16]"
  by (simp add: sector_slots_def demo_data demo_full_entry_at del: upt_rec_numeral)

lemma demo_slots:
  "dir_slots (abs_vol demo_vol) [2] = (2, 0, demo_entry) # map (\<lambda>i. (2, i, zero_node)) [1..<16]"
proof -
  have "[0..<16] = 0 # [1..<16::nat]" by (simp add: upt_conv_Cons)
  then show ?thesis
    by (simp add: sector_slots_def demo_data demo_entry_at(1) demo_entry_at(2) del: upt_rec_numeral)
qed

lemma demo_dir_chain: "dir_chain (demo_vol_with d) None [2]"
proof -
  have "root_sector (partition_data (demo_vol_with d)) = 2" by (simp add: demo_vol_with_def)
  then show ?thesis
    using demo_valid [of d] by (simp add: dir_chain_def get_cluster_from_node_def file_chain_Cons file_chain_Nil
        demo_links EOC_def)
qed

lemma demo_live: "live (dir_slots (abs_vol demo_vol) [2]) = [(2, 0, demo_entry)]"
proof -
  have "[1..<16] = 1 # [2..<16::nat]" by (simp add: upt_conv_Cons)
  then show ?thesis
    unfolding demo_slots by (simp add: zero_node_def demo_entry_def bytes_of_def del: upt_rec_numeral)
qed

lemma demo_end: "find slot_end (dir_slots (abs_vol demo_vol) [2]) = Some (2, 1, zero_node)"
proof -
  have "[1..<16] = 1 # [2..<16::nat]" by (simp add: upt_conv_Cons)
  then show ?thesis
    unfolding demo_slots by (simp add: zero_node_def demo_entry_def bytes_of_def del: upt_rec_numeral)
qed

lemma demo_name: "make_8point3_name (bytes_of ''kernel.txt'') = Some (bytes_of ''KERNEL  TXT'')"
  by code_simp

lemma demo_name2: "make_8point3_name (bytes_of ''new'') = Some (bytes_of ''NEW        '')"
  by code_simp

lemma demo_name83:
  "name83 (bytes_of ''kernel.txt'') = filename demo_entry" "name83 (bytes_of ''new'') = bytes_of ''NEW        ''"
proof -
  have "bytes_of ''kernel.txt'' \<noteq> []" "bytes_of ''new'' \<noteq> []" by (simp_all add: bytes_of_def)
  then show "name83 (bytes_of ''kernel.txt'') = filename demo_entry" "name83 (bytes_of ''new'') = bytes_of ''NEW        ''"
    using make_8point3_name_correct [of "bytes_of ''kernel.txt''"] make_8point3_name_correct [of "bytes_of ''new''"]
      demo_name demo_name2 by (auto simp: demo_entry_def)
qed

lemma demo_find:
  "dir_find (name83 (bytes_of ''kernel.txt'')) (dir_slots (abs_vol demo_vol) [2]) = Some (2, 0, demo_entry)"
  "dir_find (name83 (bytes_of ''new'')) (dir_slots (abs_vol demo_vol) [2]) = None"
  unfolding demo_name83 dir_find_def demo_live by (simp_all add: demo_entry_def bytes_of_def)

lemma demo_names [simp]: "bytes_of ''kernel.txt'' \<noteq> []" "bytes_of ''new'' \<noteq> []"
  "bytes_of ''NEW        '' ! 0 \<noteq> 0" "bytes_of ''NEW        '' ! 0 \<noteq> 0xE5"
  by (simp_all add: bytes_of_def)

subsection \<open>Names\<close>

text \<open>C10. The 8.3 name of a file name is its part before the last dot that a letter or digit
  follows, cut or padded with blanks to eight bytes, and the part behind that dot to three,
  both in upper case.\<close>

theorem make_8point3_name_spec:
  assumes "fname \<noteq> []"
  shows "make_8point3_name fname
     = Some (pad 8 (take (last_dot fname) fname) @ pad 3 (drop (last_dot fname + 1) fname))"
  using make_8point3_name_correct [OF assms] by (simp add: name83_def)

lemma make_8point3_name_spec_witness:
  "(let x = bytes_of ''kernel.txt'' in
     pad 8 (take (last_dot x) x) @ pad 3 (drop (last_dot x + 1) x)) = bytes_of ''KERNEL  TXT''"
  using make_8point3_name_spec [OF demo_names(1)] demo_name by (simp add: Let_def)

subsection \<open>Lookup\<close>

text \<open>C11. Looking a name up in a directory finds the first entry before the end mark that is
  not deleted and has the 8.3 form of the name, wherever in the directory's chain it is,
  and changes nothing the volume means.\<close>

theorem find_node_refines_lookup:
  assumes "vol_ok n p" "dir_chain p dir cs" "length junk = 512" "fname \<noteq> []"
  shows "\<exists>q. find_node_in_directory p junk fname dir False
       = Some (case dir_find (name83 fname) (dir_slots (abs_vol p) cs) of
           Some s \<Rightarrow> info_of_slot (get_cluster_from_node (partition_data p) dir) s | None \<Rightarrow> no_info, q)
     \<and> vol_ok n q \<and> geom q = geom p \<and> abs_vol q = abs_vol p"
  using find_node_lookup [OF assms] unfolding evolves_in_def by blast

lemma find_node_refines_lookup_witness:
  "\<exists>q ni. find_node_in_directory demo_vol (replicate 512 0) (bytes_of ''kernel.txt'') None False = Some (ni, q)
     \<and> node ni = demo_entry"
  using find_node_refines_lookup [OF demo_vol_ok [OF length_demo_dir(1)] demo_dir_chain, of "replicate 512 0" "bytes_of ''kernel.txt''"]
  by (auto simp: demo_find slot_info_def simp del: dir_slots_Cons)

text \<open>C12. Creating a name that a directory with an end mark does not have: the search offers a
  slot of the directory, \<^verbatim>\<open>initialize_node\<close> fills it with an empty file or directory of one
  cleared cluster, after that the name is found there, and every other name that was found
  is still found at its place.\<close>

theorem create_then_lookup:
  assumes "vol_ok n p" "dir_chain p dir cs" "length junk = 512" "length junk2 = 512" "fname \<noteq> []"
    and "find slot_end (dir_slots (abs_vol p) cs) \<noteq> None"
    and "dir_find (name83 fname) (dir_slots (abs_vol p) cs) = None"
    and "name83 fname ! 0 \<noteq> 0" "name83 fname ! 0 \<noteq> 0xE5" "\<not> full p"
  shows "\<exists>ni nn q1 q2 q3 c. find_node_in_directory p junk fname dir True = Some (ni, q1)
     \<and> initialize_node q1 ni fname flags = Some (True, nn, q2)
     \<and> find_node_in_directory q2 junk2 fname dir False = Some (nn, q3)
     \<and> vol_ok n q3 \<and> file_chain q3 (node_start (node nn)) [c] \<and> node_size (node nn) = 0
     \<and> (\<forall>m t. m \<noteq> name83 fname \<and> dir_find m (dir_slots (abs_vol p) cs) = Some t \<longrightarrow>
          dir_find m (dir_slots (abs_vol q3) cs) = Some t)"
proof -
  let ?start = "get_cluster_from_node (partition_data p) dir"
  define ni where "ni = creation_slot (abs_vol p) ?start cs"
  obtain i where f: "free_cluster (abs_vol p) (fat_entries p) = Some i"
    using assms(10) by (auto simp: full_def)
  obtain q1 where q1: "find_node_in_directory p junk fname dir True = Some (ni, q1)" "evolves n p q1"
    "abs_vol q1 = abs_vol p"
    using find_node_create [OF assms(1-3,5,6)] assms(7) by (auto simp: ni_def)
  have ch: "file_chain p ?start cs" using assms(2) by (simp add: dir_chain_def)
  have len: "x \<noteq> 0 \<and> length (a_data (abs_vol p) (unat x)) = 512" if "x \<in> set cs" for x
    using length_cluster [OF assms(1) file_chain_subset [OF ch that]]
      valid_clusterD(1) [OF file_chain_subset [OF ch that]] by simp
  note D = creation_slotD [OF assms(6) len ni_def]
  have "descriptor_ok p ni"
    using D(1-3) file_chain_subset [OF ch] by (simp add: descriptor_ok_def)
  then have d: "descriptor_ok q1 ni" using descriptor_ok_evolves [OF q1(2)] by simp
  have f1: "free_cluster (abs_vol q1) (fat_entries q1) = Some i"
    using f q1(3) evolves_geom [OF q1(2)] by simp
  define nn where "nn = new_node ni fname flags (of_nat i)"
  obtain q2 where q2: "initialize_node q1 ni fname flags = Some (True, nn, q2)" "evolves n q1 q2"
    "abs_vol q2 = put_descriptor nn (link_cluster (abs_vol p) 0 i)"
    using initialize_node_ok [OF evolves_vol_ok [OF q1(2)] D(4) d f1 assms(5)] q1(3) by (auto simp: nn_def)
  have e2: "evolves n p q2" using evolves_trans [OF q1(2) q2(2)] .
  note cd = created_directory [OF assms(1,2,6,7,8,9) f ni_def nn_def e2 q2(3)]
  have start2: "get_cluster_from_node (partition_data q2) dir = ?start"
    using evolves_geom(4) [OF e2] by (cases dir) (simp_all add: get_cluster_from_node_def)
  have "info_of_slot ?start (descriptor_cluster nn, unat (descriptor_offset nn), node nn) = nn"
    using D(2,5) by (simp add: nn_def slot_info_def)
  then obtain q3 where q3: "evolves n q2 q3" "abs_vol q3 = abs_vol q2"
    "find_node_in_directory q2 junk2 fname dir False = Some (nn, q3)"
    using find_node_lookup [OF evolves_vol_ok [OF e2] cd(1) assms(4,5)] unfolding cd(3) start2 by auto
  have "file_chain q3 (node_start (node nn)) [of_nat i]"
    using cd(2) file_chain_cong [OF q3(1)] q3(2) by simp
  moreover have "node_size (node nn) = 0" by (simp add: nn_def)
  ultimately show ?thesis
    using q1(1) q2(1) q3 evolves_vol_ok [OF q3(1)] cd(4)
    by (intro exI [of _ ni] exI [of _ nn] exI [of _ q1] exI [of _ q2] exI [of _ q3] exI [of _ "of_nat i"]) simp
qed

lemma create_then_lookup_witness:
  "\<exists>ni nn q1 q2 q3. find_node_in_directory demo_vol (replicate 512 0) (bytes_of ''new'') None True = Some (ni, q1)
     \<and> initialize_node q1 ni (bytes_of ''new'') 0 = Some (True, nn, q2)
     \<and> find_node_in_directory q2 (replicate 512 1) (bytes_of ''new'') None False = Some (nn, q3)"
proof -
  have nf: "\<not> full demo_vol" by (simp add: full_def demo_free)
  have "find slot_end (dir_slots (abs_vol demo_vol) [2]) \<noteq> None" by (simp only: demo_end) simp
  from create_then_lookup [OF demo_vol_ok [OF length_demo_dir(1)] demo_dir_chain, of "replicate 512 0" "replicate 512 1",
      OF _ _ demo_names(2) this demo_find(2) _ _ nf, of 0]
  show ?thesis unfolding demo_name83 by (simp only: demo_names length_replicate) blast
qed

text \<open>C13. A directory without an end mark and without a deleted entry in it is not extended: the
  search passes the mark that ends its chain to \<^verbatim>\<open>allocate_cluster\<close> where the last cluster
  is meant, so the new cluster is linked from a table entry outside of the table and the
  descriptor is put where no lookup finds it.\<close>

theorem full_directory_not_extended:
  assumes "vol_ok n p" "dir_chain p dir cs" "length junk = 512" "fname \<noteq> []"
    and "find slot_end (dir_slots (abs_vol p) cs) = None"
    and "find slot_deleted (dir_slots (abs_vol p) cs) = None"
    and "dir_find (name83 fname) (dir_slots (abs_vol p) cs) = None"
  shows "\<exists>q mark buf. EOC \<le> mark \<and> fat_entries p \<le> unat mark \<and> abs_vol q = abs_vol p
     \<and> find_node_in_directory p junk fname dir True = do {
         (cluster, q) \<leftarrow> allocate_cluster q mark;
         if cluster = 0 then Some (no_info, q)
         else Some (created_slot buf cluster 0 (get_cluster_from_node (partition_data p) dir), q)
       }"
proof -
  let ?v = "abs_vol p" and ?start = "get_cluster_from_node (partition_data p) dir"
  let ?mark = "a_fat ?v (unat (last cs))"
  have ch: "file_chain p ?start cs" "cs \<noteq> []" using assms(2) by (auto simp: dir_chain_def)
  then have mark: "EOC \<le> ?mark" using chain_last by (auto simp: file_chain_def)
  have keep: "last_deleted ?start ss fc = fc" if "find slot_deleted ss = None" for ss fc
    using that by (induction ss) (auto split: if_splits)
  obtain us where us: "cs = us @ [last cs]" using ch(2) append_butlast_last_id by metis
  have "dir_slots ?v cs = dir_slots ?v us @ sector_slots (last cs) (a_data ?v (unat (last cs))) [0..<16]"
    by (subst us) (simp add: dir_slots_def)
  then have "find slot_deleted (sector_slots (last cs) (a_data ?v (unat (last cs))) [0..<16]) = None"
    using assms(6) by (simp add: find_append split: option.splits)
  then have "find slot_deleted (sector_slots ?mark (a_data ?v (unat (last cs))) is) = None"
    if "is = [0..<16]" for "is"
    unfolding that [symmetric] by (induction "is") (auto simp: sector_slots_def split: if_splits)
  then have r: "search_result ?v (name83 fname) ?start cs no_info = Inr (?mark, 16, no_info)"
    using assms(5-7) keep by (simp add: search_result_def Let_def)
  have "fat_entries p \<le> unat ?mark"
    using mark fat_entries_lt_EOC [of p] by (simp add: word_le_nat_alt)
  moreover have "descriptor_cluster no_info = 0" by (simp add: no_info_def)
  ultimately show ?thesis
    using find_node_search [OF assms(1-4), of True] mark by (auto simp: Let_def r)
qed

lemma full_directory_not_extended_witness:
  "\<exists>q mark buf. EOC \<le> mark
     \<and> find_node_in_directory (demo_vol_with demo_full_dir) (replicate 512 0) (bytes_of ''new'') None True = do {
         (cluster, q) \<leftarrow> allocate_cluster q mark;
         if cluster = 0 then Some (no_info, q) else Some (created_slot buf cluster 0 2, q)
       }"
proof -
  let ?ss = "dir_slots (abs_vol (demo_vol_with demo_full_dir)) [2]"
  have none: "find P ?ss = None" if "\<And>i. \<not> P (2, i, demo_entry)" for P
    unfolding demo_full_slots using that by (auto simp: find_None_iff)
  have e: "find slot_end ?ss = None" "find slot_deleted ?ss = None"
    by (rule none; simp add: demo_entry_def bytes_of_def)+
  have "live ?ss = ?ss" by (rule live_all [OF e(1)])
  then have f: "dir_find (name83 (bytes_of ''new'')) ?ss = None"
    unfolding dir_find_def demo_name83 by (simp only:) (rule none; simp add: demo_entry_def bytes_of_def)
  have start: "get_cluster_from_node (partition_data (demo_vol_with demo_full_dir)) None = 2"
    by (simp add: get_cluster_from_node_def demo_vol_with_def)
  show ?thesis
    using full_directory_not_extended [OF demo_vol_ok [OF length_demo_dir(2)] demo_dir_chain
        length_replicate demo_names(2) e f]
    unfolding start by blast
qed

subsection \<open>Paths\<close>

text \<open>C14. A path without the creation flag resolves to the node that its names lead to from
  the root, or from the given directory for a path that does not start with a slash, and
  the volume keeps its meaning.\<close>

theorem resolve_path_correct:
  assumes "path_to p (dir_of_info (path_start path fat32_node)) (path_tokens (path_rest path)) ni"
    and "vol_ok n p" "length junk = 512" "0 \<notin> set path" "flags AND O_CREAT = 0"
  shows "\<exists>q. resolve_path p junk path fat32_node flags = Some (Some ni, q)
     \<and> vol_ok n q \<and> geom q = geom p \<and> abs_vol q = abs_vol p"
  using resolve_path_to [OF assms] unfolding evolves_in_def by blast

definition demo_path :: "byte list" where
  "demo_path = bytes_of ''/kernel.txt''"

lemma demo_path_parts:
  "0 \<notin> set demo_path" "path_tokens (path_rest demo_path) = [bytes_of ''kernel.txt'']"
  "dir_of_info (path_start demo_path x) = None"
proof -
  show "0 \<notin> set demo_path" by (simp add: demo_path_def bytes_of_def)
  have "path_rest demo_path = bytes_of ''kernel.txt''"
    by (simp add: path_rest_def demo_path_def bytes_of_def slash_def ch_def)
  moreover have "slash \<notin> set (bytes_of ''kernel.txt'')" by (simp add: bytes_of_def slash_def ch_def)
  ultimately show "path_tokens (path_rest demo_path) = [bytes_of ''kernel.txt'']"
    by (simp add: path_tokens_single)
  show "dir_of_info (path_start demo_path x) = None"
    by (simp add: path_start_def demo_path_def bytes_of_def slash_def ch_def dir_of_info_def no_info_def)
qed

lemma demo_path_to: "path_to demo_vol None [bytes_of ''kernel.txt''] (node_data demo_file)"
proof -
  have "get_cluster_from_node (partition_data demo_vol) None = 2"
    by (simp add: get_cluster_from_node_def demo_vol_with_def)
  then show ?thesis
    using path_here [OF demo_dir_chain demo_names(1) demo_find(1)]
    by (simp add: demo_file_def slot_info_def)
qed

lemma resolve_path_correct_witness:
  "\<exists>q. resolve_path demo_vol (replicate 512 0) demo_path None 0 = Some (Some (node_data demo_file), q)"
proof -
  have p: "path_to demo_vol (dir_of_info (path_start demo_path None)) (path_tokens (path_rest demo_path)) (node_data demo_file)"
    unfolding demo_path_parts by (rule demo_path_to)
  show ?thesis
    using resolve_path_correct [OF p demo_vol_ok [OF length_demo_dir(1)] length_replicate demo_path_parts(1), of 0]
    by auto
qed

text \<open>The root directory cannot be opened: the path of one slash resolves to nothing, on
  every volume.\<close>

theorem open_root_fails:
  "fat32_open_dir p junk fresh dir [slash] = Some (None, p)"
proof -
  have "resolve_path p junk [slash] x 0 = Some (None, p)" for x
    by (simp add: resolve_path_walk path_rest_def path_start_def no_info_def)
  then show ?thesis by (simp add: fat32_open_dir_def)
qed

text \<open>The file name taken from a path is what follows its last slash; of a path without a
  slash it is all but the first character.\<close>

theorem get_filename_from_path_spec:
  assumes "0 \<notin> set dirs" "0 \<notin> set name" "slash \<notin> set name"
  shows "get_filename_from_path (dirs @ slash # name) = Some name
    \<and> (name \<noteq> [] \<longrightarrow> get_filename_from_path name = Some (tl name))"
  using filename_after_slash [OF assms(2,3)] filename_without_slash [OF assms(2,3)] by auto

lemma get_filename_from_path_spec_witness:
  "get_filename_from_path (bytes_of ''a'' @ slash # bytes_of ''b'') = Some (bytes_of ''b'')
   \<and> get_filename_from_path (bytes_of ''b'') = Some []"
  using get_filename_from_path_spec [of "bytes_of ''a''" "bytes_of ''b''"]
  by (simp add: bytes_of_def slash_def ch_def)

subsection \<open>Creating and removing files\<close>

lemma path_to_descriptor: "path_to p dir ts ni \<Longrightarrow> vol_ok n p \<Longrightarrow> descriptor_ok p ni"
proof (induction rule: path_to.induct)
  case (path_here dir cs t s)
  have ch: "file_chain p (get_cluster_from_node (partition_data p) dir) cs"
    using path_here.hyps(1) by (simp add: dir_chain_def)
  have "s \<in> set (dir_slots (abs_vol p) cs)" by (rule dir_find_memD [OF path_here.hyps(3)])
  then obtain c i where s: "c \<in> set cs" "i < 16" "s = (c, i, entry_at (a_data (abs_vol p) (unat c)) i)"
    by (auto simp: dir_slots_def sector_slots_def)
  have c: "valid_cluster p c" by (rule file_chain_subset [OF ch s(1)])
  have "wf_node (entry_at (a_data (abs_vol p) (unat c)) i)"
    using length_cluster [OF path_here.prems c] s(2) by (simp add: wf_entry_at)
  then show ?case using c s(2,3) by (simp add: descriptor_ok_def slot_info_def unat_of_nat_u32)
qed

text \<open>C15. Removing a file by its path marks its directory entry as deleted, frees exactly the
  clusters of its chain, flushes the table, and changes neither another entry of that directory
  cluster nor any other cluster.\<close>

theorem remove_file_correct:
  assumes "path_to p (dir_of_info (path_start path (vfs_node_get_data dir))) (path_tokens (path_rest path)) ni"
    and "vol_ok n p" "length junk = 512" "0 \<notin> set path" "\<not> is_dir (node ni)"
    and "file_chain p (node_start (node ni)) fs"
  shows "\<exists>q. fat32_remove_file p junk dir path = Some (0, q) \<and> vol_ok n q \<and> geom q = geom p
     \<and> (\<forall>s. \<not> dirty q s)
     \<and> (\<forall>x. a_fat (abs_vol q) x = (if x \<in> unat ` set fs then 0 else a_fat (abs_vol p) x))
     \<and> entry_at (a_data (abs_vol q) (unat (descriptor_cluster ni))) (unat (descriptor_offset ni))
         = (node ni)\<lparr>filename := (filename (node ni))[0 := 0xE5]\<rparr>
     \<and> (\<forall>i<16. i \<noteq> unat (descriptor_offset ni) \<longrightarrow> entry_at (a_data (abs_vol q) (unat (descriptor_cluster ni))) i
            = entry_at (a_data (abs_vol p) (unat (descriptor_cluster ni))) i)
     \<and> (\<forall>x. x \<noteq> unat (descriptor_cluster ni) \<longrightarrow> a_data (abs_vol q) x = a_data (abs_vol p) x)"
proof -
  have "(0::u32) AND O_CREAT = 0" by simp
  then obtain p1 where p1: "resolve_path p junk path (vfs_node_get_data dir) 0 = Some (Some ni, p1)"
    "evolves n p p1" "abs_vol p1 = abs_vol p"
    using resolve_path_to [OF assms(1-4)] by blast
  let ?ni = "ni\<lparr>node := (node ni)\<lparr>filename := (filename (node ni))[0 := 0xE5]\<rparr>\<rparr>"
  have d: "descriptor_ok p1 ?ni"
    using path_to_descriptor [OF assms(1,2)] descriptor_ok_evolves [OF p1(2), of ni]
    by (auto simp: descriptor_ok_def wf_node_def)
  obtain p2 where p2: "save_descriptor p1 ?ni = Some (E_DEVICE_OK, p2)" "evolves n p1 p2"
    "abs_vol p2 = put_descriptor ?ni (abs_vol p1)"
    using save_descriptor_ok [OF evolves_vol_ok [OF p1(2)] d] by blast
  have e2: "evolves n p p2" using evolves_trans [OF p1(2) p2(2)] .
  have fs: "file_chain p2 (node_start (node ni)) fs"
    using file_chain_cong [OF e2, of fs] assms(6) by (simp add: p2(3) p1(3) put_descriptor_def)
  obtain p3 where p3: "delete_loop p2 (node_start (node ni)) = Some p3" "evolves n p2 p3"
    "abs_vol p3 = free_clusters (unat ` set fs) (abs_vol p2)"
    using delete_loop_ok [OF evolves_vol_ok [OF e2] fs] by blast
  obtain q where q: "save_current_fat p3 = Some (E_DEVICE_OK, q)" "evolves n p3 q" "abs_vol q = abs_vol p3"
    "\<forall>s. \<not> dirty q s"
    using save_current_fat_ok [OF evolves_vol_ok [OF p3(2)]] by blast
  have start: "node_start ((node ni)\<lparr>filename := x\<rparr>) = node_start (node ni)" for x
    by (simp add: node_start_def)
  have "fat32_remove_file p junk dir path = Some (0, q)"
    using p1(1) assms(5) p2(1) p3(1) q(1)
    by (simp add: fat32_remove_file_def delete_fat_chain_def start Let_def)
  moreover have "evolves n p q" using evolves_trans [OF evolves_trans [OF e2 p3(2)] q(2)] .
  moreover have "a_fat (abs_vol q) x = (if x \<in> unat ` set fs then 0 else a_fat (abs_vol p) x)" for x
    by (simp add: q(3) p3(3) p2(3) p1(3) free_clusters_def put_descriptor_def)
  moreover have "entry_at (a_data (abs_vol q) (unat (descriptor_cluster ni))) (unat (descriptor_offset ni)) = node ?ni"
    and "\<forall>i<16. i \<noteq> unat (descriptor_offset ni) \<longrightarrow> entry_at (a_data (abs_vol q) (unat (descriptor_cluster ni))) i
      = entry_at (a_data (abs_vol p) (unat (descriptor_cluster ni))) i"
  proof -
    have len: "length (a_data (abs_vol p) (unat (descriptor_cluster ni))) = 512"
      using path_to_descriptor [OF assms(1,2)] length_cluster [OF assms(2)] by (simp add: descriptor_ok_def)
    then show "\<forall>i<16. i \<noteq> unat (descriptor_offset ni) \<longrightarrow> entry_at (a_data (abs_vol q) (unat (descriptor_cluster ni))) i
        = entry_at (a_data (abs_vol p) (unat (descriptor_cluster ni))) i"
      using d by (auto simp: q(3) p3(3) p2(3) p1(3) free_clusters_def put_descriptor_def entry_at_patch_other descriptor_ok_def)
    show "entry_at (a_data (abs_vol q) (unat (descriptor_cluster ni))) (unat (descriptor_offset ni)) = node ?ni"
      using d len by (simp add: q(3) p3(3) p2(3) p1(3) free_clusters_def put_descriptor_def entry_at_patch_same
          descriptor_ok_def)
  qed
  moreover have "a_data (abs_vol q) x = a_data (abs_vol p) x" if "x \<noteq> unat (descriptor_cluster ni)" for x
    using that by (simp add: q(3) p3(3) p2(3) p1(3) free_clusters_def put_descriptor_def)
  ultimately show ?thesis using q(4) unfolding evolves_in_def by (intro exI [of _ q]) simp
qed

lemma remove_file_correct_witness:
  "\<exists>q. fat32_remove_file demo_vol (replicate 512 0) None demo_path = Some (0, q)
     \<and> a_fat (abs_vol q) 3 = 0 \<and> a_fat (abs_vol q) 2 = 0xFFFFFFF"
proof -
  have p: "path_to demo_vol (dir_of_info (path_start demo_path (vfs_node_get_data None)))
      (path_tokens (path_rest demo_path)) (node_data demo_file)"
    unfolding demo_path_parts by (rule demo_path_to)
  have nd: "\<not> is_dir (node (node_data demo_file))"
    by (simp add: demo_file_def demo_entry_def zero_node_def is_dir_def)
  have ch: "file_chain demo_vol (node_start (node (node_data demo_file))) [3]"
    unfolding demo_start by (rule demo_chain)
  show ?thesis
    using remove_file_correct [OF p demo_vol_ok [OF length_demo_dir(1)] length_replicate [of 512 0]
        demo_path_parts(1) nd ch]
    by (auto simp: demo_links)
qed

end
