(* ===== verification/Vfs_Theorems.thy ===== *)
theory Vfs_Theorems
  imports Vfs Fat32_Dir_Theorems
begin

text \<open>
  The theorems about mounting and the path front end: mounting a device with a formatted disk
  establishes the volume invariant, paths reach the partition with their letter, and a file
  opened by its path reads as its contents. They need the device to be readable only.
\<close>

subsection \<open>Tables\<close>

lemma device_at_put_device [simp]: "k < length (virtual_devices v) \<Longrightarrow> device_at (put_device v k dv) k = dv"
  by (cases dv) (simp add: device_at_def put_device_def)

lemma put_device_sel [simp]: "partitions (put_device v k dv) = partitions v"
  "length (virtual_devices (put_device v k dv)) = length (virtual_devices v)"
  by (simp_all add: put_device_def)

lemma put_device_twice [simp]: "put_device (put_device v k dv) k dv' = put_device v k dv'"
  by (simp add: put_device_def)

lemma put_volume_sel [simp]:
  "partitions (put_volume v i p) = (partitions v)[i := (partitions v ! i)\<lparr>part_data := partition_data p\<rparr>]"
  "length (virtual_devices (put_volume v i p)) = length (virtual_devices v)"
  by (simp_all add: put_volume_def)

lemma volume_at_put_volume:
  assumes "i < length (partitions v)" "part_device (partitions v ! i) < length (virtual_devices v)"
    and "letter p = letter (volume_at v i)"
  shows "volume_at (put_volume v i p) i = p"
  using assms by (cases p) (simp add: volume_at_def put_volume_def Let_def)

subsection \<open>Mounting\<close>

text \<open>
  A formatted disk: the sectors hold a boot record with valid signatures that describes two
  tables of the same contents, with one data sector for every table entry on the disk.
\<close>

definition fat32_disk :: "nat \<Rightarrow> (nat \<Rightarrow> byte list) \<Rightarrow> bool" where
  "fat32_disk n secs \<longleftrightarrow> n + 2 \<le> 2 ^ 32 \<and> 0 < n
     \<and> (let br = boot_record_of_bytes (secs 0);
             res = unat (bpb_reserved_sectors (bpb br));
             spf = unat (ebr_sectors_per_fat (ebr br)) in
         (signature (ebr br) = 0x28 \<or> signature (ebr br) = 0x29) \<and> boot_signature (ebr br) = 0xAA55
         \<and> fats (bpb br) = 2 \<and> 0 < spf \<and> spf < 2 ^ 16 \<and> unat (sector_of_FSInfo (ebr br)) < n
         \<and> res + 2 * spf + 128 * spf \<le> n + 2
         \<and> (\<forall>s < spf. secs (res + spf + s) = secs (res + s)))"

lemma fat32_disk_cong:
  assumes "fat32_disk n secs" "\<And>k. k < n \<Longrightarrow> secs' k = secs k"
  shows "fat32_disk n secs'"
proof -
  let ?br = "boot_record_of_bytes (secs 0)"
  define res fs where "res = unat (bpb_reserved_sectors (bpb ?br))" and "fs = unat (ebr_sectors_per_fat (ebr ?br))"
  have z: "secs' 0 = secs 0" using assms by (simp add: fat32_disk_def)
  have b: "res + 2 * fs + 128 * fs \<le> n + 2" using assms(1) by (simp add: fat32_disk_def Let_def res_def fs_def)
  have e: "secs' (res + fs + s) = secs (res + fs + s)" "secs' (res + s) = secs (res + s)" if "s < fs" for s
    using assms(2) b that by simp_all
  show ?thesis
    using assms(1) e unfolding fat32_disk_def z Let_def res_def [symmetric] fs_def [symmetric] by simp
qed

lemma unat_ucast_32_16: "unat (w::u32) < 2 ^ 16 \<Longrightarrow> unat (ucast w :: u16) = unat w"
  by (simp add: unsigned_ucast_eq take_bit_nat_eq_self)

lemma unat_double: "unat (w::u32) < 2 ^ 16 \<Longrightarrow> unat (2 * w) = 2 * unat w"
  by (simp add: unat_word_ariths)

lemma init_partition_fields:
  "sectors_per_fat (init_partition mem br) = ucast (ebr_sectors_per_fat (ebr br))"
  "fat_offset (init_partition mem br) = ucast (bpb_reserved_sectors (bpb br))"
  "data_offset (init_partition mem br)
     = ucast (bpb_reserved_sectors (bpb br)) + ucast (fats (bpb br)) * ucast (ucast (ebr_sectors_per_fat (ebr br)) :: u16)"
  "root_sector (init_partition mem br) = cluster_of_root (ebr br)"
  "buffer (init_partition mem br) = buffer mem" "\<not> buffer_loaded (init_partition mem br)"
  "\<not> buffer_changed (init_partition mem br)"
  by (simp_all add: init_partition_def Let_def)

lemma init_partition_vol_state:
  assumes "fat32_disk n secs" "length (buffer mem) = 128" "device_ok w n dv" "\<forall>k<n. sector dv k = secs k"
  shows "vol_state w n \<lparr>letter = l, partition_data = init_partition mem (boot_record_of_bytes (secs 0)), device = dv\<rparr>"
    (is "vol_state w n ?p")
proof -
  let ?br = "boot_record_of_bytes (secs 0)"
  let ?res = "unat (bpb_reserved_sectors (bpb ?br))" and ?spf = "unat (ebr_sectors_per_fat (ebr ?br))"
  have F: "n + 2 \<le> 2 ^ 32" "fats (bpb ?br) = 2" "0 < ?spf" "?spf < 2 ^ 16" "?res + 2 * ?spf + 128 * ?spf \<le> n + 2"
    "\<And>s. s < ?spf \<Longrightarrow> secs (?res + ?spf + s) = secs (?res + s)"
    using assms(1) by (auto simp: fat32_disk_def Let_def)
  have s: "spf ?p = ?spf"
    using unat_ucast_32_16 [OF F(4)] by (simp add: spf_def init_partition_fields)
  have st: "fat_start ?p = ?res" by (simp add: fat_start_def init_partition_fields)
  have sp: "unat (ucast (ucast (ebr_sectors_per_fat (ebr ?br)) :: u16) :: u32) = ?spf"
    using unat_ucast_32_16 [OF F(4)] by simp
  have m: "unat (2 * ucast (ucast (ebr_sectors_per_fat (ebr ?br)) :: u16) :: u32) = 2 * ?spf"
    using F(4) unat_double [of "ucast (ucast (ebr_sectors_per_fat (ebr ?br)) :: u16)"] unfolding sp by simp
  have d: "unat (data_offset (partition_data ?p)) = ?res + 2 * ?spf"
    using F(1,3,5) m by (simp add: init_partition_fields F(2) unat_add_u32)
  have "layout_ok n ?p"
    using F d by (simp add: layout_ok_def s st fat_entries_def)
  moreover have "\<not> cached ?p k" for k by (simp add: cached_def init_partition_fields)
  then have "cache_ok ?p" using assms(2) by (simp add: cache_ok_def init_partition_fields)
  moreover have "mirrored ?p"
    using F assms(4) by (simp add: mirrored_def s st)
  ultimately show ?thesis using assms(3) by (simp add: vol_state_def init_partition_fields)
qed

lemma read_through_ok:
  assumes "reads_sectors n I view rd" "I (device_data (device_at v k))" "read_m (device_at v k) = Some rd" "unat lba < n"
  shows "\<exists>d'. read_through v (Some k) (Some (replicate 512 0)) 1 lba
      = Some (E_DEVICE_OK, Some (view (device_data (device_at v k)) (unat lba)), put_device v k (device_at v k\<lparr>device_data := d'\<rparr>))
    \<and> I d' \<and> (\<forall>j<n. view d' j = view (device_data (device_at v k)) j)"
proof -
  obtain d' where "rd (device_data (device_at v k)) (replicate 512 0) 1 lba
      = Some (E_DEVICE_OK, view (device_data (device_at v k)) (unat lba), d')" "I d'"
    "\<forall>j<n. view d' j = view (device_data (device_at v k)) j"
    using reads_sectors_readE [OF assms(1,2,4), of "replicate 512 0"] by auto
  then show ?thesis
    using assms(3) by (intro exI [of _ d']) (simp add: read_through_def vfs_device_read_def)
qed

text \<open>Mounting reads two sectors of the device and appends the partition of the boot record.\<close>

lemma find_partition_ok:
  assumes st: "reads_sectors n I view rd" and I: "I (device_data (device_at v k))" and m: "read_m (device_at v k) = Some rd"
    and k: "k < length (virtual_devices v)" and f: "fat32_disk n (view (device_data (device_at v k)))"
    and l: "length (partitions v) < MAX_PARTITIONS"
  shows "\<exists>d'. fat32_find_partition v mem (Some k) = Some (E_PARTITION_OK,
        (put_device v k (device_at v k\<lparr>device_data := d'\<rparr>))\<lparr>partitions := partitions v
          @ [\<lparr>part_letter = ch CHR ''A'' + of_nat (length (partitions v)),
              part_data = init_partition mem (boot_record_of_bytes (view (device_data (device_at v k)) 0)), part_device = k\<rparr>]\<rparr>)
    \<and> I d' \<and> (\<forall>j<n. view d' j = view (device_data (device_at v k)) j)"
proof -
  let ?dv = "device_at v k"
  let ?br = "boot_record_of_bytes (view (device_data ?dv) 0)"
  have F: "unat (0 :: u32) < n" "unat (ucast (sector_of_FSInfo (ebr ?br)) :: u32) < n"
    "signature (ebr ?br) = 0x28 \<or> signature (ebr ?br) = 0x29" "boot_signature (ebr ?br) = 0xAA55"
    using f by (auto simp: fat32_disk_def Let_def)
  obtain d1 where d1: "read_through v (Some k) (Some (replicate 512 0)) 1 0
      = Some (E_DEVICE_OK, Some (view (device_data ?dv) 0), put_device v k (?dv\<lparr>device_data := d1\<rparr>))"
    "I d1" "\<forall>j<n. view d1 j = view (device_data ?dv) j"
    using read_through_ok [OF st I m F(1)] by auto
  let ?v1 = "put_device v k (?dv\<lparr>device_data := d1\<rparr>)"
  have "I (device_data (device_at ?v1 k))" "read_m (device_at ?v1 k) = Some rd" using d1(2) k m by simp_all
  from read_through_ok [OF st this F(2)] obtain x d2 where d2:
    "read_through ?v1 (Some k) (Some (replicate 512 0)) 1 (ucast (sector_of_FSInfo (ebr ?br)))
      = Some (E_DEVICE_OK, x, put_device v k (?dv\<lparr>device_data := d2\<rparr>))"
    "I d2" "\<forall>j<n. view d2 j = view d1 j"
    using k by auto
  have "fat32_find_partition v mem (Some k) = Some (E_PARTITION_OK,
      (put_device v k (?dv\<lparr>device_data := d2\<rparr>))\<lparr>partitions := partitions v
        @ [\<lparr>part_letter = ch CHR ''A'' + of_nat (length (partitions v)), part_data = init_partition mem ?br, part_device = k\<rparr>]\<rparr>)"
    using F(3,4) l d1(1) d2(1)
    by (auto simp: fat32_find_partition_def vfs_register_partition_def Let_def)
  then show ?thesis using d1(3) d2(2,3) by (intro exI [of _ d2]) simp
qed

text \<open>
  Mounting a formatted disk registers a partition under the next letter that satisfies the
  volume invariant, so everything proved of volumes holds of it; the disk keeps its contents.
\<close>

lemma mount_establishes_invariant:
  assumes d: "device_ok w n (device_at v k)" and k: "k < length (virtual_devices v)"
    and f: "fat32_disk n (sector (device_at v k))"
    and l: "length (buffer mem) = 128" "length (partitions v) < MAX_PARTITIONS"
  shows "\<exists>v'. fat32_find_partition v mem (Some k) = Some (E_PARTITION_OK, v')
     \<and> vol_state w n (volume_at v' (length (partitions v)))
     \<and> letter (volume_at v' (length (partitions v))) = ch CHR ''A'' + of_nat (length (partitions v))
     \<and> (\<forall>j<n. sector (device_at v' k) j = sector (device_at v k) j)"
proof -
  obtain I view rd where s: "reads_sectors n I view rd" "I (device_data (device_at v k))" "read_m (device_at v k) = Some rd"
    and w: "w \<Longrightarrow> \<exists>wr. write_m (device_at v k) = Some wr \<and> stores_sectors n I view rd wr"
    using d unfolding device_ok_def good_device_def readable_device_def
    by (auto split: if_splits dest: stores_reads)
  have n: "n \<le> 2 ^ 32" using f by (simp add: fat32_disk_def)
  have e: "sector (device_at v k) j = view (device_data (device_at v k)) j" if "j < n" for j
    using sector_eq_read_view [OF s(3,1,2) that n] .
  have f': "fat32_disk n (view (device_data (device_at v k)))"
    by (rule fat32_disk_cong [OF f]) (simp add: e)
  obtain d' where d': "fat32_find_partition v mem (Some k) = Some (E_PARTITION_OK,
        (put_device v k (device_at v k\<lparr>device_data := d'\<rparr>))\<lparr>partitions := partitions v
          @ [\<lparr>part_letter = ch CHR ''A'' + of_nat (length (partitions v)),
              part_data = init_partition mem (boot_record_of_bytes (view (device_data (device_at v k)) 0)), part_device = k\<rparr>]\<rparr>)"
    "I d'" "\<forall>j<n. view d' j = view (device_data (device_at v k)) j"
    using find_partition_ok [OF s k f' l(2)] by blast
  let ?dv = "device_at v k\<lparr>device_data := d'\<rparr>" and ?v = "(put_device v k (device_at v k\<lparr>device_data := d'\<rparr>))\<lparr>partitions := partitions v
          @ [\<lparr>part_letter = ch CHR ''A'' + of_nat (length (partitions v)),
              part_data = init_partition mem (boot_record_of_bytes (view (device_data (device_at v k)) 0)), part_device = k\<rparr>]\<rparr>"
  have e': "\<forall>j<n. sector ?dv j = view (device_data (device_at v k)) j"
    using sector_eq_read_view [of ?dv rd n I view] s d'(2,3) n by simp
  have "device_ok w n ?dv"
    using w s(1,3) d'(2) by (cases w) (auto simp: device_ok_def good_device_def readable_device_def)
  note V = init_partition_vol_state [OF f' l(1) this e']
  have "device_at ?v k = ?dv" using k device_at_put_device [of k v ?dv] by (simp add: device_at_def)
  then have "volume_at ?v (length (partitions v)) = \<lparr>letter = ch CHR ''A'' + of_nat (length (partitions v)),
      partition_data = init_partition mem (boot_record_of_bytes (view (device_data (device_at v k)) 0)), device = ?dv\<rparr>"
    by (simp add: volume_at_def)
  then show ?thesis using d'(1) V e e' \<open>device_at ?v k = ?dv\<close> by (intro exI [of _ ?v]) simp
qed

lemma demo_formatted: "129 \<le> n \<Longrightarrow> n + 2 \<le> 2 ^ 32 \<Longrightarrow> fat32_disk n (demo_disk demo_dir)"
proof -
  assume n: "129 \<le> n" "n + 2 \<le> 2 ^ 32"
  have s: "demo_disk demo_dir 0 = demo_boot" by (simp add: demo_disk_def)
  have f: "signature (ebr (boot_record_of_bytes demo_boot)) = 0x29"
    "boot_signature (ebr (boot_record_of_bytes demo_boot)) = 0xAA55"
    "fats (bpb (boot_record_of_bytes demo_boot)) = 2"
    "bpb_reserved_sectors (bpb (boot_record_of_bytes demo_boot)) = 1"
    "ebr_sectors_per_fat (ebr (boot_record_of_bytes demo_boot)) = 1"
    "sector_of_FSInfo (ebr (boot_record_of_bytes demo_boot)) = 0"
    by (simp_all add: boot_record_of_bytes_def ebr_of_bytes_def bpb_of_bytes_def get8_def get16_def get32_def
        demo_boot_nth le16_def le32_def)
  show ?thesis using n by (simp add: fat32_disk_def s f Let_def) (simp add: demo_disk_def)
qed

subsection \<open>Paths\<close>

text \<open>The table as the registrations leave it: letters in the order of the alphabet, and
  pointers to registered devices.\<close>

definition vfs_ok :: "('h, 'c) vfs \<Rightarrow> bool" where
  "vfs_ok v \<longleftrightarrow> length (partitions v) \<le> MAX_PARTITIONS
     \<and> (\<forall>i < length (partitions v). part_letter (partitions v ! i) = ch CHR ''A'' + of_nat i
          \<and> part_device (partitions v ! i) < length (virtual_devices v))"

text \<open>Registration keeps the table in order, and puts what is registered behind its entries;
  without data or without a device the table stays as it is.\<close>

theorem register_partition_vfs_ok:
  assumes "vfs_ok v" "length (partitions v) < MAX_PARTITIONS" "\<forall>k. dev = Some k \<longrightarrow> k < length (virtual_devices v)"
  shows "\<exists>e v'. vfs_register_partition v data dev = Some (e, v') \<and> vfs_ok v'
     \<and> (if data = None \<or> dev = None then e = E_PARTITION_NO_FILESYSTEM_DETECTED \<and> v' = v
        else e = E_PARTITION_OK \<and> (\<exists>p. v' = v\<lparr>partitions := partitions v @ [p]\<rparr>
             \<and> part_data p = the data \<and> part_device p = the dev))"
  using assms by (cases data; cases dev)
    (auto simp: vfs_register_partition_def vfs_ok_def nth_append less_Suc_eq)

lemma register_partition_vfs_ok_witness:
  "\<exists>e v'. vfs_register_partition \<lparr>hardware = (), virtual_devices = [\<lparr>device_data = (), read_m = None, write_m = None\<rparr>],
       partitions = []\<rparr> (Some (partition_data demo_vol)) (Some 0) = Some (e, v')
     \<and> vfs_ok v' \<and> length (partitions v') = 1"
  using register_partition_vfs_ok [of "\<lparr>hardware = (), virtual_devices = [\<lparr>device_data = (), read_m = None, write_m = None\<rparr>],
       partitions = []\<rparr>" "Some 0" "Some (partition_data demo_vol)"]
  by (auto simp: vfs_ok_def MAX_PARTITIONS_def simp del: demo_geometry)

lemma drive_letter:
  assumes "i < 16"
  shows "unat (ch CHR ''A'' + of_nat i - ch CHR ''A'') = i" "\<not> ch CHR ''A'' + of_nat i < ch CHR ''A''"
    "\<not> ch CHR ''Z'' < ch CHR ''A'' + of_nat i" "ch CHR ''A'' + of_nat i \<noteq> 0" "ch CHR ''A'' + of_nat i \<noteq> slash"
proof -
  have "i \<in> set [0..<16]" using assms by simp
  then show "unat (ch CHR ''A'' + of_nat i - ch CHR ''A'') = i" "\<not> ch CHR ''A'' + of_nat i < ch CHR ''A''"
    "\<not> ch CHR ''Z'' < ch CHR ''A'' + of_nat i" "ch CHR ''A'' + of_nat i \<noteq> 0" "ch CHR ''A'' + of_nat i \<noteq> slash"
    by (auto simp: upt_rec ch_def slash_def)
qed

lemma split_path_ok:
  assumes "vfs_ok v" "i < length (partitions v)" "0 \<notin> set mid" "slash \<notin> set mid" "0 \<notin> set rest"
  shows "split_path v ((ch CHR ''A'' + of_nat i) # mid @ slash # rest) = Some (Inr (i, slash # rest))"
proof -
  have i: "i < 16" "part_letter (partitions v ! i) = ch CHR ''A'' + of_nat i"
    using assms(1,2) by (auto simp: vfs_ok_def MAX_PARTITIONS_def)
  note dl = drive_letter [OF i(1)]
  let ?p = "(ch CHR ''A'' + of_nat i) # mid @ slash # rest"
  have p: "get_partition_from_path v ?p = Some (Some i)"
    using dl assms(2) i(2) by (simp add: get_partition_from_path_def Let_def)
  have t: "takeWhile (\<lambda>c. c \<noteq> slash) (mid @ slash # rest) = mid"
    using assms(4) by (induction mid) auto
  have "str_until (?p @ 0 # []) slash = Some (length mid + 1)"
    using dl(4,5) assms(3,5) str_until_correct [of ?p slash "[]"] t by auto
  then have "get_path_relative_to_root ?p = Some (Some (slash # rest))"
    by (simp add: get_path_relative_to_root_def)
  with p show ?thesis by (simp add: split_path_def)
qed

text \<open>A path reaches the partition with its first letter, whatever stands between the
  letter and the first slash, and that partition's file system gets the path from the
  slash on; other first characters and letters that no partition has reach none.\<close>

theorem path_reaches_partition:
  assumes "vfs_ok v"
  shows "(i < length (partitions v) \<and> 0 \<notin> set (mid @ rest) \<and> slash \<notin> set mid \<longrightarrow>
            split_path v ((ch CHR ''A'' + of_nat i) # mid @ slash # rest) = Some (Inr (i, slash # rest)))
       \<and> (length (partitions v) \<le> i \<and> i < MAX_PARTITIONS \<longrightarrow>
            split_path v ((ch CHR ''A'' + of_nat i) # rest) = Some (Inl NO_PARTITION))
       \<and> (c < ch CHR ''A'' \<or> ch CHR ''Z'' < c \<longrightarrow> split_path v (c # rest) = Some (Inl NO_PARTITION))"
  using split_path_ok [OF assms, of i mid rest] drive_letter [of i]
  by (auto simp: split_path_def get_partition_from_path_def MAX_PARTITIONS_def Let_def)

text \<open>
  A file opened by its path reads from the offset on that the memory of the descriptor happened
  to hold: the open does not set it. The contents of the volume stay.
\<close>

lemma open_then_read:
  assumes "vfs_ok v" "i < length (partitions v)" "vol_state w n (volume_at v i)" "0 \<notin> set rest"
    and "path_to (volume_at v i) None (path_tokens rest) ni" "\<not> is_dir (node ni)"
    and "file_ok (volume_at v i) (fresh\<lparr>node_data := ni\<rparr>) cs"
    and "length junk = 512" "flags AND O_CREAT = 0"
    and m: "m = min32 sz (node_size (node ni) - offset fresh)" and "unat m \<le> length buf" "length buf < 2 ^ 31"
  shows "\<exists>fd fd' v1 v2. open_file v junk fresh ((ch CHR ''A'' + of_nat i) # slash # rest) flags = Some (Some fd, v1)
     \<and> read_file v1 (Some fd) buf sz = Some (m,
          patch buf 0 (take (unat m) (drop (unat (offset fresh)) (file_data (abs_vol (volume_at v i)) cs))), Some fd', v2)
     \<and> offset (fd_node fd') = offset fresh + m
     \<and> vol_state w n (volume_at v2 i) \<and> abs_vol (volume_at v2 i) = abs_vol (volume_at v i)"
proof -
  let ?p = "volume_at v i"
  have sp: "split_path v ((ch CHR ''A'' + of_nat i) # slash # rest) = Some (Inr (i, slash # rest))"
    using split_path_ok [OF assms(1,2), of "[]" rest] assms(4) by simp
  have start: "dir_of_info (path_start (slash # rest) (vfs_node_get_data None)) = None"
    "path_rest (slash # rest) = rest"
    by (simp_all add: path_start_def path_rest_def dir_of_info_def no_info_def)
  have pt: "path_to ?p (dir_of_info (path_start (slash # rest) (vfs_node_get_data None)))
      (path_tokens (path_rest (slash # rest))) ni"
    unfolding start by (rule assms(5))
  have nz: "0 \<notin> set (slash # rest)" using assms(4) slash_nz by auto
  obtain q where q: "resolve_path ?p junk (slash # rest) (vfs_node_get_data None) flags = Some (Some ni, q)"
    "evolves_in w n ?p q" "abs_vol q = abs_vol ?p"
    using resolve_path_to [OF pt assms(3,8) nz assms(9)] by blast
  let ?nd = "fresh\<lparr>node_data := ni\<rparr>" and ?fd = "file_fd i (fresh\<lparr>node_data := ni\<rparr>)"
  have o: "fat32_open_file ?p junk fresh None (slash # rest) flags = Some (Some ?nd, q)"
    using q(1) assms(6,9) by (simp add: fat32_open_file_def vfs_file_create_descriptor_def)
  have f: "file_ok q ?nd cs"
    using assms(7) file_chain_cong [OF q(2), of cs] by (simp add: file_ok_def q(3))
  obtain r where r: "fat32_read_file q ?nd buf sz = Some (m,
      patch buf 0 (take (unat m) (drop (unat (offset fresh)) (file_data (abs_vol q) cs))),
      ?nd\<lparr>offset := offset fresh + m\<rparr>, r)" "evolves_in w n q r" "abs_vol r = abs_vol q"
    using fat32_read_file_ok [OF evolves_vol_ok [OF q(2)] f refl, of sz buf] assms(11,12) by (auto simp: m)
  have d: "part_device (partitions v ! i) < length (virtual_devices v)" using assms(1,2) by (simp add: vfs_ok_def)
  have l: "letter q = letter ?p" "letter r = letter q" using q(2) r(2) by (simp_all add: evolves_in_def)
  let ?v1 = "put_volume v i q" let ?v2 = "put_volume ?v1 i r"
  have v1: "volume_at ?v1 i = q" by (rule volume_at_put_volume [OF assms(2) d l(1)])
  have v2: "volume_at ?v2 i = r" by (rule volume_at_put_volume) (use assms(2) d l(2) v1 in simp_all)
  show ?thesis
    using sp o r v1 v2 q(3)
    by (intro exI [of _ ?fd] exI [of _ "?fd\<lparr>fd_node := ?nd\<lparr>offset := offset fresh + m\<rparr>\<rparr>"] exI [of _ ?v1] exI [of _ ?v2])
      (auto simp: open_file_def read_file_def file_fd_def)
qed

end
