(* ===== verification/Flat_Memory.thy ===== *)
theory Flat_Memory
  imports Prelude
begin

text \<open>
  The kernel's flat 32-bit address space as a function from addresses to bytes, with
  little-endian words, for the parts of the kernel that lay out memory themselves: the
  heap of \<^verbatim>\<open>libc/memory.c\<close> and the task structure. The frame lemmas say which
  addresses an access touches, in terms of natural-number addresses.
\<close>

type_synonym flat_mem = "u32 \<Rightarrow> byte"

definition read32 :: "flat_mem \<Rightarrow> u32 \<Rightarrow> u32" where
  "read32 m a = le32 (m a) (m (a + 1)) (m (a + 2)) (m (a + 3))"

definition write32 :: "flat_mem \<Rightarrow> u32 \<Rightarrow> u32 \<Rightarrow> flat_mem" where
  "write32 m a w = m(a := ucast w, a + 1 := ucast (drop_bit 8 w),
     a + 2 := ucast (drop_bit 16 w), a + 3 := ucast (drop_bit 24 w))"

text \<open>\<^verbatim>\<open>k_memcpy\<close> on this memory: one byte after the other, upwards, \<open>bytes\<close> being signed.\<close>

fun flat_copy_loop :: "flat_mem \<Rightarrow> u32 \<Rightarrow> u32 \<Rightarrow> nat list \<Rightarrow> flat_mem" where
  "flat_copy_loop m s d [] = m"
| "flat_copy_loop m s d (i # is) = flat_copy_loop (m(d + of_nat i := m (s + of_nat i))) s d is"

definition flat_memcpy :: "flat_mem \<Rightarrow> u32 \<Rightarrow> u32 \<Rightarrow> i32 \<Rightarrow> flat_mem" where
  "flat_memcpy m source dest bytes = flat_copy_loop m source dest [0..<nat (sint bytes)]"

subsection \<open>Addresses\<close>

lemma of_nat_inj_u32:
  "a < 2 ^ 32 \<Longrightarrow> b < 2 ^ 32 \<Longrightarrow> (of_nat a :: u32) = of_nat b \<longleftrightarrow> a = b"
  by (metis unat_of_nat_u32)

lemma of_nat_0_u32: "0 < a \<Longrightarrow> a < 2 ^ 32 \<Longrightarrow> (of_nat a :: u32) \<noteq> 0"
  using of_nat_inj_u32 [of a 0] by simp

lemma of_nat_less_u32: "a < 2 ^ 32 \<Longrightarrow> b < 2 ^ 32 \<Longrightarrow> (of_nat a :: u32) < of_nat b \<longleftrightarrow> a < b"
  by (simp add: word_less_nat_alt unat_of_nat_u32)

text \<open>\<open>m'\<close> agrees with \<open>m\<close> on the addresses from \<open>a\<close> up to \<open>b\<close>.\<close>

definition agree :: "flat_mem \<Rightarrow> flat_mem \<Rightarrow> nat \<Rightarrow> nat \<Rightarrow> bool" where
  "agree m' m a b \<longleftrightarrow> (\<forall>i. a \<le> i \<longrightarrow> i < b \<longrightarrow> m' (of_nat i) = m (of_nat i))"

lemma agree_refl [simp, intro]: "agree m m a b"
  by (simp add: agree_def)

lemma agree_sub: "agree m' m a b \<Longrightarrow> a \<le> c \<Longrightarrow> d \<le> b \<Longrightarrow> agree m' m c d"
  by (auto simp: agree_def)

lemma agree_trans [trans]: "agree m2 m1 a b \<Longrightarrow> agree m1 m a b \<Longrightarrow> agree m2 m a b"
  by (auto simp: agree_def)

lemma agree_empty [simp]: "b \<le> a \<Longrightarrow> agree m' m a b"
  by (auto simp: agree_def)

subsection \<open>Words\<close>

lemma read32_nat:
  "read32 m (of_nat a) = le32 (m (of_nat a)) (m (of_nat (a + 1))) (m (of_nat (a + 2))) (m (of_nat (a + 3)))"
  by (simp add: read32_def add.commute)

lemma write32_nat:
  "write32 m (of_nat a) w = m(of_nat a := ucast w, of_nat (a + 1) := ucast (drop_bit 8 w),
     of_nat (a + 2) := ucast (drop_bit 16 w), of_nat (a + 3) := ucast (drop_bit 24 w))"
  by (simp add: write32_def add.commute)

lemma read32_agree: "agree m' m a (a + 4) \<Longrightarrow> read32 m' (of_nat a) = read32 m (of_nat a)"
  unfolding read32_nat agree_def by (simp del: of_nat_add of_nat_Suc)

lemma write32_agree:
  "b \<le> a \<or> a + 4 \<le> c \<Longrightarrow> a + 4 \<le> 2 ^ 32 \<Longrightarrow> b \<le> 2 ^ 32 \<Longrightarrow> agree (write32 m (of_nat a) w) m c b"
  unfolding agree_def write32_nat by (auto simp: of_nat_inj_u32 simp del: of_nat_add of_nat_Suc)

lemma read_write32_same:
  "a + 4 \<le> 2 ^ 32 \<Longrightarrow> read32 (write32 m (of_nat a) w) (of_nat a) = w"
  unfolding read32_nat write32_nat by (simp add: of_nat_inj_u32 le32_bytes del: of_nat_add of_nat_Suc)

lemma read_write32_other:
  "a + 4 \<le> b \<or> b + 4 \<le> a \<Longrightarrow> a + 4 \<le> 2 ^ 32 \<Longrightarrow> b + 4 \<le> 2 ^ 32 \<Longrightarrow>
   read32 (write32 m (of_nat a) w) (of_nat b) = read32 m (of_nat b)"
  by (rule read32_agree, rule write32_agree) auto

subsection \<open>Copies\<close>

lemma flat_copy_loop_append:
  "flat_copy_loop m s d (xs @ ys) = flat_copy_loop (flat_copy_loop m s d xs) s d ys"
  by (induction xs arbitrary: m) auto

lemma flat_copy_prefix:
  assumes "s + n \<le> 2 ^ 32" "d + n \<le> 2 ^ 32" "s + n \<le> d \<or> d + n \<le> s" "k \<le> n" "i < 2 ^ 32"
  shows "flat_copy_loop m (of_nat s) (of_nat d) [0..<k] (of_nat i)
    = (if d \<le> i \<and> i < d + k then m (of_nat (s + (i - d))) else m (of_nat i))"
  using assms(4,5)
proof (induction k arbitrary: i)
  case (Suc k)
  have e: "(of_nat d :: u32) + of_nat k = of_nat (d + k)" "(of_nat s :: u32) + of_nat k = of_nat (s + k)"
    by simp_all
  have b: "d + k < 2 ^ 32" "s + k < 2 ^ 32" using assms(1,2) Suc.prems by simp_all
  have src: "flat_copy_loop m (of_nat s) (of_nat d) [0..<k] (of_nat (s + k)) = m (of_nat (s + k))"
    using Suc.IH [of "s + k"] Suc.prems(1) assms(3) b(2) by auto
  show ?case
    using Suc.IH [of i] Suc.prems src b
    by (cases "i = d + k")
      (auto simp: flat_copy_loop_append e of_nat_inj_u32 less_Suc_eq simp del: of_nat_add of_nat_Suc of_nat_diff)
qed auto

lemma flat_memcpy_at:
  assumes "s + unat n \<le> 2 ^ 32" "d + unat n \<le> 2 ^ 32" "s + unat n \<le> d \<or> d + unat n \<le> s"
    and "unat n < 2 ^ 31" "i < 2 ^ 32"
  shows "flat_memcpy m (of_nat s) (of_nat d) n (of_nat i)
    = (if d \<le> i \<and> i < d + unat n then m (of_nat (s + (i - d))) else m (of_nat i))"
proof -
  have "nat (sint n) = unat n"
    using assms(4) by (simp add: sint_i32 uint_lt_iff [simplified])
  then show ?thesis
    unfolding flat_memcpy_def using flat_copy_prefix [OF assms(1-3) order_refl assms(5)] by simp
qed

end
