(* ===== verification/Ports.thy ===== *)
theory Ports
  imports Prelude
begin

text \<open>
  Port input and output. \<^verbatim>\<open>drivers/ports.c\<close> wraps the \<^verbatim>\<open>in\<close> and \<^verbatim>\<open>out\<close> instructions; what
  they do depends on the hardware behind the port, which is a parameter: a record of four
  functions on a hardware state \<open>'h\<close>. Drivers take it as their first argument and thread the
  hardware state through every access, so the order of accesses is part of the model.
\<close>

record 'h PORTS =
  port_byte_in :: "u16 \<Rightarrow> 'h \<Rightarrow> byte \<times> 'h"
  port_byte_out :: "u16 \<Rightarrow> byte \<Rightarrow> 'h \<Rightarrow> 'h"
  port_word_in :: "u16 \<Rightarrow> 'h \<Rightarrow> u16 \<times> 'h"
  port_word_out :: "u16 \<Rightarrow> u16 \<Rightarrow> 'h \<Rightarrow> 'h"

text \<open>A sequence of byte outputs, in order.\<close>

fun bytes_out :: "'h PORTS \<Rightarrow> (u16 \<times> byte) list \<Rightarrow> 'h \<Rightarrow> 'h" where
  "bytes_out P [] h = h"
| "bytes_out P ((port, v) # ws) h = bytes_out P ws (port_byte_out P port v h)"

lemma bytes_out_append [simp]: "bytes_out P (xs @ ys) h = bytes_out P ys (bytes_out P xs h)"
  by (induction P xs h rule: bytes_out.induct) auto

subsection \<open>A trace of accesses as hardware\<close>

text \<open>
  Hardware that records what is written and answers reads from a script; it shows which
  accesses a driver makes, in which order.
\<close>

datatype ACCESS = OutB u16 byte | OutW u16 u16 | InB u16 | InW u16

record tracer =
  trace :: "ACCESS list" \<comment> \<open>latest first\<close>
  script :: "u16 list"   \<comment> \<open>answers to the reads to come, 0 when exhausted\<close>

definition next_answer :: "tracer \<Rightarrow> u16" where
  "next_answer t = (case script t of [] \<Rightarrow> 0 | a # _ \<Rightarrow> a)"

definition trace_ports :: "tracer PORTS" where
  "trace_ports = \<lparr>
     port_byte_in = (\<lambda>p t. (ucast (next_answer t), t\<lparr>trace := InB p # trace t, script := tl (script t)\<rparr>)),
     port_byte_out = (\<lambda>p v t. t\<lparr>trace := OutB p v # trace t\<rparr>),
     port_word_in = (\<lambda>p t. (next_answer t, t\<lparr>trace := InW p # trace t, script := tl (script t)\<rparr>)),
     port_word_out = (\<lambda>p v t. t\<lparr>trace := OutW p v # trace t\<rparr>)\<rparr>"

lemma trace_ports_sel [simp]:
  "port_byte_in trace_ports p t = (ucast (next_answer t), t\<lparr>trace := InB p # trace t, script := tl (script t)\<rparr>)"
  "port_byte_out trace_ports p v t = t\<lparr>trace := OutB p v # trace t\<rparr>"
  "port_word_in trace_ports p t = (next_answer t, t\<lparr>trace := InW p # trace t, script := tl (script t)\<rparr>)"
  "port_word_out trace_ports p w t = t\<lparr>trace := OutW p w # trace t\<rparr>"
  by (simp_all add: trace_ports_def)

lemma trace_bytes_out:
  "bytes_out trace_ports ws t = t\<lparr>trace := rev (map (\<lambda>(p, v). OutB p v) ws) @ trace t\<rparr>"
  by (induction trace_ports ws t rule: bytes_out.induct) auto

end
