(* ===== verification/Util.thy ===== *)
theory Util
  imports Prelude "HOL-Library.Signed_Division"
begin

text \<open>
  The numeric helpers: \<^verbatim>\<open>int_to_acsii\<close> and \<^verbatim>\<open>swap\<close> of \<^verbatim>\<open>kernel/util.c\<close>, and the unsigned
  \<^verbatim>\<open>max\<close>, \<^verbatim>\<open>min\<close> and \<^verbatim>\<open>clamp\<close> of \<^verbatim>\<open>libc/math.c\<close>. An array is a byte list, and leaving it has
  no defined result; neither has a signed overflow.
\<close>

subsection \<open>Minimum and maximum\<close>

definition math_max :: "u32 \<Rightarrow> u32 \<Rightarrow> u32" where
  "math_max a b = (if b < a then a else b)"

definition math_min :: "u32 \<Rightarrow> u32 \<Rightarrow> u32" where
  "math_min a b = (if a < b then a else b)"

definition clamp :: "u32 \<Rightarrow> u32 \<Rightarrow> u32 \<Rightarrow> u32" where
  "clamp val a b = math_max a (math_min val b)"

lemma math_min_max: "math_max = max" "math_min = min"
  by (auto simp: math_max_def math_min_def max_def min_def fun_eq_iff not_less)

lemma clamp_bounds: "a \<le> b \<Longrightarrow> a \<le> clamp val a b \<and> clamp val a b \<le> b \<and> (a \<le> val \<and> val \<le> b \<longrightarrow> clamp val a b = val)"
  by (auto simp: clamp_def math_min_max)

subsection \<open>Decimal digits\<close>

definition swap :: "byte list \<Rightarrow> nat \<Rightarrow> nat \<Rightarrow> byte list" where
  "swap str x y = (let z = str ! x; str = str[x := str ! y] in str[y := z])"

function digits_loop :: "int \<Rightarrow> nat \<Rightarrow> byte list \<Rightarrow> (nat \<times> byte list) option" where
  "digits_loop n i str =
     (if i < length str
      then let str = str[i := word_of_int (n smod 10 + 48)]; n = n sdiv 10
           in if 0 < n then digits_loop n (i + 1) str else Some (i + 1, str)
      else None)"
  by pat_completeness auto
termination by (relation "measure (\<lambda>(n, i, str). length str - i)") auto

function reverse_loop :: "nat \<Rightarrow> nat \<Rightarrow> byte list \<Rightarrow> byte list" where
  "reverse_loop j i str = (if j < i then reverse_loop (j + 1) (i - 1) (swap str j i) else str)"
  by pat_completeness auto
termination by (relation "measure (\<lambda>(j, i, str). i - j)") auto

declare digits_loop.simps [simp del] reverse_loop.simps [simp del]

definition int_to_acsii :: "int \<Rightarrow> byte list \<Rightarrow> byte list option" where
  "int_to_acsii n str =
     (if n = - (2 ^ 31) then None
      else do {
        (i, str) \<leftarrow> digits_loop (if n < 0 then - n else n) 0 str;
        if (if n < 0 then i + 1 else i) < length str
        then let (i, str) = (if n < 0 then (i + 1, str[i := ch CHR ''-'']) else (i, str));
                 str = str[i := 0]
             in Some (reverse_loop 0 (i - 1) str)
        else None
      })"

text \<open>What it computes: the digits of a number, most significant first.\<close>

fun decimal :: "nat \<Rightarrow> byte list" where
  "decimal n = (if n < 10 then [of_nat n + 48] else decimal (n div 10) @ [of_nat (n mod 10) + 48])"

declare decimal.simps [simp del]

definition decimal_int :: "int \<Rightarrow> byte list" where
  "decimal_int n = (if n < 0 then ch CHR ''-'' # decimal (nat (- n)) else decimal (nat n))"

lemma decimal_ne [simp]: "decimal n \<noteq> []"
  by (subst decimal.simps) simp

lemma sdiv_nat: "int a sdiv int b = int (a div b)" "int a sdiv numeral n = int (a div numeral n)"
  by (simp_all add: signed_divide_int_def sgn_if zdiv_int)

lemma smod_nat: "int a smod numeral n = int (a mod numeral n)"
  by (simp add: signed_modulo_int_def sgn_if zmod_int sdiv_nat)

lemma digits_loop_ok:
  assumes "i + length (decimal n) \<le> length str"
  shows "digits_loop (int n) i str
    = Some (i + length (decimal n), patch str i (rev (decimal n)))"
  using assms
proof (induction n arbitrary: i str rule: decimal.induct)
  case (1 n)
  have d: "(word_of_int (int n smod 10) :: byte) = of_nat (n mod 10)"
    unfolding smod_nat by simp
  show ?case
  proof (cases "n < 10")
    case True
    then have "digits_loop (int n) i str = Some (i + 1, str[i := of_nat n + 48])"
      using 1(2) d by (subst digits_loop.simps) (simp add: decimal.simps sdiv_nat)
    then show ?thesis using True 1(2) by (simp add: decimal.simps patch_def upd_conv_take_nth_drop)
  next
    case False
    then have e: "decimal n = decimal (n div 10) @ [of_nat (n mod 10) + 48]" by (subst decimal.simps) simp
    have i: "i < length str" using 1(2) by (cases "length (decimal n)") auto
    have l: "i + 1 + length (decimal (n div 10)) \<le> length (str[i := of_nat (n mod 10) + 48])" using 1(2) e by simp
    have q: "int n sdiv 10 = int (n div 10)" by (simp add: sdiv_nat)
    have "digits_loop (int n) i str = digits_loop (int (n div 10)) (i + 1) (str[i := of_nat (n mod 10) + 48])"
      using i False by (subst digits_loop.simps) (simp add: d q Let_def div_greater_zero_iff)
    then show ?thesis
      using 1(1) [OF False l] e i by (simp add: patch_def take_update_swap upd_conv_take_nth_drop ac_simps)
  qed
qed

lemma reverse_loop_ok:
  "length pre = j \<Longrightarrow> j + length xs = Suc i \<Longrightarrow> reverse_loop j i (pre @ xs @ post) = pre @ rev xs @ post"
proof (induction xs arbitrary: pre j i post rule: length_induct)
  case (1 xs)
  show ?case
  proof (cases "j < i")
    case True
    then obtain a ys b where xs: "xs = a # ys @ [b]"
      using 1(2,3) by (cases xs; cases "tl xs" rule: rev_cases) auto
    have s: "swap (pre @ xs @ post) j i = (pre @ [b]) @ ys @ a # post"
      using 1(2,3) xs by (auto simp: swap_def nth_append list_update_append)
    have "reverse_loop (j + 1) (i - 1) ((pre @ [b]) @ ys @ a # post) = (pre @ [b]) @ rev ys @ a # post"
      using 1(1) [rule_format, of ys "pre @ [b]" "j + 1" "i - 1" "a # post"] 1(2,3) xs by simp
    then show ?thesis using True s by (subst reverse_loop.simps) (simp add: xs)
  next
    case False
    then have "length xs \<le> 1" using 1(3) by simp
    then have "rev xs = xs" by (cases xs) auto
    then show ?thesis using False by (subst reverse_loop.simps) simp
  qed
qed

text \<open>\<^verbatim>\<open>int_to_acsii\<close> writes the decimal numeral and its terminator.\<close>

lemma int_to_acsii_ok:
  assumes "\<bar>n\<bar> < 2 ^ 31" "length (decimal_int n) < length str"
  shows "int_to_acsii n str = Some (decimal_int n @ 0 # drop (Suc (length (decimal_int n))) str)"
proof -
  define k where "k = nat \<bar>n\<bar>"
  define ds where "ds = decimal k"
  have n: "(if n < 0 then - n else n) = int k" by (simp add: k_def)
  have t: "decimal_int n = (if n < 0 then [ch CHR ''-''] else []) @ ds"
    by (simp add: decimal_int_def ds_def k_def)
  have d: "digits_loop (int k) 0 str = Some (length ds, rev ds @ drop (length ds) str)"
    using digits_loop_ok [of 0 k str] assms(2) unfolding t ds_def by (simp add: patch_def split: if_splits)
  let ?sg = "if n < 0 then [ch CHR ''-''] else []"
  let ?xs = "rev ds @ ?sg"
  have r: "reverse_loop 0 (length ?xs - 1) ([] @ ?xs @ 0 # drop (Suc (length ?xs)) str) = [] @ rev ?xs @ 0 # drop (Suc (length ?xs)) str"
    by (rule reverse_loop_ok) (simp_all add: ds_def Suc_le_eq)
  have u: "(drop k str)[0 := a] = a # drop (Suc k) str" if "k < length str" for k a
    using that by (simp add: Cons_nth_drop_Suc [symmetric])
  show ?thesis
    using assms r t unfolding int_to_acsii_def n d by (auto simp: u list_update_append)
qed

text \<open>A numeral reads back as its number.\<close>

definition number_of :: "byte list \<Rightarrow> nat" where
  "number_of ds = foldl (\<lambda>a d. 10 * a + unat (d - 48)) 0 ds"

lemma number_of_decimal: "number_of (decimal n) = n"
proof (induction n rule: decimal.induct)
  case (1 n)
  have "unat (of_nat (n mod 10) :: byte) = n mod 10" by (simp add: unat_of_nat)
  then show ?case using 1 by (subst decimal.simps) (auto simp: number_of_def unat_of_nat)
qed

end
