(* ===== verification/Screen.thy ===== *)
theory Screen
  imports Flat_Memory Ports Util
begin

text \<open>
  The text screen of \<^verbatim>\<open>drivers/screen.c\<close>: 25 rows of 80 cells in video memory, a character
  and an attribute byte each, and the cursor position in two registers of the display
  controller. The functions run on the kernel's memory and the hardware behind the ports.
  A C \<^verbatim>\<open>int\<close> is an \<^typ>\<open>int\<close> here: for arguments on or near the screen no offset comes near its limits.
\<close>

subsection \<open>Operations\<close>

record 'h MACHINE =
  ram :: flat_mem
  hw :: 'h

definition VIDEO_ADDRESS :: u32 where "VIDEO_ADDRESS = 0xb8000"
definition MAX_ROWS :: int where [simp]: "MAX_ROWS = 25"
definition MAX_COLS :: int where [simp]: "MAX_COLS = 80"
definition WHITE_ON_BLACK :: byte where [simp]: "WHITE_ON_BLACK = 0x0f"
definition RED_ON_BLACK :: byte where [simp]: "RED_ON_BLACK = 0x04"
definition REG_SCREEN_CTRL :: u16 where [simp]: "REG_SCREEN_CTRL = 0x3d4"
definition REG_SCREEN_DATA :: u16 where [simp]: "REG_SCREEN_DATA = 0x3d5"

text \<open>\<^verbatim>\<open>vid[offset] = c\<close>; a negative offset is in front of video memory.\<close>

definition vid_set :: "int \<Rightarrow> byte \<Rightarrow> flat_mem \<Rightarrow> flat_mem" where
  "vid_set offset c m = m(VIDEO_ADDRESS + of_int offset := c)"

definition get_offset :: "int \<Rightarrow> int \<Rightarrow> int" where
  "get_offset col row = 2 * (col + MAX_COLS * row)"

definition get_offset_row :: "int \<Rightarrow> int" where
  "get_offset_row offset = offset sdiv (2 * MAX_COLS)"

definition get_offset_column :: "int \<Rightarrow> int" where
  "get_offset_column offset = (offset - (get_offset_row offset * 2 * MAX_COLS)) sdiv 2"

definition get_cursor_offset :: "'h PORTS \<Rightarrow> 'h \<Rightarrow> int \<times> 'h" where
  "get_cursor_offset P h =
     (let h = port_byte_out P REG_SCREEN_CTRL 14 h;
          (high, h) = port_byte_in P REG_SCREEN_DATA h;
          offset = push_bit 8 (uint high);
          h = port_byte_out P REG_SCREEN_CTRL 15 h;
          (low, h) = port_byte_in P REG_SCREEN_DATA h;
          offset = offset + uint low
      in (offset * 2, h))"

definition set_cursor_offset :: "'h PORTS \<Rightarrow> int \<Rightarrow> 'h \<Rightarrow> 'h" where
  "set_cursor_offset P offset h =
     (let offset = offset sdiv 2
      in bytes_out P [(REG_SCREEN_CTRL, 14), (REG_SCREEN_DATA, word_of_int (drop_bit 8 offset)),
           (REG_SCREEN_CTRL, 15), (REG_SCREEN_DATA, word_of_int (offset AND 0xff))] h)"

text \<open>The rows move up by one and the last one is cleared.\<close>

definition move_row :: "nat \<Rightarrow> flat_mem \<Rightarrow> flat_mem" where
  "move_row i m = flat_memcpy m (of_int (get_offset 0 (int i)) + VIDEO_ADDRESS)
     (of_int (get_offset 0 (int i - 1)) + VIDEO_ADDRESS) 160"

definition scroll_up :: "flat_mem \<Rightarrow> flat_mem" where
  "scroll_up m =
     (let m = fold move_row [1..<nat MAX_ROWS] m;
          last_line = get_offset 0 (MAX_ROWS - 1)
      in fold (\<lambda>i. vid_set (last_line + int i) 0) [0..<nat (MAX_COLS * 2)] m)"

definition print_char :: "'h PORTS \<Rightarrow> byte \<Rightarrow> int \<Rightarrow> int \<Rightarrow> byte \<Rightarrow> 'h MACHINE \<Rightarrow> int \<times> 'h MACHINE" where
  "print_char P c col row attr s =
     (let attr = (if attr = 0 then WHITE_ON_BLACK else attr)
      in if MAX_COLS \<le> col \<or> MAX_ROWS \<le> row
         then (get_offset col row,
               s\<lparr>ram := vid_set (2 * MAX_COLS * MAX_ROWS - 1) RED_ON_BLACK
                          (vid_set (2 * MAX_COLS * MAX_ROWS - 2) (ch CHR ''E'') (ram s))\<rparr>)
         else let
           (offset, h) = (if col < 0 \<or> row < 0 then get_cursor_offset P (hw s) else (get_offset col row, hw s));
           (offset, m) =
             (if c = 10 then (get_offset 0 (get_offset_row offset + 1), ram s)
              else if c = 8
              then (offset - 2, vid_set (offset - 2 + 1) WHITE_ON_BLACK (vid_set (offset - 2) 0 (ram s)))
              else (offset + 2, vid_set (offset + 1) attr (vid_set offset c (ram s))));
           (offset, m) =
             (if MAX_ROWS * MAX_COLS * 2 \<le> offset then (offset - 2 * MAX_COLS, scroll_up m) else (offset, m))
         in (offset, s\<lparr>ram := m, hw := set_cursor_offset P offset h\<rparr>))"

definition clear_screen :: "'h MACHINE \<Rightarrow> 'h MACHINE" where
  "clear_screen s = s\<lparr>ram := fold (\<lambda>i m. vid_set (2 * int i + 1) WHITE_ON_BLACK (vid_set (2 * int i) (ch CHR '' '') m))
     [0..<nat (MAX_COLS * MAX_ROWS)] (ram s)\<rparr>"

text \<open>Where printing starts: at a given place, or with a negative one at the cursor.\<close>

definition start_place :: "'h PORTS \<Rightarrow> int \<Rightarrow> int \<Rightarrow> 'h MACHINE \<Rightarrow> int \<times> int \<times> 'h MACHINE" where
  "start_place P col row s =
     (if 0 \<le> col \<and> 0 \<le> row then (col, row, s)
      else let (offset, h) = get_cursor_offset P (hw s)
           in (get_offset_column offset, get_offset_row offset, s\<lparr>hw := h\<rparr>))"

fun kprint_size_loop :: "'h PORTS \<Rightarrow> byte list \<Rightarrow> int \<Rightarrow> int \<Rightarrow> 'h MACHINE \<Rightarrow> 'h MACHINE" where
  "kprint_size_loop P [] col row s = s"
| "kprint_size_loop P (c # cs) col row s =
     (let (offset, s) = print_char P c col row WHITE_ON_BLACK s
      in kprint_size_loop P cs (get_offset_column offset) (get_offset_row offset) s)"

definition kprint_at_size :: "'h PORTS \<Rightarrow> byte list \<Rightarrow> nat \<Rightarrow> int \<Rightarrow> int \<Rightarrow> 'h MACHINE \<Rightarrow> 'h MACHINE option" where
  "kprint_at_size P message n col row s =
     (if length message < n then None
      else let (col, row, s) = start_place P col row s
           in Some (kprint_size_loop P (take n message) col row s))"

definition kprint_size :: "'h PORTS \<Rightarrow> byte list \<Rightarrow> nat \<Rightarrow> 'h MACHINE \<Rightarrow> 'h MACHINE option" where
  "kprint_size P message n s = kprint_at_size P message n (-1) (-1) s"

text \<open>A message ends with a 0 byte; running out of it has no defined result.\<close>

fun kprint_loop :: "'h PORTS \<Rightarrow> byte list \<Rightarrow> int \<Rightarrow> int \<Rightarrow> 'h MACHINE \<Rightarrow> 'h MACHINE option" where
  "kprint_loop P [] col row s = None"
| "kprint_loop P (c # cs) col row s =
     (if c \<noteq> 0
      then let (offset, s) = print_char P c col row WHITE_ON_BLACK s
           in kprint_loop P cs (get_offset_column offset) (get_offset_row offset) s
      else Some s)"

definition kprint_at :: "'h PORTS \<Rightarrow> byte list \<Rightarrow> int \<Rightarrow> int \<Rightarrow> 'h MACHINE \<Rightarrow> 'h MACHINE option" where
  "kprint_at P message col row s =
     (let (col, row, s) = start_place P col row s in kprint_loop P message col row s)"

definition kprint :: "'h PORTS \<Rightarrow> byte list \<Rightarrow> 'h MACHINE \<Rightarrow> 'h MACHINE option" where
  "kprint P message s = kprint_at P message (-1) (-1) s"

definition kprint_char_at :: "'h PORTS \<Rightarrow> byte \<Rightarrow> int \<Rightarrow> int \<Rightarrow> 'h MACHINE \<Rightarrow> 'h MACHINE" where
  "kprint_char_at P letter col row s =
     (let (col, row, s) = start_place P col row s in snd (print_char P letter col row WHITE_ON_BLACK s))"

definition kprint_char :: "'h PORTS \<Rightarrow> byte \<Rightarrow> 'h MACHINE \<Rightarrow> 'h MACHINE" where
  "kprint_char P letter s = kprint_char_at P letter (-1) (-1) s"

end
