(* ===== verification/Cpu.thy ===== *)
theory Cpu
  imports Ports
begin

text \<open>
  Interrupts: the descriptor table of \<^verbatim>\<open>cpu/idt.c\<close>, its installation and the dispatch of
  hardware interrupts of \<^verbatim>\<open>cpu/isr.c\<close>, and the timer of \<^verbatim>\<open>cpu/timer.c\<close>. The addresses
  of the assembly stubs are parameters.
\<close>

subsection \<open>The interrupt descriptor table\<close>

record idt_gate_t =
  low_offset :: u16
  sel :: u16
  always0 :: byte
  flags :: byte
  high_offset :: u16

record idt_register_t =
  limit :: u16
  base :: u32

definition low_16 :: "u32 \<Rightarrow> u16" where
  "low_16 address = ucast (address AND 0xFFFF)"

definition high_16 :: "u32 \<Rightarrow> u16" where
  "high_16 address = ucast (drop_bit 16 address AND 0xFFFF)"

definition KERNEL_CS :: u16 where
  "KERNEL_CS = 0x08"

definition IDT_ENTRIES :: nat where
  "IDT_ENTRIES = 256"

text \<open>\<^verbatim>\<open>idt\<close> is an array of 256 gates; an index outside of it has no defined result.\<close>

definition set_idt_gate :: "idt_gate_t list \<Rightarrow> nat \<Rightarrow> u32 \<Rightarrow> idt_gate_t list option" where
  "set_idt_gate idt n handler =
     (if n < length idt
      then Some (idt[n := \<lparr>low_offset = low_16 handler, sel = KERNEL_CS, always0 = 0, flags = 0x8E,
                          high_offset = high_16 handler\<rparr>])
      else None)"

definition set_idt :: "u32 \<Rightarrow> idt_register_t" where
  "set_idt idt_address = \<lparr>limit = of_nat (IDT_ENTRIES * 8 - 1), base = idt_address\<rparr>"

subsection \<open>Installation\<close>

fun set_idt_gates :: "idt_gate_t list \<Rightarrow> (nat \<times> u32) list \<Rightarrow> idt_gate_t list option" where
  "set_idt_gates idt [] = Some idt"
| "set_idt_gates idt ((n, handler) # gs) = do { idt \<leftarrow> set_idt_gate idt n handler; set_idt_gates idt gs }"

text \<open>The two controllers are told to raise their interrupts at 32 and at 40.\<close>

definition pic_remap :: "(u16 \<times> byte) list" where
  "pic_remap = [(0x20, 0x11), (0xA0, 0x11), (0x21, 0x20), (0xA1, 0x28), (0x21, 0x04), (0xA1, 0x02),
     (0x21, 0x01), (0xA1, 0x01), (0x21, 0x0), (0xA1, 0x0)]"

definition isr_install ::
  "'h PORTS \<Rightarrow> (nat \<Rightarrow> u32) \<Rightarrow> (nat \<Rightarrow> u32) \<Rightarrow> u32 \<Rightarrow> idt_gate_t list \<Rightarrow> 'h
   \<Rightarrow> (idt_gate_t list \<times> idt_register_t \<times> 'h) option" where
  "isr_install P isr irq idt_address idt h = do {
     idt \<leftarrow> set_idt_gates idt (map (\<lambda>n. (n, isr n)) [0..<32]);
     let h = bytes_out P pic_remap h;
     idt \<leftarrow> set_idt_gates idt (map (\<lambda>n. (n + 32, irq n)) [0..<16]);
     Some (idt, set_idt idt_address, h)
   }"

subsection \<open>Dispatch\<close>

record registers_t =
  ds :: u32
  edi :: u32
  esi :: u32
  ebp :: u32
  esp :: u32
  ebx :: u32
  edx :: u32
  ecx :: u32
  eax :: u32
  int_no :: u32
  err_code :: u32
  eip :: u32
  cs :: u32
  eflags :: u32
  useresp :: u32
  ss :: u32

text \<open>
  A handler works on the kernel state \<open>'s\<close>; \<^term>\<open>None\<close> in the table is the null pointer.
  \<^verbatim>\<open>interrupt_handlers\<close> has 256 entries.
\<close>

type_synonym 's isr_t = "registers_t \<Rightarrow> 's \<Rightarrow> 's option"

definition register_interrupt_handler :: "'s isr_t option list \<Rightarrow> byte \<Rightarrow> 's isr_t option \<Rightarrow> 's isr_t option list" where
  "register_interrupt_handler handlers n handler = handlers[unat n := handler]"

text \<open>\<open>ack\<close> performs port output on the kernel state.\<close>

definition irq_handler ::
  "(u16 \<Rightarrow> byte \<Rightarrow> 's \<Rightarrow> 's) \<Rightarrow> 's isr_t option list \<Rightarrow> registers_t \<Rightarrow> 's \<Rightarrow> 's option" where
  "irq_handler out handlers r s =
     (let s = (if 40 \<le> int_no r then out 0xa0 0x20 s else s);
          s = out 0x20 0x20 s
      in if unat (int_no r) < length handlers
         then (case handlers ! unat (int_no r) of None \<Rightarrow> Some s | Some handler \<Rightarrow> handler r s)
         else None)"

definition IRQ0 :: byte where [simp]: "IRQ0 = 32"
definition IRQ1 :: byte where [simp]: "IRQ1 = 33"
definition IRQ6 :: byte where [simp]: "IRQ6 = 38"

subsection \<open>The timer\<close>

text \<open>The division by a frequency of 0 has no defined result.\<close>

definition init_timer ::
  "'h PORTS \<Rightarrow> 's isr_t option list \<Rightarrow> u32 \<Rightarrow> 's isr_t option \<Rightarrow> 'h \<Rightarrow> ('s isr_t option list \<times> 'h) option" where
  "init_timer P handlers freq handler h =
     (if freq = 0 then None
      else let divisor = 1193180 div freq;
               low = ucast (divisor AND 0xFF) :: byte;
               high = ucast (drop_bit 8 divisor AND 0xFF) :: byte
           in Some (register_interrupt_handler handlers IRQ0 handler,
                    bytes_out P [(0x43, 0x36), (0x40, low), (0x40, high)] h))"

subsection \<open>What they compute\<close>

text \<open>The address a gate sends control to.\<close>

definition gate_target :: "idt_gate_t \<Rightarrow> u32" where
  "gate_target g = push_bit 16 (ucast (high_offset g)) OR ucast (low_offset g)"

lemma low_high_16: "push_bit 16 (ucast (high_16 a)) OR ucast (low_16 a) = a"
proof -
  have m: "(0xFFFF :: u32) = mask 16" by (simp add: mask_eq_exp_minus_1)
  show ?thesis
    unfolding low_16_def high_16_def m
    by (rule bit_word_eqI) (auto simp: bit_simps)
qed

lemma set_idt_gates_ok:
  assumes "\<forall>(n, a) \<in> set gs. n < length idt" "distinct (map fst gs)"
  shows "\<exists>idt'. set_idt_gates idt gs = Some idt' \<and> length idt' = length idt
    \<and> (\<forall>(n, a) \<in> set gs. gate_target (idt' ! n) = a \<and> sel (idt' ! n) = KERNEL_CS \<and> flags (idt' ! n) = 0x8E)
    \<and> (\<forall>k < length idt. k \<notin> fst ` set gs \<longrightarrow> idt' ! k = idt ! k)"
  using assms
proof (induction idt gs rule: set_idt_gates.induct)
  case (2 idt n a gs)
  let ?g = "\<lparr>low_offset = low_16 a, sel = KERNEL_CS, always0 = 0, flags = 0x8E, high_offset = high_16 a\<rparr>"
  have n: "n < length idt" "n \<notin> fst ` set gs" using "2.prems" by auto
  have s: "set_idt_gate idt n a = Some (idt[n := ?g])" using n by (simp add: set_idt_gate_def)
  obtain idt' where r: "set_idt_gates (idt[n := ?g]) gs = Some idt'" "length idt' = length idt"
    "\<forall>(n, a) \<in> set gs. gate_target (idt' ! n) = a \<and> sel (idt' ! n) = KERNEL_CS \<and> flags (idt' ! n) = 0x8E"
    "\<forall>k < length idt. k \<notin> fst ` set gs \<longrightarrow> idt' ! k = idt[n := ?g] ! k"
    using "2.IH" [OF s] "2.prems" by auto
  have "idt' ! n = ?g" using r(4) n by simp
  then have "gate_target (idt' ! n) = a \<and> sel (idt' ! n) = KERNEL_CS \<and> flags (idt' ! n) = 0x8E"
    by (simp add: gate_target_def low_high_16)
  then show ?case using r s by auto
qed simp

text \<open>After installation gates 0 to 31 lead to the exception stubs and 32 to 47 to the IRQ stubs.\<close>

lemma isr_install_ok:
  assumes "length idt = IDT_ENTRIES"
  shows "\<exists>idt'. isr_install P isr irq idt_address idt h
      = Some (idt', \<lparr>limit = 2047, base = idt_address\<rparr>, bytes_out P pic_remap h) \<and> length idt' = IDT_ENTRIES
    \<and> (\<forall>n < 32. gate_target (idt' ! n) = isr n \<and> sel (idt' ! n) = KERNEL_CS \<and> flags (idt' ! n) = 0x8E)
    \<and> (\<forall>n < 16. gate_target (idt' ! (n + 32)) = irq n \<and> sel (idt' ! (n + 32)) = KERNEL_CS \<and> flags (idt' ! (n + 32)) = 0x8E)
    \<and> (\<forall>n < IDT_ENTRIES. 48 \<le> n \<longrightarrow> idt' ! n = idt ! n)"
proof -
  let ?g1 = "map (\<lambda>n. (n, isr n)) [0..<32]" and ?g2 = "map (\<lambda>n. (n + 32, irq n)) [0..<16]"
  have "\<forall>(n, a) \<in> set ?g1. n < length idt" "distinct (map fst ?g1)"
    using assms by (auto simp: IDT_ENTRIES_def comp_def)
  from set_idt_gates_ok [OF this] obtain idt1 where r1: "set_idt_gates idt ?g1 = Some idt1" "length idt1 = length idt"
    "\<forall>(n, a) \<in> set ?g1. gate_target (idt1 ! n) = a \<and> sel (idt1 ! n) = KERNEL_CS \<and> flags (idt1 ! n) = 0x8E"
    "\<forall>k < length idt. k \<notin> fst ` set ?g1 \<longrightarrow> idt1 ! k = idt ! k" by blast
  have "\<forall>(n, a) \<in> set ?g2. n < length idt1" "distinct (map fst ?g2)"
    using assms r1(2) by (auto simp: IDT_ENTRIES_def comp_def distinct_map inj_on_def)
  from set_idt_gates_ok [OF this] obtain idt2 where r2: "set_idt_gates idt1 ?g2 = Some idt2" "length idt2 = length idt1"
    "\<forall>(n, a) \<in> set ?g2. gate_target (idt2 ! n) = a \<and> sel (idt2 ! n) = KERNEL_CS \<and> flags (idt2 ! n) = 0x8E"
    "\<forall>k < length idt1. k \<notin> fst ` set ?g2 \<longrightarrow> idt2 ! k = idt1 ! k" by blast
  have run: "isr_install P isr irq idt_address idt h
      = Some (idt2, \<lparr>limit = 2047, base = idt_address\<rparr>, bytes_out P pic_remap h)"
    using r1(1) r2(1) by (simp add: isr_install_def set_idt_def IDT_ENTRIES_def)
  have keep: "idt2 ! n = idt1 ! n" if "n < IDT_ENTRIES" "n < 32 \<or> 48 \<le> n" for n
    using r2(4) r1(2) assms that by (auto simp: image_image)
  have keep1: "idt1 ! n = idt ! n" if "n < IDT_ENTRIES" "48 \<le> n" for n
    using r1(4) assms that by (auto simp: image_image)
  have "gate_target (idt2 ! n) = isr n \<and> sel (idt2 ! n) = KERNEL_CS \<and> flags (idt2 ! n) = 0x8E" if "n < 32" for n
    using r1(3) keep [of n] that by (auto simp: IDT_ENTRIES_def)
  moreover have "gate_target (idt2 ! (n + 32)) = irq n \<and> sel (idt2 ! (n + 32)) = KERNEL_CS \<and> flags (idt2 ! (n + 32)) = 0x8E"
    if "n < 16" for n
    using r2(3) that by auto
  moreover have "idt2 ! n = idt ! n" if "n < IDT_ENTRIES" "48 \<le> n" for n
    using keep [of n] keep1 [of n] that by simp
  ultimately show ?thesis using run r1(2) r2(2) assms by auto
qed

text \<open>A registered handler runs after the acknowledgement, which goes to the slave first from IRQ 8 on.\<close>

lemma irq_dispatch:
  assumes "length handlers = 256" "int_no r = ucast n"
  shows "irq_handler out (register_interrupt_handler handlers n (Some f)) r s
    = f r (out 0x20 0x20 (if 40 \<le> n then out 0xa0 0x20 s else s))"
proof -
  have l: "unat n < 256" using unsigned_less [of n, where 'a = nat] by simp
  then have u: "unat (ucast n :: u32) = unat n" by (simp add: unsigned_ucast_eq take_bit_nat_eq_self)
  have "40 \<le> (ucast n :: u32) \<longleftrightarrow> 40 \<le> n"
    by (simp add: word_le_nat_alt u)
  then show ?thesis
    using assms l by (simp add: irq_handler_def register_interrupt_handler_def u Let_def)
qed

end
