(* ===== verification/Keyboard.thy ===== *)
theory Keyboard
  imports Screen Cpu
begin

text \<open>
  The keyboard interrupt of \<^verbatim>\<open>drivers/keyboard.c\<close> and the line input of \<^verbatim>\<open>kernel/kernel.c\<close> it
  calls. The kernel state holds the machine, the driver's \<^verbatim>\<open>key\<close> and \<^verbatim>\<open>high\<close>, and the input
  line with its count. A string literal is a list of characters, its terminator left implicit.
\<close>

record 'h KERNEL =
  machine :: "'h MACHINE"
  key :: byte
  high :: int
  sh_buffer :: "byte list" \<comment> \<open>256 bytes\<close>
  sh_buffer_count :: int
  bExecute :: int

subsection \<open>Scan codes\<close>

text \<open>The table in two halves.\<close>

definition low_scancodes :: "(byte \<times> string) list" where
  "low_scancodes = [
     (0x00, ''E''), (0x01, ''E''), (0x02, ''1''), (0x03, ''2''), (0x04, ''3''), (0x05, ''4''),
     (0x06, ''5''), (0x07, ''6''), (0x08, ''7''), (0x09, ''8''), (0x0A, ''9''), (0x0B, ''0''),
     (0x0C, ''-''), (0x0D, ''+''), (0x0E, [CHR 0x08]), (0x0F, '' ''), (0x10, ''Q''), (0x11, ''w''),
     (0x12, ''e''), (0x13, ''r''), (0x14, ''t''), (0x15, ''y''), (0x16, ''u''), (0x17, ''i''),
     (0x18, ''o''), (0x19, ''p''), (0x1A, ''[''), (0x1B, '']''), (0x1C, [CHR 0x0A])]"

definition high_scancodes :: "(byte \<times> string) list" where
  "high_scancodes = [
     (0x1D, ''S''),
     (0x1E, ''a''), (0x1F, ''s''), (0x20, ''d''), (0x21, ''f''), (0x22, ''g''), (0x23, ''h''),
     (0x24, ''j''), (0x25, ''k''), (0x26, ''l''), (0x27, '';''), (0x28, ''''), (0x29, [CHR 0x60]),
     (0x2A, ''S''), (0x2B, [CHR 0x5C]), (0x2C, ''z''), (0x2D, ''x''), (0x2E, ''c''), (0x2F, ''v''),
     (0x30, ''b''), (0x31, ''n''), (0x32, ''m''), (0x33, '',''), (0x34, ''.''), (0x35, ''/''),
     (0x36, ''S''), (0x37, ''''), (0x38, ''''), (0x39, '' '')]"

definition scancodes :: "(byte \<times> string) list" where
  "scancodes = low_scancodes @ high_scancodes"

text \<open>A code outside the table is a release; those of the shift keys count as the key itself.\<close>

function print_letter :: "byte \<Rightarrow> string" where
  "print_letter scancode =
     (case map_of scancodes scancode of
        Some letter \<Rightarrow> letter
      | None \<Rightarrow>
          if scancode = 0x2A + 0x80 \<or> scancode = 0x36 + 0x80 then print_letter (scancode - 0x80) else [])"
  by pat_completeness auto
termination by (relation "measure unat") auto

declare print_letter.simps [simp del]

text \<open>\<^verbatim>\<open>letter[0]\<close>, the terminator for the empty string.\<close>

definition first_char :: "string \<Rightarrow> byte" where
  "first_char str = (case str of [] \<Rightarrow> 0 | c # _ \<Rightarrow> ch c)"

subsection \<open>The driver\<close>

definition on_machine :: "('h MACHINE \<Rightarrow> 'h MACHINE) \<Rightarrow> 'h KERNEL \<Rightarrow> 'h KERNEL" where
  "on_machine f s = s\<lparr>machine := f (machine s)\<rparr>"

definition driver_callback :: "'h PORTS \<Rightarrow> 'h KERNEL isr_t \<Rightarrow> 'h KERNEL isr_t" where
  "driver_callback P kernel_callback r s =
     (let (scancode, h) = port_byte_in P 0x60 (hw (machine s));
          s = on_machine (hw_update (\<lambda>_. h)) s;
          letter = first_char (print_letter scancode)
      in if letter = ch CHR ''S'' then Some (s\<lparr>high := if high s = 0 then 1 else 0\<rparr>)
         else if letter \<noteq> 0
         then let s = s\<lparr>key :=
                (if ch CHR ''a'' \<le> letter \<and> letter \<le> ch CHR ''z'' then letter - of_int (high s) * 32
                 else if letter = ch CHR '';'' then (if high s \<noteq> 0 then ch CHR '':'' else ch CHR '';'')
                 else letter)\<rparr>
              in kernel_callback r s
         else Some s)"

definition init_keyboard :: "'h PORTS \<Rightarrow> 'h KERNEL isr_t \<Rightarrow> 'h KERNEL isr_t option list \<Rightarrow> 'h KERNEL isr_t option list" where
  "init_keyboard P callback handlers = register_interrupt_handler handlers IRQ1 (Some (driver_callback P callback))"

text \<open>\<^verbatim>\<open>read_key_buffer\<close> with what its argument points to before and after.\<close>

definition read_key_buffer :: "'h KERNEL \<Rightarrow> byte option \<Rightarrow> int \<times> byte option" where
  "read_key_buffer s buffer = (if key s = 0 then (0, buffer) else (1, Some (key s)))"

subsection \<open>The input line\<close>

text \<open>
  \<^verbatim>\<open>keyboard_callback\<close> of \<^verbatim>\<open>kernel.c\<close>. The local variable is not initialised, which is \<^term>\<open>None\<close>
  here; storing outside of the 256 bytes has no defined result.
\<close>

definition shell_callback :: "'h PORTS \<Rightarrow> 'h KERNEL isr_t" where
  "shell_callback P r s = do {
     key \<leftarrow> snd (read_key_buffer s None);
     if key = 8
     then (if sh_buffer_count s = 0 then Some s
           else do {
             let s = s\<lparr>sh_buffer_count := sh_buffer_count s - 1\<rparr>;
             m \<leftarrow> kprint P [8, 0] (machine s);
             Some (s\<lparr>machine := m\<rparr>)
           })
     else if key = 10 then Some (s\<lparr>bExecute := 1\<rparr>)
     else if 0 \<le> sh_buffer_count s \<and> sh_buffer_count s < int (length (sh_buffer s))
     then do {
       let s = s\<lparr>sh_buffer := (sh_buffer s)[nat (sh_buffer_count s) := key], sh_buffer_count := sh_buffer_count s + 1\<rparr>;
       m \<leftarrow> kprint P [key, 0] (machine s);
       Some (s\<lparr>machine := m\<rparr>)
     }
     else None
   }"

text \<open>Port output of the interrupt dispatch, and a series of keyboard interrupts.\<close>

definition kernel_out :: "'h PORTS \<Rightarrow> u16 \<Rightarrow> byte \<Rightarrow> 'h KERNEL \<Rightarrow> 'h KERNEL" where
  "kernel_out P p v = on_machine (hw_update (port_byte_out P p v))"

fun interrupts :: "'h PORTS \<Rightarrow> 'h KERNEL isr_t option list \<Rightarrow> registers_t list \<Rightarrow> 'h KERNEL \<Rightarrow> 'h KERNEL option" where
  "interrupts P handlers [] s = Some s"
| "interrupts P handlers (r # rs) s = do {
     s \<leftarrow> irq_handler (kernel_out P) handlers r s;
     interrupts P handlers rs s
   }"

end
