(* ===== verification/Terminal.thy ===== *)
theory Terminal
  imports Screen
begin

text \<open>
  What \<^verbatim>\<open>drivers/screen.c\<close> promises: a terminal. Its state is the 2000 cells and the cursor
  position; a character is put at the cursor, a newline moves to the next row, a backspace
  erases the cell before the cursor, and moving past the last row scrolls. The display
  controller is assumed to keep the cursor in its two registers (locale \<open>crtc\<close>).
\<close>

subsection \<open>The terminal\<close>

type_synonym cell = "byte \<times> byte"
type_synonym terminal = "cell list \<times> nat"

definition settle :: "cell list \<Rightarrow> nat \<Rightarrow> terminal" where
  "settle cs p = (if 2000 \<le> p then (drop 80 cs @ replicate 80 (0, 0), p - 80) else (cs, p))"

fun term_put :: "byte \<Rightarrow> terminal \<Rightarrow> terminal option" where
  "term_put c (cs, p) =
     (if c = 10 then Some (settle cs ((p div 80 + 1) * 80))
      else if c = 8 then (if p = 0 then None else Some (cs[p - 1 := (0, WHITE_ON_BLACK)], p - 1))
      else Some (settle (cs[p := (c, WHITE_ON_BLACK)]) (p + 1)))"

fun term_print :: "byte list \<Rightarrow> terminal \<Rightarrow> terminal option" where
  "term_print [] t = Some t"
| "term_print (c # cs) t = do { t \<leftarrow> term_put c t; term_print cs t }"

definition cells :: "flat_mem \<Rightarrow> cell list" where
  "cells m = map (\<lambda>k. (m (of_nat (0xb8000 + 2 * k)), m (of_nat (0xb8000 + 2 * k + 1)))) [0..<2000]"

lemma term_print_append: "term_print (xs @ ys) t = do { t \<leftarrow> term_print xs t; term_print ys t }"
proof (induction xs arbitrary: t)
  case (Cons c xs) then show ?case by (cases "term_put c t") simp_all
qed simp

lemma settle_bound: "p < 2080 \<Longrightarrow> settle cs p = (cs', p') \<Longrightarrow> p' < 2000"
  by (auto simp: settle_def split: if_splits)

lemma settle_length: "length cs = 2000 \<Longrightarrow> length (fst (settle cs p)) = 2000"
  by (auto simp: settle_def)

lemma term_put_ok:
  assumes "term_put c (cs, p) = Some (cs', p')" "p < 2000" "length cs = 2000"
  shows "p' < 2000" "length cs' = 2000"
proof -
  have "(p div 80 + 1) * 80 < 2080" using assms(2) by simp
  then show "p' < 2000" using assms(1,2) settle_bound [of "(p div 80 + 1) * 80" cs cs' p']
      settle_bound [of "p + 1" "cs[p := (c, WHITE_ON_BLACK)]" cs' p'] by (auto split: if_splits)
  show "length cs' = 2000"
    using assms(1,3) settle_length [of cs "(p div 80 + 1) * 80"]
      settle_length [of "cs[p := (c, WHITE_ON_BLACK)]" "p + 1"] by (auto split: if_splits)
qed

subsection \<open>Video memory\<close>

lemma vid_set_nat: "vid_set (int k) c m = m(of_nat (0xb8000 + k) := c)"
  by (simp add: vid_set_def VIDEO_ADDRESS_def)

lemma length_cells [simp]: "length (cells m) = 2000"
  by (simp add: cells_def)

lemma cells_nth: "k < 2000 \<Longrightarrow> cells m ! k = (m (of_nat (0xb8000 + 2 * k)), m (of_nat (0xb8000 + 2 * k + 1)))"
  by (simp add: cells_def)

text \<open>\<open>m'\<close> differs from \<open>m\<close> in video memory only.\<close>

definition only_video :: "flat_mem \<Rightarrow> flat_mem \<Rightarrow> bool" where
  "only_video m' m \<longleftrightarrow> (\<forall>i < 2 ^ 32. i < 0xb8000 \<or> 0xb8000 + 4000 \<le> i \<longrightarrow> m' (of_nat i) = m (of_nat i))"

lemma only_video_refl [simp]: "only_video m m"
  by (simp add: only_video_def)

lemma only_video_trans: "only_video m2 m1 \<Longrightarrow> only_video m1 m \<Longrightarrow> only_video m2 m"
  by (simp add: only_video_def)

lemma only_video_set: "k < 4000 \<Longrightarrow> only_video (vid_set (int k) c m) m"
  unfolding only_video_def vid_set_nat by (auto simp: of_nat_inj_u32 simp del: of_nat_add)

lemma only_video_put:
  "k < 2000 \<Longrightarrow> only_video (vid_set (int (2 * k + 1)) a (vid_set (int (2 * k)) c m)) m"
  by (rule only_video_trans [OF only_video_set only_video_set]) auto

lemma cells_put:
  assumes "k < 2000"
  shows "cells (vid_set (int (2 * k + 1)) a (vid_set (int (2 * k)) c m)) = (cells m)[k := (c, a)]"
proof (rule nth_equalityI)
  fix j assume "j < length (cells (vid_set (int (2 * k + 1)) a (vid_set (int (2 * k)) c m)))"
  then have j: "j < 2000" by simp
  have odd: "2 * j \<noteq> 2 * k + 1" "2 * j + 1 \<noteq> 2 * k" by presburger+
  show "cells (vid_set (int (2 * k + 1)) a (vid_set (int (2 * k)) c m)) ! j = (cells m)[k := (c, a)] ! j"
    unfolding vid_set_nat cells_nth [OF j] using j assms odd
    by (cases "j = k") (simp_all add: cells_nth of_nat_inj_u32 del: of_nat_add of_nat_Suc of_nat_mult)
qed simp

text \<open>Moving the first \<open>k\<close> rows up.\<close>

lemma move_row_at:
  assumes "0 < r" "r < 25" "i < 2 ^ 32"
  shows "move_row r m (of_nat i)
    = (if 0xb8000 + 160 * (r - 1) \<le> i \<and> i < 0xb8000 + 160 * r then m (of_nat (i + 160)) else m (of_nat i))"
proof -
  obtain q where q: "r = Suc q" using assms(1) by (cases r) auto
  have a: "of_int (get_offset 0 (int r)) + VIDEO_ADDRESS = of_nat (0xb8000 + 160 * r)"
    "of_int (get_offset 0 (int r - 1)) + VIDEO_ADDRESS = of_nat (0xb8000 + 160 * q)"
    using q by (simp_all add: get_offset_def VIDEO_ADDRESS_def)
  have n: "unat (160 :: i32) = 160" by simp
  have "0xb8000 + 160 * r + (i - (0xb8000 + 160 * q)) = i + 160" if "0xb8000 + 160 * q \<le> i"
    using that q by simp
  then show ?thesis
    unfolding move_row_def a
    using assms q flat_memcpy_at [of "0xb8000 + 160 * r" 160 "0xb8000 + 160 * q" i m]
    by (simp add: n add.commute [of 160 i] del: of_nat_add of_nat_mult of_nat_Suc)
qed

lemma move_rows_at:
  assumes "k \<le> 24" "i < 2 ^ 32"
  shows "fold move_row [1..<Suc k] m (of_nat i)
    = (if 0xb8000 \<le> i \<and> i < 0xb8000 + 160 * k then m (of_nat (i + 160)) else m (of_nat i))"
  using assms
proof (induction k arbitrary: i)
  case (Suc k)
  have s: "fold move_row [1..<Suc (Suc k)] m = move_row (Suc k) (fold move_row [1..<Suc k] m)" by simp
  show ?case
    unfolding s using Suc.prems Suc.IH [of i] Suc.IH [of "i + 160"]
    by (auto simp: move_row_at simp del: of_nat_add upt_Suc)
qed auto

lemma clear_line_at:
  assumes "k + n \<le> 4000" "i < 2 ^ 32"
  shows "fold (\<lambda>i. vid_set (int k + int i) 0) [0..<n] m (of_nat i)
    = (if 0xb8000 + k \<le> i \<and> i < 0xb8000 + k + n then 0 else m (of_nat i))"
  using assms(1)
proof (induction n)
  case (Suc n)
  have "vid_set (int k + int n) 0 = (\<lambda>m. m(of_nat (0xb8000 + (k + n)) := 0))"
    by (rule ext) (metis of_nat_add vid_set_nat)
  then show ?case using Suc assms(2) by (auto simp: of_nat_inj_u32 less_Suc_eq simp del: of_nat_add)
qed auto

lemma scroll_up_at:
  assumes "i < 2 ^ 32"
  shows "scroll_up m (of_nat i) =
    (if 0xb8000 \<le> i \<and> i < 0xb8000 + 3840 then m (of_nat (i + 160))
     else if 0xb8000 + 3840 \<le> i \<and> i < 0xb8000 + 4000 then 0 else m (of_nat i))"
proof -
  have r: "[1..<nat MAX_ROWS] = [1..<Suc 24]" "get_offset 0 (MAX_ROWS - 1) = int 3840"
    "[0..<nat (MAX_COLS * 2)] = [0..<160]"
    by (simp_all add: get_offset_def)
  let ?m = "fold move_row [1..<Suc 24] m"
  have "scroll_up m (of_nat i) = fold (\<lambda>i. vid_set (int 3840 + int i) 0) [0..<160] ?m (of_nat i)"
    unfolding scroll_up_def Let_def r by (rule refl)
  also have "\<dots> = (if 0xb8000 + 3840 \<le> i \<and> i < 0xb8000 + 3840 + 160 then 0 else ?m (of_nat i))"
    by (rule clear_line_at) (use assms in simp_all)
  also have "?m (of_nat i)
    = (if 0xb8000 \<le> i \<and> i < 0xb8000 + 160 * 24 then m (of_nat (i + 160)) else m (of_nat i))"
    by (rule move_rows_at) (use assms in simp_all)
  finally show ?thesis by auto
qed

lemma scroll_up_cells: "cells (scroll_up m) = drop 80 (cells m) @ replicate 80 (0, 0)"
proof (rule nth_equalityI)
  fix j assume "j < length (cells (scroll_up m))"
  then have j: "j < 2000" by simp
  have "0xb8000 + 2 * j + 160 = 0xb8000 + 2 * (80 + j)" by simp
  then show "cells (scroll_up m) ! j = (drop 80 (cells m) @ replicate 80 (0, 0)) ! j"
    using j by (simp add: cells_nth scroll_up_at nth_append del: of_nat_add of_nat_mult) presburger?
qed simp

lemma scroll_up_video: "only_video (scroll_up m) m"
  by (simp add: only_video_def scroll_up_at del: of_nat_add)

subsection \<open>The display controller\<close>

text \<open>The halves of a 16-bit position.\<close>

lemma word_halves: "push_bit 8 (uint (ucast (drop_bit 8 w) :: byte)) + uint (ucast w :: byte) = uint (w :: u16)"
proof -
  have l: "0 \<le> uint w" "uint w < 65536" using uint_lt2p [of w] by simp_all
  have "uint (ucast w :: byte) = uint w mod 256" by (simp add: unsigned_ucast_eq take_bit_eq_mod)
  moreover have "uint w div 256 mod 256 = uint w div 256"
    using l by (intro mod_pos_pos_trivial) (auto simp: pos_imp_zdiv_nonneg_iff)
  then have "uint (ucast (drop_bit 8 w) :: byte) = uint w div 256"
    by (simp add: unsigned_ucast_eq drop_bit_eq_div take_bit_eq_mod uint_div_distrib)
  ultimately show ?thesis by (simp add: push_bit_eq_mult)
qed

lemma word_halves_of:
  assumes "p < 2 ^ 16"
  shows "le16 (word_of_int (int p AND 0xff)) (ucast (drop_bit 8 (le16 a (word_of_int (drop_bit 8 (int p)))))) = of_nat p"
proof -
  have h: "ucast (drop_bit 8 (le16 a b)) = b" for a b
    using bytes16_le16 [of a b] by (simp add: bytes16_def)
  have mask: "(0xff :: int) = mask 8" by (simp add: mask_eq_exp_minus_1)
  have "le16 (word_of_int (int p AND 0xff)) (word_of_int (drop_bit 8 (int p))) = of_nat p"
    unfolding le16_def mask by (rule bit_word_eqI) (auto simp: bit_simps)
  then show ?thesis by (simp add: h)
qed

text \<open>
  The terminal in a machine state, and the parts of the machine that printing leaves alone.
  \<open>ready\<close>, \<open>cursor\<close> and \<open>rest\<close> are views of the hardware.
\<close>

definition term_on :: "('h \<Rightarrow> bool) \<Rightarrow> ('h \<Rightarrow> u16) \<Rightarrow> 'h MACHINE \<Rightarrow> terminal \<Rightarrow> bool" where
  "term_on ready cursor s t \<longleftrightarrow>
     ready (hw s) \<and> cells (ram s) = fst t \<and> unat (cursor (hw s)) = snd t \<and> snd t < 2000"

definition leaves_on :: "('h \<Rightarrow> 'r) \<Rightarrow> 'h MACHINE \<Rightarrow> 'h MACHINE \<Rightarrow> bool" where
  "leaves_on rest s' s \<longleftrightarrow> only_video (ram s') (ram s) \<and> rest (hw s') = rest (hw s)"

text \<open>
  What the code relies on: a write to the control port selects a register; register 14 holds
  the high byte of the cursor position and 15 the low byte, read and written through the
  data port. \<open>rest\<close> is the hardware that these ports do not reach.
\<close>

locale crtc =
  fixes P :: "'h PORTS" and ready :: "'h \<Rightarrow> bool" and selected :: "'h \<Rightarrow> byte"
    and cursor :: "'h \<Rightarrow> u16" and rest :: "'h \<Rightarrow> 'r"
  assumes select: "\<And>h r. ready h \<Longrightarrow> let h' = port_byte_out P 0x3d4 r h
      in ready h' \<and> selected h' = r \<and> cursor h' = cursor h \<and> rest h' = rest h"
    and read_data: "\<And>h. ready h \<Longrightarrow> selected h \<in> {14, 15} \<Longrightarrow> let (v, h') = port_byte_in P 0x3d5 h
      in v = (if selected h = 14 then ucast (drop_bit 8 (cursor h)) else ucast (cursor h))
        \<and> ready h' \<and> selected h' = selected h \<and> cursor h' = cursor h \<and> rest h' = rest h"
    and write_data: "\<And>h v. ready h \<Longrightarrow> selected h \<in> {14, 15} \<Longrightarrow> let h' = port_byte_out P 0x3d5 v h
      in cursor h' = (if selected h = 14 then le16 (ucast (cursor h)) v else le16 v (ucast (drop_bit 8 (cursor h))))
        \<and> ready h' \<and> selected h' = selected h \<and> rest h' = rest h"
begin

lemma get_cursor_offset_ok:
  assumes "ready h"
  obtains h' where "get_cursor_offset P h = (2 * uint (cursor h), h')" "ready h'" "cursor h' = cursor h" "rest h' = rest h"
proof -
  obtain h1 where h1: "port_byte_out P 0x3d4 14 h = h1" "ready h1" "selected h1 = 14" "cursor h1 = cursor h" "rest h1 = rest h"
    using select [OF assms, of 14] by (auto simp: Let_def)
  obtain h2 where h2: "port_byte_in P 0x3d5 h1 = (ucast (drop_bit 8 (cursor h)), h2)" "ready h2" "cursor h2 = cursor h" "rest h2 = rest h"
    using read_data [OF h1(2)] h1 by (auto split: prod.splits)
  obtain h3 where h3: "port_byte_out P 0x3d4 15 h2 = h3" "ready h3" "selected h3 = 15" "cursor h3 = cursor h" "rest h3 = rest h"
    using select [OF h2(2), of 15] h2 by (auto simp: Let_def)
  obtain h4 where h4: "port_byte_in P 0x3d5 h3 = (ucast (cursor h), h4)" "ready h4" "cursor h4 = cursor h" "rest h4 = rest h"
    using read_data [OF h3(2)] h3 by (auto split: prod.splits)
  have "get_cursor_offset P h = (2 * uint (cursor h), h4)"
    using word_halves [of "cursor h"] by (simp add: get_cursor_offset_def h1(1) h2(1) h3(1) h4(1))
  then show ?thesis using that h4 by blast
qed

lemma set_cursor_offset_ok:
  assumes "ready h" "p < 2 ^ 16"
  shows "ready (set_cursor_offset P (int (2 * p)) h)" "cursor (set_cursor_offset P (int (2 * p)) h) = of_nat p"
    "rest (set_cursor_offset P (int (2 * p)) h) = rest h"
proof -
  define b1 :: byte where "b1 = word_of_int (drop_bit 8 (int p))"
  define b0 :: byte where "b0 = word_of_int (int p AND 0xff)"
  obtain h1 where h1: "port_byte_out P 0x3d4 14 h = h1" "ready h1" "selected h1 = 14" "rest h1 = rest h"
    using select [OF assms(1), of 14] by (auto simp: Let_def)
  obtain h2 where h2: "port_byte_out P 0x3d5 b1 h1 = h2" "ready h2" "cursor h2 = le16 (ucast (cursor h1)) b1" "rest h2 = rest h"
    using write_data [OF h1(2), of b1] h1 by (auto simp: Let_def)
  obtain h3 where h3: "port_byte_out P 0x3d4 15 h2 = h3" "ready h3" "selected h3 = 15" "cursor h3 = cursor h2" "rest h3 = rest h"
    using select [OF h2(2), of 15] h2 by (auto simp: Let_def)
  obtain h4 where h4: "port_byte_out P 0x3d5 b0 h3 = h4" "ready h4" "cursor h4 = le16 b0 (ucast (drop_bit 8 (cursor h2)))" "rest h4 = rest h"
    using write_data [OF h3(2), of b0] h3 by (auto simp: Let_def)
  have "set_cursor_offset P (int (2 * p)) h = h4"
    using h1(1) h2(1) h3(1) h4(1) sdiv_nat(2) [of "2 * p" "num.Bit0 num.One"]
    by (simp add: set_cursor_offset_def b1_def b0_def)
  moreover have "cursor h4 = of_nat p"
    unfolding h4(3) h2(3) b1_def b0_def using assms(2) by (simp add: word_halves_of)
  ultimately show "ready (set_cursor_offset P (int (2 * p)) h)"
    "cursor (set_cursor_offset P (int (2 * p)) h) = of_nat p"
    "rest (set_cursor_offset P (int (2 * p)) h) = rest h"
    using h4 by simp_all
qed

subsubsection \<open>Printing\<close>

abbreviation shows_term :: "'h MACHINE \<Rightarrow> terminal \<Rightarrow> bool" where
  "shows_term \<equiv> term_on ready cursor"

abbreviation leaves :: "'h MACHINE \<Rightarrow> 'h MACHINE \<Rightarrow> bool" where
  "leaves \<equiv> leaves_on rest"

lemma leaves_refl [simp]: "leaves s s"
  by (simp add: leaves_on_def)

lemma leaves_trans: "leaves s2 s1 \<Longrightarrow> leaves s1 s \<Longrightarrow> leaves s2 s"
  by (auto simp: leaves_on_def intro: only_video_trans)

lemma shows_termD:
  assumes "shows_term s (cs, p)"
  shows "ready (hw s)" "cells (ram s) = cs" "unat (cursor (hw s)) = p" "p < 2000" "length cs = 2000"
  using assms by (auto simp: term_on_def)

text \<open>The screen after \<^verbatim>\<open>print_char\<close> has stored a character and moved the offset.\<close>

lemma settle_ok:
  assumes "ready h" "p < 2080"
    and x_def: "x = (if 2000 \<le> p then p - 80 else p)" and m'_def: "m' = (if 2000 \<le> p then scroll_up m else m)"
  shows "settle (cells m) p = (cells m', x)" "only_video m' m" "x < 2000"
    "shows_term (s\<lparr>ram := m', hw := set_cursor_offset P (int (2 * x)) h\<rparr>) (settle (cells m) p)"
proof -
  show st: "settle (cells m) p = (cells m', x)" "only_video m' m" and x: "x < 2000"
    using assms(2) unfolding x_def m'_def by (auto simp: settle_def scroll_up_cells scroll_up_video)
  have "x < 2 ^ 16" using x by simp
  note c = set_cursor_offset_ok [OF assms(1) this]
  have "unat (of_nat x :: u16) = x" using x by (simp add: unat_of_nat)
  then show "shows_term (s\<lparr>ram := m', hw := set_cursor_offset P (int (2 * x)) h\<rparr>) (settle (cells m) p)"
    using c x unfolding st by (simp add: term_on_def)
qed

end

lemma place_nat:
  "get_offset_row (int (2 * p)) = int (p div 80)" "get_offset_column (int (2 * p)) = int (p mod 80)"
  "get_offset (int (p mod 80)) (int (p div 80)) = int (2 * p)"
proof -
  have e: "int p = 80 * int (p div 80) + int (p mod 80)"
    using mult_div_mod_eq [of 80 p] by (metis of_nat_add of_nat_mult of_nat_numeral)
  have "int (2 * p) sdiv 160 = int (p div 80)" using sdiv_nat(1) [of "2 * p" 160] by simp
  then show r: "get_offset_row (int (2 * p)) = int (p div 80)" by (simp add: get_offset_row_def)
  have "int (2 * p) - int (p div 80) * 2 * 80 = int (2 * (p mod 80))" using e by simp
  then show "get_offset_column (int (2 * p)) = int (p mod 80)"
    using sdiv_nat(1) [of "2 * (p mod 80)" 2] r by (simp add: get_offset_column_def)
  show "get_offset (int (p mod 80)) (int (p div 80)) = int (2 * p)"
    using e by (simp add: get_offset_def)
qed

text \<open>\<^verbatim>\<open>print_char\<close> on the screen: what it stores, where it moves, and both at once.\<close>

definition stored :: "byte \<Rightarrow> nat \<Rightarrow> flat_mem \<Rightarrow> flat_mem" where
  "stored c p m =
     (if c = 10 then m
      else if c = 8 then vid_set (int (2 * (p - 1) + 1)) WHITE_ON_BLACK (vid_set (int (2 * (p - 1))) 0 m)
      else vid_set (int (2 * p + 1)) WHITE_ON_BLACK (vid_set (int (2 * p)) c m))"

definition moved :: "byte \<Rightarrow> nat \<Rightarrow> nat" where
  "moved c p = (if c = 10 then (p div 80 + 1) * 80 else if c = 8 then p - 1 else p + 1)"

lemma print_char_at:
  assumes "p < 2000" and ne: "c = 8 \<Longrightarrow> 0 < p"
  shows "print_char P c (int (p mod 80)) (int (p div 80)) WHITE_ON_BLACK s
    = (let q = moved c p; m = stored c p (ram s); x = (if 2000 \<le> q then q - 80 else q)
       in (int (2 * x), s\<lparr>ram := (if 2000 \<le> q then scroll_up m else m), hw := set_cursor_offset P (int (2 * x)) (hw s)\<rparr>))"
proof -
  have r: "\<not> (MAX_COLS \<le> int (p mod 80) \<or> MAX_ROWS \<le> int (p div 80))" "\<not> (int (p mod 80) < 0 \<or> int (p div 80) < 0)"
    using assms(1) by auto
  have o: "get_offset 0 (get_offset_row (int (2 * p)) + 1) = int (2 * ((p div 80 + 1) * 80))"
    unfolding place_nat by (simp add: get_offset_def)
  have b: "int (2 * p) - 2 = int (2 * (p - 1))" if "c = 8" using ne [OF that] by simp
  have b1: "int n + 1 = int (n + 1)" for n by simp
  have f: "int (2 * p) + 2 = int (2 * (p + 1))" by simp
  have mid: "(if c = 10 then (get_offset 0 (get_offset_row (int (2 * p)) + 1), ram s)
      else if c = 8 then (int (2 * p) - 2, vid_set (int (2 * p) - 2 + 1) WHITE_ON_BLACK (vid_set (int (2 * p) - 2) 0 (ram s)))
      else (int (2 * p) + 2, vid_set (int (2 * p) + 1) WHITE_ON_BLACK (vid_set (int (2 * p)) c (ram s))))
    = (int (2 * moved c p), stored c p (ram s))"
    unfolding o f moved_def stored_def
    by (cases "c = 10"; cases "c = 8") (simp_all only: b b1 if_True if_False simp_thms)
  have lim: "MAX_ROWS * MAX_COLS * 2 \<le> int (2 * q) \<longleftrightarrow> 2000 \<le> q" for q by simp
  have sub: "int (2 * q) - 2 * MAX_COLS = int (2 * (q - 80))" if "2000 \<le> q" for q using that by simp
  have tail: "(if MAX_ROWS * MAX_COLS * 2 \<le> int (2 * q) then (int (2 * q) - 2 * MAX_COLS, scroll_up m) else (int (2 * q), m))
    = (int (2 * (if 2000 \<le> q then q - 80 else q)), if 2000 \<le> q then scroll_up m else m)" for q m
    by (cases "2000 \<le> q") (simp_all only: lim sub if_True if_False)
  have w: "(if (WHITE_ON_BLACK :: byte) = 0 then WHITE_ON_BLACK else WHITE_ON_BLACK) = WHITE_ON_BLACK" by simp
  show ?thesis
    by (simp only: print_char_def Let_def if_not_P [OF r(1)] if_not_P [OF r(2)] place_nat(3) w prod.case mid tail)
qed

lemma moved_bound: "p < 2000 \<Longrightarrow> moved c p < 2080"
  by (auto simp: moved_def)

lemma stored_ok:
  assumes "p < 2000" "c = 8 \<Longrightarrow> 0 < p"
  shows "term_put c (cells m, p) = Some (settle (cells (stored c p m)) (moved c p))" "only_video (stored c p m) m"
proof -
  have s: "settle cs (p - Suc 0) = (cs, p - Suc 0)" for cs :: "cell list" using assms(1) unfolding settle_def by auto
  have k: "p - 1 < 2000" using assms(1) by simp
  show "term_put c (cells m, p) = Some (settle (cells (stored c p m)) (moved c p))"
    using assms(2) cells_put [OF k, of WHITE_ON_BLACK 0 m] cells_put [OF assms(1), of WHITE_ON_BLACK c m]
    by (auto simp: stored_def moved_def s simp del: of_nat_mult of_nat_add WHITE_ON_BLACK_def)
  show "only_video (stored c p m) m"
    using assms only_video_put [of p WHITE_ON_BLACK c m] only_video_put [OF k, of WHITE_ON_BLACK 0 m]
    unfolding stored_def by auto
qed

context crtc
begin

lemma print_char_ok:
  assumes "shows_term s (cs, p)" "term_put c (cs, p) = Some t"
  obtains s' where "print_char P c (int (p mod 80)) (int (p div 80)) WHITE_ON_BLACK s = (int (2 * snd t), s')"
    "shows_term s' t" "leaves s' s"
proof -
  note t = shows_termD [OF assms(1)]
  have ne: "c = 8 \<Longrightarrow> 0 < p" using assms(2) by (auto split: if_splits)
  define q where "q = moved c p"
  define m where "m = stored c p (ram s)"
  define x where "x = (if 2000 \<le> q then q - 80 else q)"
  define m' where "m' = (if 2000 \<le> q then scroll_up m else m)"
  have q: "q < 2080" unfolding q_def by (rule moved_bound [OF t(4)])
  note st = settle_ok [OF t(1) q x_def m'_def]
  have te: "t = settle (cells m) q" using stored_ok(1) [OF t(4) ne, where m = "ram s"] assms(2) t(2) by (simp add: m_def q_def)
  let ?s' = "s\<lparr>ram := m', hw := set_cursor_offset P (int (2 * x)) (hw s)\<rparr>"
  have pc: "print_char P c (int (p mod 80)) (int (p div 80)) WHITE_ON_BLACK s = (int (2 * x), ?s')"
    unfolding m'_def x_def q_def m_def using print_char_at [OF t(4) ne, where P = P and s = s] by (simp only: Let_def)
  have "only_video m' (ram s)"
    using st(2) stored_ok(2) [OF t(4) ne, where m = "ram s"] only_video_trans by (auto simp: m_def)
  moreover have "rest (hw ?s') = rest (hw s)"
    using set_cursor_offset_ok(3) [OF t(1), of x] st(3) by simp
  moreover have "snd t = x" using st(1) te by simp
  ultimately show ?thesis
    using that [of ?s'] pc st(4) [of s] by (simp add: leaves_on_def te)
qed

lemma start_place_ok:
  assumes "shows_term s (cs, p)"
  obtains s' where "start_place P (-1) (-1) s = (int (p mod 80), int (p div 80), s')" "shows_term s' (cs, p)" "leaves s' s"
proof -
  note t = shows_termD [OF assms]
  obtain h' where h: "get_cursor_offset P (hw s) = (2 * uint (cursor (hw s)), h')" "ready h'"
    "cursor h' = cursor (hw s)" "rest h' = rest (hw s)"
    using get_cursor_offset_ok [OF t(1)] by blast
  have "uint (cursor (hw s)) = int p" using t(3) by (metis uint_nat)
  then have "2 * uint (cursor (hw s)) = int (2 * p)" by simp
  then have "start_place P (-1) (-1) s = (int (p mod 80), int (p div 80), s\<lparr>hw := h'\<rparr>)"
    unfolding start_place_def h(1) by (simp add: place_nat del: of_nat_mult)
  then show ?thesis using that h t by (simp add: term_on_def leaves_on_def)
qed

lemma kprint_loop_ok:
  assumes "shows_term s t" "0 \<notin> set msg" "term_print msg t = Some t'"
  shows "\<exists>s'. kprint_loop P (msg @ 0 # junk) (int (snd t mod 80)) (int (snd t div 80)) s = Some s'
    \<and> shows_term s' t' \<and> leaves s' s"
  using assms
proof (induction msg arbitrary: s t)
  case (Cons c cs)
  obtain u where u: "term_put c t = Some u" "term_print cs u = Some t'"
    using Cons.prems(3) by (cases "term_put c t") auto
  obtain s1 where s1: "print_char P c (int (snd t mod 80)) (int (snd t div 80)) WHITE_ON_BLACK s = (int (2 * snd u), s1)"
    "shows_term s1 u" "leaves s1 s"
    using print_char_ok [of s "fst t" "snd t" c u] Cons.prems(1) u(1) by auto
  show ?case
    using Cons.IH [OF s1(2) _ u(2)] Cons.prems(2) s1 leaves_trans by (fastforce simp: place_nat simp del: of_nat_mult)
qed simp

lemma kprint_ok:
  assumes "shows_term s t" "0 \<notin> set msg" "term_print msg t = Some t'"
  obtains s' where "kprint P (msg @ 0 # junk) s = Some s'" "shows_term s' t'" "leaves s' s"
proof -
  obtain s1 where s1: "start_place P (-1) (-1) s = (int (snd t mod 80), int (snd t div 80), s1)" "shows_term s1 t" "leaves s1 s"
    using start_place_ok [of s "fst t" "snd t"] assms(1) by auto
  show ?thesis
    using that kprint_loop_ok [OF s1(2) assms(2,3), of junk] s1 leaves_trans
    by (auto simp: kprint_def kprint_at_def)
qed

lemma kprint_char_ok:
  assumes "shows_term s t" "term_put c t = Some t'"
  shows "shows_term (kprint_char P c s) t'" "leaves (kprint_char P c s) s"
proof -
  obtain s1 where s1: "start_place P (-1) (-1) s = (int (snd t mod 80), int (snd t div 80), s1)" "shows_term s1 t" "leaves s1 s"
    using start_place_ok [of s "fst t" "snd t"] assms(1) by auto
  obtain s2 where "print_char P c (int (snd t mod 80)) (int (snd t div 80)) WHITE_ON_BLACK s1 = (int (2 * snd t'), s2)"
    "shows_term s2 t'" "leaves s2 s1"
    using print_char_ok [of s1 "fst t" "snd t" c t'] s1(2) assms(2) by auto
  then show "shows_term (kprint_char P c s) t'" "leaves (kprint_char P c s) s"
    using s1 leaves_trans by (auto simp: kprint_char_def kprint_char_at_def)
qed

end

lemma clear_screen_at:
  fixes c :: byte
  defines "f \<equiv> \<lambda>i m. vid_set (2 * int i + 1) WHITE_ON_BLACK (vid_set (2 * int i) c m)"
  assumes "k \<le> 2000" "j < 2000"
  shows "cells (fold f [0..<k] m) ! j = (if j < k then (c, WHITE_ON_BLACK) else cells m ! j)
    \<and> only_video (fold f [0..<k] m) m"
  using assms(2)
proof (induction k)
  case (Suc k)
  have e: "fold f [0..<Suc k] m = vid_set (int (2 * k + 1)) WHITE_ON_BLACK (vid_set (int (2 * k)) c (fold f [0..<k] m))"
    by (simp add: f_def add.commute)
  have k: "k < 2000" using Suc.prems by simp
  show ?case
    unfolding e cells_put [OF k] using Suc k assms(3) only_video_trans [OF only_video_put [OF k]]
    by (auto simp: nth_list_update less_Suc_eq)
qed simp

context crtc
begin

lemma clear_screen_ok:
  assumes "shows_term s (cs, p)"
  shows "shows_term (clear_screen s) (replicate 2000 (ch CHR '' '', WHITE_ON_BLACK), p)" "leaves (clear_screen s) s"
proof -
  have n: "nat (MAX_COLS * MAX_ROWS) = 2000" by simp
  note c = clear_screen_at [of 2000 _ "ch CHR '' ''" "ram s", OF order_refl]
  have "cells (ram (clear_screen s)) = replicate 2000 (ch CHR '' '', WHITE_ON_BLACK)"
    by (rule nth_equalityI) (use c in \<open>simp_all add: clear_screen_def n del: WHITE_ON_BLACK_def\<close>)
  then show "shows_term (clear_screen s) (replicate 2000 (ch CHR '' '', WHITE_ON_BLACK), p)"
    using shows_termD [OF assms] by (simp add: term_on_def clear_screen_def)
  show "leaves (clear_screen s) s"
    using c [of 0] by (simp add: leaves_on_def clear_screen_def n)
qed

end

end
