(* ===== verification/Console.thy ===== *)
theory Console
  imports Keyboard Terminal
begin

text \<open>
  The console: interrupt dispatch, keyboard driver, input line and screen together behave as a
  line editor. A scan code toggles shift, does nothing or types a character; a character is
  appended to the line and shown, a backspace takes the last one back, a newline ends the
  line. The locale \<open>console\<close> adds the keyboard port and the interrupt controllers to the display.
\<close>

subsection \<open>The line editor\<close>

record EDITOR =
  input :: "byte list"
  shift :: bool
  entered :: bool
  seen :: terminal

datatype KEY = Shift | Letter byte | Ignored

definition key_of :: "byte \<Rightarrow> KEY" where
  "key_of scancode =
     (let letter = first_char (print_letter scancode)
      in if letter = ch CHR ''S'' then Shift else if letter = 0 then Ignored else Letter letter)"

definition shifted :: "bool \<Rightarrow> byte \<Rightarrow> byte" where
  "shifted up c =
     (if \<not> up then c
      else if ch CHR ''a'' \<le> c \<and> c \<le> ch CHR ''z'' then c - 32
      else if c = ch CHR '';'' then ch CHR '':'' else c)"

definition edit :: "byte \<Rightarrow> EDITOR \<Rightarrow> EDITOR option" where
  "edit c e =
     (if c = 8
      then (if input e = [] then Some e
            else map_option (\<lambda>t. e\<lparr>input := butlast (input e), seen := t\<rparr>) (term_put 8 (seen e)))
      else if c = 10 then Some (e\<lparr>entered := True\<rparr>)
      else if length (input e) < 256
      then map_option (\<lambda>t. e\<lparr>input := input e @ [c], seen := t\<rparr>) (term_put c (seen e))
      else None)"

definition press :: "byte \<Rightarrow> EDITOR \<Rightarrow> EDITOR option" where
  "press scancode e =
     (case key_of scancode of
        Shift \<Rightarrow> Some (e\<lparr>shift := \<not> shift e\<rparr>)
      | Ignored \<Rightarrow> Some e
      | Letter c \<Rightarrow> edit (shifted (shift e) c) e)"

fun press_all :: "byte list \<Rightarrow> EDITOR \<Rightarrow> EDITOR option" where
  "press_all [] e = Some e"
| "press_all (sc # scs) e = do { e \<leftarrow> press sc e; press_all scs e }"

text \<open>The line editor in a kernel state.\<close>

definition editor_on :: "('h \<Rightarrow> bool) \<Rightarrow> ('h \<Rightarrow> u16) \<Rightarrow> 'h KERNEL \<Rightarrow> EDITOR \<Rightarrow> bool" where
  "editor_on ready cursor s e \<longleftrightarrow> length (sh_buffer s) = 256 \<and> sh_buffer_count s = int (length (input e))
     \<and> length (input e) \<le> 256 \<and> take (length (input e)) (sh_buffer s) = input e
     \<and> high s = (if shift e then 1 else 0) \<and> bExecute s = (if entered e then 1 else 0)
     \<and> term_on ready cursor (machine s) (seen e)"

subsection \<open>The interface to the hardware\<close>

locale console = crtc P ready selected cursor pending
  for P :: "'h PORTS" and ready :: "'h \<Rightarrow> bool" and selected :: "'h \<Rightarrow> byte"
    and cursor :: "'h \<Rightarrow> u16" and pending :: "'h \<Rightarrow> byte list" +
  assumes scan_port: "\<And>h sc q. ready h \<Longrightarrow> pending h = sc # q \<Longrightarrow> let (v, h') = port_byte_in P 0x60 h
      in v = sc \<and> ready h' \<and> cursor h' = cursor h \<and> pending h' = q"
    and pic_ports: "\<And>h p v. ready h \<Longrightarrow> p \<in> {0x20, 0xa0} \<Longrightarrow> let h' = port_byte_out P p v h
      in ready h' \<and> cursor h' = cursor h \<and> pending h' = pending h"
begin

abbreviation shell_ok :: "'h KERNEL \<Rightarrow> EDITOR \<Rightarrow> bool" where
  "shell_ok \<equiv> editor_on ready cursor"

abbreviation waiting :: "'h KERNEL \<Rightarrow> byte list" where
  "waiting s \<equiv> pending (hw (machine s))"

text \<open>The three parts an edit changes: the line, its count, and the screen.\<close>

lemma shell_okI:
  assumes "shell_ok s e" "length buf = 256" "length l \<le> 256" "take (length l) buf = l" "shows_term m t"
  shows "shell_ok (s\<lparr>sh_buffer := buf, sh_buffer_count := int (length l), machine := m\<rparr>) (e\<lparr>input := l, seen := t\<rparr>)"
  using assms unfolding editor_on_def by simp

lemma shell_callback_ok:
  assumes "shell_ok s e" "key s = c" "c \<noteq> 0" "edit c e = Some e'"
  shows "\<exists>s'. shell_callback P r s = Some s' \<and> shell_ok s' e' \<and> waiting s' = waiting s"
proof -
  note ok = assms(1) [unfolded editor_on_def]
  have c: "sh_buffer_count s = int (length (input e))" using ok by blast
  consider "c = 8" "input e = []" | "c = 8" "input e \<noteq> []" | "c = 10" | "c \<noteq> 8" "c \<noteq> 10" by blast
  then show ?thesis
  proof cases
    case 1
    then show ?thesis using assms ok by (simp add: shell_callback_def read_key_buffer_def edit_def)
  next
    case 2
    then obtain t where t: "term_put 8 (seen e) = Some t" "e' = e\<lparr>input := butlast (input e), seen := t\<rparr>"
      using assms(4) by (auto simp: edit_def)
    obtain m where m: "kprint P ([8] @ [0]) (machine s) = Some m" "shows_term m t" "leaves m (machine s)"
      using kprint_ok [of "machine s" "seen e" "[8]" t "[]"] ok t(1) by auto
    have n: "sh_buffer_count s \<noteq> 0" "int (length (input e)) - 1 = int (length (butlast (input e)))" using 2(2) ok by (simp_all add: of_nat_diff Suc_le_eq)
    have "take (length (butlast (input e))) (sh_buffer s) = butlast (input e)"
      using ok take_take [of "length (input e) - 1" "length (input e)" "sh_buffer s"] by (simp add: butlast_conv_take min_def)
    then have "shell_ok (s\<lparr>sh_buffer := sh_buffer s, sh_buffer_count := int (length (butlast (input e))), machine := m\<rparr>) e'"
      unfolding t(2) using ok by (intro shell_okI [OF assms(1)] m(2)) auto
    moreover have "shell_callback P r s
        = Some (s\<lparr>sh_buffer := sh_buffer s, sh_buffer_count := int (length (butlast (input e))), machine := m\<rparr>)"
      using m(1) n(1) 2(1) unfolding n(2) [symmetric] by (simp add: shell_callback_def read_key_buffer_def assms(2) c)
    ultimately show ?thesis using m(3) by (simp add: leaves_on_def)
  next
    case 3
    then have "shell_callback P r s = Some (s\<lparr>bExecute := 1\<rparr>)" "e' = e\<lparr>entered := True\<rparr>"
      using assms(2,4) by (simp_all add: shell_callback_def read_key_buffer_def edit_def)
    then show ?thesis using ok by (simp add: editor_on_def)
  next
    case 4
    then obtain t where t: "length (input e) < 256" "term_put c (seen e) = Some t" "e' = e\<lparr>input := input e @ [c], seen := t\<rparr>"
      using assms(4) by (auto simp: edit_def split: if_splits)
    obtain m where m: "kprint P ([c] @ [0]) (machine s) = Some m" "shows_term m t" "leaves m (machine s)"
      using kprint_ok [of "machine s" "seen e" "[c]" t "[]"] ok t(2) assms(3) by auto
    have "take (Suc (length (input e))) ((sh_buffer s)[length (input e) := c]) = input e @ [c]"
      using ok t(1) by (simp add: take_Suc_conv_app_nth)
    then have "shell_ok (s\<lparr>sh_buffer := (sh_buffer s)[length (input e) := c], sh_buffer_count := int (length (input e @ [c])),
        machine := m\<rparr>) e'"
      unfolding t(3) using ok t(1) by (intro shell_okI [OF assms(1)] m(2)) auto
    moreover have "shell_callback P r s = Some (s\<lparr>sh_buffer := (sh_buffer s)[length (input e) := c],
        sh_buffer_count := int (length (input e @ [c])), machine := m\<rparr>)"
      using m(1) ok t(1) 4 assms(3) by (simp add: shell_callback_def read_key_buffer_def assms(2) add.commute)
    ultimately show ?thesis using m(3) by (simp add: leaves_on_def)
  qed
qed

lemma shifted_key:
  "h = (if up then 1 else 0 :: int) \<Longrightarrow>
   (if ch CHR ''a'' \<le> c \<and> c \<le> ch CHR ''z'' then c - of_int h * 32
    else if c = ch CHR '';'' then (if h \<noteq> 0 then ch CHR '':'' else ch CHR '';'') else c) = shifted up c"
  by (auto simp: shifted_def)

lemma shifted_nz: "c \<noteq> 0 \<Longrightarrow> shifted up c \<noteq> 0"
proof -
  assume c: "c \<noteq> 0"
  have "c - 32 \<noteq> 0" if "97 \<le> c" using that by auto
  then show ?thesis using c by (simp add: shifted_def ch_def)
qed

lemma driver_callback_ok:
  assumes "shell_ok s e" "waiting s = sc # q" "press sc e = Some e'"
  shows "\<exists>s'. driver_callback P (shell_callback P) r s = Some s' \<and> shell_ok s' e' \<and> waiting s' = q"
proof -
  note ok = assms(1) [unfolded editor_on_def]
  have rd: "ready (hw (machine s))" using ok by (simp add: term_on_def)
  obtain h where h: "port_byte_in P 0x60 (hw (machine s)) = (sc, h)" "ready h" "cursor h = cursor (hw (machine s))" "pending h = q"
    using scan_port [OF rd assms(2)] by (auto split: prod.splits)
  let ?s = "on_machine (hw_update (\<lambda>_. h)) s"
  have s: "shell_ok ?s e" "waiting ?s = q"
    using ok h by (simp_all add: editor_on_def on_machine_def term_on_def)
  define letter where "letter = first_char (print_letter sc)"
  consider "letter = ch CHR ''S''" | "letter \<noteq> ch CHR ''S''" "letter = 0" | "letter \<noteq> ch CHR ''S''" "letter \<noteq> 0" by blast
  then show ?thesis
  proof cases
    case 1
    then show ?thesis
      using s assms(3) by (auto simp: driver_callback_def h(1) letter_def press_def key_of_def editor_on_def)
  next
    case 2
    then show ?thesis
      using s assms(3) by (auto simp: driver_callback_def h(1) letter_def press_def key_of_def Let_def)
  next
    case 3
    let ?k = "shifted (shift e) letter"
    have e: "edit ?k e = Some e'" using 3 assms(3) by (simp add: press_def key_of_def letter_def Let_def)
    have "shell_ok (?s\<lparr>key := ?k\<rparr>) e" "waiting (?s\<lparr>key := ?k\<rparr>) = q" using s by (simp_all add: editor_on_def)
    moreover have k: "(if ch CHR ''a'' \<le> letter \<and> letter \<le> ch CHR ''z'' then letter - of_int (high ?s) * 32
      else if letter = ch CHR '';'' then (if high ?s \<noteq> 0 then ch CHR '':'' else ch CHR '';'') else letter) = ?k"
      by (rule shifted_key) (use s(1) in \<open>simp add: editor_on_def\<close>)
    have "driver_callback P (shell_callback P) r s = shell_callback P r (?s\<lparr>key := ?k\<rparr>)"
      unfolding driver_callback_def h(1) Let_def prod.case letter_def [symmetric] k using 3 by simp
    ultimately show ?thesis
      using shell_callback_ok [of "?s\<lparr>key := ?k\<rparr>" e ?k e' r] shifted_nz [OF 3(2)] e by auto
  qed
qed

lemma interrupt_ok:
  assumes "shell_ok s e" "waiting s = sc # q" "press sc e = Some e'"
    and "int_no r = 33" "length handlers = 256"
    and "handlers' = init_keyboard P (shell_callback P) handlers"
  shows "\<exists>s'. irq_handler (kernel_out P) handlers' r s = Some s' \<and> shell_ok s' e' \<and> waiting s' = q"
proof -
  let ?s = "kernel_out P 0x20 0x20 s"
  have "ready (hw (machine s))" using assms(1) by (simp add: editor_on_def term_on_def)
  then have s: "shell_ok ?s e" "waiting ?s = sc # q"
    using assms(1,2) pic_ports [of "hw (machine s)" "0x20" "0x20"]
    by (auto simp: editor_on_def kernel_out_def on_machine_def term_on_def Let_def)
  have "handlers' ! 33 = Some (driver_callback P (shell_callback P))" "length handlers' = 256"
    using assms(5) by (simp_all add: assms(6) init_keyboard_def register_interrupt_handler_def)
  then have "irq_handler (kernel_out P) handlers' r s = driver_callback P (shell_callback P) r ?s"
    by (simp add: irq_handler_def assms(4))
  then show ?thesis using driver_callback_ok [OF s assms(3)] by simp
qed

lemma interrupts_ok:
  assumes "shell_ok s e" "waiting s = scs @ q" "press_all scs e = Some e'"
    and "length rs = length scs" "\<forall>r \<in> set rs. int_no r = 33" "length handlers = 256"
  shows "\<exists>s'. interrupts P (init_keyboard P (shell_callback P) handlers) rs s = Some s' \<and> shell_ok s' e' \<and> waiting s' = q"
  using assms(1-5)
proof (induction scs arbitrary: rs s e)
  case (Cons sc scs)
  obtain r rs' where r: "rs = r # rs'" using Cons.prems(4) by (cases rs) auto
  obtain e1 where e1: "press sc e = Some e1" "press_all scs e1 = Some e'"
    using Cons.prems(3) by (auto split: bind_splits)
  obtain s1 where s1: "irq_handler (kernel_out P) (init_keyboard P (shell_callback P) handlers) r s = Some s1"
    "shell_ok s1 e1" "waiting s1 = scs @ q"
    using interrupt_ok [OF Cons.prems(1) _ e1(1) _ assms(6) refl, of "scs @ q" r] Cons.prems(2,5) r by auto
  show ?case using Cons.IH [OF s1(2,3) e1(2), of rs'] Cons.prems(4,5) r s1(1) by auto
qed simp

end

end
