(* ===== verification/Stdout.thy ===== *)
theory Stdout
  imports Terminal
begin

text \<open>
  Formatted output: \<^verbatim>\<open>print_int\<close> and \<^verbatim>\<open>printf\<close> of \<^verbatim>\<open>libc/stdout.c\<close> over the screen, and what
  they print. The variable arguments are a list; taking one of the wrong type, or more than
  there are, has no defined result, and neither has a signed overflow.
\<close>

subsection \<open>Operations\<close>

partial_function (option) div_loop :: "int \<Rightarrow> int \<Rightarrow> int option" where
  "div_loop number d =
     (if number sdiv d \<noteq> 0 then (if 10 * d < 2 ^ 31 then div_loop number (10 * d) else None) else Some d)"

lemma sdiv_shrinks: "d sdiv 10 \<noteq> 0 \<Longrightarrow> nat \<bar>d sdiv 10\<bar> < nat \<bar>d :: int\<bar>"
  by (auto simp: signed_divide_int_def sgn_if abs_mult)

function print_digits :: "'h PORTS \<Rightarrow> int \<Rightarrow> int \<Rightarrow> 'h MACHINE \<Rightarrow> 'h MACHINE" where
  "print_digits P number d s =
     (let d = d sdiv 10
      in if d \<noteq> 0
         then let to_print = (number sdiv d) smod 10
              in print_digits P number d (kprint_char P (word_of_int (48 + to_print)) s)
         else s)"
  by pat_completeness auto
termination by (relation "measure (\<lambda>(P, number, d, s). nat \<bar>d\<bar>)") (use sdiv_shrinks in auto)

declare print_digits.simps [simp del]

definition print_int :: "'h PORTS \<Rightarrow> int \<Rightarrow> 'h MACHINE \<Rightarrow> 'h MACHINE option" where
  "print_int P number s = do { d \<leftarrow> div_loop number 1; Some (print_digits P number d s) }"

datatype VARG = StrArg "byte list" | IntArg int

fun printf_loop :: "'h PORTS \<Rightarrow> bool \<Rightarrow> byte list \<Rightarrow> VARG list \<Rightarrow> 'h MACHINE \<Rightarrow> 'h MACHINE option" where
  "printf_loop P was_percent [] args s = None"
| "printf_loop P was_percent (c # format) args s =
     (if c = 0 then Some s
      else if \<not> was_percent
      then (if c = ch CHR ''%'' then printf_loop P True format args s
            else printf_loop P False format args (kprint_char P c s))
      else if c = ch CHR ''%'' then printf_loop P False format args (kprint_char P (ch CHR ''%'') s)
      else if c = ch CHR ''s''
      then (case args of
              StrArg message # args \<Rightarrow> do { s \<leftarrow> kprint P message s; printf_loop P False format args s }
            | _ \<Rightarrow> None)
      else if c = ch CHR ''d''
      then (case args of
              IntArg arg # args \<Rightarrow> do { s \<leftarrow> print_int P arg s; printf_loop P False format args s }
            | _ \<Rightarrow> None)
      else printf_loop P False format args s)"

definition printf :: "'h PORTS \<Rightarrow> byte list \<Rightarrow> VARG list \<Rightarrow> 'h MACHINE \<Rightarrow> 'h MACHINE option" where
  "printf P format args s = printf_loop P False format args s"

subsection \<open>What is printed\<close>

text \<open>
  What \<^verbatim>\<open>print_int\<close> prints: a positive number in decimal, but 0 not at all, and of a negative
  number the characters that lie below \<open>'0'\<close> by the value of each digit. Beyond nine digits its
  divisor overflows.
\<close>

definition print_int_chars :: "int \<Rightarrow> byte list option" where
  "print_int_chars n =
     (if 10 ^ 9 \<le> \<bar>n\<bar> then None
      else if n = 0 then Some []
      else if 0 < n then Some (decimal (nat n))
      else Some (map (\<lambda>d. 48 - (d - 48)) (decimal (nat (- n)))))"

definition cstring :: "byte list \<Rightarrow> byte list option" where
  "cstring m = (if 0 \<in> set m then Some (takeWhile (\<lambda>c. c \<noteq> 0) m) else None)"

text \<open>The intended text of a format: numbers in decimal, with a sign if they are negative.\<close>

fun printf_text :: "byte list \<Rightarrow> VARG list \<Rightarrow> byte list option" where
  "printf_text [] args = Some []"
| "printf_text [c] args = Some (if c = ch CHR ''%'' then [] else [c])"
| "printf_text (c # d # format) args =
     (if c \<noteq> ch CHR ''%'' then map_option (Cons c) (printf_text (d # format) args)
      else if d = ch CHR ''%'' then map_option (Cons d) (printf_text format args)
      else if d = ch CHR ''s''
      then (case args of
              StrArg m # args \<Rightarrow> do { t \<leftarrow> cstring m; r \<leftarrow> printf_text format args; Some (t @ r) }
            | _ \<Rightarrow> None)
      else if d = ch CHR ''d''
      then (case args of
              IntArg n # args \<Rightarrow> map_option ((@) (decimal_int n)) (printf_text format args)
            | _ \<Rightarrow> None)
      else printf_text format args)"

text \<open>What is printed of it, with the numbers as \<^verbatim>\<open>print_int\<close> prints them: the same if they are positive.\<close>

fun printed_text :: "byte list \<Rightarrow> VARG list \<Rightarrow> byte list option" where
  "printed_text [] args = Some []"
| "printed_text [c] args = Some (if c = ch CHR ''%'' then [] else [c])"
| "printed_text (c # d # format) args =
     (if c \<noteq> ch CHR ''%'' then map_option (Cons c) (printed_text (d # format) args)
      else if d = ch CHR ''%'' then map_option (Cons d) (printed_text format args)
      else if d = ch CHR ''s''
      then (case args of
              StrArg m # args \<Rightarrow> do { t \<leftarrow> cstring m; r \<leftarrow> printed_text format args; Some (t @ r) }
            | _ \<Rightarrow> None)
      else if d = ch CHR ''d''
      then (case args of
              IntArg n # args \<Rightarrow> do { t \<leftarrow> print_int_chars n; r \<leftarrow> printed_text format args; Some (t @ r) }
            | _ \<Rightarrow> None)
      else printed_text format args)"

lemma printed_text_positive:
  "\<forall>n. IntArg n \<in> set args \<longrightarrow> 0 < n \<and> n < 10 ^ 9 \<Longrightarrow> printed_text fmt args = printf_text fmt args"
proof (induction fmt args rule: printf_text.induct)
  case (3 c d fmt args)
  consider "c \<noteq> ch CHR ''%''" | "c = ch CHR ''%''" "d = ch CHR ''%''" | "c = ch CHR ''%''" "d \<noteq> ch CHR ''%''" "d = ch CHR ''s''"
    | "c = ch CHR ''%''" "d \<noteq> ch CHR ''%''" "d \<noteq> ch CHR ''s''" "d = ch CHR ''d''"
    | "c = ch CHR ''%''" "d \<noteq> ch CHR ''%''" "d \<noteq> ch CHR ''s''" "d \<noteq> ch CHR ''d''" by blast
  then show ?case
  proof cases
    case 3
    show ?thesis
    proof (cases args)
      case (Cons a as)
      then show ?thesis using 3 "3.IH"(3) "3.prems" by (cases a; cases "cstring (case a of StrArg m \<Rightarrow> m)") auto
    qed (use 3 in simp)
  next
    case 4
    show ?thesis
    proof (cases args)
      case (Cons a as)
      then show ?thesis using 4 "3.IH"(4) "3.prems"
        by (cases a; cases "printf_text fmt as") (auto simp: print_int_chars_def decimal_int_def)
    qed (use 4 in simp)
  qed (use "3.IH"(1,2,5) "3.prems" in auto)
qed auto

subsection \<open>Digits\<close>

definition digit_at :: "nat \<Rightarrow> nat \<Rightarrow> byte" where
  "digit_at n j = of_nat (n div 10 ^ j mod 10) + 48"

lemma decimal_digits:
  "10 ^ k \<le> n \<or> k = 0 \<Longrightarrow> n < 10 ^ Suc k \<Longrightarrow> decimal n = map (digit_at n) (rev [0..<Suc k])"
proof (induction n arbitrary: k rule: decimal.induct)
  case (1 n)
  show ?case
  proof (cases "n < 10")
    case True
    have "k = 0"
    proof (rule ccontr)
      assume "k \<noteq> 0"
      then have "(10 :: nat) ^ 1 \<le> 10 ^ k" by (intro power_increasing) auto
      then show False using 1(2) True \<open>k \<noteq> 0\<close> by simp
    qed
    then show ?thesis using True by (simp add: decimal.simps digit_at_def)
  next
    case False
    then obtain j where k: "k = Suc j" using 1(3) by (cases k) auto
    have "10 ^ j \<le> n div 10" "n div 10 < 10 ^ Suc j" using 1(2,3) k by (simp_all add: less_mult_imp_div_less less_eq_div_iff_mult_less_eq mult.commute)
    then have d: "decimal (n div 10) = map (digit_at (n div 10)) (rev [0..<Suc j])"
      using 1(1) [OF False, of j] by blast
    have s: "digit_at (n div 10) i = digit_at n (Suc i)" for i
      by (simp add: digit_at_def div_mult2_eq)
    have r: "rev [0..<Suc k] = map Suc (rev [0..<Suc j]) @ [0]"
      unfolding k by (simp add: rev_map [symmetric] map_Suc_upt upt_conv_Cons del: upt_Suc)
    have "map (digit_at n) (rev [0..<Suc k]) = map (digit_at (n div 10)) (rev [0..<Suc j]) @ [digit_at n 0]"
      unfolding r by (simp add: s del: upt_Suc)
    moreover have "decimal n = decimal (n div 10) @ [digit_at n 0]"
      using False by (subst decimal.simps) (simp add: digit_at_def)
    ultimately show ?thesis using d by simp
  qed
qed

text \<open>\<open>g\<close> is the sign of the number.\<close>

lemma signed_div: "g = 1 \<or> g = -1 \<Longrightarrow> g * int n sdiv 10 ^ j = g * int (n div 10 ^ j)"
  by (auto simp: signed_divide_int_def sgn_if abs_mult zdiv_int)

lemma signed_digit: "g = 1 \<or> g = -1 \<Longrightarrow> g * int n smod 10 = g * int (n mod 10)"
  using signed_div [of g n 1] by (auto simp: signed_modulo_int_def sgn_if zmod_int abs_mult)

lemma div_loop_ok:
  assumes g: "g = 1 \<or> g = -1" and n: "n < 10 ^ 9" "j \<le> 9" "10 ^ (j - 1) \<le> n"
  shows "\<exists>k. div_loop (g * int n) (10 ^ j) = Some (10 ^ k) \<and> n < 10 ^ k \<and> 10 ^ (k - 1) \<le> n"
  using n(2,3)
proof (induction "9 - j" arbitrary: j rule: less_induct)
  case less
  show ?case
  proof (cases "10 ^ j \<le> n")
    case True
    have j: "j < 9"
    proof (rule ccontr)
      assume "\<not> j < 9"
      then have "(10 :: nat) ^ 9 \<le> 10 ^ j" by (intro power_increasing) auto
      then show False using True n(1) by linarith
    qed
    then have "(10 :: int) ^ Suc j \<le> 10 ^ 9" by (intro power_increasing) auto
    then have b: "10 * 10 ^ j < (2 :: int) ^ 31" by simp
    have "div_loop (g * int n) (10 ^ j) = div_loop (g * int n) (10 ^ Suc j)"
      using True g b by (subst div_loop.simps) (auto simp: signed_div [OF g] div_eq_0_iff not_less)
    then show ?thesis using less.hyps [of "Suc j"] j True by auto
  next
    case False
    then have "div_loop (g * int n) (10 ^ j) = Some (10 ^ j)"
      using g by (subst div_loop.simps) (auto simp: signed_div [OF g])
    then show ?thesis using False less.prems by auto
  qed
qed

lemma print_int_chars_digits:
  assumes "n \<noteq> 0" "\<bar>n\<bar> < 10 ^ 9"
  obtains g k where "g = 1 \<or> g = -1" "n = g * int (nat \<bar>n\<bar>)" "div_loop n 1 = Some (10 ^ Suc k)"
    "print_int_chars n = Some (map (\<lambda>j. word_of_int (48 + g * int (nat \<bar>n\<bar> div 10 ^ j mod 10))) (rev [0..<Suc k]))"
proof -
  define g where "g = (if 0 < n then 1 else -1 :: int)"
  define m where "m = nat \<bar>n\<bar>"
  have g: "g = 1 \<or> g = -1" "n = g * int m" "0 < m" "m < 10 ^ 9" using assms by (auto simp: g_def m_def)
  obtain k where k: "div_loop n (10 ^ 0) = Some (10 ^ k)" "m < 10 ^ k" "10 ^ (k - 1) \<le> m"
    using div_loop_ok [OF g(1,4), of 0] g by auto
  obtain j where j: "k = Suc j" using k(2) g(3) by (cases k) auto
  have d: "decimal m = map (digit_at m) (rev [0..<Suc j])" using decimal_digits [of j m] k j by simp
  have "print_int_chars n = Some (if 0 < n then decimal m else map (\<lambda>d. 48 - (d - 48)) (decimal m))"
    using assms by (simp add: print_int_chars_def m_def)
  also have "\<dots> = Some (map (\<lambda>j. word_of_int (48 + g * int (m div 10 ^ j mod 10))) (rev [0..<Suc j]))"
  proof -
    have e: "(word_of_int (48 + 1 * int x) :: byte) = of_nat x + 48"
      "(word_of_int (48 + (-1) * int x) :: byte) = 48 - (of_nat x + 48 - 48)" for x by simp_all
    show ?thesis unfolding d g_def digit_at_def by (cases "0 < n") (simp_all only: if_True if_False map_map comp_def e)
  qed
  finally have t: "print_int_chars n = Some (map (\<lambda>j. word_of_int (48 + g * int (m div 10 ^ j mod 10))) (rev [0..<Suc j]))" .
  have l: "div_loop n 1 = Some (10 ^ Suc j)" using k(1) j by simp
  show ?thesis by (rule that [OF g(1) g(2) [unfolded m_def] l t [unfolded m_def]])
qed

lemma digit_not_control:
  assumes "g = 1 \<or> g = -1" "d < 10"
  shows "(word_of_int (48 + g * int d) :: byte) \<notin> {0, 8, 10}"
proof -
  have "d \<in> {0, 1, 2, 3, 4, 5, 6, 7, 8, 9}" using assms(2) by auto
  then show ?thesis using assms(1) by auto
qed

lemma ch_values [simp]: "ch CHR ''%'' = 37" "ch CHR ''s'' = 115" "ch CHR ''d'' = 100"
  by (simp_all add: ch_def)

lemma cstring_SomeD: "cstring m = Some t \<Longrightarrow> \<exists>x. m = t @ 0 # x \<and> 0 \<notin> set t"
  using takeWhile_dropWhile_id [of "\<lambda>c. c \<noteq> 0" m] hd_dropWhile [of "\<lambda>c. c \<noteq> 0" m]
  by (cases "dropWhile (\<lambda>c. c \<noteq> 0) m") (auto simp: cstring_def dropWhile_eq_Nil_conv dest: set_takeWhileD split: if_splits)

context crtc
begin

lemma print_digits_ok:
  assumes "shows_term s t" and g: "g = 1 \<or> g = -1"
    and "term_print (map (\<lambda>j. word_of_int (48 + g * int (n div 10 ^ j mod 10))) (rev [0..<k])) t = Some t'"
  shows "shows_term (print_digits P (g * int n) (10 ^ k) s) t' \<and> leaves (print_digits P (g * int n) (10 ^ k) s) s"
  using assms(1,3)
proof (induction k arbitrary: s t)
  case 0
  have "(1 :: int) sdiv 10 = 0" by (simp add: signed_divide_int_def)
  then show ?case using 0 by (subst (1 2) print_digits.simps) simp
next
  case (Suc k)
  let ?c = "word_of_int (48 + g * int (n div 10 ^ k mod 10)) :: byte"
  obtain u where u: "term_put ?c t = Some u" using Suc.prems(2) by (cases "term_put ?c t") auto
  have r: "term_print (map (\<lambda>j. word_of_int (48 + g * int (n div 10 ^ j mod 10))) (rev [0..<k])) u = Some t'"
    using Suc.prems(2) u by simp
  have q: "(10 :: int) ^ Suc k sdiv 10 = 10 ^ k" by (simp add: signed_divide_int_def sgn_if)
  have "print_digits P (g * int n) (10 ^ Suc k) s = print_digits P (g * int n) (10 ^ k) (kprint_char P ?c s)"
    by (subst print_digits.simps) (simp add: q signed_div [OF g] signed_digit [OF g] del: power_Suc)
  then show ?case
    using Suc.IH [OF kprint_char_ok(1) [OF Suc.prems(1) u] r] kprint_char_ok(2) [OF Suc.prems(1) u] leaves_trans by auto
qed

lemma print_int_ok:
  assumes "shows_term s t" "print_int_chars n = Some out" "term_print out t = Some t'"
  obtains s' where "print_int P n s = Some s'" "shows_term s' t'" "leaves s' s"
proof (cases "n = 0")
  case True
  have "(1 :: int) sdiv 10 = 0" "(0 :: int) sdiv 1 = 0" by (simp_all add: signed_divide_int_def)
  then have "print_int P n s = Some s"
    unfolding True print_int_def by (subst div_loop.simps) (simp add: print_digits.simps)
  then show ?thesis using that [of s] True assms by (simp add: print_int_chars_def)
next
  case False
  have "\<bar>n\<bar> < 10 ^ 9" using assms(2) by (simp add: print_int_chars_def split: if_splits)
  then obtain g k where g: "g = 1 \<or> g = -1" "n = g * int (nat \<bar>n\<bar>)" "div_loop n 1 = Some (10 ^ Suc k)"
    "print_int_chars n = Some (map (\<lambda>j. word_of_int (48 + g * int (nat \<bar>n\<bar> div 10 ^ j mod 10))) (rev [0..<Suc k]))"
    using print_int_chars_digits [OF False] by blast
  show ?thesis
    using that print_digits_ok [OF assms(1) g(1), of "nat \<bar>n\<bar>" "Suc k" t'] assms(2,3) g(2,3,4)
    by (simp add: print_int_def del: upt_Suc power_Suc)
qed

lemma printf_loop_ok:
  assumes "shows_term s t" "0 \<notin> set fmt" "printed_text fmt args = Some out" "term_print out t = Some t'"
  shows "\<exists>s'. printf_loop P False (fmt @ 0 # junk) args s = Some s' \<and> shows_term s' t' \<and> leaves s' s"
  using assms
proof (induction fmt args arbitrary: s t out rule: printed_text.induct)
  case (2 c args)
  then show ?case using kprint_char_ok [of s t c t'] by (cases "term_put c t") (auto split: if_splits)
next
  case (3 c d fmt args)
  show ?case
  proof (cases "c = ch CHR ''%''")
    case False
    then obtain out' u where u: "printed_text (d # fmt) args = Some out'" "term_put c t = Some u" "term_print out' u = Some t'"
      using 3 by (auto split: bind_splits)
    show ?thesis
      using "3.IH"(1) [OF False kprint_char_ok(1) [OF 3(6) u(2)] _ u(1,3)] 3(7) False
        kprint_char_ok(2) [OF 3(6) u(2)] leaves_trans by auto
  next
    case True
    then have c: "c = 37" by simp
    consider "d = ch CHR ''%''" | "d = ch CHR ''s''" | "d = ch CHR ''d''"
      | "d \<noteq> ch CHR ''%''" "d \<noteq> ch CHR ''s''" "d \<noteq> ch CHR ''d''" by blast
    then show ?thesis
    proof cases
      case 1
      then obtain out' u where u: "printed_text fmt args = Some out'" "term_put d t = Some u" "term_print out' u = Some t'"
        using 3 True by (auto split: bind_splits)
      show ?thesis
        using "3.IH"(2) [OF _ 1 kprint_char_ok(1) [OF 3(6) u(2)] _ u(1,3)] 3(7) True 1
          kprint_char_ok(2) [OF 3(6) u(2)] leaves_trans by auto
    next
      case 2
      then obtain m args' t1 out' where u: "args = StrArg m # args'" "cstring m = Some t1" "printed_text fmt args' = Some out'"
        "out = t1 @ out'" using 3 True by (auto split: list.splits VARG.splits bind_splits)
      obtain t2 where t2: "term_print t1 t = Some t2" "term_print out' t2 = Some t'"
        using 3(9) u(4) by (auto simp: term_print_append split: bind_splits)
      obtain x where m: "m = t1 @ 0 # x" "0 \<notin> set t1" using cstring_SomeD [OF u(2)] by blast
      obtain s1 where s1: "kprint P m s = Some s1" "shows_term s1 t2" "leaves s1 s"
        using kprint_ok [OF 3(6) m(2) t2(1), of x] m(1) by blast
      show ?thesis
        using "3.IH"(3) [OF _ _ 2 u(1) refl u(2) s1(2) _ u(3) t2(2)] 3(7) True 2 u(1) s1 leaves_trans
        by auto
    next
      case 3
      then obtain n args' t1 out' where u: "args = IntArg n # args'" "print_int_chars n = Some t1" "printed_text fmt args' = Some out'"
        "out = t1 @ out'" using "3.prems" True by (auto split: list.splits VARG.splits bind_splits)
      obtain t2 where t2: "term_print t1 t = Some t2" "term_print out' t2 = Some t'"
        using "3.prems"(4) u(4) by (auto simp: term_print_append split: bind_splits)
      obtain s1 where s1: "print_int P n s = Some s1" "shows_term s1 t2" "leaves s1 s"
        using print_int_ok [OF "3.prems"(1) u(2) t2(1)] by blast
      show ?thesis
        using "3.IH"(4) [OF _ _ _ 3 u(1) refl u(2) s1(2) _ u(3) t2(2)] "3.prems"(2) True 3 u(1) s1 leaves_trans
        by auto
    next
      case 4
      then show ?thesis using "3.IH"(5) [OF _ 4 "3.prems"(1) _ _ "3.prems"(4)] "3.prems"(2,3) True by auto
    qed
  qed
qed auto

end

end
