(* ===== verification/Exceptions.thy ===== *)
theory Exceptions
  imports Stdout Cpu
begin

text \<open>
  The report of an exception by \<^verbatim>\<open>isr_handler\<close> of \<^verbatim>\<open>cpu/isr.c\<close>: its number, turned into a numeral
  in a buffer of three bytes, and its name. The contents of the buffer at entry are a parameter.
\<close>

definition exception_messages :: "string list" where
  "exception_messages = [
     ''Division By Zero'', ''Debug'', ''Non Maskable Interrupt'', ''Breakpoint'',
     ''Into Detected Overflow'', ''Out of Bounds'', ''Invalid Opcode'', ''No Coprocessor'',
     ''Double Fault'', ''Coprocessor Segment Overrun'', ''Bad TSS'', ''Segment Not Present'',
     ''Stack Fault'', ''General Protection Fault'', ''Page Fault'', ''Unknown Interrupt'',
     ''Coprocessor Fault'', ''Alignment Check'', ''Machine Check'', ''Reserved'',
     ''Reserved'', ''Reserved'', ''Reserved'', ''Reserved'',
     ''Reserved'', ''Reserved'', ''Reserved'', ''Reserved'',
     ''Reserved'', ''Reserved'', ''Reserved'', ''Reserved'']"

definition isr_handler :: "'h PORTS \<Rightarrow> byte list \<Rightarrow> registers_t \<Rightarrow> 'h MACHINE \<Rightarrow> 'h MACHINE option" where
  "isr_handler P buf r s = do {
     s \<leftarrow> kprint P (bytes_of ''received interrupt: '' @ [0]) s;
     buf \<leftarrow> int_to_acsii (sint (int_no r)) buf;
     s \<leftarrow> kprint P buf s;
     s \<leftarrow> kprint P [10, 0] s;
     if unat (int_no r) < length exception_messages
     then do {
       s \<leftarrow> kprint P (bytes_of (exception_messages ! unat (int_no r)) @ [0]) s;
       kprint P [10, 0] s
     }
     else None
   }"

text \<open>The report as text.\<close>

definition report :: "nat \<Rightarrow> byte list" where
  "report n = bytes_of ''received interrupt: '' @ decimal n @ [10] @ bytes_of (exception_messages ! n) @ [10]"

lemma term_put_total: "c \<noteq> 8 \<Longrightarrow> \<exists>t'. term_put c t = Some t'"
  by (cases t) auto

lemma term_print_total: "8 \<notin> set msg \<Longrightarrow> \<exists>t'. term_print msg t = Some t'"
proof (induction msg arbitrary: t)
  case (Cons c msg)
  then obtain u where "term_put c t = Some u" using term_put_total [of c t] by auto
  then show ?case using Cons by auto
qed simp

lemma messages_plain: "n < 32 \<Longrightarrow> {0, 8} \<inter> set (bytes_of (exception_messages ! n)) = {}"
proof -
  have "list_all (\<lambda>m. 0 \<notin> set (bytes_of m) \<and> 8 \<notin> set (bytes_of m)) exception_messages"
    by (simp add: exception_messages_def bytes_of_def)
  moreover assume "n < 32"
  moreover have "length exception_messages = 32" by (simp add: exception_messages_def)
  ultimately show ?thesis by (auto simp: list_all_length)
qed

lemma decimal_plain: "set (decimal n) \<subseteq> {48..57}"
proof (induction n rule: decimal.induct)
  case (1 n)
  have d: "of_nat k + (48 :: byte) \<in> {48..57}" if "k < 10" for k :: nat
    using that by (simp add: word_le_nat_alt unat_word_ariths unat_of_nat)
  then show ?case using 1 d [of "n mod 10"] d [of n] by (subst decimal.simps) auto
qed

lemma length_decimal_2: "n < 100 \<Longrightarrow> length (decimal n) \<le> 2"
  by (subst decimal.simps, simp, subst decimal.simps) auto

context crtc
begin

lemma isr_handler_ok:
  assumes "shows_term s t" "int_no r < 32" "length buf = 3"
  shows "\<exists>s' t'. isr_handler P buf r s = Some s' \<and> term_print (report (unat (int_no r))) t = Some t'
    \<and> shows_term s' t' \<and> leaves s' s"
proof -
  define n where "n = unat (int_no r)"
  have n: "n < 32" using assms(2) by (simp add: n_def word_less_nat_alt)
  then have i: "sint (int_no r) = int n" by (simp add: n_def sint_i32 uint_lt_iff [simplified])
  let ?a = "bytes_of ''received interrupt: ''" and ?m = "bytes_of (exception_messages ! n)"
  have p: "0 \<notin> set ?a" "8 \<notin> set ?a" by (simp_all add: bytes_of_def)
  have d: "0 \<notin> set (decimal n)" "8 \<notin> set (decimal n)" using decimal_plain [of n] by auto
  have m: "0 \<notin> set ?m" "8 \<notin> set ?m" using messages_plain [OF n] by auto
  have b: "int_to_acsii (int n) buf = Some (decimal n @ 0 # drop (Suc (length (decimal n))) buf)"
    using int_to_acsii_ok [of "int n" buf] length_decimal_2 [of n] n assms(3) by (simp add: decimal_int_def)
  have nl: "\<exists>t'. term_print [10] u = Some t'" for u by (rule term_print_total) simp
  have z: "0 \<notin> set [10 :: byte]" by simp
  obtain t1 where t1: "term_print ?a t = Some t1" using term_print_total [OF p(2)] by blast
  obtain s1 where s1: "kprint P (?a @ [0]) s = Some s1" "shows_term s1 t1" "leaves s1 s"
    using kprint_ok [OF assms(1) p(1) t1, of "[]"] by blast
  obtain t2 where t2: "term_print (decimal n) t1 = Some t2" using term_print_total [OF d(2)] by blast
  obtain s2 where s2: "kprint P (decimal n @ 0 # drop (Suc (length (decimal n))) buf) s1 = Some s2" "shows_term s2 t2" "leaves s2 s1"
    using kprint_ok [OF s1(2) d(1) t2] by blast
  obtain t3 where t3: "term_print [10] t2 = Some t3" using nl by blast
  obtain s3 where s3: "kprint P ([10] @ [0]) s2 = Some s3" "shows_term s3 t3" "leaves s3 s2"
    using kprint_ok [OF s2(2) z t3, of "[]"] by blast
  obtain t4 where t4: "term_print ?m t3 = Some t4" using term_print_total [OF m(2)] by blast
  obtain s4 where s4: "kprint P (?m @ [0]) s3 = Some s4" "shows_term s4 t4" "leaves s4 s3"
    using kprint_ok [OF s3(2) m(1) t4, of "[]"] by blast
  obtain t5 where t5: "term_print [10] t4 = Some t5" using nl by blast
  obtain s5 where s5: "kprint P ([10] @ [0]) s4 = Some s5" "shows_term s5 t5" "leaves s5 s4"
    using kprint_ok [OF s4(2) z t5, of "[]"] by blast
  have "term_print (report n) t = Some t5"
    by (simp only: report_def term_print_append t1 t2 t3 t4 t5 Option.bind.bind_lunit)
  moreover have "leaves s5 s" using s1(3) s2(3) s3(3) s4(3) s5(3) leaves_trans by meson
  moreover have "n < length exception_messages" using n by (simp add: exception_messages_def)
  ultimately show ?thesis
    using s1(1) s2(1) s3(1) s4(1) s5 by (auto simp: isr_handler_def i b n_def [symmetric])
qed

end

end
