(* ===== verification/Console_Theorems.thy ===== *)
theory Console_Theorems
  imports Console Exceptions
begin

text \<open>
  The properties of output and of the keyboard, with hardware that behaves as documented:
  a display controller, a keyboard with scan codes waiting, and interrupt controllers.
\<close>

subsection \<open>Console hardware\<close>

record CONSOLE =
  crt_index :: byte
  crt_cursor :: u16
  codes :: "byte list"

definition con_out :: "u16 \<Rightarrow> byte \<Rightarrow> CONSOLE \<Rightarrow> CONSOLE" where
  "con_out p v h =
     (if p = 0x3d4 then h\<lparr>crt_index := v\<rparr>
      else if p = 0x3d5 \<and> crt_index h = 14 then h\<lparr>crt_cursor := le16 (ucast (crt_cursor h)) v\<rparr>
      else if p = 0x3d5 \<and> crt_index h = 15 then h\<lparr>crt_cursor := le16 v (ucast (drop_bit 8 (crt_cursor h)))\<rparr>
      else h)"

definition con_in :: "u16 \<Rightarrow> CONSOLE \<Rightarrow> byte \<times> CONSOLE" where
  "con_in p h =
     (if p = 0x3d5 then (if crt_index h = 14 then ucast (drop_bit 8 (crt_cursor h)) else ucast (crt_cursor h), h)
      else if p = 0x60 then (case codes h of [] \<Rightarrow> (0, h) | sc # q \<Rightarrow> (sc, h\<lparr>codes := q\<rparr>))
      else (0, h))"

definition con_ports :: "CONSOLE PORTS" where
  "con_ports = \<lparr>port_byte_in = con_in, port_byte_out = con_out, port_word_in = (\<lambda>p h. (0, h)), port_word_out = (\<lambda>p w h. h)\<rparr>"

lemma con_console: "console con_ports (\<lambda>_. True) crt_index crt_cursor codes"
  by unfold_locales (auto simp: con_ports_def con_in_def con_out_def Let_def)

interpretation con: console con_ports "\<lambda>_. True" crt_index crt_cursor codes
  by (rule con_console)

text \<open>A machine with cleared memory, the cursor at \<open>p\<close> and scan codes waiting.\<close>

definition demo_machine :: "nat \<Rightarrow> byte list \<Rightarrow> CONSOLE MACHINE" where
  "demo_machine p scs = \<lparr>ram = (\<lambda>_. 0), hw = \<lparr>crt_index = 0, crt_cursor = of_nat p, codes = scs\<rparr>\<rparr>"

lemma demo_machine_term:
  "p < 2000 \<Longrightarrow> term_on (\<lambda>_. True) crt_cursor (demo_machine p scs) (replicate 2000 (0, 0), p)"
  by (auto simp: term_on_def demo_machine_def cells_nth unat_of_nat intro!: nth_equalityI)

subsection \<open>Properties\<close>

text \<open>C33. \<^verbatim>\<open>kprint\<close> implements the terminal: printing a terminated message from the cursor leaves
  the screen and the cursor as the terminal has them after the characters, newlines, backspaces
  and scrolling included, and changes nothing outside of video memory and the cursor.\<close>

theorem kprint_refines_terminal:
  assumes "crtc P ready selected cursor rest" "term_on ready cursor s t" "0 \<notin> set msg" "term_print msg t = Some t'"
  shows "\<exists>s'. kprint P (msg @ 0 # junk) s = Some s' \<and> term_on ready cursor s' t' \<and> leaves_on rest s' s"
  using crtc.kprint_ok [OF assms(1-4), of junk] by blast

theorem kprint_refines_terminal_witness:
  "\<exists>s'. kprint con_ports (bytes_of ''FileOS'' @ [0]) (demo_machine 1995 []) = Some s' \<and> unat (crt_cursor (hw s')) = 1921
     \<and> fst (cells (ram s') ! 1917) = ch CHR ''l'' \<and> fst (cells (ram s') ! 1920) = ch CHR ''S''"
proof -
  define u where "u = term_print (bytes_of ''FileOS'') (replicate 2000 (0, 0), 1995)"
  have u: "u = Some (fst (the u), 1921)" "fst (fst (the u) ! 1917) = ch CHR ''l''" "fst (fst (the u) ! 1920) = ch CHR ''S''"
    by (simp_all add: u_def bytes_of_def settle_def ch_def nth_append nth_list_update)
  obtain s' where "kprint con_ports (bytes_of ''FileOS'' @ 0 # []) (demo_machine 1995 []) = Some s'"
    "term_on (\<lambda>_. True) crt_cursor s' (fst (the u), 1921)"
    using kprint_refines_terminal [OF con.crtc_axioms demo_machine_term _ u(1) [unfolded u_def], of "[]" "[]", folded u_def]
    by (auto simp: bytes_of_def)
  then show ?thesis using u(2,3) by (auto simp: term_on_def)
qed

text \<open>What \<^verbatim>\<open>print_int\<close> puts on the terminal: a positive number of up to nine digits in decimal,
  nothing for 0, and for a negative number no sign and the characters below \<open>'0'\<close>.\<close>

theorem print_int_prints:
  assumes "crtc P ready selected cursor rest" "term_on ready cursor s t"
    and "print_int_chars n = Some out" "term_print out t = Some t'"
  shows "\<exists>s'. print_int P n s = Some s' \<and> term_on ready cursor s' t' \<and> leaves_on rest s' s"
  using crtc.print_int_ok [OF assms] by blast

text \<open>C34. \<^verbatim>\<open>printf\<close> with numbers between 1 and 999999999 prints its text: the format with \<^verbatim>\<open>%%\<close>, \<^verbatim>\<open>%s\<close> and
  \<^verbatim>\<open>%d\<close> replaced by a percent sign, the next string and the next number in decimal, as one message
  on the terminal; nothing else in memory changes. (Other numbers are not printed in decimal:
  \<open>print_int_prints\<close>.)\<close>

theorem printf_prints_text:
  assumes "crtc P ready selected cursor rest" "term_on ready cursor s t" "0 \<notin> set fmt"
    and "\<forall>n. IntArg n \<in> set args \<longrightarrow> 0 < n \<and> n < 10 ^ 9"
    and "printf_text fmt args = Some out" "term_print out t = Some t'"
  shows "\<exists>s'. printf P (fmt @ 0 # junk) args s = Some s' \<and> term_on ready cursor s' t' \<and> leaves_on rest s' s"
  using crtc.printf_loop_ok [OF assms(1-3) _ assms(6), of args junk] assms(5)
  unfolding printf_def printed_text_positive [OF assms(4)] by blast

theorem printf_prints_text_witness:
  "\<exists>s'. printf con_ports (bytes_of ''%s=%d'' @ [0]) [StrArg (bytes_of ''n'' @ [0]), IntArg 42] (demo_machine 0 []) = Some s'
     \<and> map (\<lambda>k. fst (cells (ram s') ! k)) [0, 1, 2, 3] = bytes_of ''n=42''"
proof -
  have p: "printf_text (bytes_of ''%s=%d'') [StrArg (bytes_of ''n'' @ [0]), IntArg 42] = Some (bytes_of ''n=42'')"
    by (simp add: bytes_of_def cstring_def decimal_int_def decimal.simps)
  define u where "u = term_print (bytes_of ''n=42'') (replicate 2000 (0, 0), 0)"
  have u: "u = Some (fst (the u), 4)" "map (\<lambda>k. fst (fst (the u) ! k)) [0, 1, 2, 3] = bytes_of ''n=42''"
    by (simp_all add: u_def bytes_of_def settle_def nth_list_update)
  have z: "0 \<notin> set (bytes_of ''%s=%d'')" by (simp add: bytes_of_def)
  obtain s' where "printf con_ports (bytes_of ''%s=%d'' @ 0 # []) [StrArg (bytes_of ''n'' @ [0]), IntArg 42] (demo_machine 0 []) = Some s'"
    "term_on (\<lambda>_. True) crt_cursor s' (fst (the u), 4)"
    using printf_prints_text [OF con.crtc_axioms demo_machine_term z _ p u(1) [unfolded u_def], of "[]" "[]", folded u_def] by auto
  then show ?thesis using u(2) by (auto simp: term_on_def)
qed

text \<open>\<^verbatim>\<open>isr_handler\<close> reports every exception: whatever its three-byte buffer held, the number of
  the exception in decimal and its name are printed, each with its newline, and nothing but
  the screen changes. The numeral and its terminator fit the buffer.\<close>

theorem isr_handler_reports:
  assumes "crtc P ready selected cursor rest" "term_on ready cursor s t" "int_no r < 32" "length buf = 3"
  shows "\<exists>s' t'. isr_handler P buf r s = Some s' \<and> term_print (report (unat (int_no r))) t = Some t'
    \<and> term_on ready cursor s' t' \<and> leaves_on rest s' s"
  using crtc.isr_handler_ok [OF assms] .

definition demo_frame :: "u32 \<Rightarrow> registers_t" where
  "demo_frame n = \<lparr>ds = 0x10, edi = 0, esi = 0, ebp = 0, esp = 0, ebx = 0, edx = 0, ecx = 0, eax = 0, int_no = n, err_code = 0,
     eip = 0, cs = 8, eflags = 0x202, useresp = 0, ss = 0x10\<rparr>"

theorem isr_handler_reports_witness:
  "\<exists>s' t'. isr_handler con_ports [1, 2, 3] (demo_frame 14) (demo_machine 0 []) = Some s'
    \<and> term_print (bytes_of (''received interrupt: 14'' @ [CHR 0x0A] @ ''Page Fault'' @ [CHR 0x0A])) (replicate 2000 (0, 0), 0) = Some t'
    \<and> term_on (\<lambda>_. True) crt_cursor s' t'"
proof -
  have r: "report 14 = bytes_of (''received interrupt: 14'' @ [CHR 0x0A] @ ''Page Fault'' @ [CHR 0x0A])"
    by (simp add: report_def exception_messages_def bytes_of_def decimal.simps)
  show ?thesis
    using isr_handler_reports [OF con.crtc_axioms demo_machine_term, of 0 "demo_frame 14" "[1, 2, 3]" "[]"]
    unfolding r [symmetric] by (auto simp: demo_frame_def)
qed

text \<open>C35. The console is a line editor: for every sequence of scan codes the editor takes, the
  interrupts dispatched through the handler that \<^verbatim>\<open>init_keyboard\<close> registered leave the input
  buffer, its count, the shift state and the screen as the editor has them, and the codes
  are consumed.\<close>

theorem console_is_line_editor:
  assumes "console P ready selected cursor pending" "editor_on ready cursor s e"
    and "pending (hw (machine s)) = scs @ q" "press_all scs e = Some e'"
    and "length rs = length scs" "\<forall>r \<in> set rs. int_no r = 33" "length handlers = 256"
  shows "\<exists>s'. interrupts P (init_keyboard P (shell_callback P) handlers) rs s = Some s'
    \<and> editor_on ready cursor s' e' \<and> pending (hw (machine s')) = q"
  using console.interrupts_ok [OF assms] .

definition demo_kernel :: "byte list \<Rightarrow> CONSOLE KERNEL" where
  "demo_kernel scs = \<lparr>machine = demo_machine 0 scs, key = 0, high = 0, sh_buffer = replicate 256 0,
     sh_buffer_count = 0, bExecute = 0\<rparr>"

theorem console_is_line_editor_witness:
  "\<exists>s'. interrupts con_ports (init_keyboard con_ports (shell_callback con_ports) (replicate 256 None))
       (replicate 6 (demo_frame 33)) (demo_kernel [0x2A, 0x23, 0xAA, 0x23, 0x0E, 0x17]) = Some s'
     \<and> take 2 (sh_buffer s') = bytes_of ''Hi'' \<and> sh_buffer_count s' = 2 \<and> codes (hw (machine s')) = []"
proof -
  let ?e = "\<lparr>input = [], shift = False, entered = False, seen = (replicate 2000 (0, 0), 0)\<rparr>"
  define u where "u = press_all [0x2A, 0x23, 0xAA, 0x23, 0x0E, 0x17] ?e"
  have u: "u = Some (the u)" "input (the u) = bytes_of ''Hi''"
    by (simp_all add: u_def press_def key_of_def print_letter.simps scancodes_def low_scancodes_def high_scancodes_def first_char_def ch_def shifted_def edit_def
        settle_def bytes_of_def)
  have "editor_on (\<lambda>_. True) crt_cursor (demo_kernel scs) ?e" for scs
    using demo_machine_term [of 0 scs] by (simp add: editor_on_def demo_kernel_def)
  then obtain s' where "interrupts con_ports (init_keyboard con_ports (shell_callback con_ports) (replicate 256 None))
       (replicate 6 (demo_frame 33)) (demo_kernel [0x2A, 0x23, 0xAA, 0x23, 0x0E, 0x17]) = Some s'"
    "editor_on (\<lambda>_. True) crt_cursor s' (the u)" "codes (hw (machine s')) = []"
    using console_is_line_editor [OF con.console_axioms _ _ u(1) [unfolded u_def], of "demo_kernel [0x2A, 0x23, 0xAA, 0x23, 0x0E, 0x17]"
        "[]" "replicate 6 (demo_frame 33)" "replicate 256 None", folded u_def]
    by (auto simp: demo_kernel_def demo_machine_def demo_frame_def)
  then show ?thesis using u(2) by (auto simp: editor_on_def numeral_2_eq_2)
qed

end
