(* ===== verification/Heap.thy ===== *)
theory Heap
  imports Flat_Memory
begin

text \<open>
  The allocator of \<^verbatim>\<open>libc/memory.c\<close>: \<^verbatim>\<open>k_malloc_init\<close>, \<^verbatim>\<open>k_malloc\<close>, \<^verbatim>\<open>k_free\<close>,
  \<^verbatim>\<open>k_realloc\<close> and their helpers, on the flat memory. Block headers (\<^verbatim>\<open>struct
  BlockNode\<close>: size at offset 0, next at offset 4) live in the memory they manage. The
  specification is a list of free and used blocks that tile the heap; each operation is
  shown to be an operation on that list.
\<close>

subsection \<open>Operations\<close>

record HEAP =
  mem :: flat_mem
  head :: u32
  heap_start :: u32 \<comment> \<open>the linker symbol \<^verbatim>\<open>__HEAP\<close>\<close>
  heap_end :: u32   \<comment> \<open>the linker symbol \<^verbatim>\<open>__HEAP_END\<close>\<close>

definition sizeof_BlockNode :: u32 where
  "sizeof_BlockNode = 8"

definition block_size :: "flat_mem \<Rightarrow> u32 \<Rightarrow> u32" where
  "block_size m b = read32 m b"

definition block_next :: "flat_mem \<Rightarrow> u32 \<Rightarrow> u32" where
  "block_next m b = read32 m (b + 4)"

definition set_size :: "u32 \<Rightarrow> u32 \<Rightarrow> flat_mem \<Rightarrow> flat_mem" where
  "set_size b s m = write32 m b s"

definition set_next :: "u32 \<Rightarrow> u32 \<Rightarrow> flat_mem \<Rightarrow> flat_mem" where
  "set_next b n m = write32 m (b + 4) n"

definition k_malloc_init :: "HEAP \<Rightarrow> HEAP" where
  "k_malloc_init h = h\<lparr>mem := set_next (head h) 0
     (set_size (head h) (heap_end h - heap_start h - sizeof_BlockNode) (mem h))\<rparr>"

text \<open>The search of \<^verbatim>\<open>k_malloc\<close>; 0 when it runs off the list. It need not end on a cyclic list.\<close>

partial_function (option) malloc_find :: "flat_mem \<Rightarrow> u32 \<Rightarrow> u32 \<Rightarrow> u32 option" where
  "malloc_find m node need =
     (if block_size m node < need
      then (if block_next m node = 0 then Some 0 else malloc_find m (block_next m node) need)
      else Some node)"

definition k_malloc :: "HEAP \<Rightarrow> u32 \<Rightarrow> (HEAP \<times> u32) option" where
  "k_malloc h n = do {
     node \<leftarrow> malloc_find (mem h) (head h) (n + sizeof_BlockNode);
     if node = 0 then Some (h, 0)
     else do {
       let m = set_size node (block_size (mem h) node - (n + sizeof_BlockNode)) (mem h);
       let newNode = node + block_size m node + sizeof_BlockNode;
       let m = set_next newNode 0 (set_size newNode n m);
       Some (h\<lparr>mem := m\<rparr>, newNode + sizeof_BlockNode)
     }
   }"

definition is_contiguous :: "flat_mem \<Rightarrow> u32 \<Rightarrow> u32 \<Rightarrow> bool" where
  "is_contiguous m l r \<longleftrightarrow> l + sizeof_BlockNode + block_size m l = r"

definition merge_blocks :: "flat_mem \<Rightarrow> u32 \<Rightarrow> u32 \<Rightarrow> flat_mem" where
  "merge_blocks m l r =
     (let m = set_next l (block_next m r) m;
          m = set_size l (block_size m l + (block_size m r + sizeof_BlockNode)) m;
          m = set_size r 0 m
      in set_next r 0 m)"

text \<open>The search of \<^verbatim>\<open>k_free\<close>: the free blocks around the one to free.\<close>

partial_function (option) free_find :: "flat_mem \<Rightarrow> u32 \<Rightarrow> u32 \<Rightarrow> u32 \<Rightarrow> (u32 \<times> u32) option" where
  "free_find m to_free previous node =
     (if node < to_free \<and> node \<noteq> 0 then free_find m to_free node (block_next m node)
      else Some (previous, node))"

definition k_free :: "HEAP \<Rightarrow> u32 \<Rightarrow> HEAP option" where
  "k_free h pointer = do {
     let to_free = pointer - sizeof_BlockNode;
     (previous, node) \<leftarrow> free_find (mem h) to_free 0 (head h);
     let m = set_next previous to_free (mem h);
     let m = set_next to_free node m;
     let (m, to_free) = (if is_contiguous m previous to_free
                         then (merge_blocks m previous to_free, previous) else (m, to_free));
     Some (h\<lparr>mem := if is_contiguous m to_free node then merge_blocks m to_free node else m\<rparr>)
   }"

definition k_realloc :: "HEAP \<Rightarrow> u32 \<Rightarrow> u32 \<Rightarrow> (HEAP \<times> u32) option" where
  "k_realloc h p n =
     (if p = 0 then k_malloc h n
      else do {
        (h, np) \<leftarrow> k_malloc h n;
        if np = 0 then Some (h, 0)
        else do {
          let to_free = p - sizeof_BlockNode;
          h \<leftarrow> k_free (h\<lparr>mem := flat_memcpy (mem h) p np (block_size (mem h) to_free)\<rparr>) p;
          Some (h, np)
        }
      })"

subsection \<open>The specification: a tiling of the heap\<close>

datatype blk = Free (bsize: nat) | Used (bsize: nat)

text \<open>The address behind the blocks when the first is at \<open>a\<close>.\<close>

primrec end_of :: "nat \<Rightarrow> blk list \<Rightarrow> nat" where
  "end_of a [] = a"
| "end_of a (b # bs) = end_of (a + 8 + bsize b) bs"

text \<open>The first free block, \<open>t\<close> if there is none; the last, \<open>d\<close> if there is none.\<close>

fun first_free :: "nat \<Rightarrow> blk list \<Rightarrow> nat \<Rightarrow> nat" where
  "first_free a [] t = t"
| "first_free a (Free s # bs) t = a"
| "first_free a (Used s # bs) t = first_free (a + 8 + s) bs t"

fun last_free :: "nat \<Rightarrow> blk list \<Rightarrow> nat \<Rightarrow> nat" where
  "last_free a [] d = d"
| "last_free a (Free s # bs) d = last_free (a + 8 + s) bs a"
| "last_free a (Used s # bs) d = last_free (a + 8 + s) bs d"

text \<open>The areas the callers own.\<close>

fun payloads :: "nat \<Rightarrow> blk list \<Rightarrow> (nat \<times> nat) list" where
  "payloads a [] = []"
| "payloads a (Free s # bs) = payloads (a + 8 + s) bs"
| "payloads a (Used s # bs) = (a + 8, s) # payloads (a + 8 + s) bs"

text \<open>
  The headers in memory: every block has its size, every free block the link to the next
  free one, the last the link \<open>t\<close>.
\<close>

fun headers :: "flat_mem \<Rightarrow> nat \<Rightarrow> blk list \<Rightarrow> nat \<Rightarrow> bool" where
  "headers m a [] t \<longleftrightarrow> True"
| "headers m a (Free s # bs) t \<longleftrightarrow> block_size m (of_nat a) = of_nat s
     \<and> block_next m (of_nat a) = of_nat (first_free (a + 8 + s) bs t) \<and> headers m (a + 8 + s) bs t"
| "headers m a (Used s # bs) t \<longleftrightarrow> block_size m (of_nat a) = of_nat s \<and> headers m (a + 8 + s) bs t"

text \<open>No two free blocks are neighbours: freeing has merged them.\<close>

primrec apart :: "blk list \<Rightarrow> bool" where
  "apart [] \<longleftrightarrow> True"
| "apart (b # bs) \<longleftrightarrow> (is_Free b \<and> bs \<noteq> [] \<longrightarrow> \<not> is_Free (hd bs)) \<and> apart bs"

definition heap_ok :: "HEAP \<Rightarrow> blk list \<Rightarrow> bool" where
  "heap_ok h bs \<longleftrightarrow> 0 < unat (heap_start h) \<and> head h = heap_start h
     \<and> end_of (unat (heap_start h)) bs = unat (heap_end h)
     \<and> headers (mem h) (unat (heap_start h)) bs 0
     \<and> (\<exists>s rest. bs = Free s # rest) \<and> apart bs"

text \<open>Allocation carves a used block off the end of the first free block that is large enough.\<close>

fun carve :: "nat \<Rightarrow> blk list \<Rightarrow> blk list" where
  "carve n [] = []"
| "carve n (Free s # bs) =
     (if s < n + 8 then Free s # carve n bs else Free (s - (n + 8)) # Used n # bs)"
| "carve n (Used s # bs) = Used s # carve n bs"

text \<open>Where the caller's area is then; 0 if no block is large enough.\<close>

fun place :: "nat \<Rightarrow> nat \<Rightarrow> blk list \<Rightarrow> nat" where
  "place n a [] = 0"
| "place n a (Free s # bs) = (if s < n + 8 then place n (a + 8 + s) bs else a + 8 + (s - (n + 8)) + 8)"
| "place n a (Used s # bs) = place n (a + 8 + s) bs"

text \<open>Freeing marks the block free and merges free neighbours.\<close>

fun unuse :: "nat \<Rightarrow> nat \<Rightarrow> blk list \<Rightarrow> blk list" where
  "unuse p a [] = []"
| "unuse p a (Free s # bs) = Free s # unuse p (a + 8 + s) bs"
| "unuse p a (Used s # bs) = (if a + 8 = p then Free s # bs else Used s # unuse p (a + 8 + s) bs)"

function coalesce :: "blk list \<Rightarrow> blk list" where
  "coalesce (Free i # Free j # bs) = coalesce (Free (i + 8 + j) # bs)"
| "coalesce [Free i] = [Free i]"
| "coalesce (Free i # Used j # bs) = Free i # coalesce (Used j # bs)"
| "coalesce (Used i # bs) = Used i # coalesce bs"
| "coalesce [] = []"
  by pat_completeness auto
termination by (relation "measure length") auto

subsection \<open>Lemmas on tilings\<close>

lemma end_of_append [simp]: "end_of a (xs @ ys) = end_of (end_of a xs) ys"
  by (induction xs arbitrary: a) auto

lemma end_of_ge: "a + 8 * length bs \<le> end_of a bs"
proof (induction bs arbitrary: a)
  case (Cons b bs)
  from Cons.IH [of "a + 8 + bsize b"] show ?case by simp
qed simp

lemma end_of_ge' [simp]: "a \<le> end_of a bs"
  using end_of_ge [of a bs] by simp

lemma end_of_next [simp]: "a + 8 \<le> end_of (a + 8 + s) bs" "a + 8 + s \<le> end_of (a + 8 + s) bs"
  using end_of_ge [of "a + 8 + s" bs] by simp_all

lemma first_free_append [simp]: "first_free a (xs @ ys) t = first_free a xs (first_free (end_of a xs) ys t)"
  by (induction a xs t rule: first_free.induct) auto

lemma headers_append [simp]:
  "headers m a (xs @ ys) t \<longleftrightarrow> headers m a xs (first_free (end_of a xs) ys t) \<and> headers m (end_of a xs) ys t"
  by (induction m a xs t rule: headers.induct) auto

lemma payloads_append [simp]: "payloads a (xs @ ys) = payloads a xs @ payloads (end_of a xs) ys"
  by (induction a xs rule: payloads.induct) auto

lemma payload_bounds: "(p, n) \<in> set (payloads a bs) \<Longrightarrow> a + 8 \<le> p \<and> p + n \<le> end_of a bs"
  by (induction a bs rule: payloads.induct) fastforce+

lemma first_free_cases: "first_free a bs t = t \<or> a \<le> first_free a bs t \<and> first_free a bs t + 8 \<le> end_of a bs"
proof (induction a bs t rule: first_free.induct)
  case (2 a s bs t)
  then show ?case using end_of_ge' [of "a + 8 + s" bs] by (auto simp del: end_of_ge')
next
  case (3 a s bs t)
  then show ?case by auto
qed auto

lemma all_used: "(\<And>b. b \<in> set us \<Longrightarrow> \<exists>s. b = Used s) \<Longrightarrow>
    first_free a us t = t \<and> last_free a us d = d"
  by (induction us arbitrary: a) fastforce+

lemma all_used_headers:
  "(\<And>b. b \<in> set us \<Longrightarrow> \<exists>s. b = Used s) \<Longrightarrow> headers m a us t \<Longrightarrow> headers m a us t'"
proof (induction us arbitrary: a)
  case (Cons b us)
  then obtain s where "b = Used s" by (meson list.set_intros(1))
  then show ?case using Cons by simp
qed simp

text \<open>A memory that agrees on the blocks has the same headers.\<close>

lemma block_agree:
  assumes "agree m' m a (a + 8)"
  shows "block_size m' (of_nat a) = block_size m (of_nat a)" "block_next m' (of_nat a) = block_next m (of_nat a)"
proof -
  show "block_size m' (of_nat a) = block_size m (of_nat a)"
    unfolding block_size_def by (rule read32_agree, rule agree_sub [OF assms]) simp_all
  have "(of_nat a :: u32) + 4 = of_nat (a + 4)" by simp
  then show "block_next m' (of_nat a) = block_next m (of_nat a)"
    unfolding block_next_def by (simp only:) (rule read32_agree, rule agree_sub [OF assms], simp_all)
qed

lemma headers_agree:
  "agree m' m a (end_of a bs) \<Longrightarrow> headers m a bs t \<Longrightarrow> headers m' a bs t"
proof (induction bs arbitrary: a)
  case (Cons b bs)
  have "agree m' m a (a + 8)" by (rule agree_sub [OF Cons.prems(1)]) auto
  note eq = block_agree [OF this]
  have "agree m' m (a + 8 + bsize b) (end_of (a + 8 + bsize b) bs)"
    by (rule agree_sub [OF Cons.prems(1)]) auto
  from Cons.IH [OF this] Cons.prems(2) eq show ?case by (cases b) auto
qed simp

text \<open>Reading and writing header fields.\<close>

lemma add4_u32: "(of_nat a :: u32) + 4 = of_nat (a + 4)"
  by simp

lemma set_size_agree: "b \<le> a \<or> a + 8 \<le> c \<Longrightarrow> a + 8 \<le> 2 ^ 32 \<Longrightarrow> b \<le> 2 ^ 32 \<Longrightarrow>
    agree (set_size (of_nat a) s m) m c b"
  unfolding set_size_def by (rule write32_agree) auto

lemma set_next_agree: "b \<le> a \<or> a + 8 \<le> c \<Longrightarrow> a + 8 \<le> 2 ^ 32 \<Longrightarrow> b \<le> 2 ^ 32 \<Longrightarrow>
    agree (set_next (of_nat a) s m) m c b"
  unfolding set_next_def add4_u32 by (rule write32_agree) auto

lemma size_next_same:
  assumes "a + 8 \<le> 2 ^ 32"
  shows "block_size (set_size (of_nat a) s m) (of_nat a) = s" "block_next (set_next (of_nat a) s m) (of_nat a) = s"
    "block_size (set_next (of_nat a) s m) (of_nat a) = block_size m (of_nat a)"
    "block_next (set_size (of_nat a) s m) (of_nat a) = block_next m (of_nat a)"
  using assms unfolding block_size_def block_next_def set_size_def set_next_def add4_u32
  by (simp_all add: read_write32_same read_write32_other del: of_nat_add)

lemma size_next_other:
  assumes "a + 8 \<le> b \<or> b + 8 \<le> a" "a + 8 \<le> 2 ^ 32" "b + 8 \<le> 2 ^ 32"
  shows "block_size (set_size (of_nat a) s m) (of_nat b) = block_size m (of_nat b)"
    "block_next (set_next (of_nat a) s m) (of_nat b) = block_next m (of_nat b)"
    "block_size (set_next (of_nat a) s m) (of_nat b) = block_size m (of_nat b)"
    "block_next (set_size (of_nat a) s m) (of_nat b) = block_next m (of_nat b)"
  using assms
  by (auto intro!: block_agree set_size_agree set_next_agree)

lemmas header_simps = size_next_same size_next_other

lemma headers_set_size:
  "end_of c bs \<le> a \<or> a + 8 \<le> c \<Longrightarrow> a + 8 \<le> 2 ^ 32 \<Longrightarrow> end_of c bs \<le> 2 ^ 32 \<Longrightarrow>
   headers m c bs t \<Longrightarrow> headers (set_size (of_nat a) s m) c bs t"
  by (rule headers_agree, rule set_size_agree) auto

lemma headers_set_next:
  "end_of c bs \<le> a \<or> a + 8 \<le> c \<Longrightarrow> a + 8 \<le> 2 ^ 32 \<Longrightarrow> end_of c bs \<le> 2 ^ 32 \<Longrightarrow>
   headers m c bs t \<Longrightarrow> headers (set_next (of_nat a) s m) c bs t"
  by (rule headers_agree, rule set_next_agree) auto

subsection \<open>Allocation\<close>

text \<open>The block the search of \<^verbatim>\<open>k_malloc\<close> stops at.\<close>

fun fit :: "nat \<Rightarrow> nat \<Rightarrow> blk list \<Rightarrow> nat" where
  "fit need a [] = 0"
| "fit need a (Free s # bs) = (if s < need then fit need (a + 8 + s) bs else a)"
| "fit need a (Used s # bs) = fit need (a + 8 + s) bs"

lemma fit_none: "first_free a bs 0 = 0 \<Longrightarrow> 0 < a \<Longrightarrow> fit need a bs = 0"
  by (induction need a bs rule: fit.induct) auto

lemma malloc_find_fit:
  assumes "headers m a bs 0" "0 < a" "end_of a bs < 2 ^ 32" "first_free a bs 0 \<noteq> 0"
  shows "malloc_find m (of_nat (first_free a bs 0)) need = Some (of_nat (fit (unat need) a bs))"
  using assms
proof (induction "unat need" a bs rule: fit.induct)
  case (2 a s bs)
  let ?b = "a + 8 + s"
  have s: "?b < 2 ^ 32"
    using "2.prems"(3) by (simp only: end_of.simps blk.sel le_less_trans [OF end_of_next(2)])
  have us: "unat (of_nat s :: u32) = s" using s by (simp add: unat_of_nat_u32)
  have lt: "(of_nat s :: u32) < need \<longleftrightarrow> s < unat need" using us by (simp add: word_less_nat_alt)
  have ff: "first_free ?b bs 0 < 2 ^ 32"
    using first_free_cases [of ?b bs 0] "2.prems"(3) by auto
  show ?case
  proof (cases "s < unat need \<and> first_free ?b bs 0 \<noteq> 0")
    case True
    then have "(of_nat (first_free ?b bs 0) :: u32) \<noteq> 0" using of_nat_0_u32 ff by blast
    then show ?thesis using 2 True lt by (subst malloc_find.simps) simp
  next
    case False
    then show ?thesis using "2.prems" lt fit_none [of ?b bs "unat need"]
      by (subst malloc_find.simps) auto
  qed
qed auto

lemma fit_split:
  assumes "0 < a" "fit (n + 8) a bs \<noteq> 0"
  obtains l s r where "bs = l @ Free s # r" "n + 8 \<le> s" "fit (n + 8) a bs = end_of a l"
    "carve n bs = l @ Free (s - (n + 8)) # Used n # r" "place n a bs = end_of a l + 8 + (s - (n + 8)) + 8"
proof -
  have "\<exists>l s r. bs = l @ Free s # r \<and> n + 8 \<le> s \<and> fit (n + 8) a bs = end_of a l
      \<and> carve n bs = l @ Free (s - (n + 8)) # Used n # r \<and> place n a bs = end_of a l + 8 + (s - (n + 8)) + 8"
    using assms
  proof (induction n a bs rule: place.induct)
    case (2 n a s bs)
    show ?case
    proof (cases "s < n + 8")
      case True
      with 2 obtain l t r where "bs = l @ Free t # r" "n + 8 \<le> t" "fit (n + 8) (a + 8 + s) bs = end_of (a + 8 + s) l"
        "carve n bs = l @ Free (t - (n + 8)) # Used n # r" "place n (a + 8 + s) bs = end_of (a + 8 + s) l + 8 + (t - (n + 8)) + 8"
        by auto
      with True show ?thesis by (intro exI [of _ "Free s # l"] exI [of _ t] exI [of _ r]) simp
    next
      case False
      then show ?thesis by (intro exI [of _ "[]"] exI [of _ s] exI [of _ bs]) auto
    qed
  next
    case (3 n a s bs)
    then obtain l t r where "bs = l @ Free t # r" "n + 8 \<le> t" "fit (n + 8) (a + 8 + s) bs = end_of (a + 8 + s) l"
      "carve n bs = l @ Free (t - (n + 8)) # Used n # r" "place n (a + 8 + s) bs = end_of (a + 8 + s) l + 8 + (t - (n + 8)) + 8"
      by auto
    then show ?case by (intro exI [of _ "Used s # l"] exI [of _ t] exI [of _ r]) simp
  qed simp
  then show ?thesis using that by blast
qed

lemma fit_0_place: "0 < a \<Longrightarrow> fit (n + 8) a bs = 0 \<Longrightarrow> place n a bs = 0 \<and> carve n bs = bs"
  by (induction n a bs rule: place.induct) (auto split: if_splits)

lemma carve_hd: "bs \<noteq> [] \<Longrightarrow> carve n bs \<noteq> [] \<and> is_Free (hd (carve n bs)) = is_Free (hd bs)"
  by (induction n bs rule: carve.induct) auto

lemma apart_carve: "apart bs \<Longrightarrow> apart (carve n bs)"
proof (induction n bs rule: carve.induct)
  case (2 n s bs)
  then show ?case using carve_hd [of bs n] by (cases "bs = []") auto
qed auto

lemma carve_Free: "\<exists>t rest'. carve n (Free s # rest) = Free t # rest'"
  by auto

lemma end_of_carve: "end_of a (carve n bs) = end_of a bs"
  by (induction n bs arbitrary: a rule: carve.induct) (auto simp: algebra_simps)

lemma k_malloc_search:
  fixes h :: HEAP and n :: u32
  defines "a \<equiv> unat (heap_start h)"
  assumes ok: "heap_ok h bs" and n: "unat n + 8 < 2 ^ 32"
  shows "malloc_find (mem h) (head h) (n + sizeof_BlockNode) = Some (of_nat (fit (unat n + 8) a bs))"
proof -
  have a0: "0 < a" and hd: "head h = of_nat a" and hs: "headers (mem h) a bs 0"
    and e: "end_of a bs < 2 ^ 32" and ff: "first_free a bs 0 = a"
    using ok by (auto simp: heap_ok_def a_def)
  have un: "unat (n + sizeof_BlockNode) = unat n + 8"
    using n by (simp add: sizeof_BlockNode_def unat_add_u32)
  show ?thesis using malloc_find_fit [OF hs a0 e, of "n + sizeof_BlockNode"] ff a0 un hd by simp
qed

text \<open>
  \<^verbatim>\<open>k_malloc\<close> carves the first fitting block. Only the header of the free block and the new
  header, which lies in the free block, are written.
\<close>

lemma k_malloc_refines:
  fixes h :: HEAP and bs :: "blk list" and n :: u32
  defines "a \<equiv> unat (heap_start h)"
  assumes ok: "heap_ok h bs" and n: "unat n + 8 < 2 ^ 32"
  shows "\<exists>m'. k_malloc h n = Some (h\<lparr>mem := m'\<rparr>, of_nat (place (unat n) a bs))
    \<and> heap_ok (h\<lparr>mem := m'\<rparr>) (carve (unat n) bs)
    \<and> (\<forall>(p, k) \<in> set (payloads a bs). agree m' (mem h) p (p + k))"
proof -
  have a0: "0 < a" and hd: "head h = of_nat a" and e: "end_of a bs = unat (heap_end h)"
    and hs: "headers (mem h) a bs 0" and ap: "apart bs"
    using ok by (auto simp: heap_ok_def a_def)
  obtain s0 rest where bs: "bs = Free s0 # rest" using ok by (auto simp: heap_ok_def)
  have e32: "end_of a bs < 2 ^ 32" using e by simp
  note find = k_malloc_search [OF ok n, folded a_def]
  show ?thesis
  proof (cases "fit (unat n + 8) a bs = 0")
    case True
    have "k_malloc h n = Some (h\<lparr>mem := mem h\<rparr>, of_nat (place (unat n) a bs))"
      using find True fit_0_place [OF a0 True] by (simp add: k_malloc_def)
    then show ?thesis using ok fit_0_place [OF a0 True] by (intro exI [of _ "mem h"]) auto
  next
    case False
    then obtain l s r where sp: "bs = l @ Free s # r" "unat n + 8 \<le> s" "fit (unat n + 8) a bs = end_of a l"
      "carve (unat n) bs = l @ Free (s - (unat n + 8)) # Used (unat n) # r"
      "place (unat n) a bs = end_of a l + 8 + (s - (unat n + 8)) + 8"
      using fit_split [OF a0] by metis
    define A t B where "A = end_of a l" and "t = s - (unat n + 8)" and "B = A + 8 + t"
    have s: "s = t + unat n + 8" using sp(2) by (simp add: t_def)
    have er: "end_of (A + 8 + s) r < 2 ^ 32" "A + 8 + s < 2 ^ 32"
      using e32 le_less_trans [OF end_of_next(2) [of A s r]] by (auto simp: sp(1) A_def)
    have nz: "(of_nat A :: u32) \<noteq> 0" using of_nat_0_u32 [of A] a0 er(2) end_of_ge' [of a l]
      by (simp add: A_def del: end_of_ge')
    have sz: "block_size (mem h) (of_nat A) = of_nat s" "block_next (mem h) (of_nat A) = of_nat (first_free (A + 8 + s) r 0)"
      and hl: "headers (mem h) a l A" and hr: "headers (mem h) (A + 8 + s) r 0"
      using hs by (auto simp: sp(1) A_def)
    define m1 where "m1 = set_size (of_nat A) (of_nat t) (mem h)"
    define m' where "m' = set_next (of_nat B) 0 (set_size (of_nat B) n m1)"
    have t: "(of_nat s :: u32) - (n + sizeof_BlockNode) = of_nat t"
      by (simp add: s sizeof_BlockNode_def)
    have A8: "A + 8 \<le> 2 ^ 32" "B + 8 \<le> 2 ^ 32" "A + 8 \<le> B" "B + 8 + unat n = A + 8 + s"
      using er(2) by (auto simp: B_def s)
    have t1: "block_size m1 (of_nat A) = of_nat t" using A8 by (simp add: m1_def header_simps)
    have nB: "(of_nat A :: u32) + of_nat t + sizeof_BlockNode = of_nat B" by (simp add: B_def sizeof_BlockNode_def)
    have run: "k_malloc h n = Some (h\<lparr>mem := m'\<rparr>, of_nat (place (unat n) a bs))"
      using find nz unfolding k_malloc_def
      by (simp add: sp(3) A_def [symmetric] sz t m1_def [symmetric] t1 nB m'_def Let_def)
        (simp add: sp(5) B_def A_def t_def sizeof_BlockNode_def)
    have "headers m' a (carve (unat n) bs) 0"
    proof -
      have "headers m' a l A" unfolding m'_def m1_def
        by (intro headers_set_next headers_set_size hl) (use A8 in \<open>auto simp: A_def [symmetric]\<close>)
      moreover have "block_size m' (of_nat A) = of_nat t" "block_next m' (of_nat A) = of_nat (first_free (A + 8 + s) r 0)"
        using A8 sz by (simp_all add: m'_def m1_def header_simps)
      moreover have "block_size m' (of_nat B) = of_nat (unat n)"
        using A8 by (simp add: m'_def header_simps)
      moreover have "headers m' (A + 8 + s) r 0" unfolding m'_def m1_def
        by (intro headers_set_next headers_set_size hr) (use A8 er in auto)
      ultimately show ?thesis
        unfolding sp(4) t_def [symmetric] headers_append first_free.simps A_def [symmetric] headers.simps
        by (simp add: B_def [symmetric] A8 del: of_nat_unat)
    qed
    then have ok': "heap_ok (h\<lparr>mem := m'\<rparr>) (carve (unat n) bs)"
      using ok carve_Free [of "unat n" s0 rest] apart_carve [OF ap]
      unfolding heap_ok_def by (simp add: end_of_carve bs a_def [symmetric] del: carve.simps)
    have "agree m' (mem h) p (p + k)" if "(p, k) \<in> set (payloads a bs)" for p k
    proof -
      from that have "p + k \<le> A \<and> p + k \<le> B \<or> A + 8 + s \<le> p" "p + k \<le> 2 ^ 32"
        using payload_bounds [of p k a l] payload_bounds [of p k "A + 8 + s" r] payload_bounds [OF that] e32 A8
        by (auto simp: sp(1) A_def)
      then have "agree m' (set_size (of_nat B) n m1) p (p + k)" "agree (set_size (of_nat B) n m1) m1 p (p + k)"
        "agree m1 (mem h) p (p + k)"
        unfolding m'_def m1_def using A8 by (auto intro!: set_next_agree set_size_agree)
      then show ?thesis by (blast intro: agree_trans)
    qed
    then show ?thesis using run ok' by blast
  qed
qed

end
