(* ===== verification/Heap_Free.thy ===== *)
theory Heap_Free
  imports Heap
begin

text \<open>
  \<^verbatim>\<open>k_free\<close>, \<^verbatim>\<open>k_realloc\<close> and \<^verbatim>\<open>k_malloc_init\<close> on the tiling of the heap, and
  the interface the rest of the kernel may use the allocator through.
\<close>

subsection \<open>Freeing\<close>

text \<open>\<open>m'\<close> differs from \<open>m\<close> only in the headers at the addresses \<open>xs\<close>.\<close>

definition touches :: "flat_mem \<Rightarrow> flat_mem \<Rightarrow> nat list \<Rightarrow> bool" where
  "touches m' m xs \<longleftrightarrow>
     (\<forall>p q. q \<le> 2 ^ 32 \<longrightarrow> (\<forall>x \<in> set xs. q \<le> x \<or> x + 8 \<le> p) \<longrightarrow> agree m' m p q)"

lemma touchesD: "touches m' m xs \<Longrightarrow> q \<le> 2 ^ 32 \<Longrightarrow> (\<And>x. x \<in> set xs \<Longrightarrow> q \<le> x \<or> x + 8 \<le> p) \<Longrightarrow> agree m' m p q"
  by (auto simp: touches_def)

lemma touches_refl: "touches m m xs"
  by (simp add: touches_def)

lemma touches_trans: "touches m2 m1 xs \<Longrightarrow> touches m1 m xs \<Longrightarrow> touches m2 m xs"
  unfolding touches_def by (blast intro: agree_trans)

lemma touches_sub: "touches m' m xs \<Longrightarrow> set xs \<subseteq> set ys \<Longrightarrow> touches m' m ys"
  unfolding touches_def by (meson subsetD)

lemma touches_set:
  "a + 8 \<le> 2 ^ 32 \<Longrightarrow> touches (set_size (of_nat a) s m) m [a]"
  "a + 8 \<le> 2 ^ 32 \<Longrightarrow> touches (set_next (of_nat a) s m) m [a]"
  unfolding touches_def by (auto intro: set_size_agree set_next_agree)

lemma touches_headers:
  "touches m' m xs \<Longrightarrow> end_of c bs \<le> 2 ^ 32 \<Longrightarrow> (\<And>x. x \<in> set xs \<Longrightarrow> end_of c bs \<le> x \<or> x + 8 \<le> c) \<Longrightarrow>
   headers m c bs t \<Longrightarrow> headers m' c bs t"
  by (rule headers_agree, rule touchesD) auto

text \<open>Merging two neighbours.\<close>

lemma merge_blocks_ok:
  fixes a l i j r
  defines "L \<equiv> end_of a l" and "R \<equiv> end_of a l + 8 + i"
  assumes hs: "headers m a (l @ Free i # Free j # r) 0" and e: "end_of a (l @ Free i # Free j # r) < 2 ^ 32"
  shows "headers (merge_blocks m (of_nat L) (of_nat R)) a (l @ Free (i + 8 + j) # r) 0
    \<and> touches (merge_blocks m (of_nat L) (of_nat R)) m [L, R]"
proof -
  let ?m' = "merge_blocks m (of_nat L) (of_nat R)"
  have er: "end_of (R + 8 + j) r < 2 ^ 32" "R + 8 + j < 2 ^ 32"
    using e le_less_trans [OF end_of_next(2) [of R j r]] by (auto simp: R_def)
  have b: "L + 8 \<le> R" "L + 8 \<le> 2 ^ 32" "R + 8 \<le> 2 ^ 32" using er by (auto simp: L_def R_def)
  have sz: "block_size m (of_nat L) = of_nat i" "block_size m (of_nat R) = of_nat j"
    "block_next m (of_nat R) = of_nat (first_free (R + 8 + j) r 0)"
    and hl: "headers m a l L" and hr: "headers m (R + 8 + j) r 0"
    using hs by (auto simp: L_def R_def)
  have t: "touches ?m' m [L, R]"
    unfolding merge_blocks_def Let_def
    by (intro touches_trans [OF touches_sub [OF touches_set(1)]] touches_trans [OF touches_sub [OF touches_set(2)]]
        touches_refl) (use b in auto)
  have "block_size ?m' (of_nat L) = of_nat (i + 8 + j)"
    "block_next ?m' (of_nat L) = of_nat (first_free (R + 8 + j) r 0)"
    using b sz unfolding merge_blocks_def Let_def by (simp_all add: header_simps sizeof_BlockNode_def)
  moreover have "headers ?m' a l L"
    by (rule touches_headers [OF t]) (use hl b in \<open>auto simp: L_def\<close>)
  moreover have "headers ?m' (R + 8 + j) r 0"
    by (rule touches_headers [OF t]) (use hr b er in auto)
  ultimately show ?thesis using t by (simp add: L_def R_def algebra_simps)
qed

text \<open>The search ends at the free blocks on both sides.\<close>

lemma free_find_ok:
  assumes "headers m a l N" "0 < a" "end_of a l < 2 ^ 32" "N = 0 \<or> end_of a l < N" "N < 2 ^ 32"
  shows "free_find m (of_nat (end_of a l)) (of_nat d) (of_nat (first_free a l N)) = Some (of_nat (last_free a l d), of_nat N)"
  using assms
proof (induction m a l N arbitrary: d rule: headers.induct)
  case (1 m a t)
  then have "\<not> ((of_nat t :: u32) < of_nat a \<and> (of_nat t :: u32) \<noteq> 0)"
    by (auto simp: of_nat_less_u32)
  then show ?case by (subst free_find.simps) auto
next
  case (2 m a s bs t)
  have "a < 2 ^ 32" "(of_nat a :: u32) < of_nat (end_of a (Free s # bs))" "(of_nat a :: u32) \<noteq> 0"
    using "2.prems"(2,3) end_of_next(1) [of a s bs] by (auto simp: of_nat_less_u32 of_nat_0_u32 simp del: end_of_next)
  then show ?case using 2 by (subst free_find.simps) simp
qed simp

lemma is_contiguous_iff:
  assumes "block_size m (of_nat a) = of_nat s" "a + 8 + s < 2 ^ 32" "x < 2 ^ 32"
  shows "is_contiguous m (of_nat a) (of_nat x) \<longleftrightarrow> x = a + 8 + s"
proof -
  have "(of_nat a :: u32) + sizeof_BlockNode + of_nat s = of_nat (a + 8 + s)"
    by (simp add: sizeof_BlockNode_def)
  then show ?thesis
    unfolding is_contiguous_def assms(1) using of_nat_inj_u32 [OF assms(2,3)] by (auto simp del: of_nat_add)
qed

text \<open>Lemmas on the specification of freeing.\<close>

lemma apart_append:
  "apart (xs @ ys) \<longleftrightarrow> apart xs \<and> apart ys \<and> (xs \<noteq> [] \<and> ys \<noteq> [] \<and> is_Free (last xs) \<longrightarrow> \<not> is_Free (hd ys))"
  by (induction xs) auto

lemma coalesce_apart: "apart bs \<Longrightarrow> coalesce bs = bs"
  by (induction bs rule: coalesce.induct) auto

lemma coalesce_prefix: "apart (l @ [Free i]) \<Longrightarrow> coalesce (l @ Free i # x) = l @ coalesce (Free i # x)"
proof (induction l)
  case (Cons b l)
  show ?case
  proof (cases b)
    case (Free j)
    with Cons.prems obtain k l' where "l = Used k # l'" by (cases l; cases "hd l") auto
    then show ?thesis using Cons Free by auto
  qed (use Cons in auto)
qed simp

lemma payloads_coalesce [simp]: "payloads a (coalesce bs) = payloads a bs"
proof (induction bs arbitrary: a rule: coalesce.induct)
  case (1 i j bs)
  have "a + 8 + (i + 8 + j) = a + 8 + i + 8 + j" by simp
  with 1 [of a] show ?case by simp
next
  case (3 i j bs)
  from 3 [of "a + 8 + i"] show ?case by simp
qed simp_all

lemma end_of_coalesce [simp]: "end_of a (coalesce bs) = end_of a bs"
proof (induction bs arbitrary: a rule: coalesce.induct)
  case (1 i j bs)
  have "a + 8 + (i + 8 + j) = a + 8 + i + 8 + j" by simp
  with 1 [of a] show ?case by simp
next
  case (3 i j bs)
  from 3 [of "a + 8 + i"] show ?case by simp
qed simp_all

lemma coalesce_Free: "\<exists>s' rest'. coalesce (Free s # rest) = Free s' # rest'"
  by (induction "Free s # rest" arbitrary: s rest rule: coalesce.induct) auto

lemma apart_coalesce: "apart (coalesce bs)"
  by (induction bs rule: coalesce.induct) auto

lemma unuse_at: "unuse (end_of a l + 8) a (l @ Used n # r) = l @ Free n # r"
proof (induction l arbitrary: a)
  case (Cons b l)
  have "a \<noteq> end_of (a + 8 + bsize b) l" using end_of_next(1) [of a "bsize b" l] by linarith
  then show ?case using Cons by (cases b) auto
qed simp

lemma payload_header:
  assumes "(p, k) \<in> set (payloads a (l @ b # r))"
  shows "p + k \<le> end_of a l \<or> end_of a l + 8 \<le> p"
proof -
  have "(p, k) \<in> set (payloads a l) \<or> (p, k) \<in> set (payloads (end_of a l) (b # r))" using assms by auto
  then show ?thesis using payload_bounds by blast
qed

lemma end_of_same: "end_of x us = x \<longleftrightarrow> us = []"
  using end_of_ge [of x us] by (cases us) auto

lemma first_free_here: "0 < x \<Longrightarrow> first_free x r 0 = x \<longleftrightarrow> (\<exists>j r'. r = Free j # r')"
proof (cases r)
  case (Cons b r')
  assume "0 < x"
  then show ?thesis using Cons first_free_cases [of "x + 8 + bsize b" r' 0] by (cases b) auto
qed simp

text \<open>Linking the block in between its neighbours.\<close>

lemma link_ok:
  fixes a l1 k us n r
  defines "P \<equiv> end_of a l1" and "T \<equiv> end_of a (l1 @ Free k # us)"
    and "N \<equiv> first_free (end_of a (l1 @ Free k # us) + 8 + n) r 0"
  assumes hs: "headers m a (l1 @ Free k # us @ Used n # r) 0" and us: "\<And>b. b \<in> set us \<Longrightarrow> \<exists>s. b = Used s"
    and e: "end_of a (l1 @ Free k # us @ Used n # r) < 2 ^ 32"
  shows "headers (set_next (of_nat T) (of_nat N) (set_next (of_nat P) (of_nat T) m)) a (l1 @ Free k # us @ Free n # r) 0
    \<and> touches (set_next (of_nat T) (of_nat N) (set_next (of_nat P) (of_nat T) m)) m [P, T]"
proof -
  let ?m' = "set_next (of_nat T) (of_nat N) (set_next (of_nat P) (of_nat T) m)"
  have T: "T = end_of (P + 8 + k) us" by (simp add: T_def P_def)
  have N: "N = first_free (T + 8 + n) r 0" by (simp add: N_def T_def)
  have er: "end_of (T + 8 + n) r < 2 ^ 32" "T + 8 + n < 2 ^ 32"
    using e le_less_trans [OF end_of_next(2) [of T n r]] by (auto simp: T_def)
  have PT: "P + 8 + k \<le> T" by (simp add: T)
  have b: "P + 8 \<le> T" "P + 8 \<le> 2 ^ 32" "T + 8 \<le> 2 ^ 32" using PT er by auto
  have hl: "headers m a l1 P" and sz: "block_size m (of_nat P) = of_nat k" "block_size m (of_nat T) = of_nat n"
    and hr: "headers m (T + 8 + n) r 0"
    using hs by (auto simp: P_def T_def)
  have hu: "headers m (P + 8 + k) us T"
  proof -
    have "headers m (P + 8 + k) us t \<Longrightarrow> headers m (P + 8 + k) us T" for t
      using us all_used_headers by blast
    then show ?thesis using hs by (auto simp: P_def)
  qed
  have t: "touches ?m' m [P, T]"
    by (intro touches_trans [OF touches_sub [OF touches_set(2)]] touches_refl) (use b in auto)
  have "block_size ?m' (of_nat P) = of_nat k" "block_next ?m' (of_nat P) = of_nat T"
    "block_size ?m' (of_nat T) = of_nat n" "block_next ?m' (of_nat T) = of_nat N"
    using b sz by (simp_all add: header_simps)
  moreover have "headers ?m' a l1 P"
    by (rule touches_headers [OF t]) (use hl b in \<open>auto simp: P_def\<close>)
  moreover have "headers ?m' (P + 8 + k) us T"
    by (rule touches_headers [OF t]) (use hu b in \<open>auto simp: T [symmetric]\<close>)
  moreover have "headers ?m' (T + 8 + n) r 0"
    by (rule touches_headers [OF t]) (use hr b er in auto)
  ultimately show ?thesis using t all_used [OF us, of us "P + 8 + k" T]
    by (simp add: P_def [symmetric] T [symmetric] N)
qed

text \<open>The two merges of \<^verbatim>\<open>k_free\<close>, one after the other.\<close>

lemma merge_left_ok:
  fixes a l1 k us n r
  defines "P \<equiv> end_of a l1" and "T \<equiv> end_of a (l1 @ Free k # us)"
  assumes hs: "headers m a (l1 @ Free k # us @ Free n # r) 0"
    and e: "end_of a (l1 @ Free k # us @ Free n # r) < 2 ^ 32" and ap: "apart (l1 @ Free k # us @ Used n' # r)"
    and us: "\<And>b. b \<in> set us \<Longrightarrow> \<exists>s. b = Used s"
  obtains l2 n2 m' tf where
    "(if is_contiguous m (of_nat P) (of_nat T) then (merge_blocks m (of_nat P) (of_nat T), of_nat P)
      else (m, of_nat T)) = (m', of_nat tf :: u32)"
    "headers m' a (l2 @ Free n2 # r) 0" "touches m' m [P, T]" "tf = end_of a l2" "tf + 8 + n2 = T + 8 + n"
    "coalesce (l1 @ Free k # us @ Free n # r) = l2 @ coalesce (Free n2 # r)" "tf \<in> {P, T}"
proof -
  have T: "T = end_of (P + 8 + k) us" by (simp add: T_def P_def)
  have lt: "T + 8 + n < 2 ^ 32" using e le_less_trans [OF end_of_next(2) [of T n r]] by (auto simp: T_def)
  have PT: "P + 8 + k \<le> T" by (simp add: T)
  have c: "is_contiguous m (of_nat P) (of_nat T) \<longleftrightarrow> us = []"
  proof -
    have "block_size m (of_nat P) = of_nat k" "P + 8 + k < 2 ^ 32" "T < 2 ^ 32"
      using hs lt PT by (auto simp: P_def)
    from is_contiguous_iff [OF this] show ?thesis using end_of_same [of "P + 8 + k" us] by (simp add: T)
  qed
  show ?thesis
  proof (cases "us = []")
    case True
    have "headers (merge_blocks m (of_nat P) (of_nat (P + 8 + k))) a (l1 @ Free (k + 8 + n) # r) 0
        \<and> touches (merge_blocks m (of_nat P) (of_nat (P + 8 + k))) m [P, P + 8 + k]"
      using merge_blocks_ok [of m a l1 k n r] hs e True by (simp add: P_def)
    moreover have "apart (l1 @ [Free k])" using ap by (auto simp: apart_append)
    from coalesce_prefix [OF this] have "coalesce (l1 @ Free k # Free n # r) = l1 @ coalesce (Free (k + 8 + n) # r)"
      by simp
    moreover have "T = P + 8 + k" using True by (simp add: T)
    ultimately show ?thesis using that [of _ P l1 "k + 8 + n"] c True by (simp add: P_def)
  next
    case False
    have "apart ((l1 @ Free k # us) @ [Free n])"
    proof -
      have "\<not> is_Free (last us)" using us [of "last us"] False by auto
      then show ?thesis using ap False by (auto simp: apart_append)
    qed
    from coalesce_prefix [OF this]
    have "coalesce (l1 @ Free k # us @ Free n # r) = (l1 @ Free k # us) @ coalesce (Free n # r)" by simp
    then show ?thesis using that [of m T "l1 @ Free k # us" n] c False hs touches_refl by (simp add: T_def)
  qed
qed

lemma merge_right_ok:
  fixes a l n r
  defines "T \<equiv> end_of a l" and "N \<equiv> first_free (end_of a l + 8 + n) r 0"
  assumes hs: "headers m a (l @ Free n # r) 0" and e: "end_of a (l @ Free n # r) < 2 ^ 32" and a: "0 < a"
    and ap: "apart (Used n' # r)"
  shows "headers (if is_contiguous m (of_nat T) (of_nat N) then merge_blocks m (of_nat T) (of_nat N) else m)
      a (l @ coalesce (Free n # r)) 0
    \<and> touches (if is_contiguous m (of_nat T) (of_nat N) then merge_blocks m (of_nat T) (of_nat N) else m) m
      (if \<exists>j r'. r = Free j # r' then [T, N] else [T])"
proof -
  have lt: "T + 8 + n < 2 ^ 32" "end_of (T + 8 + n) r < 2 ^ 32"
    using e le_less_trans [OF end_of_next(2) [of T n r]] by (auto simp: T_def)
  have Nlt: "N < 2 ^ 32" using first_free_cases [of "T + 8 + n" r 0] lt by (auto simp: N_def T_def)
  have c: "is_contiguous m (of_nat T) (of_nat N) \<longleftrightarrow> (\<exists>j r'. r = Free j # r')"
    using is_contiguous_iff [of m T n N] hs lt Nlt first_free_here [of "T + 8 + n" r] by (auto simp: T_def N_def)
  show ?thesis
  proof (cases "\<exists>j r'. r = Free j # r'")
    case True
    then obtain j r' where r: "r = Free j # r'" by blast
    have "apart (Free (n + 8 + j) # r')" using ap by (simp add: r)
    from coalesce_apart [OF this] have "coalesce (Free n # r) = Free (n + 8 + j) # r'" by (simp add: r)
    moreover have "N = T + 8 + n" by (simp add: N_def T_def r)
    ultimately show ?thesis using merge_blocks_ok [of m a l n j r'] hs e c r by (simp add: T_def)
  next
    case False
    have "apart (Free n # r)" using ap False by (cases r; cases "hd r") auto
    from coalesce_apart [OF this] show ?thesis using hs c False touches_refl by simp
  qed
qed

text \<open>\<^verbatim>\<open>k_free\<close> of a used block marks it free and merges it with its free neighbours.\<close>

lemma k_free_refines:
  fixes h :: HEAP and l r :: "blk list" and n :: nat
  defines "a \<equiv> unat (heap_start h)"
  assumes ok: "heap_ok h (l @ Used n # r)"
  shows "\<exists>m'. k_free h (of_nat (end_of a l + 8)) = Some (h\<lparr>mem := m'\<rparr>)
    \<and> heap_ok (h\<lparr>mem := m'\<rparr>) (coalesce (l @ Free n # r))
    \<and> (\<forall>(p, k) \<in> set (payloads a (l @ Used n # r)). agree m' (mem h) p (p + k))"
proof -
  let ?bs = "l @ Used n # r"
  have a0: "0 < a" and hd: "head h = of_nat a" and e: "end_of a ?bs = unat (heap_end h)"
    and hs: "headers (mem h) a ?bs 0" and ap: "apart ?bs"
    using ok by (auto simp: heap_ok_def a_def)
  obtain s0 rest where l: "l = Free s0 # rest" using ok by (cases l) (auto simp: heap_ok_def)
  then have "\<exists>x \<in> set l. is_Free x" by simp
  then obtain l1 x us where "l = l1 @ x # us" "is_Free x" "\<forall>z \<in> set us. \<not> is_Free z"
    by (rule split_list_last_propE)
  then obtain k where sp: "l = l1 @ Free k # us" and us: "\<And>b. b \<in> set us \<Longrightarrow> \<exists>s. b = Used s"
    by (cases x) (auto, metis blk.collapse(2))
  define P T N where "P = end_of a l1" and "T = end_of a l" and "N = first_free (T + 8 + n) r 0"
  have e32: "end_of a ?bs < 2 ^ 32" using e by simp
  have Tlt: "T + 8 + n < 2 ^ 32" "end_of (T + 8 + n) r < 2 ^ 32"
    using e32 le_less_trans [OF end_of_next(2) [of T n r]] by (auto simp: T_def)
  have Nc: "N = 0 \<or> T < N" "N < 2 ^ 32" using first_free_cases [of "T + 8 + n" r 0] Tlt by (auto simp: N_def)
  have lastP: "last_free a l 0 = P"
  proof -
    have "last_free c (l1 @ Free k # us) d = end_of c l1" for c d
      by (induction c l1 d rule: last_free.induct) (auto simp: all_used [OF us])
    then show ?thesis by (simp add: sp P_def)
  qed
  have find: "free_find (mem h) (of_nat T) 0 (head h) = Some (of_nat P, of_nat N)"
    using free_find_ok [of "mem h" a l N 0] hs a0 Tlt Nc lastP
    by (simp add: hd l T_def N_def)
  define m2 where "m2 = set_next (of_nat T) (of_nat N) (set_next (of_nat P) (of_nat T) (mem h))"
  have link: "headers m2 a (l1 @ Free k # us @ Free n # r) 0" "touches m2 (mem h) [P, T]"
    using link_ok [of "mem h" a l1 k us n r] hs us e32 by (auto simp: m2_def P_def T_def N_def sp)
  have T': "T = end_of a (l1 @ Free k # us)" by (simp add: T_def sp)
  have ap': "apart (l1 @ Free k # us @ Used n # r)" using ap by (simp add: sp)
  have e32': "end_of a (l1 @ Free k # us @ Free n # r) < 2 ^ 32" using e32 by (simp add: sp)
  obtain l2 n2 m3 tf where left:
    "(if is_contiguous m2 (of_nat P) (of_nat T) then (merge_blocks m2 (of_nat P) (of_nat T), of_nat P)
      else (m2, of_nat T)) = (m3, of_nat tf :: u32)"
    "headers m3 a (l2 @ Free n2 # r) 0" "touches m3 m2 [P, T]" "tf = end_of a l2" "tf + 8 + n2 = T + 8 + n"
    "coalesce (l1 @ Free k # us @ Free n # r) = l2 @ coalesce (Free n2 # r)" "tf \<in> {P, T}"
    by (rule merge_left_ok [OF link(1) e32' ap' us, folded P_def T'])
  define m' where "m' = (if is_contiguous m3 (of_nat tf) (of_nat N) then merge_blocks m3 (of_nat tf) (of_nat N) else m3)"
  have N2: "first_free (end_of a l2 + 8 + n2) r 0 = N" unfolding N_def using left(4) by (simp only: left(5) [symmetric])
  have e2: "end_of a (l2 @ Free n2 # r) < 2 ^ 32"
    using left(4) Tlt(2) by (simp only: end_of_append end_of.simps blk.sel left(5) [symmetric])
  have apr: "apart (Used n # r)" using ap by (simp add: apart_append)
  have right: "headers m' a (l2 @ coalesce (Free n2 # r)) 0" "touches m' m3 (if \<exists>j r'. r = Free j # r' then [tf, N] else [tf])"
    using merge_right_ok [OF left(2) e2 a0 apr, unfolded N2, folded left(4), folded m'_def] by blast+
  have "k_free h (of_nat (end_of a l + 8)) =
      (case (if is_contiguous m2 (of_nat P) (of_nat T) then (merge_blocks m2 (of_nat P) (of_nat T), of_nat P)
             else (m2, of_nat T)) of
        (m, t) \<Rightarrow> Some (h\<lparr>mem := if is_contiguous m t (of_nat N) then merge_blocks m t (of_nat N) else m\<rparr>))"
    using find unfolding k_free_def by (simp add: sizeof_BlockNode_def T_def [symmetric] Let_def m2_def [symmetric])
  then have run: "k_free h (of_nat (end_of a l + 8)) = Some (h\<lparr>mem := m'\<rparr>)"
    unfolding left(1) by (simp add: m'_def)
  obtain s' rest' where c: "coalesce (l @ Free n # r) = Free s' # rest'"
    using coalesce_Free [of s0 "rest @ Free n # r"] by (auto simp: l)
  have ok': "heap_ok (h\<lparr>mem := m'\<rparr>) (coalesce (l @ Free n # r))"
  proof -
    have "headers m' a (coalesce (l @ Free n # r)) 0" using right(1) left(6) by (simp only: sp append_assoc append_Cons)
    moreover have "end_of a (coalesce (l @ Free n # r)) = unat (heap_end h)" using e by simp
    moreover have "\<exists>s rest. coalesce (l @ Free n # r) = Free s # rest" using c by blast
    ultimately show ?thesis
      using a0 hd apart_coalesce unfolding heap_ok_def by (simp add: a_def)
  qed
  have "agree m' (mem h) p (p + q)" if pq: "(p, q) \<in> set (payloads a ?bs)" for p q
  proof -
    have b: "p + q \<le> 2 ^ 32" using payload_bounds [OF pq] e32 by simp
    have "p + q \<le> P \<or> P + 8 \<le> p" "p + q \<le> T \<or> T + 8 \<le> p"
      using payload_header [of p q a l1 "Free k" "us @ Used n # r"] payload_header [of p q a l "Used n" r] pq
      by (simp_all add: sp P_def T_def)
    moreover have "p + q \<le> N \<or> N + 8 \<le> p" if "\<exists>j r'. r = Free j # r'"
      using that payload_header [of p q a "l @ [Used n]" "hd r" "tl r"] pq by (auto simp: N_def T_def)
    ultimately have "agree m' m3 p (p + q)" "agree m3 m2 p (p + q)" "agree m2 (mem h) p (p + q)"
      using left(7) by (auto intro!: touchesD [OF right(2)] touchesD [OF left(3)] touchesD [OF link(2)] b
          split: if_splits)
    then show ?thesis by (blast intro: agree_trans)
  qed
  then show ?thesis using run ok' by blast
qed

subsection \<open>Start and client writes\<close>

text \<open>\<^verbatim>\<open>k_malloc_init\<close> makes the heap one free block.\<close>

lemma k_malloc_init_ok:
  assumes "0 < unat (heap_start h)" "head h = heap_start h" "unat (heap_start h) + 8 \<le> unat (heap_end h)"
  shows "heap_ok (k_malloc_init h) [Free (unat (heap_end h) - unat (heap_start h) - 8)]"
proof -
  define a where "a = unat (heap_start h)"
  have hd: "head h = of_nat a" using assms by (simp add: a_def)
  have a8: "a + 8 \<le> 2 ^ 32" using assms(3) unat_lt_u32 [of "heap_end h"] by (simp add: a_def del: unat_lt_u32)
  have sz: "heap_end h - heap_start h - sizeof_BlockNode = of_nat (unat (heap_end h) - a - 8)"
    using assms(3) by (simp add: sizeof_BlockNode_def a_def)
  define m where "m = mem (k_malloc_init h)"
  have "m = set_next (of_nat a) 0 (set_size (of_nat a) (of_nat (unat (heap_end h) - a - 8)) (mem h))"
    unfolding m_def k_malloc_init_def sz hd by simp
  then have "block_size m (of_nat a) = of_nat (unat (heap_end h) - a - 8)" "block_next m (of_nat a) = 0"
    by (simp_all only: size_next_same [OF a8])
  moreover have "heap_start (k_malloc_init h) = heap_start h" "heap_end (k_malloc_init h) = heap_end h"
    "head (k_malloc_init h) = head h" by (simp_all add: k_malloc_init_def)
  ultimately show ?thesis
    using assms unfolding heap_ok_def by (simp add: m_def a_def)
qed

text \<open>An owned area is the payload of a used block; owned areas are apart.\<close>

lemma payload_split:
  "(p, n) \<in> set (payloads a bs) \<Longrightarrow> \<exists>l r. bs = l @ Used n # r \<and> p = end_of a l + 8"
proof (induction a bs rule: payloads.induct)
  case (2 a s bs)
  then obtain l r where "bs = l @ Used n # r \<and> p = end_of (a + 8 + s) l + 8" by auto
  then show ?case by (intro exI [of _ "Free s # l"] exI [of _ r]) simp
next
  case (3 a s bs)
  show ?case
  proof (cases "p = a + 8 \<and> n = s")
    case True
    then show ?thesis by (intro exI [of _ "[]"] exI [of _ bs]) simp
  next
    case False
    with 3 obtain l r where "bs = l @ Used n # r \<and> p = end_of (a + 8 + s) l + 8" by auto
    then show ?thesis by (intro exI [of _ "Used s # l"] exI [of _ r]) simp
  qed
qed simp

lemma payloads_apart:
  assumes "(p, n) \<in> set (payloads a bs)" "(q, k) \<in> set (payloads a bs)" "(p, n) \<noteq> (q, k)"
  shows "p + n < q \<or> q + k < p"
proof -
  obtain l r where bs: "bs = l @ Used n # r" and p: "p = end_of a l + 8" using payload_split [OF assms(1)] by blast
  have "(q, k) \<in> set (payloads a l) \<or> (q, k) \<in> set (payloads (end_of a l + 8 + n) r)"
    using assms(2,3) by (auto simp: bs p)
  then show ?thesis using payload_bounds [of q k] p by fastforce
qed

lemma payloads_carve:
  assumes "0 < a" "place n a bs \<noteq> 0"
  shows "set (payloads a (carve n bs)) = insert (place n a bs, n) (set (payloads a bs))
    \<and> (\<forall>(q, k) \<in> set (payloads a bs). q \<noteq> place n a bs)"
proof -
  have f: "fit (n + 8) a bs \<noteq> 0" using assms fit_0_place [of a n bs] by auto
  obtain l s r where sp: "bs = l @ Free s # r" "n + 8 \<le> s" "carve n bs = l @ Free (s - (n + 8)) # Used n # r"
    "place n a bs = end_of a l + 8 + (s - (n + 8)) + 8"
    using fit_split [OF assms(1) f] by metis
  have "end_of a l + 8 + (s - (n + 8)) + 8 + n = end_of a l + 8 + s" using sp(2) by simp
  then have "payloads a (carve n bs) = payloads a l @ (place n a bs, n) # payloads (end_of a l + 8 + s) r"
    unfolding sp(3,4) by (simp only: payloads_append payloads.simps end_of.simps blk.sel)
  moreover have "payloads a bs = payloads a l @ payloads (end_of a l + 8 + s) r" by (simp add: sp(1))
  moreover have "q \<noteq> place n a bs" if "(q, k) \<in> set (payloads a bs)" for q k
    using payload_header [of q k a l "Free s" r] that sp(1,2,4) payload_bounds [of q k a l]
      payload_bounds [of q k "end_of a l + 8 + s" r] by auto
  ultimately show ?thesis by auto
qed

lemma payload_header_size:
  assumes "heap_ok h bs" "(p, n) \<in> set (payloads (unat (heap_start h)) bs)"
  shows "block_size (mem h) (of_nat p - sizeof_BlockNode) = of_nat n" "0 < p" "p + n < 2 ^ 32"
proof -
  obtain l r where bs: "bs = l @ Used n # r" and p: "p = end_of (unat (heap_start h)) l + 8"
    using payload_split [OF assms(2)] by blast
  show "block_size (mem h) (of_nat p - sizeof_BlockNode) = of_nat n"
    using assms(1) by (simp add: heap_ok_def bs p sizeof_BlockNode_def)
  show "0 < p" by (simp add: p)
  have "end_of (unat (heap_start h)) bs < 2 ^ 32" using assms(1) by (simp add: heap_ok_def)
  then show "p + n < 2 ^ 32" using payload_bounds [OF assms(2)] by linarith
qed

text \<open>A client that writes only into an area it owns keeps the heap.\<close>

lemma client_write_ok:
  assumes ok: "heap_ok h bs" and p: "(p, n) \<in> set (payloads (unat (heap_start h)) bs)"
    and same: "\<And>i. i < 2 ^ 32 \<Longrightarrow> \<not> (p \<le> i \<and> i < p + n) \<Longrightarrow> m' (of_nat i) = mem h (of_nat i)"
  shows "heap_ok (h\<lparr>mem := m'\<rparr>) bs"
proof -
  define a where "a = unat (heap_start h)"
  have e32: "end_of a bs < 2 ^ 32" using ok by (auto simp: heap_ok_def a_def)
  obtain l r where bs: "bs = l @ Used n # r" and pl: "p = end_of a l + 8"
    using payload_split [OF p] by (auto simp: a_def)
  have lt: "end_of a l + 8 + n < 2 ^ 32" "end_of (end_of a l + 8 + n) r < 2 ^ 32"
    using e32 le_less_trans [OF end_of_next(2) [of "end_of a l" n r]] by (auto simp: bs)
  have hs: "headers (mem h) a bs 0" using ok by (simp add: heap_ok_def a_def)
  have "agree m' (mem h) a (end_of a l)" "agree m' (mem h) (end_of a l) (end_of a l + 8)"
    "agree m' (mem h) (end_of a l + 8 + n) (end_of (end_of a l + 8 + n) r)"
    unfolding agree_def using lt pl by (auto intro!: same)
  then have "headers m' a bs 0"
    using hs headers_agree block_agree by (auto simp: bs)
  then show ?thesis using ok unfolding heap_ok_def by (simp add: a_def)
qed

subsection \<open>The interface\<close>

text \<open>
  What the kernel relies on: \<open>owns h A\<close> says that the clients own exactly the areas \<open>A\<close>
  (start and length) of a sound heap \<open>h\<close>; \<open>byte_at\<close> reads its memory.
\<close>

definition keeps :: "('h \<Rightarrow> nat \<Rightarrow> byte) \<Rightarrow> 'h \<Rightarrow> 'h \<Rightarrow> (nat \<times> nat) set \<Rightarrow> bool" where
  "keeps byte_at h' h A \<longleftrightarrow> (\<forall>(q, k) \<in> A. \<forall>i. q \<le> i \<longrightarrow> i < q + k \<longrightarrow> byte_at h' i = byte_at h i)"

lemma keepsD: "keeps b h' h A \<Longrightarrow> (q, k) \<in> A \<Longrightarrow> q \<le> i \<Longrightarrow> i < q + k \<Longrightarrow> b h' i = b h i"
  unfolding keeps_def by blast

lemma keeps_trans: "keeps b h2 h1 A \<Longrightarrow> keeps b h1 h A \<Longrightarrow> keeps b h2 h A"
  unfolding keeps_def by fastforce

lemma keeps_sub: "keeps b h' h A \<Longrightarrow> B \<subseteq> A \<Longrightarrow> keeps b h' h B"
  unfolding keeps_def by blast

locale allocator =
  fixes owns :: "'h \<Rightarrow> (nat \<times> nat) set \<Rightarrow> bool"
    and byte_at :: "'h \<Rightarrow> nat \<Rightarrow> byte"
    and alloc :: "'h \<Rightarrow> u32 \<Rightarrow> ('h \<times> u32) option"
    and release :: "'h \<Rightarrow> u32 \<Rightarrow> 'h option"
    and max_request :: nat
  assumes areas_apart: "owns h A \<Longrightarrow> (p, n) \<in> A \<Longrightarrow> (q, k) \<in> A \<Longrightarrow> (p, n) \<noteq> (q, k) \<Longrightarrow> p + n < q \<or> q + k < p"
    and alloc_law: "owns h A \<Longrightarrow> unat sz \<le> max_request \<Longrightarrow> \<exists>h' r. alloc h sz = Some (h', r)
      \<and> (if r = 0 then h' = h else owns h' (insert (unat r, unat sz) A) \<and> (unat r, unat sz) \<notin> A \<and> keeps byte_at h' h A)"
    and release_law: "owns h A \<Longrightarrow> (unat r, n) \<in> A \<Longrightarrow>
      \<exists>h'. release h r = Some h' \<and> owns h' (A - {(unat r, n)}) \<and> keeps byte_at h' h A"
begin

text \<open>A new area overlaps none of the old ones.\<close>

lemma alloc_fresh:
  assumes "owns h A" "unat n \<le> max_request" "alloc h n = Some (h', p)" "p \<noteq> 0" "(q, k) \<in> A"
  shows "unat p + unat n < q \<or> q + k < unat p"
proof -
  have "owns h' (insert (unat p, unat n) A)" "(unat p, unat n) \<notin> A"
    using alloc_law [OF assms(1,2)] assms(3,4) by auto
  then show ?thesis using areas_apart [of h' _ "unat p" "unat n" q k] assms(5) by auto
qed

text \<open>Allocating and releasing leaves the clients with what they had.\<close>

lemma alloc_release:
  assumes "owns h A" "unat n \<le> max_request" "alloc h n = Some (h', p)" "p \<noteq> 0"
  shows "\<exists>h''. release h' p = Some h'' \<and> owns h'' A \<and> keeps byte_at h'' h A"
proof -
  have o: "owns h' (insert (unat p, unat n) A)" "(unat p, unat n) \<notin> A" "keeps byte_at h' h A"
    using alloc_law [OF assms(1,2)] assms(3,4) by auto
  then obtain h'' where "release h' p = Some h''" "owns h'' A" "keeps byte_at h'' h' (insert (unat p, unat n) A)"
    using release_law [OF o(1), of p "unat n"] by auto
  then show ?thesis using o(3) by (blast intro: keeps_trans keeps_sub)
qed

end

definition heap_owns :: "HEAP \<Rightarrow> (nat \<times> nat) set \<Rightarrow> bool" where
  "heap_owns h A \<longleftrightarrow> (\<exists>bs. heap_ok h bs \<and> A = set (payloads (unat (heap_start h)) bs))"

definition heap_byte :: "HEAP \<Rightarrow> nat \<Rightarrow> byte" where
  "heap_byte h i = mem h (of_nat i)"

lemma heap_keeps:
  "(\<And>p k. (p, k) \<in> A \<Longrightarrow> agree m' (mem h) p (p + k)) \<Longrightarrow> keeps heap_byte (h\<lparr>mem := m'\<rparr>) h A"
  by (auto simp: keeps_def heap_byte_def agree_def)

lemma k_malloc_law:
  assumes "heap_owns h A" "unat n + 8 < 2 ^ 32"
  shows "\<exists>h' p. k_malloc h n = Some (h', p) \<and> (if p = 0 then h' = h
    else heap_owns h' (insert (unat p, unat n) A) \<and> (unat p, unat n) \<notin> A \<and> keeps heap_byte h' h A)"
proof -
  define a where "a = unat (heap_start h)"
  obtain bs where ok: "heap_ok h bs" and A: "A = set (payloads a bs)" using assms(1) by (auto simp: heap_owns_def a_def)
  have a0: "0 < a" using ok by (simp add: heap_ok_def a_def)
  obtain m' where run: "k_malloc h n = Some (h\<lparr>mem := m'\<rparr>, of_nat (place (unat n) a bs))"
    and ok': "heap_ok (h\<lparr>mem := m'\<rparr>) (carve (unat n) bs)"
    and ag: "\<And>p k. (p, k) \<in> set (payloads a bs) \<Longrightarrow> agree m' (mem h) p (p + k)"
    using k_malloc_refines [OF ok assms(2)] by (auto simp: a_def)
  show ?thesis
  proof (cases "place (unat n) a bs = 0")
    case True
    have "k_malloc h n = Some (h, 0)"
    proof -
      have "fit (unat n + 8) a bs = 0"
        using True fit_split [OF a0, of "unat n" bs] by (metis add_gr_0 less_numeral_extra(3) zero_less_numeral)
      moreover have "malloc_find (mem h) (head h) (n + sizeof_BlockNode) = Some (of_nat (fit (unat n + 8) a bs))"
        by (rule k_malloc_search [OF ok assms(2), folded a_def])
      ultimately show ?thesis by (simp add: k_malloc_def)
    qed
    then show ?thesis by simp
  next
    case False
    note pc = payloads_carve [OF a0 False]
    have own: "(place (unat n) a bs, unat n) \<in> set (payloads (unat (heap_start (h\<lparr>mem := m'\<rparr>))) (carve (unat n) bs))"
      using pc by (simp add: a_def [symmetric])
    note b = payload_header_size(2,3) [OF ok' own]
    have u: "unat (of_nat (place (unat n) a bs) :: u32) = place (unat n) a bs"
      using b by (simp add: unat_of_nat_u32)
    have "heap_owns (h\<lparr>mem := m'\<rparr>) (insert (place (unat n) a bs, unat n) A)"
      unfolding heap_owns_def using ok' pc A by (intro exI [of _ "carve (unat n) bs"]) (simp add: a_def)
    moreover have "(place (unat n) a bs, unat n) \<notin> A" using pc A by auto
    moreover have "keeps heap_byte (h\<lparr>mem := m'\<rparr>) h A" by (rule heap_keeps) (use ag A in auto)
    ultimately show ?thesis using run b(1) u of_nat_0_u32 [OF b(1)] b(2) by auto
  qed
qed

lemma k_free_law:
  assumes "heap_owns h A" "(unat p, n) \<in> A"
  shows "\<exists>h'. k_free h p = Some h' \<and> heap_owns h' (A - {(unat p, n)}) \<and> keeps heap_byte h' h A"
proof -
  define a where "a = unat (heap_start h)"
  obtain bs where ok: "heap_ok h bs" and A: "A = set (payloads a bs)" using assms(1) by (auto simp: heap_owns_def a_def)
  then obtain l r where bs: "bs = l @ Used n # r" and p: "unat p = end_of a l + 8"
    using payload_split [of "unat p" n a bs] assms(2) by blast
  have pe: "p = of_nat (end_of a l + 8)" by (simp add: p [symmetric] del: of_nat_add)
  obtain m' where run: "k_free h p = Some (h\<lparr>mem := m'\<rparr>)" "heap_ok (h\<lparr>mem := m'\<rparr>) (coalesce (l @ Free n # r))"
    and ag: "\<And>q k. (q, k) \<in> set (payloads a bs) \<Longrightarrow> agree m' (mem h) q (q + k)"
    using k_free_refines [of h l n r] ok by (auto simp: a_def bs pe)
  have "set (payloads a (coalesce (l @ Free n # r))) = A - {(unat p, n)}"
  proof -
    have "(end_of a l + 8, n) \<notin> set (payloads a l)" "(end_of a l + 8, n) \<notin> set (payloads (end_of a l + 8 + n) r)"
      using payload_bounds [of "end_of a l + 8" n a l] payload_bounds [of "end_of a l + 8" n "end_of a l + 8 + n" r] by auto
    then show ?thesis by (auto simp: A bs p)
  qed
  moreover have "keeps heap_byte (h\<lparr>mem := m'\<rparr>) h A" by (rule heap_keeps) (use ag A in auto)
  ultimately show ?thesis using run by (auto simp: heap_owns_def a_def)
qed

interpretation kheap: allocator heap_owns heap_byte k_malloc k_free "2 ^ 32 - 9"
proof
  show "p + n < q \<or> q + k < p"
    if "heap_owns h A" "(p, n) \<in> A" "(q, k) \<in> A" "(p, n) \<noteq> (q, k)" for h A p n q k
  proof -
    obtain bs where "A = set (payloads (unat (heap_start h)) bs)" using \<open>heap_owns h A\<close> by (auto simp: heap_owns_def)
    then show ?thesis using payloads_apart [of p n _ bs q k] that by simp
  qed
qed (use k_malloc_law k_free_law in auto)

end
