(* ===== verification/Task.thy ===== *)
theory Task
  imports Heap_Free
begin

text \<open>
  The first task of \<^verbatim>\<open>task/task.c\<close>. \<^verbatim>\<open>struct Task\<close> lives in the heap: \<^verbatim>\<open>stack_top\<close> at
  offset 0, \<^verbatim>\<open>cr3\<close> at 4, \<^verbatim>\<open>next_task\<close> at 8, \<^verbatim>\<open>STATE\<close> at 12.
\<close>

subsection \<open>Operations\<close>

datatype TASK_STATE = BLOCK | WAIT_FOR_RUN | RUN

primrec TASK_STATE_code :: "TASK_STATE \<Rightarrow> u32" where
  "TASK_STATE_code BLOCK = 0"
| "TASK_STATE_code WAIT_FOR_RUN = 1"
| "TASK_STATE_code RUN = 2"

record Task =
  stack_top :: u32
  cr3 :: u32
  next_task :: u32
  STATE :: u32

definition load_task :: "flat_mem \<Rightarrow> u32 \<Rightarrow> Task" where
  "load_task m t = \<lparr>stack_top = read32 m t, cr3 = read32 m (t + 4), next_task = read32 m (t + 8),
     STATE = read32 m (t + 12)\<rparr>"

text \<open>
  \<open>page_directory\<close> is the word the declaration \<^verbatim>\<open>extern uint32_t page_directory\<close> names, the first
  entry of the directory. The result carries the heap and \<^verbatim>\<open>current_task\<close>; the allocation is not
  checked, so without room the four words go to the addresses from 0 on.
\<close>

definition initialise_multitasking :: "HEAP \<Rightarrow> u32 \<Rightarrow> (HEAP \<times> u32) option" where
  "initialise_multitasking h page_directory = do {
     (h, t) \<leftarrow> k_malloc h 16;
     let m = write32 (mem h) (t + 12) (TASK_STATE_code RUN);
     let m = write32 m (t + 4) page_directory;
     let m = write32 m (t + 8) t;
     let m = write32 m t (heap_start h);
     Some (h\<lparr>mem := m\<rparr>, t)
   }"

subsection \<open>The fields of the task\<close>

lemma task_fields:
  fixes m :: flat_mem and t :: nat and s c n k :: u32
  assumes "t + 16 \<le> 2 ^ 32"
  defines "m' \<equiv> write32 (write32 (write32 (write32 m (of_nat t + 12) s) (of_nat t + 4) c) (of_nat t + 8) n) (of_nat t) k"
  shows "load_task m' (of_nat t) = \<lparr>stack_top = k, cr3 = c, next_task = n, STATE = s\<rparr>"
    and "i < 2 ^ 32 \<Longrightarrow> \<not> (t \<le> i \<and> i < t + 16) \<Longrightarrow> m' (of_nat i) = m (of_nat i)"
proof -
  have e: "(of_nat t :: u32) + 12 = of_nat (t + 12)" "(of_nat t :: u32) + 4 = of_nat (t + 4)"
    "(of_nat t :: u32) + 8 = of_nat (t + 8)" by simp_all
  show "load_task m' (of_nat t) = \<lparr>stack_top = k, cr3 = c, next_task = n, STATE = s\<rparr>"
    using assms(1) unfolding load_task_def m'_def e
    by (simp add: read_write32_same read_write32_other del: of_nat_add)
  show "m' (of_nat i) = m (of_nat i)" if "i < 2 ^ 32" "\<not> (t \<le> i \<and> i < t + 16)"
    using assms(1) that unfolding m'_def e write32_nat
    by (auto simp: of_nat_inj_u32 simp del: of_nat_add of_nat_Suc)
qed

lemma initialise_multitasking_ok:
  assumes own: "heap_owns h A" and room: "k_malloc h 16 = Some (h1, t)" "t \<noteq> 0"
  shows "\<exists>h'. initialise_multitasking h pd = Some (h', t) \<and> heap_owns h' (insert (unat t, 16) A)
    \<and> load_task (mem h') t = \<lparr>stack_top = heap_start h, cr3 = pd, next_task = t, STATE = TASK_STATE_code RUN\<rparr>
    \<and> keeps heap_byte h' h A"
proof -
  have law: "heap_owns h1 (insert (unat t, 16) A)" "(unat t, 16) \<notin> A" "keeps heap_byte h1 h A"
    using k_malloc_law [OF own, of 16] room by auto
  obtain bs where ok: "heap_ok h1 bs" and bs: "insert (unat t, 16) A = set (payloads (unat (heap_start h1)) bs)"
    using law(1) by (auto simp: heap_owns_def)
  have tb: "unat t + 16 < 2 ^ 32" using payload_header_size(3) [OF ok, of "unat t" 16] bs by auto
  have st: "heap_start h1 = heap_start h"
    using room(1) unfolding k_malloc_def by (auto simp: Let_def split: Option.bind_splits if_splits)
  define m where "m = write32 (write32 (write32 (write32 (mem h1) (t + 12) (TASK_STATE_code RUN)) (t + 4) pd) (t + 8) t) t (heap_start h)"
  have tt: "(of_nat (unat t) :: u32) = t" by simp
  note f = task_fields [of "unat t", where m = "mem h1" and s = "TASK_STATE_code RUN" and c = pd and n = t and k = "heap_start h",
      unfolded tt, folded m_def]
  have run: "initialise_multitasking h pd = Some (h1\<lparr>mem := m\<rparr>, t)"
    using room(1) st by (simp add: initialise_multitasking_def m_def Let_def)
  have "heap_ok (h1\<lparr>mem := m\<rparr>) bs"
  proof (rule client_write_ok [OF ok])
    show "(unat t, 16) \<in> set (payloads (unat (heap_start h1)) bs)" using bs by blast
  qed (use f(2) tb in auto)
  then have o: "heap_owns (h1\<lparr>mem := m\<rparr>) (insert (unat t, 16) A)"
    unfolding heap_owns_def using bs by auto
  have "keeps heap_byte (h1\<lparr>mem := m\<rparr>) h1 A"
    unfolding keeps_def
  proof (intro ballI, clarify)
    fix q j i assume q: "(q, j) \<in> A" "q \<le> i" "i < q + j"
    have "unat t + 16 < q \<or> q + j < unat t"
      using kheap.areas_apart [OF law(1), of "unat t" 16 q j] q(1) law(2) by auto
    moreover have "q + j < 2 ^ 32" using payload_header_size(3) [OF ok, of q j] bs q(1) by auto
    ultimately show "heap_byte (h1\<lparr>mem := m\<rparr>) i = heap_byte h1 i"
      using f(2) [of i] tb q by (auto simp: heap_byte_def)
  qed
  then have "keeps heap_byte (h1\<lparr>mem := m\<rparr>) h A" using law(3) by (rule keeps_trans)
  then show ?thesis using run o f(1) tb by auto
qed

end
