(* ===== verification/Pages.thy ===== *)
theory Pages
  imports Prelude
begin

text \<open>
  The boot-time page tables of \<^verbatim>\<open>cpu/pages.c\<close>: the low 4 MiB mapped to themselves and 8 MiB from
  3 GiB on mapped to the kernel image. The addresses of the tables and of the image are the
  linker's, parameters here. The specification is the processor's walk of a two-level table.
\<close>

subsection \<open>Operations\<close>

record PAGES =
  page_directory :: "u32 list"
  first_page_table :: "u32 list"
  second_page_table :: "u32 list"
  third_page_table :: "u32 list"

definition setup_dir :: "PAGES \<Rightarrow> PAGES" where
  "setup_dir p = p\<lparr>page_directory := fold (\<lambda>i t. t[i := 0x02]) [0..<1024] (page_directory p)\<rparr>"

definition setup_table :: "u32 \<Rightarrow> u32 \<Rightarrow> u32 \<Rightarrow> u32 \<Rightarrow> PAGES \<Rightarrow> PAGES" where
  "setup_table first second third start_address p = p\<lparr>
     first_page_table := fold (\<lambda>i t. t[i := (of_nat i * 0x1000) OR 3]) [0..<1024] (first_page_table p),
     second_page_table := fold (\<lambda>i t. t[i := (start_address + of_nat i * 0x001000) OR 3]) [0..<1024] (second_page_table p),
     third_page_table := fold (\<lambda>i t. t[i := (start_address + of_nat i * 0x001000 + 0x400000) OR 3]) [0..<1024]
       (third_page_table p),
     page_directory := (page_directory p)[0 := first OR 3, 768 := second OR 3, 769 := third OR 3]\<rparr>"

subsection \<open>The walk\<close>

definition frame :: "u32 \<Rightarrow> u32" where
  "frame e = e AND 0xFFFFF000"

definition walk :: "(u32 \<rightharpoonup> u32 list) \<Rightarrow> u32 list \<Rightarrow> u32 \<Rightarrow> u32 option" where
  "walk tables pd v = (let pde = pd ! unat (drop_bit 22 v) in
     if bit pde 0 then do {
       pt \<leftarrow> tables (frame pde);
       let pte = pt ! unat (drop_bit 12 v AND 0x3FF);
       if bit pte 0 then Some (frame pte OR (v AND 0xFFF)) else None
     } else None)"

definition boot_tables :: "u32 \<Rightarrow> u32 \<Rightarrow> u32 \<Rightarrow> PAGES \<Rightarrow> u32 \<rightharpoonup> u32 list" where
  "boot_tables first second third p = [first \<mapsto> first_page_table p, second \<mapsto> second_page_table p, third \<mapsto> third_page_table p]"

subsection \<open>Lemmas\<close>

lemma fold_update:
  "n \<le> length t \<Longrightarrow> fold (\<lambda>i t. t[i := f i]) [0..<n] t = map f [0..<n] @ drop n t"
proof (induction n)
  case (Suc n)
  then have "fold (\<lambda>i t. t[i := f i]) [0..<Suc n] t = (map f [0..<n] @ drop n t)[n := f n]" by simp
  also have "\<dots> = map f [0..<n] @ (drop n t)[0 := f n]" by (simp add: list_update_append)
  also have "(drop n t)[0 := f n] = f n # drop (Suc n) t"
    using Suc.prems by (simp add: Cons_nth_drop_Suc [symmetric])
  finally show ?case by simp
qed simp

text \<open>Page-aligned words.\<close>

abbreviation aligned :: "u32 \<Rightarrow> bool" where
  "aligned a \<equiv> a AND 0xFFF = 0"

lemma page_mask: "(0xFFF :: u32) = mask 12" "(0xFFFFF000 :: u32) = NOT (mask 12)" "(3 :: u32) = mask 2" "(0x3FF :: u32) = mask 10"
  by (simp_all add: mask_eq_exp_minus_1)

lemma aligned_bit: "aligned a \<Longrightarrow> n < 12 \<Longrightarrow> \<not> bit a n"
proof -
  assume a: "aligned a" and n: "n < 12"
  have "\<not> bit (a AND mask 12) n" using a unfolding page_mask by simp
  with n show ?thesis by (simp add: bit_simps)
qed

lemma entry_frame: "aligned a \<Longrightarrow> frame (a OR 3) = a"
  unfolding frame_def page_mask
  by (rule bit_word_eqI) (auto simp: bit_simps dest: aligned_bit [unfolded page_mask])

lemma frame_bits: "bit (frame a) n \<longleftrightarrow> bit a n \<and> 12 \<le> n \<and> n < 32"
  unfolding frame_def page_mask by (auto simp: bit_simps not_less dest: bit_imp_le_length)

lemma frame_or: "frame (a OR 3) = frame a"
  unfolding page_mask by (rule bit_word_eqI) (auto simp: frame_bits bit_simps)

lemma aligned_frame: "aligned (frame a)"
  unfolding frame_def page_mask by (rule bit_word_eqI) (simp add: bit_simps)

lemma frame_split: "a = frame a + (a AND 0xFFF)"
proof -
  have "frame a + (a AND 0xFFF) = frame a OR (a AND 0xFFF)"
    unfolding page_mask by (rule disjunctive_add) (auto simp: frame_bits bit_simps)
  also have "\<dots> = a" unfolding page_mask by (rule bit_word_eqI) (auto simp: frame_bits bit_simps)
  finally show ?thesis by simp
qed

lemma entry_present: "bit ((a :: u32) OR 3) 0"
  unfolding page_mask by (simp add: bit_simps)

lemma aligned_or: "aligned a \<Longrightarrow> a OR (v AND 0xFFF) = a + (v AND 0xFFF)"
  unfolding page_mask
  by (rule disjunctive_add [symmetric]) (auto simp: bit_simps dest: aligned_bit [unfolded page_mask])

lemma aligned_nat: "aligned a \<longleftrightarrow> unat a mod 4096 = 0"
proof -
  have "unat (a AND mask 12) = unat a mod 4096"
    by (simp add: unsigned_take_bit_eq flip: take_bit_eq_mask) (simp add: take_bit_eq_mod)
  then show ?thesis unfolding page_mask using unat_0_iff_u32 [of "a AND mask 12"] by simp
qed

lemma page_parts:
  "unat (drop_bit 22 (v :: u32)) = unat v div 4194304" "unat (drop_bit 12 v AND 0x3FF) = unat v div 4096 mod 1024"
  "unat (v AND 0xFFF) = unat v mod 4096"
proof -
  show "unat (drop_bit 22 v) = unat v div 4194304"
    by (simp add: drop_bit_eq_div unat_div)
  have "unat (drop_bit 12 v) = unat v div 4096"
    by (simp add: drop_bit_eq_div unat_div)
  moreover have "unat (x AND mask n) = unat x mod 2 ^ n" for x :: u32 and n
    by (simp add: unsigned_take_bit_eq flip: take_bit_eq_mask) (simp add: take_bit_eq_mod)
  ultimately show "unat (drop_bit 12 v AND 0x3FF) = unat v div 4096 mod 1024" "unat (v AND 0xFFF) = unat v mod 4096"
    unfolding page_mask by simp_all
qed

lemma page_index: "(x + 1024 * 4096 * k) div 4096 mod 1024 = x div 4096 mod (1024 :: nat)"
proof -
  have "(x + 1024 * 4096 * k) div 4096 = x div 4096 + 1024 * k"
    using div_mult_self1 [of 4096 x "1024 * k"] by simp
  then show ?thesis by simp
qed

lemma page_offset: "(x + 1024 * 4096 * k) mod 4096 = x mod (4096 :: nat)"
  using mod_mult_self1 [of x "1024 * k" 4096] by (simp add: ac_simps)

text \<open>The tables after the two set-up functions.\<close>

definition boot_pages :: "u32 \<Rightarrow> u32 \<Rightarrow> u32 \<Rightarrow> u32 \<Rightarrow> PAGES \<Rightarrow> PAGES" where
  "boot_pages first second third start p = setup_table first second third start (setup_dir p)"

lemma boot_pages_nth:
  assumes "length (page_directory p) = 1024" "length (first_page_table p) = 1024"
    "length (second_page_table p) = 1024" "length (third_page_table p) = 1024" "i < 1024"
  shows "page_directory (boot_pages a b c start p) ! i
      = (if i = 0 then a OR 3 else if i = 768 then b OR 3 else if i = 769 then c OR 3 else 2)"
    "first_page_table (boot_pages a b c start p) ! i = of_nat i * 0x1000 OR 3"
    "second_page_table (boot_pages a b c start p) ! i = start + of_nat i * 0x1000 OR 3"
    "third_page_table (boot_pages a b c start p) ! i = start + of_nat i * 0x1000 + 0x400000 OR 3"
  using assms by (simp_all add: boot_pages_def setup_dir_def setup_table_def fold_update nth_list_update)

lemma aligned_page: "aligned s \<Longrightarrow> aligned (s + of_nat i * 0x1000)"
proof -
  assume "aligned s"
  then have s: "unat s mod 4096 = 0" by (simp add: aligned_nat)
  have "unat (s + of_nat i * 0x1000) mod 4096 = (unat s + i * 4096) mod 2 ^ 32 mod 4096"
    by (simp add: unat_word_ariths unsigned_of_nat take_bit_eq_mod mod_simps)
  also have "\<dots> = (unat s + i * 4096) mod 4096" by (simp add: mod_mod_cancel)
  also have "\<dots> = 0" using s by simp
  finally show ?thesis by (simp add: aligned_nat)
qed

text \<open>The image need not start at a page: the frame of an entry is counted from the page it starts in,
  and the low bits of its address end up in the flags of the entry.\<close>

lemma frame_aligned_or: "aligned a \<Longrightarrow> frame (a OR (v AND 0xFFF)) = a"
  unfolding frame_def page_mask
  by (rule bit_word_eqI) (auto simp: bit_simps not_less [symmetric] dest: aligned_bit [unfolded page_mask])

lemma unaligned_page:
  fixes s :: u32
  shows "frame (s + of_nat i * 0x1000) = frame s + of_nat i * 0x1000" "(s + of_nat i * 0x1000) AND 0xFFF = s AND 0xFFF"
proof -
  let ?p = "frame s + of_nat i * 0x1000"
  have al: "aligned ?p" by (rule aligned_page [OF aligned_frame])
  have "s + of_nat i * 0x1000 = ?p + (s AND 0xFFF)" using frame_split [of s] by simp
  also have "\<dots> = ?p OR (s AND 0xFFF)" by (rule aligned_or [OF al, symmetric])
  finally have e: "s + of_nat i * 0x1000 = ?p OR (s AND 0xFFF)" .
  show "frame (s + of_nat i * 0x1000) = ?p"
    unfolding e by (rule frame_aligned_or [OF al])
  show "(s + of_nat i * 0x1000) AND 0xFFF = s AND 0xFFF"
    unfolding e using al by (intro bit_word_eqI) (auto simp: bit_simps page_mask dest: aligned_bit [unfolded page_mask])
qed

lemma entry_flags:
  fixes s :: u32
  shows "(s + of_nat i * 0x1000 OR 3) AND 0xFFF = (s OR 3) AND 0xFFF"
  using unaligned_page(2) [of s i] by (metis (no_types) and.commute bit.conj_disj_distrib)

lemma page_sum:
  assumes "i = unat w div 4096 mod 1024" "unat w < 4194304"
  shows "(of_nat i * 0x1000 :: u32) + (w AND 0xFFF) = w"
proof -
  have i: "i = unat w div 4096" using assms by (simp add: less_mult_imp_div_less)
  have "(of_nat i * 0x1000 :: u32) + (w AND 0xFFF) = of_nat (i * 4096 + unat w mod 4096)"
    by (simp add: page_parts(3) [symmetric])
  also have "i * 4096 + unat w mod 4096 = unat w" by (simp add: i)
  finally show ?thesis by simp
qed

text \<open>
  The walk through the boot tables: the first 4 MiB are mapped to themselves, the 8 MiB from
  3 GiB on to the 8 MiB from the page the image starts in, nothing else is mapped.
\<close>

lemma boot_walk:
  fixes start :: u32
  assumes len: "length (page_directory p) = 1024" "length (first_page_table p) = 1024"
    "length (second_page_table p) = 1024" "length (third_page_table p) = 1024"
    and al: "aligned first" "aligned second" "aligned third"
    and ne: "first \<noteq> second" "first \<noteq> third" "second \<noteq> third"
  defines "q \<equiv> boot_pages first second third start p"
  shows "walk (boot_tables first second third q) (page_directory q) v =
    (if unat v < 4194304 then Some v
     else if 0xC0000000 \<le> unat v \<and> unat v < 0xC0800000 then Some (frame start + (v - 0xC0000000))
     else None)"
proof -
  define d i where "d = unat v div 4194304" and "i = unat v div 4096 mod 1024"
  have d: "d < 1024" using unsigned_less [of v, where 'a = nat] by (simp add: d_def less_mult_imp_div_less)
  have i: "i < 1024" by (simp add: i_def)
  note nth = boot_pages_nth [OF len, of _ first second third start, folded q_def]
  have two: "\<not> bit (2 :: u32) 0" by simp
  have w: "walk (boot_tables first second third q) (page_directory q) v =
      (let pde = page_directory q ! d in if bit pde 0 then do {
         pt \<leftarrow> boot_tables first second third q (frame pde);
         if bit (pt ! i) 0 then Some (frame (pt ! i) OR (v AND 0xFFF)) else None } else None)"
    unfolding walk_def page_parts d_def i_def Let_def by (rule refl)
  have zero: "frame 0 = 0" by (simp add: frame_def)
  have page: "frame (s + of_nat i * 0x1000 OR 3) OR (v AND 0xFFF) = frame s + of_nat i * 0x1000 + (v AND 0xFFF)" for s
    unfolding frame_or unaligned_page(1) by (rule aligned_or [OF aligned_page [OF aligned_frame]])
  have sh: "of_nat i * 0x1000 + (v AND 0xFFF) = u" if "unat u < 4194304" "i = unat u div 4096 mod 1024" "v AND 0xFFF = u AND 0xFFF" for u
    using page_sum [OF that(2,1)] that(3) by simp
  consider "d = 0" | "d = 768" | "d = 769" | "d \<noteq> 0" "d \<noteq> 768" "d \<noteq> 769" by blast
  then show ?thesis
  proof cases
    case 1
    then have "unat v < 4194304" by (simp add: d_def div_eq_0_iff)
    moreover have "of_nat i * 0x1000 + (v AND 0xFFF) = v" by (rule sh) (use calculation in \<open>simp_all add: i_def\<close>)
    ultimately show ?thesis
      using 1 nth(1) [OF d] nth(2) [OF i] page [of 0] zero ne al
      unfolding w by (simp add: entry_present entry_frame boot_tables_def)
  next
    case 4
    then have "\<not> unat v < 4194304" "\<not> (0xC0000000 \<le> unat v \<and> unat v < 0xC0800000)" by (auto simp: d_def)
    then show ?thesis using 4 nth(1) [OF d] two by (simp add: w Let_def)
  next
    case 2
    define u where "u = v - 0xC0000000"
    have vb: "0xC0000000 \<le> unat v" "unat v < 0xC0400000" using 2 by (auto simp: d_def)
    have u: "unat u = unat v - 0xC0000000" using vb by (simp add: u_def unat_diff_u32 word_le_nat_alt)
    then have "unat v = unat u + 1024 * 4096 * 768" using vb by simp
    then have ui: "i = unat u div 4096 mod 1024" and um: "unat v mod 4096 = unat u mod 4096"
      by (simp_all only: i_def page_index page_offset)
    have "of_nat i * 0x1000 + (v AND 0xFFF) = u"
    proof (rule sh)
      show "unat u < 4194304" using u vb by simp
      show "i = unat u div 4096 mod 1024" by (rule ui)
      have "unat (v AND 0xFFF) = unat (u AND 0xFFF)" unfolding page_parts um by (rule refl)
      then show "v AND 0xFFF = u AND 0xFFF" by simp
    qed
    then show ?thesis
      using 2 vb nth(1) [OF d] nth(3) [OF i] page [of start] ne al
      unfolding w by (simp add: entry_present entry_frame boot_tables_def u_def add.assoc)
  next
    case 3
    define u where "u = v - 0xC0400000"
    have vb: "0xC0400000 \<le> unat v" "unat v < 0xC0800000" using 3 by (auto simp: d_def)
    have u: "unat u = unat v - 0xC0400000" using vb by (simp add: u_def unat_diff_u32 word_le_nat_alt)
    then have "unat v = unat u + 1024 * 4096 * 769" using vb by simp
    then have ui: "i = unat u div 4096 mod 1024" and um: "unat v mod 4096 = unat u mod 4096"
      by (simp_all only: i_def page_index page_offset)
    have "of_nat i * 0x1000 + (v AND 0xFFF) = u"
    proof (rule sh)
      show "unat u < 4194304" using u vb by simp
      show "i = unat u div 4096 mod 1024" by (rule ui)
      have "unat (v AND 0xFFF) = unat (u AND 0xFFF)" unfolding page_parts um by (rule refl)
      then show "v AND 0xFFF = u AND 0xFFF" by simp
    qed
    moreover have "frame (start + 0x400000) = frame start + 0x400000"
      using unaligned_page(1) [of start 1024] by simp
    moreover have "third_page_table q ! i = start + 0x400000 + of_nat i * 0x1000 OR 3"
      using nth(4) [OF i] by (simp add: add.assoc add.commute [of 4194304])
    ultimately show ?thesis
      using 3 vb nth(1) [OF d] page [of "start + 0x400000"] ne al
      unfolding w by (simp add: entry_present entry_frame boot_tables_def u_def add.assoc)
  qed
qed

end
