(* ===== verification/Heap_Theorems.thy ===== *)
theory Heap_Theorems
  imports Heap_Free
begin

text \<open>
  The properties of the kernel heap, over its operations and the tiling that specifies
  it, with a small heap on which they are exercised.
\<close>

subsection \<open>Where and when allocation succeeds\<close>

lemma k_malloc_inside:
  assumes "heap_owns h A" "unat n + 8 < 2 ^ 32" "k_malloc h n = Some (h', p)" "p \<noteq> 0"
  shows "unat (heap_start h) + 8 \<le> unat p \<and> unat p + unat n \<le> unat (heap_end h)"
proof -
  have "heap_owns h' (insert (unat p, unat n) A)" using k_malloc_law [OF assms(1,2)] assms(3,4) by auto
  then obtain bs where bs: "heap_ok h' bs" "(unat p, unat n) \<in> set (payloads (unat (heap_start h')) bs)"
    by (auto simp: heap_owns_def)
  obtain bs0 where "heap_ok h bs0" using assms(1) by (auto simp: heap_owns_def)
  then obtain m' where "h' = h\<lparr>mem := m'\<rparr>" using k_malloc_refines [OF _ assms(2)] assms(3) by fastforce
  then show ?thesis using payload_bounds [OF bs(2)] bs(1) by (auto simp: heap_ok_def)
qed



subsection \<open>Reallocation\<close>


subsection \<open>A small heap\<close>

text \<open>100 bytes from address 4096 on, and what two requests of 16 and 8 bytes leave of them.\<close>

definition demo_heap :: HEAP where
  "demo_heap = k_malloc_init \<lparr>mem = (\<lambda>_. 0), head = 4096, heap_start = 4096, heap_end = 4196\<rparr>"

lemma demo_heap_start [simp]: "heap_start demo_heap = 4096"
  by (simp add: demo_heap_def k_malloc_init_def)

lemma demo_heap_ok: "heap_ok demo_heap [Free 92]"
  using k_malloc_init_ok [of "\<lparr>mem = (\<lambda>_. 0), head = 4096, heap_start = 4096, heap_end = 4196\<rparr>"]
  by (simp add: demo_heap_def)

definition demo_heap_2 :: HEAP where
  "demo_heap_2 = fst (the (k_malloc (fst (the (k_malloc demo_heap 16))) 8))"

lemma demo_heap_2_ok: "heap_ok demo_heap_2 [Free 52, Used 8, Used 16]" "heap_start demo_heap_2 = 4096"
proof -
  obtain m1 p1 where m1: "k_malloc demo_heap 16 = Some (demo_heap\<lparr>mem := m1\<rparr>, p1)" "heap_ok (demo_heap\<lparr>mem := m1\<rparr>) [Free 68, Used 16]"
    using k_malloc_refines [OF demo_heap_ok, of 16] by auto
  obtain m2 p2 where m2: "k_malloc (demo_heap\<lparr>mem := m1\<rparr>) 8 = Some (demo_heap\<lparr>mem := m2\<rparr>, p2)"
    "heap_ok (demo_heap\<lparr>mem := m2\<rparr>) [Free 52, Used 8, Used 16]"
    using k_malloc_refines [OF m1(2), of 8] by auto
  show "heap_ok demo_heap_2 [Free 52, Used 8, Used 16]" "heap_start demo_heap_2 = 4096"
    using m1(1) m2 by (simp_all add: demo_heap_2_def)
qed

lemma demo_heap_2_owns: "heap_owns demo_heap_2 {(4164, 8), (4180, 16)}"
  using demo_heap_2_ok by (auto simp: heap_owns_def intro!: exI [of _ "[Free 52, Used 8, Used 16]"])

subsection \<open>Properties\<close>

text \<open>C19. \<^verbatim>\<open>k_malloc\<close> on a heap of free and used blocks serves the request from the end of
  the first free block that has room for it and a header (and returns 0 without a change if
  there is none); the heap stays sound and the bytes of every area in use are kept.\<close>

theorem k_malloc_first_fit:
  assumes "heap_ok h bs" "unat n + 8 < 2 ^ 32"
  shows "\<exists>m'. k_malloc h n = Some (h\<lparr>mem := m'\<rparr>, of_nat (place (unat n) (unat (heap_start h)) bs))
    \<and> heap_ok (h\<lparr>mem := m'\<rparr>) (carve (unat n) bs)
    \<and> (\<forall>(p, k) \<in> set (payloads (unat (heap_start h)) bs). agree m' (mem h) p (p + k))"
  using k_malloc_refines [OF assms] .

theorem k_malloc_first_fit_witness:
  "\<exists>m'. k_malloc demo_heap_2 20 = Some (demo_heap_2\<lparr>mem := m'\<rparr>, 4136)
    \<and> heap_ok (demo_heap_2\<lparr>mem := m'\<rparr>) [Free 24, Used 20, Used 8, Used 16]"
  using k_malloc_first_fit [OF demo_heap_2_ok(1), of 20] by (auto simp: demo_heap_2_ok(2))

text \<open>C20. \<^verbatim>\<open>k_free\<close> of a used block makes it free, merged with the free blocks before and
  behind it; the heap stays sound and the bytes of every area in use are kept.\<close>

theorem k_free_coalesces:
  assumes "heap_ok h (l @ Used n # r)"
  shows "\<exists>m'. k_free h (of_nat (end_of (unat (heap_start h)) l + 8)) = Some (h\<lparr>mem := m'\<rparr>)
    \<and> heap_ok (h\<lparr>mem := m'\<rparr>) (coalesce (l @ Free n # r))
    \<and> (\<forall>(p, k) \<in> set (payloads (unat (heap_start h)) (l @ Used n # r)). agree m' (mem h) p (p + k))"
  using k_free_refines [OF assms] .

theorem k_free_coalesces_witness:
  "\<exists>m'. k_free demo_heap_2 4164 = Some (demo_heap_2\<lparr>mem := m'\<rparr>)
    \<and> heap_ok (demo_heap_2\<lparr>mem := m'\<rparr>) [Free 68, Used 16]"
  using k_free_coalesces [of demo_heap_2 "[Free 52]" 8 "[Used 16]"] demo_heap_2_ok by auto

text \<open>C21. Freeing what \<^verbatim>\<open>k_malloc\<close> returned gives the clients exactly the areas they had
  before, with their contents.\<close>

theorem k_malloc_k_free_roundtrip:
  assumes "heap_owns h A" "unat n + 8 < 2 ^ 32" "k_malloc h n = Some (h', p)" "p \<noteq> 0"
  shows "\<exists>h''. k_free h' p = Some h'' \<and> heap_owns h'' A \<and> keeps heap_byte h'' h A"
  by (rule kheap.alloc_release [OF assms(1) _ assms(3,4)]) (use assms(2) in simp)

theorem k_malloc_k_free_roundtrip_witness:
  "\<exists>h' h''. k_malloc demo_heap_2 20 = Some (h', 4136) \<and> k_free h' 4136 = Some h''
    \<and> heap_owns h'' {(4164, 8), (4180, 16)}"
proof -
  obtain m' where m: "k_malloc demo_heap_2 20 = Some (demo_heap_2\<lparr>mem := m'\<rparr>, 4136)"
    using k_malloc_refines [OF demo_heap_2_ok(1), of 20] by (auto simp: demo_heap_2_ok(2))
  show ?thesis using k_malloc_k_free_roundtrip [OF demo_heap_2_owns _ m] m by auto
qed

text \<open>C22. Memory safety of allocation: an area \<^verbatim>\<open>k_malloc\<close> hands out lies inside the heap, behind
  its header, overlaps no area in use, belongs to the caller from then on, and the bytes of the
  areas in use are kept.\<close>

theorem k_malloc_disjoint:
  assumes "heap_owns h A" "unat n + 8 < 2 ^ 32" "k_malloc h n = Some (h', p)" "p \<noteq> 0"
  shows "unat (heap_start h) + 8 \<le> unat p \<and> unat p + unat n \<le> unat (heap_end h)
    \<and> (\<forall>(q, k) \<in> A. unat p + unat n < q \<or> q + k < unat p)
    \<and> heap_owns h' (insert (unat p, unat n) A) \<and> keeps heap_byte h' h A"
proof -
  have "heap_owns h' (insert (unat p, unat n) A) \<and> keeps heap_byte h' h A"
    using k_malloc_law [OF assms(1,2)] assms(3,4) by auto
  moreover have "\<forall>(q, k) \<in> A. unat p + unat n < q \<or> q + k < unat p"
    using kheap.alloc_fresh [OF assms(1) _ assms(3,4)] assms(2) by auto
  ultimately show ?thesis using k_malloc_inside [OF assms] by blast
qed

theorem k_malloc_disjoint_witness:
  "\<exists>h' p. k_malloc demo_heap_2 20 = Some (h', p) \<and> 4104 \<le> unat p \<and> unat p + 20 < 4164
    \<and> heap_owns h' {(unat p, 20), (4164, 8), (4180, 16)} \<and> heap_byte h' 4164 = heap_byte demo_heap_2 4164"
proof -
  obtain m' where m: "k_malloc demo_heap_2 20 = Some (demo_heap_2\<lparr>mem := m'\<rparr>, 4136)"
    using k_malloc_refines [OF demo_heap_2_ok(1), of 20] by (auto simp: demo_heap_2_ok(2))
  show ?thesis using k_malloc_disjoint [OF demo_heap_2_owns _ m] m by (auto simp: keeps_def)
qed



text \<open>A request within 8 bytes of the address space is not refused: adding the header
  size wraps, the first block passes the test and the caller gets an area far smaller than the
  size recorded for it.\<close>

theorem k_malloc_huge_request:
  assumes "heap_ok h (Free s # rest)" "8 \<le> s" "2 ^ 32 - 8 \<le> unat n" "unat (heap_end h) + 8 < 2 ^ 32"
  shows "\<exists>h' p. k_malloc h n = Some (h', p) \<and> p \<noteq> 0 \<and> unat p \<le> unat (heap_end h) + 8"
proof -
  define a w where "a = unat (heap_start h)" and "w = unat n + 8 - 2 ^ 32"
  have hd: "head h = of_nat a" and sz: "block_size (mem h) (of_nat a) = of_nat s" and a0: "0 < a"
    and e: "end_of (a + 8 + s) rest = unat (heap_end h)"
    using assms(1) by (auto simp: heap_ok_def a_def)
  have b: "a + 8 + s \<le> unat (heap_end h)" using end_of_next(2) [of a s rest] e by simp
  have w: "w < 8" "w \<le> s" using assms(2,3) unat_lt_u32 [of n] by (auto simp: w_def simp del: unat_lt_u32)
  have un: "n + sizeof_BlockNode = of_nat w"
  proof -
    have "(of_nat (unat n + 8) :: u32) = of_nat (w + 2 ^ 32)" using assms(3) by (simp add: w_def)
    also have "\<dots> = of_nat w" by (simp only: of_nat_add) simp
    finally show ?thesis by (simp add: sizeof_BlockNode_def)
  qed
  have a8: "a + 8 \<le> 2 ^ 32" "a < 2 ^ 32" using b assms(4) by simp_all
  have "\<not> (of_nat s :: u32) < of_nat w" using w b assms(4) by (simp add: of_nat_less_u32)
  then have find: "malloc_find (mem h) (head h) (n + sizeof_BlockNode) = Some (of_nat a)"
    by (subst malloc_find.simps) (simp add: hd sz un)
  have t: "(of_nat s :: u32) - of_nat w = of_nat (s - w)" using w by simp
  define q where "q = a + (s - w) + 16"
  have q: "0 < q" "q < 2 ^ 32" "q \<le> unat (heap_end h) + 8" using b w assms(4) by (auto simp: q_def)
  have "(of_nat a :: u32) + of_nat (s - w) + sizeof_BlockNode + sizeof_BlockNode = of_nat q"
    by (simp add: q_def sizeof_BlockNode_def)
  then have "\<exists>h'. k_malloc h n = Some (h', of_nat q)"
    using find of_nat_0_u32 [OF a0 a8(2)] a8(1)
    by (simp add: k_malloc_def un sz t header_simps Let_def)
  then show ?thesis using q of_nat_0_u32 [OF q(1,2)] by (auto simp: unat_of_nat_u32)
qed

theorem k_malloc_huge_request_witness:
  "\<exists>h' p. k_malloc demo_heap_2 0xFFFFFFFF = Some (h', p) \<and> p \<noteq> 0 \<and> unat p \<le> 4204"
proof -
  have "unat (heap_end demo_heap_2) = 4196" using demo_heap_2_ok by (simp add: heap_ok_def)
  then show ?thesis using k_malloc_huge_request [OF demo_heap_2_ok(1), where n = "0xFFFFFFFF"] by auto
qed

end
