(* ===== verification/Kernel_Theorems.thy ===== *)
theory Kernel_Theorems
  imports Task Cpu Pages Heap_Theorems
begin

text \<open>
  The properties of interrupt set-up and dispatch, of the boot page tables and of the first task.
\<close>

subsection \<open>Interrupts\<close>

text \<open>After \<^verbatim>\<open>isr_install\<close> the gates 0 to 31 lead to the exception stubs and 32 to 47 to the
  IRQ stubs, as present 32-bit interrupt gates of the kernel segment; the controllers have been
  programmed between the two groups and the other gates are as before.\<close>

theorem isr_install_gates:
  assumes "length idt = IDT_ENTRIES"
  shows "\<exists>idt'. isr_install P isr irq idt_address idt h
      = Some (idt', \<lparr>limit = 2047, base = idt_address\<rparr>, bytes_out P pic_remap h) \<and> length idt' = IDT_ENTRIES
    \<and> (\<forall>n < 32. gate_target (idt' ! n) = isr n \<and> sel (idt' ! n) = KERNEL_CS \<and> flags (idt' ! n) = 0x8E)
    \<and> (\<forall>n < 16. gate_target (idt' ! (n + 32)) = irq n \<and> sel (idt' ! (n + 32)) = KERNEL_CS \<and> flags (idt' ! (n + 32)) = 0x8E)
    \<and> (\<forall>n < IDT_ENTRIES. 48 \<le> n \<longrightarrow> idt' ! n = idt ! n)"
  by (rule isr_install_ok [OF assms])

definition demo_idt :: "idt_gate_t list" where
  "demo_idt = replicate 256 \<lparr>low_offset = 0, sel = 0, always0 = 0, flags = 0, high_offset = 0\<rparr>"

theorem isr_install_gates_witness:
  "\<exists>idt'. isr_install trace_ports (\<lambda>n. 0xC0100000 + of_nat n) (\<lambda>n. 0xC0200000 + of_nat n) 0xC0300000 demo_idt
      \<lparr>trace = [], script = []\<rparr>
    = Some (idt', \<lparr>limit = 2047, base = 0xC0300000\<rparr>, \<lparr>trace = rev (map (\<lambda>(p, v). OutB p v) pic_remap), script = []\<rparr>)
    \<and> gate_target (idt' ! 33) = 0xC0200001"
proof -
  have l: "length demo_idt = IDT_ENTRIES" by (simp add: demo_idt_def IDT_ENTRIES_def)
  obtain idt' where i: "isr_install trace_ports (\<lambda>n. 0xC0100000 + of_nat n) (\<lambda>n. 0xC0200000 + of_nat n) 0xC0300000 demo_idt
      \<lparr>trace = [], script = []\<rparr>
    = Some (idt', \<lparr>limit = 2047, base = 0xC0300000\<rparr>, bytes_out trace_ports pic_remap \<lparr>trace = [], script = []\<rparr>)"
    "\<forall>n < 16. gate_target (idt' ! (n + 32)) = 0xC0200000 + of_nat n"
    using isr_install_gates [OF l, of trace_ports "\<lambda>n. 0xC0100000 + of_nat n" "\<lambda>n. 0xC0200000 + of_nat n" "0xC0300000"] by blast
  from i(2) [rule_format, of 1] show ?thesis using i(1) by (simp add: trace_bytes_out)
qed

text \<open>A handler registered for an interrupt runs when it arrives, after the controllers have
  been acknowledged, the second one first for the interrupts from 40 on.\<close>

theorem irq_handler_dispatches:
  assumes "length handlers = 256" "int_no r = ucast n"
  shows "irq_handler out (register_interrupt_handler handlers n (Some f)) r s
    = f r (out 0x20 0x20 (if 40 \<le> n then out 0xa0 0x20 s else s))"
  by (rule irq_dispatch [OF assms])

definition demo_regs :: "u32 \<Rightarrow> registers_t" where
  "demo_regs n = \<lparr>ds = 0, edi = 0, esi = 0, ebp = 0, esp = 0, ebx = 0, edx = 0, ecx = 0, eax = 0,
     int_no = n, err_code = 0, eip = 0, cs = 0, eflags = 0, useresp = 0, ss = 0\<rparr>"

theorem irq_handler_dispatches_witness:
  "irq_handler (port_byte_out trace_ports)
     (register_interrupt_handler (replicate 256 None) IRQ1 (Some (\<lambda>r s. Some (s\<lparr>script := [7]\<rparr>))))
     (demo_regs 33) \<lparr>trace = [], script = []\<rparr> = Some \<lparr>trace = [OutB 0x20 0x20], script = [7]\<rparr>"
  using irq_handler_dispatches [of "replicate 256 None" "demo_regs 33" IRQ1 "port_byte_out trace_ports"]
  by (simp add: demo_regs_def)

subsection \<open>Paging\<close>

text \<open>C25. Walked by the processor, the boot tables map the first 4 MiB to themselves, the 8 MiB from
  3 GiB on to the 8 MiB from the page on in which the image starts, and nothing else. The linker
  script does not align the start of the image: the low bits of its address become flags of the
  entries, next to the bits for present and writable.\<close>

theorem boot_tables_map:
  assumes "length (page_directory p) = 1024" "length (first_page_table p) = 1024"
    "length (second_page_table p) = 1024" "length (third_page_table p) = 1024"
    and "aligned first" "aligned second" "aligned third"
    and "first \<noteq> second" "first \<noteq> third" "second \<noteq> third"
  shows "(walk (boot_tables first second third (setup_table first second third start (setup_dir p)))
      (page_directory (setup_table first second third start (setup_dir p))) v =
    (if unat v < 4194304 then Some v
     else if 0xC0000000 \<le> unat v \<and> unat v < 0xC0800000 then Some (frame start + (v - 0xC0000000))
     else None))
    \<and> (\<forall>i<1024. second_page_table (setup_table first second third start (setup_dir p)) ! i AND 0xFFF = (start OR 3) AND 0xFFF
         \<and> third_page_table (setup_table first second third start (setup_dir p)) ! i AND 0xFFF = (start OR 3) AND 0xFFF)"
proof (intro conjI allI impI)
  fix i :: nat assume i: "i < 1024"
  note n = boot_pages_nth(3,4) [OF assms(1-4) i, of first second third start, unfolded boot_pages_def]
  show "second_page_table (setup_table first second third start (setup_dir p)) ! i AND 0xFFF = (start OR 3) AND 0xFFF"
    unfolding n by (rule entry_flags)
  have "start + of_nat i * 0x1000 + 0x400000 = start + of_nat (i + 1024) * 0x1000" by (simp add: algebra_simps)
  then show "third_page_table (setup_table first second third start (setup_dir p)) ! i AND 0xFFF = (start OR 3) AND 0xFFF"
    unfolding n by (simp only: entry_flags)
qed (use boot_walk [OF assms, of start v] in \<open>unfold boot_pages_def\<close>)

definition demo_pages :: PAGES where
  "demo_pages = \<lparr>page_directory = replicate 1024 0, first_page_table = replicate 1024 0,
     second_page_table = replicate 1024 0, third_page_table = replicate 1024 0\<rparr>"

theorem boot_tables_map_witness:
  "walk (boot_tables 0x2000 0x3000 0x4000 (setup_table 0x2000 0x3000 0x4000 0x106168 (setup_dir demo_pages)))
     (page_directory (setup_table 0x2000 0x3000 0x4000 0x106168 (setup_dir demo_pages))) 0xC0012345 = Some 0x118345
   \<and> second_page_table (setup_table 0x2000 0x3000 0x4000 0x106168 (setup_dir demo_pages)) ! 7 AND 0xFFF = 0x16B"
  using boot_tables_map [of demo_pages "0x2000" "0x3000" "0x4000" "0x106168" "0xC0012345"] by (simp add: demo_pages_def frame_def)

subsection \<open>The first task\<close>

text \<open>With room for it, \<^verbatim>\<open>initialise_multitasking\<close> makes the running task in a heap area of its
  own, linked to itself, without touching what others own. Its \<^verbatim>\<open>cr3\<close> is the word \<^verbatim>\<open>page_directory\<close>
  names, the first entry of the directory and not its address.\<close>

theorem initialise_multitasking_task:
  assumes "heap_owns h A" "k_malloc h 16 = Some (h1, t)" "t \<noteq> 0"
  shows "\<exists>h'. initialise_multitasking h (page_directory p ! 0) = Some (h', t) \<and> heap_owns h' (insert (unat t, 16) A)
    \<and> load_task (mem h') t = \<lparr>stack_top = heap_start h, cr3 = page_directory p ! 0, next_task = t, STATE = TASK_STATE_code RUN\<rparr>
    \<and> keeps heap_byte h' h A"
  by (rule initialise_multitasking_ok [OF assms])

theorem initialise_multitasking_task_witness:
  "\<exists>h'. initialise_multitasking demo_heap_2 0x2003 = Some (h', 4140)
    \<and> load_task (mem h') 4140 = \<lparr>stack_top = 4096, cr3 = 0x2003, next_task = 4140, STATE = 2\<rparr>"
proof -
  obtain m' where m: "k_malloc demo_heap_2 16 = Some (demo_heap_2\<lparr>mem := m'\<rparr>, 4140)"
    using k_malloc_refines [OF demo_heap_2_ok(1), of 16] by (auto simp: demo_heap_2_ok(2))
  show ?thesis
    using initialise_multitasking_task [OF demo_heap_2_owns m, where p = "demo_pages\<lparr>page_directory := [0x2003]\<rparr>"]
    by (auto simp: demo_heap_2_ok(2))
qed

end
