(* ===== verification/Kernel_Boot.thy ===== *)
theory Kernel_Boot
  imports Console_Theorems Kernel_Theorems
begin

text \<open>
  The start of the kernel, \<^verbatim>\<open>main\<close> of \<^verbatim>\<open>kernel/kernel.c\<close> up to the point where it enables
  interrupts: heap, segments, interrupts, keyboard and screen. The heap and video memory are parts
  of one memory. That the operations together establish what the heap and the console need is
  the composition of the results on the components.
\<close>

subsection \<open>The operations\<close>

record 'h SYSTEM =
  kern :: "'h KERNEL"
  sys_heap :: HEAP \<comment> \<open>its memory is that of the machine\<close>
  sys_idt :: "idt_gate_t list"
  sys_idt_reg :: idt_register_t
  sys_handlers :: "'h KERNEL isr_t option list"

text \<open>\<open>gdt_setup\<close>, in assembly, is a parameter.\<close>

definition gdt_install :: "('h \<Rightarrow> 'h) \<Rightarrow> 'h MACHINE \<Rightarrow> 'h MACHINE" where
  "gdt_install gdt_setup m = m\<lparr>hw := gdt_setup (hw m)\<rparr>"

definition greeting :: "byte list" where
  "greeting = bytes_of (''Hello to File OS! '' @ [CHR 0x0A, CHR 0x0A])"

definition main_setup ::
  "'h PORTS \<Rightarrow> ('h \<Rightarrow> 'h) \<Rightarrow> (nat \<Rightarrow> u32) \<Rightarrow> (nat \<Rightarrow> u32) \<Rightarrow> u32 \<Rightarrow> 'h SYSTEM \<Rightarrow> 'h SYSTEM option" where
  "main_setup P gdt_setup isr irq idt_address S = do {
     let heap = k_malloc_init ((sys_heap S)\<lparr>mem := ram (machine (kern S))\<rparr>);
     let m = (machine (kern S))\<lparr>ram := mem heap\<rparr>;
     let m = gdt_install gdt_setup m;
     (idt, reg, h) \<leftarrow> isr_install P isr irq idt_address (sys_idt S) (hw m);
     let m = m\<lparr>hw := h\<rparr>;
     let handlers = init_keyboard P (shell_callback P) (sys_handlers S);
     let m = clear_screen m;
     m \<leftarrow> kprint P (greeting @ [0]) m;
     Some \<lparr>kern = (kern S)\<lparr>machine := m\<rparr>, sys_heap = heap\<lparr>mem := ram m\<rparr>, sys_idt = idt, sys_idt_reg = reg, sys_handlers = handlers\<rparr>
   }"

subsection \<open>Lemmas\<close>

lemma heap_ok_agree:
  assumes "heap_ok h bs" "agree m (mem h) (unat (heap_start h)) (unat (heap_end h))"
  shows "heap_ok (h\<lparr>mem := m\<rparr>) bs"
proof -
  have "agree m (mem h) (unat (heap_start h)) (end_of (unat (heap_start h)) bs)" using assms by (simp add: heap_ok_def)
  then have "headers m (unat (heap_start h)) bs 0" by (rule headers_agree) (use assms(1) in \<open>simp add: heap_ok_def\<close>)
  then show ?thesis using assms(1) by (simp add: heap_ok_def)
qed

lemma only_video_agree:
  assumes "only_video m' m" "b \<le> 0xb8000 \<or> 0xb8000 + 4000 \<le> a" "b \<le> 2 ^ 32"
  shows "agree m' m a b"
  using assms unfolding only_video_def agree_def by auto

text \<open>Without a backspace every text can be printed.\<close>

lemma term_print_plain: "8 \<notin> set msg \<Longrightarrow> term_print msg t = Some (the (term_print msg t))"
proof (induction msg arbitrary: t)
  case (Cons c cs)
  obtain cs0 p0 where t: "t = (cs0, p0)" by force
  have "term_put c t \<noteq> None" using Cons.prems unfolding t by auto
  then obtain u where "term_put c t = Some u" by blast
  then show ?case using Cons by simp
qed simp

lemma greeting_chars: "8 \<notin> set greeting" "0 \<notin> set greeting"
  by (simp_all add: greeting_def bytes_of_def)

text \<open>The screen after the greeting, when the cursor was at \<open>p\<close>: clearing does not move it.\<close>

definition greeted :: "nat \<Rightarrow> terminal" where
  "greeted p = the (term_print greeting (replicate 2000 (ch CHR '' '', WHITE_ON_BLACK), p))"

subsection \<open>The interface to the hardware\<close>

locale boot_console = console P ready selected cursor pending
  for P :: "'h PORTS" and ready :: "'h \<Rightarrow> bool" and selected :: "'h \<Rightarrow> byte"
    and cursor :: "'h \<Rightarrow> u16" and pending :: "'h \<Rightarrow> byte list" +
  fixes gdt_setup :: "'h \<Rightarrow> 'h"
  assumes pic_data_ports: "\<And>h p v. ready h \<Longrightarrow> p \<in> {0x21, 0xa1} \<Longrightarrow> let h' = port_byte_out P p v h
      in ready h' \<and> cursor h' = cursor h \<and> pending h' = pending h"
    and gdt: "\<And>h. ready h \<Longrightarrow> ready (gdt_setup h) \<and> cursor (gdt_setup h) = cursor h \<and> pending (gdt_setup h) = pending h"
begin

lemma bytes_out_pic:
  assumes "ready h" "fst ` set ws \<subseteq> {0x20, 0xa0, 0x21, 0xa1}"
  shows "ready (bytes_out P ws h) \<and> cursor (bytes_out P ws h) = cursor h \<and> pending (bytes_out P ws h) = pending h"
  using assms
proof (induction ws arbitrary: h)
  case (Cons w ws)
  obtain p v where w: "w = (p, v)" by force
  then have "p \<in> {0x20, 0xa0} \<or> p \<in> {0x21, 0xa1}" using Cons.prems(2) by auto
  then have "ready (port_byte_out P p v h) \<and> cursor (port_byte_out P p v h) = cursor h \<and> pending (port_byte_out P p v h) = pending h"
    using pic_ports [OF Cons.prems(1), of p v] pic_data_ports [OF Cons.prems(1), of p v] by (auto simp: Let_def)
  then show ?case using Cons.IH [of "port_byte_out P p v h"] Cons.prems(2) w by simp
qed simp

lemma main_setup_ok:
  assumes start: "ready (hw (machine (kern S)))" "unat (cursor (hw (machine (kern S)))) = p" "p < 2000"
    and idt: "length (sys_idt S) = IDT_ENTRIES"
    and heap: "0 < unat (heap_start (sys_heap S))" "head (sys_heap S) = heap_start (sys_heap S)"
      "unat (heap_start (sys_heap S)) + 8 \<le> unat (heap_end (sys_heap S))"
      "unat (heap_end (sys_heap S)) \<le> 0xb8000 \<or> 0xb8000 + 4000 \<le> unat (heap_start (sys_heap S))"
  shows "\<exists>S' m. main_setup P gdt_setup isr irq idt_address S = Some S'
    \<and> kern S' = (kern S)\<lparr>machine := m\<rparr> \<and> shows_term m (greeted p) \<and> pending (hw m) = pending (hw (machine (kern S)))
    \<and> mem (sys_heap S') = ram m
    \<and> heap_ok (sys_heap S') [Free (unat (heap_end (sys_heap S)) - unat (heap_start (sys_heap S)) - 8)]
    \<and> sys_handlers S' = init_keyboard P (shell_callback P) (sys_handlers S)
    \<and> (\<forall>n < 32. gate_target (sys_idt S' ! n) = isr n) \<and> (\<forall>n < 16. gate_target (sys_idt S' ! (n + 32)) = irq n)"
proof -
  let ?m0 = "machine (kern S)" and ?h0 = "(sys_heap S)\<lparr>mem := ram (machine (kern S))\<rparr>"
  let ?heap = "k_malloc_init ?h0"
  have hp: "heap_ok ?heap [Free (unat (heap_end (sys_heap S)) - unat (heap_start (sys_heap S)) - 8)]"
    "heap_start ?heap = heap_start (sys_heap S)" "heap_end ?heap = heap_end (sys_heap S)"
    using k_malloc_init_ok [of ?h0] heap by (simp_all add: k_malloc_init_def)
  let ?m1 = "gdt_install gdt_setup (?m0\<lparr>ram := mem ?heap\<rparr>)"
  obtain idt' where i: "isr_install P isr irq idt_address (sys_idt S) (hw ?m1)
      = Some (idt', \<lparr>limit = 2047, base = idt_address\<rparr>, bytes_out P pic_remap (hw ?m1))"
    "\<forall>n < 32. gate_target (idt' ! n) = isr n" "\<forall>n < 16. gate_target (idt' ! (n + 32)) = irq n"
    using isr_install_ok [OF idt, of P isr irq idt_address "hw ?m1"] by blast
  let ?m2 = "?m1\<lparr>hw := bytes_out P pic_remap (hw ?m1)\<rparr>"
  have h: "ready (hw ?m2)" "cursor (hw ?m2) = cursor (hw ?m0)" "pending (hw ?m2) = pending (hw ?m0)"
    using gdt [OF start(1)] bytes_out_pic [of "hw ?m1" pic_remap] by (auto simp: gdt_install_def pic_remap_def)
  have "shows_term ?m2 (cells (ram ?m2), p)" using h start by (simp add: term_on_def)
  from clear_screen_ok [OF this] have c: "shows_term (clear_screen ?m2) (replicate 2000 (ch CHR '' '', WHITE_ON_BLACK), p)"
    "leaves (clear_screen ?m2) ?m2" by blast+
  have "term_print greeting (replicate 2000 (ch CHR '' '', WHITE_ON_BLACK), p) = Some (greeted p)"
    unfolding greeted_def by (rule term_print_plain [OF greeting_chars(1)])
  from kprint_ok [OF c(1) greeting_chars(2) this, of "[]"] obtain m where
    m: "kprint P (greeting @ [0]) (clear_screen ?m2) = Some m" "shows_term m (greeted p)" "leaves m (clear_screen ?m2)" by blast
  have l: "leaves m ?m2" by (rule leaves_trans [OF m(3) c(2)])
  then have v: "only_video (ram m) (mem ?heap)" by (simp add: leaves_on_def gdt_install_def)
  have "unat (heap_end (sys_heap S)) \<le> 2 ^ 32" using unat_lt_u32 [of "heap_end (sys_heap S)"] by (simp del: unat_lt_u32)
  from only_video_agree [OF v heap(4) this] have hm: "heap_ok (?heap\<lparr>mem := ram m\<rparr>) [Free (unat (heap_end (sys_heap S)) - unat (heap_start (sys_heap S)) - 8)]"
    by (intro heap_ok_agree [OF hp(1)]) (simp add: hp)
  have r: "main_setup P gdt_setup isr irq idt_address S
      = Some \<lparr>kern = (kern S)\<lparr>machine := m\<rparr>, sys_heap = ?heap\<lparr>mem := ram m\<rparr>, sys_idt = idt',
          sys_idt_reg = \<lparr>limit = 2047, base = idt_address\<rparr>, sys_handlers = init_keyboard P (shell_callback P) (sys_handlers S)\<rparr>"
    unfolding main_setup_def Let_def i(1) by (simp add: m(1))
  have pm: "pending (hw m) = pending (hw ?m0)" using l h(3) by (simp add: leaves_on_def)
  show ?thesis unfolding r by (rule exI, rule exI [of _ m], rule conjI [OF refl]) (use m(2) hm i(2,3) pm in simp)
qed

end

interpretation boot: boot_console con_ports "\<lambda>_. True" crt_index crt_cursor codes "\<lambda>h. h"
  by unfold_locales (auto simp: con_ports_def con_out_def Let_def)

subsection \<open>Properties\<close>

text \<open>C18. The start of the kernel makes the system work: on a machine whose display is on, with the
  linker's symbols around a heap apart from video memory and the globals as the loader leaves them,
  \<^verbatim>\<open>main\<close> reaches the point where it enables interrupts; the heap is then one free block, every gate
  of the exceptions and the IRQs leads to its stub, and from there on the keyboard interrupts are
  a line editor on the cleared screen with the greeting printed at the cursor's place.\<close>

theorem main_starts_console:
  assumes hardware: "boot_console P ready selected cursor pending gdt_setup"
    and display: "ready (hw (machine (kern S)))" "unat (cursor (hw (machine (kern S)))) = p" "p < 2000"
    and globals: "sh_buffer (kern S) = replicate 256 0" "sh_buffer_count (kern S) = 0" "high (kern S) = 0" "bExecute (kern S) = 0"
      "length (sys_idt S) = IDT_ENTRIES" "length (sys_handlers S) = 256"
    and heap: "0 < unat (heap_start (sys_heap S))" "head (sys_heap S) = heap_start (sys_heap S)"
      "unat (heap_start (sys_heap S)) + 8 \<le> unat (heap_end (sys_heap S))"
      "unat (heap_end (sys_heap S)) \<le> 0xb8000 \<or> 0xb8000 + 4000 \<le> unat (heap_start (sys_heap S))"
    and keys: "pending (hw (machine (kern S))) = scs @ q"
      "press_all scs \<lparr>input = [], shift = False, entered = False, seen = greeted p\<rparr> = Some e'"
      "length rs = length scs" "\<forall>r \<in> set rs. int_no r = 33"
  shows "\<exists>S' s'. main_setup P gdt_setup isr irq idt_address S = Some S'
    \<and> mem (sys_heap S') = ram (machine (kern S'))
    \<and> heap_ok (sys_heap S') [Free (unat (heap_end (sys_heap S)) - unat (heap_start (sys_heap S)) - 8)]
    \<and> (\<forall>n < 32. gate_target (sys_idt S' ! n) = isr n) \<and> (\<forall>n < 16. gate_target (sys_idt S' ! (n + 32)) = irq n)
    \<and> interrupts P (sys_handlers S') rs (kern S') = Some s' \<and> editor_on ready cursor s' e' \<and> pending (hw (machine s')) = q"
proof -
  obtain S' m where s: "main_setup P gdt_setup isr irq idt_address S = Some S'" "kern S' = (kern S)\<lparr>machine := m\<rparr>"
    "term_on ready cursor m (greeted p)" "pending (hw m) = scs @ q" "mem (sys_heap S') = ram m"
    "heap_ok (sys_heap S') [Free (unat (heap_end (sys_heap S)) - unat (heap_start (sys_heap S)) - 8)]"
    "sys_handlers S' = init_keyboard P (shell_callback P) (sys_handlers S)"
    "\<forall>n < 32. gate_target (sys_idt S' ! n) = isr n" "\<forall>n < 16. gate_target (sys_idt S' ! (n + 32)) = irq n"
    using boot_console.main_setup_ok [OF hardware display globals(5) heap, of isr irq idt_address] keys(1) by metis
  have c: "console P ready selected cursor pending" using hardware by (simp add: boot_console_def)
  have "editor_on ready cursor (kern S') \<lparr>input = [], shift = False, entered = False, seen = greeted p\<rparr>"
    using globals s(2,3) by (simp add: editor_on_def)
  moreover have "pending (hw (machine (kern S'))) = scs @ q" using s(2,4) by simp
  ultimately obtain s' where "interrupts P (sys_handlers S') rs (kern S') = Some s'" "editor_on ready cursor s' e'"
    "pending (hw (machine s')) = q"
    using console.interrupts_ok [OF c _ _ keys(2-4) globals(6)] unfolding s(7) by blast
  then show ?thesis using s by auto
qed

definition demo_system :: "byte list \<Rightarrow> CONSOLE SYSTEM" where
  "demo_system scs = \<lparr>kern = demo_kernel scs,
     sys_heap = \<lparr>mem = (\<lambda>_. 0), head = 0x100000, heap_start = 0x100000, heap_end = 0x110000\<rparr>, sys_idt = demo_idt,
     sys_idt_reg = \<lparr>limit = 0, base = 0\<rparr>, sys_handlers = replicate 256 None\<rparr>"

theorem main_starts_console_witness:
  "\<exists>S' s'. main_setup con_ports (\<lambda>h. h) (\<lambda>n. 0xC0100000) (\<lambda>n. 0xC0200000) 0xC0300000 (demo_system [0x23, 0x17]) = Some S'
     \<and> interrupts con_ports (sys_handlers S') (replicate 2 (demo_frame 33)) (kern S') = Some s'
     \<and> take 2 (sh_buffer s') = bytes_of ''hi'' \<and> sh_buffer_count s' = 2"
proof -
  let ?e = "\<lparr>input = [], shift = False, entered = False, seen = greeted 0\<rparr>"
  define u where "u = press_all [0x23, 0x17] ?e"
  obtain cs0 p0 where g: "greeted 0 = (cs0, p0)" by force
  have u: "u = Some (the u)" "input (the u) = bytes_of ''hi''"
    by (simp_all add: u_def press_def key_of_def print_letter.simps scancodes_def low_scancodes_def high_scancodes_def first_char_def ch_def shifted_def edit_def
        settle_def bytes_of_def g)
  let ?S = "demo_system [0x23, 0x17]"
  have d: "unat (crt_cursor (hw (machine (kern ?S)))) = 0" "codes (hw (machine (kern ?S))) = [0x23, 0x17] @ []"
    "sh_buffer (kern ?S) = replicate 256 0" "sh_buffer_count (kern ?S) = 0" "high (kern ?S) = 0" "bExecute (kern ?S) = 0"
    "length (sys_idt ?S) = IDT_ENTRIES" "length (sys_handlers ?S) = 256"
    by (simp_all add: demo_system_def demo_kernel_def demo_machine_def demo_idt_def IDT_ENTRIES_def)
  have h: "0 < unat (heap_start (sys_heap ?S))" "head (sys_heap ?S) = heap_start (sys_heap ?S)"
    "unat (heap_start (sys_heap ?S)) + 8 \<le> unat (heap_end (sys_heap ?S))"
    "unat (heap_end (sys_heap ?S)) \<le> 0xb8000 \<or> 0xb8000 + 4000 \<le> unat (heap_start (sys_heap ?S))"
    by (simp_all add: demo_system_def)
  have k: "length (replicate 2 (demo_frame 33)) = length [0x23 :: byte, 0x17]" "\<forall>r \<in> set (replicate 2 (demo_frame 33)). int_no r = 33"
    by (simp_all add: demo_frame_def)
  from main_starts_console [OF boot.boot_console_axioms TrueI d(1) _ d(3-8) h d(2) u(1) [unfolded u_def] k, folded u_def,
      of "\<lambda>n. 0xC0100000" "\<lambda>n. 0xC0200000" "0xC0300000"]
  obtain S' s' where r: "main_setup con_ports (\<lambda>h. h) (\<lambda>n. 0xC0100000) (\<lambda>n. 0xC0200000) 0xC0300000 ?S = Some S'"
    "interrupts con_ports (sys_handlers S') (replicate 2 (demo_frame 33)) (kern S') = Some s'"
    "editor_on (\<lambda>_. True) crt_cursor s' (the u)" by auto
  then show ?thesis using u(2) by (auto simp: editor_on_def numeral_2_eq_2)
qed

end
