(* ===== verification/Ata.thy ===== *)
theory Ata
  imports Ports Vfs_Device
begin

text \<open>
  The ATA driver of \<^verbatim>\<open>drivers/ata/ata.c\<close>: register access, identification and programmed
  transfers. Its data as a VFS driver is the hardware state with the \<^verbatim>\<open>ATA_DEVICE\<close>. Polling
  loops end only if the drive answers, so their results are optional.
\<close>

subsection \<open>Registers and devices\<close>

definition ATA_DATA_REGISTER :: u16 where [simp]: "ATA_DATA_REGISTER = 0"
definition ATA_SECTOR_COUNT_REGISTER :: u16 where [simp]: "ATA_SECTOR_COUNT_REGISTER = 2"
definition ATA_LBALO_REGISTER :: u16 where [simp]: "ATA_LBALO_REGISTER = 3"
definition ATA_LBAMID_REGISTER :: u16 where [simp]: "ATA_LBAMID_REGISTER = 4"
definition ATA_LBAHI_REGISTER :: u16 where [simp]: "ATA_LBAHI_REGISTER = 5"
definition ATA_DRIVE_REGISTER :: u16 where [simp]: "ATA_DRIVE_REGISTER = 6"
definition ATA_STATUS_REGISTER :: u16 where [simp]: "ATA_STATUS_REGISTER = 7"
definition ATA_COMMAND_REGISTER :: u16 where [simp]: "ATA_COMMAND_REGISTER = 7"

datatype AtaMode = ATA_PIO
datatype AtaAddressingMode = ATA_LBA28 | ATA_LBA48 | ATA_CHS

definition ATA_MASTER :: byte where [simp]: "ATA_MASTER = 0xA0"
definition ATA_SLAVE :: byte where [simp]: "ATA_SLAVE = 0xB0"

record ATA_DEVICE =
  default_mode :: AtaMode
  addressing_mode :: AtaAddressingMode
  port_base :: u16
  control_base :: u16
  drive :: byte \<comment> \<open>\<^verbatim>\<open>enum AtaDrive\<close>\<close>
  addressable_sectors :: u32

definition ata_read_reg :: "'h PORTS \<Rightarrow> ATA_DEVICE \<Rightarrow> u16 \<Rightarrow> 'h \<Rightarrow> u16 \<times> 'h" where
  "ata_read_reg P dv reg h =
     (if addressing_mode dv = ATA_LBA28 \<or> 5 < reg
      then (case port_byte_in P (port_base dv + reg) h of (tmp, h) \<Rightarrow> (ucast tmp, h))
      else port_word_in P (port_base dv + reg) h)"

definition ata_write_reg :: "'h PORTS \<Rightarrow> ATA_DEVICE \<Rightarrow> u16 \<Rightarrow> u16 \<Rightarrow> 'h \<Rightarrow> 'h" where
  "ata_write_reg P dv reg val h =
     (if addressing_mode dv = ATA_LBA28 \<or> 5 < reg
      then port_byte_out P (port_base dv + reg) (ucast val) h
      else port_word_out P (port_base dv + reg) val h)"

definition ata_write_control_reg :: "'h PORTS \<Rightarrow> ATA_DEVICE \<Rightarrow> u16 \<Rightarrow> byte \<Rightarrow> 'h \<Rightarrow> 'h" where
  "ata_write_control_reg P dv reg val h = port_byte_out P (control_base dv + reg) val h"

definition ata_read_control_reg :: "'h PORTS \<Rightarrow> ATA_DEVICE \<Rightarrow> u16 \<Rightarrow> 'h \<Rightarrow> u16 \<times> 'h" where
  "ata_read_control_reg P dv reg h = (case port_byte_in P (control_base dv + reg) h of (tmp, h) \<Rightarrow> (ucast tmp, h))"

definition ata_read_data :: "'h PORTS \<Rightarrow> ATA_DEVICE \<Rightarrow> 'h \<Rightarrow> u16 \<times> 'h" where
  "ata_read_data P dv h = port_word_in P (port_base dv + ATA_DATA_REGISTER) h"

definition ata_write_data :: "'h PORTS \<Rightarrow> ATA_DEVICE \<Rightarrow> u16 \<Rightarrow> 'h \<Rightarrow> 'h" where
  "ata_write_data P dv data h = port_word_out P (port_base dv + ATA_DATA_REGISTER) data h"

subsection \<open>Data transfer\<close>

text \<open>The buffer pointer is the buffer and a position; leaving the buffer has no defined result.\<close>

function ata_read_bytes :: "'h PORTS \<Rightarrow> ATA_DEVICE \<Rightarrow> byte list \<Rightarrow> nat \<Rightarrow> nat \<Rightarrow> nat \<Rightarrow> 'h \<Rightarrow> (byte list \<times> 'h) option" where
  "ata_read_bytes P dv buf pos i n h =
     (if i < n
      then if pos + i + 1 < length buf
           then (case ata_read_data P dv h of (tmp, h) \<Rightarrow>
             ata_read_bytes P dv (buf[pos + i + 1 := ucast (drop_bit 8 (tmp AND 0xFF00)), pos + i := ucast tmp])
               pos (i + 2) n h)
           else None
      else Some (buf, h))"
  by pat_completeness auto
termination by (relation "measure (\<lambda>(P, dv, buf, pos, i, n, h). n - i)") auto

function ata_write_bytes :: "'h PORTS \<Rightarrow> ATA_DEVICE \<Rightarrow> byte list \<Rightarrow> nat \<Rightarrow> nat \<Rightarrow> nat \<Rightarrow> 'h \<Rightarrow> 'h option" where
  "ata_write_bytes P dv buf pos i n h =
     (if i < n
      then if pos + i + 1 < length buf
           then ata_write_bytes P dv buf pos (i + 2) n
             (ata_write_data P dv (push_bit 8 (ucast (buf ! (pos + i + 1))) OR ucast (buf ! (pos + i))) h)
           else None
      else Some h)"
  by pat_completeness auto
termination by (relation "measure (\<lambda>(P, dv, buf, pos, i, n, h). n - i)") auto

declare ata_read_bytes.simps [simp del] ata_write_bytes.simps [simp del]

fun ata_read_words :: "'h PORTS \<Rightarrow> ATA_DEVICE \<Rightarrow> nat \<Rightarrow> 'h \<Rightarrow> u16 list \<times> 'h" where
  "ata_read_words P dv 0 h = ([], h)"
| "ata_read_words P dv (Suc n) h =
     (case ata_read_data P dv h of (w, h) \<Rightarrow>
      case ata_read_words P dv n h of (ws, h) \<Rightarrow> (w # ws, h))"

subsection \<open>Programmed transfers\<close>

text \<open>\<^verbatim>\<open>while((polling & 0x80) && !(polling & 0x20) && !(polling & 0x01))\<close> and the reads behind a sector.\<close>

partial_function (option) ata_poll :: "'h PORTS \<Rightarrow> ATA_DEVICE \<Rightarrow> u16 \<Rightarrow> 'h \<Rightarrow> (u16 \<times> 'h) option" where
  "ata_poll P dv polling h =
     (if polling AND 0x80 \<noteq> 0 \<and> polling AND 0x20 = 0 \<and> polling AND 0x01 = 0
      then (case ata_read_reg P dv ATA_STATUS_REGISTER h of (polling, h) \<Rightarrow> ata_poll P dv polling h)
      else Some (polling, h))"

fun status_reads :: "'h PORTS \<Rightarrow> ATA_DEVICE \<Rightarrow> nat \<Rightarrow> 'h \<Rightarrow> 'h" where
  "status_reads P dv 0 h = h"
| "status_reads P dv (Suc n) h = status_reads P dv n (snd (ata_read_reg P dv ATA_STATUS_REGISTER h))"

text \<open>The loop over the sectors of one command; the flag says that the drive reported an error.\<close>

fun read_sectors :: "'h PORTS \<Rightarrow> ATA_DEVICE \<Rightarrow> nat \<Rightarrow> byte list \<Rightarrow> nat \<Rightarrow> 'h \<Rightarrow> (bool \<times> byte list \<times> nat \<times> 'h) option" where
  "read_sectors P dv 0 buf pos h = Some (False, buf, pos, h)"
| "read_sectors P dv (Suc n) buf pos h =
     (case ata_read_reg P dv ATA_STATUS_REGISTER h of (polling, h) \<Rightarrow> do {
        (polling, h) \<leftarrow> ata_poll P dv polling h;
        if polling AND 0x21 \<noteq> 0 then Some (True, buf, pos, h)
        else do {
          (buf, h) \<leftarrow> ata_read_bytes P dv buf pos 0 512 h;
          read_sectors P dv n buf (pos + 512) (status_reads P dv 15 h)
        }
      })"

fun write_sectors :: "'h PORTS \<Rightarrow> ATA_DEVICE \<Rightarrow> nat \<Rightarrow> byte list \<Rightarrow> nat \<Rightarrow> 'h \<Rightarrow> (bool \<times> nat \<times> 'h) option" where
  "write_sectors P dv 0 buf pos h = Some (False, pos, h)"
| "write_sectors P dv (Suc n) buf pos h =
     (case ata_read_reg P dv ATA_STATUS_REGISTER h of (polling, h) \<Rightarrow> do {
        (polling, h) \<leftarrow> ata_poll P dv polling h;
        if polling AND 0x21 \<noteq> 0 then Some (True, pos, h)
        else do {
          h \<leftarrow> ata_write_bytes P dv buf pos 0 512 h;
          write_sectors P dv n buf (pos + 512) (status_reads P dv 15 h)
        }
      })"

text \<open>The writes to the task file: the drive with the top of the address, then the rest.\<close>

definition select_lba :: "'h PORTS \<Rightarrow> ATA_DEVICE \<Rightarrow> u32 \<Rightarrow> 'h \<Rightarrow> 'h" where
  "select_lba P dv lba h = ata_write_reg P dv ATA_DRIVE_REGISTER
     ((0xE0 OR (ucast (drive dv) AND 0x10)) OR (ucast (drop_bit 24 lba) AND 0x0F)) h"

definition issue_command :: "'h PORTS \<Rightarrow> ATA_DEVICE \<Rightarrow> u16 \<Rightarrow> u32 \<Rightarrow> u16 \<Rightarrow> 'h \<Rightarrow> 'h" where
  "issue_command P dv cnt lba cmd h =
     (let h = ata_write_reg P dv ATA_SECTOR_COUNT_REGISTER cnt h;
          h = ata_write_reg P dv ATA_LBALO_REGISTER (ucast (ucast lba :: byte)) h;
          h = ata_write_reg P dv ATA_LBAMID_REGISTER (ucast (ucast (drop_bit 8 lba) :: byte)) h;
          h = ata_write_reg P dv ATA_LBAHI_REGISTER (ucast (ucast (drop_bit 16 lba) :: byte)) h
      in ata_write_reg P dv ATA_COMMAND_REGISTER cmd h)"

text \<open>
  The loop over \<open>k\<close> up to \<open>amount\<close>. A full command asks for 256 sectors but the inner loop runs
  \<^verbatim>\<open>sectors & 0xFF\<close> times for every command, and the address is the same in each.
\<close>

fun read_commands ::
  "'h PORTS \<Rightarrow> ATA_DEVICE \<Rightarrow> nat \<Rightarrow> u32 \<Rightarrow> u32 \<Rightarrow> u32 \<Rightarrow> nat list \<Rightarrow> byte list \<Rightarrow> nat \<Rightarrow> 'h
   \<Rightarrow> (E_DEVICE \<times> byte list \<times> 'h) option" where
  "read_commands P dv amount reminder sectors lba [] buf pos h = Some (E_DEVICE_OK, buf, h)"
| "read_commands P dv amount reminder sectors lba (k # ks) buf pos h =
     (let h = select_lba P dv lba h in
      if \<not> k < amount \<and> reminder = 0 then Some (E_DEVICE_OK, buf, h)
      else do {
        let h = issue_command P dv (if k < amount then 0 else ucast reminder) lba 0x20 h;
        (failed, buf, pos, h) \<leftarrow> read_sectors P dv (unat (sectors AND 0xFF)) buf pos h;
        if failed then Some (E_DEVICE_NOT_FOUND, buf, h)
        else read_commands P dv amount reminder sectors lba ks buf pos h
      })"

fun write_commands ::
  "'h PORTS \<Rightarrow> ATA_DEVICE \<Rightarrow> nat \<Rightarrow> u32 \<Rightarrow> u32 \<Rightarrow> u32 \<Rightarrow> nat list \<Rightarrow> byte list \<Rightarrow> nat \<Rightarrow> 'h
   \<Rightarrow> (E_DEVICE \<times> 'h) option" where
  "write_commands P dv amount reminder sectors lba [] buf pos h = Some (E_DEVICE_OK, h)"
| "write_commands P dv amount reminder sectors lba (k # ks) buf pos h =
     (let h = select_lba P dv lba h in
      if \<not> k < amount \<and> reminder = 0 then Some (E_DEVICE_OK, h)
      else do {
        let h = issue_command P dv (if k < amount then 0 else ucast reminder) lba 0x30 h;
        (failed, pos, h) \<leftarrow> write_sectors P dv (unat (sectors AND 0xFF)) buf pos h;
        if failed then Some (E_DEVICE_NOT_FOUND, h)
        else write_commands P dv amount reminder sectors lba ks buf pos h
      })"

definition ata_pio_read :: "'h PORTS \<Rightarrow> ('h \<times> ATA_DEVICE) READ_DEVICE" where
  "ata_pio_read P d buf sectors lba = (case d of (h, dv) \<Rightarrow> do {
     (r, buf, h) \<leftarrow> read_commands P dv (unat (sectors div 256)) (sectors mod 256) sectors lba
        [0..<unat (sectors div 256) + 1] buf 0 h;
     Some (r, buf, (h, dv))
   })"

definition ata_pio_write :: "'h PORTS \<Rightarrow> ('h \<times> ATA_DEVICE) WRITE_DEVICE" where
  "ata_pio_write P d buf sectors lba = (case d of (h, dv) \<Rightarrow> do {
     (r, h) \<leftarrow> write_commands P dv (unat (sectors div 256)) (sectors mod 256) sectors lba
        [0..<unat (sectors div 256) + 1] buf 0 h;
     Some (r, (h, dv))
   })"

subsection \<open>Identification\<close>

text \<open>\<^verbatim>\<open>while (polling_value & 0x80)\<close> and \<^verbatim>\<open>while (!(polling_value & 0x08) && !(polling_value & 0x01))\<close>.\<close>

partial_function (option) wait_not_busy :: "'h PORTS \<Rightarrow> ATA_DEVICE \<Rightarrow> u16 \<Rightarrow> 'h \<Rightarrow> (u16 \<times> 'h) option" where
  "wait_not_busy P dv polling h =
     (if polling AND 0x80 \<noteq> 0
      then (case ata_read_reg P dv ATA_STATUS_REGISTER h of (polling, h) \<Rightarrow> wait_not_busy P dv polling h)
      else Some (polling, h))"

partial_function (option) wait_data :: "'h PORTS \<Rightarrow> ATA_DEVICE \<Rightarrow> u16 \<Rightarrow> 'h \<Rightarrow> (u16 \<times> 'h) option" where
  "wait_data P dv polling h =
     (if polling AND 0x08 = 0 \<and> polling AND 0x01 = 0
      then (case ata_read_reg P dv ATA_STATUS_REGISTER h of (polling, h) \<Rightarrow> wait_data P dv polling h)
      else Some (polling, h))"

definition identify_ata ::
  "'h PORTS \<Rightarrow> ATA_DEVICE \<Rightarrow> u16 \<Rightarrow> u16 \<Rightarrow> byte \<Rightarrow> 'h \<Rightarrow> (nat \<times> ATA_DEVICE \<times> 'h) option" where
  "identify_ata P dv pbase cbase drv h =
     (let dv = dv\<lparr>port_base := pbase, control_base := cbase, drive := drv, addressing_mode := ATA_LBA28,
                  default_mode := ATA_PIO\<rparr>;
          (float_bus, h) = ata_read_reg P dv ATA_STATUS_REGISTER h in
      if float_bus = 0xFF then Some (1, dv, h)
      else
        let h = ata_write_reg P dv ATA_DRIVE_REGISTER (ucast (drive dv)) h;
            h = ata_write_reg P dv ATA_LBALO_REGISTER 0 h;
            h = ata_write_reg P dv ATA_LBAMID_REGISTER 0 h;
            h = ata_write_reg P dv ATA_LBAHI_REGISTER 0 h;
            h = ata_write_reg P dv ATA_COMMAND_REGISTER 0xEC h;
            (status, h) = ata_read_reg P dv ATA_STATUS_REGISTER h in
        if status = 0 then Some (4, dv, h)
        else do {
          let (polling, h) = ata_read_reg P dv ATA_STATUS_REGISTER h;
          (polling, h) \<leftarrow> wait_not_busy P dv polling h;
          let (lba_mid, h) = ata_read_reg P dv ATA_LBAMID_REGISTER h;
          let (lba_high, h) = ata_read_reg P dv ATA_LBAHI_REGISTER h;
          if lba_mid \<noteq> 0 \<or> lba_high \<noteq> 0 then Some (2, dv, h)
          else do {
            (polling, h) \<leftarrow> wait_data P dv polling h;
            if polling AND 0x01 \<noteq> 0 then Some (3, dv, h)
            else
              let (buf, h) = ata_read_words P dv 256 h;
                  low = ucast (buf ! 60) :: u32;
                  high = push_bit 16 (ucast (buf ! 61)) :: u32
              in Some (0, dv\<lparr>addressable_sectors := low OR high\<rparr>, h)
          }
        })"

end
