(* ===== verification/Ata_Drive.thy ===== *)
theory Ata_Drive
  imports Ata
begin

text \<open>
  The ATA driver against a drive. The interface \<open>ata_drive\<close> states the documented behaviour of
  an LBA28 drive on the ports the driver uses: the task file, the identification and the two
  transfer commands, the status with its busy bit, the data register. Under it one command
  transfers its sectors. How long the drive is busy is left open. It matters in one place: the
  driver does not wait for the end of a write, so only a drive that \<open>settles\<close> in time
  stores sectors in the sense of the VFS device layer; every drive can be read.
\<close>

subsection \<open>The drive\<close>

datatype XFER = Idle | Reading nat nat nat | Writing nat nat "byte list" | Identifying nat
  \<comment> \<open>sector, sectors left with this one, words done or bytes taken\<close>

record DRIVE =
  disk :: "nat \<Rightarrow> byte list"
  r_drive :: byte
  r_count :: byte
  r_lo :: byte
  r_mid :: byte
  r_hi :: byte
  xfer :: XFER
  busy :: nat \<comment> \<open>status reads until the busy bit clears\<close>
  ident :: "nat \<Rightarrow> u16" \<comment> \<open>the words of the identification\<close>

text \<open>The DEV bit of the device register says which of the two drives is selected.\<close>

definition selects :: "byte \<Rightarrow> DRIVE \<Rightarrow> bool" where
  "selects sel s \<longleftrightarrow> r_drive s AND 0x10 = sel"

lemma selects_update [simp]:
  "selects sel (s\<lparr>xfer := x\<rparr>) = selects sel s" "selects sel (s\<lparr>busy := k\<rparr>) = selects sel s"
  "selects sel (s\<lparr>disk := d\<rparr>) = selects sel s" "selects sel (s\<lparr>r_drive := b\<rparr>) \<longleftrightarrow> b AND 0x10 = sel"
  "selects sel (s\<lparr>r_count := b\<rparr>) = selects sel s" "selects sel (s\<lparr>r_lo := b\<rparr>) = selects sel s"
  "selects sel (s\<lparr>r_mid := b\<rparr>) = selects sel s" "selects sel (s\<lparr>r_hi := b\<rparr>) = selects sel s"
  by (simp_all add: selects_def)

definition lba_of :: "DRIVE \<Rightarrow> nat" where
  "lba_of s = unat (r_drive s AND 0x0F) * 16777216 + unat (r_hi s) * 65536 + unat (r_mid s) * 256 + unat (r_lo s)"

definition count_of :: "DRIVE \<Rightarrow> nat" where
  "count_of s = (if r_count s = 0 then 256 else unat (r_count s))"

text \<open>Behind a sector comes the next one of the command, or the end.\<close>

definition after_read :: "nat \<Rightarrow> nat \<Rightarrow> XFER" where
  "after_read l c = (if c \<le> 1 then Idle else Reading (l + 1) (c - 1) 0)"

definition after_write :: "nat \<Rightarrow> nat \<Rightarrow> XFER" where
  "after_write l c = (if c \<le> 1 then Idle else Writing (l + 1) (c - 1) [])"

text \<open>Words and the bytes the driver makes of them.\<close>

lemma ucast_byte_zero: "(ucast (x :: byte) :: u16) = 0 \<longleftrightarrow> x = 0"
proof -
  have "unat x < 256" using unsigned_less [of x, where 'a = nat] by simp
  then have "unat (ucast x :: u16) = unat x" by (simp add: unsigned_ucast_eq take_bit_nat_eq_self)
  then show ?thesis by (metis unsigned_0 unsigned_word_eqI)
qed

lemma le16_low_high: "ucast (le16 a b) = a" "ucast (drop_bit 8 (le16 a b AND 0xFF00)) = b"
proof -
  have e: "[ucast (le16 a b), ucast (drop_bit 8 (le16 a b))] = [a, b]"
    using bytes16_le16 [of a b] by (simp add: bytes16_def)
  then show "ucast (le16 a b) = a" by simp
  have m: "(0xFF00 :: u16) = push_bit 8 (mask 8)" by (simp add: mask_eq_exp_minus_1)
  have "(ucast (drop_bit 8 (w AND 0xFF00)) :: byte) = ucast (drop_bit 8 w)" for w :: u16
    unfolding m by (rule bit_word_eqI) (auto simp: bit_simps)
  then show "ucast (drop_bit 8 (le16 a b AND 0xFF00)) = b" using e by simp
qed

lemma driver_word: "bytes16 (push_bit 8 (ucast b) OR ucast a) = [a, b]"
  using bytes16_le16 [of a b] by (simp add: le16_def or.commute)

lemma patch_two:
  "p + 2 + length xs \<le> length buf \<Longrightarrow> patch (buf[p + 1 := b, p := a]) (p + 2) xs = patch buf p (a # b # xs)"
proof -
  assume l: "p + 2 + length xs \<le> length buf"
  have "take (p + 2) (buf[p + 1 := b, p := a]) = take p buf @ [a, b]"
    using l by (simp add: take_Suc_conv_app_nth numeral_2_eq_2 take_update_swap list_update_append)
  then show ?thesis using l by (simp add: patch_def)
qed

lemma drop_two: "i + 1 < length xs \<Longrightarrow> drop i xs = xs ! i # xs ! (i + 1) # drop (i + 2) xs"
  by (metis Cons_nth_drop_Suc Suc_eq_plus1 add_2_eq_Suc' add_lessD1)

lemma length_concat_sectors:
  "(\<And>x. x < a + k \<Longrightarrow> length (f x) = 512) \<Longrightarrow> length (concat (map f [a..<a + k])) = 512 * k"
  by (induction k) auto

text \<open>
  A drive that has taken the last sector of a write in within the 15 status reads the driver
  spends. Nothing in the protocol says so; it is a hypothesis where it is needed.
\<close>

definition settles :: "'h PORTS \<Rightarrow> ('h \<Rightarrow> DRIVE) \<Rightarrow> u16 \<Rightarrow> bool" where
  "settles P view pb \<longleftrightarrow> (\<forall>h l c bs w. xfer (view h) = Writing l c bs \<longrightarrow> busy (view h) = 0 \<longrightarrow> length bs = 510 \<longrightarrow> c \<le> 1
     \<longrightarrow> busy (view (port_word_out P pb w h)) \<le> 15)"

lemmas driver_bytes = le16_low_high le16_low_high(2) [simplified]

text \<open>
  \<open>n\<close> sectors, task file at \<open>pb\<close>, selection bit \<open>sel\<close>. The registers are written when the drive is
  idle; only the selected drive takes a command and answers. A drive without faults keeps the
  error bits of its status clear, and the status of a drive that is not busy says that it is
  ready and whether a transfer waits for data. It is busy for some status reads after a command
  and between sectors; after the last word of a read it is idle, after the last word of a write
  it may be busy for any time.
\<close>

locale ata_drive =
  fixes P :: "'h PORTS" and view :: "'h \<Rightarrow> DRIVE" and pb :: u16 and sel :: byte and n :: nat
  assumes sector_size: "l < n \<Longrightarrow> length (disk (view h) l) = 512"
    and out_drive: "xfer (view h) = Idle \<Longrightarrow> busy (view h) = 0 \<Longrightarrow>
      view (port_byte_out P (pb + 6) b h) = (view h)\<lparr>r_drive := b\<rparr>"
    and out_count: "xfer (view h) = Idle \<Longrightarrow> busy (view h) = 0 \<Longrightarrow>
      view (port_byte_out P (pb + 2) b h) = (view h)\<lparr>r_count := b\<rparr>"
    and out_lo: "xfer (view h) = Idle \<Longrightarrow> busy (view h) = 0 \<Longrightarrow>
      view (port_byte_out P (pb + 3) b h) = (view h)\<lparr>r_lo := b\<rparr>"
    and out_mid: "xfer (view h) = Idle \<Longrightarrow> busy (view h) = 0 \<Longrightarrow>
      view (port_byte_out P (pb + 4) b h) = (view h)\<lparr>r_mid := b\<rparr>"
    and out_hi: "xfer (view h) = Idle \<Longrightarrow> busy (view h) = 0 \<Longrightarrow>
      view (port_byte_out P (pb + 5) b h) = (view h)\<lparr>r_hi := b\<rparr>"
    and out_read: "xfer (view h) = Idle \<Longrightarrow> busy (view h) = 0 \<Longrightarrow> selects sel (view h) \<Longrightarrow>
      bit (r_drive (view h)) 6 \<Longrightarrow> lba_of (view h) + count_of (view h) \<le> n \<Longrightarrow>
      \<exists>k. view (port_byte_out P (pb + 7) 0x20 h)
        = (view h)\<lparr>xfer := Reading (lba_of (view h)) (count_of (view h)) 0, busy := k\<rparr>"
    and out_write: "xfer (view h) = Idle \<Longrightarrow> busy (view h) = 0 \<Longrightarrow> selects sel (view h) \<Longrightarrow>
      bit (r_drive (view h)) 6 \<Longrightarrow> lba_of (view h) + count_of (view h) \<le> n \<Longrightarrow>
      \<exists>k. view (port_byte_out P (pb + 7) 0x30 h)
        = (view h)\<lparr>xfer := Writing (lba_of (view h)) (count_of (view h)) [], busy := k\<rparr>"
    and out_identify: "xfer (view h) = Idle \<Longrightarrow> busy (view h) = 0 \<Longrightarrow> selects sel (view h) \<Longrightarrow>
      \<exists>k. view (port_byte_out P (pb + 7) 0xEC h) = (view h)\<lparr>xfer := Identifying 0, busy := k\<rparr>"
    and status: "selects sel (view h) \<Longrightarrow>
      \<exists>st h'. port_byte_in P (pb + 7) h = (st, h') \<and> st AND 0x21 = 0 \<and> (st AND 0x80 \<noteq> 0 \<longleftrightarrow> 0 < busy (view h))
      \<and> (busy (view h) = 0 \<longrightarrow> st AND 0x40 \<noteq> 0 \<and> (st AND 0x08 \<noteq> 0 \<longleftrightarrow> xfer (view h) \<noteq> Idle))
      \<and> view h' = (view h)\<lparr>busy := busy (view h) - 1\<rparr>"
    and in_mid: "selects sel (view h) \<Longrightarrow> busy (view h) = 0 \<Longrightarrow>
      \<exists>h'. port_byte_in P (pb + 4) h = (r_mid (view h), h') \<and> view h' = view h"
    and in_hi: "selects sel (view h) \<Longrightarrow> busy (view h) = 0 \<Longrightarrow>
      \<exists>h'. port_byte_in P (pb + 5) h = (r_hi (view h), h') \<and> view h' = view h"
    and ident_in: "xfer (view h) = Identifying i \<Longrightarrow> busy (view h) = 0 \<Longrightarrow> selects sel (view h) \<Longrightarrow> i < 256 \<Longrightarrow>
      \<exists>h'. port_word_in P pb h = (ident (view h) i, h')
        \<and> view h' = (view h)\<lparr>xfer := (if i < 255 then Identifying (i + 1) else Idle)\<rparr>"
    and data_in: "xfer (view h) = Reading l c i \<Longrightarrow> busy (view h) = 0 \<Longrightarrow> selects sel (view h) \<Longrightarrow> l < n \<Longrightarrow> i < 256 \<Longrightarrow>
      \<exists>h'. port_word_in P pb h = (le16 (disk (view h) l ! (2 * i)) (disk (view h) l ! (2 * i + 1)), h')
        \<and> (if i < 255 then view h' = (view h)\<lparr>xfer := Reading l c (i + 1)\<rparr>
           else \<exists>k. view h' = (view h)\<lparr>xfer := after_read l c, busy := k\<rparr> \<and> (c \<le> 1 \<longrightarrow> k = 0))"
    and data_out: "xfer (view h) = Writing l c bs \<Longrightarrow> busy (view h) = 0 \<Longrightarrow> selects sel (view h) \<Longrightarrow> l < n \<Longrightarrow> length bs \<le> 510 \<Longrightarrow>
      (if length bs + 2 < 512 then view (port_word_out P pb w h) = (view h)\<lparr>xfer := Writing l c (bs @ bytes16 w)\<rparr>
       else \<exists>k. view (port_word_out P pb w h)
           = (view h)\<lparr>disk := (disk (view h))(l := bs @ bytes16 w), xfer := after_write l c, busy := k\<rparr>)"
begin

text \<open>The driver's device structure for this drive.\<close>

definition good_dev :: "ATA_DEVICE \<Rightarrow> bool" where
  "good_dev dv \<longleftrightarrow> addressing_mode dv = ATA_LBA28 \<and> port_base dv = pb \<and> drive dv AND 0x10 = sel"

lemma read_status:
  assumes "good_dev dv" "selects sel (view h)"
  shows "\<exists>st h'. ata_read_reg P dv ATA_STATUS_REGISTER h = (st, h') \<and> st AND 0x20 = 0 \<and> st AND 0x01 = 0 \<and> st AND 0x21 = 0
    \<and> (st AND 0x80 \<noteq> 0 \<longleftrightarrow> 0 < busy (view h))
    \<and> (busy (view h) = 0 \<longrightarrow> st AND 0x40 \<noteq> 0 \<and> (st AND 0x08 \<noteq> 0 \<longleftrightarrow> xfer (view h) \<noteq> Idle))
    \<and> view h' = (view h)\<lparr>busy := busy (view h) - 1\<rparr>"
proof -
  obtain b h' where b: "port_byte_in P (pb + 7) h = (b, h')" "b AND 0x21 = 0"
    "b AND 0x80 \<noteq> 0 \<longleftrightarrow> 0 < busy (view h)"
    "busy (view h) = 0 \<longrightarrow> b AND 0x40 \<noteq> 0 \<and> (b AND 0x08 \<noteq> 0 \<longleftrightarrow> xfer (view h) \<noteq> Idle)"
    "view h' = (view h)\<lparr>busy := busy (view h) - 1\<rparr>"
    using status [OF assms(2)] by (elim exE conjE) (rule that; assumption)
  have u: "(ucast b :: u16) AND 0x21 = ucast (b AND 0x21)" "(ucast b :: u16) AND 0x80 = ucast (b AND 0x80)"
    "(ucast b :: u16) AND 0x40 = ucast (b AND 0x40)" "(ucast b :: u16) AND 0x08 = ucast (b AND 0x08)"
    by (simp_all add: unsigned_and_eq)
  have i: "b AND 0x20 = (b AND 0x21) AND 0x20" "b AND 0x01 = (b AND 0x21) AND 0x01" for b :: u16
    by (simp_all add: and.assoc)
  have "(ucast b :: u16) AND 0x21 = 0" "(ucast b :: u16) AND 0x80 \<noteq> 0 \<longleftrightarrow> 0 < busy (view h)"
    "busy (view h) = 0 \<longrightarrow> (ucast b :: u16) AND 0x40 \<noteq> 0 \<and> ((ucast b :: u16) AND 0x08 \<noteq> 0 \<longleftrightarrow> xfer (view h) \<noteq> Idle)"
    unfolding u ucast_byte_zero using b by simp_all
  then show ?thesis
    using assms(1) b(1,5) i [of "ucast b"] by (simp add: ata_read_reg_def good_dev_def)
qed

text \<open>Polling ends when the drive is no longer busy.\<close>

lemma poll_ok:
  assumes "good_dev dv" "selects sel (view h)"
  shows "\<exists>st h' st' h''. ata_read_reg P dv ATA_STATUS_REGISTER h = (st, h') \<and> ata_poll P dv st h' = Some (st', h'')
    \<and> st' AND 0x21 = 0 \<and> view h'' = (view h)\<lparr>busy := 0\<rparr>"
  using assms(2)
proof (induction "busy (view h)" arbitrary: h)
  case 0
  obtain st h' where s: "ata_read_reg P dv ATA_STATUS_REGISTER h = (st, h')" "st AND 0x21 = 0"
    "st AND 0x80 \<noteq> 0 \<longleftrightarrow> 0 < busy (view h)" "view h' = (view h)\<lparr>busy := busy (view h) - 1\<rparr>"
    using read_status [OF assms(1) 0(2)] by (elim exE conjE) (rule that; assumption)
  then have "ata_poll P dv st h' = Some (st, h')" using 0 by (subst ata_poll.simps) simp
  then show ?case using s 0 by auto
next
  case (Suc k)
  obtain st h' where s: "ata_read_reg P dv ATA_STATUS_REGISTER h = (st, h')" "st AND 0x20 = 0" "st AND 0x01 = 0"
    "st AND 0x80 \<noteq> 0 \<longleftrightarrow> 0 < busy (view h)" "view h' = (view h)\<lparr>busy := busy (view h) - 1\<rparr>"
    using read_status [OF assms(1) Suc.prems] by (elim exE conjE) (rule that; assumption)
  have "k = busy (view h')" "selects sel (view h')" using s(5) Suc.hyps(2) Suc.prems by simp_all
  from Suc.hyps(1) [OF this] obtain st1 h1 st' h'' where r: "ata_read_reg P dv ATA_STATUS_REGISTER h' = (st1, h1)"
    "ata_poll P dv st1 h1 = Some (st', h'')" "st' AND 0x21 = 0" "view h'' = (view h')\<lparr>busy := 0\<rparr>" by blast
  have "ata_poll P dv st h' = Some (st', h'')"
    using s r Suc.hyps(2) by (subst ata_poll.simps) simp
  then show ?case using s(1,5) r(3,4) by auto
qed

lemma status_reads_ok:
  assumes "good_dev dv" "selects sel (view h)"
  shows "view (status_reads P dv k h) = (view h)\<lparr>busy := busy (view h) - k\<rparr>"
  using assms(2)
proof (induction k arbitrary: h)
  case (Suc k)
  obtain st h' where s: "ata_read_reg P dv ATA_STATUS_REGISTER h = (st, h')" "view h' = (view h)\<lparr>busy := busy (view h) - 1\<rparr>"
    using read_status [OF assms(1) Suc.prems] by (elim exE conjE) (rule that; assumption)
  then show ?case using Suc.IH [of h'] Suc.prems by simp
qed simp

lemma read_end: "ata_read_bytes P dv buf pos 512 512 h = Some (buf, h)"
  by (subst ata_read_bytes.simps) simp

lemma write_end: "ata_write_bytes P dv buf pos 512 512 h = Some h"
  by (subst ata_write_bytes.simps) simp

lemma bytes_in_ok:
  assumes dv: "good_dev dv" and sl: "selects sel (view h)" and x: "xfer (view h) = Reading l c j" "busy (view h) = 0" "l < n" "j < 256"
    and b: "pos + 512 \<le> length buf"
  shows "\<exists>h' k. ata_read_bytes P dv buf pos (2 * j) 512 h = Some (patch buf (pos + 2 * j) (drop (2 * j) (disk (view h) l)), h')
    \<and> view h' = (view h)\<lparr>xfer := after_read l c, busy := k\<rparr> \<and> (c \<le> 1 \<longrightarrow> k = 0)"
  using x b sl
proof (induction "255 - j" arbitrary: j buf h)
  case 0
  then have j: "j = 255" by simp
  let ?D = "disk (view h) l"
  have D: "length ?D = 512" using sector_size 0 by simp
  obtain h' k where r: "port_word_in P pb h = (le16 (?D ! (2 * j)) (?D ! (2 * j + 1)), h')"
    "view h' = (view h)\<lparr>xfer := after_read l c, busy := k\<rparr>" "c \<le> 1 \<longrightarrow> k = 0"
    using data_in [of h l c j] 0 by (auto simp: j)
  have d: "drop (2 * j) ?D = [?D ! (2 * j), ?D ! (2 * j + 1)]" using drop_two [of "2 * j" ?D] D by (simp add: j)
  have "patch buf (pos + 2 * j) (drop (2 * j) ?D)
      = buf[pos + 2 * j + 1 := ?D ! (2 * j + 1), pos + 2 * j := ?D ! (2 * j)]"
    unfolding d using patch_two [of "pos + 2 * j" "[]" buf] "0.prems"(5) by (simp add: j)
  then have "ata_read_bytes P dv buf pos (2 * j) 512 h = Some (patch buf (pos + 2 * j) (drop (2 * j) ?D), h')"
    using dv r(1) "0.prems"(5) read_end
    by (subst ata_read_bytes.simps) (simp add: j ata_read_data_def good_dev_def driver_bytes)
  then show ?case using r by blast
next
  case (Suc m)
  then have j: "j < 255" by simp
  let ?D = "disk (view h) l"
  have D: "length ?D = 512" using sector_size Suc by simp
  obtain h1 where r: "port_word_in P pb h = (le16 (?D ! (2 * j)) (?D ! (2 * j + 1)), h1)"
    "view h1 = (view h)\<lparr>xfer := Reading l c (j + 1)\<rparr>"
    using data_in [of h l c j] Suc.prems j by auto
  let ?buf = "buf[pos + 2 * j + 1 := ?D ! (2 * j + 1), pos + 2 * j := ?D ! (2 * j)]"
  have "\<exists>h' k. ata_read_bytes P dv ?buf pos (2 * (j + 1)) 512 h1
      = Some (patch ?buf (pos + 2 * (j + 1)) (drop (2 * (j + 1)) (disk (view h1) l)), h')
    \<and> view h' = (view h1)\<lparr>xfer := after_read l c, busy := k\<rparr> \<and> (c \<le> 1 \<longrightarrow> k = 0)"
    by (rule Suc.hyps(1)) (use Suc.hyps(2) Suc.prems j r in auto)
  then obtain h' k where q: "ata_read_bytes P dv ?buf pos (2 * j + 2) 512 h1
      = Some (patch ?buf (pos + 2 * j + 2) (drop (2 * j + 2) ?D), h')"
    "view h' = (view h)\<lparr>xfer := after_read l c, busy := k\<rparr>" "c \<le> 1 \<longrightarrow> k = 0"
    using r(2) by auto
  have "patch ?buf (pos + 2 * j + 2) (drop (2 * j + 2) ?D) = patch buf (pos + 2 * j) (drop (2 * j) ?D)"
    using patch_two [of "pos + 2 * j" "drop (2 * j + 2) ?D" buf] drop_two [of "2 * j" ?D] D Suc.prems(5) j by simp
  then have "ata_read_bytes P dv buf pos (2 * j) 512 h = Some (patch buf (pos + 2 * j) (drop (2 * j) ?D), h')"
    using dv r(1) q(1) Suc.prems(5) j
    by (subst ata_read_bytes.simps) (simp add: ata_read_data_def good_dev_def driver_bytes)
  then show ?case using q by blast
qed

lemma write_bytes_ok:
  assumes dv: "good_dev dv" and sl: "selects sel (view h)" and x: "xfer (view h) = Writing l c bs" "busy (view h) = 0" "l < n"
    and b: "pos + 512 \<le> length buf" and bs: "length bs = 2 * j" "j < 256"
  shows "\<exists>h' k. ata_write_bytes P dv buf pos (2 * j) 512 h = Some h'
    \<and> view h' = (view h)\<lparr>disk := (disk (view h))(l := bs @ take (512 - 2 * j) (drop (pos + 2 * j) buf)),
        xfer := after_write l c, busy := k\<rparr> \<and> (settles P view pb \<longrightarrow> c \<le> 1 \<longrightarrow> k \<le> 15)"
  using x bs sl
proof (induction "255 - j" arbitrary: j bs h)
  case 0
  then have j: "j = 255" by simp
  let ?w = "push_bit 8 (ucast (buf ! (pos + 2 * j + 1))) OR ucast (buf ! (pos + 2 * j)) :: u16"
  have w: "bytes16 ?w = [buf ! (pos + 2 * j), buf ! (pos + 2 * j + 1)]"
    by (rule driver_word)
  have t: "take (512 - 2 * j) (drop (pos + 2 * j) buf) = bytes16 ?w"
    unfolding w using drop_two [of "pos + 2 * j" buf] b by (simp add: j)
  obtain k where r: "view (port_word_out P pb ?w h)
      = (view h)\<lparr>disk := (disk (view h))(l := bs @ bytes16 ?w), xfer := after_write l c, busy := k\<rparr>"
    using data_out [of h l c bs ?w] 0 j by auto
  have q: "settles P view pb \<longrightarrow> c \<le> 1 \<longrightarrow> busy (view (port_word_out P pb ?w h)) \<le> 15"
    using 0 j unfolding settles_def by fastforce
  have "ata_write_bytes P dv buf pos (2 * j) 512 h = Some (port_word_out P pb ?w h)"
    using dv b write_end by (subst ata_write_bytes.simps) (simp add: j ata_write_data_def good_dev_def)
  then show ?case
    unfolding t using r q by (intro exI [of _ "port_word_out P pb ?w h"] exI [of _ k]) (simp add: fun_upd_def)
next
  case (Suc m)
  then have j: "j < 255" by simp
  let ?w = "push_bit 8 (ucast (buf ! (pos + 2 * j + 1))) OR ucast (buf ! (pos + 2 * j)) :: u16"
  let ?h = "port_word_out P pb ?w h"
  have w: "bytes16 ?w = [buf ! (pos + 2 * j), buf ! (pos + 2 * j + 1)]"
    by (rule driver_word)
  have r: "view ?h = (view h)\<lparr>xfer := Writing l c (bs @ bytes16 ?w)\<rparr>"
    using data_out [of h l c bs ?w] Suc.prems j by auto
  have "\<exists>h' k. ata_write_bytes P dv buf pos (2 * (j + 1)) 512 ?h = Some h'
    \<and> view h' = (view ?h)\<lparr>disk := (disk (view ?h))(l := (bs @ bytes16 ?w) @ take (512 - 2 * (j + 1)) (drop (pos + 2 * (j + 1)) buf)),
        xfer := after_write l c, busy := k\<rparr> \<and> (settles P view pb \<longrightarrow> c \<le> 1 \<longrightarrow> k \<le> 15)"
    by (rule Suc.hyps(1)) (use Suc.hyps(2) Suc.prems j r in auto)
  moreover have "(bs @ bytes16 ?w) @ take (512 - 2 * (j + 1)) (drop (pos + 2 * (j + 1)) buf)
      = bs @ take (512 - 2 * j) (drop (pos + 2 * j) buf)"
  proof -
    have "512 - 2 * j = Suc (Suc (512 - 2 * (j + 1)))" using j by simp
    then show ?thesis using drop_two [of "pos + 2 * j" buf] b j by (simp add: driver_word)
  qed
  moreover have "ata_write_bytes P dv buf pos (2 * j) 512 h = ata_write_bytes P dv buf pos (2 * (j + 1)) 512 ?h"
    using dv b j by (subst ata_write_bytes.simps) (simp add: ata_write_data_def good_dev_def)
  ultimately show ?case using r by auto
qed

lemma read_sectors_ok:
  assumes dv: "good_dev dv" and sl: "selects sel (view h)" and x: "xfer (view h) = Reading l (Suc m) 0" "l + Suc m \<le> n"
    and b: "pos + 512 * Suc m \<le> length buf"
  shows "\<exists>h'. read_sectors P dv (Suc m) buf pos h
      = Some (False, patch buf pos (concat (map (disk (view h)) [l..<l + Suc m])), pos + 512 * Suc m, h')
    \<and> view h' = (view h)\<lparr>xfer := Idle, busy := 0\<rparr>"
  using x b sl
proof (induction m arbitrary: l buf pos h)
  case 0
  obtain st h1 st' h2 where p: "ata_read_reg P dv ATA_STATUS_REGISTER h = (st, h1)" "ata_poll P dv st h1 = Some (st', h2)"
    "st' AND 0x21 = 0" "view h2 = (view h)\<lparr>busy := 0\<rparr>" using poll_ok [OF dv "0.prems"(4)] by blast
  obtain h3 where r: "ata_read_bytes P dv buf pos 0 512 h2 = Some (patch buf pos (disk (view h) l), h3)"
    "view h3 = (view h)\<lparr>xfer := Idle, busy := 0\<rparr>"
    using bytes_in_ok [OF dv, of h2 l 1 0 pos buf] 0 p(4) by (auto simp: after_read_def)
  have "view (status_reads P dv 15 h3) = (view h)\<lparr>xfer := Idle, busy := 0\<rparr>"
    using status_reads_ok [OF dv, of h3 15] r(2) 0 by simp
  then show ?case using p r(1) by (simp del: status_reads.simps)
next
  case (Suc m)
  obtain st h1 st' h2 where p: "ata_read_reg P dv ATA_STATUS_REGISTER h = (st, h1)" "ata_poll P dv st h1 = Some (st', h2)"
    "st' AND 0x21 = 0" "view h2 = (view h)\<lparr>busy := 0\<rparr>" using poll_ok [OF dv Suc.prems(4)] by blast
  let ?D = "disk (view h) l" and ?buf = "patch buf pos (disk (view h) l)"
  have D: "length ?D = 512" using sector_size [of l h] Suc.prems(2) by simp
  obtain h3 k where r: "ata_read_bytes P dv buf pos 0 512 h2 = Some (?buf, h3)"
    "view h3 = (view h)\<lparr>xfer := Reading (l + 1) (Suc m) 0, busy := k\<rparr>"
    using bytes_in_ok [OF dv, of h2 l "Suc (Suc m)" 0 pos buf] Suc.prems p(4) by (auto simp: after_read_def)
  let ?h = "status_reads P dv 15 h3"
  have v: "view ?h = (view h)\<lparr>xfer := Reading (l + 1) (Suc m) 0, busy := k - 15\<rparr>"
    using status_reads_ok [OF dv, of h3 15] r(2) Suc.prems by simp
  have "\<exists>h'. read_sectors P dv (Suc m) ?buf (pos + 512) ?h
      = Some (False, patch ?buf (pos + 512) (concat (map (disk (view ?h)) [l + 1..<l + 1 + Suc m])), pos + 512 + 512 * Suc m, h')
    \<and> view h' = (view ?h)\<lparr>xfer := Idle, busy := 0\<rparr>"
    by (rule Suc.IH) (use v Suc.prems D in auto)
  then obtain h' where q: "read_sectors P dv (Suc m) ?buf (pos + 512) ?h
      = Some (False, patch ?buf (pos + 512) (concat (map (disk (view h)) [l + 1..<l + 1 + Suc m])), pos + 512 + 512 * Suc m, h')"
    "view h' = (view h)\<lparr>xfer := Idle, busy := 0\<rparr>" using v by auto
  have L: "length (concat (map (disk (view h)) [l + 1..<l + 1 + Suc m])) = 512 * Suc m"
    by (rule length_concat_sectors) (use Suc.prems(2) sector_size in auto)
  have "patch ?buf (pos + 512) (concat (map (disk (view h)) [l + 1..<l + 1 + Suc m]))
      = patch buf pos (?D @ concat (map (disk (view h)) [l + 1..<l + 1 + Suc m]))"
    using patch_patch_right [of pos ?D "concat (map (disk (view h)) [l + 1..<l + 1 + Suc m])" buf] D L Suc.prems(3)
    by simp
  also have "?D @ concat (map (disk (view h)) [l + 1..<l + 1 + Suc m]) = concat (map (disk (view h)) [l..<l + Suc (Suc m)])"
    by (subst (2) upt_conv_Cons) auto
  finally have cc: "patch ?buf (pos + 512) (concat (map (disk (view h)) [l + 1..<l + 1 + Suc m]))
      = patch buf pos (concat (map (disk (view h)) [l..<l + Suc (Suc m)]))" .
  have "read_sectors P dv (Suc (Suc m)) buf pos h = read_sectors P dv (Suc m) ?buf (pos + 512) ?h"
    unfolding read_sectors.simps(2) [of P dv "Suc m"] using p(1-3) r(1) by simp
  then show ?case unfolding q(1) cc using q(2) by simp
qed

text \<open>The disk after \<open>m\<close> sectors of a buffer have been stored from sector \<open>l\<close> on.\<close>

definition stored :: "nat \<Rightarrow> nat \<Rightarrow> nat \<Rightarrow> byte list \<Rightarrow> (nat \<Rightarrow> byte list) \<Rightarrow> nat \<Rightarrow> byte list" where
  "stored l m pos buf d = (\<lambda>k. if l \<le> k \<and> k < l + m then take 512 (drop (pos + 512 * (k - l)) buf) else d k)"

lemma write_sectors_ok:
  assumes dv: "good_dev dv" and sl: "selects sel (view h)" and x: "xfer (view h) = Writing l (Suc m) []" "l + Suc m \<le> n"
    and b: "pos + 512 * Suc m \<le> length buf"
  shows "\<exists>h' k. write_sectors P dv (Suc m) buf pos h = Some (False, pos + 512 * Suc m, h')
    \<and> view h' = (view h)\<lparr>disk := stored l (Suc m) pos buf (disk (view h)), xfer := Idle, busy := k\<rparr>
    \<and> (settles P view pb \<longrightarrow> k = 0)"
  using x b sl
proof (induction m arbitrary: l pos h)
  case 0
  obtain st h1 st' h2 where p: "ata_read_reg P dv ATA_STATUS_REGISTER h = (st, h1)" "ata_poll P dv st h1 = Some (st', h2)"
    "st' AND 0x21 = 0" "view h2 = (view h)\<lparr>busy := 0\<rparr>" using poll_ok [OF dv "0.prems"(4)] by blast
  obtain h3 k where r: "ata_write_bytes P dv buf pos 0 512 h2 = Some h3"
    "view h3 = (view h)\<lparr>disk := (disk (view h))(l := take 512 (drop pos buf)), xfer := Idle, busy := k\<rparr>" "settles P view pb \<longrightarrow> k \<le> 15"
    using write_bytes_ok [OF dv, of h2 l 1 "[]" pos buf 0] 0 p(4) by (auto simp: after_write_def)
  have "stored l 1 pos buf (disk (view h)) = (disk (view h))(l := take 512 (drop pos buf))"
    by (auto simp: stored_def)
  then have "view (status_reads P dv 15 h3) = (view h)\<lparr>disk := stored l 1 pos buf (disk (view h)), xfer := Idle, busy := k - 15\<rparr>"
    using status_reads_ok [OF dv, of h3 15] r(2) 0 by simp
  then show ?case
    using p r(1,3) by (intro exI [of _ "status_reads P dv 15 h3"] exI [of _ "k - 15"]) (simp del: status_reads.simps)
next
  case (Suc m)
  obtain st h1 st' h2 where p: "ata_read_reg P dv ATA_STATUS_REGISTER h = (st, h1)" "ata_poll P dv st h1 = Some (st', h2)"
    "st' AND 0x21 = 0" "view h2 = (view h)\<lparr>busy := 0\<rparr>" using poll_ok [OF dv Suc.prems(4)] by blast
  obtain h3 k where r: "ata_write_bytes P dv buf pos 0 512 h2 = Some h3"
    "view h3 = (view h)\<lparr>disk := (disk (view h))(l := take 512 (drop pos buf)), xfer := Writing (l + 1) (Suc m) [], busy := k\<rparr>"
    using write_bytes_ok [OF dv, of h2 l "Suc (Suc m)" "[]" pos buf 0] Suc.prems p(4) by (auto simp: after_write_def)
  let ?h = "status_reads P dv 15 h3"
  have v: "view ?h = (view h)\<lparr>disk := (disk (view h))(l := take 512 (drop pos buf)),
      xfer := Writing (l + 1) (Suc m) [], busy := k - 15\<rparr>"
    using status_reads_ok [OF dv, of h3 15] r(2) Suc.prems by simp
  have "\<exists>h' k. write_sectors P dv (Suc m) buf (pos + 512) ?h = Some (False, pos + 512 + 512 * Suc m, h')
    \<and> view h' = (view ?h)\<lparr>disk := stored (l + 1) (Suc m) (pos + 512) buf (disk (view ?h)), xfer := Idle, busy := k\<rparr>
    \<and> (settles P view pb \<longrightarrow> k = 0)"
    by (rule Suc.IH) (use v Suc.prems in auto)
  then obtain h' k' where q: "write_sectors P dv (Suc m) buf (pos + 512) ?h = Some (False, pos + 512 + 512 * Suc m, h')"
    "view h' = (view ?h)\<lparr>disk := stored (l + 1) (Suc m) (pos + 512) buf (disk (view ?h)), xfer := Idle, busy := k'\<rparr>"
    "settles P view pb \<longrightarrow> k' = 0" by blast
  have "stored (l + 1) (Suc m) (pos + 512) buf (disk (view ?h)) = stored l (Suc (Suc m)) pos buf (disk (view h))"
  proof
    fix i
    show "stored (l + 1) (Suc m) (pos + 512) buf (disk (view ?h)) i = stored l (Suc (Suc m)) pos buf (disk (view h)) i"
    proof (cases "l + 1 \<le> i \<and> i < l + 1 + Suc m")
      case True
      then have t: "pos + 512 + 512 * (i - (l + 1)) = pos + 512 * (i - l)" and "l \<le> i \<and> i < l + Suc (Suc m)" by auto
      then show ?thesis using True unfolding stored_def t by (simp only: if_True simp_thms)
    qed (auto simp: stored_def v)
  qed
  moreover have "write_sectors P dv (Suc (Suc m)) buf pos h = write_sectors P dv (Suc m) buf (pos + 512) ?h"
    unfolding write_sectors.simps(2) [of P dv "Suc m"] using p(1-3) r(1) by simp
  ultimately show ?case
    unfolding q(1) using q(2,3) v by (intro exI [of _ h'] exI [of _ k']) simp
qed

text \<open>The task file after the driver's register writes addresses the sector it means.\<close>

definition task_file :: "ATA_DEVICE \<Rightarrow> u32 \<Rightarrow> u32 \<Rightarrow> DRIVE \<Rightarrow> DRIVE" where
  "task_file dv cnt lba s = s\<lparr>r_drive := (0xE0 OR (drive dv AND 0x10)) OR (ucast (drop_bit 24 lba) AND 0x0F),
     r_count := ucast cnt, r_lo := ucast lba, r_mid := ucast (drop_bit 8 lba), r_hi := ucast (drop_bit 16 lba)\<rparr>"

lemma task_file_sel [simp]:
  "disk (task_file dv cnt lba s) = disk s" "xfer (task_file dv cnt lba s) = xfer s" "busy (task_file dv cnt lba s) = busy s"
  by (simp_all add: task_file_def)

lemma task_file_addresses:
  assumes "unat lba < 2 ^ 28" "0 < unat cnt" "unat cnt \<le> 255"
  shows "lba_of (task_file dv cnt lba s) = unat lba" "count_of (task_file dv cnt lba s) = unat cnt"
    "bit (r_drive (task_file dv cnt lba s)) 6"
proof -
  have b: "unat (ucast x :: byte) = unat x mod 256" for x :: u32
    by (simp add: unsigned_ucast_eq take_bit_eq_mod)
  have d: "unat (drop_bit k x) = unat x div 2 ^ k" if "k < 32" for k and x :: u32
    using that by (subst unsigned_drop_bit_eq) (simp add: drop_bit_eq_div take_bit_nat_eq_self)
  have f: "((0xE0 OR (y AND 0x10)) OR (x AND 0x0F)) AND 0x0F = x AND 0x0F" for x y :: byte
    by (simp add: bit.conj_disj_distrib2 and.assoc)
  have m: "(0x0F :: byte) = mask 4" by (simp add: mask_eq_exp_minus_1)
  have n: "unat (x AND 0x0F) = unat x mod 16" for x :: byte
    unfolding m by (simp add: unsigned_take_bit_eq flip: take_bit_eq_mask) (simp add: take_bit_eq_mod)
  have "unat lba div 16777216 < 16" using assms(1) by (simp add: less_mult_imp_div_less)
  then have "lba_of (task_file dv cnt lba s) = unat lba div 16777216 * 16777216 + unat lba div 65536 mod 256 * 65536
      + unat lba div 256 mod 256 * 256 + unat lba mod 256"
    unfolding lba_of_def task_file_def by (simp add: f n b d)
  also have "\<dots> = unat lba"
  proof -
    have "x div 16777216 * 16777216 + x div 65536 mod 256 * 65536 + x div 256 mod 256 * 256 + x mod 256 = x" for x :: nat
    proof -
      have "x div 16777216 = x div 65536 div 256" "x div 65536 = x div 256 div 256" by (simp_all add: div_mult2_eq [symmetric])
      then show ?thesis
        using div_mult_mod_eq [of "x div 65536" 256] div_mult_mod_eq [of "x div 256" 256] div_mult_mod_eq [of x 256] by linarith
    qed
    then show ?thesis .
  qed
  finally show "lba_of (task_file dv cnt lba s) = unat lba" .
  have "unat (ucast cnt :: byte) = unat cnt" using assms(3) b [of cnt] by simp
  then show "count_of (task_file dv cnt lba s) = unat cnt"
    using assms(2) unsigned_0 by (auto simp: count_of_def task_file_def)
  show "bit (r_drive (task_file dv cnt lba s)) 6" by (simp add: task_file_def bit_or_iff)
qed

lemma task_file_selects: "good_dev dv \<Longrightarrow> selects sel (task_file dv cnt lba s)"
proof -
  assume "good_dev dv"
  then have "sel = drive dv AND 0x10" by (simp add: good_dev_def)
  then show ?thesis by (simp add: selects_def task_file_def bit.conj_disj_distrib2 and.assoc)
qed

lemma command_ok:
  assumes dv: "good_dev dv" and i: "xfer (view h) = Idle" "busy (view h) = 0"
    and c: "0 < unat cnt" "unat cnt \<le> 255" and l: "unat lba + unat cnt \<le> n" "n \<le> 2 ^ 28"
  shows "\<exists>k. view (issue_command P dv (ucast cnt) lba 0x20 (select_lba P dv lba h))
      = (task_file dv cnt lba (view h))\<lparr>xfer := Reading (unat lba) (unat cnt) 0, busy := k\<rparr>"
    and "\<exists>k. view (issue_command P dv (ucast cnt) lba 0x30 (select_lba P dv lba h))
      = (task_file dv cnt lba (view h))\<lparr>xfer := Writing (unat lba) (unat cnt) [], busy := k\<rparr>"
proof -
  have u: "(ucast (ucast x :: u16) :: byte) = x" for x :: byte
    by (rule bit_word_eqI) (auto simp: bit_simps)
  have u2: "(ucast (ucast x :: u16) :: byte) = ucast x" for x :: u32
    by (rule bit_word_eqI) (auto simp: bit_simps)
  define db :: byte where "db = (0xE0 OR (drive dv AND 0x10)) OR (ucast (drop_bit 24 lba) AND 0x0F)"
  have db: "ucast ((0xE0 OR (ucast (drive dv) AND 0x10)) OR (ucast (drop_bit 24 lba) AND 0x0F) :: u16) = db"
    by (simp add: db_def unsigned_or_eq unsigned_and_eq u u2)
  define t where "t = port_byte_out P (pb + 5) (ucast (drop_bit 16 lba)) (port_byte_out P (pb + 4) (ucast (drop_bit 8 lba))
    (port_byte_out P (pb + 3) (ucast lba) (port_byte_out P (pb + 2) (ucast cnt) (port_byte_out P (pb + 6) db h))))"
  have v: "view t = task_file dv cnt lba (view h)"
    unfolding t_def using i by (simp add: out_drive out_count out_lo out_mid out_hi task_file_def db_def)
  have run: "issue_command P dv (ucast cnt) lba cmd (select_lba P dv lba h) = port_byte_out P (pb + 7) (ucast cmd) t" for cmd
    using dv unfolding issue_command_def select_lba_def ata_write_reg_def good_dev_def t_def
    by (simp add: db u u2 Let_def)
  have lb: "unat lba < 2 ^ 28" using c l by simp
  note ta = task_file_addresses [OF lb c, of dv "view h"]
  have idle: "xfer (view t) = Idle" "busy (view t) = 0" "selects sel (view t)" "bit (r_drive (view t)) 6"
    "lba_of (view t) + count_of (view t) \<le> n"
    using i ta l task_file_selects [OF dv] by (simp_all add: v)
  show "\<exists>k. view (issue_command P dv (ucast cnt) lba 0x20 (select_lba P dv lba h))
      = (task_file dv cnt lba (view h))\<lparr>xfer := Reading (unat lba) (unat cnt) 0, busy := k\<rparr>"
    using out_read [OF idle] unfolding run by (simp add: v ta)
  show "\<exists>k. view (issue_command P dv (ucast cnt) lba 0x30 (select_lba P dv lba h))
      = (task_file dv cnt lba (view h))\<lparr>xfer := Writing (unat lba) (unat cnt) [], busy := k\<rparr>"
    using out_write [OF idle] unfolding run by (simp add: v ta)
qed

text \<open>
  A transfer of 1 to 255 sectors moves exactly these sectors. After a read the drive is ready for
  the next command; after a write it has no command left, and is ready as soon as it is not busy.
\<close>

definition ready :: "'h \<times> ATA_DEVICE \<Rightarrow> bool" where
  "ready d \<longleftrightarrow> good_dev (snd d) \<and> xfer (view (fst d)) = Idle \<and> busy (view (fst d)) = 0"

lemma small_count:
  assumes "0 < unat cnt" "unat cnt \<le> 255"
  shows "cnt div 256 = 0" "cnt mod 256 = (cnt :: u32)" "unat (cnt AND 0xFF) = unat cnt" "cnt \<noteq> 0"
proof -
  have "cnt < 256" using assms by (simp add: word_less_nat_alt)
  then show "cnt div 256 = 0" "cnt mod 256 = cnt" by (simp_all add: div_word_less mod_word_less)
  have "unat (cnt AND mask 8) = unat cnt mod 256"
    by (simp add: unsigned_take_bit_eq flip: take_bit_eq_mask) (simp add: take_bit_eq_mod)
  then show "unat (cnt AND 0xFF) = unat cnt" using assms by (simp add: mask_eq_exp_minus_1)
  show "cnt \<noteq> 0" using assms by auto
qed

lemma ata_read_ok:
  assumes r: "ready d" and c: "0 < unat cnt" "unat cnt \<le> 255" and l: "unat lba + unat cnt \<le> n" "n \<le> 2 ^ 28"
    and b: "512 * unat cnt \<le> length buf"
  shows "\<exists>d'. ata_pio_read P d buf cnt lba
      = Some (E_DEVICE_OK, patch buf 0 (concat (map (disk (view (fst d))) [unat lba..<unat lba + unat cnt])), d')
    \<and> ready d' \<and> snd d' = snd d \<and> disk (view (fst d')) = disk (view (fst d))"
proof -
  obtain h dv where d: "d = (h, dv)" by (cases d)
  have dv: "good_dev dv" and i: "xfer (view h) = Idle" "busy (view h) = 0" using r by (auto simp: ready_def d)
  obtain m where m: "unat cnt = Suc m" using c(1) by (cases "unat cnt") auto
  let ?h = "issue_command P dv (ucast cnt) lba 0x20 (select_lba P dv lba h)"
  obtain k where v: "view ?h = (task_file dv cnt lba (view h))\<lparr>xfer := Reading (unat lba) (unat cnt) 0, busy := k\<rparr>"
    using command_ok(1) [OF dv i c l] by blast
  obtain h' where q: "read_sectors P dv (Suc m) buf 0 ?h
      = Some (False, patch buf 0 (concat (map (disk (view ?h)) [unat lba..<unat lba + Suc m])), 0 + 512 * Suc m, h')"
    "view h' = (view ?h)\<lparr>xfer := Idle, busy := 0\<rparr>"
    using read_sectors_ok [OF dv, of ?h "unat lba" m 0 buf] v m l(1) b task_file_selects [OF dv] by auto
  have "ata_pio_read P d buf cnt lba
      = Some (E_DEVICE_OK, patch buf 0 (concat (map (disk (view h)) [unat lba..<unat lba + unat cnt])), (h', dv))"
    using q(1) v small_count [OF c] by (simp add: ata_pio_read_def d m Let_def del: read_sectors.simps)
  moreover have "ready (h', dv)" using dv q(2) by (simp add: ready_def)
  moreover have "disk (view h') = disk (view h)" using q(2) v by simp
  ultimately show ?thesis by (simp add: d)
qed

lemma ata_write_ok:
  assumes r: "ready d" and c: "0 < unat cnt" "unat cnt \<le> 255" and l: "unat lba + unat cnt \<le> n" "n \<le> 2 ^ 28"
    and b: "512 * unat cnt \<le> length buf"
  shows "\<exists>d'. ata_pio_write P d buf cnt lba = Some (E_DEVICE_OK, d')
    \<and> snd d' = snd d \<and> xfer (view (fst d')) = Idle \<and> (busy (view (fst d')) = 0 \<longrightarrow> ready d')
    \<and> (settles P view pb \<longrightarrow> ready d') \<and> disk (view (fst d')) = stored (unat lba) (unat cnt) 0 buf (disk (view (fst d)))"
proof -
  obtain h dv where d: "d = (h, dv)" by (cases d)
  have dv: "good_dev dv" and i: "xfer (view h) = Idle" "busy (view h) = 0" using r by (auto simp: ready_def d)
  obtain m where m: "unat cnt = Suc m" using c(1) by (cases "unat cnt") auto
  let ?h = "issue_command P dv (ucast cnt) lba 0x30 (select_lba P dv lba h)"
  obtain k where v: "view ?h = (task_file dv cnt lba (view h))\<lparr>xfer := Writing (unat lba) (unat cnt) [], busy := k\<rparr>"
    using command_ok(2) [OF dv i c l] by blast
  obtain h' k' where q: "write_sectors P dv (Suc m) buf 0 ?h = Some (False, 0 + 512 * Suc m, h')"
    "view h' = (view ?h)\<lparr>disk := stored (unat lba) (Suc m) 0 buf (disk (view ?h)), xfer := Idle, busy := k'\<rparr>"
    "settles P view pb \<longrightarrow> k' = 0"
    using write_sectors_ok [OF dv, of ?h "unat lba" m 0 buf] v m l(1) b task_file_selects [OF dv] by auto
  have "ata_pio_write P d buf cnt lba = Some (E_DEVICE_OK, (h', dv))"
    using q(1) v small_count [OF c] by (simp add: ata_pio_write_def d m Let_def del: write_sectors.simps)
  moreover have "busy (view h') = 0 \<longrightarrow> ready (h', dv)" "settles P view pb \<longrightarrow> ready (h', dv)" "xfer (view h') = Idle"
    using dv q(2,3) by (simp_all add: ready_def)
  moreover have "disk (view h') = stored (unat lba) (unat cnt) 0 buf (disk (view h))" using q(2) v m by simp
  ultimately show ?thesis by (simp add: d)
qed

text \<open>So every drive can be read through the device layer, and one that settles keeps the whole contract.\<close>

lemma ata_reads_sectors:
  assumes n: "n \<le> 2 ^ 28"
  shows "reads_sectors n (\<lambda>d. ready d \<and> snd d = dv) (\<lambda>d. disk (view (fst d))) (ata_pio_read P)"
  unfolding reads_sectors_def
proof (intro allI impI conjI)
  fix d :: "'h \<times> ATA_DEVICE" and lba :: u32 and buf :: "byte list"
  assume r: "ready d \<and> snd d = dv" and l: "unat lba < n"
  have one: "0 < unat (1 :: u32)" "unat (1 :: u32) \<le> 255" "unat lba + unat (1 :: u32) \<le> n" using l by simp_all
  show "length (disk (view (fst d)) (unat lba)) = 512" using sector_size l by blast
  assume b: "length buf = 512"
  have D: "patch buf 0 (disk (view (fst d)) (unat lba)) = disk (view (fst d)) (unat lba)"
    using sector_size [OF l, of "fst d"] b by simp
  show "\<exists>d'. ata_pio_read P d buf 1 lba = Some (E_DEVICE_OK, disk (view (fst d)) (unat lba), d') \<and> (ready d' \<and> snd d' = dv)
      \<and> (\<forall>k<n. disk (view (fst d')) k = disk (view (fst d)) k)"
    using ata_read_ok [OF conjunct1 [OF r] one n, of buf] b D r by auto
qed

end

end
