(* ===== verification/Ata_Identify.thy ===== *)
theory Ata_Identify
  imports Ata_Drive
begin

text \<open>
  Identification. \<^verbatim>\<open>identify_ata\<close> is run on a channel with one drive, the master: it finds the
  master with the number of sectors its identification gives, and no slave. The interface
  \<open>lone_master\<close> adds to a drive what its specification says of a device 0 without device 1.
\<close>

subsection \<open>A master without a slave\<close>

text \<open>
  While the absent drive is selected the registers are written as before, commands are ignored
  and the status reads as 0.
\<close>

locale lone_master = ata_drive P view pb 0 n
  for P :: "'h PORTS" and view :: "'h \<Rightarrow> DRIVE" and pb :: u16 and n :: nat +
  assumes absent_status: "\<not> selects 0 (view h) \<Longrightarrow> xfer (view h) = Idle \<Longrightarrow> busy (view h) = 0 \<Longrightarrow>
      \<exists>h'. port_byte_in P (pb + 7) h = (0, h') \<and> view h' = view h"
    and absent_command: "\<not> selects 0 (view h) \<Longrightarrow> xfer (view h) = Idle \<Longrightarrow> busy (view h) = 0 \<Longrightarrow>
      view (port_byte_out P (pb + 7) b h) = view h"

context ata_drive
begin

text \<open>Waiting for the busy bit ends with a status that says whether data waits.\<close>

lemma wait_ok:
  assumes "good_dev dv" "selects sel (view h)"
  shows "\<exists>st h' st' h''. ata_read_reg P dv ATA_STATUS_REGISTER h = (st, h') \<and> wait_not_busy P dv st h' = Some (st', h'')
    \<and> st' AND 0x01 = 0 \<and> (st' AND 0x08 \<noteq> 0 \<longleftrightarrow> xfer (view h) \<noteq> Idle) \<and> view h'' = (view h)\<lparr>busy := 0\<rparr>"
  using assms(2)
proof (induction "busy (view h)" arbitrary: h)
  case 0
  obtain st h' where s: "ata_read_reg P dv ATA_STATUS_REGISTER h = (st, h')" "st AND 0x01 = 0"
    "st AND 0x80 \<noteq> 0 \<longleftrightarrow> 0 < busy (view h)"
    "busy (view h) = 0 \<longrightarrow> st AND 0x40 \<noteq> 0 \<and> (st AND 0x08 \<noteq> 0 \<longleftrightarrow> xfer (view h) \<noteq> Idle)"
    "view h' = (view h)\<lparr>busy := busy (view h) - 1\<rparr>"
    using read_status [OF assms(1) 0(2)] by (elim exE conjE) (rule that; assumption)
  then have "wait_not_busy P dv st h' = Some (st, h')" using 0 by (subst wait_not_busy.simps) simp
  then show ?case using s 0 by auto
next
  case (Suc k)
  obtain st h' where s: "ata_read_reg P dv ATA_STATUS_REGISTER h = (st, h')"
    "st AND 0x80 \<noteq> 0 \<longleftrightarrow> 0 < busy (view h)" "view h' = (view h)\<lparr>busy := busy (view h) - 1\<rparr>"
    using read_status [OF assms(1) Suc.prems] by (elim exE conjE) (rule that; assumption)
  have "k = busy (view h')" "selects sel (view h')" using s(3) Suc.hyps(2) Suc.prems by simp_all
  from Suc.hyps(1) [OF this] obtain st1 h1 st' h'' where r: "ata_read_reg P dv ATA_STATUS_REGISTER h' = (st1, h1)"
    "wait_not_busy P dv st1 h1 = Some (st', h'')" "st' AND 0x01 = 0" "st' AND 0x08 \<noteq> 0 \<longleftrightarrow> xfer (view h') \<noteq> Idle"
    "view h'' = (view h')\<lparr>busy := 0\<rparr>" by (elim exE conjE) (rule that; assumption)
  have "wait_not_busy P dv st h' = Some (st', h'')"
    using s(2) r(1,2) Suc.hyps(2) by (subst wait_not_busy.simps) simp
  then show ?case using s(1,3) r(3-5) by auto
qed

lemma words_ok:
  assumes "good_dev dv" "xfer (view h) = Identifying i" "busy (view h) = 0" "selects sel (view h)" "i + Suc m = 256"
  shows "\<exists>h'. ata_read_words P dv (Suc m) h = (map (ident (view h)) [i..<256], h') \<and> view h' = (view h)\<lparr>xfer := Idle\<rparr>"
  using assms(2-)
proof (induction m arbitrary: i h)
  case 0
  then have i: "i = 255" by simp
  obtain h' where "port_word_in P pb h = (ident (view h) i, h')" "view h' = (view h)\<lparr>xfer := Idle\<rparr>"
    using ident_in [of h i] 0 i by auto
  then show ?case using assms(1) by (simp add: i ata_read_data_def good_dev_def)
next
  case (Suc m)
  then have i: "i < 255" by simp
  obtain h1 where h1: "port_word_in P pb h = (ident (view h) i, h1)" "view h1 = (view h)\<lparr>xfer := Identifying (i + 1)\<rparr>"
    using ident_in [of h i] Suc.prems i by auto
  have "\<exists>h'. ata_read_words P dv (Suc m) h1 = (map (ident (view h1)) [i + 1..<256], h')
      \<and> view h' = (view h1)\<lparr>xfer := Idle\<rparr>"
    by (rule Suc.IH) (use Suc.prems h1(2) in simp_all)
  then obtain h' where h': "ata_read_words P dv (Suc m) h1 = (map (ident (view h)) [i + 1..<256], h')"
    "view h' = (view h)\<lparr>xfer := Idle\<rparr>" using h1(2) by auto
  have "ata_read_words P dv (Suc (Suc m)) h = (ident (view h) i # map (ident (view h)) [i + 1..<256], h')"
    unfolding ata_read_words.simps(2) [of P dv "Suc m" h] using h1(1) h'(1) assms(1)
    by (simp add: ata_read_data_def good_dev_def del: ata_read_words.simps)
  then show ?case using h'(2) i by (simp add: upt_conv_Cons del: ata_read_words.simps)
qed

end

subsection \<open>Looking for the drives\<close>

text \<open>The structure \<^verbatim>\<open>identify_ata\<close> fills in before it looks at the hardware.\<close>

definition probed :: "ATA_DEVICE \<Rightarrow> u16 \<Rightarrow> u16 \<Rightarrow> byte \<Rightarrow> ATA_DEVICE" where
  "probed dv pbase cbase drv = dv\<lparr>port_base := pbase, control_base := cbase, drive := drv,
     addressing_mode := ATA_LBA28, default_mode := ATA_PIO\<rparr>"

lemma probed_sel [simp]: "port_base (probed dv pbase cbase drv) = pbase" "drive (probed dv pbase cbase drv) = drv"
  "addressing_mode (probed dv pbase cbase drv) = ATA_LBA28"
  by (simp_all add: probed_def)

definition sectors_of :: "(nat \<Rightarrow> u16) \<Rightarrow> u32" where
  "sectors_of ws = ucast (ws 60) OR push_bit 16 (ucast (ws 61))"

context lone_master
begin

lemma channel_status:
  assumes "port_base dv = pb" "addressing_mode dv = ATA_LBA28" "xfer (view h) = Idle" "busy (view h) = 0"
  shows "\<exists>st h'. ata_read_reg P dv ATA_STATUS_REGISTER h = (st, h') \<and> st \<noteq> 0xFF \<and> view h' = view h
    \<and> (\<not> selects 0 (view h) \<longrightarrow> st = 0)"
proof (cases "selects 0 (view h)")
  case True
  obtain b h' where b: "port_byte_in P (pb + 7) h = (b, h')" "b AND 0x21 = 0" "view h' = (view h)\<lparr>busy := busy (view h) - 1\<rparr>"
    using status [OF True] by (elim exE conjE) (rule that; assumption)
  have "(ucast b :: u16) AND 0x21 = ucast (b AND 0x21)" by (simp add: unsigned_and_eq)
  then have "(ucast b :: u16) AND 0x21 = 0" unfolding b(2) by simp
  then have "(ucast b :: u16) \<noteq> 0xFF" by auto
  then show ?thesis using b(1,3) True assms by (simp add: ata_read_reg_def)
next
  case False
  obtain h' where "port_byte_in P (pb + 7) h = (0, h')" "view h' = view h" using absent_status [OF False assms(3,4)] by blast
  then show ?thesis using assms by (simp add: ata_read_reg_def)
qed

text \<open>The registers before the command.\<close>

definition probe_writes :: "ATA_DEVICE \<Rightarrow> 'h \<Rightarrow> 'h" where
  "probe_writes dv h = ata_write_reg P dv ATA_LBAHI_REGISTER 0 (ata_write_reg P dv ATA_LBAMID_REGISTER 0
     (ata_write_reg P dv ATA_LBALO_REGISTER 0 (ata_write_reg P dv ATA_DRIVE_REGISTER (ucast (drive dv)) h)))"

lemma probe_writes_ok:
  assumes "port_base dv = pb" "addressing_mode dv = ATA_LBA28" "xfer (view h) = Idle" "busy (view h) = 0"
  shows "view (probe_writes dv h) = (view h)\<lparr>r_drive := drive dv, r_lo := 0, r_mid := 0, r_hi := 0\<rparr>"
proof -
  have "(ucast (ucast x :: u16) :: byte) = x" for x :: byte by (rule bit_word_eqI) (auto simp: bit_simps)
  then show ?thesis using assms by (simp add: probe_writes_def ata_write_reg_def out_drive out_lo out_mid out_hi)
qed

lemma identify_master:
  assumes i: "xfer (view h) = Idle" "busy (view h) = 0"
  shows "\<exists>h'. identify_ata P dv pb cbase ATA_MASTER h
      = Some (0, (probed dv pb cbase ATA_MASTER)\<lparr>addressable_sectors := sectors_of (ident (view h))\<rparr>, h')
    \<and> xfer (view h') = Idle \<and> busy (view h') = 0 \<and> disk (view h') = disk (view h)"
proof -
  note ATA_MASTER_def [simp del]
  let ?dv = "probed dv pb cbase ATA_MASTER"
  have g: "good_dev ?dv" by (simp add: good_dev_def ATA_MASTER_def)
  have pd: "port_base ?dv = pb" "addressing_mode ?dv = ATA_LBA28" by simp_all
  obtain fb h1 where fb: "ata_read_reg P ?dv ATA_STATUS_REGISTER h = (fb, h1)" "fb \<noteq> 0xFF" "view h1 = view h"
    using channel_status [OF pd i] by blast
  let ?h2 = "probe_writes ?dv h1"
  have v2: "view ?h2 = (view h)\<lparr>r_drive := 0xA0, r_lo := 0, r_mid := 0, r_hi := 0\<rparr>"
    using probe_writes_ok [OF pd, of h1] i fb(3) by (simp add: ATA_MASTER_def)
  have "xfer (view ?h2) = Idle" "busy (view ?h2) = 0" "selects 0 (view ?h2)"
    unfolding v2 using i by (simp_all add: selects_def)
  from out_identify [OF this] obtain k where "view (port_byte_out P (pb + 7) 0xEC ?h2) = (view ?h2)\<lparr>xfer := Identifying 0, busy := k\<rparr>"
    by blast
  then obtain h3 where h3: "ata_write_reg P ?dv ATA_COMMAND_REGISTER 0xEC ?h2 = h3"
    "view h3 = (view ?h2)\<lparr>xfer := Identifying 0, busy := k\<rparr>" by (simp add: ata_write_reg_def)
  have s3: "selects 0 (view h3)" by (simp add: h3(2) v2 selects_def)
  obtain st h4 where st: "ata_read_reg P ?dv ATA_STATUS_REGISTER h3 = (st, h4)"
    "st AND 0x80 \<noteq> 0 \<longleftrightarrow> 0 < busy (view h3)"
    "busy (view h3) = 0 \<longrightarrow> st AND 0x40 \<noteq> 0 \<and> (st AND 0x08 \<noteq> 0 \<longleftrightarrow> xfer (view h3) \<noteq> Idle)"
    "view h4 = (view h3)\<lparr>busy := busy (view h3) - 1\<rparr>"
    using read_status [OF g s3] by (elim exE conjE) (rule that; assumption)
  have nz: "st \<noteq> 0" using st(2,3) by (cases "busy (view h3) = 0") auto
  have s4: "selects 0 (view h4)" using s3 st(4) by simp
  obtain p1 h5 p h6 where w: "ata_read_reg P ?dv ATA_STATUS_REGISTER h4 = (p1, h5)" "wait_not_busy P ?dv p1 h5 = Some (p, h6)"
    "p AND 0x01 = 0" "p AND 0x08 \<noteq> 0 \<longleftrightarrow> xfer (view h4) \<noteq> Idle" "view h6 = (view h4)\<lparr>busy := 0\<rparr>"
    using wait_ok [OF g s4] by (elim exE conjE) (rule that; assumption)
  have v6: "view h6 = (view ?h2)\<lparr>xfer := Identifying 0, busy := 0\<rparr>" using w(5) st(4) h3(2) by simp
  have s6: "selects 0 (view h6)" "busy (view h6) = 0" by (simp_all add: v6 v2 selects_def)
  obtain h7 where h7: "ata_read_reg P ?dv ATA_LBAMID_REGISTER h6 = (0, h7)" "view h7 = view h6"
    using in_mid [OF s6] by (auto simp: ata_read_reg_def v6 v2)
  obtain h8 where h8: "ata_read_reg P ?dv ATA_LBAHI_REGISTER h7 = (0, h8)" "view h8 = view h6"
    using in_hi [of h7] s6 h7(2) by (auto simp: ata_read_reg_def v6 v2)
  have wd: "wait_data P ?dv p h8 = Some (p, h8)"
    using w(4) st(4) h3(2) by (subst wait_data.simps) simp
  have v8: "xfer (view h8) = Identifying 0" "busy (view h8) = 0" "selects 0 (view h8)" "ident (view h8) = ident (view h)"
    using h8(2) s6 by (simp_all add: v6 v2 selects_def)
  obtain h9 where h9: "ata_read_words P ?dv 256 h8 = (map (ident (view h)) [0..<256], h9)" "view h9 = (view h8)\<lparr>xfer := Idle\<rparr>"
    using words_ok [OF g v8(1-3), of 255] unfolding v8(4) by auto
  have "identify_ata P dv pb cbase ATA_MASTER h
      = Some (0, ?dv\<lparr>addressable_sectors := sectors_of (ident (view h))\<rparr>, h9)"
    unfolding identify_ata_def Let_def probed_def [symmetric] fb(1) prod.case probe_writes_def [symmetric] h3(1) st(1)
    using fb(2) nz w(3) by (simp add: w(1,2) h7(1) h8(1) wd h9(1) sectors_of_def
        del: ATA_STATUS_REGISTER_def ATA_LBAMID_REGISTER_def ATA_LBAHI_REGISTER_def)
  then show ?thesis using h9(2) h8(2) by (simp add: v6 v2)
qed

lemma identify_slave:
  assumes i: "xfer (view h) = Idle" "busy (view h) = 0"
  shows "\<exists>h'. identify_ata P dv pb cbase ATA_SLAVE h = Some (4, probed dv pb cbase ATA_SLAVE, h')
    \<and> xfer (view h') = Idle \<and> busy (view h') = 0 \<and> disk (view h') = disk (view h)"
proof -
  let ?dv = "probed dv pb cbase ATA_SLAVE"
  have pd: "port_base ?dv = pb" "addressing_mode ?dv = ATA_LBA28" by simp_all
  obtain fb h1 where fb: "ata_read_reg P ?dv ATA_STATUS_REGISTER h = (fb, h1)" "fb \<noteq> 0xFF" "view h1 = view h"
    using channel_status [OF pd i] by blast
  let ?h2 = "probe_writes ?dv h1"
  have v2: "view ?h2 = (view h)\<lparr>r_drive := 0xB0, r_lo := 0, r_mid := 0, r_hi := 0\<rparr>"
    using probe_writes_ok [OF pd, of h1] i fb(3) by simp
  then have i2: "xfer (view ?h2) = Idle" "busy (view ?h2) = 0" "\<not> selects 0 (view ?h2)" using i by (simp_all add: selects_def)
  let ?h3 = "ata_write_reg P ?dv ATA_COMMAND_REGISTER 0xEC ?h2"
  have v3: "view ?h3 = view ?h2" using absent_command [OF i2(3,1,2)] by (simp add: ata_write_reg_def)
  obtain h4 where h4: "ata_read_reg P ?dv ATA_STATUS_REGISTER ?h3 = (0, h4)" "view h4 = view ?h2"
    using channel_status [OF pd, of ?h3] i2 v3 by auto
  have "identify_ata P dv pb cbase ATA_SLAVE h = Some (4, ?dv, h4)"
    unfolding identify_ata_def Let_def probed_def [symmetric] fb(1) prod.case
    using fb(2) h4(1) by (simp add: probe_writes_def)
  then show ?thesis using h4(2) v2 i by simp
qed

end

end
