(* ===== verification/Vfs_Blocks.thy ===== *)
theory Vfs_Blocks
  imports Vfs_Device
begin

text \<open>
  Transfers of several sectors at once: the contract a driver keeps when one call may move up to
  255 sectors. It extends the contract of \<^theory_text>\<open>Vfs_Device\<close>, which speaks of single sectors.
\<close>

definition stores_blocks ::
  "nat \<Rightarrow> ('d \<Rightarrow> bool) \<Rightarrow> ('d \<Rightarrow> nat \<Rightarrow> byte list) \<Rightarrow> 'd READ_DEVICE \<Rightarrow> 'd WRITE_DEVICE \<Rightarrow> bool" where
  "stores_blocks n I view rd wr \<longleftrightarrow>
     (\<forall>d. I d \<longrightarrow> (\<forall>k<n. length (view d k) = 512)
        \<and> (\<forall>lba cnt buf. 0 < unat cnt \<and> unat cnt \<le> 255 \<and> unat lba + unat cnt \<le> n \<and> length buf = 512 * unat cnt \<longrightarrow>
             (\<exists>d'. rd d buf cnt lba = Some (E_DEVICE_OK, concat (map (view d) [unat lba..<unat lba + unat cnt]), d')
                \<and> I d' \<and> (\<forall>k<n. view d' k = view d k))
           \<and> (\<exists>d'. wr d buf cnt lba = Some (E_DEVICE_OK, d') \<and> I d'
                \<and> (\<forall>k<n. view d' k = (if unat lba \<le> k \<and> k < unat lba + unat cnt
                     then take 512 (drop (512 * (k - unat lba)) buf) else view d k)))))"

lemma stores_blocks_readE:
  assumes "stores_blocks n I view rd wr" "I d" "0 < unat cnt" "unat cnt \<le> 255" "unat lba + unat cnt \<le> n"
    and "length buf = 512 * unat cnt"
  obtains d' where "rd d buf cnt lba = Some (E_DEVICE_OK, concat (map (view d) [unat lba..<unat lba + unat cnt]), d')"
    "I d'" "\<forall>k<n. view d' k = view d k"
  using assms unfolding stores_blocks_def by metis

lemma stores_blocks_writeE:
  assumes "stores_blocks n I view rd wr" "I d" "0 < unat cnt" "unat cnt \<le> 255" "unat lba + unat cnt \<le> n"
    and "length buf = 512 * unat cnt"
  obtains d' where "wr d buf cnt lba = Some (E_DEVICE_OK, d')" "I d'"
    "\<forall>k<n. view d' k = (if unat lba \<le> k \<and> k < unat lba + unat cnt
       then take 512 (drop (512 * (k - unat lba)) buf) else view d k)"
  using assms unfolding stores_blocks_def by metis

lemma stores_blocks_length: "stores_blocks n I view rd wr \<Longrightarrow> I d \<Longrightarrow> k < n \<Longrightarrow> length (view d k) = 512"
  unfolding stores_blocks_def by blast

lemma stores_blocks_sectors:
  assumes st: "stores_blocks n I view rd wr"
  shows "stores_sectors n I view rd wr"
  unfolding stores_sectors_def
proof (intro allI impI conjI)
  fix d and lba :: u32 and buf :: "byte list"
  assume d: "I d" and l: "unat lba < n"
  have one: "0 < unat (1 :: u32)" "unat (1 :: u32) \<le> 255" "unat lba + unat (1 :: u32) \<le> n" using l by simp_all
  show "length (view d (unat lba)) = 512" using stores_blocks_length [OF st d l] .
  assume b: "length buf = 512"
  then have B: "length buf = 512 * unat (1 :: u32)" by simp
  have c: "concat (map (view d) [unat lba..<unat lba + unat (1 :: u32)]) = view d (unat lba)" by simp
  show "\<exists>d'. rd d buf 1 lba = Some (E_DEVICE_OK, view d (unat lba), d') \<and> I d' \<and> (\<forall>k<n. view d' k = view d k)"
    using stores_blocks_readE [OF st d one B] unfolding c by blast
  obtain d' where "wr d buf 1 lba = Some (E_DEVICE_OK, d')" "I d'"
    "\<forall>k<n. view d' k = (if unat lba \<le> k \<and> k < unat lba + unat (1 :: u32)
       then take 512 (drop (512 * (k - unat lba)) buf) else view d k)"
    using stores_blocks_writeE [OF st d one B] by blast
  then show "\<exists>d'. wr d buf 1 lba = Some (E_DEVICE_OK, d') \<and> I d'
      \<and> (\<forall>k<n. view d' k = (if k = unat lba then buf else view d k))"
    using b by (intro exI [of _ d']) auto
qed

text \<open>A descriptor whose driver keeps the contract.\<close>

definition good_blocks :: "nat \<Rightarrow> 'd VFS_DEVICE \<Rightarrow> bool" where
  "good_blocks n dv \<longleftrightarrow> n \<le> 2 ^ 32 \<and>
     (\<exists>I view rd wr. read_m dv = Some rd \<and> write_m dv = Some wr \<and> stores_blocks n I view rd wr \<and> I (device_data dv))"

lemma good_blocks_device: "good_blocks n dv \<Longrightarrow> good_device n dv"
  unfolding good_blocks_def good_device_def using stores_blocks_sectors by blast

lemma good_blocks_length: "good_blocks n dv \<Longrightarrow> k < n \<Longrightarrow> length (sector dv k) = 512"
  using sector_length [OF good_readable [OF good_blocks_device]] good_blocks_def by blast

lemma map_sector_view:
  assumes m: "read_m dv = Some rd" and st: "stores_blocks n I view rd wr" and i: "I (device_data dv)"
    and b: "b \<le> n" "n \<le> 2 ^ 32"
  shows "map (sector dv) [a..<b] = map (view (device_data dv)) [a..<b]"
  using sector_eq_view [OF m stores_blocks_sectors [OF st] i] b by simp

text \<open>The sectors of two devices agree.\<close>

definition same_disk :: "nat \<Rightarrow> 'd VFS_DEVICE \<Rightarrow> 'd VFS_DEVICE \<Rightarrow> bool" where
  "same_disk n dv dv' \<longleftrightarrow> good_blocks n dv' \<and> (\<forall>k<n. sector dv' k = sector dv k)"

lemma same_disk_refl: "good_blocks n dv \<Longrightarrow> same_disk n dv dv"
  by (simp add: same_disk_def)

lemma same_disk_trans: "same_disk n a b \<Longrightarrow> same_disk n b c \<Longrightarrow> same_disk n a c"
  by (simp add: same_disk_def)

lemma blocks_read:
  assumes g: "good_blocks n dv" and c: "0 < unat cnt" "unat cnt \<le> 255" "unat lba + unat cnt \<le> n"
    and b: "length buf = 512 * unat cnt"
  obtains rd d' where "read_m dv = Some rd"
    "rd (device_data dv) buf cnt lba = Some (E_DEVICE_OK, concat (map (sector dv) [unat lba..<unat lba + unat cnt]), d')"
    "same_disk n dv (dv\<lparr>device_data := d'\<rparr>)"
proof -
  obtain I view rd wr where m: "read_m dv = Some rd" "write_m dv = Some wr" "stores_blocks n I view rd wr" "I (device_data dv)"
    and n: "n \<le> 2 ^ 32" using g unfolding good_blocks_def by blast
  obtain d' where d: "rd (device_data dv) buf cnt lba
      = Some (E_DEVICE_OK, concat (map (view (device_data dv)) [unat lba..<unat lba + unat cnt]), d')"
    "I d'" "\<forall>k<n. view d' k = view (device_data dv) k"
    using stores_blocks_readE [OF m(3,4) c b] by blast
  have s: "sector dv k = view (device_data dv) k" "sector (dv\<lparr>device_data := d'\<rparr>) k = view d' k" if "k < n" for k
    using sector_eq_view [OF m(1) stores_blocks_sectors [OF m(3)] m(4) that n]
      sector_eq_view [of "dv\<lparr>device_data := d'\<rparr>" rd, OF _ stores_blocks_sectors [OF m(3)] _ that n] m(1) d(2) by simp_all
  have "good_blocks n (dv\<lparr>device_data := d'\<rparr>)"
    unfolding good_blocks_def using m(1-3) d(2) n by auto
  then have "same_disk n dv (dv\<lparr>device_data := d'\<rparr>)" using s d(3) by (simp add: same_disk_def)
  then show ?thesis using that m(1) d(1) map_sector_view [OF m(1,3,4) c(3) n] by metis
qed

lemma blocks_write:
  assumes g: "good_blocks n dv" and c: "0 < unat cnt" "unat cnt \<le> 255" "unat lba + unat cnt \<le> n"
    and b: "length buf = 512 * unat cnt"
  obtains wr d' where "write_m dv = Some wr" "wr (device_data dv) buf cnt lba = Some (E_DEVICE_OK, d')"
    "good_blocks n (dv\<lparr>device_data := d'\<rparr>)"
    "\<forall>k<n. sector (dv\<lparr>device_data := d'\<rparr>) k = (if unat lba \<le> k \<and> k < unat lba + unat cnt
       then take 512 (drop (512 * (k - unat lba)) buf) else sector dv k)"
proof -
  obtain I view rd wr where m: "read_m dv = Some rd" "write_m dv = Some wr" "stores_blocks n I view rd wr" "I (device_data dv)"
    and n: "n \<le> 2 ^ 32" using g unfolding good_blocks_def by blast
  obtain d' where d: "wr (device_data dv) buf cnt lba = Some (E_DEVICE_OK, d')" "I d'"
    "\<forall>k<n. view d' k = (if unat lba \<le> k \<and> k < unat lba + unat cnt
       then take 512 (drop (512 * (k - unat lba)) buf) else view (device_data dv) k)"
    using stores_blocks_writeE [OF m(3,4) c b] by blast
  have s: "sector dv k = view (device_data dv) k" "sector (dv\<lparr>device_data := d'\<rparr>) k = view d' k" if "k < n" for k
    using sector_eq_view [OF m(1) stores_blocks_sectors [OF m(3)] m(4) that n]
      sector_eq_view [of "dv\<lparr>device_data := d'\<rparr>" rd, OF _ stores_blocks_sectors [OF m(3)] _ that n] m(1) d(2) by simp_all
  have "good_blocks n (dv\<lparr>device_data := d'\<rparr>)"
    unfolding good_blocks_def using m(1-3) d(2) n by auto
  then show ?thesis using that m(2) d(1,3) s by simp
qed

end
