(* ===== verification/Ata_Theorems.thy ===== *)
theory Ata_Theorems
  imports Ata_Identify Vfs_Blocks
begin

text \<open>
  The properties of the ATA driver, with a drive that behaves as documented: a master drive of
  1000 sectors, alone on its channel, that is busy for some status reads after a command and
  between sectors, and for \<open>t\<close> status reads after the last sector of a write. What is sent to it
  while it is busy or transferring is lost.
\<close>

subsection \<open>A drive\<close>

definition sim_sector :: "DRIVE \<Rightarrow> nat \<Rightarrow> byte list" where
  "sim_sector s l = take 512 (disk s l @ replicate 512 0)"

definition sim_view :: "DRIVE \<Rightarrow> DRIVE" where
  "sim_view s = s\<lparr>disk := sim_sector s\<rparr>"

definition sim_out :: "u16 \<Rightarrow> byte \<Rightarrow> DRIVE \<Rightarrow> DRIVE" where
  "sim_out p b s =
     (if xfer s \<noteq> Idle \<or> busy s \<noteq> 0 then s
      else if p = 0x1F2 then s\<lparr>r_count := b\<rparr>
      else if p = 0x1F3 then s\<lparr>r_lo := b\<rparr>
      else if p = 0x1F4 then s\<lparr>r_mid := b\<rparr>
      else if p = 0x1F5 then s\<lparr>r_hi := b\<rparr>
      else if p = 0x1F6 then s\<lparr>r_drive := b\<rparr>
      else if p \<noteq> 0x1F7 \<or> \<not> selects 0 s then s
      else if b = 0xEC then s\<lparr>xfer := Identifying 0, busy := 3\<rparr>
      else if \<not> bit (r_drive s) 6 then s
      else if b = 0x20 then s\<lparr>xfer := Reading (lba_of s) (count_of s) 0, busy := 3\<rparr>
      else if b = 0x30 then s\<lparr>xfer := Writing (lba_of s) (count_of s) [], busy := 1\<rparr>
      else s)"

definition sim_in :: "u16 \<Rightarrow> DRIVE \<Rightarrow> byte \<times> DRIVE" where
  "sim_in p s =
     (if \<not> selects 0 s then (0, s)
      else if p = 0x1F7
      then (if 0 < busy s then 0xC0 else if xfer s = Idle then 0x50 else 0x58, s\<lparr>busy := busy s - 1\<rparr>)
      else if p = 0x1F4 then (r_mid s, s)
      else if p = 0x1F5 then (r_hi s, s)
      else (0, s))"

definition sim_word_in :: "u16 \<Rightarrow> DRIVE \<Rightarrow> u16 \<times> DRIVE" where
  "sim_word_in p s =
     (if p \<noteq> 0x1F0 \<or> busy s \<noteq> 0 then (0, s)
      else case xfer s of
        Reading l c i \<Rightarrow>
          (le16 (sim_sector s l ! (2 * i)) (sim_sector s l ! (2 * i + 1)),
           if i < 255 then s\<lparr>xfer := Reading l c (i + 1)\<rparr>
           else s\<lparr>xfer := after_read l c, busy := if c \<le> 1 then 0 else 2\<rparr>)
      | Identifying i \<Rightarrow> (ident s i, s\<lparr>xfer := if i < 255 then Identifying (i + 1) else Idle\<rparr>)
      | _ \<Rightarrow> (0, s))"

definition sim_word_out :: "nat \<Rightarrow> u16 \<Rightarrow> u16 \<Rightarrow> DRIVE \<Rightarrow> DRIVE" where
  "sim_word_out t p w s =
     (case xfer s of
        Writing l c bs \<Rightarrow>
          if p = 0x1F0 \<and> busy s = 0
          then if length bs + 2 < 512 then s\<lparr>xfer := Writing l c (bs @ bytes16 w)\<rparr>
               else s\<lparr>disk := (disk s)(l := bs @ bytes16 w), xfer := after_write l c, busy := if c \<le> 1 then t else 5\<rparr>
          else s
      | _ \<Rightarrow> s)"

definition sim_ports :: "nat \<Rightarrow> DRIVE PORTS" where
  "sim_ports t = \<lparr>port_byte_in = sim_in, port_byte_out = sim_out, port_word_in = sim_word_in, port_word_out = sim_word_out t\<rparr>"

lemma sim_ports_sel [simp]: "port_byte_in (sim_ports t) = sim_in" "port_byte_out (sim_ports t) = sim_out"
  "port_word_in (sim_ports t) = sim_word_in" "port_word_out (sim_ports t) = sim_word_out t"
  by (simp_all add: sim_ports_def)

lemma sim_view_sel [simp]:
  "disk (sim_view s) = sim_sector s" "xfer (sim_view s) = xfer s" "busy (sim_view s) = busy s"
  "r_drive (sim_view s) = r_drive s" "r_mid (sim_view s) = r_mid s" "r_hi (sim_view s) = r_hi s"
  "ident (sim_view s) = ident s" "lba_of (sim_view s) = lba_of s" "count_of (sim_view s) = count_of s"
  "selects b (sim_view s) = selects b s"
  by (simp_all add: sim_view_def lba_of_def count_of_def)

lemma sim_view_update [simp]:
  "sim_view (s\<lparr>xfer := x\<rparr>) = (sim_view s)\<lparr>xfer := x\<rparr>" "sim_view (s\<lparr>busy := k\<rparr>) = (sim_view s)\<lparr>busy := k\<rparr>"
  "sim_view (s\<lparr>r_drive := b\<rparr>) = (sim_view s)\<lparr>r_drive := b\<rparr>" "sim_view (s\<lparr>r_count := b\<rparr>) = (sim_view s)\<lparr>r_count := b\<rparr>"
  "sim_view (s\<lparr>r_lo := b\<rparr>) = (sim_view s)\<lparr>r_lo := b\<rparr>" "sim_view (s\<lparr>r_mid := b\<rparr>) = (sim_view s)\<lparr>r_mid := b\<rparr>"
  "sim_view (s\<lparr>r_hi := b\<rparr>) = (sim_view s)\<lparr>r_hi := b\<rparr>"
  by (simp_all add: sim_view_def sim_sector_def [abs_def])

lemma sim_view_store:
  "length bs = 512 \<Longrightarrow> sim_view (s\<lparr>disk := (disk s)(l := bs)\<rparr>) = (sim_view s)\<lparr>disk := (sim_sector s)(l := bs)\<rparr>"
  by (auto simp: sim_view_def sim_sector_def [abs_def] fun_eq_iff)

lemma sim_drive: "lone_master (sim_ports t) sim_view 0x1F0 n"
proof
  fix h l c bs and w :: u16
  assume "xfer (sim_view h) = Writing l c bs" "busy (sim_view h) = 0" "length bs \<le> 510"
  then show "if length bs + 2 < 512 then sim_view (port_word_out (sim_ports t) 0x1F0 w h) = (sim_view h)\<lparr>xfer := Writing l c (bs @ bytes16 w)\<rparr>
      else \<exists>k. sim_view (port_word_out (sim_ports t) 0x1F0 w h)
           = (sim_view h)\<lparr>disk := (disk (sim_view h))(l := bs @ bytes16 w), xfer := after_write l c, busy := k\<rparr>"
    using sim_view_store [of "bs @ bytes16 w" h l] by (auto simp: sim_word_out_def)
next
  fix h l c i
  assume "xfer (sim_view h) = Reading l c i" "busy (sim_view h) = 0" "i < 256"
  then show "\<exists>h'. port_word_in (sim_ports t) 0x1F0 h = (le16 (disk (sim_view h) l ! (2 * i)) (disk (sim_view h) l ! (2 * i + 1)), h')
        \<and> (if i < 255 then sim_view h' = (sim_view h)\<lparr>xfer := Reading l c (i + 1)\<rparr>
           else \<exists>k. sim_view h' = (sim_view h)\<lparr>xfer := after_read l c, busy := k\<rparr> \<and> (c \<le> 1 \<longrightarrow> k = 0))"
    by (auto simp: sim_word_in_def)
qed (auto simp: sim_out_def sim_in_def sim_word_in_def sim_sector_def)

lemma sim_settles: "t \<le> 15 \<Longrightarrow> settles (sim_ports t) sim_view 0x1F0"
  by (auto simp: settles_def sim_word_out_def)

interpretation sim: lone_master "sim_ports 5" sim_view "0x1F0" "1000"
  by (rule sim_drive)

definition demo_drive :: "DRIVE \<times> ATA_DEVICE" where
  "demo_drive = (\<lparr>disk = (\<lambda>l. replicate 512 (of_nat l)), r_drive = 0, r_count = 0, r_lo = 0, r_mid = 0, r_hi = 0,
       xfer = Idle, busy = 0, ident = (\<lambda>i. if i = 60 then 1000 else 0)\<rparr>,
     \<lparr>default_mode = ATA_PIO, addressing_mode = ATA_LBA28, port_base = 0x1F0, control_base = 0x3F6,
       drive = ATA_MASTER, addressable_sectors = 1000\<rparr>)"

lemma demo_drive_ready: "sim.ready demo_drive"
  by (simp add: sim.ready_def sim.good_dev_def demo_drive_def)

lemma demo_drive_sectors: "sim_sector (fst demo_drive) l = replicate 512 (of_nat l)"
  by (simp add: sim_sector_def demo_drive_def)

subsection \<open>Transfers\<close>

text \<open>C24. Whatever the time a drive that obeys the ATA protocol takes: a transfer of 1 to 255 sectors
  by \<^verbatim>\<open>ata_pio_read\<close> or \<^verbatim>\<open>ata_pio_write\<close> to an idle drive ends and reports success. A read delivers
  exactly the addressed sectors into the buffer, leaves the rest of the buffer and the disk, and
  the drive is ready again. A write stores the sectors of the buffer at the address and leaves the
  others, and no command is left; but the driver does not wait for the drive, which is ready for
  the next command only once it is not busy.\<close>

theorem ata_transfers_sectors:
  assumes "ata_drive P view pb sel n" "n \<le> 2 ^ 28" "ata_drive.ready view pb sel d"
    and "0 < unat cnt" "unat cnt \<le> 255" "unat lba + unat cnt \<le> n" "512 * unat cnt \<le> length buf"
  shows "(\<exists>d'. ata_pio_read P d buf cnt lba
        = Some (E_DEVICE_OK, patch buf 0 (concat (map (disk (view (fst d))) [unat lba..<unat lba + unat cnt])), d')
      \<and> disk (view (fst d')) = disk (view (fst d)) \<and> ata_drive.ready view pb sel d')
    \<and> (\<exists>d'. ata_pio_write P d buf cnt lba = Some (E_DEVICE_OK, d')
      \<and> disk (view (fst d')) = (\<lambda>k. if unat lba \<le> k \<and> k < unat lba + unat cnt
           then take 512 (drop (512 * (k - unat lba)) buf) else disk (view (fst d)) k)
      \<and> xfer (view (fst d')) = Idle \<and> (busy (view (fst d')) = 0 \<longrightarrow> ata_drive.ready view pb sel d'))"
proof (rule conjI, goal_cases)
  case 1
  show ?case using ata_drive.ata_read_ok [OF assms(1,3-6,2,7)] by blast
next
  case 2
  note W = ata_drive.ata_write_ok [OF assms(1,3-6,2,7), unfolded ata_drive.stored_def [OF assms(1)] add_0]
  then show ?case by (elim ex_forward conjE) (intro conjI; assumption)
qed

theorem ata_transfers_sectors_witness:
  "(\<exists>d'. ata_pio_read (sim_ports 100) demo_drive (replicate 1500 9) 2 5
      = Some (E_DEVICE_OK, replicate 512 5 @ replicate 512 6 @ replicate 476 9, d'))
    \<and> (\<exists>d'. ata_pio_write (sim_ports 100) demo_drive (replicate 1500 9) 2 5 = Some (E_DEVICE_OK, d')
      \<and> sim_sector (fst d') 4 = replicate 512 4 \<and> sim_sector (fst d') 6 = replicate 512 9
      \<and> sim_sector (fst d') 7 = replicate 512 7)"
  using ata_transfers_sectors [OF lone_master.axioms(1) [OF sim_drive [where t = 100 and n = 1000]] _ demo_drive_ready,
      of 2 5 "replicate 1500 9"]
  by (auto simp: demo_drive_sectors patch_def upt_rec)

text \<open>
  What happens when the next command comes too early: a read that finds the drive still busy
  with the end of a write is not seen by it. The driver waits, sees no error and an idle drive,
  takes 256 words from the data register, and reports success.
\<close>

lemma sim_no_data:
  assumes "port_base dv = 0x1F0" "xfer s = Idle" "pos + 512 \<le> length buf" "j \<le> 256"
  shows "ata_read_bytes (sim_ports t) dv buf pos (2 * j) 512 s = Some (patch buf (pos + 2 * j) (replicate (512 - 2 * j) 0), s)"
  using assms(3-)
proof (induction "256 - j" arbitrary: j buf)
  case 0
  then show ?case by (subst ata_read_bytes.simps) simp
next
  case (Suc m)
  then have j: "j < 256" by simp
  let ?buf = "buf[pos + 2 * j + 1 := 0, pos + 2 * j := 0]"
  have IH: "ata_read_bytes (sim_ports t) dv ?buf pos (2 * (j + 1)) 512 s
      = Some (patch ?buf (pos + 2 * (j + 1)) (replicate (512 - 2 * (j + 1)) 0), s)"
    by (rule Suc.hyps(1)) (use Suc.hyps(2) Suc.prems in simp_all)
  have "replicate (512 - 2 * j) 0 = (0 :: byte) # 0 # replicate (512 - 2 * (j + 1)) 0"
  proof -
    have "512 - 2 * j = Suc (Suc (512 - 2 * (j + 1)))" using j by simp
    then show ?thesis by simp
  qed
  then have "patch ?buf (pos + 2 * (j + 1)) (replicate (512 - 2 * (j + 1)) 0) = patch buf (pos + 2 * j) (replicate (512 - 2 * j) 0)"
    using patch_two [of "pos + 2 * j" "replicate (512 - 2 * (j + 1)) 0" buf 0 0] Suc.prems j by simp
  moreover have "ata_read_bytes (sim_ports t) dv buf pos (2 * j) 512 s = ata_read_bytes (sim_ports t) dv ?buf pos (2 * (j + 1)) 512 s"
    using assms(1,2) Suc.prems j
    by (subst ata_read_bytes.simps) (simp add: ata_read_data_def sim_word_in_def)
  ultimately show ?case using IH by simp
qed

lemma busy_drive_loses_read:
  assumes "xfer s = Idle" "0 < busy s" "selects 0 s" "sim.good_dev dv" "length buf = 512"
  shows "\<exists>s'. ata_pio_read (sim_ports 5) (s, dv) buf 1 lba = Some (E_DEVICE_OK, replicate 512 0, (s', dv)) \<and> sim_sector s' = sim_sector s"
proof -
  have d: "addressing_mode dv = ATA_LBA28" "port_base dv = 0x1F0" using assms(4) by (simp_all add: sim.good_dev_def)
  have c: "issue_command (sim_ports 5) dv (ucast (1 :: u32)) lba 0x20 (select_lba (sim_ports 5) dv lba s) = s"
    using assms(1,2) d by (simp add: issue_command_def select_lba_def ata_write_reg_def sim_out_def)
  obtain st h1 st' h2 where p: "ata_read_reg (sim_ports 5) dv ATA_STATUS_REGISTER s = (st, h1)"
    "ata_poll (sim_ports 5) dv st h1 = Some (st', h2)" "st' AND 0x21 = 0" "sim_view h2 = (sim_view s)\<lparr>busy := 0\<rparr>"
    using sim.poll_ok [OF assms(4), of s] assms(3) by auto
  have h2: "xfer h2 = Idle" "selects 0 h2" "sim_sector h2 = sim_sector s"
    using arg_cong [OF p(4), of xfer] arg_cong [OF p(4), of "selects 0"] arg_cong [OF p(4), of disk] assms(1,3) by simp_all
  have b: "ata_read_bytes (sim_ports 5) dv buf 0 0 512 h2 = Some (replicate 512 0, h2)"
    using sim_no_data [of dv h2 0 buf 0 5] d h2(1) assms(5) by simp
  have "sim_view (status_reads (sim_ports 5) dv 15 h2) = (sim_view h2)\<lparr>busy := busy (sim_view h2) - 15\<rparr>"
    using sim.status_reads_ok [OF assms(4), of h2 15] h2(2) by simp
  then have "sim_sector (status_reads (sim_ports 5) dv 15 h2) = sim_sector s" by (metis sim_view_sel(1) DRIVE.select_convs(1) h2(3) DRIVE.surjective DRIVE.update_convs(8))
  moreover have "ata_pio_read (sim_ports 5) (s, dv) buf 1 lba
      = Some (E_DEVICE_OK, replicate 512 0, (status_reads (sim_ports 5) dv 15 h2, dv))"
    using p(1-3) b c by (simp add: ata_pio_read_def Let_def del: status_reads.simps)
  ultimately show ?thesis by blast
qed

subsection \<open>The device layer\<close>

lemma ata_stores_blocks:
  assumes a: "ata_drive P view pb sel n" and n: "n \<le> 2 ^ 28" and q: "settles P view pb"
  shows "stores_blocks n (ata_drive.ready view pb sel) (\<lambda>d. disk (view (fst d))) (ata_pio_read P) (ata_pio_write P)"
  unfolding stores_blocks_def
proof (intro allI impI conjI; (elim conjE)?)
  fix d :: "'a \<times> ATA_DEVICE" assume r: "ata_drive.ready view pb sel d"
  have len: "length (disk (view h) k) = 512" if "k < n" for h k using ata_drive.sector_size [OF a that] .
  show "length (disk (view (fst d)) k) = 512" if "k < n" for k using len that .
  fix lba cnt :: u32 and buf :: "byte list"
  assume c: "0 < unat cnt" "unat cnt \<le> 255" and l: "unat lba + unat cnt \<le> n" and b: "length buf = 512 * unat cnt"
  have "length (concat (map (disk (view (fst d))) [x..<y])) = 512 * (y - x)" if "x \<le> y" "y \<le> n" for x y
    using that by (induction y) (auto simp: le_Suc_eq len)
  then have D: "patch buf 0 (concat (map (disk (view (fst d))) [unat lba..<unat lba + unat cnt]))
      = concat (map (disk (view (fst d))) [unat lba..<unat lba + unat cnt])" using b l by (intro patch_whole) simp
  show "\<exists>d'. ata_pio_read P d buf cnt lba
      = Some (E_DEVICE_OK, concat (map (disk (view (fst d))) [unat lba..<unat lba + unat cnt]), d')
    \<and> ata_drive.ready view pb sel d' \<and> (\<forall>k<n. disk (view (fst d')) k = disk (view (fst d)) k)"
    using ata_drive.ata_read_ok [OF a r c l n, of buf] b D by auto
  show "\<exists>d'. ata_pio_write P d buf cnt lba = Some (E_DEVICE_OK, d') \<and> ata_drive.ready view pb sel d'
    \<and> (\<forall>k<n. disk (view (fst d')) k = (if unat lba \<le> k \<and> k < unat lba + unat cnt
         then take 512 (drop (512 * (k - unat lba)) buf) else disk (view (fst d)) k))"
    using ata_drive.ata_write_ok [OF a r c l n, of buf] b q by (auto simp: ata_drive.stored_def [OF a])
qed

text \<open>
  On a drive that has taken in the last sector of a write within the 15 status reads behind it, the
  descriptor made of \<^verbatim>\<open>ata_pio_read\<close> and \<^verbatim>\<open>ata_pio_write\<close> stores sectors, one at a time and up to
  255 at once, as the VFS and the file systems require; for reading alone every drive will do.
\<close>

lemma ata_device_stores_sectors:
  assumes "ata_drive P view pb sel n" "n \<le> 2 ^ 28" "settles P view pb" "ata_drive.ready view pb sel d"
  shows "good_blocks n \<lparr>device_data = d, read_m = Some (ata_pio_read P), write_m = Some (ata_pio_write P)\<rparr>
    \<and> good_device n \<lparr>device_data = d, read_m = Some (ata_pio_read P), write_m = Some (ata_pio_write P)\<rparr>"
proof -
  have "good_blocks n \<lparr>device_data = d, read_m = Some (ata_pio_read P), write_m = Some (ata_pio_write P)\<rparr>"
    unfolding good_blocks_def using ata_stores_blocks [OF assms(1-3)] assms(2,4)
    by (auto intro!: exI [of _ "ata_drive.ready view pb sel"])
  then show ?thesis using good_blocks_device by blast
qed

lemma sim_device_stores_sectors:
  "good_device 1000 \<lparr>device_data = demo_drive, read_m = Some (ata_pio_read (sim_ports 5)), write_m = Some (ata_pio_write (sim_ports 5))\<rparr>"
  using ata_device_stores_sectors [OF sim.ata_drive_axioms _ sim_settles demo_drive_ready] by simp

lemma ata_device_readable:
  assumes "ata_drive P view pb sel n" "n \<le> 2 ^ 28" "ata_drive.ready view pb sel d"
  shows "readable_device n \<lparr>device_data = d, read_m = Some (ata_pio_read P), write_m = wr\<rparr>"
  unfolding readable_device_def using ata_drive.ata_reads_sectors [OF assms(1,2), of "snd d"] assms(3)
  by (auto intro!: exI [of _ "\<lambda>d'. ata_drive.ready view pb sel d' \<and> snd d' = snd d"])

text \<open>A read of a multiple of 256 sectors reports success and transfers nothing: the loop over
  the sectors of a command runs \<^verbatim>\<open>sectors & 0xFF\<close> times.\<close>

theorem ata_pio_read_full_commands:
  assumes "sectors mod 256 = 0"
  shows "\<exists>h'. ata_pio_read P (h, dv) buf sectors lba = Some (E_DEVICE_OK, buf, (h', dv))"
proof -
  have "sectors AND mask 8 = 0"
    using assms by (simp add: take_bit_eq_mod flip: take_bit_eq_mask)
  then have z: "unat (sectors AND 0xFF) = 0" by (simp add: mask_eq_exp_minus_1)
  have "\<exists>h'. read_commands P dv amount 0 sectors lba ks buf pos h = Some (E_DEVICE_OK, buf, h')" for amount ks pos h
  proof (induction ks arbitrary: h)
    case (Cons k ks)
    then show ?case using z by (auto simp: Let_def)
  qed simp
  then obtain h' where "read_commands P dv (unat (sectors div 256)) 0 sectors lba
      [0..<unat (sectors div 256) + 1] buf 0 h = Some (E_DEVICE_OK, buf, h')" by blast
  then show ?thesis unfolding ata_pio_read_def assms by auto
qed

theorem ata_pio_read_full_commands_witness:
  "\<exists>h'. ata_pio_read (sim_ports 5) demo_drive (replicate 131072 7) 256 5
    = Some (E_DEVICE_OK, replicate 131072 7, (h', snd demo_drive))"
  using ata_pio_read_full_commands [of 256 "sim_ports 5" "fst demo_drive" "snd demo_drive"] by simp

end
