(* ===== verification/Ata_Init.thy ===== *)
theory Ata_Init
  imports Ata_Theorems Vfs_Theorems
begin

text \<open>
  \<^verbatim>\<open>ata_init\<close> of \<^verbatim>\<open>drivers/ata/ata.c\<close>: the two drives of the channel are identified, registered as
  devices, and searched for partitions. On a machine whose only drive is a master with a
  formatted disk the initialisation mounts it; a simulated drive shows that such machines exist.
\<close>

subsection \<open>Initialisation\<close>

type_synonym 'h ata_vfs = "('h, ATA_DEVICE) vfs"

text \<open>
  One drive: identify and register it, then search the device \<^verbatim>\<open>device\<close> points to. The pointer
  is the index of the device in the table; it is not initialised when no registration has
  succeeded.
\<close>

definition ata_init_drive ::
  "'h PORTS \<Rightarrow> FAT32_PARTITION \<Rightarrow> ATA_DEVICE \<Rightarrow> byte \<Rightarrow> nat option \<Rightarrow> 'h ata_vfs \<Rightarrow> (nat \<times> nat option \<times> 'h ata_vfs) option" where
  "ata_init_drive P mem dv drv current v = do {
     (d, dv, h) \<leftarrow> identify_ata P dv 0x1F0 0x3F6 drv (hardware v);
     let v = v\<lparr>hardware := h\<rparr>;
     (current, v) \<leftarrow>
       (if d = 0
        then do {
          (_, devs, index) \<leftarrow>
            vfs_device_register (virtual_devices v) (Some dv) (Some (ata_pio_read P)) (Some (ata_pio_write P));
          Some (case index of None \<Rightarrow> current | Some k \<Rightarrow> Some k, v\<lparr>virtual_devices := devs\<rparr>)
        }
        else Some (current, v));
     index \<leftarrow> current;
     (_, _, _, v) \<leftarrow> vfs_partitions_find_on_device v mem (Some index) PARTITION_FORMAT_FAT32;
     Some (d, current, v)
   }"

definition ata_init ::
  "'h PORTS \<Rightarrow> FAT32_PARTITION \<Rightarrow> FAT32_PARTITION \<Rightarrow> ATA_DEVICE \<Rightarrow> ATA_DEVICE \<Rightarrow> 'h ata_vfs \<Rightarrow> (bool \<times> 'h ata_vfs) option" where
  "ata_init P mem1 mem2 dv1 dv2 v = do {
     (d1, current, v) \<leftarrow> ata_init_drive P mem1 dv1 ATA_MASTER None v;
     (d2, current, v) \<leftarrow> ata_init_drive P mem2 dv2 ATA_SLAVE current v;
     Some (d1 \<noteq> 0 \<and> d2 \<noteq> 0, v)
   }"

subsection \<open>One drive in the table\<close>

text \<open>What \<^verbatim>\<open>ata_init\<close> starts with, and the table with the device of the master.\<close>

definition no_devices :: "'h \<Rightarrow> 'h ata_vfs" where
  "no_devices h = \<lparr>hardware = h, virtual_devices = [], partitions = []\<rparr>"

definition ata_table :: "'h PORTS \<Rightarrow> ATA_DEVICE \<Rightarrow> 'h \<Rightarrow> VFS_PARTITION list \<Rightarrow> 'h ata_vfs" where
  "ata_table P dm h parts = \<lparr>hardware = h,
     virtual_devices = [\<lparr>device_data = dm, read_m = Some (ata_pio_read P), write_m = Some (ata_pio_write P)\<rparr>],
     partitions = parts\<rparr>"

definition master_device :: "ATA_DEVICE \<Rightarrow> (nat \<Rightarrow> u16) \<Rightarrow> ATA_DEVICE" where
  "master_device dv ws = (probed dv 0x1F0 0x3F6 ATA_MASTER)\<lparr>addressable_sectors := sectors_of ws\<rparr>"

definition ata_partition :: "nat \<Rightarrow> FAT32_PARTITION \<Rightarrow> byte list \<Rightarrow> VFS_PARTITION" where
  "ata_partition i mem boot = \<lparr>part_letter = ch CHR ''A'' + of_nat i,
     part_data = init_partition mem (boot_record_of_bytes boot), part_device = 0\<rparr>"

lemma ata_table_sel [simp]: "hardware (ata_table P dm h parts) = h" "partitions (ata_table P dm h parts) = parts"
  "length (virtual_devices (ata_table P dm h parts)) = 1"
  "device_at (ata_table P dm h parts) 0 = \<lparr>device_data = (h, dm), read_m = Some (ata_pio_read P), write_m = Some (ata_pio_write P)\<rparr>"
  by (simp_all add: ata_table_def device_at_def)

lemma ata_table_update [simp]:
  "(ata_table P dm h parts)\<lparr>hardware := h'\<rparr> = ata_table P dm h' parts"
  "(ata_table P dm h parts)\<lparr>partitions := parts'\<rparr> = ata_table P dm h parts'"
  "put_device (ata_table P dm h parts) 0 \<lparr>device_data = (h', dm), read_m = Some (ata_pio_read P), write_m = Some (ata_pio_write P)\<rparr>
     = ata_table P dm h' parts"
  by (simp_all add: ata_table_def put_device_def)

lemma master_device_ready:
  "ata_drive P view 0x1F0 0 n \<Longrightarrow>
   ata_drive.ready view 0x1F0 0 (h, master_device dv ws) \<longleftrightarrow> xfer (view h) = Idle \<and> busy (view h) = 0"
  by (simp add: ata_drive.ready_def ata_drive.good_dev_def master_device_def)

text \<open>Searching the device of the table mounts the disk once more and leaves the drive ready.\<close>

lemma ata_find:
  assumes a: "ata_drive P view 0x1F0 0 n" "n \<le> 2 ^ 28" and r: "ata_drive.ready view 0x1F0 0 (h, dm)"
    and f: "fat32_disk n (disk (view h))" and l: "length parts < MAX_PARTITIONS"
  shows "\<exists>h'. vfs_partitions_find_on_device (ata_table P dm h parts) mem (Some 0) PARTITION_FORMAT_FAT32
      = Some (E_PARTITION_OK, length parts + 1, 1, ata_table P dm h' (parts @ [ata_partition (length parts) mem (disk (view h) 0)]))
    \<and> ata_drive.ready view 0x1F0 0 (h', dm) \<and> (\<forall>k<n. disk (view h') k = disk (view h) k)"
proof -
  let ?v = "ata_table P dm h parts"
  note st = ata_drive.ata_reads_sectors [OF a, of dm]
  have I: "ata_drive.ready view 0x1F0 0 (device_data (device_at ?v 0)) \<and> snd (device_data (device_at ?v 0)) = dm"
    "read_m (device_at ?v 0) = Some (ata_pio_read P)" "0 < length (virtual_devices ?v)"
    "fat32_disk n (disk (view (fst (device_data (device_at ?v 0)))))" "length (partitions ?v) < MAX_PARTITIONS"
    using r f l by simp_all
  obtain d' where d': "fat32_find_partition ?v mem (Some 0) = Some (E_PARTITION_OK,
        (put_device ?v 0 (device_at ?v 0\<lparr>device_data := d'\<rparr>))\<lparr>partitions := partitions ?v
          @ [\<lparr>part_letter = ch CHR ''A'' + of_nat (length (partitions ?v)),
              part_data = init_partition mem (boot_record_of_bytes (disk (view (fst (device_data (device_at ?v 0)))) 0)), part_device = 0\<rparr>]\<rparr>)"
    "ata_drive.ready view 0x1F0 0 d'" "snd d' = dm" "\<forall>j<n. disk (view (fst d')) j = disk (view h) j"
    using find_partition_ok [OF st I, of mem] by auto
  obtain h' where h': "d' = (h', dm)" using d'(3) by (cases d') auto
  have "fat32_find_partition ?v mem (Some 0) = Some (E_PARTITION_OK,
      ata_table P dm h' (parts @ [ata_partition (length parts) mem (disk (view h) 0)]))"
    using d'(1) by (simp add: h' ata_partition_def)
  then show ?thesis
    using d'(2,4) by (intro exI [of _ h']) (simp add: h' vfs_partitions_find_on_device_def PARTITION_FORMAT_FAT32_def)
qed

lemma ata_init_single:
  assumes lm: "lone_master P view 0x1F0 n" "n \<le> 2 ^ 28" and i: "xfer (view h) = Idle" "busy (view h) = 0"
    and f: "fat32_disk n (disk (view h))"
  shows "\<exists>h'. ata_init P mem1 mem2 dv1 dv2 (no_devices h) = Some (False, ata_table P (master_device dv1 (ident (view h))) h'
        [ata_partition 0 mem1 (disk (view h) 0), ata_partition 1 mem2 (disk (view h) 0)])
    \<and> xfer (view h') = Idle \<and> busy (view h') = 0 \<and> (\<forall>k<n. disk (view h') k = disk (view h) k)"
proof -
  note a = lone_master.axioms(1) [OF lm(1)]
  let ?dm = "master_device dv1 (ident (view h))"
  note rd = master_device_ready [OF a]
  have n: "0 < n" using f by (simp add: fat32_disk_def)
  obtain h1 where h1: "identify_ata P dv1 0x1F0 0x3F6 ATA_MASTER h = Some (0, ?dm, h1)"
    "xfer (view h1) = Idle" "busy (view h1) = 0" "disk (view h1) = disk (view h)"
    using lone_master.identify_master [OF lm(1) i, of dv1 "0x3F6"] unfolding master_device_def by blast
  obtain h2 where h2: "vfs_partitions_find_on_device (ata_table P ?dm h1 []) mem1 (Some 0) PARTITION_FORMAT_FAT32
      = Some (E_PARTITION_OK, 1, 1, ata_table P ?dm h2 [ata_partition 0 mem1 (disk (view h) 0)])"
    "xfer (view h2) = Idle" "busy (view h2) = 0" "\<forall>k<n. disk (view h2) k = disk (view h) k"
    using ata_find [OF a lm(2), of h1 ?dm "[]" mem1] h1(2-4) f by (auto simp: rd MAX_PARTITIONS_def)
  have v1: "(no_devices h)\<lparr>hardware := h1, virtual_devices :=
      [\<lparr>device_data = ?dm, read_m = Some (ata_pio_read P), write_m = Some (ata_pio_write P)\<rparr>]\<rparr> = ata_table P ?dm h1 []"
    by (simp add: no_devices_def ata_table_def)
  have s1: "ata_init_drive P mem1 dv1 ATA_MASTER None (no_devices h)
      = Some (0, Some 0, ata_table P ?dm h2 [ata_partition 0 mem1 (disk (view h) 0)])"
    using h1(1) h2(1) v1 by (simp add: ata_init_drive_def vfs_device_register_def MAX_DEVICES_def Let_def no_devices_def)
  obtain h3 where h3: "identify_ata P dv2 0x1F0 0x3F6 ATA_SLAVE h2 = Some (4, probed dv2 0x1F0 0x3F6 ATA_SLAVE, h3)"
    "xfer (view h3) = Idle" "busy (view h3) = 0" "disk (view h3) = disk (view h2)"
    using lone_master.identify_slave [OF lm(1) h2(2,3), of dv2 "0x3F6"] by blast
  have e3: "\<forall>k<n. disk (view h3) k = disk (view h) k" using h2(4) h3(4) by simp
  have "fat32_disk n (disk (view h3))" by (rule fat32_disk_cong [OF f]) (use e3 in simp)
  then obtain h4 where h4: "vfs_partitions_find_on_device (ata_table P ?dm h3 [ata_partition 0 mem1 (disk (view h) 0)]) mem2
      (Some 0) PARTITION_FORMAT_FAT32 = Some (E_PARTITION_OK, 2, 1, ata_table P ?dm h4
        [ata_partition 0 mem1 (disk (view h) 0), ata_partition 1 mem2 (disk (view h3) 0)])"
    "xfer (view h4) = Idle" "busy (view h4) = 0" "\<forall>k<n. disk (view h4) k = disk (view h3) k"
    using ata_find [OF a lm(2), of h3 ?dm "[ata_partition 0 mem1 (disk (view h) 0)]" mem2] h3(2,3)
    by (auto simp: rd MAX_PARTITIONS_def)
  have s2: "ata_init_drive P mem2 dv2 ATA_SLAVE (Some 0) (ata_table P ?dm h2 [ata_partition 0 mem1 (disk (view h) 0)])
      = Some (4, Some 0, ata_table P ?dm h4 [ata_partition 0 mem1 (disk (view h) 0), ata_partition 1 mem2 (disk (view h) 0)])"
    using h3(1) h4(1) e3 n by (simp add: ata_init_drive_def Let_def)
  show ?thesis using s1 s2 h4(2-4) e3 by (intro exI [of _ h4]) (simp add: ata_init_def)
qed

text \<open>The volumes of such a table.\<close>

lemma ata_table_volume:
  assumes a: "ata_drive P view 0x1F0 0 n" "n \<le> 2 ^ 28" and r: "ata_drive.ready view 0x1F0 0 (h', dm)"
    and f: "fat32_disk n secs" and e: "\<forall>k<n. disk (view h') k = secs k"
    and p: "i < length parts" "parts ! i = ata_partition i mem (secs 0)" "length (buffer mem) = 128"
  shows "vol_state False n (volume_at (ata_table P dm h' parts) i)"
    "settles P view 0x1F0 \<Longrightarrow> vol_ok n (volume_at (ata_table P dm h' parts) i)"
    "\<forall>k<n. sector (device (volume_at (ata_table P dm h' parts) i)) k = secs k"
proof -
  let ?dv = "\<lparr>device_data = (h', dm), read_m = Some (ata_pio_read P), write_m = Some (ata_pio_write P)\<rparr>"
  have v: "volume_at (ata_table P dm h' parts) i = \<lparr>letter = ch CHR ''A'' + of_nat i,
      partition_data = init_partition mem (boot_record_of_bytes (secs 0)), device = ?dv\<rparr>"
    using p(1,2) by (simp add: volume_at_def ata_partition_def Let_def)
  have n: "n \<le> 2 ^ 32" using a(2) by simp
  have s: "\<forall>k<n. sector ?dv k = secs k"
    using sector_eq_read_view [of ?dv "ata_pio_read P", OF _ ata_drive.ata_reads_sectors [OF a, of dm] _ _ n] r e by simp
  then show "\<forall>k<n. sector (device (volume_at (ata_table P dm h' parts) i)) k = secs k" by (simp add: v)
  have "device_ok False n ?dv" using ata_device_readable [OF a r] by (simp add: device_ok_def)
  then show "vol_state False n (volume_at (ata_table P dm h' parts) i)"
    unfolding v by (rule init_partition_vol_state [OF f p(3) _ s])
  assume "settles P view 0x1F0"
  then have "device_ok True n ?dv" using ata_device_stores_sectors [OF a _ r] by simp
  then show "vol_ok n (volume_at (ata_table P dm h' parts) i)"
    unfolding v by (rule init_partition_vol_state [OF f p(3) _ s])
qed

text \<open>C16. \<^verbatim>\<open>ata_init\<close> on a machine whose only drive is a master with a formatted disk: the drive is
  identified with the number of sectors its words 60 and 61 give and registered once, no slave is
  found, and the volume is mounted twice, as A: and as B: on the same device, because the search
  after the failed identification of the slave uses the device of the master. The disk keeps its
  contents, the drive is idle, and both volumes satisfy the volume invariant for reading; for
  writing too if the drive settles within the status reads the driver spends behind a write.\<close>

theorem ata_init_mounts_master_twice:
  assumes "lone_master P view 0x1F0 n" "n \<le> 2 ^ 28" "xfer (view h) = Idle" "busy (view h) = 0"
    and "fat32_disk n (disk (view h))" "length (buffer mem1) = 128" "length (buffer mem2) = 128"
  shows "\<exists>h' v. ata_init P mem1 mem2 dv1 dv2 (no_devices h) = Some (False, v)
    \<and> v = \<lparr>hardware = h',
        virtual_devices = [\<lparr>device_data = (probed dv1 0x1F0 0x3F6 ATA_MASTER)
             \<lparr>addressable_sectors := ucast (ident (view h) 60) OR push_bit 16 (ucast (ident (view h) 61))\<rparr>,
           read_m = Some (ata_pio_read P), write_m = Some (ata_pio_write P)\<rparr>],
        partitions =
          [\<lparr>part_letter = ch CHR ''A'', part_data = init_partition mem1 (boot_record_of_bytes (disk (view h) 0)), part_device = 0\<rparr>,
           \<lparr>part_letter = ch CHR ''B'', part_data = init_partition mem2 (boot_record_of_bytes (disk (view h) 0)), part_device = 0\<rparr>]\<rparr>
    \<and> xfer (view h') = Idle \<and> busy (view h') = 0 \<and> (\<forall>k<n. disk (view h') k = disk (view h) k)
    \<and> vol_state False n (volume_at v 0) \<and> vol_state False n (volume_at v 1)
    \<and> (settles P view 0x1F0 \<longrightarrow> vol_ok n (volume_at v 0) \<and> vol_ok n (volume_at v 1))"
proof -
  note a = lone_master.axioms(1) [OF assms(1)]
  let ?dm = "master_device dv1 (ident (view h))"
  let ?parts = "[ata_partition 0 mem1 (disk (view h) 0), ata_partition 1 mem2 (disk (view h) 0)]"
  obtain h' where h': "ata_init P mem1 mem2 dv1 dv2 (no_devices h) = Some (False, ata_table P ?dm h' ?parts)"
    "xfer (view h') = Idle" "busy (view h') = 0" "\<forall>k<n. disk (view h') k = disk (view h) k"
    using ata_init_single [OF assms(1-5)] by blast
  have r: "ata_drive.ready view 0x1F0 0 (h', ?dm)" using h'(2,3) master_device_ready [OF a] by simp
  note V = ata_table_volume [OF a assms(2) r assms(5) h'(4), of _ ?parts]
  have B: "ch CHR ''A'' + 1 = ch CHR ''B''" by (simp add: ch_def)
  show ?thesis
    using h' V [of 0 mem1] V [of 1 mem2] assms(6,7)
    by (intro exI [of _ h'] exI [of _ "ata_table P ?dm h' ?parts"])
      (simp add: B ata_table_def ata_partition_def master_device_def sectors_of_def)
qed

subsection \<open>A machine with one disk\<close>

text \<open>The simulated drive with the example disk.\<close>

definition mount_drive :: DRIVE where
  "mount_drive = \<lparr>disk = demo_disk demo_dir, r_drive = 0, r_count = 0, r_lo = 0, r_mid = 0, r_hi = 0, xfer = Idle, busy = 0,
     ident = (\<lambda>i. if i = 60 then 1000 else 0)\<rparr>"

definition blank_device :: ATA_DEVICE where
  "blank_device = \<lparr>default_mode = ATA_PIO, addressing_mode = ATA_LBA28, port_base = 0, control_base = 0, drive = 0,
     addressable_sectors = 0\<rparr>"

lemma mount_drive_sector: "sim_sector mount_drive k = demo_disk demo_dir k"
  by (simp add: sim_sector_def mount_drive_def) (simp add: demo_disk_def)

lemma mount_drive_ok: "xfer (sim_view mount_drive) = Idle" "busy (sim_view mount_drive) = 0"
  "fat32_disk 1000 (disk (sim_view mount_drive))"
  using fat32_disk_cong [OF demo_formatted [of 1000], of "sim_sector mount_drive"]
  by (simp_all add: mount_drive_sector) (simp_all add: mount_drive_def)

theorem ata_init_mounts_master_twice_witness:
  "\<exists>v. ata_init (sim_ports 5) (partition_data demo_vol) (partition_data demo_vol) blank_device blank_device (no_devices mount_drive)
      = Some (False, v) \<and> length (partitions v) = 2 \<and> map (addressable_sectors \<circ> device_data) (virtual_devices v) = [1000]
    \<and> vol_ok 1000 (volume_at v 0) \<and> vol_ok 1000 (volume_at v 1)"
  using ata_init_mounts_master_twice [OF sim.lone_master_axioms _ mount_drive_ok, of "partition_data demo_vol"
      "partition_data demo_vol" blank_device blank_device] sim_settles [of 5]
  by (fastforce simp: demo_vol_with_def mount_drive_def)

end
