(* ===== verification/Disk_Boot.thy ===== *)
theory Disk_Boot
  imports Ata_Init
begin

text \<open>
  The composition of the ATA driver, the device and partition tables, FAT32 and the path front
  end: after \<^verbatim>\<open>ata_init\<close>, a file of the disk can be opened by its path and read. What is on the
  disk is said of the volume \<open>disk_volume\<close>, the sectors of the disk held in memory.
\<close>

subsection \<open>Volumes on different devices\<close>

text \<open>Two volumes with the same contents, whatever their devices are.\<close>

definition same_volume :: "'a fat_volume \<Rightarrow> 'b fat_volume \<Rightarrow> bool" where
  "same_volume p q \<longleftrightarrow> fat_entries p = fat_entries q
     \<and> root_sector (partition_data p) = root_sector (partition_data q) \<and> abs_vol p = abs_vol q"

lemma same_volume_sym: "same_volume p q \<Longrightarrow> same_volume q p"
  by (simp add: same_volume_def)

lemma file_chain_same: "same_volume p q \<Longrightarrow> file_chain p c cs = file_chain q c cs"
  by (simp add: same_volume_def file_chain_def valid_cluster_def)

lemma file_ok_same: "same_volume p q \<Longrightarrow> file_ok p nd cs = file_ok q nd cs"
  by (simp add: file_ok_def file_chain_same)

lemma path_to_same:
  assumes "same_volume p q" "path_to p dir ts ni"
  shows "path_to q dir ts ni"
  using assms(2)
proof induction
  have g: "get_cluster_from_node (partition_data q) d = get_cluster_from_node (partition_data p) d" for d
    using assms(1) by (cases d) (simp_all add: get_cluster_from_node_def same_volume_def)
  have dc: "dir_chain q d cs = dir_chain p d cs" for d cs
    by (simp add: dir_chain_def g file_chain_same [OF assms(1)])
  have a: "abs_vol q = abs_vol p" using assms(1) by (simp add: same_volume_def)
  {
    case (path_here dir cs t s)
    then show ?case using path_to.path_here [of q dir cs t s] by (simp add: g dc a)
  next
    case (path_down dir cs t s ts ni)
    then show ?case using path_to.path_down [of q dir cs t s ts ni] by (simp add: dc a)
  }
qed

subsection \<open>The volume on a disk\<close>

definition disk_volume :: "FAT32_PARTITION \<Rightarrow> (nat \<Rightarrow> byte list) \<Rightarrow> ram fat_volume" where
  "disk_volume mem secs = \<lparr>letter = ch CHR ''A'', partition_data = init_partition mem (boot_record_of_bytes (secs 0)),
     device = ram_device secs\<rparr>"

lemma init_partition_derived:
  assumes "partition_data p = init_partition mem br" "partition_data q = init_partition mem' br"
  shows "spf p = spf q" "fat_start p = fat_start q" "fat_entries p = fat_entries q" "data_lba p = data_lba q"
    "\<not> cached p s" "\<not> cached q s"
  using assms by (simp_all add: spf_def fat_start_def fat_entries_def data_lba_def cached_def init_partition_fields fun_eq_iff)

text \<open>A freshly mounted partition has the contents of the sectors its device holds.\<close>

lemma mounted_same_volume:
  assumes "partition_data p = init_partition mem (boot_record_of_bytes (secs 0))"
    and "layout_ok n p" "\<forall>k<n. sector (device p) k = secs k"
  shows "same_volume p (disk_volume mem' secs)"
proof -
  let ?q = "disk_volume mem' secs"
  have q: "partition_data ?q = init_partition mem' (boot_record_of_bytes (secs 0))" "device ?q = ram_device secs"
    by (simp_all add: disk_volume_def)
  note D = init_partition_derived [OF assms(1) q(1)]
  have r: "sector (device p) k = sector (device ?q) k" if "k < n" for k
    using assms(2,3) that by (simp add: q(2) ram_sector layout_ok_def)
  have f: "fat_words p s = fat_words ?q s" if "s < spf p" for s
  proof -
    have "fat_start p + s < n" using assms(2) that by (auto simp: layout_ok_def fat_entries_def)
    then show ?thesis using r D by (simp add: fat_words_def)
  qed
  have d: "sector (device p) (data_lba p c) = sector (device ?q) (data_lba p c)" if "2 \<le> c" "c < fat_entries p" for c
    using r data_lba_bounds(2) [OF assms(2) that] by simp
  have "abs_vol p = abs_vol ?q"
    using f d D(1-4) by (auto simp: abs_vol_def fun_eq_iff fat_view_def fat_entries_def)
  then show ?thesis
    using D(3) assms(1) q(1) by (simp add: same_volume_def init_partition_fields)
qed

text \<open>C17. After \<^verbatim>\<open>ata_init\<close> on a machine whose only drive is a master with a formatted disk, a
  file that the path leads to on the volume of the disk is opened by that path under A: and under
  B:, and reading it delivers its bytes from the disk, through the driver. It reads from the offset
  that the memory of the new descriptor happened to hold, which the open does not set; the theorem
  is about offsets within the file. The descriptor is left behind the bytes read.\<close>

theorem boot_then_read_file:
  assumes "lone_master P view 0x1F0 n" "n \<le> 2 ^ 28" "xfer (view h) = Idle" "busy (view h) = 0"
    and "fat32_disk n (disk (view h))" "length (buffer mem1) = 128" "length (buffer mem2) = 128"
    and "i < 2" "0 \<notin> set rest" "path_to (disk_volume mem1 (disk (view h))) None (path_tokens rest) ni" "\<not> is_dir (node ni)"
    and "file_ok (disk_volume mem1 (disk (view h))) (fresh\<lparr>node_data := ni\<rparr>) cs"
    and "length junk = 512" "flags AND O_CREAT = 0"
    and "m = min32 sz (node_size (node ni) - offset fresh)" "unat m \<le> length buf" "length buf < 2 ^ 31"
  shows "\<exists>v fd fd' v1 v2. ata_init P mem1 mem2 dv1 dv2 (no_devices h) = Some (False, v)
     \<and> open_file v junk fresh ((ch CHR ''A'' + of_nat i) # slash # rest) flags = Some (Some fd, v1)
     \<and> read_file v1 (Some fd) buf sz = Some (m, patch buf 0 (take (unat m)
          (drop (unat (offset fresh)) (file_data (abs_vol (disk_volume mem1 (disk (view h)))) cs))), Some fd', v2)
     \<and> offset (fd_node fd') = offset fresh + m"
proof -
  note a = lone_master.axioms(1) [OF assms(1)]
  let ?D = "disk (view h)" let ?dm = "master_device dv1 (ident (view h))"
  let ?V = "disk_volume mem1 ?D" and ?parts = "[ata_partition 0 mem1 (?D 0), ata_partition 1 mem2 (?D 0)]"
  obtain h' where h': "ata_init P mem1 mem2 dv1 dv2 (no_devices h) = Some (False, ata_table P ?dm h' ?parts)"
    "xfer (view h') = Idle" "busy (view h') = 0" "\<forall>k<n. disk (view h') k = ?D k"
    using ata_init_single [OF assms(1-5)] by blast
  have r: "ata_drive.ready view 0x1F0 0 (h', ?dm)" using h'(2,3) master_device_ready [OF a] by simp
  let ?v = "ata_table P ?dm h' ?parts" let ?mem = "if i = 0 then mem1 else mem2"
  have p: "i < length ?parts" "?parts ! i = ata_partition i ?mem (?D 0)" "length (buffer ?mem) = 128"
    using assms(6-8) by (auto simp: less_Suc_eq numeral_2_eq_2)
  note V = ata_table_volume [OF a assms(2) r assms(5) h'(4) p]
  have "partition_data (volume_at ?v i) = init_partition ?mem (boot_record_of_bytes (?D 0))"
    using p(2) by (simp add: volume_at_def ata_partition_def)
  from mounted_same_volume [where secs = ?D, OF this vol_stateD(2) [OF V(1)] V(3), of mem1]
  have sv: "same_volume ?V (volume_at ?v i)" by (rule same_volume_sym)
  have "vfs_ok ?v" by (auto simp: vfs_ok_def MAX_PARTITIONS_def less_Suc_eq ata_partition_def)
  moreover have "i < length (partitions ?v)" using p(1) by simp
  moreover have "file_ok (volume_at ?v i) (fresh\<lparr>node_data := ni\<rparr>) cs" using assms(12) file_ok_same [OF sv] by simp
  ultimately have "\<exists>fd fd' v1 v2. open_file ?v junk fresh ((ch CHR ''A'' + of_nat i) # slash # rest) flags = Some (Some fd, v1)
     \<and> read_file v1 (Some fd) buf sz = Some (m, patch buf 0 (take (unat m)
          (drop (unat (offset fresh)) (file_data (abs_vol (volume_at ?v i)) cs))), Some fd', v2)
     \<and> offset (fd_node fd') = offset fresh + m
     \<and> vol_state False n (volume_at v2 i) \<and> abs_vol (volume_at v2 i) = abs_vol (volume_at ?v i)"
    using open_then_read [OF _ _ V(1) assms(9) path_to_same [OF sv assms(10)] assms(11) _ assms(13,14,15,16,17)] by blast
  then show ?thesis using h'(1) sv unfolding same_volume_def by metis
qed

subsection \<open>A disk with a file\<close>

lemma demo_same_volume:
  "same_volume demo_vol (disk_volume (partition_data demo_vol) (disk (sim_view mount_drive)))"
  unfolding sim_view_sel(1)
proof -
  let ?q = "disk_volume (partition_data demo_vol) (sim_sector mount_drive)"
  have b: "sim_sector mount_drive 0 = demo_boot" by (simp add: mount_drive_sector demo_disk_def)
  have F: "sectors_per_fat (partition_data ?q) = 1" "fat_offset (partition_data ?q) = 1" "data_offset (partition_data ?q) = 3"
    "root_sector (partition_data ?q) = 2"
    by (simp_all add: disk_volume_def b init_partition_fields boot_record_of_bytes_def ebr_of_bytes_def bpb_of_bytes_def
        get8_def get16_def get32_def demo_boot_nth le16_def le32_def)
  have N: "\<not> cached ?q s" for s by (simp add: disk_volume_def cached_def init_partition_fields)
  have D: "spf ?q = 1" "fat_start ?q = 1" "fat_entries ?q = 128" "data_lba ?q = data_lba demo_vol"
    by (simp_all add: spf_def fat_start_def fat_entries_def data_lba_def F fun_eq_iff) (simp add: demo_vol_with_def)
  have L: "data_lba demo_vol c = c + 1" if "2 \<le> c" for c
    using that by (simp add: data_lba_def demo_vol_with_def)
  have S: "sector (device ?q) k = sector (ram_device (demo_disk demo_dir)) k" if "k < 1000" for k
    using that by (simp add: disk_volume_def ram_sector mount_drive_sector)
  have "abs_vol demo_vol = abs_vol ?q"
    by (auto simp: abs_vol_def fun_eq_iff fat_view_def fat_words_def D N S L)
  then show "same_volume demo_vol ?q" by (simp add: same_volume_def D F) (simp add: demo_vol_with_def)
qed

text \<open>The memory of the descriptor holds the offset 4.\<close>

theorem boot_then_read_file_witness:
  "\<exists>v fd fd' v1 v2. ata_init (sim_ports 100) (partition_data demo_vol) (partition_data demo_vol) blank_device blank_device
       (no_devices mount_drive) = Some (False, v)
     \<and> open_file v (replicate 512 0) (demo_file\<lparr>offset := 4\<rparr>) ((ch CHR ''A'' + of_nat 1) # slash # bytes_of ''kernel.txt'') 0
       = Some (Some fd, v1)
     \<and> read_file v1 (Some fd) (replicate 10 0) 10 = Some (6, replicate 6 65 @ replicate 4 0, Some fd', v2)"
proof -
  note sv = demo_same_volume
  have nz: "0 \<notin> set (bytes_of ''kernel.txt'')" by (simp add: bytes_of_def)
  have "slash \<notin> set (bytes_of ''kernel.txt'')" by (simp add: bytes_of_def slash_def ch_def)
  then have "path_to demo_vol None (path_tokens (bytes_of ''kernel.txt'')) (node_data demo_file)"
    using demo_path_to by (simp add: path_tokens_single)
  note pt = path_to_same [OF sv this]
  have nd: "\<not> is_dir (node (node_data demo_file))"
    by (simp add: demo_file_def demo_entry_def zero_node_def is_dir_def)
  have "file_ok demo_vol ((demo_file\<lparr>offset := 4\<rparr>)\<lparr>node_data := node_data demo_file\<rparr>) [3]"
    using demo_file_ok by (simp add: file_ok_def demo_size)
  then have f: "file_ok (disk_volume (partition_data demo_vol) (disk (sim_view mount_drive)))
      ((demo_file\<lparr>offset := 4\<rparr>)\<lparr>node_data := node_data demo_file\<rparr>) [3]"
    using file_ok_same [OF sv] by simp
  have l: "length (buffer (partition_data demo_vol)) = 128" by (simp add: demo_vol_with_def)
  have m: "6 = min32 10 (node_size (node (node_data demo_file)) - offset (demo_file\<lparr>offset := 4\<rparr>))"
    by (simp add: min32_def demo_size)
  have a: "abs_vol (disk_volume (partition_data demo_vol) (disk (sim_view mount_drive))) = abs_vol demo_vol"
    using sv by (simp add: same_volume_def)
  show ?thesis
    using boot_then_read_file [OF sim_drive [where t = 100 and n = 1000] _ mount_drive_ok l l _ nz pt nd f
        length_replicate [of 512 0] _ m, of 1 0 "replicate 10 0" blank_device blank_device] unfolding a
    by (auto simp: demo_data patch_def)
qed

end
