(* ===== verification/Floppy_Common.thy ===== *)
theory Floppy_Common
  imports Screen
begin

text \<open>
  The shared part of the floppy driver, \<^verbatim>\<open>drivers/floppy/floppy_common.c\<close>: the handshake with
  the controller, disk geometry, the digital output register and the decoding of the status
  bytes. The state holds the machine and the driver's globals.
\<close>

subsection \<open>Constants and state\<close>

definition DIGITAL_OUTPUT_REGISTER :: u16 where [simp]: "DIGITAL_OUTPUT_REGISTER = 0x3F2"
definition MAIN_STATUS_REGISTER :: u16 where [simp]: "MAIN_STATUS_REGISTER = 0x3F4"
definition DATA_FIFO :: u16 where [simp]: "DATA_FIFO = 0x3F5"
definition CONFIGURATION_CONTROL_REGISTER :: u16 where [simp]: "CONFIGURATION_CONTROL_REGISTER = 0x3F7"

definition SPECIFY :: byte where [simp]: "SPECIFY = 3"
definition WRITE_DATA :: byte where [simp]: "WRITE_DATA = 5"
definition READ_DATA :: byte where [simp]: "READ_DATA = 6"
definition RECALIBRATE :: byte where [simp]: "RECALIBRATE = 7"
definition SENSE_INTERRUPT :: byte where [simp]: "SENSE_INTERRUPT = 8"
definition SEEK :: byte where [simp]: "SEEK = 15"
definition VERSION :: byte where [simp]: "VERSION = 16"
definition PERPENDICULAR_MODE :: byte where [simp]: "PERPENDICULAR_MODE = 18"
definition CONFIGURE :: byte where [simp]: "CONFIGURE = 19"
definition LOCK :: byte where [simp]: "LOCK = 20"

definition RQM :: byte where [simp]: "RQM = 0x80"
definition NDMA :: byte where [simp]: "NDMA = 0x20"
definition MT :: byte where [simp]: "MT = 0x80"
definition MF :: byte where [simp]: "MF = 0x40"

definition ED_FLOPPY :: u32 where [simp]: "ED_FLOPPY = 0x0100"
definition E_ERROR :: u32 where [simp]: "E_ERROR = 0x0080"

definition E_FLOPPY_NO_ERROR :: u32 where [simp]: "E_FLOPPY_NO_ERROR = 0"
definition E_FLOPPY_NO_DRIVE :: u32 where [simp]: "E_FLOPPY_NO_DRIVE = 1"
definition E_FLOPPY_END_OF_CYLINDER :: u32 where [simp]: "E_FLOPPY_END_OF_CYLINDER = 2"
definition E_FLOPPY_DRIVE_NOT_READ :: u32 where [simp]: "E_FLOPPY_DRIVE_NOT_READ = 3"
definition E_FLOPPY_CRC_ERROR :: u32 where [simp]: "E_FLOPPY_CRC_ERROR = 4"
definition E_FLOPPY_CONTROLLER_TIMEOUT :: u32 where [simp]: "E_FLOPPY_CONTROLLER_TIMEOUT = 5"
definition E_FLOPPY_NO_DATA_FOUND :: u32 where [simp]: "E_FLOPPY_NO_DATA_FOUND = 6"
definition E_FLOPPY_NO_ADDRESS_MARK_FOUND :: u32 where [simp]: "E_FLOPPY_NO_ADDRESS_MARK_FOUND = 7"
definition E_FLOPPY_DELETED_ADDRESS_MARK :: u32 where [simp]: "E_FLOPPY_DELETED_ADDRESS_MARK = 8"
definition E_FLOPPY_CRC_ERROR_IN_DATA :: u32 where [simp]: "E_FLOPPY_CRC_ERROR_IN_DATA = 9"
definition E_FLOPPY_WRONG_CYLINDER :: u32 where [simp]: "E_FLOPPY_WRONG_CYLINDER = 10"
definition E_FLOPPY_UPD765_SECTOR_NOT_FOUND :: u32 where [simp]: "E_FLOPPY_UPD765_SECTOR_NOT_FOUND = 11"
definition E_FLOPPY_BAD_CYLINDER :: u32 where [simp]: "E_FLOPPY_BAD_CYLINDER = 12"
definition E_FLOPPY_WRONG_SECTOR_SIZE :: u32 where [simp]: "E_FLOPPY_WRONG_SECTOR_SIZE = 13"
definition E_FLOPPY_NOT_WRITABLE :: u32 where [simp]: "E_FLOPPY_NOT_WRITABLE = 14"
definition E_FLOPPY_INVALID_DATA_DIRECTION :: u32 where [simp]: "E_FLOPPY_INVALID_DATA_DIRECTION = 15"
definition E_FLOPPY_OLD_DEVICE :: u32 where [simp]: "E_FLOPPY_OLD_DEVICE = 16"
definition E_FLOPPY_CANNOT_LOCK :: u32 where [simp]: "E_FLOPPY_CANNOT_LOCK = 17"
definition E_FLOPPY_EXHAUSTED :: u32 where [simp]: "E_FLOPPY_EXHAUSTED = 18"
definition E_FLOPPY_TIMEOUT :: u32 where [simp]: "E_FLOPPY_TIMEOUT = 19"
definition E_FLOPPY_DMA_BUFFER_BIG :: u32 where [simp]: "E_FLOPPY_DMA_BUFFER_BIG = 20"
definition E_FLOPPY_DMA_BUFFER_INVALID_LOC :: u32 where [simp]: "E_FLOPPY_DMA_BUFFER_INVALID_LOC = 21"

datatype FloppyTransmitDirection = floppy_dir_read | floppy_dir_write

datatype FloppyType = F_NO_DRIVE | F_360KB_5_25 | F_1_2MB_5_25 | F_720KB_3_5 | F_1_44MB_3_5 | F_2_88MB_3_5 | F_unknown byte

record FLOPPY_DEVICE =
  type :: FloppyType
  drive_number :: byte
  cylinders :: u16
  heads :: u16
  sectors_per_track :: u16

record DMA =
  cylinder :: u16
  head_no :: u16
  sector :: u16

record 'h FLOPPY =
  fm :: "'h MACHINE"
  DOR :: byte
  floppy_buffer_index :: u32
  floppy_buffer_size :: u32
  floppy_buffer :: u32 \<comment> \<open>address\<close>
  floppy_dma_waiting :: bool

subsection \<open>The controller's registers\<close>

definition f_out :: "'h PORTS \<Rightarrow> u16 \<Rightarrow> byte \<Rightarrow> 'h FLOPPY \<Rightarrow> 'h FLOPPY" where
  "f_out P p v s = s\<lparr>fm := (fm s)\<lparr>hw := port_byte_out P p v (hw (fm s))\<rparr>\<rparr>"

definition f_in :: "'h PORTS \<Rightarrow> u16 \<Rightarrow> 'h FLOPPY \<Rightarrow> byte \<times> 'h FLOPPY" where
  "f_in P p s = (let (v, h) = port_byte_in P p (hw (fm s)) in (v, s\<lparr>fm := (fm s)\<lparr>hw := h\<rparr>\<rparr>))"

definition get_MSR :: "'h PORTS \<Rightarrow> 'h FLOPPY \<Rightarrow> byte \<times> 'h FLOPPY" where
  "get_MSR P s = f_in P MAIN_STATUS_REGISTER s"

definition get_FIFO :: "'h PORTS \<Rightarrow> 'h FLOPPY \<Rightarrow> byte \<times> 'h FLOPPY" where
  "get_FIFO P s = f_in P DATA_FIFO s"

definition send_FIFO :: "'h PORTS \<Rightarrow> byte \<Rightarrow> 'h FLOPPY \<Rightarrow> 'h FLOPPY" where
  "send_FIFO P v s = f_out P DATA_FIFO v s"

text \<open>At most 600 polls; \<open>n\<close> counts those left.\<close>

fun write_cmd_loop :: "'h PORTS \<Rightarrow> nat \<Rightarrow> byte \<Rightarrow> 'h FLOPPY \<Rightarrow> u32 \<times> 'h FLOPPY" where
  "write_cmd_loop P 0 cmd s = (E_FLOPPY_TIMEOUT OR ED_FLOPPY OR E_ERROR, s)"
| "write_cmd_loop P (Suc n) cmd s =
     (let (msr, s) = get_MSR P s
      in if msr AND RQM \<noteq> 0 then (E_FLOPPY_NO_ERROR, send_FIFO P cmd s) else write_cmd_loop P n cmd s)"

definition floppy_write_cmd :: "'h PORTS \<Rightarrow> byte \<Rightarrow> 'h FLOPPY \<Rightarrow> u32 \<times> 'h FLOPPY" where
  "floppy_write_cmd P cmd s = write_cmd_loop P 600 cmd s"

fun read_data_loop :: "'h PORTS \<Rightarrow> nat \<Rightarrow> 'h FLOPPY \<Rightarrow> byte \<times> 'h FLOPPY" where
  "read_data_loop P 0 s = (0, s)"
| "read_data_loop P (Suc n) s =
     (let (msr, s) = get_MSR P s in if msr AND RQM \<noteq> 0 then get_FIFO P s else read_data_loop P n s)"

definition floppy_read_data :: "'h PORTS \<Rightarrow> 'h FLOPPY \<Rightarrow> byte \<times> 'h FLOPPY" where
  "floppy_read_data P s = read_data_loop P 600 s"

text \<open>A sequence of command bytes, their results ignored, and of result bytes.\<close>

fun write_cmds :: "'h PORTS \<Rightarrow> byte list \<Rightarrow> 'h FLOPPY \<Rightarrow> 'h FLOPPY" where
  "write_cmds P [] s = s"
| "write_cmds P (c # cs) s = write_cmds P cs (snd (floppy_write_cmd P c s))"

fun read_datas :: "'h PORTS \<Rightarrow> nat \<Rightarrow> 'h FLOPPY \<Rightarrow> byte list \<times> 'h FLOPPY" where
  "read_datas P 0 s = ([], s)"
| "read_datas P (Suc n) s =
     (let (b, s) = floppy_read_data P s; (bs, s) = read_datas P n s in (b # bs, s))"

subsection \<open>Geometry\<close>

definition lba_2_chs :: "u32 \<Rightarrow> FLOPPY_DEVICE \<Rightarrow> DMA" where
  "lba_2_chs lba drive =
     (if sectors_per_track drive = 0 then \<lparr>cylinder = 0, head_no = 0, sector = 0\<rparr>
      else let spt = ucast (sectors_per_track drive) :: u32
           in \<lparr>cylinder = ucast (lba div (2 * spt)),
               head_no = ucast ((lba mod (2 * spt)) div spt),
               sector = ucast ((lba mod (2 * spt)) mod spt + 1)\<rparr>)"

definition floppy_type :: "byte \<Rightarrow> FloppyType" where
  "floppy_type t =
     (if t = 0 then F_NO_DRIVE else if t = 1 then F_360KB_5_25 else if t = 2 then F_1_2MB_5_25
      else if t = 3 then F_720KB_3_5 else if t = 4 then F_1_44MB_3_5 else if t = 5 then F_2_88MB_3_5
      else F_unknown t)"

definition set_floppy_params :: "FloppyType \<Rightarrow> byte \<Rightarrow> FLOPPY_DEVICE \<Rightarrow> FLOPPY_DEVICE" where
  "set_floppy_params t dv drive_struct =
     (let d = drive_struct\<lparr>type := t, drive_number := dv, heads := 2\<rparr>
      in case t of
           F_360KB_5_25 \<Rightarrow> d\<lparr>cylinders := 40, sectors_per_track := 9\<rparr>
         | F_1_2MB_5_25 \<Rightarrow> d\<lparr>cylinders := 80, sectors_per_track := 15\<rparr>
         | F_720KB_3_5 \<Rightarrow> d\<lparr>cylinders := 80, sectors_per_track := 9\<rparr>
         | F_1_44MB_3_5 \<Rightarrow> d\<lparr>cylinders := 80, sectors_per_track := 18\<rparr>
         | F_2_88MB_3_5 \<Rightarrow> d\<lparr>cylinders := 80, sectors_per_track := 36\<rparr>
         | _ \<Rightarrow> d\<lparr>cylinders := 0, heads := 0, sectors_per_track := 0\<rparr>)"

text \<open>The two drives are described by the halves of a byte of the CMOS memory.\<close>

definition floppy_detect_drives ::
  "'h PORTS \<Rightarrow> FLOPPY_DEVICE \<times> FLOPPY_DEVICE \<Rightarrow> 'h FLOPPY \<Rightarrow> (FLOPPY_DEVICE \<times> FLOPPY_DEVICE) \<times> 'h FLOPPY" where
  "floppy_detect_drives P ds s =
     (let s = f_out P 0x70 0x10 s;
          (drives, s) = f_in P 0x71 s
      in ((set_floppy_params (floppy_type (drop_bit 4 drives)) 0 (fst ds),
           set_floppy_params (floppy_type (drives AND 0xf)) 1 (snd ds)), s))"

subsection \<open>Drive control\<close>

definition floppy_sense_interrupt :: "'h PORTS \<Rightarrow> 'h FLOPPY \<Rightarrow> (u32 \<times> u32) \<times> 'h FLOPPY" where
  "floppy_sense_interrupt P s =
     (let (_, s) = floppy_write_cmd P SENSE_INTERRUPT s;
          (st0, s) = floppy_read_data P s;
          (cyl, s) = floppy_read_data P s
      in ((ucast st0, ucast cyl), s))"

definition floppy_motor :: "'h PORTS \<Rightarrow> bool \<Rightarrow> byte \<Rightarrow> 'h FLOPPY \<Rightarrow> 'h FLOPPY" where
  "floppy_motor P on dv s =
     (let s = s\<lparr>DOR := if on then (DOR s AND 0x0f) OR ucast (push_bit (unat dv + 4) (1 :: i32)) else DOR s AND 0x0f\<rparr>
      in f_out P DIGITAL_OUTPUT_REGISTER (DOR s) s)"

definition set_DOR :: "'h PORTS \<Rightarrow> byte \<Rightarrow> 'h FLOPPY \<Rightarrow> 'h FLOPPY" where
  "set_DOR P v s =
     (let s = s\<lparr>DOR := (DOR s AND 0xf0) OR (v AND 0x0f)\<rparr> in f_out P DIGITAL_OUTPUT_REGISTER (DOR s) s)"

definition select_drive :: "byte \<Rightarrow> 'h FLOPPY \<Rightarrow> 'h FLOPPY" where
  "select_drive dv s = s\<lparr>DOR := (DOR s AND 0xfc) OR (dv AND 0x03)\<rparr>"

text \<open>Of the conditions that hold, the last one in this order names the error.\<close>

definition calculate_error :: "byte \<Rightarrow> byte \<Rightarrow> byte \<Rightarrow> byte \<Rightarrow> u32" where
  "calculate_error st0 st1 st2 bps =
     (let error = 0;
          error = (if st0 AND 0xC0 \<noteq> 0 then E_FLOPPY_NO_DRIVE else error);
          error = (if st1 AND 0x80 \<noteq> 0 then E_FLOPPY_END_OF_CYLINDER else error);
          error = (if st0 AND 0x08 \<noteq> 0 then E_FLOPPY_DRIVE_NOT_READ else error);
          error = (if st1 AND 0x20 \<noteq> 0 then E_FLOPPY_CRC_ERROR else error);
          error = (if st1 AND 0x10 \<noteq> 0 then E_FLOPPY_CONTROLLER_TIMEOUT else error);
          error = (if st1 AND 0x04 \<noteq> 0 then E_FLOPPY_NO_DATA_FOUND else error);
          error = (if (st1 OR st2) AND 0x01 \<noteq> 0 then E_FLOPPY_NO_ADDRESS_MARK_FOUND else error);
          error = (if st2 AND 0x40 \<noteq> 0 then E_FLOPPY_DELETED_ADDRESS_MARK else error);
          error = (if st2 AND 0x20 \<noteq> 0 then E_FLOPPY_CRC_ERROR_IN_DATA else error);
          error = (if st2 AND 0x10 \<noteq> 0 then E_FLOPPY_WRONG_CYLINDER else error);
          error = (if st2 AND 0x04 \<noteq> 0 then E_FLOPPY_UPD765_SECTOR_NOT_FOUND else error);
          error = (if st2 AND 0x02 \<noteq> 0 then E_FLOPPY_BAD_CYLINDER else error);
          error = (if bps \<noteq> 2 then E_FLOPPY_WRONG_SECTOR_SIZE else error);
          error = (if st1 AND 0x02 \<noteq> 0 then E_FLOPPY_NOT_WRITABLE else error)
      in error)"

end
