(* ===== verification/Floppy_Pio.thy ===== *)
theory Floppy_Pio
  imports Floppy_Common
begin

text \<open>
  Transfers by programmed I/O, \<^verbatim>\<open>drivers/floppy/floppy_pio.c\<close>. The loops that poll the
  controller need not end, and are \<^term>\<open>None\<close> then. \<^verbatim>\<open>seg_read\<close> is a local variable the callers do not
  initialise; its contents are a parameter. The memory a transfer fills is the machine's.
\<close>

definition read_callback :: "'h PORTS \<Rightarrow> 'h FLOPPY \<Rightarrow> 'h FLOPPY" where
  "read_callback P s =
     (let (v, s) = f_in P DATA_FIFO s
      in if floppy_buffer_size s \<le> floppy_buffer_index s then s
         else s\<lparr>fm := (fm s)\<lparr>ram := (ram (fm s))(floppy_buffer s + floppy_buffer_index s := v)\<rparr>,
                floppy_buffer_index := floppy_buffer_index s + 1\<rparr>)"

definition write_callback :: "'h PORTS \<Rightarrow> 'h FLOPPY \<Rightarrow> 'h FLOPPY" where
  "write_callback P s =
     (if floppy_buffer_size s \<le> floppy_buffer_index s then f_out P DATA_FIFO 0 s
      else let v = ram (fm s) (floppy_buffer s + floppy_buffer_index s);
               s = s\<lparr>floppy_buffer_index := floppy_buffer_index s + 1\<rparr>
           in f_out P DATA_FIFO v s)"

definition init_floppy_pio :: "'h PORTS \<Rightarrow> 'h FLOPPY \<Rightarrow> 'h FLOPPY" where
  "init_floppy_pio P s = set_DOR P 0x04 s"

text \<open>How many sectors a command transfers, and the last one on the track.\<close>

definition command_extent :: "FLOPPY_DEVICE \<Rightarrow> DMA \<Rightarrow> u32 \<Rightarrow> u32 \<times> u32 \<times> u32" where
  "command_extent drive dma sz =
     (let sectors = sz div 512 + (if sz mod 512 \<noteq> 0 then 1 else 0);
          final_preview = sectors + ucast (sector dma) - 1;
          final = (if ucast (sectors_per_track drive) < final_preview then ucast (sectors_per_track drive) else final_preview);
          seg_read = final - ucast (sector dma) + 1
      in (sectors, final, seg_read))"

definition command_bytes :: "byte \<Rightarrow> DMA \<Rightarrow> u32 \<Rightarrow> byte list" where
  "command_bytes cmd dma final =
     [cmd, ucast (push_bit 2 (ucast (head_no dma) :: i32)), ucast (cylinder dma), ucast (head_no dma), ucast (sector dma),
      2, ucast final, 0x1b, 0xff]"

partial_function (option) wait_ready :: "'h PORTS \<Rightarrow> 'h FLOPPY \<Rightarrow> 'h FLOPPY option" where
  "wait_ready P s = (case get_MSR P s of (msr, s) \<Rightarrow> if msr AND 0x80 \<noteq> 0x80 then wait_ready P s else Some s)"

partial_function (option) call_while_ready ::
  "'h PORTS \<Rightarrow> ('h FLOPPY \<Rightarrow> 'h FLOPPY) \<Rightarrow> 'h FLOPPY \<Rightarrow> 'h FLOPPY option" where
  "call_while_ready P callback s =
     (case get_MSR P s of (msr, s) \<Rightarrow>
        if msr AND (RQM OR NDMA) = (RQM OR NDMA) then call_while_ready P callback (callback s) else Some s)"

partial_function (option) execute ::
  "'h PORTS \<Rightarrow> ('h FLOPPY \<Rightarrow> 'h FLOPPY) \<Rightarrow> 'h FLOPPY \<Rightarrow> 'h FLOPPY option" where
  "execute P callback s =
     (case get_MSR P s of (msr, s) \<Rightarrow>
        if msr AND 0x20 = 0x20
        then do { s \<leftarrow> wait_ready P s; s \<leftarrow> call_while_ready P callback s; execute P callback s }
        else Some s)"

text \<open>The attempts at a command, \<open>n\<close> of them left.\<close>

fun pio_attempts ::
  "'h PORTS \<Rightarrow> FLOPPY_DEVICE \<Rightarrow> byte list \<Rightarrow> ('h FLOPPY \<Rightarrow> 'h FLOPPY) \<Rightarrow> nat \<Rightarrow> u32 \<Rightarrow> 'h FLOPPY
   \<Rightarrow> (u32 \<times> 'h FLOPPY) option" where
  "pio_attempts P drive cmds callback 0 error s = Some (error OR E_ERROR OR ED_FLOPPY, s)"
| "pio_attempts P drive cmds callback (Suc n) error s = do {
     let s = floppy_motor P True (drive_number drive) s;
     let s = write_cmds P cmds s;
     s \<leftarrow> execute P callback s;
     let (st, s) = read_datas P 7 s;
     let error = calculate_error (st ! 0) (st ! 1) (st ! 2) (st ! 6);
     if error = 0 then Some (E_FLOPPY_NO_ERROR, floppy_motor P False (drive_number drive) s)
     else if error = E_FLOPPY_NOT_WRITABLE then Some (error OR ED_FLOPPY OR E_ERROR, s)
     else pio_attempts P drive cmds callback n error s
   }"

definition floppy_transfer_pio ::
  "'h PORTS \<Rightarrow> FLOPPY_DEVICE \<Rightarrow> DMA \<Rightarrow> FloppyTransmitDirection \<Rightarrow> u32 \<Rightarrow> u32 \<Rightarrow> ('h FLOPPY \<Rightarrow> 'h FLOPPY) \<Rightarrow> 'h FLOPPY
   \<Rightarrow> ((u32 \<times> u32) \<times> 'h FLOPPY) option" where
  "floppy_transfer_pio P drive dma dir sz seg_read callback s =
     (if type drive = F_NO_DRIVE then Some ((E_FLOPPY_NO_DRIVE, seg_read), s)
      else do {
        let s = select_drive (drive_number drive) s;
        let (sectors, final, seg_read) = command_extent drive dma sz;
        let s = s\<lparr>floppy_buffer_size := 512 * sectors\<rparr>;
        let cmd = MT OR MF OR (case dir of floppy_dir_write \<Rightarrow> WRITE_DATA | floppy_dir_read \<Rightarrow> READ_DATA);
        (error, s) \<leftarrow> pio_attempts P drive (command_bytes cmd dma final) callback 3 E_FLOPPY_NO_ERROR s;
        Some ((error, seg_read), s)
      })"

partial_function (option) read_pio_loop ::
  "'h PORTS \<Rightarrow> FLOPPY_DEVICE \<Rightarrow> u32 \<Rightarrow> u32 \<Rightarrow> u32 \<Rightarrow> u32 \<Rightarrow> 'h FLOPPY \<Rightarrow> (u32 \<times> 'h FLOPPY) option" where
  "read_pio_loop P drive sectors lba total_sectors seg_read s =
     (if total_sectors < sectors
      then do {
        ((error, seg_read), s) \<leftarrow> floppy_transfer_pio P drive (lba_2_chs (lba + total_sectors) drive) floppy_dir_read
          (512 * (sectors - total_sectors)) seg_read (read_callback P) s;
        if error AND E_ERROR \<noteq> 0 then Some (error, s)
        else read_pio_loop P drive sectors lba (total_sectors + seg_read) seg_read s
      }
      else Some (0, s))"

definition read_floppy_pio ::
  "'h PORTS \<Rightarrow> FLOPPY_DEVICE \<Rightarrow> u32 \<Rightarrow> u32 \<Rightarrow> u32 \<Rightarrow> u32 \<Rightarrow> 'h FLOPPY \<Rightarrow> (u32 \<times> 'h FLOPPY) option" where
  "read_floppy_pio P drive buffer sectors lba seg_read s =
     read_pio_loop P drive sectors lba 0 seg_read (s\<lparr>floppy_buffer := buffer\<rparr>)"

partial_function (option) write_pio_loop ::
  "'h PORTS \<Rightarrow> FLOPPY_DEVICE \<Rightarrow> u32 \<Rightarrow> u32 \<Rightarrow> u32 \<Rightarrow> u32 \<Rightarrow> 'h FLOPPY \<Rightarrow> (u32 \<times> 'h FLOPPY) option" where
  "write_pio_loop P drive sectors lba total_sectors seg_read s =
     (if total_sectors < sectors
      then do {
        ((error, seg_read), s) \<leftarrow> floppy_transfer_pio P drive (lba_2_chs (lba + total_sectors) drive) floppy_dir_write
          (math_min (512 * (sectors - total_sectors)) (512 * ucast (sectors_per_track drive))) seg_read (write_callback P) s;
        if error AND E_ERROR \<noteq> 0 then Some (error, s)
        else write_pio_loop P drive sectors lba (total_sectors + seg_read) seg_read s
      }
      else Some (0, s))"

definition write_floppy_pio ::
  "'h PORTS \<Rightarrow> FLOPPY_DEVICE \<Rightarrow> u32 \<Rightarrow> u32 \<Rightarrow> u32 \<Rightarrow> u32 \<Rightarrow> 'h FLOPPY \<Rightarrow> (u32 \<times> 'h FLOPPY) option" where
  "write_floppy_pio P drive buffer sectors lba seg_read s =
     write_pio_loop P drive sectors lba 0 seg_read (s\<lparr>floppy_buffer := buffer\<rparr>)"

end
