(* ===== verification/Floppy_Archive.thy ===== *)
theory Floppy_Archive
  imports Floppy_Pio
begin

text \<open>
  The first floppy driver, \<^verbatim>\<open>archive/floppy_PIO.c\<close>. Its globals \<^verbatim>\<open>floppy_buffer\<close>,
  \<^verbatim>\<open>floppy_buffer_index\<close> and \<^verbatim>\<open>floppy_buffer_size\<close> are those of the state of the later driver;
  the other fields are not used. Its \<^verbatim>\<open>lba_2_chs\<close> is only declared and
  \<^verbatim>\<open>floppy_detect_drives\<close> is another file's, so both are parameters. Loops that poll
  without a bound, and calls of a null callback, may have no result, \<^term>\<open>None\<close>.
\<close>

definition SK :: byte where [simp]: "SK = 0x20"

subsection \<open>Callbacks\<close>

text \<open>The result tells that the buffer is used up.\<close>

definition archived_read_callback :: "'h PORTS \<Rightarrow> 'h FLOPPY \<Rightarrow> (i32 \<times> 'h FLOPPY) option" where
  "archived_read_callback P s =
     (let (v, s) = f_in P DATA_FIFO s
      in Some (0, if floppy_buffer_size s \<le> floppy_buffer_index s then s
           else s\<lparr>fm := (fm s)\<lparr>ram := (ram (fm s))(floppy_buffer s + floppy_buffer_index s := v)\<rparr>,
                  floppy_buffer_index := floppy_buffer_index s + 1\<rparr>))"

definition archived_write_callback :: "'h PORTS \<Rightarrow> 'h FLOPPY \<Rightarrow> (i32 \<times> 'h FLOPPY) option" where
  "archived_write_callback P s =
     (if floppy_buffer_size s \<le> floppy_buffer_index s
      then let s = f_out P DATA_FIFO 0xff s in Some (1, s\<lparr>floppy_buffer_index := floppy_buffer_index s + 1\<rparr>)
      else let v = ram (fm s) (floppy_buffer s + floppy_buffer_index s);
               s = s\<lparr>floppy_buffer_index := floppy_buffer_index s + 1\<rparr>
           in Some (0, f_out P DATA_FIFO v s))"

definition null_callback :: "'h FLOPPY \<Rightarrow> (i32 \<times> 'h FLOPPY) option" where
  "null_callback s = None"

subsection \<open>Commands\<close>

text \<open>The status is polled until it has the wanted two upper bits, but at most \<open>n\<close> times.\<close>

fun poll_status :: "'h PORTS \<Rightarrow> byte \<Rightarrow> nat \<Rightarrow> byte \<Rightarrow> 'h FLOPPY \<Rightarrow> 'h FLOPPY" where
  "poll_status P want 0 mbr s = s"
| "poll_status P want (Suc n) mbr s =
     (if mbr AND 0xc0 \<noteq> want then (case f_in P MAIN_STATUS_REGISTER s of (mbr, s) \<Rightarrow> poll_status P want n mbr s) else s)"

fun send_params :: "'h PORTS \<Rightarrow> byte list \<Rightarrow> 'h FLOPPY \<Rightarrow> 'h FLOPPY" where
  "send_params P [] s = s"
| "send_params P (p # ps) s = send_params P ps (f_out P DATA_FIFO p (poll_status P 0x80 256 0 s))"

fun get_returns :: "'h PORTS \<Rightarrow> nat \<Rightarrow> 'h FLOPPY \<Rightarrow> byte list \<times> 'h FLOPPY" where
  "get_returns P 0 s = ([], s)"
| "get_returns P (Suc n) s =
     (let s = poll_status P 0xc0 256 0 s; (b, s) = f_in P DATA_FIFO s; (bs, s) = get_returns P n s in (b # bs, s))"

text \<open>The execution phase: wait, transfer bytes while the controller is ready, look again.\<close>

partial_function (option) archived_wait :: "'h PORTS \<Rightarrow> byte \<Rightarrow> 'h FLOPPY \<Rightarrow> (byte \<times> 'h FLOPPY) option" where
  "archived_wait P mbr s =
     (if mbr AND 0x80 \<noteq> 0x80 then (case f_in P MAIN_STATUS_REGISTER s of (mbr, s) \<Rightarrow> archived_wait P mbr s) else Some (mbr, s))"

partial_function (option) archived_bytes ::
  "'h PORTS \<Rightarrow> ('h FLOPPY \<Rightarrow> (i32 \<times> 'h FLOPPY) option) \<Rightarrow> i32 \<Rightarrow> byte \<Rightarrow> 'h FLOPPY \<Rightarrow> (i32 \<times> 'h FLOPPY) option" where
  "archived_bytes P callback is_full mbr s =
     (if mbr AND (RQM OR NDMA) = (RQM OR NDMA)
      then do {
        (is_full, s) \<leftarrow> callback s;
        (case f_in P MAIN_STATUS_REGISTER s of (mbr, s) \<Rightarrow> archived_bytes P callback is_full mbr s)
      }
      else Some (is_full, s))"

partial_function (option) archived_execute ::
  "'h PORTS \<Rightarrow> ('h FLOPPY \<Rightarrow> (i32 \<times> 'h FLOPPY) option) \<Rightarrow> 'h FLOPPY \<Rightarrow> 'h FLOPPY option" where
  "archived_execute P callback s =
     (case f_in P MAIN_STATUS_REGISTER s of (msr, s) \<Rightarrow>
        if msr AND 0x20 = 0x20
        then do {
          (mbr, s) \<leftarrow> archived_wait P 0 s;
          (is_full, s) \<leftarrow> archived_bytes P callback 0 mbr s;
          if is_full \<noteq> 0 then Some s else archived_execute P callback s
        }
        else Some s)"

text \<open>The result, and the bytes written to \<^verbatim>\<open>returns\<close>.\<close>

definition send_command ::
  "'h PORTS \<Rightarrow> byte \<Rightarrow> byte list \<Rightarrow> nat \<Rightarrow> ('h FLOPPY \<Rightarrow> (i32 \<times> 'h FLOPPY) option) \<Rightarrow> 'h FLOPPY
   \<Rightarrow> ((i32 \<times> byte list) \<times> 'h FLOPPY) option" where
  "send_command P command params returns_size callback s =
     (case f_in P MAIN_STATUS_REGISTER s of (msr, s) \<Rightarrow>
        if msr AND 0xc0 \<noteq> 0x80 then Some ((- 1, []), s)
        else do {
          let s = f_out P DATA_FIFO command s;
          let s = send_params P params s;
          s \<leftarrow> archived_execute P callback s;
          let (returns, s) = get_returns P returns_size s;
          let (msr, s) = f_in P MAIN_STATUS_REGISTER s;
          if msr AND 0xd0 \<noteq> 0x80 then Some ((- 2, returns), s) else Some ((0, returns), s)
        })"

subsection \<open>Operations\<close>

definition transfer_params :: "u16 \<times> u16 \<times> u16 \<Rightarrow> byte list" where
  "transfer_params chs =
     (case chs of (cyl, head, sec) \<Rightarrow>
        [ucast (push_bit 2 (ucast head :: i32) OR 0), ucast cyl, ucast head, ucast sec, 2, 0x12, 0x1b, 0xff])"

definition read_floppy ::
  "'h PORTS \<Rightarrow> (u32 \<Rightarrow> u16 \<times> u16 \<times> u16) \<Rightarrow> u32 \<Rightarrow> u32 \<Rightarrow> u32 \<Rightarrow> 'h FLOPPY \<Rightarrow> 'h FLOPPY option" where
  "read_floppy P chs buffer sz lba s = do {
     let s = s\<lparr>floppy_buffer_index := 0, floppy_buffer_size := sz, floppy_buffer := buffer\<rparr>;
     (_, s) \<leftarrow> send_command P (MT OR MF OR READ_DATA) (transfer_params (chs lba)) 7 (archived_read_callback P) s;
     Some s
   }"

definition write_floppy ::
  "'h PORTS \<Rightarrow> (u32 \<Rightarrow> u16 \<times> u16 \<times> u16) \<Rightarrow> u32 \<Rightarrow> u32 \<Rightarrow> u32 \<Rightarrow> 'h FLOPPY \<Rightarrow> 'h FLOPPY option" where
  "write_floppy P chs buffer sz lba s = do {
     let s = s\<lparr>floppy_buffer_index := 0, floppy_buffer_size := sz, floppy_buffer := buffer\<rparr>;
     (_, s) \<leftarrow> send_command P (MT OR MF OR SK OR WRITE_DATA) (transfer_params (chs lba)) 7 (archived_write_callback P) s;
     Some s
   }"

definition configure :: "'h PORTS \<Rightarrow> 'h FLOPPY \<Rightarrow> 'h FLOPPY option" where
  "configure P s =
     (let s = f_out P DIGITAL_OUTPUT_REGISTER 0xf4 s;
          s = f_out P DATA_FIFO VERSION s;
          (version, s) = f_in P DATA_FIFO s
      in if version \<noteq> 0x90 then Some s
         else do {
           (_, s) \<leftarrow> send_command P CONFIGURE [0, 0x50, 0] 0 null_callback s;
           (_, s) \<leftarrow> send_command P (MT OR LOCK) [] 1 null_callback s;
           Some s
         })"

text \<open>\<open>buf1\<close> is the address of a static buffer of 512 bytes, which is filled and written.\<close>

definition fill_buffer :: "u32 \<Rightarrow> 'h FLOPPY \<Rightarrow> 'h FLOPPY" where
  "fill_buffer buf1 s = s\<lparr>fm := (fm s)\<lparr>ram := fold (\<lambda>i m. m(buf1 + of_nat i := 0x5a)) [0..<512] (ram (fm s))\<rparr>\<rparr>"

definition init_floppy ::
  "'h PORTS \<Rightarrow> ('h FLOPPY \<Rightarrow> 'h FLOPPY) \<Rightarrow> (u32 \<Rightarrow> u16 \<times> u16 \<times> u16) \<Rightarrow> u32 \<Rightarrow> 'h FLOPPY \<Rightarrow> 'h FLOPPY option" where
  "init_floppy P detect_drives chs buf1 s = do {
     let s = detect_drives s;
     s \<leftarrow> configure P s;
     let s = fill_buffer buf1 s;
     write_floppy P chs buf1 512 0 s
   }"

end
