(* ===== verification/Floppy_Controller.thy ===== *)
theory Floppy_Controller
  imports Floppy_Pio
begin

text \<open>
  The controller the floppy driver talks to, as far as the driver relies on it: the phases of a
  command with nine bytes, the status byte, and the bytes that go through the FIFO. What a command
  does on the disk is a parameter, the reply. Under this interface a transfer by programmed I/O
  ends, and moves the bytes of the reply.
\<close>

subsection \<open>The controller\<close>

text \<open>
  A command is collected; it then sends its data or receives a number of bytes, and ends with its
  result bytes. \<open>waits\<close> counts the status reads until the controller is ready for the next byte.
\<close>

datatype FDC_PHASE = Command "byte list" | Sending "byte list" "byte list" | Receiving nat "byte list" "byte list" | Result "byte list"

datatype FDC_REPLY = Sends "byte list" "byte list" | Receives nat "byte list"

record FDC =
  phase :: FDC_PHASE
  waits :: nat
  accepted :: "byte list" \<comment> \<open>the data of the last command that received some\<close>

fun start_phase :: "FDC_REPLY \<Rightarrow> FDC_PHASE" where
  "start_phase (Sends data res) = (if data = [] then Result res else Sending data res)"
| "start_phase (Receives n res) = (if n = 0 then Result res else Receiving n [] res)"

definition collected :: "(byte list \<Rightarrow> FDC_REPLY) \<Rightarrow> byte list \<Rightarrow> FDC_PHASE" where
  "collected respond cs = (if length cs < 9 then Command cs else start_phase (respond cs))"

text \<open>Bit 7: ready for a byte; bit 6: the controller has one; bit 5: execution without DMA; bit 4: busy.\<close>

definition status_of :: "FDC \<Rightarrow> byte" where
  "status_of c = (if waits c = 0 then 0x80 else 0) OR
     (case phase c of Command cs \<Rightarrow> (if cs = [] then 0 else 0x10) | Sending _ _ \<Rightarrow> 0x70 | Receiving _ _ _ \<Rightarrow> 0x30 | Result _ \<Rightarrow> 0x50)"

definition executing :: "FDC \<Rightarrow> bool" where
  "executing c \<longleftrightarrow> (case phase c of Sending _ _ \<Rightarrow> True | Receiving _ _ _ \<Rightarrow> True | _ \<Rightarrow> False)"

text \<open>No command is under way.\<close>

definition fdc_idle :: "nat \<Rightarrow> FDC \<Rightarrow> bool" where
  "fdc_idle d c \<longleftrightarrow> phase c = Command [] \<and> waits c < d"

lemma status_bits:
  "status_of c AND 0x80 = (if waits c = 0 then 0x80 else 0)"
  "status_of c AND 0x20 = (if executing c then 0x20 else 0)"
  "status_of c AND 0xA0 = (if waits c = 0 then 0x80 else 0) OR (if executing c then 0x20 else 0)"
  by (cases "waits c = 0"; cases "phase c"; simp add: status_of_def executing_def)+

text \<open>One byte handed to the callback: stored while there is room in the buffer.\<close>

definition put_byte :: "byte \<Rightarrow> 'h FLOPPY \<Rightarrow> 'h FLOPPY" where
  "put_byte v s = (if floppy_buffer_size s \<le> floppy_buffer_index s then s
     else s\<lparr>fm := (fm s)\<lparr>ram := (ram (fm s))(floppy_buffer s + floppy_buffer_index s := v)\<rparr>,
            floppy_buffer_index := floppy_buffer_index s + 1\<rparr>)"

definition set_hw :: "'h \<Rightarrow> 'h FLOPPY \<Rightarrow> 'h FLOPPY" where
  "set_hw h s = s\<lparr>fm := (fm s)\<lparr>hw := h\<rparr>\<rparr>"

lemma set_hw_sel [simp]:
  "hw (fm (set_hw h s)) = h" "set_hw h (set_hw h' s) = set_hw h s" "ram (fm (set_hw h s)) = ram (fm s)"
  "DOR (set_hw h s) = DOR s" "floppy_buffer_index (set_hw h s) = floppy_buffer_index s"
  "floppy_buffer_size (set_hw h s) = floppy_buffer_size s" "floppy_buffer (set_hw h s) = floppy_buffer s"
  by (simp_all add: set_hw_def)

lemma set_hw_DOR: "(set_hw h s)\<lparr>DOR := x\<rparr> = set_hw h (s\<lparr>DOR := x\<rparr>)"
  by (simp add: set_hw_def)

lemma set_hw_same [simp]: "set_hw (hw (fm s)) s = s"
  by (simp add: set_hw_def)

lemma put_byte_hw [simp]: "put_byte v (set_hw h s) = set_hw h (put_byte v s)" "hw (fm (put_byte v s)) = hw (fm s)"
  by (simp_all add: put_byte_def set_hw_def)

lemma fold_put_byte_hw [simp]: "fold put_byte bs (set_hw h s) = set_hw h (fold put_byte bs s)" "hw (fm (fold put_byte bs s)) = hw (fm s)"
  by (induction bs arbitrary: s) simp_all

text \<open>The memory with the bytes from an address on.\<close>

definition placed :: "flat_mem \<Rightarrow> u32 \<Rightarrow> byte list \<Rightarrow> flat_mem" where
  "placed m p bs a = (if unat (a - p) < length bs then bs ! unat (a - p) else m a)"

lemma placed_Nil [simp]: "placed m p [] = m"
  by (simp add: placed_def fun_eq_iff)

lemma placed_Cons:
  assumes "length bs < 2 ^ 32 - 1"
  shows "placed m p (b # bs) = placed (m(p := b)) (p + 1) bs"
proof (rule ext)
  fix a
  show "placed m p (b # bs) a = placed (m(p := b)) (p + 1) bs a"
  proof (cases "a = p")
    case True
    have "unat (- 1 :: u32) = 2 ^ 32 - 1" by (simp add: unsigned_minus_1_eq_mask mask_eq_exp_minus_1)
    then show ?thesis using True assms by (simp add: placed_def)
  next
    case False
    then have "a - p \<noteq> 0" by simp
    then have "unat (a - p) = Suc (unat (a - (p + 1)))"
      using unat_minus_one [of "a - p"] by (simp add: algebra_simps unat_gt_0)
    then show ?thesis using False by (simp add: placed_def)
  qed
qed

lemma unat_bound: "unat (w :: u32) < 4294967296"
  using unsigned_less [of w, where 'a = nat] by simp

text \<open>Of the data, what has room in the buffer is stored and moves the index.\<close>

definition room :: "'h FLOPPY \<Rightarrow> nat" where
  "room s = unat (floppy_buffer_size s) - unat (floppy_buffer_index s)"

lemma room_step:
  assumes "\<not> floppy_buffer_size s \<le> floppy_buffer_index s"
    and "floppy_buffer_size s' = floppy_buffer_size s" "floppy_buffer_index s' = floppy_buffer_index s + 1"
  shows "room s = Suc (room s')"
proof -
  have l: "unat (floppy_buffer_index s) < unat (floppy_buffer_size s)" using assms(1) by (simp add: word_le_nat_alt)
  then have "unat (floppy_buffer_index s) + 1 < 4294967296" using unat_bound [of "floppy_buffer_size s"] by linarith
  then have "unat (floppy_buffer_index s + 1) = Suc (unat (floppy_buffer_index s))" by (subst unat_add_u32) simp_all
  then show ?thesis using assms l by (simp add: room_def)
qed

lemma fold_put_byte:
  "fold put_byte data s = s\<lparr>fm := (fm s)\<lparr>ram := placed (ram (fm s)) (floppy_buffer s + floppy_buffer_index s) (take (room s) data)\<rparr>,
     floppy_buffer_index := floppy_buffer_index s + of_nat (min (length data) (room s))\<rparr>"
proof (induction data arbitrary: s)
  case (Cons b bs)
  show ?case
  proof (cases "floppy_buffer_size s \<le> floppy_buffer_index s")
    case True
    then have "room s = 0" by (simp add: room_def word_le_nat_alt)
    moreover have "put_byte b s = s" using True by (simp add: put_byte_def)
    ultimately show ?thesis using Cons.IH [of s] by simp
  next
    case False
    then have r: "room s = Suc (room (put_byte b s))" by (rule room_step) (use False in \<open>simp_all add: put_byte_def\<close>)
    have "room s < 4294967296" using unat_bound [of "floppy_buffer_size s"] by (simp add: room_def less_imp_diff_less)
    then obtain k where k: "room (put_byte b s) = k" "k < 4294967295" using r by simp
    have p: "put_byte b s = s\<lparr>fm := (fm s)\<lparr>ram := (ram (fm s))(floppy_buffer s + floppy_buffer_index s := b)\<rparr>,
      floppy_buffer_index := floppy_buffer_index s + 1\<rparr>" using False by (simp add: put_byte_def)
    have "length (take k bs) < 2 ^ 32 - 1" using k(2) by (simp add: min_less_iff_disj)
    from placed_Cons [OF this] have "placed (ram (fm s)) (floppy_buffer s + floppy_buffer_index s) (take (Suc k) (b # bs))
      = placed ((ram (fm s))(floppy_buffer s + floppy_buffer_index s := b)) (floppy_buffer s + floppy_buffer_index s + 1) (take k bs)"
      by simp
    moreover have "fold put_byte (b # bs) s = fold put_byte bs (put_byte b s)" by simp
    ultimately show ?thesis unfolding Cons.IH r k(1) by (simp add: p add_ac)
  qed
qed simp

text \<open>Port accesses only change the hardware.\<close>

lemma f_in_set: "f_in P p s = (fst (port_byte_in P p (hw (fm s))), set_hw (snd (port_byte_in P p (hw (fm s)))) s)"
  by (simp add: f_in_def set_hw_def case_prod_beta)

lemma f_out_set: "f_out P p v s = set_hw (port_byte_out P p v (hw (fm s))) s"
  by (simp add: f_out_def set_hw_def)

lemma read_callback_put:
  "read_callback P s = put_byte (fst (port_byte_in P DATA_FIFO (hw (fm s)))) (set_hw (snd (port_byte_in P DATA_FIFO (hw (fm s)))) s)"
  by (simp add: read_callback_def f_in_set put_byte_def set_hw_def)

text \<open>
  An execution phase of \<open>N\<close> bytes: after \<open>i\<close> of them the driver is in state \<open>g i\<close> and the controller,
  apart from the time until it is ready, in state \<open>st i\<close>; a call of the callback moves one byte.
\<close>

definition streams ::
  "('h \<Rightarrow> FDC) \<Rightarrow> nat \<Rightarrow> ('h FLOPPY \<Rightarrow> 'h FLOPPY \<Rightarrow> bool) \<Rightarrow> (nat \<Rightarrow> 'h FLOPPY) \<Rightarrow> (nat \<Rightarrow> FDC) \<Rightarrow> nat \<Rightarrow> bool" where
  "streams view d moves g st N \<longleftrightarrow>
     (\<forall>i < N. \<forall>h. view h = (st i)\<lparr>waits := 0\<rparr> \<longrightarrow>
        (\<exists>h' k. moves (set_hw h (g i)) (set_hw h' (g (Suc i))) \<and> k < d \<and> view h' = (st (Suc i))\<lparr>waits := k\<rparr>))
     \<and> (\<forall>i \<le> N. executing (st i) \<longleftrightarrow> i < N)"

lemma executing_waits [simp]: "executing (c\<lparr>waits := k\<rparr>) = executing c"
  by (simp add: executing_def)

lemma streamsD:
  assumes "streams view d moves g st N"
  shows "i < N \<Longrightarrow> view h = (st i)\<lparr>waits := 0\<rparr> \<Longrightarrow>
      \<exists>h' k. moves (set_hw h (g i)) (set_hw h' (g (Suc i))) \<and> k < d \<and> view h' = (st (Suc i))\<lparr>waits := k\<rparr>"
    and "i \<le> N \<Longrightarrow> executing (st i) \<longleftrightarrow> i < N"
  using assms unfolding streams_def by blast+

text \<open>A read: the driver has stored \<open>i\<close> bytes, the controller sends the others.\<close>

definition sent :: "FDC \<Rightarrow> byte list \<Rightarrow> byte list \<Rightarrow> nat \<Rightarrow> FDC" where
  "sent c data res i = c\<lparr>phase := (if i = length data then Result res else Sending (drop i data) res)\<rparr>"

lemma fold_put_byte_DOR: "fold put_byte data (s\<lparr>DOR := x\<rparr>) = (fold put_byte data s)\<lparr>DOR := x\<rparr>"
  by (simp add: fold_put_byte room_def)

text \<open>A write: what the callback hands out next, and the state after it.\<close>

definition next_byte :: "'h FLOPPY \<Rightarrow> byte" where
  "next_byte s = (if floppy_buffer_size s \<le> floppy_buffer_index s then 0 else ram (fm s) (floppy_buffer s + floppy_buffer_index s))"

definition advance :: "'h FLOPPY \<Rightarrow> 'h FLOPPY" where
  "advance s = (if floppy_buffer_size s \<le> floppy_buffer_index s then s else s\<lparr>floppy_buffer_index := floppy_buffer_index s + 1\<rparr>)"

fun outgoing :: "nat \<Rightarrow> 'h FLOPPY \<Rightarrow> byte list" where
  "outgoing 0 s = []"
| "outgoing (Suc n) s = next_byte s # outgoing n (advance s)"

lemma length_outgoing [simp]: "length (outgoing n s) = n"
  by (induction n arbitrary: s) simp_all

lemma outgoing_nth: "i < n \<Longrightarrow> outgoing n s ! i = next_byte ((advance ^^ i) s)"
  by (induction n arbitrary: s i) (auto simp: nth_Cons funpow_swap1 split: nat.split)

lemma advance_hw [simp]: "next_byte (set_hw h s) = next_byte s" "advance (set_hw h s) = set_hw h (advance s)"
  by (simp_all add: next_byte_def advance_def set_hw_def)

lemma advance_pow_hw [simp]: "(advance ^^ n) (set_hw h s) = set_hw h ((advance ^^ n) s)"
  by (induction n) simp_all

lemma outgoing_hw [simp]: "outgoing n (set_hw h s) = outgoing n s"
  by (induction n arbitrary: s) simp_all

lemma advance_DOR: "(advance ^^ n) (s\<lparr>DOR := x\<rparr>) = ((advance ^^ n) s)\<lparr>DOR := x\<rparr>"
  by (induction n) (simp_all add: advance_def)

lemma outgoing_DOR: "outgoing n (s\<lparr>DOR := x\<rparr>) = outgoing n s"
proof (induction n arbitrary: s)
  case (Suc n)
  have "advance (s\<lparr>DOR := x\<rparr>) = (advance s)\<lparr>DOR := x\<rparr>" "next_byte (s\<lparr>DOR := x\<rparr>) = next_byte s"
    by (simp_all add: advance_def next_byte_def)
  then show ?case using Suc.IH [of "advance s"] by simp
qed simp

lemma room_advance: "\<not> floppy_buffer_size s \<le> floppy_buffer_index s \<Longrightarrow> room s = Suc (room (advance s))"
  by (rule room_step) (simp_all add: advance_def)

text \<open>What is written: the buffer from the index on, then zeros.\<close>

lemma advance_pow: "(advance ^^ n) s = s\<lparr>floppy_buffer_index := floppy_buffer_index s + of_nat (min n (room s))\<rparr>"
proof (induction n arbitrary: s)
  case (Suc n)
  show ?case
  proof (cases "floppy_buffer_size s \<le> floppy_buffer_index s")
    case True
    then have "room s = 0" "advance s = s" by (simp_all add: room_def word_le_nat_alt advance_def)
    then show ?thesis using Suc.IH [of s] by (simp add: funpow_swap1)
  next
    case False
    then have "advance s = s\<lparr>floppy_buffer_index := floppy_buffer_index s + 1\<rparr>" by (simp add: advance_def)
    then show ?thesis using Suc.IH [of "advance s"] room_advance [OF False] by (simp add: funpow_swap1 add_ac)
  qed
qed simp

lemma outgoing_map:
  "outgoing n s = map (\<lambda>i. if i < room s then ram (fm s) (floppy_buffer s + floppy_buffer_index s + of_nat i) else 0) [0..<n]"
proof (rule nth_equalityI)
  fix i
  assume i: "i < length (outgoing n s)"
  let ?k = "floppy_buffer_index s + of_nat (min i (room s))"
  have "floppy_buffer_size s \<le> ?k \<longleftrightarrow> \<not> i < room s"
  proof -
    have "room s < 4294967296" using unat_bound [of "floppy_buffer_size s"] by (simp add: room_def less_imp_diff_less)
    then have u: "unat (of_nat (min i (room s)) :: u32) = min i (room s)" by (subst unat_of_nat_u32) auto
    show ?thesis
    proof (cases "floppy_buffer_size s \<le> floppy_buffer_index s")
      case True
      then have "room s = 0" by (simp add: room_def word_le_nat_alt)
      then show ?thesis using True by simp
    next
      case False
      then have r: "unat (floppy_buffer_index s) + room s = unat (floppy_buffer_size s)" by (simp add: room_def word_le_nat_alt)
      then have "unat (floppy_buffer_index s) + min i (room s) < 4294967296" using unat_bound [of "floppy_buffer_size s"] by linarith
      then have "unat ?k = unat (floppy_buffer_index s) + min i (room s)" by (subst unat_add_u32) (simp_all add: u)
      then show ?thesis using r by (auto simp: word_le_nat_alt min_def)
    qed
  qed
  then show "outgoing n s ! i = map (\<lambda>i. if i < room s then ram (fm s) (floppy_buffer s + floppy_buffer_index s + of_nat i) else 0) [0..<n] ! i"
    using i by (simp add: outgoing_nth advance_pow next_byte_def min_def add.assoc)
qed simp

lemma write_callback_out: "write_callback P s = set_hw (port_byte_out P 0x3F5 (next_byte s) (hw (fm s))) (advance s)"
  by (simp add: write_callback_def next_byte_def advance_def f_out_def set_hw_def Let_def)

definition received :: "FDC \<Rightarrow> byte list \<Rightarrow> byte list \<Rightarrow> nat \<Rightarrow> FDC" where
  "received c vals res i =
     (if i = length vals then c\<lparr>phase := Result res, accepted := vals\<rparr>
      else c\<lparr>phase := Receiving (length vals - i) (take i vals) res\<rparr>)"

text \<open>The error that result bytes stand for.\<close>

definition result_error :: "byte list \<Rightarrow> u32" where
  "result_error res = calculate_error (res ! 0) (res ! 1) (res ! 2) (res ! 6)"

definition clean :: "byte list \<Rightarrow> bool" where
  "clean res \<longleftrightarrow> length res = 7 \<and> result_error res = 0"

subsection \<open>The interface\<close>

locale fdc =
  fixes P :: "'h PORTS" and view :: "'h \<Rightarrow> FDC" and respond :: "byte list \<Rightarrow> FDC_REPLY" and d :: nat
  assumes delay: "d \<le> 600"
    and status: "\<And>h. \<exists>h'. port_byte_in P 0x3F4 h = (status_of (view h), h') \<and> view h' = (view h)\<lparr>waits := waits (view h) - 1\<rparr>"
    and send: "\<And>h b bs res. waits (view h) = 0 \<Longrightarrow> phase (view h) = Sending (b # bs) res \<Longrightarrow>
      \<exists>h' k. port_byte_in P 0x3F5 h = (b, h') \<and> k < d
        \<and> view h' = (view h)\<lparr>phase := (if bs = [] then Result res else Sending bs res), waits := k\<rparr>"
    and result: "\<And>h b bs. waits (view h) = 0 \<Longrightarrow> phase (view h) = Result (b # bs) \<Longrightarrow>
      \<exists>h' k. port_byte_in P 0x3F5 h = (b, h') \<and> k < d
        \<and> view h' = (view h)\<lparr>phase := (if bs = [] then Command [] else Result bs), waits := k\<rparr>"
    and command: "\<And>h cs c. waits (view h) = 0 \<Longrightarrow> phase (view h) = Command cs \<Longrightarrow>
      \<exists>k < d. view (port_byte_out P 0x3F5 c h) = (view h)\<lparr>phase := collected respond (cs @ [c]), waits := k\<rparr>"
    and receive: "\<And>h n got res c. waits (view h) = 0 \<Longrightarrow> phase (view h) = Receiving n got res \<Longrightarrow>
      \<exists>k < d. view (port_byte_out P 0x3F5 c h) = (if n \<le> 1 then (view h)\<lparr>phase := Result res, accepted := got @ [c], waits := k\<rparr>
        else (view h)\<lparr>phase := Receiving (n - 1) (got @ [c]) res, waits := k\<rparr>)"
    and motor: "\<And>h v. bit v 2 \<Longrightarrow> view (port_byte_out P 0x3F2 v h) = view h"
begin

abbreviation ctl :: "'h FLOPPY \<Rightarrow> FDC" where
  "ctl s \<equiv> view (hw (fm s))"

lemma poll:
  obtains h' where "get_MSR P s = (status_of (ctl s), set_hw h' s)" "view h' = (ctl s)\<lparr>waits := waits (ctl s) - 1\<rparr>"
  using status [of "hw (fm s)"] by (auto simp: get_MSR_def f_in_set)

text \<open>The handshake succeeds when the controller is ready within the polls.\<close>

lemma write_cmd_loop_ctl:
  assumes "phase (ctl s) = Command cs" "waits (ctl s) < n"
  shows "\<exists>h' k. write_cmd_loop P n c s = (E_FLOPPY_NO_ERROR, set_hw h' s) \<and> k < d
    \<and> view h' = (ctl s)\<lparr>phase := collected respond (cs @ [c]), waits := k\<rparr>"
  using assms
proof (induction n arbitrary: s)
  case (Suc n)
  obtain h1 where h1: "get_MSR P s = (status_of (ctl s), set_hw h1 s)" "view h1 = (ctl s)\<lparr>waits := waits (ctl s) - 1\<rparr>"
    using poll by blast
  show ?case
  proof (cases "waits (ctl s) = 0")
    case True
    obtain k where k: "k < d" "view (port_byte_out P 0x3F5 c h1) = (view h1)\<lparr>phase := collected respond (cs @ [c]), waits := k\<rparr>"
      using command [of h1 cs c] h1(2) True Suc.prems(1) by auto
    then show ?thesis using h1 True status_bits(1) [of "ctl s"]
      by (intro exI [of _ "port_byte_out P 0x3F5 c h1"] exI [of _ k]) (simp add: send_FIFO_def f_out_set)
  next
    case False
    then have "phase (ctl (set_hw h1 s)) = Command cs" "waits (ctl (set_hw h1 s)) < n" using h1(2) Suc.prems by simp_all
    from Suc.IH [OF this] show ?thesis using h1 False status_bits(1) [of "ctl s"] by simp
  qed
qed simp

lemma read_data_loop_ctl:
  assumes "phase (ctl s) = Result (b # bs)" "waits (ctl s) < n"
  shows "\<exists>h' k. read_data_loop P n s = (b, set_hw h' s) \<and> k < d
    \<and> view h' = (ctl s)\<lparr>phase := (if bs = [] then Command [] else Result bs), waits := k\<rparr>"
  using assms
proof (induction n arbitrary: s)
  case (Suc n)
  obtain h1 where h1: "get_MSR P s = (status_of (ctl s), set_hw h1 s)" "view h1 = (ctl s)\<lparr>waits := waits (ctl s) - 1\<rparr>"
    using poll by blast
  show ?case
  proof (cases "waits (ctl s) = 0")
    case True
    obtain h' k where k: "port_byte_in P 0x3F5 h1 = (b, h')" "k < d"
      "view h' = (view h1)\<lparr>phase := (if bs = [] then Command [] else Result bs), waits := k\<rparr>"
      using result [of h1 b bs] h1(2) True Suc.prems(1) by auto
    then show ?thesis using h1 True status_bits(1) [of "ctl s"]
      by (intro exI [of _ h'] exI [of _ k]) (simp add: get_FIFO_def f_in_set)
  next
    case False
    then have "phase (ctl (set_hw h1 s)) = Result (b # bs)" "waits (ctl (set_hw h1 s)) < n" using h1(2) Suc.prems by simp_all
    from Suc.IH [OF this] show ?thesis using h1 False status_bits(1) [of "ctl s"] by simp
  qed
qed simp

lemma write_cmds_ctl:
  assumes "phase (ctl s) = Command cs" "waits (ctl s) < d" "length cs + length bs \<le> 9" "bs \<noteq> []"
  shows "\<exists>h' k. write_cmds P bs s = set_hw h' s \<and> k < d \<and> view h' = (ctl s)\<lparr>phase := collected respond (cs @ bs), waits := k\<rparr>"
  using assms
proof (induction bs arbitrary: s cs)
  case (Cons b bs)
  obtain h1 k where h1: "write_cmd_loop P 600 b s = (E_FLOPPY_NO_ERROR, set_hw h1 s)" "k < d"
    "view h1 = (ctl s)\<lparr>phase := collected respond (cs @ [b]), waits := k\<rparr>"
    using write_cmd_loop_ctl [OF Cons.prems(1) less_le_trans [OF Cons.prems(2) delay]] by blast
  show ?case
  proof (cases "bs = []")
    case True
    then show ?thesis using h1 by (intro exI [of _ h1] exI [of _ k]) (simp add: floppy_write_cmd_def)
  next
    case False
    have c: "phase (ctl (set_hw h1 s)) = Command (cs @ [b])" "waits (ctl (set_hw h1 s)) < d" "length (cs @ [b]) + length bs \<le> 9"
      using h1 Cons.prems(3) False by (cases bs; simp add: collected_def)+
    from Cons.IH [OF this False] show ?thesis using h1 by (simp add: floppy_write_cmd_def)
  qed
qed simp

lemma read_datas_ctl:
  assumes "phase (ctl s) = Result (res @ r)" "waits (ctl s) < d" "res \<noteq> []"
  shows "\<exists>h' k. read_datas P (length res) s = (res, set_hw h' s) \<and> k < d
    \<and> view h' = (ctl s)\<lparr>phase := (if r = [] then Command [] else Result r), waits := k\<rparr>"
  using assms
proof (induction res arbitrary: s)
  case (Cons b bs)
  have "phase (ctl s) = Result (b # (bs @ r))" using Cons.prems(1) by simp
  from read_data_loop_ctl [OF this less_le_trans [OF Cons.prems(2) delay]]
  obtain h1 k where h1: "read_data_loop P 600 s = (b, set_hw h1 s)" "k < d"
    "view h1 = (ctl s)\<lparr>phase := (if bs @ r = [] then Command [] else Result (bs @ r)), waits := k\<rparr>" by blast
  show ?case
  proof (cases "bs = []")
    case True
    then show ?thesis using h1 by (intro exI [of _ h1] exI [of _ k]) (simp add: floppy_read_data_def)
  next
    case False
    then have "phase (ctl (set_hw h1 s)) = Result (bs @ r)" "waits (ctl (set_hw h1 s)) < d" using h1 by simp_all
    from Cons.IH [OF this False] obtain h' k' where r: "read_datas P (length bs) (set_hw h1 s) = (bs, set_hw h' s)" "k' < d"
      "view h' = (ctl s)\<lparr>phase := (if r = [] then Command [] else Result r), waits := k'\<rparr>" using h1(3) by auto
    then show ?thesis using h1(1) by (intro exI [of _ h'] exI [of _ k']) (simp add: floppy_read_data_def)
  qed
qed simp

subsection \<open>The execution phase\<close>

lemma wait_ready_ctl: "\<exists>h'. wait_ready P s = Some (set_hw h' s) \<and> view h' = (ctl s)\<lparr>waits := 0\<rparr>"
proof (induction "waits (ctl s)" arbitrary: s)
  case 0
  obtain h1 where h1: "get_MSR P s = (status_of (ctl s), set_hw h1 s)" "view h1 = (ctl s)\<lparr>waits := waits (ctl s) - 1\<rparr>"
    using poll by blast
  then show ?case using 0 status_bits(1) [of "ctl s"] by (intro exI [of _ h1]) (subst wait_ready.simps, simp)
next
  case (Suc w)
  obtain h1 where h1: "get_MSR P s = (status_of (ctl s), set_hw h1 s)" "view h1 = (ctl s)\<lparr>waits := waits (ctl s) - 1\<rparr>"
    using poll by blast
  have w: "w = waits (ctl (set_hw h1 s))" using h1(2) Suc.hyps(2) by simp
  have "waits (ctl s) \<noteq> 0" using Suc.hyps(2) by simp
  then have "wait_ready P s = wait_ready P (set_hw h1 s)" using h1(1) status_bits(1) [of "ctl s"] by (subst wait_ready.simps) simp
  then show ?case using Suc.hyps(1) [OF w] h1(2) by simp
qed

text \<open>The rest of the bytes when the controller was not ready after one, or the results.\<close>

lemma call_while_ready_stream:
  assumes str: "streams view d (\<lambda>s s'. callback s = s') g st N"
    and "i < N" "view h = (st i)\<lparr>waits := 0\<rparr>"
  shows "\<exists>j h' k. i < j \<and> j \<le> N \<and> call_while_ready P callback (set_hw h (g i)) = Some (set_hw h' (g j))
    \<and> k < d \<and> view h' = (st j)\<lparr>waits := k\<rparr>"
  using assms(2,3)
proof (induction "N - i" arbitrary: i h)
  case (Suc m)
  obtain h1 where h1: "get_MSR P (set_hw h (g i)) = (status_of (view h), set_hw h1 (g i))" "view h1 = (st i)\<lparr>waits := 0\<rparr>"
    using poll [of "set_hw h (g i)"] Suc.prems(2) by auto
  have ex: "executing (view h)" using streamsD(2) [OF str, of i] Suc.prems by simp
  obtain h2 k where h2: "callback (set_hw h1 (g i)) = set_hw h2 (g (Suc i))" "k < d" "view h2 = (st (Suc i))\<lparr>waits := k\<rparr>"
    using streamsD(1) [OF str Suc.prems(1) h1(2)] by blast
  have step: "call_while_ready P callback (set_hw h (g i)) = call_while_ready P callback (set_hw h2 (g (Suc i)))"
    using h1(1) status_bits(3) [of "view h"] ex Suc.prems(2) h2(1) by (subst call_while_ready.simps) simp
  obtain h3 where h3: "get_MSR P (set_hw h2 (g (Suc i))) = (status_of (view h2), set_hw h3 (g (Suc i)))"
    "view h3 = (view h2)\<lparr>waits := waits (view h2) - 1\<rparr>"
    using poll [of "set_hw h2 (g (Suc i))"] by auto
  show ?case
  proof (cases "Suc i = N \<or> k \<noteq> 0")
    case True
    then have "\<not> (executing (view h2) \<and> waits (view h2) = 0)" using h2(3) streamsD(2) [OF str, of "Suc i"] Suc.prems(1) by auto
    then have "status_of (view h2) AND 0xA0 \<noteq> 0xA0" using status_bits(3) [of "view h2"] by auto
    then have "call_while_ready P callback (set_hw h2 (g (Suc i))) = Some (set_hw h3 (g (Suc i)))"
      using h3(1) by (subst call_while_ready.simps) simp
    then show ?thesis using step h2(2,3) h3(2) Suc.prems(1)
      by (intro exI [of _ "Suc i"] exI [of _ h3] exI [of _ "k - 1"]) auto
  next
    case False
    then have "m = N - Suc i" "Suc i < N" "view h2 = (st (Suc i))\<lparr>waits := 0\<rparr>" using h2(3) Suc.prems(1) Suc.hyps(2) by simp_all
    from Suc.hyps(1) [OF this] show ?thesis unfolding step by (metis Suc_lessD)
  qed
qed simp

lemma execute_stream:
  assumes str: "streams view d (\<lambda>s s'. callback s = s') g st N"
    and "i \<le> N" "view h = (st i)\<lparr>waits := k\<rparr>" "k < d"
  shows "\<exists>h' k'. execute P callback (set_hw h (g i)) = Some (set_hw h' (g N)) \<and> k' < d \<and> view h' = (st N)\<lparr>waits := k'\<rparr>"
  using assms(2-)
proof (induction "N - i" arbitrary: i h k rule: less_induct)
  case less
  obtain h1 where h1: "get_MSR P (set_hw h (g i)) = (status_of (view h), set_hw h1 (g i))"
    "view h1 = (view h)\<lparr>waits := waits (view h) - 1\<rparr>"
    using poll [of "set_hw h (g i)"] by auto
  have ex: "executing (view h) \<longleftrightarrow> i < N" using streamsD(2) [OF str less.prems(1)] less.prems(2) by simp
  show ?case
  proof (cases "i = N")
    case True
    then have "execute P callback (set_hw h (g i)) = Some (set_hw h1 (g i))"
      using h1(1) status_bits(2) [of "view h"] ex by (subst execute.simps) simp
    then show ?thesis using True h1(2) less.prems by (intro exI [of _ h1] exI [of _ "k - 1"]) simp
  next
    case False
    then have i: "i < N" using less.prems(1) by simp
    obtain h2 where h2: "wait_ready P (set_hw h1 (g i)) = Some (set_hw h2 (g i))" "view h2 = (st i)\<lparr>waits := 0\<rparr>"
      using wait_ready_ctl [of "set_hw h1 (g i)"] h1(2) less.prems(2) by auto
    obtain j h3 k3 where h3: "i < j" "j \<le> N" "call_while_ready P callback (set_hw h2 (g i)) = Some (set_hw h3 (g j))" "k3 < d"
      "view h3 = (st j)\<lparr>waits := k3\<rparr>"
      using call_while_ready_stream [OF str i h2(2)] by blast
    have step: "execute P callback (set_hw h (g i)) = execute P callback (set_hw h3 (g j))"
      using h1(1) h2(1) h3(3) status_bits(2) [of "view h"] ex i by (subst execute.simps) simp
    have "N - j < N - i" using h3(1) i by simp
    from less.hyps [OF this h3(2,5,4)] show ?thesis unfolding step .
  qed
qed

lemma streams_read:
  assumes "\<And>s. moves s (put_byte (fst (port_byte_in P 0x3F5 (hw (fm s)))) (set_hw (snd (port_byte_in P 0x3F5 (hw (fm s)))) s))"
  shows "streams view d moves (\<lambda>i. fold put_byte (take i data) s) (sent c data res) (length data)"
  unfolding streams_def
proof (intro conjI allI impI)
  fix i h
  assume i: "i < length data" and h: "view h = (sent c data res i)\<lparr>waits := 0\<rparr>"
  then have "waits (view h) = 0" "phase (view h) = Sending (data ! i # drop (Suc i) data) res"
    by (simp_all add: sent_def Cons_nth_drop_Suc)
  from send [OF this] obtain h' k where p: "port_byte_in P 0x3F5 h = (data ! i, h')" "k < d"
    "view h' = (view h)\<lparr>phase := (if drop (Suc i) data = [] then Result res else Sending (drop (Suc i) data) res), waits := k\<rparr>" by blast
  let ?g = "\<lambda>i. fold put_byte (take i data) s"
  have "moves (set_hw h (?g i)) (set_hw h' (?g (Suc i)))"
    using assms [of "set_hw h (?g i)"] p(1) i by (simp add: take_Suc_conv_app_nth)
  moreover have "view h' = (sent c data res (Suc i))\<lparr>waits := k\<rparr>" using p(3) h i by (auto simp: sent_def)
  ultimately show "\<exists>h' k. moves (set_hw h (?g i)) (set_hw h' (?g (Suc i))) \<and> k < d \<and> view h' = (sent c data res (Suc i))\<lparr>waits := k\<rparr>"
    using p(2) by blast
next
  fix i
  assume "i \<le> length data"
  then show "executing (sent c data res i) \<longleftrightarrow> i < length data" by (simp add: sent_def executing_def)
qed

lemma execute_read:
  assumes "phase (ctl s) = (if data = [] then Result res else Sending data res)" "waits (ctl s) < d"
  shows "\<exists>h' k. execute P (read_callback P) s = Some (set_hw h' (fold put_byte data s)) \<and> k < d
    \<and> view h' = (ctl s)\<lparr>phase := Result res, waits := k\<rparr>"
proof -
  have str: "streams view d (\<lambda>s s'. read_callback P s = s') (\<lambda>i. fold put_byte (take i data) s) (sent (ctl s) data res) (length data)"
    by (rule streams_read) (simp add: read_callback_put)
  have "ctl s = (sent (ctl s) data res 0)\<lparr>waits := waits (ctl s)\<rparr>" using assms(1) by (auto simp: sent_def)
  from execute_stream [OF str le0 this assms(2)] show ?thesis by (simp add: sent_def set_hw_same)
qed

subsection \<open>A transfer\<close>

lemma motor_ctl:
  assumes "bit (DOR s) 2"
  shows "\<exists>h'. floppy_motor P on dv s = set_hw h' (s\<lparr>DOR := DOR (floppy_motor P on dv s)\<rparr>)
    \<and> view h' = ctl s \<and> bit (DOR (floppy_motor P on dv s)) 2"
proof -
  let ?d = "if on then (DOR s AND 0x0f) OR ucast (push_bit (unat dv + 4) (1 :: i32)) else DOR s AND 0x0f"
  have k: "(0x0f :: byte) = mask 4" by (simp add: mask_eq_exp_minus_1)
  have b: "bit ?d 2" unfolding k using assms by (auto simp: bit_or_iff bit_and_iff bit_mask_iff)
  have d: "DOR (floppy_motor P on dv s) = ?d" by (simp add: floppy_motor_def f_out_set Let_def)
  have "view (port_byte_out P 0x3F2 ?d (hw (fm s))) = ctl s" by (rule motor [OF b])
  then show ?thesis unfolding d using b
    by (intro exI [of _ "port_byte_out P 0x3F2 ?d (hw (fm s))"]) (simp add: floppy_motor_def f_out_set Let_def)
qed

text \<open>A write: the driver takes the bytes from the buffer, and pads them when it is exhausted.\<close>

lemma streams_write:
  assumes mv: "\<And>h i. i < length vals \<Longrightarrow> moves (set_hw h (g i)) (set_hw (port_byte_out P 0x3F5 (vals ! i) h) (g (Suc i)))"
  shows "streams view d moves g (received c vals res) (length vals)"
  unfolding streams_def
proof (intro conjI allI impI)
  fix i h
  assume i: "i < length vals" and h: "view h = (received c vals res i)\<lparr>waits := 0\<rparr>"
  then have "waits (view h) = 0" "phase (view h) = Receiving (length vals - i) (take i vals) res"
    by (simp_all add: received_def)
  from receive [OF this, of "vals ! i"] obtain k where k: "k < d"
    "view (port_byte_out P 0x3F5 (vals ! i) h) = (if length vals - i \<le> 1
      then (view h)\<lparr>phase := Result res, accepted := take i vals @ [vals ! i], waits := k\<rparr>
      else (view h)\<lparr>phase := Receiving (length vals - i - 1) (take i vals @ [vals ! i]) res, waits := k\<rparr>)" by blast
  have t: "take i vals @ [vals ! i] = take (Suc i) vals" using i by (simp add: take_Suc_conv_app_nth)
  have p: "view (port_byte_out P 0x3F5 (vals ! i) h) = (received c vals res (Suc i))\<lparr>waits := k\<rparr>"
  proof (cases "Suc i = length vals")
    case True
    then have "length vals - i \<le> 1" "take (Suc i) vals = vals" by simp_all
    then show ?thesis using k(2) h i True unfolding t by (simp add: received_def)
  next
    case False
    then have "\<not> length vals - i \<le> 1" using i by linarith
    then show ?thesis using k(2) h i False unfolding t by (simp add: received_def)
  qed
  show "\<exists>h' k. moves (set_hw h (g i)) (set_hw h' (g (Suc i))) \<and> k < d \<and> view h' = (received c vals res (Suc i))\<lparr>waits := k\<rparr>"
    by (intro exI conjI) (rule mv [OF i], rule k(1), rule p)
next
  fix i
  assume "i \<le> length vals"
  then show "executing (received c vals res i) \<longleftrightarrow> i < length vals" by (simp add: received_def executing_def)
qed

lemma execute_write:
  assumes "phase (ctl s) = Receiving n [] res" "waits (ctl s) < d" "0 < n"
  shows "\<exists>h' k. execute P (write_callback P) s = Some (set_hw h' ((advance ^^ n) s)) \<and> k < d
    \<and> view h' = (ctl s)\<lparr>phase := Result res, accepted := outgoing n s, waits := k\<rparr>"
proof -
  have str: "streams view d (\<lambda>s s'. write_callback P s = s') (\<lambda>i. (advance ^^ i) s) (received (ctl s) (outgoing n s) res) (length (outgoing n s))"
    by (rule streams_write) (simp add: write_callback_out outgoing_nth)
  have "ctl s = (received (ctl s) (outgoing n s) res 0)\<lparr>waits := waits (ctl s)\<rparr>" using assms(1,3) by (auto simp: received_def)
  from execute_stream [OF str le0 this assms(2)] show ?thesis by (simp add: received_def)
qed

text \<open>One attempt, for an execution phase that leads the driver to state \<open>t\<close> and the controller to \<open>Q\<close>.\<close>

lemma pio_round:
  assumes idle: "fdc_idle d (ctl s)" "bit (DOR s) 2"
    and cmds: "length cmds = 9"
    and res: "length res = 7"
    and exec: "\<And>h x. phase (view h) = start_phase (respond cmds) \<Longrightarrow> waits (view h) < d \<Longrightarrow>
      \<exists>h'. execute P callback (set_hw h (s\<lparr>DOR := x\<rparr>)) = Some (set_hw h' (t\<lparr>DOR := x\<rparr>))
        \<and> phase (view h') = Result res \<and> waits (view h') < d \<and> Q (view h')"
    and Q: "\<And>c p k. Q c \<Longrightarrow> Q (c\<lparr>phase := p, waits := k\<rparr>)"
  shows "\<exists>h' dor. pio_attempts P drive cmds callback (Suc n) e s =
      (if result_error res = 0
       then Some (E_FLOPPY_NO_ERROR, floppy_motor P False (drive_number drive) (set_hw h' (t\<lparr>DOR := dor\<rparr>)))
       else if result_error res = E_FLOPPY_NOT_WRITABLE
       then Some (result_error res OR ED_FLOPPY OR E_ERROR, set_hw h' (t\<lparr>DOR := dor\<rparr>))
       else pio_attempts P drive cmds callback n (result_error res) (set_hw h' (t\<lparr>DOR := dor\<rparr>)))
    \<and> bit dor 2 \<and> fdc_idle d (view h') \<and> Q (view h')"
proof -
  obtain h1 d1 where h1: "floppy_motor P True (drive_number drive) s = set_hw h1 (s\<lparr>DOR := d1\<rparr>)" "view h1 = ctl s" "bit d1 2"
    using motor_ctl [OF idle(2)] by blast
  let ?s = "s\<lparr>DOR := d1\<rparr>"
  have c1: "phase (ctl (set_hw h1 ?s)) = Command []" "waits (ctl (set_hw h1 ?s)) < d" using idle(1) h1(2) by (simp_all add: fdc_idle_def)
  have l: "length ([] :: byte list) + length cmds \<le> 9" "cmds \<noteq> []" using cmds by auto
  obtain h2 k2 where h2: "write_cmds P cmds (set_hw h1 ?s) = set_hw h2 ?s" "k2 < d"
    "view h2 = (ctl s)\<lparr>phase := start_phase (respond cmds), waits := k2\<rparr>"
    using write_cmds_ctl [OF c1 l] h1(2) cmds by (auto simp: collected_def)
  have "phase (view h2) = start_phase (respond cmds)" "waits (view h2) < d" using h2 by simp_all
  from exec [OF this] obtain h3 where h3: "execute P callback (set_hw h2 ?s) = Some (set_hw h3 (t\<lparr>DOR := d1\<rparr>))"
    "phase (view h3) = Result res" "waits (view h3) < d" "Q (view h3)" by blast
  let ?t = "set_hw h3 (t\<lparr>DOR := d1\<rparr>)"
  have "phase (ctl ?t) = Result (res @ [])" "waits (ctl ?t) < d" "res \<noteq> []" using h3 res by auto
  from read_datas_ctl [OF this] obtain h4 k4 where h4: "read_datas P 7 ?t = (res, set_hw h4 (t\<lparr>DOR := d1\<rparr>))" "k4 < d"
    "view h4 = (view h3)\<lparr>phase := Command [], waits := k4\<rparr>" using res by auto
  show ?thesis
  proof (intro exI conjI)
    show "pio_attempts P drive cmds callback (Suc n) e s =
      (if result_error res = 0
       then Some (E_FLOPPY_NO_ERROR, floppy_motor P False (drive_number drive) (set_hw h4 (t\<lparr>DOR := d1\<rparr>)))
       else if result_error res = E_FLOPPY_NOT_WRITABLE
       then Some (result_error res OR ED_FLOPPY OR E_ERROR, set_hw h4 (t\<lparr>DOR := d1\<rparr>))
       else pio_attempts P drive cmds callback n (result_error res) (set_hw h4 (t\<lparr>DOR := d1\<rparr>)))"
      using h1(1) h2(1) h3(1) h4(1) by (simp add: result_error_def)
    show "bit d1 2" by (rule h1(3))
    show "fdc_idle d (view h4)" using h4 by (simp add: fdc_idle_def)
    show "Q (view h4)" using h3(4) h4(3) Q by simp
  qed
qed

lemma pio_attempt:
  assumes idle: "fdc_idle d (ctl s)" "bit (DOR s) 2"
    and cmds: "length cmds = 9"
    and res: "clean res"
    and exec: "\<And>h x. phase (view h) = start_phase (respond cmds) \<Longrightarrow> waits (view h) < d \<Longrightarrow>
      \<exists>h'. execute P callback (set_hw h (s\<lparr>DOR := x\<rparr>)) = Some (set_hw h' (t\<lparr>DOR := x\<rparr>))
        \<and> phase (view h') = Result res \<and> waits (view h') < d \<and> Q (view h')"
    and Q: "\<And>c p k. Q c \<Longrightarrow> Q (c\<lparr>phase := p, waits := k\<rparr>)"
  shows "\<exists>h' dor. pio_attempts P drive cmds callback (Suc n) e s = Some (E_FLOPPY_NO_ERROR, set_hw h' (t\<lparr>DOR := dor\<rparr>))
    \<and> bit dor 2 \<and> fdc_idle d (view h') \<and> Q (view h')"
proof -
  have r: "length res = 7" "result_error res = 0" using res by (simp_all add: clean_def)
  obtain h4 d4 where h4: "pio_attempts P drive cmds callback (Suc n) e s
      = Some (E_FLOPPY_NO_ERROR, floppy_motor P False (drive_number drive) (set_hw h4 (t\<lparr>DOR := d4\<rparr>)))"
    "bit d4 2" "fdc_idle d (view h4)" "Q (view h4)"
    using pio_round [OF idle cmds r(1) exec Q, of drive n e] r(2) by auto
  have "bit (DOR (set_hw h4 (t\<lparr>DOR := d4\<rparr>))) 2" using h4(2) by simp
  from motor_ctl [OF this, of False "drive_number drive"] obtain h5 dor where h5:
    "floppy_motor P False (drive_number drive) (set_hw h4 (t\<lparr>DOR := d4\<rparr>)) = set_hw h5 (t\<lparr>DOR := dor\<rparr>)" "view h5 = view h4" "bit dor 2"
    by (auto simp: set_hw_def)
  then show ?thesis using h4 by (intro exI [of _ h5] exI [of _ dor]) simp
qed

text \<open>Attempts that fail: each of them goes through an execution phase of its own.\<close>

lemma pio_errors:
  assumes cmds: "length cmds = 9" "respond cmds = Sends data res" "length res = 7"
    and err: "result_error res \<noteq> 0" "result_error res \<noteq> E_FLOPPY_NOT_WRITABLE"
    and idle: "fdc_idle d (ctl s)" "bit (DOR s) 2"
  shows "\<exists>h' dor. pio_attempts P drive cmds (read_callback P) n e s
      = Some ((if n = 0 then e else result_error res) OR E_ERROR OR ED_FLOPPY, set_hw h' ((fold put_byte (concat (replicate n data)) s)\<lparr>DOR := dor\<rparr>))
    \<and> fdc_idle d (view h')"
  using idle
proof (induction n arbitrary: e s)
  case 0
  then show ?case by (intro exI [of _ "hw (fm s)"] exI [of _ "DOR s"]) simp
next
  case (Suc n)
  let ?t = "fold put_byte data s"
  have ex: "\<exists>h'. execute P (read_callback P) (set_hw h (s\<lparr>DOR := x\<rparr>)) = Some (set_hw h' (?t\<lparr>DOR := x\<rparr>))
      \<and> phase (view h') = Result res \<and> waits (view h') < d \<and> True"
    if "phase (view h) = start_phase (respond cmds)" "waits (view h) < d" for h x
    using execute_read [of "set_hw h (s\<lparr>DOR := x\<rparr>)" data res] that cmds(2) by (auto simp: fold_put_byte_DOR)
  obtain h1 d1 where r: "pio_attempts P drive cmds (read_callback P) (Suc n) e s
      = pio_attempts P drive cmds (read_callback P) n (result_error res) (set_hw h1 (?t\<lparr>DOR := d1\<rparr>))" "bit d1 2" "fdc_idle d (view h1)"
    using pio_round [OF Suc.prems cmds(1,3) ex, of drive n e] err by auto
  have "fdc_idle d (ctl (set_hw h1 (?t\<lparr>DOR := d1\<rparr>)))" "bit (DOR (set_hw h1 (?t\<lparr>DOR := d1\<rparr>))) 2" using r by simp_all
  from Suc.IH [OF this, of "result_error res"] show ?case unfolding r(1) by (simp add: fold_put_byte_DOR set_hw_DOR)
qed

end

end
