(* ===== verification/Floppy_Dma.thy ===== *)
theory Floppy_Dma
  imports Floppy_Pio Cpu
begin

text \<open>
  Transfers by DMA, \<^verbatim>\<open>drivers/floppy/floppy_dma.c\<close>, and the initialisation of
  \<^verbatim>\<open>drivers/floppy/floppy.c\<close>. The driver waits for a flag that the interrupt handler clears; what happens
  between two reads of the flag, the interrupt and the transfer into the buffer, is a
  parameter \<open>idle\<close>, and a wait that never ends is \<^term>\<open>None\<close>. The address of the buffer is a parameter.
\<close>

definition floppy_dmalen :: u32 where [simp]: "floppy_dmalen = 0x8000"

definition irq6_handler :: "'h FLOPPY \<Rightarrow> 'h FLOPPY" where
  "irq6_handler s = s\<lparr>floppy_dma_waiting := False\<rparr>"

partial_function (option) floppy_wait :: "('h FLOPPY \<Rightarrow> 'h FLOPPY) \<Rightarrow> 'h FLOPPY \<Rightarrow> 'h FLOPPY option" where
  "floppy_wait idle s =
     (if floppy_dma_waiting s then floppy_wait idle (idle s) else Some (s\<lparr>floppy_dma_waiting := True\<rparr>))"

text \<open>The bytes of the union's word.\<close>

definition word_byte :: "u32 \<Rightarrow> nat \<Rightarrow> byte" where
  "word_byte w i = ucast (drop_bit (8 * i) w)"

definition floppy_dma_init :: "'h PORTS \<Rightarrow> u32 \<Rightarrow> FloppyTransmitDirection \<Rightarrow> u32 \<Rightarrow> 'h FLOPPY \<Rightarrow> u32 \<times> 'h FLOPPY" where
  "floppy_dma_init P dmabuf dir sz s =
     (let a = dmabuf; c = sz - 1
      in if floppy_dmalen < sz then (E_FLOPPY_DMA_BUFFER_BIG OR ED_FLOPPY OR E_ERROR, s)
         else if drop_bit 24 a \<noteq> 0 \<or> drop_bit 16 c \<noteq> 0 \<or> drop_bit 16 ((a AND 0xffff) + c) \<noteq> 0
         then (E_FLOPPY_DMA_BUFFER_INVALID_LOC OR ED_FLOPPY OR E_ERROR, s)
         else let mode = (case dir of floppy_dir_read \<Rightarrow> 0x46 | floppy_dir_write \<Rightarrow> 0x4a)
              in (E_FLOPPY_NO_ERROR,
                  s\<lparr>fm := (fm s)\<lparr>hw := bytes_out P
                      [(0x0a, 0x06), (0x0c, 0xff), (0x04, word_byte a 0), (0x04, word_byte a 1), (0x81, word_byte a 2),
                       (0x0c, 0xff), (0x05, word_byte c 0), (0x05, word_byte c 1), (0x0b, mode), (0x0a, 0x02)]
                      (hw (fm s))\<rparr>\<rparr>))"

text \<open>Seeking and calibrating, \<open>n\<close> attempts left.\<close>

fun seek_attempts ::
  "'h PORTS \<Rightarrow> ('h FLOPPY \<Rightarrow> 'h FLOPPY) \<Rightarrow> nat \<Rightarrow> byte \<Rightarrow> u32 \<Rightarrow> FLOPPY_DEVICE \<Rightarrow> 'h FLOPPY \<Rightarrow> (u32 \<times> 'h FLOPPY) option" where
  "seek_attempts P idle 0 cyli head drive s =
     Some (E_FLOPPY_EXHAUSTED OR ED_FLOPPY OR E_ERROR, floppy_motor P False (drive_number drive) s)"
| "seek_attempts P idle (Suc n) cyli head drive s = do {
     let s = write_cmds P [SEEK, ucast (push_bit 2 head), cyli] s;
     s \<leftarrow> floppy_wait idle s;
     let ((st0, cyl), s) = floppy_sense_interrupt P s;
     if st0 AND 0xc0 \<noteq> 0 then seek_attempts P idle n cyli head drive s
     else if cyl = ucast cyli then Some (E_FLOPPY_NO_ERROR, floppy_motor P False (drive_number drive) s)
     else seek_attempts P idle n cyli head drive s
   }"

definition floppy_seek ::
  "'h PORTS \<Rightarrow> ('h FLOPPY \<Rightarrow> 'h FLOPPY) \<Rightarrow> byte \<Rightarrow> u32 \<Rightarrow> FLOPPY_DEVICE \<Rightarrow> 'h FLOPPY \<Rightarrow> (u32 \<times> 'h FLOPPY) option" where
  "floppy_seek P idle cyli head drive s =
     seek_attempts P idle 10 cyli head drive (floppy_motor P True (drive_number drive) s)"

definition f_print :: "'h PORTS \<Rightarrow> string \<Rightarrow> 'h FLOPPY \<Rightarrow> 'h FLOPPY option" where
  "f_print P msg s = map_option (\<lambda>m. s\<lparr>fm := m\<rparr>) (kprint P (bytes_of msg @ [0]) (fm s))"

fun calibrate_attempts ::
  "'h PORTS \<Rightarrow> ('h FLOPPY \<Rightarrow> 'h FLOPPY) \<Rightarrow> nat \<Rightarrow> FLOPPY_DEVICE \<Rightarrow> 'h FLOPPY \<Rightarrow> (i32 \<times> 'h FLOPPY) option" where
  "calibrate_attempts P idle 0 drive s = do {
     s \<leftarrow> f_print P ''Floppy calibrate: 10 retries exhausted'' s;
     Some (-1, floppy_motor P False (drive_number drive) s)
   }"
| "calibrate_attempts P idle (Suc n) drive s = do {
     let s = write_cmds P [RECALIBRATE, 0] s;
     s \<leftarrow> floppy_wait idle s;
     let ((st0, cyl), s) = floppy_sense_interrupt P s;
     if st0 AND 0xc0 \<noteq> 0 then do { s \<leftarrow> f_print P ''Floppy calibrate: st0'' s; calibrate_attempts P idle n drive s }
     else if cyl = 0 then Some (0, floppy_motor P False (drive_number drive) s)
     else calibrate_attempts P idle n drive s
   }"

definition floppy_calibrate ::
  "'h PORTS \<Rightarrow> ('h FLOPPY \<Rightarrow> 'h FLOPPY) \<Rightarrow> FLOPPY_DEVICE \<Rightarrow> 'h FLOPPY \<Rightarrow> (i32 \<times> 'h FLOPPY) option" where
  "floppy_calibrate P idle drive s = calibrate_attempts P idle 10 drive (floppy_motor P True (drive_number drive) s)"

definition floppy_reset ::
  "'h PORTS \<Rightarrow> ('h FLOPPY \<Rightarrow> 'h FLOPPY) \<Rightarrow> FLOPPY_DEVICE \<Rightarrow> 'h FLOPPY \<Rightarrow> (i32 \<times> 'h FLOPPY) option" where
  "floppy_reset P idle drive s = do {
     let s = f_out P DIGITAL_OUTPUT_REGISTER 0x0c (f_out P DIGITAL_OUTPUT_REGISTER 0x00 s);
     s \<leftarrow> floppy_wait idle s;
     let (_, s) = floppy_sense_interrupt P s;
     let s = f_out P CONFIGURATION_CONTROL_REGISTER 0x00 s;
     let s = write_cmds P [SPECIFY, 0xdf, 0x02] s;
     (r, s) \<leftarrow> floppy_calibrate P idle drive s;
     Some (if r \<noteq> 0 then -1 else 0, s)
   }"

fun track_attempts ::
  "'h PORTS \<Rightarrow> ('h FLOPPY \<Rightarrow> 'h FLOPPY) \<Rightarrow> u32 \<Rightarrow> FLOPPY_DEVICE \<Rightarrow> FloppyTransmitDirection \<Rightarrow> u32 \<Rightarrow> byte list \<Rightarrow> nat \<Rightarrow> u32
   \<Rightarrow> 'h FLOPPY \<Rightarrow> (u32 \<times> 'h FLOPPY) option" where
  "track_attempts P idle dmabuf drive dir sz cmds 0 error s = Some (error OR ED_FLOPPY OR E_ERROR, s)"
| "track_attempts P idle dmabuf drive dir sz cmds (Suc n) error s = do {
     let s = floppy_motor P True (drive_number drive) s;
     let (_, s) = floppy_dma_init P dmabuf dir sz s;
     let s = write_cmds P cmds s;
     s \<leftarrow> floppy_wait idle s;
     let (st, s) = read_datas P 7 s;
     let error = calculate_error (st ! 0) (st ! 1) (st ! 2) (st ! 6);
     if error = 0 then Some (E_FLOPPY_NO_ERROR, floppy_motor P False (drive_number drive) s)
     else if error = E_FLOPPY_NOT_WRITABLE then Some (error OR ED_FLOPPY OR E_ERROR, s)
     else track_attempts P idle dmabuf drive dir sz cmds n error s
   }"

definition floppy_do_track ::
  "'h PORTS \<Rightarrow> ('h FLOPPY \<Rightarrow> 'h FLOPPY) \<Rightarrow> u32 \<Rightarrow> FLOPPY_DEVICE \<Rightarrow> DMA \<Rightarrow> FloppyTransmitDirection \<Rightarrow> u32 \<Rightarrow> u32 \<Rightarrow> 'h FLOPPY
   \<Rightarrow> ((u32 \<times> u32) \<times> 'h FLOPPY) option" where
  "floppy_do_track P idle dmabuf drive dma dir sz seg_read s =
     (if type drive = F_NO_DRIVE then Some ((E_FLOPPY_NO_DRIVE OR ED_FLOPPY OR E_ERROR, seg_read), s)
      else do {
        let s = select_drive (drive_number drive) s;
        let cmd = (case dir of floppy_dir_read \<Rightarrow> READ_DATA | floppy_dir_write \<Rightarrow> WRITE_DATA) OR MT OR MF;
        let (_, final, seg_read) = command_extent drive dma sz;
        (e0, s) \<leftarrow> floppy_seek P idle (ucast (cylinder dma)) 0 drive s;
        if e0 \<noteq> 0 then Some ((-1, seg_read), s)
        else do {
          (e1, s) \<leftarrow> floppy_seek P idle (ucast (cylinder dma)) 1 drive s;
          if e1 \<noteq> 0 then Some ((-1, seg_read), s)
          else do {
            (error, s) \<leftarrow> track_attempts P idle dmabuf drive dir sz (command_bytes cmd dma final) 20 E_FLOPPY_NO_ERROR s;
            Some ((error, seg_read), s)
          }
        }
      })"

definition f_copy :: "u32 \<Rightarrow> u32 \<Rightarrow> i32 \<Rightarrow> 'h FLOPPY \<Rightarrow> 'h FLOPPY" where
  "f_copy source dest n s = s\<lparr>fm := (fm s)\<lparr>ram := flat_memcpy (ram (fm s)) source dest n\<rparr>\<rparr>"

partial_function (option) read_dma_loop ::
  "'h PORTS \<Rightarrow> ('h FLOPPY \<Rightarrow> 'h FLOPPY) \<Rightarrow> u32 \<Rightarrow> FLOPPY_DEVICE \<Rightarrow> u32 \<Rightarrow> u32 \<Rightarrow> u32 \<Rightarrow> u32 \<Rightarrow> u32 \<Rightarrow> 'h FLOPPY
   \<Rightarrow> (u32 \<times> 'h FLOPPY) option" where
  "read_dma_loop P idle dmabuf drive buffer sectors lba total_sectors seg_read s =
     (if total_sectors < sectors
      then do {
        ((error, seg_read), s) \<leftarrow> floppy_do_track P idle dmabuf drive (lba_2_chs (lba + total_sectors) drive) floppy_dir_read
          (math_min (512 * (sectors - total_sectors)) (512 * 8)) seg_read s;
        if error AND E_ERROR \<noteq> 0 then Some (error, s)
        else read_dma_loop P idle dmabuf drive buffer sectors lba (total_sectors + seg_read) seg_read
               (f_copy dmabuf (buffer + total_sectors * 512) (512 * seg_read) s)
      }
      else Some (0, s))"

definition read_floppy_dma ::
  "'h PORTS \<Rightarrow> ('h FLOPPY \<Rightarrow> 'h FLOPPY) \<Rightarrow> u32 \<Rightarrow> FLOPPY_DEVICE \<Rightarrow> u32 \<Rightarrow> u32 \<Rightarrow> u32 \<Rightarrow> u32 \<Rightarrow> 'h FLOPPY
   \<Rightarrow> (u32 \<times> 'h FLOPPY) option" where
  "read_floppy_dma P idle dmabuf drive buffer sectors lba seg_read s =
     read_dma_loop P idle dmabuf drive buffer sectors lba 0 seg_read s"

partial_function (option) write_dma_loop ::
  "'h PORTS \<Rightarrow> ('h FLOPPY \<Rightarrow> 'h FLOPPY) \<Rightarrow> u32 \<Rightarrow> FLOPPY_DEVICE \<Rightarrow> u32 \<Rightarrow> u32 \<Rightarrow> u32 \<Rightarrow> u32 \<Rightarrow> u32 \<Rightarrow> 'h FLOPPY
   \<Rightarrow> (u32 \<times> 'h FLOPPY) option" where
  "write_dma_loop P idle dmabuf drive buffer sectors lba total_sectors seg_read s =
     (if total_sectors < sectors
      then let sz = math_min (512 * (sectors - total_sectors)) (512 * 8) in do {
        ((error, seg_read), s) \<leftarrow> floppy_do_track P idle dmabuf drive (lba_2_chs (lba + total_sectors) drive) floppy_dir_write
          sz seg_read (f_copy buffer dmabuf sz s);
        if error AND E_ERROR \<noteq> 0 then Some (error, s)
        else write_dma_loop P idle dmabuf drive buffer sectors lba (total_sectors + seg_read) seg_read s
      }
      else Some (0, s))"

definition write_floppy_dma ::
  "'h PORTS \<Rightarrow> ('h FLOPPY \<Rightarrow> 'h FLOPPY) \<Rightarrow> u32 \<Rightarrow> FLOPPY_DEVICE \<Rightarrow> u32 \<Rightarrow> u32 \<Rightarrow> u32 \<Rightarrow> u32 \<Rightarrow> 'h FLOPPY
   \<Rightarrow> (u32 \<times> 'h FLOPPY) option" where
  "write_floppy_dma P idle dmabuf drive buffer sectors lba seg_read s =
     write_dma_loop P idle dmabuf drive buffer sectors lba 0 seg_read s"

definition init_floppy_dma ::
  "'h PORTS \<Rightarrow> 's isr_t option list \<Rightarrow> 's isr_t option \<Rightarrow> 'h FLOPPY \<Rightarrow> 's isr_t option list \<times> 'h FLOPPY" where
  "init_floppy_dma P handlers handler s = (register_interrupt_handler handlers IRQ6 handler, set_DOR P 0x0c s)"

subsection \<open>Initialisation\<close>

datatype FloppyMode = Floppy_DMA | Floppy_PIO

definition floppy_init ::
  "'h PORTS \<Rightarrow> FloppyMode \<Rightarrow> 's isr_t option list \<Rightarrow> 's isr_t option \<Rightarrow> FLOPPY_DEVICE \<times> FLOPPY_DEVICE \<Rightarrow> 'h FLOPPY
   \<Rightarrow> u32 \<times> FloppyMode \<times> 's isr_t option list \<times> (FLOPPY_DEVICE \<times> FLOPPY_DEVICE) \<times> 'h FLOPPY" where
  "floppy_init P mode handlers handler floppies s =
     (let error = 0;
          s = write_cmds P [PERPENDICULAR_MODE, push_bit 2 3, VERSION] s;
          (version, s) = floppy_read_data P s;
          error = (if version \<noteq> 0x90 then error OR E_FLOPPY_OLD_DEVICE OR ED_FLOPPY else error);
          s = write_cmds P [CONFIGURE, 0x00, 0x52, 0x00, MT OR LOCK] s;
          (lock, s) = floppy_read_data P s;
          error = (if lock \<noteq> 0x10 then error OR E_FLOPPY_CANNOT_LOCK OR ED_FLOPPY else error);
          (handlers, s) = (case mode of
              Floppy_DMA \<Rightarrow> init_floppy_dma P handlers handler s
            | Floppy_PIO \<Rightarrow> (handlers, init_floppy_pio P s));
          (floppies, s) = floppy_detect_drives P floppies s
      in (error, mode, handlers, floppies, s))"

end
