(* ===== verification/Floppy_Theorems.thy ===== *)
theory Floppy_Theorems
  imports Floppy_Dma
begin

text \<open>
  The properties of the floppy driver: its geometry, its handshake with the controller, the window
  its DMA programming accepts, and what happens when there is no drive.
\<close>

subsection \<open>The handshake\<close>

text \<open>The state after \<open>k\<close> reads of the main status register, and whether the next read shows it ready.\<close>

fun polls :: "'h PORTS \<Rightarrow> nat \<Rightarrow> 'h FLOPPY \<Rightarrow> 'h FLOPPY" where
  "polls P 0 s = s"
| "polls P (Suc k) s = polls P k (snd (get_MSR P s))"

definition ready_at :: "'h PORTS \<Rightarrow> 'h FLOPPY \<Rightarrow> nat \<Rightarrow> bool" where
  "ready_at P s k \<longleftrightarrow> fst (get_MSR P (polls P k s)) AND RQM \<noteq> 0"

definition first_ready :: "'h PORTS \<Rightarrow> nat \<Rightarrow> 'h FLOPPY \<Rightarrow> nat option" where
  "first_ready P n s = find (ready_at P s) [0..<n]"

lemma find_map_Suc: "find Q (map Suc xs) = map_option Suc (find (Q \<circ> Suc) xs)"
  by (induction xs) auto

lemma first_ready_Suc:
  "first_ready P (Suc n) s =
     (if ready_at P s 0 then Some 0 else map_option Suc (first_ready P n (snd (get_MSR P s))))"
proof -
  have "[0..<Suc n] = 0 # map Suc [0..<n]" by (simp add: map_Suc_upt upt_conv_Cons del: upt_Suc)
  moreover have "ready_at P s \<circ> Suc = ready_at P (snd (get_MSR P s))" by (simp add: fun_eq_iff ready_at_def)
  ultimately show ?thesis by (simp add: first_ready_def find_map_Suc del: upt_Suc)
qed

lemma write_cmd_loop_ok:
  "write_cmd_loop P n cmd s =
     (case first_ready P n s of
        Some k \<Rightarrow> (E_FLOPPY_NO_ERROR, send_FIFO P cmd (polls P (Suc k) s))
      | None \<Rightarrow> (E_FLOPPY_TIMEOUT OR ED_FLOPPY OR E_ERROR, polls P n s))"
proof (induction n arbitrary: s)
  case (Suc n)
  show ?case
    by (cases "first_ready P n (snd (get_MSR P s))")
      (auto simp: first_ready_Suc Suc.IH ready_at_def Let_def case_prod_beta)
qed (simp add: first_ready_def)

lemma read_data_loop_ok:
  "read_data_loop P n s =
     (case first_ready P n s of Some k \<Rightarrow> get_FIFO P (polls P (Suc k) s) | None \<Rightarrow> (0, polls P n s))"
proof (induction n arbitrary: s)
  case (Suc n)
  show ?case
    by (cases "first_ready P n (snd (get_MSR P s))")
      (auto simp: first_ready_Suc Suc.IH ready_at_def Let_def case_prod_beta)
qed (simp add: first_ready_def)

subsection \<open>The DMA window\<close>

lemma drop_bit_0_u32: "drop_bit n (w :: u32) = 0 \<longleftrightarrow> unat w < 2 ^ n"
proof -
  have "unat (drop_bit n w) = unat w div 2 ^ n"
    by (subst unat_drop_bit_eq) (rule drop_bit_eq_div)
  then show ?thesis using unat_eq_zero [of "drop_bit n w"] by (auto simp: div_eq_0_iff)
qed

text \<open>
  The controller is programmed when the buffer is not empty, not longer than 32K, below 16M and
  inside one 64K page; otherwise nothing is output.
\<close>

definition dma_fits :: "u32 \<Rightarrow> u32 \<Rightarrow> bool" where
  "dma_fits a sz \<longleftrightarrow> 0 < unat sz \<and> unat sz \<le> 0x8000 \<and> unat a < 2 ^ 24 \<and> unat a mod 2 ^ 16 + unat sz \<le> (2 :: nat) ^ 16"

lemma floppy_dma_init_ok:
  "if dma_fits a sz then fst (floppy_dma_init P a dir sz s) = E_FLOPPY_NO_ERROR
   else fst (floppy_dma_init P a dir sz s) AND E_ERROR \<noteq> 0 \<and> snd (floppy_dma_init P a dir sz s) = s"
proof (cases "sz = 0 \<or> 0x8000 < sz")
  case True
  have "unat (- 1 :: u32) = 2 ^ 32 - 1" by (simp add: unsigned_minus_1_eq_mask mask_eq_exp_minus_1)
  then show ?thesis using True by (auto simp: dma_fits_def floppy_dma_init_def Let_def drop_bit_0_u32 word_less_nat_alt)
next
  case False
  then have l: "0 < unat sz" "unat sz \<le> 0x8000" "unat (sz - 1) = unat sz - 1"
    by (simp_all add: word_less_nat_alt unat_gt_0 unat_minus_one not_less)
  have m: "unat (a AND 0xffff) = unat a mod 2 ^ 16"
  proof -
    have k: "(0xffff :: u32) = mask 16" by (simp add: mask_eq_exp_minus_1)
    show ?thesis unfolding k by (simp add: take_bit_eq_mod unat_mod flip: take_bit_eq_mask)
  qed
  have "unat ((a AND 0xffff) + (sz - 1)) = unat a mod 2 ^ 16 + (unat sz - 1)"
    by (subst unat_add_u32) (use l m in auto)
  then have "dma_fits a sz \<longleftrightarrow> drop_bit 24 a = 0 \<and> drop_bit 16 (sz - 1) = 0 \<and> drop_bit 16 ((a AND 0xffff) + (sz - 1)) = 0"
    unfolding drop_bit_0_u32 dma_fits_def using l by auto
  then show ?thesis using False by (auto simp: floppy_dma_init_def Let_def not_less)
qed

subsection \<open>Properties\<close>

text \<open>C40. The address conversion is exact: on a drive with sectors on its tracks, for every address that the
  drive has, cylinder, head and sector are in range, sectors counting from 1, and they
  determine the address again.\<close>

theorem lba_2_chs_addresses:
  assumes "0 < sectors_per_track drive" "unat lba < unat (cylinders drive) * (2 * unat (sectors_per_track drive))"
    and dma: "dma = lba_2_chs lba drive"
  shows "unat (cylinder dma) < unat (cylinders drive) \<and> unat (head_no dma) < 2
    \<and> 1 \<le> unat (sector dma) \<and> unat (sector dma) \<le> unat (sectors_per_track drive)
    \<and> (unat (cylinder dma) * 2 + unat (head_no dma)) * unat (sectors_per_track drive) + (unat (sector dma) - 1) = unat lba"
proof -
  define n l where "n = unat (sectors_per_track drive)" and "l = unat lba"
  have n: "0 < n" "n < 65536" using assms(1) unsigned_less [of "sectors_per_track drive"] by (simp_all add: n_def unat_gt_0 word_neq_0_conv)
  have c: "unat (cylinders drive) < 65536" using unsigned_less [of "cylinders drive"] by simp
  let ?s = "ucast (sectors_per_track drive) :: u32"
  have s1: "unat ?s = n" using n by (simp add: n_def unsigned_ucast_eq take_bit_eq_mod)
  then have s2: "unat (2 * ?s) = 2 * n" using n by (simp add: unat_word_ariths)
  note s = s1 s2
  have q: "l div (2 * n) < unat (cylinders drive)" using assms(2) unfolding n_def [symmetric] l_def [symmetric]
    by (rule less_mult_imp_div_less)
  have m: "l mod (2 * n) < 2 * n" using n by simp
  then have h: "l mod (2 * n) div n < 2" by (simp add: less_mult_imp_div_less)
  have r: "l mod (2 * n) mod n + 1 \<le> n" using n by (simp add: Suc_le_eq)
  have f: "sectors_per_track drive \<noteq> 0" using assms(1) by auto
  have t: "unat (ucast x :: u16) = unat x" if "unat x < 65536" for x :: u32
    using that by (simp add: unsigned_ucast_eq take_bit_eq_mod)
  have "unat (cylinder dma) = l div (2 * n)"
    unfolding dma lba_2_chs_def Let_def using f q c by (simp add: t unat_div s l_def [symmetric])
  moreover have "unat (head_no dma) = l mod (2 * n) div n"
    unfolding dma lba_2_chs_def Let_def using f h by (simp add: t unat_div unat_mod s l_def [symmetric])
  moreover have "unat (sector dma) = l mod (2 * n) mod n + 1"
  proof -
    have "unat (lba mod (2 * ?s) mod ?s + 1) = l mod (2 * n) mod n + 1"
      using r n by (subst unat_add_u32) (simp_all add: unat_mod s l_def [symmetric])
    then show ?thesis unfolding dma lba_2_chs_def Let_def using f r n by (simp add: t)
  qed
  moreover have "(l div (2 * n) * 2 + l mod (2 * n) div n) * n + l mod (2 * n) mod n = l"
    using div_mult_mod_eq [of "l mod (2 * n)" n] div_mult_mod_eq [of l "2 * n"] by (simp add: algebra_simps)
  ultimately show ?thesis using q h r unfolding n_def [symmetric] l_def [symmetric] by simp
qed

definition demo_floppy :: FLOPPY_DEVICE where
  "demo_floppy = set_floppy_params F_1_44MB_3_5 0 \<lparr>type = F_NO_DRIVE, drive_number = 0, cylinders = 0, heads = 0, sectors_per_track = 0\<rparr>"

theorem lba_2_chs_addresses_witness:
  "unat (cylinder (lba_2_chs 2879 demo_floppy)) < 80 \<and> unat (head_no (lba_2_chs 2879 demo_floppy)) < 2
   \<and> (unat (cylinder (lba_2_chs 2879 demo_floppy)) * 2 + unat (head_no (lba_2_chs 2879 demo_floppy))) * 18
      + (unat (sector (lba_2_chs 2879 demo_floppy)) - 1) = 2879"
proof -
  have p: "unat (sectors_per_track demo_floppy) = 18" "unat (cylinders demo_floppy) = 80"
    by (simp_all add: demo_floppy_def set_floppy_params_def)
  have "0 < sectors_per_track demo_floppy" by (simp add: demo_floppy_def set_floppy_params_def)
  moreover have "unat (2879 :: u32) < unat (cylinders demo_floppy) * (2 * unat (sectors_per_track demo_floppy))"
    unfolding p by simp
  ultimately have "unat (cylinder (lba_2_chs 2879 demo_floppy)) < 80 \<and> unat (head_no (lba_2_chs 2879 demo_floppy)) < 2
    \<and> 1 \<le> unat (sector (lba_2_chs 2879 demo_floppy)) \<and> unat (sector (lba_2_chs 2879 demo_floppy)) \<le> 18
    \<and> (unat (cylinder (lba_2_chs 2879 demo_floppy)) * 2 + unat (head_no (lba_2_chs 2879 demo_floppy))) * 18
      + (unat (sector (lba_2_chs 2879 demo_floppy)) - 1) = unat (2879 :: u32)"
    using lba_2_chs_addresses [of demo_floppy 2879, OF _ _ refl] unfolding p by blast
  moreover have "unat (2879 :: u32) = 2879" by simp
  ultimately show ?thesis by (simp only: simp_thms)
qed

text \<open>Sending a command byte is bounded and exact: the byte goes out once, right after the first
  status read that shows the controller ready; when none of 600 reads does, nothing is sent
  and the result is the timeout error. Reading a result byte waits the same way.\<close>

theorem floppy_handshake:
  "floppy_write_cmd P cmd s =
     (case first_ready P 600 s of
        Some k \<Rightarrow> (E_FLOPPY_NO_ERROR, send_FIFO P cmd (polls P (Suc k) s))
      | None \<Rightarrow> (E_FLOPPY_TIMEOUT OR ED_FLOPPY OR E_ERROR, polls P 600 s))
   \<and> floppy_read_data P s =
     (case first_ready P 600 s of Some k \<Rightarrow> get_FIFO P (polls P (Suc k) s) | None \<Rightarrow> (0, polls P 600 s))"
  by (simp add: floppy_write_cmd_def floppy_read_data_def write_cmd_loop_ok read_data_loop_ok del: polls.simps)

text \<open>A loop without a drive and without progress has no result.\<close>

lemma no_drive_loop_stuck:
  assumes "read_pio_loop P drive sectors lba t0 seg_read s = Some y"
  shows "type drive = F_NO_DRIVE \<longrightarrow> seg_read = 0 \<longrightarrow> \<not> t0 < sectors"
proof -
  have "(\<lambda>((((((P, d), n), l), t), g), x) y. type d = F_NO_DRIVE \<longrightarrow> g = 0 \<longrightarrow> \<not> t < n)
      ((((((P, drive), sectors), lba), t0), seg_read), s) y"
    by (rule read_pio_loop.raw_induct [OF _ assms]) (auto simp: floppy_transfer_pio_def split: if_splits)
  then show ?thesis by simp
qed

lemma no_drive_loop:
  assumes "type drive = F_NO_DRIVE" "0 < sectors"
  shows "read_pio_loop P drive sectors lba 0 0 s = None"
  using no_drive_loop_stuck [of P drive sectors lba 0 0 s] assms
  by (cases "read_pio_loop P drive sectors lba 0 0 s") auto

lemma no_drive_done:
  assumes "type drive = F_NO_DRIVE" "0 < sectors" "sectors \<le> g"
  shows "read_pio_loop P drive sectors lba 0 g s = Some (0, s)"
proof -
  have "read_pio_loop P drive sectors lba g g s = Some (0, s)"
    using leD [OF assms(3)] by (subst read_pio_loop.simps) simp
  then show ?thesis using assms(1,2) by (subst read_pio_loop.simps) (simp add: floppy_transfer_pio_def)
qed

text \<open>Without a drive a read never reports an error: \<^verbatim>\<open>E_FLOPPY_NO_DRIVE\<close> lacks the error bit the loop
  tests and \<^verbatim>\<open>seg_read\<close> keeps what it held. With 0 there the call does not return, and with at
  least the number of sectors it returns success without having read a byte.\<close>

theorem read_floppy_pio_no_drive:
  assumes "type drive = F_NO_DRIVE" "0 < sectors"
  shows "read_floppy_pio P drive buffer sectors lba 0 s = None
    \<and> (sectors \<le> seg_read \<longrightarrow> read_floppy_pio P drive buffer sectors lba seg_read s = Some (0, s\<lparr>floppy_buffer := buffer\<rparr>))"
  using no_drive_loop [OF assms, of P] no_drive_done [OF assms, of _ P] by (simp add: read_floppy_pio_def)

definition demo_fdc :: "tracer FLOPPY" where
  "demo_fdc = \<lparr>fm = \<lparr>ram = (\<lambda>_. 0), hw = \<lparr>trace = [], script = []\<rparr>\<rparr>, DOR = 0, floppy_buffer_index = 0, floppy_buffer_size = 0,
     floppy_buffer = 0, floppy_dma_waiting = True\<rparr>"

theorem read_floppy_pio_no_drive_witness:
  "read_floppy_pio trace_ports (set_floppy_params F_NO_DRIVE 0 demo_floppy) 0x1000 1 0 0 demo_fdc = None
   \<and> fst (the (read_floppy_pio trace_ports (set_floppy_params F_NO_DRIVE 0 demo_floppy) 0x1000 1 0 1 demo_fdc)) = 0"
  using read_floppy_pio_no_drive [of "set_floppy_params F_NO_DRIVE 0 demo_floppy" 1 trace_ports "0x1000" 0 demo_fdc 1]
  by (simp add: set_floppy_params_def)

end
