(* ===== verification/Floppy_Transfer.thy ===== *)
theory Floppy_Transfer
  imports Floppy_Controller Floppy_Theorems
begin

text \<open>
  A read by programmed I/O against a controller that keeps its interface: it returns, with success,
  and the memory holds the bytes of the controller's reply, from the index the driver kept.
\<close>

subsection \<open>The command\<close>

lemma command_extent_fits:
  assumes n: "0 < unat n" and s: "1 \<le> unat (sector dma)"
    and fits: "unat (sector dma) - 1 + unat n \<le> unat (sectors_per_track drive)"
  shows "command_extent drive dma (512 * n) = (n, n + ucast (sector dma) - 1, n)"
proof -
  let ?s = "ucast (sector dma) :: u32" and ?t = "ucast (sectors_per_track drive) :: u32"
  have b: "unat (sectors_per_track drive) < 65536" using unsigned_less [of "sectors_per_track drive", where 'a = nat] by simp
  have u: "unat (ucast x :: u32) = unat x" for x :: u16
  proof -
    have "unat x < 65536" using unsigned_less [of x, where 'a = nat] by simp
    then show ?thesis by (simp add: unsigned_ucast_eq take_bit_eq_mod)
  qed
  have m: "unat (512 * n) = 512 * unat n" using fits b by (subst unat_word_ariths) simp
  have d: "512 * n div 512 = n" unfolding word_unat_eq_iff unat_div m by simp
  have r: "512 * n mod 512 = 0" unfolding word_unat_eq_iff unat_mod m by simp
  have p: "unat (n + ?s) = unat n + unat (sector dma)" using fits b by (subst unat_add_u32) (simp_all add: u)
  have "n + ?s \<noteq> 0" using p n by auto
  then have f: "unat (n + ?s - 1) = unat n + unat (sector dma) - 1" using p by (simp add: unat_minus_one)
  have "\<not> ?t < n + ?s - 1" using fits s n by (simp add: word_less_nat_alt f u)
  then show ?thesis by (simp add: command_extent_def Let_def d r)
qed

text \<open>The command bytes of a transfer of \<open>n\<close> sectors from an address on.\<close>

definition track_command :: "FloppyTransmitDirection \<Rightarrow> FLOPPY_DEVICE \<Rightarrow> u32 \<Rightarrow> u32 \<Rightarrow> byte list" where
  "track_command dir drive lba n =
     (let dma = lba_2_chs lba drive
      in command_bytes (MT OR MF OR (case dir of floppy_dir_write \<Rightarrow> WRITE_DATA | floppy_dir_read \<Rightarrow> READ_DATA)) dma
           (n + ucast (sector dma) - 1))"

lemma track_command_9: "length (track_command dir drive lba n) = 9"
  by (simp add: track_command_def command_bytes_def Let_def)

text \<open>The sectors lie on the track of the first one.\<close>

definition on_track :: "FLOPPY_DEVICE \<Rightarrow> u32 \<Rightarrow> u32 \<Rightarrow> bool" where
  "on_track drive lba n \<longleftrightarrow> 0 < unat n \<and> unat lba mod unat (sectors_per_track drive) + unat n \<le> unat (sectors_per_track drive)"

lemma sector_lba:
  assumes "0 < unat (sectors_per_track drive)"
  shows "unat (sector (lba_2_chs lba drive)) = unat lba mod unat (sectors_per_track drive) + 1"
proof -
  define n where "n = unat (sectors_per_track drive)"
  have n: "0 < n" "n < 65536" using assms unsigned_less [of "sectors_per_track drive", where 'a = nat] by (simp_all add: n_def)
  let ?s = "ucast (sectors_per_track drive) :: u32"
  have s1: "unat ?s = n" using n by (simp add: n_def unsigned_ucast_eq take_bit_eq_mod)
  have s2: "unat (2 * ?s) = 2 * n" using n s1 by (subst unat_word_ariths) simp
  have m: "unat (lba mod (2 * ?s) mod ?s) = unat lba mod n"
    unfolding unat_mod s1 s2 by (simp add: mod_mod_cancel)
  have l: "unat lba mod n < n" using n by simp
  have "unat lba mod n + 1 < 4294967296" using l n by linarith
  then have "unat (lba mod (2 * ?s) mod ?s + 1) = unat lba mod n + 1" by (subst unat_add_u32) (simp_all add: m)
  moreover have "Suc (unat lba mod n) < 65536" using l n by linarith
  moreover have "sectors_per_track drive \<noteq> 0" using assms by auto
  ultimately show ?thesis unfolding lba_2_chs_def Let_def n_def [symmetric]
    by (simp add: unsigned_ucast_eq take_bit_eq_mod)
qed

lemma on_trackD:
  assumes "on_track drive lba n"
  shows "0 < unat n" "unat n < 65536" "1 \<le> unat (sector (lba_2_chs lba drive))"
    "unat (sector (lba_2_chs lba drive)) - 1 + unat n \<le> unat (sectors_per_track drive)"
    "unat (512 * n) = 512 * unat n" "math_min (512 * n) (512 * ucast (sectors_per_track drive)) = 512 * n"
proof -
  have t: "unat (sectors_per_track drive) < 65536" using unsigned_less [of "sectors_per_track drive", where 'a = nat] by simp
  have p: "0 < unat (sectors_per_track drive)" using assms by (auto simp: on_track_def)
  show n: "0 < unat n" "unat n < 65536" using assms t by (auto simp: on_track_def)
  show "1 \<le> unat (sector (lba_2_chs lba drive))"
    "unat (sector (lba_2_chs lba drive)) - 1 + unat n \<le> unat (sectors_per_track drive)"
    using assms sector_lba [OF p, of lba] by (simp_all add: on_track_def)
  show m: "unat (512 * n) = 512 * unat n" using n by (subst unat_word_ariths) simp
  have u: "unat (ucast (sectors_per_track drive) :: u32) = unat (sectors_per_track drive)"
    using t by (simp add: unsigned_ucast_eq take_bit_eq_mod)
  have "unat (512 * ucast (sectors_per_track drive) :: u32) = 512 * unat (sectors_per_track drive)"
    using t u by (subst unat_word_ariths) simp
  then show "math_min (512 * n) (512 * ucast (sectors_per_track drive)) = 512 * n"
    using m assms by (auto simp: math_min_def word_less_nat_alt on_track_def word_unat_eq_iff)
qed

subsection \<open>A transfer inside a track\<close>

text \<open>Result bytes with an error: an attempt is repeated, but not when the disk is write protected.\<close>

definition attempts :: "byte list \<Rightarrow> nat" where
  "attempts res = (if result_error res = E_FLOPPY_NOT_WRITABLE then 1 else 3)"

context fdc
begin

lemma transfer_track:
  assumes drive: "type drive \<noteq> F_NO_DRIVE" and n: "on_track drive lba n"
    and idle: "fdc_idle d (ctl s)" "bit (DOR s) 2" and res: "clean res"
    and exec: "\<And>h x. phase (view h) = start_phase (respond (track_command dir drive lba n)) \<Longrightarrow> waits (view h) < d \<Longrightarrow>
      \<exists>h'. execute P callback (set_hw h (s\<lparr>floppy_buffer_size := 512 * n, DOR := x\<rparr>)) = Some (set_hw h' (t\<lparr>DOR := x\<rparr>))
        \<and> phase (view h') = Result res \<and> waits (view h') < d \<and> Q (view h')"
    and Q: "\<And>c p k. Q c \<Longrightarrow> Q (c\<lparr>phase := p, waits := k\<rparr>)"
  shows "\<exists>h' dor. floppy_transfer_pio P drive (lba_2_chs lba drive) dir (512 * n) seg callback s
      = Some ((E_FLOPPY_NO_ERROR, n), set_hw h' (t\<lparr>DOR := dor\<rparr>))
    \<and> bit dor 2 \<and> fdc_idle d (view h') \<and> Q (view h')"
proof -
  let ?s = "(select_drive (drive_number drive) s)\<lparr>floppy_buffer_size := 512 * n\<rparr>"
  let ?cmds = "track_command dir drive lba n"
  have k: "(0xfc :: byte) = push_bit 2 (mask 6)" by (simp add: mask_eq_exp_minus_1)
  have b: "bit (DOR ?s) 2" using idle(2) unfolding k by (simp add: select_drive_def bit_or_iff bit_and_iff bit_push_bit_iff bit_mask_iff)
  have i: "fdc_idle d (ctl ?s)" using idle(1) by (simp add: select_drive_def)
  have "\<exists>h'. execute P callback (set_hw h (?s\<lparr>DOR := x\<rparr>)) = Some (set_hw h' (t\<lparr>DOR := x\<rparr>))
      \<and> phase (view h') = Result res \<and> waits (view h') < d \<and> Q (view h')"
    if "phase (view h) = start_phase (respond ?cmds)" "waits (view h) < d" for h x
    using exec [OF that, of x] by (simp add: select_drive_def)
  from pio_attempt [OF i b track_command_9 res this] Q
  obtain h' dor where r: "pio_attempts P drive ?cmds callback 3 E_FLOPPY_NO_ERROR ?s
      = Some (E_FLOPPY_NO_ERROR, set_hw h' (t\<lparr>DOR := dor\<rparr>))" "bit dor 2" "fdc_idle d (view h')" "Q (view h')"
    unfolding numeral_3_eq_3 by blast
  have e: "command_extent drive (lba_2_chs lba drive) (512 * n) = (n, n + ucast (sector (lba_2_chs lba drive)) - 1, n)"
    by (rule command_extent_fits [OF on_trackD(1,3,4) [OF n]])
  show ?thesis using r drive e unfolding track_command_def Let_def
    by (intro exI [of _ h'] exI [of _ dor]) (simp add: floppy_transfer_pio_def Let_def)
qed

lemma read_track:
  assumes drive: "type drive \<noteq> F_NO_DRIVE" and n: "on_track drive lba n"
    and idle: "fdc_idle d (ctl s)" "bit (DOR s) 2"
    and reply: "respond (track_command floppy_dir_read drive lba n) = Sends data res" "clean res"
  shows "\<exists>h' dor. read_floppy_pio P drive buffer n lba seg s
      = Some (0, set_hw h' ((fold put_byte data (s\<lparr>floppy_buffer := buffer, floppy_buffer_size := 512 * n\<rparr>))\<lparr>DOR := dor\<rparr>))
    \<and> bit dor 2 \<and> fdc_idle d (view h')"
proof -
  let ?s = "s\<lparr>floppy_buffer := buffer\<rparr>" and ?t = "fold put_byte data (s\<lparr>floppy_buffer := buffer, floppy_buffer_size := 512 * n\<rparr>)"
  have i: "fdc_idle d (ctl ?s)" "bit (DOR ?s) 2" using idle by simp_all
  have "\<exists>h'. execute P (read_callback P) (set_hw h (?s\<lparr>floppy_buffer_size := 512 * n, DOR := x\<rparr>)) = Some (set_hw h' (?t\<lparr>DOR := x\<rparr>))
      \<and> phase (view h') = Result res \<and> waits (view h') < d \<and> True"
    if "phase (view h) = start_phase (respond (track_command floppy_dir_read drive lba n))" "waits (view h) < d" for h x
    using execute_read [of "set_hw h (?s\<lparr>floppy_buffer_size := 512 * n, DOR := x\<rparr>)" data res] that reply(1)
    by (auto simp: fold_put_byte_DOR [where s = "s\<lparr>floppy_buffer := buffer, floppy_buffer_size := 512 * n\<rparr>", simplified])
  from transfer_track [where dir = floppy_dir_read and seg = seg, OF drive n i reply(2) this]
  obtain h' dor where t: "floppy_transfer_pio P drive (lba_2_chs lba drive) floppy_dir_read (512 * n) seg (read_callback P) ?s
      = Some ((E_FLOPPY_NO_ERROR, n), set_hw h' (?t\<lparr>DOR := dor\<rparr>))" "bit dor 2" "fdc_idle d (view h')" by auto
  have z: "0 < n" using on_trackD(1) [OF n] by (simp add: unat_gt_0 word_neq_0_conv)
  have last: "read_pio_loop P drive n lba n n t = Some (0, t)" for t by (subst read_pio_loop.simps) simp
  show ?thesis using t z last unfolding read_floppy_pio_def
    by (intro exI [of _ h'] exI [of _ dor]) (subst read_pio_loop.simps, simp)
qed

lemma attempts_read_error:
  assumes cmds: "length cmds = 9" "respond cmds = Sends data res" "length res = 7"
    and err: "result_error res \<noteq> 0" and idle: "fdc_idle d (ctl s)" "bit (DOR s) 2"
  shows "\<exists>h' dor. pio_attempts P drive cmds (read_callback P) 3 e s
      = Some (result_error res OR E_ERROR OR ED_FLOPPY, set_hw h' ((fold put_byte (concat (replicate (attempts res) data)) s)\<lparr>DOR := dor\<rparr>))
    \<and> fdc_idle d (view h')"
proof (cases "result_error res = E_FLOPPY_NOT_WRITABLE")
  case True
  have "\<exists>h'. execute P (read_callback P) (set_hw h (s\<lparr>DOR := x\<rparr>)) = Some (set_hw h' ((fold put_byte data s)\<lparr>DOR := x\<rparr>))
      \<and> phase (view h') = Result res \<and> waits (view h') < d \<and> True"
    if "phase (view h) = start_phase (respond cmds)" "waits (view h) < d" for h x
    using execute_read [of "set_hw h (s\<lparr>DOR := x\<rparr>)" data res] that cmds(2) by (auto simp: fold_put_byte_DOR)
  from pio_round [OF idle cmds(1,3) this, of drive 2 e] err True obtain h' dor where
    r: "pio_attempts P drive cmds (read_callback P) (Suc 2) e s = Some (result_error res OR ED_FLOPPY OR E_ERROR, set_hw h' ((fold put_byte data s)\<lparr>DOR := dor\<rparr>))"
      "fdc_idle d (view h')" by (auto simp del: pio_attempts.simps)
  have three: "(3 :: nat) = Suc 2" and o: "ED_FLOPPY OR E_ERROR = E_ERROR OR ED_FLOPPY" by simp_all
  show ?thesis unfolding three using r unfolding or.assoc o by (intro exI [of _ h'] exI [of _ dor]) (simp add: attempts_def True del: pio_attempts.simps)
next
  case False
  from pio_errors [OF cmds err False idle, of drive 3 e] show ?thesis using False by (simp add: attempts_def)
qed

lemma read_track_error:
  assumes drive: "type drive \<noteq> F_NO_DRIVE" and n: "on_track drive lba n"
    and idle: "fdc_idle d (ctl s)" "bit (DOR s) 2"
    and reply: "respond (track_command floppy_dir_read drive lba n) = Sends data res" "length res = 7" "result_error res \<noteq> 0"
  shows "\<exists>h' dor. read_floppy_pio P drive buffer n lba seg s
      = Some (result_error res OR E_ERROR OR ED_FLOPPY, set_hw h'
          ((fold put_byte (concat (replicate (attempts res) data)) (s\<lparr>floppy_buffer := buffer, floppy_buffer_size := 512 * n\<rparr>))\<lparr>DOR := dor\<rparr>))
    \<and> fdc_idle d (view h')"
proof -
  let ?u = "s\<lparr>floppy_buffer := buffer, floppy_buffer_size := 512 * n\<rparr>" and ?cmds = "track_command floppy_dir_read drive lba n"
  let ?s = "(select_drive (drive_number drive) (s\<lparr>floppy_buffer := buffer\<rparr>))\<lparr>floppy_buffer_size := 512 * n\<rparr>"
  have k: "(0xfc :: byte) = push_bit 2 (mask 6)" by (simp add: mask_eq_exp_minus_1)
  have b: "bit (DOR ?s) 2" using idle(2) unfolding k by (simp add: select_drive_def bit_or_iff bit_and_iff bit_push_bit_iff bit_mask_iff)
  have i: "fdc_idle d (ctl ?s)" using idle(1) by (simp add: select_drive_def)
  obtain h' dor where r: "pio_attempts P drive ?cmds (read_callback P) 3 E_FLOPPY_NO_ERROR ?s
      = Some (result_error res OR E_ERROR OR ED_FLOPPY, set_hw h' ((fold put_byte (concat (replicate (attempts res) data)) ?s)\<lparr>DOR := dor\<rparr>))"
    "fdc_idle d (view h')"
    using attempts_read_error [OF track_command_9 reply i b] by blast
  have f: "(fold put_byte xs ?s)\<lparr>DOR := dor\<rparr> = (fold put_byte xs ?u)\<lparr>DOR := dor\<rparr>" for xs
    by (simp add: fold_put_byte room_def select_drive_def)
  have e: "command_extent drive (lba_2_chs lba drive) (512 * n) = (n, n + ucast (sector (lba_2_chs lba drive)) - 1, n)"
    by (rule command_extent_fits [OF on_trackD(1,3,4) [OF n]])
  have t: "floppy_transfer_pio P drive (lba_2_chs lba drive) floppy_dir_read (512 * n) seg (read_callback P) (s\<lparr>floppy_buffer := buffer\<rparr>)
      = Some ((result_error res OR E_ERROR OR ED_FLOPPY, n), set_hw h' ((fold put_byte (concat (replicate (attempts res) data)) ?u)\<lparr>DOR := dor\<rparr>))"
    using r(1) drive e unfolding f track_command_def Let_def by (simp add: floppy_transfer_pio_def Let_def)
  have "bit ((result_error res OR E_ERROR OR ED_FLOPPY) AND E_ERROR) 7"
    by (simp add: bit_and_iff bit_or_iff bit_numeral_rec)
  then have m: "(result_error res OR E_ERROR OR ED_FLOPPY) AND E_ERROR \<noteq> 0" by auto
  have z: "0 < n" using on_trackD(1) [OF n] by (simp add: unat_gt_0 word_neq_0_conv)
  show ?thesis unfolding read_floppy_pio_def
    by (intro exI [of _ h'] exI [of _ dor] conjI r(2)) (subst read_pio_loop.simps, use t z m in \<open>simp\<close>)
qed

lemma write_track:
  assumes drive: "type drive \<noteq> F_NO_DRIVE" and n: "on_track drive lba n"
    and idle: "fdc_idle d (ctl s)" "bit (DOR s) 2"
    and reply: "respond (track_command floppy_dir_write drive lba n) = Receives k res" "clean res" "0 < k"
  shows "\<exists>h' dor. write_floppy_pio P drive buffer n lba seg s
      = Some (0, set_hw h' (((advance ^^ k) (s\<lparr>floppy_buffer := buffer, floppy_buffer_size := 512 * n\<rparr>))\<lparr>DOR := dor\<rparr>))
    \<and> bit dor 2 \<and> fdc_idle d (view h')
    \<and> accepted (view h') = outgoing k (s\<lparr>floppy_buffer := buffer, floppy_buffer_size := 512 * n\<rparr>)"
proof -
  let ?s = "s\<lparr>floppy_buffer := buffer\<rparr>" and ?u = "s\<lparr>floppy_buffer := buffer, floppy_buffer_size := 512 * n\<rparr>"
  let ?t = "(advance ^^ k) ?u"
  have i: "fdc_idle d (ctl ?s)" "bit (DOR ?s) 2" using idle by simp_all
  have "\<exists>h'. execute P (write_callback P) (set_hw h (?s\<lparr>floppy_buffer_size := 512 * n, DOR := x\<rparr>)) = Some (set_hw h' (?t\<lparr>DOR := x\<rparr>))
      \<and> phase (view h') = Result res \<and> waits (view h') < d \<and> accepted (view h') = outgoing k ?u"
    if "phase (view h) = start_phase (respond (track_command floppy_dir_write drive lba n))" "waits (view h) < d" for h x
    using execute_write [of "set_hw h (?s\<lparr>floppy_buffer_size := 512 * n, DOR := x\<rparr>)" k res] that reply
    by (auto simp: advance_DOR [where s = ?u, simplified] outgoing_DOR [where s = ?u, simplified])
  from transfer_track [where dir = floppy_dir_write and seg = seg, OF drive n i reply(2) this]
  obtain h' dor where t: "floppy_transfer_pio P drive (lba_2_chs lba drive) floppy_dir_write (512 * n) seg (write_callback P) ?s
      = Some ((E_FLOPPY_NO_ERROR, n), set_hw h' (?t\<lparr>DOR := dor\<rparr>))" "bit dor 2" "fdc_idle d (view h')"
    "accepted (view h') = outgoing k ?u" by auto
  have z: "0 < n" using on_trackD(1) [OF n] by (simp add: unat_gt_0 word_neq_0_conv)
  have last: "write_pio_loop P drive n lba n n t = Some (0, t)" for t by (subst write_pio_loop.simps) simp
  show ?thesis using t z last on_trackD(6) [OF n] unfolding write_floppy_pio_def
    by (intro exI [of _ h'] exI [of _ dor]) (subst write_pio_loop.simps, simp)
qed

end

subsection \<open>A simulated controller\<close>

text \<open>Its ports, ready again after \<open>w\<close> status reads; what it does out of turn is nothing.\<close>

definition fdc_in :: "nat \<Rightarrow> u16 \<Rightarrow> FDC \<Rightarrow> byte \<times> FDC" where
  "fdc_in w p c =
     (if p = 0x3F4 then (status_of c, c\<lparr>waits := waits c - 1\<rparr>)
      else if p = 0x3F5 \<and> waits c = 0 then
        (case phase c of
           Sending (b # bs) res \<Rightarrow> (b, c\<lparr>phase := (if bs = [] then Result res else Sending bs res), waits := w\<rparr>)
         | Result (b # bs) \<Rightarrow> (b, c\<lparr>phase := (if bs = [] then Command [] else Result bs), waits := w\<rparr>)
         | _ \<Rightarrow> (0, c))
      else (0, c))"

definition fdc_out :: "(byte list \<Rightarrow> FDC_REPLY) \<Rightarrow> nat \<Rightarrow> u16 \<Rightarrow> byte \<Rightarrow> FDC \<Rightarrow> FDC" where
  "fdc_out respond w p v c =
     (if p = 0x3F5 \<and> waits c = 0 then
        (case phase c of
           Command cmd \<Rightarrow> c\<lparr>phase := collected respond (cmd @ [v]), waits := w\<rparr>
         | Receiving n got res \<Rightarrow>
             (if n \<le> 1 then c\<lparr>phase := Result res, accepted := got @ [v], waits := w\<rparr>
              else c\<lparr>phase := Receiving (n - 1) (got @ [v]) res, waits := w\<rparr>)
         | _ \<Rightarrow> c)
      else c)"

definition fdc_ports :: "(byte list \<Rightarrow> FDC_REPLY) \<Rightarrow> nat \<Rightarrow> FDC PORTS" where
  "fdc_ports respond w =
     \<lparr>port_byte_in = fdc_in w, port_byte_out = fdc_out respond w, port_word_in = (\<lambda>p c. (0, c)), port_word_out = (\<lambda>p v c. c)\<rparr>"

lemma fdc_sim: "w < d \<Longrightarrow> d \<le> 600 \<Longrightarrow> fdc (fdc_ports respond w) (\<lambda>c. c) respond d"
  by unfold_locales (auto simp: fdc_ports_def fdc_in_def fdc_out_def)

interpretation fdc_sim: fdc "fdc_ports respond 3" "\<lambda>c. c" respond 256 for respond
  by (rule fdc_sim) simp_all

subsection \<open>Properties\<close>

lemma read_track_memory:
  assumes fdc: "fdc P view respond d" and drive: "type drive \<noteq> F_NO_DRIVE" "on_track drive lba n"
    and idle: "fdc_idle d (view (hw (fm s)))" "bit (DOR s) 2"
    and reply: "respond (track_command floppy_dir_read drive lba n) = Sends data res" "clean res"
  shows "\<exists>s'. read_floppy_pio P drive buffer n lba seg s = Some (0, s')
    \<and> ram (fm s') = placed (ram (fm s)) (buffer + floppy_buffer_index s) (take (512 * unat n - unat (floppy_buffer_index s)) data)
    \<and> floppy_buffer_index s' = floppy_buffer_index s + of_nat (min (length data) (512 * unat n - unat (floppy_buffer_index s)))
    \<and> bit (DOR s') 2 \<and> fdc_idle d (view (hw (fm s')))"
proof -
  obtain h' dor where r: "read_floppy_pio P drive buffer n lba seg s
      = Some (0, set_hw h' ((fold put_byte data (s\<lparr>floppy_buffer := buffer, floppy_buffer_size := 512 * n\<rparr>))\<lparr>DOR := dor\<rparr>))"
    "bit dor 2" "fdc_idle d (view h')"
    using fdc.read_track [OF fdc drive idle reply] by blast
  then show ?thesis
    by (intro exI [of _ "set_hw h' (fold put_byte data (s\<lparr>floppy_buffer := buffer, floppy_buffer_size := 512 * n\<rparr>)\<lparr>DOR := dor\<rparr>)"])
      (simp add: fold_put_byte room_def on_trackD(5) [OF drive(2)])
qed

text \<open>C36. A read of sectors on one track by programmed I/O returns and succeeds: on an idle controller that
  keeps its interface and answers the command with data and result bytes without an error, the
  call ends whatever the delays are, and memory differs from before exactly by the data, which
  stands in the buffer from the index on that the driver kept, cut at the size of the read; the
  index has moved behind it, and the controller is idle again with the drive selected.\<close>

theorem read_floppy_pio_transfers:
  assumes "fdc P view respond d" "type drive \<noteq> F_NO_DRIVE" "on_track drive lba n"
    and "fdc_idle d (view (hw (fm s)))" "bit (DOR s) 2"
    and "respond (track_command floppy_dir_read drive lba n) = Sends data res" "clean res"
  shows "\<exists>s'. read_floppy_pio P drive buffer n lba seg s = Some (0, s')
    \<and> ram (fm s') = placed (ram (fm s)) (buffer + floppy_buffer_index s) (take (512 * unat n - unat (floppy_buffer_index s)) data)
    \<and> floppy_buffer_index s' = floppy_buffer_index s + of_nat (min (length data) (512 * unat n - unat (floppy_buffer_index s)))
    \<and> bit (DOR s') 2 \<and> fdc_idle d (view (hw (fm s')))"
  by (rule read_track_memory [OF assms])

text \<open>A controller with one readable sector that takes as much, and a driver that is set up.\<close>

definition demo_reply :: "byte list \<Rightarrow> FDC_REPLY" where
  "demo_reply cmd =
     (if hd cmd = MT OR MF OR READ_DATA then Sends (replicate 512 0x5a) [0, 0, 0, 0, 0, 0, 2] else Receives 512 [0, 0, 0, 0, 0, 0, 2])"

definition demo_pio :: "flat_mem \<Rightarrow> u32 \<Rightarrow> FDC FLOPPY" where
  "demo_pio m i = \<lparr>fm = \<lparr>ram = m, hw = \<lparr>phase = Command [], waits = 2, accepted = []\<rparr>\<rparr>, DOR = 4,
     floppy_buffer_index = i, floppy_buffer_size = 0, floppy_buffer = 0, floppy_dma_waiting = True\<rparr>"

lemma demo_pio_ready:
  "type demo_floppy \<noteq> F_NO_DRIVE" "on_track demo_floppy 0 1"
  "fdc_idle 256 (hw (fm (demo_pio m i)))" "bit (DOR (demo_pio m i)) 2"
  "demo_reply (track_command floppy_dir_read demo_floppy 0 1) = Sends (replicate 512 0x5a) [0, 0, 0, 0, 0, 0, 2]"
  "demo_reply (track_command floppy_dir_write demo_floppy 0 1) = Receives (512 * unat (1 :: u32)) [0, 0, 0, 0, 0, 0, 2]"
  "clean [0, 0, 0, 0, 0, 0, 2]"
  by (simp_all add: demo_floppy_def set_floppy_params_def fdc_idle_def demo_pio_def clean_def result_error_def calculate_error_def
    on_track_def demo_reply_def track_command_def command_bytes_def Let_def)

theorem read_floppy_pio_transfers_witness:
  "\<exists>s'. read_floppy_pio (fdc_ports demo_reply 3) demo_floppy 0x1000 1 0 0 (demo_pio (\<lambda>_. 0) 0) = Some (0, s')
    \<and> ram (fm s') 0x0fff = 0 \<and> ram (fm s') 0x1000 = 0x5a \<and> ram (fm s') 0x11ff = 0x5a \<and> ram (fm s') 0x1200 = 0"
proof -
  obtain s' where r: "read_floppy_pio (fdc_ports demo_reply 3) demo_floppy 0x1000 1 0 0 (demo_pio (\<lambda>_. 0) 0) = Some (0, s')"
    "ram (fm s') = placed (ram (fm (demo_pio (\<lambda>_. 0) 0))) (0x1000 + floppy_buffer_index (demo_pio (\<lambda>_. 0) 0))
       (take (512 * unat (1 :: u32) - unat (floppy_buffer_index (demo_pio (\<lambda>_. 0) 0))) (replicate 512 0x5a))"
    using read_floppy_pio_transfers [OF fdc_sim.fdc_axioms [of demo_reply] demo_pio_ready(1-2) demo_pio_ready(3,4) [of "\<lambda>_. 0" 0]
        demo_pio_ready(5,7), where buffer = "0x1000" and seg = 0] by blast
  have m: "ram (fm s') = placed (\<lambda>_. 0) 0x1000 (replicate 512 0x5a)"
    using r(2) by (simp add: demo_pio_def)
  show ?thesis by (intro exI conjI, rule r(1)) (simp_all add: m placed_def unsigned_minus_1_eq_mask mask_eq_exp_minus_1)
qed

text \<open>
  The index is never set back: once it has reached the size of the read, a read of a track reports
  success and stores nothing.
\<close>

theorem read_floppy_pio_index_kept:
  assumes "fdc P view respond d" "type drive \<noteq> F_NO_DRIVE" "on_track drive lba n"
    and "fdc_idle d (view (hw (fm s)))" "bit (DOR s) 2"
    and "respond (track_command floppy_dir_read drive lba n) = Sends data res" "clean res"
    and full: "512 * unat n \<le> unat (floppy_buffer_index s)"
  shows "\<exists>s'. read_floppy_pio P drive buffer n lba seg s = Some (0, s') \<and> ram (fm s') = ram (fm s)"
  using read_track_memory [OF assms(1-7), of buffer seg] full by auto

theorem read_floppy_pio_index_kept_witness:
  "\<exists>s'. read_floppy_pio (fdc_ports demo_reply 3) demo_floppy 0x1000 1 0 0 (demo_pio (\<lambda>_. 0) 512) = Some (0, s')
    \<and> ram (fm s') = (\<lambda>_. 0)"
proof -
  have "512 * unat (1 :: u32) \<le> unat (floppy_buffer_index (demo_pio (\<lambda>_. 0) 512))" by (simp add: demo_pio_def)
  from read_floppy_pio_index_kept [OF fdc_sim.fdc_axioms [of demo_reply] demo_pio_ready(1-4,5,7) this, where buffer = "0x1000" and seg = 0]
  show ?thesis by (simp add: demo_pio_def)
qed

text \<open>C37. A write of sectors on one track by programmed I/O returns and succeeds: the data the controller
  has then received for the command are the bytes of the buffer from the kept index to the size
  of the write, and zeros for the rest; memory is unchanged.\<close>

theorem write_floppy_pio_transfers:
  assumes fdc: "fdc P view respond d" and drive: "type drive \<noteq> F_NO_DRIVE" "on_track drive lba n"
    and idle: "fdc_idle d (view (hw (fm s)))" "bit (DOR s) 2"
    and reply: "respond (track_command floppy_dir_write drive lba n) = Receives (512 * unat n) res" "clean res"
  shows "\<exists>s'. write_floppy_pio P drive buffer n lba seg s = Some (0, s')
    \<and> accepted (view (hw (fm s'))) =
        map (\<lambda>i. if unat (floppy_buffer_index s) + i < 512 * unat n then ram (fm s) (buffer + floppy_buffer_index s + of_nat i) else 0)
          [0..<512 * unat n]
    \<and> ram (fm s') = ram (fm s) \<and> fdc_idle d (view (hw (fm s')))"
proof -
  have "0 < 512 * unat n" using on_trackD(1) [OF drive(2)] by simp
  from fdc.write_track [OF fdc drive idle reply this, of buffer seg]
  obtain h' dor where r: "write_floppy_pio P drive buffer n lba seg s
      = Some (0, set_hw h' (((advance ^^ (512 * unat n)) (s\<lparr>floppy_buffer := buffer, floppy_buffer_size := 512 * n\<rparr>))\<lparr>DOR := dor\<rparr>))"
    "fdc_idle d (view h')" "accepted (view h') = outgoing (512 * unat n) (s\<lparr>floppy_buffer := buffer, floppy_buffer_size := 512 * n\<rparr>)"
    by blast
  have i: "i < 512 * unat n - unat (floppy_buffer_index s) \<longleftrightarrow> unat (floppy_buffer_index s) + i < 512 * unat n" for i by linarith
  show ?thesis using r
    by (intro exI [of _ "set_hw h' (((advance ^^ (512 * unat n)) (s\<lparr>floppy_buffer := buffer, floppy_buffer_size := 512 * n\<rparr>))\<lparr>DOR := dor\<rparr>)"])
      (simp add: advance_pow outgoing_map room_def on_trackD(5) [OF drive(2)] i)
qed

theorem write_floppy_pio_transfers_witness:
  "\<exists>s'. write_floppy_pio (fdc_ports demo_reply 3) demo_floppy 0x1000 1 0 0 (demo_pio (\<lambda>a. ucast a) 0) = Some (0, s')
    \<and> accepted (hw (fm s')) = map (\<lambda>i. ucast (0x1000 + of_nat i :: u32)) [0..<512]"
proof -
  have e: "[0..<512 * unat (1 :: u32)] = [0..<512]" by (rule arg_cong2 [where f = upt]) simp_all
  have m: "map (\<lambda>i. if unat (floppy_buffer_index (demo_pio ucast 0)) + i < 512 * unat (1 :: u32)
      then ram (fm (demo_pio ucast 0)) (0x1000 + floppy_buffer_index (demo_pio ucast 0) + of_nat i) else 0) [0..<512]
    = map (\<lambda>i. ucast (0x1000 + of_nat i :: u32)) [0..<512]"
    by (rule map_cong [OF refl]) (simp add: demo_pio_def del: upt_rec_numeral)
  show ?thesis
    using write_floppy_pio_transfers [OF fdc_sim.fdc_axioms [of demo_reply] demo_pio_ready(1-2) demo_pio_ready(3,4) [of ucast 0]
        demo_pio_ready(6,7), where buffer = "0x1000" and seg = 0] unfolding e m by blast
qed

text \<open>C38. Errors of the controller are reported: when it answers the command for sectors on one track with
  result bytes that stand for an error, the read returns the code of that error with the error bit
  and the number of the driver, after one attempt for a write protected disk and after three
  otherwise; the data of each attempt is stored behind that of the one before, as far as there
  is room.\<close>

theorem read_floppy_pio_reports_error:
  assumes fdc: "fdc P view respond d" and drive: "type drive \<noteq> F_NO_DRIVE" "on_track drive lba n"
    and idle: "fdc_idle d (view (hw (fm s)))" "bit (DOR s) 2"
    and reply: "respond (track_command floppy_dir_read drive lba n) = Sends data res" "length res = 7" "result_error res \<noteq> 0"
  shows "\<exists>s'. read_floppy_pio P drive buffer n lba seg s = Some (result_error res OR E_ERROR OR ED_FLOPPY, s')
    \<and> ram (fm s') = placed (ram (fm s)) (buffer + floppy_buffer_index s)
        (take (512 * unat n - unat (floppy_buffer_index s))
          (concat (replicate (if result_error res = E_FLOPPY_NOT_WRITABLE then 1 else 3) data)))
    \<and> fdc_idle d (view (hw (fm s')))"
proof -
  let ?u = "s\<lparr>floppy_buffer := buffer, floppy_buffer_size := 512 * n\<rparr>"
  from fdc.read_track_error [OF fdc drive idle reply, of buffer seg] obtain h' dor where
    "read_floppy_pio P drive buffer n lba seg s = Some (result_error res OR E_ERROR OR ED_FLOPPY,
       set_hw h' ((fold put_byte (concat (replicate (attempts res) data)) ?u)\<lparr>DOR := dor\<rparr>))" "fdc_idle d (view h')" by blast
  then show ?thesis by (intro exI [of _ "set_hw h' ((fold put_byte (concat (replicate (attempts res) data)) ?u)\<lparr>DOR := dor\<rparr>)"])
    (simp add: fold_put_byte room_def on_trackD(5) [OF drive(2)] attempts_def)
qed

text \<open>A controller that finds the checksum of the data wrong.\<close>

definition bad_reply :: "byte list \<Rightarrow> FDC_REPLY" where
  "bad_reply cmd = Sends (replicate 256 0x11) [0, 0x20, 0x20, 0, 0, 0, 2]"

theorem read_floppy_pio_reports_error_witness:
  "\<exists>s'. read_floppy_pio (fdc_ports bad_reply 3) demo_floppy 0x1000 1 0 0 (demo_pio (\<lambda>_. 0) 0)
      = Some (E_FLOPPY_CRC_ERROR_IN_DATA OR E_ERROR OR ED_FLOPPY, s')
    \<and> ram (fm s') 0x1000 = 0x11 \<and> ram (fm s') 0x11ff = 0x11 \<and> ram (fm s') 0x1200 = 0"
proof -
  have e: "result_error [0, 0x20, 0x20, 0, 0, 0, 2] = E_FLOPPY_CRC_ERROR_IN_DATA"
    by (simp add: result_error_def calculate_error_def)
  then have "length [0 :: byte, 0x20, 0x20, 0, 0, 0, 2] = 7" "result_error [0, 0x20, 0x20, 0, 0, 0, 2] \<noteq> 0" by simp_all
  from read_floppy_pio_reports_error [where buffer = "0x1000" and seg = 0, OF fdc_sim.fdc_axioms [of bad_reply] demo_pio_ready(1-2)
      demo_pio_ready(3,4) [of "\<lambda>_. 0" 0] bad_reply_def this]
  obtain s' where s': "read_floppy_pio (fdc_ports bad_reply 3) demo_floppy 0x1000 1 0 0 (demo_pio (\<lambda>_. 0) 0)
      = Some (E_FLOPPY_CRC_ERROR_IN_DATA OR E_ERROR OR ED_FLOPPY, s')"
    "ram (fm s') = placed (\<lambda>_. 0) 0x1000 (take 512 (concat (replicate 3 (replicate 256 0x11))))"
    unfolding e by (auto simp: demo_pio_def)
  have "take 512 (concat (replicate 3 (replicate 256 (0x11 :: byte)))) = replicate 512 0x11"
    by (simp add: numeral_3_eq_3 flip: replicate_add)
  then show ?thesis using s' by (intro exI [of _ s']) (simp add: placed_def)
qed

end
