(* ===== verification/Floppy_Archive_Theorems.thy ===== *)
theory Floppy_Archive_Theorems
  imports Floppy_Archive Floppy_Transfer
begin

text \<open>
  The first floppy driver against a controller that keeps the interface, with delays of less than
  the 256 polls the driver spends. It sets its index back, so a command that starts transfers the
  whole buffer; but it looks at the status once only before it starts one.
\<close>

locale quick_fdc = fdc +
  assumes quick: "d \<le> 256"
begin

lemma status_upper:
  "status_of c AND 0xC0 = (if waits c = 0 then 0x80 else 0) OR (case phase c of Sending _ _ \<Rightarrow> 0x40 | Result _ \<Rightarrow> 0x40 | _ \<Rightarrow> 0)"
  by (cases "waits c = 0"; cases "phase c"; simp add: status_of_def)

lemma poll_fifo:
  obtains h' where "f_in P 0x3F4 s = (status_of (ctl s), set_hw h' s)" "view h' = (ctl s)\<lparr>waits := waits (ctl s) - 1\<rparr>"
  using status [of "hw (fm s)"] by (auto simp: f_in_set)

lemma poll_status_ctl:
  assumes want: "want = 0x80 OR (case phase (ctl s) of Sending _ _ \<Rightarrow> 0x40 | Result _ \<Rightarrow> 0x40 | _ \<Rightarrow> 0)"
    and "mbr AND 0xc0 \<noteq> want" "waits (ctl s) < n"
  shows "\<exists>h'. poll_status P want n mbr s = set_hw h' s \<and> view h' = (ctl s)\<lparr>waits := 0\<rparr>"
  using assms
proof (induction n arbitrary: s mbr)
  case (Suc n)
  obtain h1 where h1: "f_in P 0x3F4 s = (status_of (ctl s), set_hw h1 s)" "view h1 = (ctl s)\<lparr>waits := waits (ctl s) - 1\<rparr>"
    using poll_fifo by blast
  have ok: "status_of (ctl s) AND 0xC0 = want \<longleftrightarrow> waits (ctl s) = 0"
    unfolding status_upper Suc.prems(1) by (auto split: FDC_PHASE.split)
  have step: "poll_status P want (Suc n) mbr s = poll_status P want n (status_of (ctl s)) (set_hw h1 s)"
    using h1(1) Suc.prems(2) by simp
  show ?case
  proof (cases "waits (ctl s) = 0")
    case True
    then have "poll_status P want n (status_of (ctl s)) (set_hw h1 s) = set_hw h1 s" using ok by (cases n) simp_all
    then show ?thesis using step h1(2) True by auto
  next
    case False
    have "want = 0x80 OR (case phase (ctl (set_hw h1 s)) of Sending _ _ \<Rightarrow> 0x40 | Result _ \<Rightarrow> 0x40 | _ \<Rightarrow> 0)"
      "status_of (ctl s) AND 0xc0 \<noteq> want" "waits (ctl (set_hw h1 s)) < n"
      using Suc.prems ok False h1(2) by simp_all
    from Suc.IH [OF this] show ?thesis unfolding step using h1(2) by simp
  qed
qed simp

lemma send_params_ctl:
  assumes "phase (ctl s) = Command cmd" "waits (ctl s) < d" "length cmd + length ps \<le> 9" "ps \<noteq> []"
  shows "\<exists>h' k. send_params P ps s = set_hw h' s \<and> k < d \<and> view h' = (ctl s)\<lparr>phase := collected respond (cmd @ ps), waits := k\<rparr>"
  using assms
proof (induction ps arbitrary: s cmd)
  case (Cons p ps)
  have w: "(0x80 :: byte) = 0x80 OR (case phase (ctl s) of Sending _ _ \<Rightarrow> 0x40 | Result _ \<Rightarrow> 0x40 | _ \<Rightarrow> 0)"
    using Cons.prems(1) by simp
  obtain h1 where h1: "poll_status P 0x80 256 0 s = set_hw h1 s" "view h1 = (ctl s)\<lparr>waits := 0\<rparr>"
    using poll_status_ctl [OF w _ less_le_trans [OF Cons.prems(2) quick], of 0] by auto
  obtain k where k: "k < d" "view (port_byte_out P 0x3F5 p h1) = (ctl s)\<lparr>phase := collected respond (cmd @ [p]), waits := k\<rparr>"
    using command [of h1 cmd p] h1(2) Cons.prems(1) by auto
  let ?s = "set_hw (port_byte_out P 0x3F5 p h1) s"
  have step: "send_params P (p # ps) s = send_params P ps ?s" by (simp add: h1(1) f_out_set)
  show ?case
  proof (cases "ps = []")
    case True
    show ?thesis unfolding step unfolding True using k by (intro exI [of _ "port_byte_out P 0x3F5 p h1"] exI [of _ k]) simp
  next
    case False
    then have "phase (ctl ?s) = Command (cmd @ [p])" "waits (ctl ?s) < d" "length (cmd @ [p]) + length ps \<le> 9"
      using k Cons.prems(3) by (cases ps; simp add: collected_def)+
    from Cons.IH [OF this False] show ?thesis unfolding step using k(2) by simp
  qed
qed simp

lemma get_returns_ctl:
  assumes "phase (ctl s) = Result (res @ r)" "waits (ctl s) < d" "res \<noteq> []"
  shows "\<exists>h' k. get_returns P (length res) s = (res, set_hw h' s) \<and> k < d
    \<and> view h' = (ctl s)\<lparr>phase := (if r = [] then Command [] else Result r), waits := k\<rparr>"
  using assms
proof (induction res arbitrary: s)
  case (Cons b bs)
  have w: "(0xc0 :: byte) = 0x80 OR (case phase (ctl s) of Sending _ _ \<Rightarrow> 0x40 | Result _ \<Rightarrow> 0x40 | _ \<Rightarrow> 0)"
    using Cons.prems(1) by simp
  obtain h1 where h1: "poll_status P 0xc0 256 0 s = set_hw h1 s" "view h1 = (ctl s)\<lparr>waits := 0\<rparr>"
    using poll_status_ctl [OF w _ less_le_trans [OF Cons.prems(2) quick], of 0] by auto
  obtain h2 k where h2: "port_byte_in P 0x3F5 h1 = (b, h2)" "k < d"
    "view h2 = (ctl s)\<lparr>phase := (if bs @ r = [] then Command [] else Result (bs @ r)), waits := k\<rparr>"
    using result [of h1 b "bs @ r"] h1(2) Cons.prems(1) by auto
  show ?case
  proof (cases "bs = []")
    case True
    then show ?thesis using h1 h2 by (intro exI [of _ h2] exI [of _ k]) (simp add: f_in_set)
  next
    case False
    then have "phase (ctl (set_hw h2 s)) = Result (bs @ r)" "waits (ctl (set_hw h2 s)) < d" using h2 by simp_all
    from Cons.IH [OF this False] obtain h' k' where r: "get_returns P (length bs) (set_hw h2 s) = (bs, set_hw h' s)" "k' < d"
      "view h' = (ctl s)\<lparr>phase := (if r = [] then Command [] else Result r), waits := k'\<rparr>" using h2(3) by auto
    then show ?thesis using h1(1) h2(1) by (intro exI [of _ h'] exI [of _ k']) (simp add: f_in_set)
  qed
qed simp

lemma archived_wait_ctl:
  assumes "mbr AND 0x80 = 0"
  shows "\<exists>h'. archived_wait P mbr s = Some (status_of (view h'), set_hw h' s) \<and> view h' = (ctl s)\<lparr>waits := 0\<rparr>"
  using assms
proof (induction "waits (ctl s)" arbitrary: s mbr)
  case 0
  obtain h1 where h1: "f_in P 0x3F4 s = (status_of (ctl s), set_hw h1 s)" "view h1 = (ctl s)\<lparr>waits := waits (ctl s) - 1\<rparr>"
    using poll_fifo by blast
  have "archived_wait P (status_of (ctl s)) (set_hw h1 s) = Some (status_of (ctl s), set_hw h1 s)"
    using 0(1) status_bits(1) [of "ctl s"] by (subst archived_wait.simps) simp
  moreover have "view h1 = ctl s" "ctl s = (ctl s)\<lparr>waits := 0\<rparr>" using h1(2) 0(1) by simp_all
  ultimately show ?case using h1(1) 0(2)
    by (intro exI [of _ h1]) (subst archived_wait.simps, simp)
next
  case (Suc w)
  obtain h1 where h1: "f_in P 0x3F4 s = (status_of (ctl s), set_hw h1 s)" "view h1 = (ctl s)\<lparr>waits := waits (ctl s) - 1\<rparr>"
    using poll_fifo by blast
  have w: "w = waits (ctl (set_hw h1 s))" "status_of (ctl s) AND 0x80 = 0"
    using h1(2) Suc.hyps(2) status_bits(1) [of "ctl s"] by simp_all
  have "archived_wait P mbr s = archived_wait P (status_of (ctl s)) (set_hw h1 s)"
    using h1(1) Suc.prems by (subst archived_wait.simps) simp
  then show ?case using Suc.hyps(1) [OF w] h1(2) by simp
qed

lemma archived_bytes_stream:
  assumes str: "streams view d (\<lambda>s s'. callback s = Some (0, s')) g st N"
    and "i < N" "view h = (st i)\<lparr>waits := 0\<rparr>"
  shows "\<exists>j h' k. i < j \<and> j \<le> N \<and> archived_bytes P callback x (status_of (view h)) (set_hw h (g i)) = Some (0, set_hw h' (g j))
    \<and> k < d \<and> view h' = (st j)\<lparr>waits := k\<rparr>"
  using assms(2,3)
proof (induction "N - i" arbitrary: i h x)
  case (Suc m)
  have ex: "executing (view h)" using streamsD(2) [OF str, of i] Suc.prems by simp
  obtain h2 k where h2: "callback (set_hw h (g i)) = Some (0, set_hw h2 (g (Suc i)))" "k < d" "view h2 = (st (Suc i))\<lparr>waits := k\<rparr>"
    using streamsD(1) [OF str Suc.prems] by blast
  obtain h3 where h3: "f_in P 0x3F4 (set_hw h2 (g (Suc i))) = (status_of (view h2), set_hw h3 (g (Suc i)))"
    "view h3 = (view h2)\<lparr>waits := waits (view h2) - 1\<rparr>"
    using poll_fifo [of "set_hw h2 (g (Suc i))"] by auto
  have step: "archived_bytes P callback x (status_of (view h)) (set_hw h (g i))
      = archived_bytes P callback 0 (status_of (view h2)) (set_hw h3 (g (Suc i)))"
    using h2(1) h3(1) status_bits(3) [of "view h"] ex Suc.prems(2) by (subst archived_bytes.simps) simp
  show ?case
  proof (cases "Suc i = N \<or> k \<noteq> 0")
    case True
    then have "\<not> (executing (view h2) \<and> waits (view h2) = 0)" using h2(3) streamsD(2) [OF str, of "Suc i"] Suc.prems(1) by auto
    then have "status_of (view h2) AND 0xA0 \<noteq> 0xA0" using status_bits(3) [of "view h2"] by auto
    then have "archived_bytes P callback 0 (status_of (view h2)) (set_hw h3 (g (Suc i))) = Some (0, set_hw h3 (g (Suc i)))"
      by (subst archived_bytes.simps) simp
    then show ?thesis using step h2(2,3) h3(2) Suc.prems(1)
      by (intro exI [of _ "Suc i"] exI [of _ h3] exI [of _ "k - 1"]) auto
  next
    case False
    then have v: "view h3 = view h2" using h2(3) h3(2) by simp
    have "m = N - Suc i" "Suc i < N" "view h3 = (st (Suc i))\<lparr>waits := 0\<rparr>" using False v h2(3) Suc.prems(1) Suc.hyps(2) by simp_all
    from Suc.hyps(1) [OF this, of 0] show ?thesis unfolding step v by (metis Suc_lessD)
  qed
qed simp

lemma archived_execute_stream:
  assumes str: "streams view d (\<lambda>s s'. callback s = Some (0, s')) g st N"
    and "i \<le> N" "view h = (st i)\<lparr>waits := k\<rparr>" "k < d"
  shows "\<exists>h' k'. archived_execute P callback (set_hw h (g i)) = Some (set_hw h' (g N)) \<and> k' < d \<and> view h' = (st N)\<lparr>waits := k'\<rparr>"
  using assms(2-)
proof (induction "N - i" arbitrary: i h k rule: less_induct)
  case less
  obtain h1 where h1: "f_in P 0x3F4 (set_hw h (g i)) = (status_of (view h), set_hw h1 (g i))"
    "view h1 = (view h)\<lparr>waits := waits (view h) - 1\<rparr>"
    using poll_fifo [of "set_hw h (g i)"] by auto
  have ex: "executing (view h) \<longleftrightarrow> i < N" using streamsD(2) [OF str less.prems(1)] less.prems(2) by simp
  show ?case
  proof (cases "i = N")
    case True
    then have "archived_execute P callback (set_hw h (g i)) = Some (set_hw h1 (g i))"
      using h1(1) status_bits(2) [of "view h"] ex by (subst archived_execute.simps) simp
    then show ?thesis using True h1(2) less.prems by (intro exI [of _ h1] exI [of _ "k - 1"]) simp
  next
    case False
    then have i: "i < N" using less.prems(1) by simp
    obtain h2 where h2: "archived_wait P 0 (set_hw h1 (g i)) = Some (status_of (view h2), set_hw h2 (g i))" "view h2 = (st i)\<lparr>waits := 0\<rparr>"
      using archived_wait_ctl [of 0 "set_hw h1 (g i)"] h1(2) less.prems(2) by auto
    obtain j h3 k3 where h3: "i < j" "j \<le> N"
      "archived_bytes P callback 0 (status_of (view h2)) (set_hw h2 (g i)) = Some (0, set_hw h3 (g j))" "k3 < d"
      "view h3 = (st j)\<lparr>waits := k3\<rparr>"
      using archived_bytes_stream [OF str i h2(2)] by blast
    have step: "archived_execute P callback (set_hw h (g i)) = archived_execute P callback (set_hw h3 (g j))"
      using h1(1) h2(1) h3(3) status_bits(2) [of "view h"] ex i by (subst archived_execute.simps) simp
    have "N - j < N - i" using h3(1) i by simp
    from less.hyps [OF this h3(2,5,4)] show ?thesis unfolding step .
  qed
qed

text \<open>A command of nine bytes, for an execution phase that leads the driver to state \<open>t\<close> and the controller to \<open>Q\<close>.\<close>

lemma send_command_ctl:
  assumes idle: "phase (ctl s) = Command []" "waits (ctl s) = 0"
    and cmds: "length params = 8" "length res = n" "0 < n"
    and exec: "\<And>h. phase (view h) = start_phase (respond (command # params)) \<Longrightarrow> waits (view h) < d \<Longrightarrow>
      \<exists>h'. archived_execute P callback (set_hw h s) = Some (set_hw h' t)
        \<and> phase (view h') = Result res \<and> waits (view h') < d \<and> Q (view h')"
    and Q: "\<And>c p k. Q c \<Longrightarrow> Q (c\<lparr>phase := p, waits := k\<rparr>)" "\<And>c k. Q c \<Longrightarrow> Q (c\<lparr>waits := k\<rparr>)"
  shows "\<exists>h' r. send_command P command params n callback s = Some ((r, res), set_hw h' t)
    \<and> phase (view h') = Command [] \<and> waits (view h') < d \<and> Q (view h')"
proof -
  obtain h1 where h1: "f_in P 0x3F4 s = (status_of (ctl s), set_hw h1 s)" "view h1 = (ctl s)\<lparr>waits := waits (ctl s) - 1\<rparr>"
    using poll_fifo by blast
  have m: "status_of (ctl s) AND 0xc0 = 0x80" using idle status_upper [of "ctl s"] by simp
  obtain k where k: "k < d" "view (port_byte_out P 0x3F5 command h1) = (ctl s)\<lparr>phase := Command [command], waits := k\<rparr>"
    using fdc.command [OF fdc_axioms, of h1 "[]" command] h1(2) idle by (auto simp: collected_def)
  let ?h = "port_byte_out P 0x3F5 command h1"
  have "phase (ctl (set_hw ?h s)) = Command [command]" "waits (ctl (set_hw ?h s)) < d" "length [command] + length params \<le> 9" "params \<noteq> []"
    using k cmds(1) by auto
  from send_params_ctl [OF this] obtain h2 k2 where h2: "send_params P params (set_hw ?h s) = set_hw h2 s" "k2 < d"
    "view h2 = (ctl s)\<lparr>phase := start_phase (respond (command # params)), waits := k2\<rparr>"
    using k(2) cmds(1) by (auto simp: collected_def)
  have "phase (view h2) = start_phase (respond (command # params))" "waits (view h2) < d" using h2 by simp_all
  from exec [OF this] obtain h3 where h3: "archived_execute P callback (set_hw h2 s) = Some (set_hw h3 t)"
    "phase (view h3) = Result res" "waits (view h3) < d" "Q (view h3)" by blast
  have "phase (ctl (set_hw h3 t)) = Result (res @ [])" "waits (ctl (set_hw h3 t)) < d" "res \<noteq> []" using h3 cmds(2,3) by auto
  from get_returns_ctl [OF this] obtain h4 k4 where h4: "get_returns P n (set_hw h3 t) = (res, set_hw h4 t)" "k4 < d"
    "view h4 = (view h3)\<lparr>phase := Command [], waits := k4\<rparr>" using cmds(2) by auto
  obtain h5 where h5: "f_in P 0x3F4 (set_hw h4 t) = (status_of (view h4), set_hw h5 t)" "view h5 = (view h4)\<lparr>waits := waits (view h4) - 1\<rparr>"
    using poll_fifo [of "set_hw h4 t"] by auto
  have v: "phase (view h5) = Command []" "waits (view h5) < d" "Q (view h5)" using h5(2) h4(2,3) h3(4) Q by auto
  show ?thesis
  proof (intro exI conjI)
    show "send_command P command params n callback s
        = Some ((if status_of (view h4) AND 0xd0 \<noteq> 0x80 then - 2 else 0, res), set_hw h5 t)"
      using h1(1) m h2(1) h3(1) h4(1) h5(1) by (simp add: send_command_def f_out_set)
  qed (rule v)+
qed

text \<open>The driver gives up when the first look at the status does not show the controller ready.\<close>

lemma send_command_busy:
  assumes "phase (ctl s) = Command []" "waits (ctl s) \<noteq> 0"
  shows "\<exists>h'. send_command P command params n callback s = Some ((- 1, []), set_hw h' s) \<and> phase (view h') = Command []
    \<and> accepted (view h') = accepted (ctl s)"
proof -
  obtain h1 where h1: "f_in P 0x3F4 s = (status_of (ctl s), set_hw h1 s)" "view h1 = (ctl s)\<lparr>waits := waits (ctl s) - 1\<rparr>"
    using poll_fifo by blast
  have "status_of (ctl s) AND 0xc0 = 0" using assms status_upper [of "ctl s"] by simp
  then show ?thesis using h1 assms(1) by (intro exI [of _ h1]) (simp add: send_command_def)
qed

lemma read_floppy_ctl:
  assumes idle: "phase (ctl s) = Command []" "waits (ctl s) = 0"
    and reply: "respond ((MT OR MF OR READ_DATA) # transfer_params (chs lba)) = Sends data res" "length res = 7"
  shows "\<exists>h'. read_floppy P chs buffer sz lba s
      = Some (set_hw h' (fold put_byte data (s\<lparr>floppy_buffer_index := 0, floppy_buffer_size := sz, floppy_buffer := buffer\<rparr>)))
    \<and> phase (view h') = Command [] \<and> waits (view h') < d"
proof -
  let ?s = "s\<lparr>floppy_buffer_index := 0, floppy_buffer_size := sz, floppy_buffer := buffer\<rparr>"
  let ?cmd = "MT OR MF OR READ_DATA" and ?ps = "transfer_params (chs lba)"
  have i: "phase (ctl ?s) = Command []" "waits (ctl ?s) = 0" using idle by simp_all
  have l: "length ?ps = 8" by (simp add: transfer_params_def split: prod.split)
  have cb: "archived_read_callback P s
    = Some (0, put_byte (fst (port_byte_in P 0x3F5 (hw (fm s)))) (set_hw (snd (port_byte_in P 0x3F5 (hw (fm s)))) s))" for s
    by (simp add: archived_read_callback_def f_in_set put_byte_def set_hw_def)
  have "\<exists>h'. archived_execute P (archived_read_callback P) (set_hw h ?s) = Some (set_hw h' (fold put_byte data ?s))
      \<and> phase (view h') = Result res \<and> waits (view h') < d \<and> True"
    if h: "phase (view h) = start_phase (respond (?cmd # ?ps))" "waits (view h) < d" for h
  proof -
    have str: "streams view d (\<lambda>s s'. archived_read_callback P s = Some (0, s')) (\<lambda>i. fold put_byte (take i data) ?s)
        (sent (view h) data res) (length data)"
      by (rule streams_read) (simp add: cb)
    have "view h = (sent (view h) data res 0)\<lparr>waits := waits (view h)\<rparr>" using h(1) reply(1) by (auto simp: sent_def)
    from archived_execute_stream [OF str le0 this h(2)] show ?thesis by (auto simp: sent_def)
  qed
  from send_command_ctl [where command = ?cmd and Q = "\<lambda>_. True", OF i l reply(2) _ this]
  obtain h' r where "send_command P ?cmd ?ps 7 (archived_read_callback P) ?s = Some ((r, res), set_hw h' (fold put_byte data ?s))"
    "phase (view h') = Command []" "waits (view h') < d" by auto
  then show ?thesis by (intro exI [of _ h']) (simp add: read_floppy_def)
qed

lemma write_floppy_ctl:
  assumes idle: "phase (ctl s) = Command []" "waits (ctl s) = 0" and sz: "0 < unat sz"
    and reply: "respond ((MT OR MF OR SK OR WRITE_DATA) # transfer_params (chs lba)) = Receives (unat sz) res" "length res = 7"
  shows "\<exists>h' i. write_floppy P chs buffer sz lba s
      = Some (set_hw h' (s\<lparr>floppy_buffer_index := i, floppy_buffer_size := sz, floppy_buffer := buffer\<rparr>))
    \<and> phase (view h') = Command [] \<and> waits (view h') < d
    \<and> accepted (view h') = map (\<lambda>i. ram (fm s) (buffer + of_nat i)) [0..<unat sz]"
proof -
  let ?s = "s\<lparr>floppy_buffer_index := 0, floppy_buffer_size := sz, floppy_buffer := buffer\<rparr>"
  let ?cmd = "MT OR MF OR SK OR WRITE_DATA" and ?ps = "transfer_params (chs lba)" and ?n = "unat sz"
  have i: "phase (ctl ?s) = Command []" "waits (ctl ?s) = 0" using idle by simp_all
  have l: "length ?ps = 8" by (simp add: transfer_params_def split: prod.split)
  have room: "room ?s = ?n" by (simp add: room_def)
  have nf: "\<not> floppy_buffer_size ((advance ^^ i) ?s) \<le> floppy_buffer_index ((advance ^^ i) ?s)" if "i < ?n" for i
  proof -
    have "i < 4294967296" using that unat_bound [of sz] by linarith
    then have "unat (of_nat i :: u32) = i" by (subst unat_of_nat_u32) simp_all
    then show ?thesis using that unfolding advance_pow room by (simp add: word_le_nat_alt min_def)
  qed
  have cb: "archived_write_callback P t = Some (0, set_hw (port_byte_out P 0x3F5 (next_byte t) (hw (fm t))) (advance t))"
    if "\<not> floppy_buffer_size t \<le> floppy_buffer_index t" for t
    using that by (simp add: archived_write_callback_def next_byte_def advance_def f_out_def set_hw_def Let_def)
  have "\<exists>h'. archived_execute P (archived_write_callback P) (set_hw h ?s) = Some (set_hw h' ((advance ^^ ?n) ?s))
      \<and> phase (view h') = Result res \<and> waits (view h') < d \<and> accepted (view h') = outgoing ?n ?s"
    if h: "phase (view h) = start_phase (respond (?cmd # ?ps))" "waits (view h) < d" for h
  proof -
    have "archived_write_callback P (set_hw h ((advance ^^ i) ?s))
        = Some (0, set_hw (port_byte_out P 0x3F5 (outgoing ?n ?s ! i) h) ((advance ^^ Suc i) ?s))" if "i < length (outgoing ?n ?s)" for h i
    proof -
      have n: "i < ?n" using that by simp
      from nf [OF this] have "\<not> floppy_buffer_size (set_hw h ((advance ^^ i) ?s)) \<le> floppy_buffer_index (set_hw h ((advance ^^ i) ?s))" by simp
      from cb [OF this] show ?thesis using n by (simp add: outgoing_nth)
    qed
    then have str: "streams view d (\<lambda>s s'. archived_write_callback P s = Some (0, s')) (\<lambda>i. (advance ^^ i) ?s)
        (received (view h) (outgoing ?n ?s) res) (length (outgoing ?n ?s))"
      by (rule streams_write)
    have "view h = (received (view h) (outgoing ?n ?s) res 0)\<lparr>waits := waits (view h)\<rparr>" using h(1) reply(1) sz by (auto simp: received_def)
    from archived_execute_stream [OF str le0 this h(2)] show ?thesis by (auto simp: received_def)
  qed
  from send_command_ctl [where command = ?cmd and Q = "\<lambda>c. accepted c = outgoing ?n ?s", OF i l reply(2) _ this]
  obtain h' r where r: "send_command P ?cmd ?ps 7 (archived_write_callback P) ?s = Some ((r, res), set_hw h' ((advance ^^ ?n) ?s))"
    "phase (view h') = Command []" "waits (view h') < d" "accepted (view h') = outgoing ?n ?s" by auto
  have o: "outgoing ?n ?s = map (\<lambda>i. ram (fm s) (buffer + of_nat i)) [0..<?n]"
    unfolding outgoing_map room by (rule map_cong) simp_all
  let ?i = "of_nat (min ?n (room ?s)) :: u32"
  have t: "(advance ^^ ?n) ?s = s\<lparr>floppy_buffer_index := ?i, floppy_buffer_size := sz, floppy_buffer := buffer\<rparr>"
    unfolding advance_pow by (rule FLOPPY.equality) simp_all
  show ?thesis using r(1) [unfolded t] r(2-4) [unfolded o]
    by (intro exI [of _ h'] exI [of _ ?i]) (simp add: write_floppy_def)
qed

end

interpretation quick_sim: quick_fdc "fdc_ports respond 3" "\<lambda>c. c" respond 256 for respond
  by unfold_locales simp

subsection \<open>Properties\<close>

text \<open>C39. The first driver reads what it is asked for, whenever it is asked while the controller is ready:
  the call returns, and memory differs from before exactly by the data, from the start of the
  buffer on and cut at its size, wherever an earlier transfer had left the index. When the
  controller is between two commands but the single look at its status comes too early, the call
  returns as well and has read nothing.\<close>

theorem archived_read_floppy_delivers:
  assumes fdc: "quick_fdc P view respond d"
    and idle: "phase (view (hw (fm s))) = Command []"
    and reply: "respond ((MT OR MF OR READ_DATA) # transfer_params (chs lba)) = Sends data res" "length res = 7"
  shows "\<exists>s'. read_floppy P chs buffer sz lba s = Some s'
    \<and> ram (fm s') = (if waits (view (hw (fm s))) = 0 then placed (ram (fm s)) buffer (take (unat sz) data) else ram (fm s))
    \<and> phase (view (hw (fm s'))) = Command []"
proof (cases "waits (view (hw (fm s))) = 0")
  case True
  let ?t = "fold put_byte data (s\<lparr>floppy_buffer_index := 0, floppy_buffer_size := sz, floppy_buffer := buffer\<rparr>)"
  from quick_fdc.read_floppy_ctl [where chs = chs and lba = lba and sz = sz and buffer = buffer, OF fdc idle True reply] obtain h' where
    "read_floppy P chs buffer sz lba s = Some (set_hw h' ?t)" "phase (view h') = Command []" by blast
  then show ?thesis using True by (intro exI [of _ "set_hw h' ?t"]) (simp add: fold_put_byte room_def)
next
  case False
  let ?s = "s\<lparr>floppy_buffer_index := 0, floppy_buffer_size := sz, floppy_buffer := buffer\<rparr>"
  have "phase (view (hw (fm ?s))) = Command []" "waits (view (hw (fm ?s))) \<noteq> 0" using idle False by simp_all
  from quick_fdc.send_command_busy [OF fdc this] obtain h' where
    "send_command P (MT OR MF OR READ_DATA) (transfer_params (chs lba)) 7 (archived_read_callback P) ?s = Some ((- 1, []), set_hw h' ?s)"
    "phase (view h') = Command []" by blast
  then show ?thesis using False by (intro exI [of _ "set_hw h' ?s"]) (simp add: read_floppy_def)
qed

definition demo_chs :: "u32 \<Rightarrow> u16 \<times> u16 \<times> u16" where
  "demo_chs lba = (let d = lba_2_chs lba demo_floppy in (cylinder d, head_no d, sector d))"

definition demo_archived :: "nat \<Rightarrow> FDC FLOPPY" where
  "demo_archived w = \<lparr>fm = \<lparr>ram = ucast, hw = \<lparr>phase = Command [], waits = w, accepted = []\<rparr>\<rparr>, DOR = 4,
     floppy_buffer_index = 512, floppy_buffer_size = 512, floppy_buffer = 0, floppy_dma_waiting = True\<rparr>"

lemma demo_archived_ready:
  "phase (hw (fm (demo_archived w))) = Command []"
  "demo_reply ((MT OR MF OR READ_DATA) # ps) = Sends (replicate 512 0x5a) [0, 0, 0, 0, 0, 0, 2]"
  "demo_reply ((MT OR MF OR SK OR WRITE_DATA) # ps) = Receives (unat (512 :: u32)) [0, 0, 0, 0, 0, 0, 2]"
  "length [0 :: byte, 0, 0, 0, 0, 0, 2] = 7"
  by (simp_all add: demo_archived_def demo_reply_def)

theorem archived_read_floppy_delivers_witness:
  "(\<exists>s'. read_floppy (fdc_ports demo_reply 3) demo_chs 0x1000 512 0 (demo_archived 0) = Some s'
      \<and> ram (fm s') 0x1000 = 0x5a \<and> ram (fm s') 0x11ff = 0x5a \<and> ram (fm s') 0x1200 = 0)
   \<and> (\<exists>s'. read_floppy (fdc_ports demo_reply 3) demo_chs 0x1000 512 0 (demo_archived 1) = Some s' \<and> ram (fm s') 0x1000 = 0)"
proof -
  note run = archived_read_floppy_delivers [where chs = demo_chs and lba = 0 and buffer = "0x1000" and sz = 512,
      OF quick_sim.quick_fdc_axioms [of demo_reply] demo_archived_ready(1) demo_archived_ready(2,4)]
  obtain s1 where 1: "read_floppy (fdc_ports demo_reply 3) demo_chs 0x1000 512 0 (demo_archived 0) = Some s1"
    "ram (fm s1) = placed ucast 0x1000 (replicate 512 0x5a)"
    using run [of 0] by (auto simp: demo_archived_def)
  obtain s2 where 2: "read_floppy (fdc_ports demo_reply 3) demo_chs 0x1000 512 0 (demo_archived 1) = Some s2" "ram (fm s2) = ucast"
    using run [of 1] by (auto simp: demo_archived_def)
  show ?thesis
  proof
    show "\<exists>s'. read_floppy (fdc_ports demo_reply 3) demo_chs 0x1000 512 0 (demo_archived 0) = Some s'
        \<and> ram (fm s') 0x1000 = 0x5a \<and> ram (fm s') 0x11ff = 0x5a \<and> ram (fm s') 0x1200 = 0"
      by (intro exI [of _ s1]) (simp add: 1 placed_def)
    show "\<exists>s'. read_floppy (fdc_ports demo_reply 3) demo_chs 0x1000 512 0 (demo_archived 1) = Some s' \<and> ram (fm s') 0x1000 = 0"
      using 2 by (intro exI [of _ s2]) simp
  qed
qed

text \<open>A write hands over exactly the buffer.\<close>

theorem archived_write_floppy_delivers:
  assumes fdc: "quick_fdc P view respond d"
    and idle: "phase (view (hw (fm s))) = Command []" "waits (view (hw (fm s))) = 0" and sz: "0 < unat sz"
    and reply: "respond ((MT OR MF OR SK OR WRITE_DATA) # transfer_params (chs lba)) = Receives (unat sz) res" "length res = 7"
  shows "\<exists>s'. write_floppy P chs buffer sz lba s = Some s'
    \<and> accepted (view (hw (fm s'))) = map (\<lambda>i. ram (fm s) (buffer + of_nat i)) [0..<unat sz]
    \<and> ram (fm s') = ram (fm s) \<and> phase (view (hw (fm s'))) = Command []"
proof -
  from quick_fdc.write_floppy_ctl [where chs = chs and lba = lba and buffer = buffer, OF fdc idle sz reply] obtain h' i where
    "write_floppy P chs buffer sz lba s = Some (set_hw h' (s\<lparr>floppy_buffer_index := i, floppy_buffer_size := sz, floppy_buffer := buffer\<rparr>))"
    "phase (view h') = Command []" "accepted (view h') = map (\<lambda>i. ram (fm s) (buffer + of_nat i)) [0..<unat sz]" by blast
  then show ?thesis by (intro exI [of _ "set_hw h' (s\<lparr>floppy_buffer_index := i, floppy_buffer_size := sz, floppy_buffer := buffer\<rparr>)"]) simp
qed

end
