(* ===== verification/Fat12_Table.thy ===== *)
theory Fat12_Table
  imports Fat32_Layout
begin

text \<open>
  The FAT12 driver of \<^verbatim>\<open>archive/fat12.c\<close>, first part: the boot record, the partition descriptor,
  the state its functions share, and the file allocation table. Entries have 12 bits, two
  of them in three bytes; the driver reads the table through a window of three sectors, which
  it writes back to both copies of the table.
\<close>

subsection \<open>On-disk structures\<close>

text \<open>
  \<^verbatim>\<open>struct FAT12_BPB\<close> has the layout of \<^verbatim>\<open>struct FAT32_BPB\<close>, and \<^verbatim>\<open>struct FAT_NODE\<close> that of
  \<^verbatim>\<open>struct FAT32_NODE\<close>, so their decoders are shared.
\<close>

type_synonym FAT12_BPB = FAT32_BPB
type_synonym FAT_NODE = FAT32_NODE

record FAT12_EBR =
  drive_number12 :: byte
  windows_reserved12 :: byte
  signature12 :: byte
  volume_id12 :: "byte list"
  volume_label_string :: "byte list"
  system_identifier_string :: "byte list"
  boot_code12 :: "byte list"
  boot_signature12 :: u16

definition ebr12_of_bytes :: "byte list \<Rightarrow> FAT12_EBR" where
  "ebr12_of_bytes bs = \<lparr>
     drive_number12 = get8 bs 36,
     windows_reserved12 = get8 bs 37,
     signature12 = get8 bs 38,
     volume_id12 = bytes_at bs 39 4,
     volume_label_string = bytes_at bs 43 11,
     system_identifier_string = bytes_at bs 54 8,
     boot_code12 = bytes_at bs 62 448,
     boot_signature12 = get16 bs 510\<rparr>"

subsection \<open>State\<close>

text \<open>The window onto the table; the partition descriptor has a member of this type it does not use.\<close>

record FAT_BUFFER =
  fb_bytes :: "byte list" \<comment> \<open>\<^verbatim>\<open>uint8_t buffer[0x600]\<close>\<close>
  fb_sector :: u32 \<comment> \<open>\<^verbatim>\<open>current_sector\<close>\<close>
  fb_changed :: bool \<comment> \<open>\<^verbatim>\<open>changed\<close>\<close>

record FAT12_PARTITION =
  sectors_per_cluster12 :: byte
  reserved_sectors12 :: u16
  FATs12 :: byte
  root_entries12 :: u16
  sectors12 :: u32
  sectors_per_fat12 :: u16
  hidden_sectors12 :: u32
  label12 :: "byte list"
  fat_offset12 :: u32
  root_offset12 :: u32
  data_offset12 :: u32
  root_size12 :: u32
  buffer12 :: FAT_BUFFER

text \<open>
  A \<^verbatim>\<open>struct VFS_PARTITION\<close> is its descriptor and its device; the static variables of the file
  are shared by all partitions and belong to the same state.
\<close>

record 'd FAT12 =
  partition12 :: FAT12_PARTITION
  device12 :: "'d VFS_DEVICE"
  FAT_buffer :: FAT_BUFFER
  node_buffer :: "byte list" \<comment> \<open>\<^verbatim>\<open>struct FAT_NODE node_buffer[32]\<close>\<close>
  node_buffer_lba :: u32
  path_buffer :: "byte list" \<comment> \<open>\<^verbatim>\<open>char path_buffer[13]\<close>\<close>

definition FAT_buffer_init :: FAT_BUFFER where
  "FAT_buffer_init = \<lparr>fb_bytes = replicate 0x600 0, fb_sector = -1, fb_changed = False\<rparr>"

text \<open>\<^verbatim>\<open>part->device->read(part->device, buffer, sectors, lba)\<close>, and \<^verbatim>\<open>write\<close>.\<close>

definition read12 :: "'d FAT12 \<Rightarrow> byte list \<Rightarrow> u32 \<Rightarrow> u32 \<Rightarrow> (E_DEVICE \<times> byte list \<times> 'd FAT12) option" where
  "read12 s buf cnt lba = do {
     rd \<leftarrow> read_m (device12 s);
     (r, buf, d) \<leftarrow> rd (device_data (device12 s)) buf cnt lba;
     Some (r, buf, s\<lparr>device12 := (device12 s)\<lparr>device_data := d\<rparr>\<rparr>)
   }"

definition write12 :: "'d FAT12 \<Rightarrow> byte list \<Rightarrow> u32 \<Rightarrow> u32 \<Rightarrow> (E_DEVICE \<times> 'd FAT12) option" where
  "write12 s buf cnt lba = do {
     wr \<leftarrow> write_m (device12 s);
     (r, d) \<leftarrow> wr (device_data (device12 s)) buf cnt lba;
     Some (r, s\<lparr>device12 := (device12 s)\<lparr>device_data := d\<rparr>\<rparr>)
   }"

subsection \<open>Mounting\<close>

definition init_partition12 :: "FAT12_BPB \<Rightarrow> FAT12_EBR \<Rightarrow> FAT12_PARTITION" where
  "init_partition12 bp eb = (let
     root_offset = ucast (bpb_reserved_sectors bp) + ucast (fats bp) * ucast (bpb_sectors_per_fat bp);
     root_size = (ucast (directory_entries bp) * 32 + 511) div 512
   in \<lparr>sectors_per_cluster12 = bpb_sectors_per_cluster bp,
       reserved_sectors12 = bpb_reserved_sectors bp,
       FATs12 = fats bp,
       root_entries12 = directory_entries bp,
       sectors12 = (if sectors_in_volume bp < 0xFFFF then ucast (sectors_in_volume bp) else large_sectors_count bp),
       sectors_per_fat12 = bpb_sectors_per_fat bp,
       hidden_sectors12 = bpb_hidden_sectors bp,
       label12 = volume_label_string eb,
       fat_offset12 = ucast (bpb_reserved_sectors bp),
       root_offset12 = root_offset,
       data_offset12 = root_offset + root_size,
       root_size12 = root_size,
       buffer12 = \<lparr>fb_bytes = replicate 0x600 0, fb_sector = 0, fb_changed = False\<rparr>\<rparr>)"

text \<open>The error member and the partition; \<open>mem\<close> is the memory of the boot record before the read.\<close>

definition fat12_init :: "byte list \<Rightarrow> 'd FAT12 \<Rightarrow> (nat \<times> 'd FAT12) option" where
  "fat12_init mem s = do {
     (_, info, s) \<leftarrow> read12 s mem 1 0;
     let eb = ebr12_of_bytes info;
     let error = (if signature12 eb \<noteq> 0x28 \<and> signature12 eb \<noteq> 0x29 then 1 else 0);
     let error = (if boot_signature12 eb \<noteq> 0xAA55 then 2 else error);
     Some (error, s\<lparr>partition12 := init_partition12 (bpb_of_bytes info) eb\<rparr>)
   }"

subsection \<open>The table\<close>

definition cluster_FAT_offset :: "u32 \<Rightarrow> u32" where
  "cluster_FAT_offset cluster = (cluster + cluster div 2) div 512"

definition flush_fat_buffer :: "'d FAT12 \<Rightarrow> 'd FAT12 option" where
  "flush_fat_buffer s =
     (if fb_changed (FAT_buffer s)
      then do {
        let p = partition12 s;
        (_, s) \<leftarrow> write12 s (fb_bytes (FAT_buffer s)) 3 (fat_offset12 p + fb_sector (FAT_buffer s));
        (_, s) \<leftarrow> write12 s (fb_bytes (FAT_buffer s)) 3
                  (fat_offset12 p + ucast (sectors_per_fat12 p) + fb_sector (FAT_buffer s));
        Some (s\<lparr>FAT_buffer := (FAT_buffer s)\<lparr>fb_changed := False\<rparr>\<rparr>)
      }
      else Some s)"

definition get_entry_offset :: "'d FAT12 \<Rightarrow> u32 \<Rightarrow> (u32 \<times> 'd FAT12) option" where
  "get_entry_offset s cluster = do {
     let sector_to_load = cluster_FAT_offset cluster;
     s \<leftarrow> (if sector_to_load div 3 \<noteq> fb_sector (FAT_buffer s) div 3
          then do {
            s \<leftarrow> flush_fat_buffer s;
            let current = sector_to_load div 3 * 3;
            (_, bytes, s) \<leftarrow> read12 s (fb_bytes (FAT_buffer s)) 3 (fat_offset12 (partition12 s) + current);
            Some (s\<lparr>FAT_buffer := (FAT_buffer s)\<lparr>fb_bytes := bytes, fb_sector := current\<rparr>\<rparr>)
          }
          else Some s);
     Some (cluster + cluster div 2 mod (512 * 3), s)
   }"

text \<open>Both bytes of an entry are accessed; an offset behind the window has no defined result.\<close>

definition read_fat_value :: "'d FAT12 \<Rightarrow> u32 \<Rightarrow> (u32 \<times> 'd FAT12) option" where
  "read_fat_value s cluster = do {
     (offset, s) \<leftarrow> get_entry_offset s cluster;
     let b = fb_bytes (FAT_buffer s);
     let i = unat offset;
     if i + 1 < length b
     then Some (if cluster AND 1 \<noteq> 0
                then drop_bit 4 (ucast (b ! i) AND 0xF0) OR push_bit 4 (ucast (b ! (i + 1)))
                else ucast (b ! i) OR push_bit 8 (ucast (b ! (i + 1)) AND 0x0F), s)
     else None
   }"

definition write_fat_value :: "'d FAT12 \<Rightarrow> u32 \<Rightarrow> u32 \<Rightarrow> 'd FAT12 option" where
  "write_fat_value s cluster val = do {
     (offset, s) \<leftarrow> get_entry_offset s cluster;
     let b = fb_bytes (FAT_buffer s);
     let i = unat offset;
     if i + 1 < length b
     then let b = (if cluster AND 1 \<noteq> 0
                   then b[i := ucast (push_bit 4 (val AND 0x0F) OR ucast (b ! i AND 0x0F)),
                          i + 1 := ucast (drop_bit 4 (val AND 0xFF0))]
                   else b[i := ucast (val AND 0xFF),
                          i + 1 := (b ! (i + 1) AND 0xF0) OR ucast (drop_bit 8 (val AND 0xF00))])
          in Some (s\<lparr>FAT_buffer := (FAT_buffer s)\<lparr>fb_bytes := b, fb_changed := True\<rparr>\<rparr>)
     else None
   }"

end
