(* ===== verification/Fat12_Store.thy ===== *)
theory Fat12_Store
  imports Fat12_Table Vfs_Blocks
begin

text \<open>
  The FAT12 table as a function from clusters to values. Reading a value through the driver's
  window is a look-up in it, writing an update of it, and flushing makes both copies on the disk
  equal to it. All this holds for clusters below 1024, whose entries are in the first window.
\<close>

subsection \<open>Packed entries\<close>

definition entry12 :: "byte list \<Rightarrow> nat \<Rightarrow> u32" where
  "entry12 b c = (let i = c + c div 2 in
     if odd c then drop_bit 4 (ucast (b ! i) AND 0xF0) OR push_bit 4 (ucast (b ! (i + 1)))
     else ucast (b ! i) OR push_bit 8 (ucast (b ! (i + 1)) AND 0x0F))"

definition set_entry12 :: "byte list \<Rightarrow> nat \<Rightarrow> u32 \<Rightarrow> byte list" where
  "set_entry12 b c v = (let i = c + c div 2 in
     if odd c then b[i := ucast (push_bit 4 (v AND 0x0F) OR ucast (b ! i AND 0x0F)),
                     i + 1 := ucast (drop_bit 4 (v AND 0xFF0))]
     else b[i := ucast (v AND 0xFF),
            i + 1 := (b ! (i + 1) AND 0xF0) OR ucast (drop_bit 8 (v AND 0xF00))])"

text \<open>The masks of the driver, and what they do to the bytes of an entry.\<close>

lemma masks: "(0x0F :: 'a::len word) = mask 4" "(0xF0 :: 'a word) = push_bit 4 (mask 4)" "(0xFF :: 'a word) = mask 8"
  "(0xF00 :: 'a word) = push_bit 8 (mask 4)" "(0xFF0 :: 'a word) = push_bit 4 (mask 8)" "(0xFFF :: 'a word) = mask 12"
  by (simp_all add: mask_eq_exp_minus_1 push_bit_eq_mult)

lemma even_own: "(ucast (ucast (v AND 0xFF :: u32) :: byte) :: u32) OR push_bit 8 (ucast ((b AND 0xF0) OR ucast (drop_bit 8 (v AND 0xF00)) :: byte) AND 0x0F) = v AND 0xFFF"
  unfolding masks by (rule bit_word_eqI) (auto simp: bit_simps)

lemma odd_own: "drop_bit 4 ((ucast (ucast (push_bit 4 (v AND 0x0F :: u32) OR ucast ((b :: byte) AND 0x0F)) :: byte) :: u32) AND 0xF0)
   OR push_bit 4 (ucast (ucast (drop_bit 4 (v AND 0xFF0)) :: byte)) = v AND 0xFFF"
  unfolding masks
proof (rule bit_word_eqI, goal_cases)
  case (1 n)
  then show ?case by (cases "n < 4") (auto simp: bit_simps)
qed

lemma even_keeps: "drop_bit 4 ((ucast ((b AND 0xF0) OR ucast (drop_bit 8 (v AND 0xF00 :: u32)) :: byte) :: u32) AND 0xF0) = drop_bit 4 (ucast b AND 0xF0)"
  unfolding masks by (rule bit_word_eqI) (auto simp: bit_simps)

lemma odd_keeps: "(ucast (ucast (push_bit 4 (v AND 0x0F :: u32) OR ucast ((b :: byte) AND 0x0F)) :: byte) :: u32) AND 0x0F = ucast b AND 0x0F"
  unfolding masks by (rule bit_word_eqI) (auto simp: bit_simps)

lemma entry12_eqs:
  "entry12 b (2 * k) = ucast (b ! (3 * k)) OR push_bit 8 (ucast (b ! (3 * k + 1)) AND 0x0F)"
  "entry12 b (Suc (2 * k)) = drop_bit 4 (ucast (b ! (3 * k + 1)) AND 0xF0) OR push_bit 4 (ucast (b ! (3 * k + 2)))"
  "set_entry12 b (2 * k) v = b[3 * k := ucast (v AND 0xFF), 3 * k + 1 := (b ! (3 * k + 1) AND 0xF0) OR ucast (drop_bit 8 (v AND 0xF00))]"
  "set_entry12 b (Suc (2 * k)) v = b[3 * k + 1 := ucast (push_bit 4 (v AND 0x0F) OR ucast (b ! (3 * k + 1) AND 0x0F)),
                     3 * k + 2 := ucast (drop_bit 4 (v AND 0xFF0))]"
proof -
  have i: "2 * k + 2 * k div 2 = 3 * k" "Suc (2 * k) + Suc (2 * k) div 2 = 3 * k + 1" "3 * k + 1 + 1 = 3 * k + 2" by simp_all
  have o: "\<not> odd (2 * k)" "odd (Suc (2 * k))" by simp_all
  show "entry12 b (2 * k) = ucast (b ! (3 * k)) OR push_bit 8 (ucast (b ! (3 * k + 1)) AND 0x0F)"
    "entry12 b (Suc (2 * k)) = drop_bit 4 (ucast (b ! (3 * k + 1)) AND 0xF0) OR push_bit 4 (ucast (b ! (3 * k + 2)))"
    "set_entry12 b (2 * k) v = b[3 * k := ucast (v AND 0xFF), 3 * k + 1 := (b ! (3 * k + 1) AND 0xF0) OR ucast (drop_bit 8 (v AND 0xF00))]"
    "set_entry12 b (Suc (2 * k)) v = b[3 * k + 1 := ucast (push_bit 4 (v AND 0x0F) OR ucast (b ! (3 * k + 1) AND 0x0F)),
                     3 * k + 2 := ucast (drop_bit 4 (v AND 0xFF0))]"
    unfolding entry12_def set_entry12_def Let_def i using o by (simp_all only: if_True if_False not_False_eq_True)
qed

lemma entry12_set:
  assumes "c + c div 2 + 1 < length b" "c' + c' div 2 + 1 < length b"
  shows "entry12 (set_entry12 b c v) c' = (if c' = c then v AND 0xFFF else entry12 b c')"
proof -
  have split: "\<exists>k. x = 2 * k \<or> x = Suc (2 * k)" for x :: nat by presburger
  obtain k where k: "c = 2 * k \<or> c = Suc (2 * k)" using split by blast
  obtain k' where k': "c' = 2 * k' \<or> c' = Suc (2 * k')" using split by blast
  have ne: "3 * k \<noteq> 3 * k' + 1" "3 * k \<noteq> 3 * k' + 2" "3 * k + 1 \<noteq> 3 * k'" "3 * k + 2 \<noteq> 3 * k'"
    "3 * k' + 1 \<noteq> 3 * k + 2" "3 * k' + 2 \<noteq> 3 * k + 1" "2 * k \<noteq> Suc (2 * k')" "Suc (2 * k) \<noteq> 2 * k'" by presburger+
  have l: "3 * k + 1 < length b" "3 * k' + 1 < length b" using assms k k' by auto
  have n: "b[3 * k := x, 3 * k + 1 := y] ! (3 * k') = (if k' = k then x else b ! (3 * k'))"
    "b[3 * k := x, 3 * k + 1 := y] ! (3 * k' + 1) = (if k' = k then y else b ! (3 * k' + 1))"
    "b[3 * k := x, 3 * k + 1 := y] ! (3 * k' + 2) = b ! (3 * k' + 2)"
    "b[3 * k + 1 := x, 3 * k + 2 := y] ! (3 * k') = b ! (3 * k')"
    "b[3 * k + 1 := x, 3 * k + 2 := y] ! (3 * k' + 1) = (if k' = k then x else b ! (3 * k' + 1))"
    "3 * k + 2 < length b \<Longrightarrow> b[3 * k + 1 := x, 3 * k + 2 := y] ! (3 * k' + 2) = (if k' = k then y else b ! (3 * k' + 2))" for x y
    using l ne by (auto simp: nth_list_update)
  from k k' show ?thesis
  proof (elim disjE)
    assume e: "c = 2 * k" "c' = 2 * k'"
    show ?thesis
    proof (cases "k' = k")
      case True
      show ?thesis unfolding e entry12_eqs n unfolding True by (simp only: simp_thms if_True even_own)
    qed (simp add: e entry12_eqs n del: add_2_eq_Suc')
  next
    assume e: "c = 2 * k" "c' = Suc (2 * k')"
    show ?thesis
    proof (cases "k' = k")
      case True
      show ?thesis using ne unfolding e entry12_eqs n unfolding True by (simp only: simp_thms if_True if_False even_keeps)
    qed (use ne in \<open>simp add: e entry12_eqs n del: add_2_eq_Suc'\<close>)
  next
    assume e: "c = Suc (2 * k)" "c' = 2 * k'"
    show ?thesis
    proof (cases "k' = k")
      case True
      show ?thesis using ne unfolding e entry12_eqs n unfolding True by (simp only: simp_thms if_True if_False odd_keeps)
    qed (use ne in \<open>simp add: e entry12_eqs n del: add_2_eq_Suc'\<close>)
  next
    assume e: "c = Suc (2 * k)" "c' = Suc (2 * k')"
    then have h: "3 * k + 2 < length b" using assms(1) by simp
    show ?thesis
    proof (cases "k' = k")
      case True
      show ?thesis unfolding e entry12_eqs n(5) n(6) [OF h] unfolding True by (simp only: simp_thms if_True odd_own)
    qed (simp add: e entry12_eqs n(5) n(6) [OF h] del: add_2_eq_Suc')
  qed
qed

lemma length_set_entry12 [simp]: "length (set_entry12 b c v) = length b"
  by (simp add: set_entry12_def Let_def)

lemma entry12_bound: "unat (entry12 b c) < 0x1000"
proof -
  have "entry12 b c AND mask 12 = entry12 b c"
    unfolding entry12_def Let_def masks by (rule bit_word_eqI) (auto simp: bit_simps dest: bit_imp_le_length)
  then have "take_bit 12 (entry12 b c) = entry12 b c" by (simp add: take_bit_eq_mask)
  then have "unat (entry12 b c) = take_bit 12 (unat (entry12 b c))" by (metis unsigned_take_bit_eq)
  then show ?thesis using take_bit_nat_less_exp [of 12 "unat (entry12 b c)"] by simp
qed

subsection \<open>The volume\<close>

definition fat12_start :: "'d FAT12 \<Rightarrow> nat" where
  "fat12_start s = unat (fat_offset12 (partition12 s))"

definition fat12_size :: "'d FAT12 \<Rightarrow> nat" where
  "fat12_size s = unat (sectors_per_fat12 (partition12 s))"

text \<open>The first three sectors of the table on the disk, and the table as the driver sees it.\<close>

definition disk_table :: "'d FAT12 \<Rightarrow> byte list" where
  "disk_table s = concat (map (sector (device12 s)) [fat12_start s..<fat12_start s + 3])"

definition table12 :: "'d FAT12 \<Rightarrow> byte list" where
  "table12 s = (if fb_sector (FAT_buffer s) = 0 then fb_bytes (FAT_buffer s) else disk_table s)"

text \<open>
  The invariant: a device of \<open>n\<close> sectors that holds both copies of the table, neither shorter than
  the window; the window is the first one, or was never loaded; unchanged, it agrees with the disk.
\<close>

definition fat12_ok :: "nat \<Rightarrow> 'd FAT12 \<Rightarrow> bool" where
  "fat12_ok n s \<longleftrightarrow> good_blocks n (device12 s) \<and> n + 2 \<le> 2 ^ 32 \<and> 3 \<le> fat12_size s
     \<and> fat12_start s + 2 * fat12_size s \<le> n
     \<and> length (fb_bytes (FAT_buffer s)) = 1536
     \<and> (fb_sector (FAT_buffer s) = 0 \<or> fb_sector (FAT_buffer s) = -1 \<and> \<not> fb_changed (FAT_buffer s))
     \<and> (\<not> fb_changed (FAT_buffer s) \<longrightarrow> table12 s = disk_table s)"

text \<open>What the operations on the table leave alone.\<close>

definition same_rest :: "'d FAT12 \<Rightarrow> 'd FAT12 \<Rightarrow> bool" where
  "same_rest s s' \<longleftrightarrow> partition12 s' = partition12 s \<and> node_buffer s' = node_buffer s
     \<and> node_buffer_lba s' = node_buffer_lba s \<and> path_buffer s' = path_buffer s"

definition same_sectors :: "nat \<Rightarrow> 'd FAT12 \<Rightarrow> 'd FAT12 \<Rightarrow> bool" where
  "same_sectors n s s' \<longleftrightarrow> (\<forall>k<n. sector (device12 s') k = sector (device12 s) k)"

lemma same_rest_refl [simp]: "same_rest s s"
  by (simp add: same_rest_def)

lemma same_sectors_refl [simp]: "same_sectors n s s"
  by (simp add: same_sectors_def)

lemma same_rest_trans: "same_rest a b \<Longrightarrow> same_rest b c \<Longrightarrow> same_rest a c"
  by (simp add: same_rest_def)

lemma same_sectors_trans: "same_sectors n a b \<Longrightarrow> same_sectors n b c \<Longrightarrow> same_sectors n a c"
  by (simp add: same_sectors_def)

lemma same_rest_geometry: "same_rest s s' \<Longrightarrow> fat12_start s' = fat12_start s \<and> fat12_size s' = fat12_size s"
  by (simp add: same_rest_def fat12_start_def fat12_size_def)

subsection \<open>Transfers\<close>

lemma read12_ok:
  assumes "good_blocks n (device12 s)" "0 < unat cnt" "unat cnt \<le> 255" "unat lba + unat cnt \<le> n" "length buf = 512 * unat cnt"
  shows "\<exists>dv. read12 s buf cnt lba
      = Some (E_DEVICE_OK, concat (map (sector (device12 s)) [unat lba..<unat lba + unat cnt]), s\<lparr>device12 := dv\<rparr>)
    \<and> same_disk n (device12 s) dv"
  by (rule blocks_read [OF assms]) (auto simp: read12_def)

lemma write12_ok:
  assumes "good_blocks n (device12 s)" "0 < unat cnt" "unat cnt \<le> 255" "unat lba + unat cnt \<le> n" "length buf = 512 * unat cnt"
  shows "\<exists>dv. write12 s buf cnt lba = Some (E_DEVICE_OK, s\<lparr>device12 := dv\<rparr>) \<and> good_blocks n dv
    \<and> (\<forall>k<n. sector dv k = (if unat lba \<le> k \<and> k < unat lba + unat cnt
         then take 512 (drop (512 * (k - unat lba)) buf) else sector (device12 s) k))"
  by (rule blocks_write [OF assms]) (auto simp: write12_def)

lemma length_sectors:
  assumes "good_blocks n dv" "b \<le> n"
  shows "length (concat (map (sector dv) [a..<b])) = 512 * (b - a)"
proof -
  have "b \<le> n \<Longrightarrow> length (concat (map (sector dv) [a..<b])) = 512 * (b - a)" for b
    using good_blocks_length [OF assms(1)] by (induction b) (auto simp: Suc_diff_le not_le)
  then show ?thesis using assms(2) by blast
qed

lemma fat12_okD:
  assumes "fat12_ok n s"
  shows "good_blocks n (device12 s)" "n < 2 ^ 32" "3 \<le> fat12_size s" "fat12_start s + 2 * fat12_size s \<le> n"
    "length (fb_bytes (FAT_buffer s)) = 1536"
    "fb_sector (FAT_buffer s) = 0 \<or> fb_sector (FAT_buffer s) = -1 \<and> \<not> fb_changed (FAT_buffer s)"
    "\<not> fb_changed (FAT_buffer s) \<Longrightarrow> table12 s = disk_table s"
  using assms by (simp_all add: fat12_ok_def)

lemma fat12_ok_lengths:
  assumes "fat12_ok n s"
  shows "length (disk_table s) = 1536" "length (table12 s) = 1536"
proof -
  have "fat12_start s + 3 \<le> n" using fat12_okD(3,4) [OF assms] by linarith
  then show "length (disk_table s) = 1536" using length_sectors [OF fat12_okD(1) [OF assms]] by (simp add: disk_table_def)
  then show "length (table12 s) = 1536" using fat12_okD(5) [OF assms] by (simp add: table12_def)
qed

subsection \<open>The window\<close>

lemma cluster_offset:
  assumes "unat c < 1024"
  shows "cluster_FAT_offset c div 3 = 0" "unat (c + c div 2 mod (512 * 3)) = unat c + unat c div 2"
proof -
  have d: "unat (c div 2) = unat c div 2" by (simp add: unat_div)
  have m: "unat (c div 2 mod 1536) = unat c div 2" using assms d by (simp add: unat_mod)
  then show "unat (c + c div 2 mod (512 * 3)) = unat c + unat c div 2" using assms by (simp add: unat_add_u32)
  have "unat (c + c div 2) = unat c + unat c div 2" using assms d by (simp add: unat_add_u32)
  then have "unat (cluster_FAT_offset c div 3) = 0" using assms by (simp add: cluster_FAT_offset_def unat_div)
  then show "cluster_FAT_offset c div 3 = 0" by simp
qed

text \<open>Loading the window, if it is not the one wanted.\<close>

lemma get_entry_offset_ok:
  assumes s: "fat12_ok n s" and c: "unat c < 1024"
  shows "\<exists>off s'. get_entry_offset s c = Some (off, s') \<and> unat off = unat c + unat c div 2 \<and> fat12_ok n s'
    \<and> fb_sector (FAT_buffer s') = 0 \<and> fb_bytes (FAT_buffer s') = table12 s \<and> fb_changed (FAT_buffer s') = fb_changed (FAT_buffer s)
    \<and> same_rest s s' \<and> same_sectors n s s'"
proof (cases "fb_sector (FAT_buffer s) = 0")
  case True
  then have "get_entry_offset s c = Some (c + c div 2 mod (512 * 3), s)"
    using cluster_offset(1) [OF c] by (simp add: get_entry_offset_def)
  then show ?thesis using s True cluster_offset(2) [OF c] by (simp add: table12_def)
next
  case False
  then have f: "fb_sector (FAT_buffer s) = -1" "\<not> fb_changed (FAT_buffer s)" using fat12_okD(6) [OF s] by auto
  note g = fat12_okD(1) [OF s]
  have l: "unat (fat_offset12 (partition12 s)) + unat (3 :: u32) \<le> n"
    using fat12_okD(3,4) [OF s] by (simp add: fat12_start_def)
  obtain dv where dv: "read12 s (fb_bytes (FAT_buffer s)) 3 (fat_offset12 (partition12 s)) = Some (E_DEVICE_OK, disk_table s, s\<lparr>device12 := dv\<rparr>)"
    "same_disk n (device12 s) dv"
    using read12_ok [OF g _ _ l, of "fb_bytes (FAT_buffer s)"] fat12_okD(5) [OF s] by (auto simp: disk_table_def fat12_start_def)
  let ?s = "s\<lparr>device12 := dv, FAT_buffer := (FAT_buffer s)\<lparr>fb_bytes := disk_table s, fb_sector := 0\<rparr>\<rparr>"
  have "(0 :: u32) \<noteq> (-1) div 3" by simp
  then have e: "get_entry_offset s c = Some (c + c div 2 mod (512 * 3), ?s)"
    using cluster_offset(1) [OF c] f dv(1) by (simp add: get_entry_offset_def flush_fat_buffer_def)
  have sd: "sector dv k = sector (device12 s) k" if "k < n" for k using dv(2) that by (simp add: same_disk_def)
  have "fat12_start s + 3 \<le> n" using l by (simp add: fat12_start_def)
  then have d: "disk_table ?s = disk_table s"
    unfolding disk_table_def fat12_start_def by (intro arg_cong [of _ _ concat] map_cong) (use sd in auto)
  then have "fat12_ok n ?s"
    using s dv(2) fat12_ok_lengths(1) [OF s] f(2) by (simp add: fat12_ok_def same_disk_def fat12_start_def fat12_size_def table12_def)
  then show ?thesis using e cluster_offset(2) [OF c] sd False f(2)
    by (intro exI [of _ "c + c div 2 mod (512 * 3)"] exI [of _ ?s]) (simp add: table12_def same_rest_def same_sectors_def)
qed

lemma odd_word: "(c :: u32) AND 1 \<noteq> 0 \<longleftrightarrow> odd (unat c)"
proof -
  have "c AND 1 = of_bool (odd c)" by (simp add: and_one_eq mod_2_eq_odd)
  moreover have "odd c \<longleftrightarrow> odd (unat c)"
    using bit_0 [of c] bit_0 [of "unat c"] by (simp add: bit_unsigned_iff)
  ultimately show ?thesis by simp
qed

lemma entry_in_window: "c < 1024 \<Longrightarrow> c + c div 2 + 1 < (1536 :: nat)"
  by linarith

lemma read_fat_value_ok:
  assumes s: "fat12_ok n s" and c: "unat c < 1024"
  shows "\<exists>s'. read_fat_value s c = Some (entry12 (table12 s) (unat c), s') \<and> fat12_ok n s' \<and> table12 s' = table12 s
    \<and> fb_changed (FAT_buffer s') = fb_changed (FAT_buffer s) \<and> same_rest s s' \<and> same_sectors n s s'"
proof -
  obtain off s' where g: "get_entry_offset s c = Some (off, s')" "unat off = unat c + unat c div 2" "fat12_ok n s'"
    "fb_sector (FAT_buffer s') = 0" "fb_bytes (FAT_buffer s') = table12 s" "fb_changed (FAT_buffer s') = fb_changed (FAT_buffer s)"
    "same_rest s s'" "same_sectors n s s'"
    using get_entry_offset_ok [OF s c] by blast
  have l: "unat c + unat c div 2 + 1 < length (table12 s)" using entry_in_window [OF c] fat12_ok_lengths(2) [OF s] by simp
  have "read_fat_value s c = Some (entry12 (table12 s) (unat c), s')"
    using l unfolding read_fat_value_def g(1) by (simp add: g(2,5) entry12_def odd_word Let_def)
  moreover have "table12 s' = table12 s" using g(4,5) by (simp add: table12_def [of s'])
  ultimately show ?thesis using g by blast
qed

lemma write_fat_value_ok:
  assumes s: "fat12_ok n s" and c: "unat c < 1024"
  shows "\<exists>s'. write_fat_value s c v = Some s' \<and> fat12_ok n s' \<and> table12 s' = set_entry12 (table12 s) (unat c) v
    \<and> fb_changed (FAT_buffer s') \<and> same_rest s s' \<and> same_sectors n s s'"
proof -
  obtain off s' where g: "get_entry_offset s c = Some (off, s')" "unat off = unat c + unat c div 2" "fat12_ok n s'"
    "fb_sector (FAT_buffer s') = 0" "fb_bytes (FAT_buffer s') = table12 s" "fb_changed (FAT_buffer s') = fb_changed (FAT_buffer s)"
    "same_rest s s'" "same_sectors n s s'"
    using get_entry_offset_ok [OF s c] by blast
  have l: "unat c + unat c div 2 + 1 < length (table12 s)" using entry_in_window [OF c] fat12_ok_lengths(2) [OF s] by simp
  let ?s = "s'\<lparr>FAT_buffer := (FAT_buffer s')\<lparr>fb_bytes := set_entry12 (table12 s) (unat c) v, fb_changed := True\<rparr>\<rparr>"
  have "write_fat_value s c v = Some ?s"
    using l unfolding write_fat_value_def g(1) by (simp add: g(2,5) set_entry12_def odd_word Let_def)
  moreover have "fat12_ok n ?s"
    using g(3,4) fat12_ok_lengths(2) [OF s] by (simp add: fat12_ok_def fat12_start_def fat12_size_def)
  moreover have "table12 ?s = set_entry12 (table12 s) (unat c) v" using g(4) by (simp add: table12_def)
  ultimately show ?thesis using g(7,8) by (intro exI [of _ ?s]) (simp add: same_rest_def same_sectors_def)
qed

subsection \<open>Flushing\<close>

text \<open>The sectors of the disk after a flush of the window \<open>b\<close>.\<close>

definition flushed :: "'d FAT12 \<Rightarrow> nat \<Rightarrow> byte list" where
  "flushed s k =
     (if fat12_start s \<le> k \<and> k < fat12_start s + 3 then take 512 (drop (512 * (k - fat12_start s)) (table12 s))
      else if fat12_start s + fat12_size s \<le> k \<and> k < fat12_start s + fat12_size s + 3
      then take 512 (drop (512 * (k - (fat12_start s + fat12_size s))) (table12 s))
      else sector (device12 s) k)"

lemma concat_slices:
  assumes "length b = 512 * m" "\<And>k. a \<le> k \<Longrightarrow> k < a + m \<Longrightarrow> f k = take 512 (drop (512 * (k - a)) b)"
  shows "concat (map f [a..<a + m]) = b"
  using assms
proof (induction m arbitrary: b)
  case (Suc m)
  have "concat (map f [a..<a + m]) = take (512 * m) b"
  proof (rule Suc.IH)
    show "length (take (512 * m) b) = 512 * m" using Suc.prems(1) by simp
    fix k assume k: "a \<le> k" "k < a + m"
    then have "512 * (k - a) + 512 \<le> 512 * m" by auto
    then show "f k = take 512 (drop (512 * (k - a)) (take (512 * m) b))"
      using Suc.prems(2) [of k] k by (simp add: drop_take min_def)
  qed
  moreover have "f (a + m) = drop (512 * m) b" using Suc.prems(1) Suc.prems(2) [of "a + m"] by simp
  ultimately show ?case by simp
qed simp

lemma flush_fat_buffer_ok:
  assumes s: "fat12_ok n s"
  shows "\<exists>s'. flush_fat_buffer s = Some s' \<and> fat12_ok n s' \<and> table12 s' = table12 s \<and> \<not> fb_changed (FAT_buffer s')
    \<and> disk_table s' = table12 s \<and> same_rest s s'
    \<and> (\<forall>k<n. sector (device12 s') k = (if fb_changed (FAT_buffer s) then flushed s k else sector (device12 s) k))"
proof (cases "fb_changed (FAT_buffer s)")
  case False
  then show ?thesis using s fat12_okD(7) [OF s False] by (intro exI [of _ s]) (simp add: flush_fat_buffer_def)
next
  case True
  let ?p = "partition12 s" and ?b = "fb_bytes (FAT_buffer s)"
  have z: "fb_sector (FAT_buffer s) = 0" using fat12_okD(6) [OF s] True by auto
  have t: "table12 s = ?b" using z by (simp add: table12_def)
  have L: "fat12_start s + 2 * fat12_size s \<le> n" "n < 2 ^ 32" "3 \<le> fat12_size s" using fat12_okD [OF s] by auto
  have sz: "unat (ucast (sectors_per_fat12 ?p) :: u32) = fat12_size s"
    using unsigned_less [of "sectors_per_fat12 ?p", where 'a = nat] by (simp add: fat12_size_def unsigned_ucast_eq take_bit_nat_eq_self)
  have a: "unat (fat_offset12 ?p) = fat12_start s" "unat (fat_offset12 ?p + ucast (sectors_per_fat12 ?p)) = fat12_start s + fat12_size s"
    using L sz by (simp_all add: fat12_start_def unat_add_u32)
  have b: "length ?b = 512 * unat (3 :: u32)" using fat12_okD(5) [OF s] by simp
  have l1: "unat (fat_offset12 ?p) + unat (3 :: u32) \<le> n" using L a by simp
  obtain dv1 where w1: "write12 s ?b 3 (fat_offset12 ?p) = Some (E_DEVICE_OK, s\<lparr>device12 := dv1\<rparr>)" "good_blocks n dv1"
    "\<forall>k<n. sector dv1 k = (if fat12_start s \<le> k \<and> k < fat12_start s + 3 then take 512 (drop (512 * (k - fat12_start s)) ?b)
       else sector (device12 s) k)"
    using write12_ok [OF fat12_okD(1) [OF s] _ _ l1 b] a by auto
  let ?s1 = "s\<lparr>device12 := dv1\<rparr>"
  have g1: "good_blocks n (device12 ?s1)" using w1(2) by simp
  have l2: "unat (fat_offset12 ?p + ucast (sectors_per_fat12 ?p)) + unat (3 :: u32) \<le> n" using L a by simp
  obtain dv2 where w2: "write12 ?s1 ?b 3 (fat_offset12 ?p + ucast (sectors_per_fat12 ?p)) = Some (E_DEVICE_OK, ?s1\<lparr>device12 := dv2\<rparr>)"
    "good_blocks n dv2"
    "\<forall>k<n. sector dv2 k = (if fat12_start s + fat12_size s \<le> k \<and> k < fat12_start s + fat12_size s + 3
       then take 512 (drop (512 * (k - (fat12_start s + fat12_size s))) ?b) else sector dv1 k)"
    using write12_ok [OF g1 _ _ l2 b] a by auto
  let ?s = "s\<lparr>device12 := dv2, FAT_buffer := (FAT_buffer s)\<lparr>fb_changed := False\<rparr>\<rparr>"
  have e: "flush_fat_buffer s = Some ?s"
    using True w1(1) w2(1) z by (simp add: flush_fat_buffer_def)
  have sec: "\<forall>k<n. sector dv2 k = flushed s k"
    using w1(3) w2(3) L(3) by (auto simp: flushed_def t)
  have d: "disk_table ?s = table12 s"
  proof -
    have "sector dv2 k = take 512 (drop (512 * (k - fat12_start s)) (table12 s))" if "fat12_start s \<le> k" "k < fat12_start s + 3" for k
      using sec that L by (simp add: flushed_def)
    then show ?thesis using concat_slices [of "table12 s" 3 "fat12_start s" "sector dv2"] fat12_ok_lengths(2) [OF s]
      by (simp add: disk_table_def fat12_start_def)
  qed
  have "table12 ?s = table12 s" using z by (simp add: table12_def)
  then have "fat12_ok n ?s" using s w2(2) d z by (simp add: fat12_ok_def fat12_start_def fat12_size_def)
  then show ?thesis using e d sec True \<open>table12 ?s = table12 s\<close> by (intro exI [of _ ?s]) (simp add: same_rest_def)
qed

end
