(* ===== verification/Fat12_Chain.thy ===== *)
theory Fat12_Chain
  imports Fat12_Table Memory Strings
begin

text \<open>
  The FAT12 driver, second part: cluster chains (\<^verbatim>\<open>read_chain\<close>, \<^verbatim>\<open>reserve_chain\<close>,
  \<^verbatim>\<open>resize_chain\<close> and their helpers). A list of clusters is an array of the heap; a null
  pointer is \<^term>\<open>None\<close>, and leaving an array has no defined result.
\<close>

subsection \<open>Following a chain\<close>

text \<open>
  \<^verbatim>\<open>clusters_list\<close> from its first cell on, filled until a value ends the chain or its 256 cells are
  used up, with the number of clusters; the terminating value is in the list.
\<close>

fun chain_loop :: "'d FAT12 \<Rightarrow> u32 list \<Rightarrow> nat \<Rightarrow> (u32 list \<times> nat \<times> 'd FAT12) option" where
  "chain_loop s cells 0 = Some (cells, length cells, s)"
| "chain_loop s cells (Suc k) = do {
     (v, s) \<leftarrow> read_fat_value s (last cells);
     if 0xFF8 < v \<or> v < 1 then Some (cells @ [v], length cells, s)
     else chain_loop s (cells @ [v]) k
   }"

definition list_chain :: "'d FAT12 \<Rightarrow> u32 \<Rightarrow> (u32 list \<times> nat \<times> 'd FAT12) option" where
  "list_chain s cluster = chain_loop s [cluster] 255"

definition cluster_lba12 :: "'d FAT12 \<Rightarrow> u32 \<Rightarrow> u32" where
  "cluster_lba12 s cluster = cluster + data_offset12 (partition12 s) - 2"

fun read_clusters :: "'d FAT12 \<Rightarrow> u32 list \<Rightarrow> (byte list \<times> 'd FAT12) option" where
  "read_clusters s [] = Some ([], s)"
| "read_clusters s (c # cs) = do {
     (_, b, s) \<leftarrow> read12 s (replicate 512 0) 1 (cluster_lba12 s c);
     (bs, s) \<leftarrow> read_clusters s cs;
     Some (b @ bs, s)
   }"

definition read_chain :: "'d FAT12 \<Rightarrow> u32 \<Rightarrow> (byte list \<times> nat \<times> 'd FAT12) option" where
  "read_chain s cluster = do {
     (cells, len, s) \<leftarrow> list_chain s cluster;
     (buf, s) \<leftarrow> read_clusters s (take len cells);
     Some (buf, len, s)
   }"

text \<open>The cluster \<open>k\<close> links behind \<open>cluster\<close>, or the value that ended the chain before.\<close>

fun walk_chain :: "'d FAT12 \<Rightarrow> u32 \<Rightarrow> nat \<Rightarrow> (u32 \<times> 'd FAT12) option" where
  "walk_chain s cluster 0 = Some (cluster, s)"
| "walk_chain s cluster (Suc k) = do {
     (v, s) \<leftarrow> read_fat_value s cluster;
     if 0xFF8 < v \<or> v < 1 then Some (v, s) else walk_chain s v k
   }"

subsection \<open>Reserving clusters\<close>

text \<open>
  The search for free clusters from \<open>current\<close> on, appending to the array \<open>acc\<close> of \<open>cells\<close> cells until
  it has \<open>clusters\<close> of them; \<^term>\<open>Some None\<close> when the volume is exhausted.
\<close>

partial_function (option) reserve_loop ::
  "'d FAT12 \<Rightarrow> nat \<Rightarrow> nat \<Rightarrow> u32 \<Rightarrow> u32 list \<Rightarrow> (u32 list option \<times> 'd FAT12) option" where
  "reserve_loop s clusters cells current acc =
     (if length acc < clusters
      then if sectors12 (partition12 s) < current then Some (None, s)
           else do {
             (v, s) \<leftarrow> read_fat_value s current;
             if v = 0
             then if length acc < cells then reserve_loop s clusters cells (current + 1) (acc @ [current]) else None
             else reserve_loop s clusters cells (current + 1) acc
           }
      else Some (Some acc, s))"

text \<open>\<^verbatim>\<open>write_fat_value(part, clusters_list[i], clusters_list[i + 1])\<close> along the list.\<close>

fun link_clusters :: "'d FAT12 \<Rightarrow> u32 list \<Rightarrow> 'd FAT12 option" where
  "link_clusters s (a # b # cs) = do { s \<leftarrow> write_fat_value s a b; link_clusters s (b # cs) }"
| "link_clusters s _ = Some s"

definition reserve_chain :: "'d FAT12 \<Rightarrow> u32 \<Rightarrow> (u32 list option \<times> 'd FAT12) option" where
  "reserve_chain s clusters = do {
     (r, s) \<leftarrow> reserve_loop s (unat clusters) (unat (clusters + 1)) 2 [];
     case r of
       None \<Rightarrow> Some (None, s)
     | Some cs \<Rightarrow>
         if length cs < unat (clusters + 1) then do {
           s \<leftarrow> link_clusters s (cs @ [0xFFF]);
           s \<leftarrow> flush_fat_buffer s;
           Some (Some (cs @ [0xFFF]), s)
         }
         else None
   }"

text \<open>The same buffer goes to every cluster of the list.\<close>

fun fill_clusters :: "'d FAT12 \<Rightarrow> u32 list \<Rightarrow> byte list \<Rightarrow> 'd FAT12 option" where
  "fill_clusters s [] buf = Some s"
| "fill_clusters s (c # cs) buf = do {
     (_, s) \<leftarrow> write12 s buf 1 (data_offset12 (partition12 s) - 2 + c);
     fill_clusters s cs buf
   }"

definition fill_chain :: "'d FAT12 \<Rightarrow> u32 list \<Rightarrow> u32 \<Rightarrow> byte list \<Rightarrow> 'd FAT12 option" where
  "fill_chain s cs clusters buf =
     (if unat clusters \<le> length cs then fill_clusters s (take (unat clusters) cs) buf else None)"

definition fill_chain_sector_from_begin_offset :: "'d FAT12 \<Rightarrow> u32 \<Rightarrow> byte list \<Rightarrow> nat \<Rightarrow> 'd FAT12 option" where
  "fill_chain_sector_from_begin_offset s cluster buf offset = do {
     (c, s) \<leftarrow> walk_chain s cluster offset;
     (_, s) \<leftarrow> write12 s buf 1 (data_offset12 (partition12 s) - 2 + c);
     Some s
   }"

subsection \<open>Resizing a chain\<close>

fun clear_clusters :: "'d FAT12 \<Rightarrow> u32 list \<Rightarrow> 'd FAT12 option" where
  "clear_clusters s [] = Some s"
| "clear_clusters s (c # cs) = do { s \<leftarrow> write_fat_value s c 0; clear_clusters s cs }"

text \<open>
  Growing links the whole list again and flushes twice; shrinking frees the clusters behind the
  first \<open>clusters\<close> ones, last first, and leaves the link to them.
\<close>

definition resize_chain :: "'d FAT12 \<Rightarrow> u32 \<Rightarrow> nat \<Rightarrow> (u32 list option \<times> 'd FAT12) option" where
  "resize_chain s cluster clusters = do {
     (cells, len, s) \<leftarrow> list_chain s cluster;
     if len < clusters
     then do {
       (r, s) \<leftarrow> reserve_loop s clusters 256 2 (take len cells);
       case r of
         None \<Rightarrow> Some (None, s)
       | Some cs \<Rightarrow>
           if length cs < 256 then do {
             s \<leftarrow> link_clusters s (cs @ [0xFFF]);
             s \<leftarrow> flush_fat_buffer s;
             s \<leftarrow> flush_fat_buffer s;
             Some (Some (cs @ [0xFFF]), s)
           }
           else None
     }
     else do {
       s \<leftarrow> clear_clusters s (rev (drop clusters (take len cells)));
       s \<leftarrow> flush_fat_buffer s;
       Some (Some cells, s)
     }
   }"

subsection \<open>Directories as arrays\<close>

definition list_root :: "'d FAT12 \<Rightarrow> (byte list \<times> nat \<times> 'd FAT12) option" where
  "list_root s = (let p = partition12 s in do {
     (_, buf, s) \<leftarrow> read12 s (replicate (unat (root_size12 p) * 512) 0) (root_size12 p) (root_offset12 p);
     Some (buf, unat (root_entries12 p), s)
   })"

definition list_dir12 :: "'d FAT12 \<Rightarrow> u32 \<Rightarrow> (byte list \<times> nat \<times> 'd FAT12) option" where
  "list_dir12 s cluster = do {
     (buf, len, s) \<leftarrow> read_chain s cluster;
     Some (buf, len * 16, s)
   }"

end
