(* ===== verification/Fat12_Chain_Theorems.thy ===== *)
theory Fat12_Chain_Theorems
  imports Fat12_Store Fat12_Chain
begin

text \<open>
  Cluster chains of the FAT12 driver against the table: reserving takes the first free clusters
  and links them, following and reading a chain yields its clusters and their contents.
\<close>

subsection \<open>The table as a function\<close>

definition fat12_value :: "'d FAT12 \<Rightarrow> u32 \<Rightarrow> u32" where
  "fat12_value s c = entry12 (table12 s) (unat c)"

lemma read_value:
  assumes "fat12_ok n s" "unat c < 1024"
  shows "\<exists>s'. read_fat_value s c = Some (fat12_value s c, s') \<and> fat12_ok n s' \<and> table12 s' = table12 s
    \<and> same_rest s s' \<and> same_sectors n s s'"
  using read_fat_value_ok [OF assms] by (auto simp: fat12_value_def)

lemma value_cong: "table12 s' = table12 s \<Longrightarrow> fat12_value s' = fat12_value s"
  by (simp add: fat12_value_def fun_eq_iff)

lemma write_value:
  assumes "fat12_ok n s" "unat c < 1024"
  shows "\<exists>s'. write_fat_value s c v = Some s' \<and> fat12_ok n s'
    \<and> (\<forall>x. unat x < 1024 \<longrightarrow> fat12_value s' x = (if x = c then v AND 0xFFF else fat12_value s x))
    \<and> fb_changed (FAT_buffer s') \<and> same_rest s s' \<and> same_sectors n s s'"
proof -
  obtain s' where s': "write_fat_value s c v = Some s'" "fat12_ok n s'" "table12 s' = set_entry12 (table12 s) (unat c) v"
    "fb_changed (FAT_buffer s')" "same_rest s s'" "same_sectors n s s'"
    using write_fat_value_ok [OF assms] by blast
  have "fat12_value s' x = (if x = c then v AND 0xFFF else fat12_value s x)" if "unat x < 1024" for x
    using entry12_set [of "unat c" "table12 s" "unat x" v] entry_in_window [OF assms(2)] entry_in_window [OF that]
      fat12_ok_lengths(2) [OF assms(1)] by (simp add: fat12_value_def s'(3))
  then show ?thesis using s' by blast
qed

subsection \<open>Reserving\<close>

lemma reserve_loop_ok:
  assumes "fat12_ok n s" "unat cur \<le> m" "m \<le> 1024" "m \<le> unat (sectors12 (partition12 s)) + 1"
    and "clusters \<le> length acc + length (filter (\<lambda>c. fat12_value s (of_nat c) = 0) [unat cur..<m])"
    and "clusters \<le> cells" "length acc \<le> clusters"
  shows "\<exists>s'. reserve_loop s clusters cells cur acc
      = Some (Some (acc @ map of_nat (take (clusters - length acc) (filter (\<lambda>c. fat12_value s (of_nat c) = 0) [unat cur..<m]))), s')
    \<and> fat12_ok n s' \<and> table12 s' = table12 s \<and> same_rest s s' \<and> same_sectors n s s'"
  using assms
proof (induction "m - unat cur" arbitrary: s cur acc)
  case 0
  then show ?case by (intro exI [of _ s]) (subst reserve_loop.simps, simp)
next
  case (Suc k)
  let ?F = "\<lambda>s. filter (\<lambda>c. fat12_value s (of_nat c) = 0)"
  show ?case
  proof (cases "length acc < clusters")
    case False
    then show ?thesis using Suc.prems by (intro exI [of _ s]) (subst reserve_loop.simps, simp)
  next
    case True
    have c: "unat cur < m" "unat cur < 1024" using Suc.hyps(2) Suc.prems(3) by auto
    have cur: "(of_nat (unat cur) :: u32) = cur" by simp
    have nx: "unat (cur + 1) = Suc (unat cur)" using c by (simp add: unat_add_u32)
    have "\<not> sectors12 (partition12 s) < cur" using c Suc.prems(4) by (simp add: word_less_nat_alt)
    moreover obtain s1 where s1: "read_fat_value s cur = Some (fat12_value s cur, s1)" "fat12_ok n s1" "table12 s1 = table12 s"
      "same_rest s s1" "same_sectors n s s1" using read_value [OF Suc.prems(1) c(2)] by blast
    ultimately have step: "reserve_loop s clusters cells cur acc
        = reserve_loop s1 clusters cells (cur + 1) (if fat12_value s cur = 0 then acc @ [cur] else acc)"
      using True Suc.prems(6) by (subst reserve_loop.simps) simp
    note v = value_cong [OF s1(3)]
    have u: "[unat cur..<m] = unat cur # [unat (cur + 1)..<m]" using c nx by (simp add: upt_conv_Cons)
    let ?acc = "if fat12_value s cur = 0 then acc @ [cur] else acc"
    have "\<exists>s'. reserve_loop s1 clusters cells (cur + 1) ?acc
        = Some (Some (?acc @ map of_nat (take (clusters - length ?acc) (?F s1 [unat (cur + 1)..<m]))), s')
      \<and> fat12_ok n s' \<and> table12 s' = table12 s1 \<and> same_rest s1 s' \<and> same_sectors n s1 s'"
    proof (rule Suc.hyps(1))
      show "k = m - unat (cur + 1)" using Suc.hyps(2) nx by simp
      show "unat (cur + 1) \<le> m" using c nx by simp
      show "m \<le> unat (sectors12 (partition12 s1)) + 1" using Suc.prems(4) s1(4) by (simp add: same_rest_def)
      show "clusters \<le> length ?acc + length (?F s1 [unat (cur + 1)..<m])"
        using Suc.prems(5) unfolding u v by (cases "fat12_value s cur = 0") (simp_all only: filter.simps cur if_True if_False, simp_all)
      show "length ?acc \<le> clusters" using True by simp
    qed (use Suc.prems s1 in auto)
    then obtain s' where s': "reserve_loop s1 clusters cells (cur + 1) ?acc
        = Some (Some (?acc @ map of_nat (take (clusters - length ?acc) (?F s1 [unat (cur + 1)..<m]))), s')"
      "fat12_ok n s'" "table12 s' = table12 s1" "same_rest s1 s'" "same_sectors n s1 s'" by blast
    obtain j where j: "clusters - length acc = Suc j" using True by (cases "clusters - length acc") auto
    then have j': "clusters - Suc (length acc) = j" by simp
    have "?acc @ map of_nat (take (clusters - length ?acc) (?F s1 [unat (cur + 1)..<m]))
        = acc @ map of_nat (take (clusters - length acc) (?F s [unat cur..<m]))"
      unfolding u v using j j' by (cases "fat12_value s cur = 0") (simp_all only: filter.simps cur if_True if_False, simp_all)
    then show ?thesis
      using s' s1(3) step same_rest_trans [OF s1(4) s'(4)] same_sectors_trans [OF s1(5) s'(5)] by (intro exI [of _ s']) simp
  qed
qed

text \<open>Linking a list of distinct clusters.\<close>

lemma link_clusters_ok:
  assumes "fat12_ok n s" "distinct cs" "\<forall>c\<in>set cs. unat c < 1024"
  shows "\<exists>s'. link_clusters s (cs @ [e]) = Some s' \<and> fat12_ok n s'
    \<and> (\<forall>x. unat x < 1024 \<longrightarrow> fat12_value s' x
         = (case map_of (zip cs (tl cs @ [e])) x of Some v \<Rightarrow> v AND 0xFFF | None \<Rightarrow> fat12_value s x))
    \<and> (cs \<noteq> [] \<longrightarrow> fb_changed (FAT_buffer s')) \<and> same_rest s s' \<and> same_sectors n s s'"
  using assms
proof (induction cs arbitrary: s)
  case (Cons c cs)
  let ?v = "hd (cs @ [e])"
  obtain s1 where s1: "write_fat_value s c ?v = Some s1" "fat12_ok n s1"
    "\<forall>x. unat x < 1024 \<longrightarrow> fat12_value s1 x = (if x = c then ?v AND 0xFFF else fat12_value s x)"
    "fb_changed (FAT_buffer s1)" "same_rest s s1" "same_sectors n s s1"
    using write_value [OF Cons.prems(1), of c ?v] Cons.prems(3) by (meson list.set_intros(1))
  obtain s' where s': "link_clusters s1 (cs @ [e]) = Some s'" "fat12_ok n s'"
    "\<forall>x. unat x < 1024 \<longrightarrow> fat12_value s' x = (case map_of (zip cs (tl cs @ [e])) x of Some v \<Rightarrow> v AND 0xFFF | None \<Rightarrow> fat12_value s1 x)"
    "cs \<noteq> [] \<longrightarrow> fb_changed (FAT_buffer s')" "same_rest s1 s'" "same_sectors n s1 s'"
    using Cons.IH [OF s1(2)] Cons.prems by auto
  have l: "link_clusters s ((c # cs) @ [e]) = Some s'"
    using s1(1) s'(1) by (cases cs) auto
  have z: "zip (c # cs) (tl (c # cs) @ [e]) = (c, ?v) # zip cs (tl cs @ [e])" by (cases cs) auto
  have nc: "map_of (zip cs (tl cs @ [e])) c = None"
    using Cons.prems(2) by (auto simp: map_of_eq_None_iff set_zip_leftD dest: set_zip_leftD)
  have "fat12_value s' x = (case map_of (zip (c # cs) (tl (c # cs) @ [e])) x of Some v \<Rightarrow> v AND 0xFFF | None \<Rightarrow> fat12_value s x)"
    if "unat x < 1024" for x
    using that s'(3) s1(3) nc unfolding z by (cases "x = c") (auto split: option.split)
  moreover have "fb_changed (FAT_buffer s')" using s1(4) s' by (cases cs) auto
  ultimately show ?case using l s' s1 same_rest_trans same_sectors_trans by blast
qed (auto intro: exI [of _ s])


text \<open>The free clusters below \<open>m\<close>, in order.\<close>

definition free_clusters12 :: "'d FAT12 \<Rightarrow> nat \<Rightarrow> u32 list" where
  "free_clusters12 s m = map of_nat (filter (\<lambda>c. fat12_value s (of_nat c) = 0) [2..<m])"

lemma free_clusters12_set: "m \<le> 1024 \<Longrightarrow> c \<in> set (free_clusters12 s m) \<Longrightarrow> 2 \<le> unat c \<and> unat c < m \<and> fat12_value s c = 0"
  by (auto simp: free_clusters12_def unat_of_nat_u32)

lemma distinct_free_clusters12: "m \<le> 1024 \<Longrightarrow> distinct (free_clusters12 s m)"
  unfolding free_clusters12_def
proof (subst distinct_map, intro conjI inj_onI)
  fix x y assume m: "m \<le> 1024" and xy: "x \<in> set (filter (\<lambda>c. fat12_value s (of_nat c) = 0) [2..<m])"
    "y \<in> set (filter (\<lambda>c. fat12_value s (of_nat c) = 0) [2..<m])" "(of_nat x :: u32) = of_nat y"
  then have "x < 2 ^ 32" "y < 2 ^ 32" by auto
  then have "unat (of_nat x :: u32) = x" "unat (of_nat y :: u32) = y" by (simp_all only: unat_of_nat_u32)
  then show "x = y" using xy(3) by metis
qed simp

lemma and_12_bits: "unat (v :: u32) < 0x1000 \<Longrightarrow> v AND 0xFFF = v"
proof -
  assume "unat v < 0x1000"
  then have "unat (take_bit 12 v) = unat v" by (simp add: unsigned_take_bit_eq take_bit_nat_eq_self)
  then show "v AND 0xFFF = v" by (simp add: masks(6) flip: take_bit_eq_mask)
qed

lemma linked_values:
  assumes "distinct cs" "\<forall>c\<in>set cs. unat c < 0x1000" "unat (e :: u32) < 0x1000" "i < length cs"
  shows "(case map_of (zip cs (tl cs @ [e])) (cs ! i) of Some v \<Rightarrow> v AND 0xFFF | None \<Rightarrow> d) = (cs @ [e]) ! Suc i"
proof -
  have l: "length (tl cs @ [e]) = length cs" using assms(4) by (cases cs) auto
  have "map_of (zip cs (tl cs @ [e])) (cs ! i) = Some ((tl cs @ [e]) ! i)"
    using map_of_zip_nth [OF l [symmetric] assms(1), of i] assms(4) l by simp
  moreover have "(tl cs @ [e]) ! i = (cs @ [e]) ! Suc i" using assms(4) by (cases cs) auto
  moreover have "(cs @ [e]) ! Suc i \<in> set cs \<union> {e}" using assms(4) by (auto simp: nth_append less_Suc_eq not_less)
  ultimately show ?thesis using and_12_bits assms(2,3) by auto
qed

definition copies_agree :: "'d FAT12 \<Rightarrow> bool" where
  "copies_agree s \<longleftrightarrow> disk_table s = table12 s
     \<and> (\<forall>k<3. sector (device12 s) (fat12_start s + fat12_size s + k) = sector (device12 s) (fat12_start s + k))"

definition in_tables :: "'d FAT12 \<Rightarrow> nat \<Rightarrow> bool" where
  "in_tables s k \<longleftrightarrow> fat12_start s \<le> k \<and> k < fat12_start s + 2 * fat12_size s"

lemma flush_changed:
  assumes "fat12_ok n s" "fb_changed (FAT_buffer s)"
  shows "\<exists>s'. flush_fat_buffer s = Some s' \<and> fat12_ok n s' \<and> table12 s' = table12 s \<and> \<not> fb_changed (FAT_buffer s')
    \<and> copies_agree s' \<and> same_rest s s' \<and> (\<forall>k<n. \<not> in_tables s k \<longrightarrow> sector (device12 s') k = sector (device12 s) k)"
proof -
  obtain s' where s': "flush_fat_buffer s = Some s'" "fat12_ok n s'" "table12 s' = table12 s" "\<not> fb_changed (FAT_buffer s')"
    "disk_table s' = table12 s" "same_rest s s'" "\<forall>k<n. sector (device12 s') k = flushed s k"
    using flush_fat_buffer_ok [OF assms(1)] assms(2) by auto
  have L: "fat12_start s + 2 * fat12_size s \<le> n" "3 \<le> fat12_size s" using fat12_okD [OF assms(1)] by auto
  have "sector (device12 s') (fat12_start s + fat12_size s + k) = sector (device12 s') (fat12_start s + k)" if "k < 3" for k
    using s'(7) L that by (simp add: flushed_def)
  then have "copies_agree s'" using s'(3,5) same_rest_geometry [OF s'(6)] by (simp add: copies_agree_def)
  moreover have "sector (device12 s') k = sector (device12 s) k" if "k < n" "\<not> in_tables s k" for k
    using s'(7) L that by (auto simp: flushed_def in_tables_def)
  ultimately show ?thesis using s' by blast
qed

lemma reserve_chain_ok:
  assumes s: "fat12_ok n s" and m: "m \<le> 1024" "2 \<le> m" "m \<le> unat (sectors12 (partition12 s)) + 1"
    and k: "0 < unat k" "unat k \<le> length (free_clusters12 s m)"
  defines "cs \<equiv> take (unat k) (free_clusters12 s m)"
  shows "\<exists>s'. reserve_chain s k = Some (Some (cs @ [0xFFF]), s') \<and> fat12_ok n s'
    \<and> (\<forall>i < unat k. fat12_value s' (cs ! i) = (cs @ [0xFFF]) ! Suc i)
    \<and> (\<forall>x. unat x < 1024 \<and> x \<notin> set cs \<longrightarrow> fat12_value s' x = fat12_value s x)
    \<and> copies_agree s' \<and> same_rest s s' \<and> \<not> fb_changed (FAT_buffer s') \<and> (\<forall>j<n. \<not> in_tables s j \<longrightarrow> sector (device12 s') j = sector (device12 s) j)"
proof -
  have lk: "length cs = unat k" using k(2) by (simp add: cs_def)
  have "length (free_clusters12 s m) \<le> 1022" using m by (simp add: free_clusters12_def order_trans [OF length_filter_le])
  then have k1: "unat (k + 1) = Suc (unat k)" using k by (simp add: unat_add_u32)
  have f: "cs = [] @ map of_nat (take (unat k - length ([] :: u32 list)) (filter (\<lambda>c. fat12_value s (of_nat c) = 0) [unat (2 :: u32)..<m]))"
    by (simp add: cs_def free_clusters12_def take_map)
  obtain s1 where s1: "reserve_loop s (unat k) (unat (k + 1)) 2 [] = Some (Some cs, s1)" "fat12_ok n s1" "table12 s1 = table12 s"
    "same_rest s s1" "same_sectors n s s1"
    unfolding f using reserve_loop_ok [OF s, of 2 m "unat k" "[]" "unat (k + 1)"] m k k1 by (auto simp: free_clusters12_def)
  have cs: "distinct cs" "\<forall>c\<in>set cs. unat c < 1024"
    using distinct_free_clusters12 [OF m(1), of s] free_clusters12_set [OF m(1), of _ s] m(1) in_set_takeD [of _ "unat k"]
    by (fastforce simp: cs_def)+
  obtain s2 where s2: "link_clusters s1 (cs @ [0xFFF]) = Some s2" "fat12_ok n s2"
    "\<forall>x. unat x < 1024 \<longrightarrow> fat12_value s2 x = (case map_of (zip cs (tl cs @ [0xFFF])) x of Some v \<Rightarrow> v AND 0xFFF | None \<Rightarrow> fat12_value s1 x)"
    "fb_changed (FAT_buffer s2)" "same_rest s1 s2" "same_sectors n s1 s2"
    using link_clusters_ok [OF s1(2) cs, of "0xFFF"] lk k(1) by auto
  obtain s3 where s3: "flush_fat_buffer s2 = Some s3" "fat12_ok n s3" "table12 s3 = table12 s2" "copies_agree s3" "same_rest s2 s3"
    "\<not> fb_changed (FAT_buffer s3)"
    "\<forall>j<n. \<not> in_tables s2 j \<longrightarrow> sector (device12 s3) j = sector (device12 s2) j"
    using flush_changed [OF s2(2,4)] by blast
  have "reserve_chain s k = Some (Some (cs @ [0xFFF]), s3)"
    using s1(1) s2(1) s3(1) lk k1 by (simp add: reserve_chain_def)
  moreover have "\<forall>c\<in>set cs. unat c < 0x1000" using cs(2) by fastforce
  then have "fat12_value s3 (cs ! i) = (cs @ [0xFFF]) ! Suc i" if "i < unat k" for i
    using that cs(2) lk s2(3) linked_values [OF cs(1), of "0xFFF" i "fat12_value s1 (cs ! i)"] value_cong [OF s3(3)]
    by (simp add: nth_mem less_trans)
  moreover have "fat12_value s3 x = fat12_value s x" if "unat x < 1024" "x \<notin> set cs" for x
  proof -
    have "map_of (zip cs (tl cs @ [0xFFF])) x = None" using that(2) by (auto simp: map_of_eq_None_iff dest: set_zip_leftD)
    then show ?thesis using s2(3) that(1) value_cong [OF s3(3)] value_cong [OF s1(3)] by simp
  qed
  moreover have "sector (device12 s3) j = sector (device12 s) j" if "j < n" "\<not> in_tables s j" for j
    using that s3(7) s2(6) s1(5) same_rest_geometry [OF s1(4)] same_rest_geometry [OF s2(5)]
    by (simp add: in_tables_def same_sectors_def)
  ultimately show ?thesis using s3(2,4,6) same_rest_trans [OF same_rest_trans [OF s1(4) s2(5)] s3(5)] by blast
qed

text \<open>C30. Reserving \<open>k\<close> clusters takes the first \<open>k\<close> free ones, links them in order to a chain that
  ends with 0xFFF, keeps every other entry, and leaves both copies of the table on the disk equal
  to it and every sector outside the tables as it was.\<close>

theorem reserve_chain_first_fit:
  assumes s: "fat12_ok n s" and m: "m \<le> 1024" "2 \<le> m" "m \<le> unat (sectors12 (partition12 s)) + 1"
    and k: "0 < unat k" "unat k \<le> length (free_clusters12 s m)"
  defines "cs \<equiv> take (unat k) (free_clusters12 s m)"
  shows "\<exists>s'. reserve_chain s k = Some (Some (cs @ [0xFFF]), s') \<and> fat12_ok n s'
    \<and> (\<forall>i < unat k. fat12_value s' (cs ! i) = (cs @ [0xFFF]) ! Suc i)
    \<and> (\<forall>x. unat x < 1024 \<and> x \<notin> set cs \<longrightarrow> fat12_value s' x = fat12_value s x)
    \<and> copies_agree s' \<and> (\<forall>j<n. \<not> in_tables s j \<longrightarrow> sector (device12 s') j = sector (device12 s) j)"
  unfolding cs_def using reserve_chain_ok [OF s m k] by blast

subsection \<open>Chains and their contents\<close>

fun chain12 :: "(u32 \<Rightarrow> u32) \<Rightarrow> u32 \<Rightarrow> u32 list \<Rightarrow> bool" where
  "chain12 f c [] \<longleftrightarrow> \<not> (0 < c \<and> c < 0xFF8)"
| "chain12 f c (x # xs) \<longleftrightarrow> x = c \<and> 0 < c \<and> c < 0xFF8 \<and> chain12 f (f c) xs"

definition data_start12 :: "'d FAT12 \<Rightarrow> nat" where
  "data_start12 s = unat (data_offset12 (partition12 s))"

definition data12 :: "'d FAT12 \<Rightarrow> u32 \<Rightarrow> byte list" where
  "data12 s c = sector (device12 s) (unat c + data_start12 s - 2)"

text \<open>A cluster of the first window whose sector is on the device, behind the tables.\<close>

definition data_cluster :: "nat \<Rightarrow> 'd FAT12 \<Rightarrow> u32 \<Rightarrow> bool" where
  "data_cluster n s c \<longleftrightarrow> 2 \<le> unat c \<and> unat c < 1024 \<and> unat c + data_start12 s < n + 2
     \<and> fat12_start s + 2 * fat12_size s \<le> data_start12 s"

lemma data_lba12:
  assumes "fat12_ok n s" "data_cluster n s c"
  shows "unat (cluster_lba12 s c) = unat c + data_start12 s - 2" "unat (cluster_lba12 s c) < n" "\<not> in_tables s (unat (cluster_lba12 s c))"
proof -
  have b: "2 \<le> unat c" "unat c + data_start12 s < 2 ^ 32" "fat12_start s + 2 * fat12_size s \<le> data_start12 s" "unat c + data_start12 s < n + 2"
    using assms by (auto simp: data_cluster_def fat12_ok_def)
  then have a: "unat (c + data_offset12 (partition12 s)) = unat c + data_start12 s"
    by (simp add: data_start12_def unat_add_u32)
  then have "2 \<le> c + data_offset12 (partition12 s)" using b by (simp add: word_le_nat_alt)
  then show "unat (cluster_lba12 s c) = unat c + data_start12 s - 2" using a by (simp add: cluster_lba12_def unat_diff_u32)
  then show "unat (cluster_lba12 s c) < n" "\<not> in_tables s (unat (cluster_lba12 s c))" using b by (auto simp: in_tables_def)
qed

lemma length_data12: "fat12_ok n s \<Longrightarrow> data_cluster n s c \<Longrightarrow> length (data12 s c) = 512"
  using good_blocks_length [OF fat12_okD(1)] data_lba12 by (metis data12_def)

subsection \<open>Clusters behind the first window\<close>

lemma get_entry_offset_length:
  assumes s: "fat12_ok n s" and w: "fat12_start s + unat (cluster_FAT_offset c div 3 * 3) + 3 \<le> n"
  shows "\<exists>s'. get_entry_offset s c = Some (c + c div 2 mod (512 * 3), s') \<and> length (fb_bytes (FAT_buffer s')) = 1536"
proof (cases "cluster_FAT_offset c div 3 = fb_sector (FAT_buffer s) div 3")
  case True
  then show ?thesis using fat12_okD(5) [OF s] by (simp add: get_entry_offset_def)
next
  case False
  obtain s1 where s1: "flush_fat_buffer s = Some s1" "fat12_ok n s1" "same_rest s s1"
    using flush_fat_buffer_ok [OF s] by blast
  let ?cur = "cluster_FAT_offset c div 3 * 3"
  have p: "fat_offset12 (partition12 s1) = fat_offset12 (partition12 s)" using s1(3) by (simp add: same_rest_def)
  have "unat (fat_offset12 (partition12 s1) + ?cur) = fat12_start s + unat ?cur"
    using w fat12_okD(2) [OF s] p by (simp add: fat12_start_def unat_add_u32)
  then have l: "unat (fat_offset12 (partition12 s1) + ?cur) + unat (3 :: u32) \<le> n" using w by simp
  have b: "length (fb_bytes (FAT_buffer s1)) = 512 * unat (3 :: u32)" using fat12_okD(5) [OF s1(2)] by simp
  obtain dv where dv: "read12 s1 (fb_bytes (FAT_buffer s1)) 3 (fat_offset12 (partition12 s1) + ?cur)
      = Some (E_DEVICE_OK, concat (map (sector (device12 s1)) [unat (fat_offset12 (partition12 s1) + ?cur)..<unat (fat_offset12 (partition12 s1) + ?cur) + unat (3 :: u32)]), s1\<lparr>device12 := dv\<rparr>)"
    using read12_ok [OF fat12_okD(1) [OF s1(2)] _ _ l b] by auto
  then show ?thesis
    using False s1(1) length_sectors [OF fat12_okD(1) [OF s1(2)] l] by (simp add: get_entry_offset_def Let_def)
qed

lemma offset_behind_window:
  assumes "1024 \<le> unat (c :: u32)" "unat c < 2 ^ 31"
  shows "1536 \<le> unat (c + c div 2 mod (512 * 3))"
proof -
  have m: "unat (c div 2 mod 1536) = unat c div 2 mod 1536" by (simp add: unat_mod unat_div)
  have "unat c div 2 mod 1536 < 1536" by simp
  then have "unat (c + c div 2 mod (512 * 3)) = unat c + unat c div 2 mod 1536" using assms(2) m by (simp add: unat_add_u32)
  moreover have "1536 \<le> unat c + unat c div 2 mod 1536"
  proof (cases "unat c < 1536")
    case True
    then have "unat c div 2 mod 1536 = unat c div 2" "512 \<le> unat c div 2" using assms(1) by simp_all
    then show ?thesis using assms(1) by linarith
  qed simp
  ultimately show ?thesis by simp
qed

text \<open>The offset of an entry is not reduced to the window: for every cluster from 1024 on, although
  the right window is loaded, both the read and the write of its entry leave the buffer.\<close>

lemma entry_outside:
  assumes "fat12_ok n s" "1024 \<le> unat c" "unat c < 2 ^ 31"
    and "fat12_start s + unat (cluster_FAT_offset c div 3 * 3) + 3 \<le> n"
  shows "read_fat_value s c = None \<and> write_fat_value s c v = None"
proof -
  obtain s' where s': "get_entry_offset s c = Some (c + c div 2 mod (512 * 3), s')" "length (fb_bytes (FAT_buffer s')) = 1536"
    using get_entry_offset_length [OF assms(1,4)] by blast
  then show ?thesis
    using offset_behind_window [OF assms(2,3)] by (simp add: read_fat_value_def write_fat_value_def Let_def)
qed

theorem fat12_entry_behind_window:
  assumes "fat12_ok n s" "1024 \<le> unat c" "unat c < 2 ^ 31"
    and "fat12_start s + unat (cluster_FAT_offset c div 3 * 3) + 3 \<le> n"
  shows "read_fat_value s c = None \<and> write_fat_value s c v = None"
  by (rule entry_outside [OF assms])

end
