(* ===== verification/Fat12_Dir.thy ===== *)
theory Fat12_Dir
  imports Fat12_Chain
begin

text \<open>
  The FAT12 driver, third part: names, the search in directories and the resolution of paths.
  A path is the memory from its first character on, with the terminator in it. A pointer to
  an entry of \<^verbatim>\<open>node_buffer\<close> is only read before the next sector is loaded there, so it is
  modelled by the entry.
\<close>

subsection \<open>Names\<close>

definition blank :: byte where
  "blank = ch CHR '' ''"

text \<open>
  The name in the form of a directory entry, in a fresh array of 13 bytes and in \<^verbatim>\<open>path_buffer\<close>.
\<close>

definition dot_name :: "byte list \<Rightarrow> byte list option" where
  "dot_name dots = do {
     t \<leftarrow> str_cpy dots (replicate 13 0);
     k_memreplace t 0 blank 11
   }"

definition plain_name :: "byte list \<Rightarrow> byte list option" where
  "plain_name path = do {
     t \<leftarrow> str_cpy_size path (replicate 13 0) 12;
     t \<leftarrow> str_upper_case t;
     dot \<leftarrow> str_until t (ch CHR ''.'');
     t \<leftarrow> (if dot \<noteq> 0
          then do {
            tl \<leftarrow> str_trail_char (drop dot t) (ch CHR ''.'');
            let t = take dot t @ tl;
            if dot < 8
            then do { tl \<leftarrow> str_insert (drop dot t) blank (of_nat (8 - dot)); Some (take dot t @ tl) }
            else do { tl \<leftarrow> k_memset (drop 8 t) (dot - 8) blank; Some (take 8 t @ tl) }
          }
          else Some t);
     k_memreplace t 0 blank 11
   }"

definition fat_12_stat_resolve_path :: "'d FAT12 \<Rightarrow> byte list \<Rightarrow> (byte list \<times> 'd FAT12) option" where
  "fat_12_stat_resolve_path s path = do {
     up \<leftarrow> str_cmp path (bytes_of ''..'' @ [0]);
     t \<leftarrow> (if up = 0 then dot_name (bytes_of ''..'' @ [0])
          else do {
            here \<leftarrow> str_cmp path (bytes_of ''.'' @ [0]);
            if here = 0 then dot_name (bytes_of ''.'' @ [0]) else plain_name path
          });
     pb \<leftarrow> str_cpy t (replicate 13 0);
     Some (t, s\<lparr>path_buffer := pb\<rparr>)
   }"

subsection \<open>Searching a directory\<close>

record FAT_NODE_POSITION =
  sector_of_position :: u32
  offset_of_position :: byte

definition root_dir :: FAT_NODE where
  "root_dir = zero_node\<lparr>attributes := FAT32_DA_DIR\<rparr>"

definition is_node_empty :: "FAT_NODE \<Rightarrow> bool" where
  "is_node_empty nd \<longleftrightarrow> bytes_of_node nd = replicate 32 0"

definition is_dir12 :: "FAT_NODE \<Rightarrow> bool" where
  "is_dir12 nd \<longleftrightarrow> attributes nd AND FAT32_DA_DIR \<noteq> 0"

text \<open>The index of the entry of \<^verbatim>\<open>node_buffer\<close> with the name in \<^verbatim>\<open>path_buffer\<close>; the end mark stops the search.\<close>

fun resolve_entries :: "byte list \<Rightarrow> byte list \<Rightarrow> nat list \<Rightarrow> nat option option" where
  "resolve_entries nodes name [] = Some None"
| "resolve_entries nodes name (i # is) =
     (let nd = entry_at nodes i in
      if filename nd ! 0 = 0 then Some None
      else if filename nd ! 0 = 0xE5 then resolve_entries nodes name is
      else do {
        c \<leftarrow> k_memcmp (filename nd) name 11;
        if c = 0 then Some (Some i) else resolve_entries nodes name is
      })"

definition resolve_node_buffer :: "'d FAT12 \<Rightarrow> nat option option" where
  "resolve_node_buffer s = resolve_entries (node_buffer s) (path_buffer s) [0..<16]"

text \<open>One sector of a directory: load it and search it.\<close>

definition resolve_sector :: "'d FAT12 \<Rightarrow> u32 \<Rightarrow> ((FAT_NODE \<times> FAT_NODE_POSITION) option \<times> 'd FAT12) option" where
  "resolve_sector s lba = do {
     let s = s\<lparr>node_buffer_lba := lba\<rparr>;
     (_, b, s) \<leftarrow> read12 s (take 512 (node_buffer s)) 1 lba;
     let s = s\<lparr>node_buffer := b @ drop 512 (node_buffer s)\<rparr>;
     found \<leftarrow> resolve_node_buffer s;
     Some (map_option (\<lambda>i. (entry_at (node_buffer s) i, \<lparr>sector_of_position = lba, offset_of_position = of_nat i\<rparr>)) found, s)
   }"

fun resolve_root_loop :: "'d FAT12 \<Rightarrow> u32 list \<Rightarrow> ((FAT_NODE \<times> FAT_NODE_POSITION) option \<times> 'd FAT12) option" where
  "resolve_root_loop s [] = Some (None, s)"
| "resolve_root_loop s (i # is) = do {
     (found, s) \<leftarrow> resolve_sector s (root_offset12 (partition12 s) + i);
     case found of Some r \<Rightarrow> Some (Some r, s) | None \<Rightarrow> resolve_root_loop s is
   }"

text \<open>The position is not set for the root directory itself.\<close>

definition resolve_root :: "'d FAT12 \<Rightarrow> ((FAT_NODE \<times> FAT_NODE_POSITION option) option \<times> 'd FAT12) option" where
  "resolve_root s =
     (if path_buffer s ! 0 = 0x20 then Some (Some (root_dir, None), s)
      else do {
        (found, s) \<leftarrow> resolve_root_loop s (map of_nat [0..<unat (root_size12 (partition12 s))]);
        Some (map_option (\<lambda>(nd, pos). (nd, Some pos)) found, s)
      })"

partial_function (option) resolve_dir_loop ::
  "'d FAT12 \<Rightarrow> u32 \<Rightarrow> ((FAT_NODE \<times> FAT_NODE_POSITION) option \<times> 'd FAT12) option" where
  "resolve_dir_loop s cluster =
     (if 0 < cluster \<and> cluster < 0xFF8
      then do {
        (found, s) \<leftarrow> resolve_sector s (data_offset12 (partition12 s) - 2 + cluster);
        case found of
          Some r \<Rightarrow> Some (Some r, s)
        | None \<Rightarrow> do { (v, s) \<leftarrow> read_fat_value s cluster; resolve_dir_loop s v }
      }
      else Some (None, s))"

definition resolve_dir :: "'d FAT12 \<Rightarrow> FAT_NODE \<Rightarrow> ((FAT_NODE \<times> FAT_NODE_POSITION option) option \<times> 'd FAT12) option" where
  "resolve_dir s nd = do {
     (found, s) \<leftarrow> resolve_dir_loop s (ucast (start_low nd));
     Some (map_option (\<lambda>(nd, pos). (nd, Some pos)) found, s)
   }"

definition resolve_in :: "'d FAT12 \<Rightarrow> FAT_NODE \<Rightarrow> ((FAT_NODE \<times> FAT_NODE_POSITION option) option \<times> 'd FAT12) option" where
  "resolve_in s nd = (if start_low nd = 0 then resolve_root s else resolve_dir s nd)"

subsection \<open>Paths\<close>

text \<open>The directories of a path: the last one, or the empty node, and the rest of the path.\<close>

function resolve_directories_loop ::
  "'d FAT12 \<Rightarrow> FAT_NODE \<Rightarrow> byte list \<Rightarrow> (FAT_NODE \<times> byte list \<times> 'd FAT12) option" where
  "resolve_directories_loop s nd path = do {
     slash \<leftarrow> str_until path (ch CHR ''/'');
     if slash = 0 then Some (nd, path, s)
     else do {
       component \<leftarrow> copy_from path 0 (min 12 slash);
       (_, s) \<leftarrow> fat_12_stat_resolve_path s (patch (replicate 12 0) 0 component);
       (found, s) \<leftarrow> resolve_in s nd;
       case found of
         None \<Rightarrow> Some (zero_node, path, s)
       | Some (nd, _) \<Rightarrow>
           if attributes nd AND FAT32_DA_DIR = FAT32_DA_DIR
           then resolve_directories_loop s nd (drop (slash + 1) path)
           else Some (zero_node, path, s)
     }
   }"
  by pat_completeness auto
termination
  by (relation "measure (\<lambda>(s, nd, path). length path)") (auto simp: copy_from_def split: if_splits)

declare resolve_directories_loop.simps [simp del]

definition resolve_directories :: "'d FAT12 \<Rightarrow> byte list \<Rightarrow> (FAT_NODE \<times> byte list \<times> 'd FAT12) option" where
  "resolve_directories s path =
     (case path of
        [] \<Rightarrow> None
      | c # rest \<Rightarrow> resolve_directories_loop s root_dir (if c = ch CHR ''/'' then rest else path))"

definition find_in_directory ::
  "'d FAT12 \<Rightarrow> FAT_NODE \<Rightarrow> byte list \<Rightarrow> (FAT_NODE \<times> FAT_NODE_POSITION option \<times> 'd FAT12) option" where
  "find_in_directory s nd path = do {
     (_, s) \<leftarrow> fat_12_stat_resolve_path s path;
     (found, s) \<leftarrow> resolve_in s nd;
     case found of
       Some (nd, pos) \<Rightarrow> Some (nd, pos, s)
     | None \<Rightarrow> Some (zero_node, None, s)
   }"

subsection \<open>Changing a directory\<close>

text \<open>\<^verbatim>\<open>str_cpy\<close> does not stop at the end of \<^verbatim>\<open>filename\<close>, so it works on the bytes of the whole entry.\<close>

definition fill_node :: "FAT_NODE \<Rightarrow> byte list \<Rightarrow> byte \<Rightarrow> u32 \<Rightarrow> u32 \<Rightarrow> FAT_NODE option" where
  "fill_node nd name attr start_cluster sz = do {
     b \<leftarrow> str_cpy name (bytes_of_node nd);
     b \<leftarrow> k_memreplace b 0 blank 11;
     Some ((node_of_bytes b)\<lparr>attributes := attr, start_low := ucast start_cluster, node_size := sz\<rparr>)
   }"

text \<open>
  The scan of the root directory: \<^term>\<open>Some None\<close> when the name exists, otherwise the first deleted
  entry and the index of the end mark. Without an end mark it leaves the array.
\<close>

fun root_scan :: "byte list \<Rightarrow> FAT_NODE \<Rightarrow> nat list \<Rightarrow> nat option \<Rightarrow> (nat option \<times> nat) option option" where
  "root_scan root nd [] place = None"
| "root_scan root nd (i # is) place =
     (let e = entry_at root i in
      if filename e ! 0 = 0 then Some (Some (place, i))
      else if filename e = filename nd then Some None
      else root_scan root nd is (if filename e ! 0 = 0xE5 \<and> place = None then Some i else place))"

definition add_node_root :: "'d FAT12 \<Rightarrow> FAT_NODE \<Rightarrow> (nat \<times> 'd FAT12) option" where
  "add_node_root s nd = do {
     (root, entries, s) \<leftarrow> list_root s;
     r \<leftarrow> root_scan root nd [0..<length root div 32] None;
     case r of
       None \<Rightarrow> Some (0, s)
     | Some (place, i) \<Rightarrow> do {
         let p = partition12 s;
         let place = (if place = None \<and> i < unat (root_entries12 p) then Some i else place);
         s \<leftarrow> (case place of
                None \<Rightarrow> Some s
              | Some k \<Rightarrow> do {
                  root \<leftarrow> copy_into root (32 * k) (bytes_of_node nd);
                  (_, s) \<leftarrow> write12 s root (root_size12 p) (root_offset12 p);
                  Some s
                });
         Some (1, s)
       }
   }"

text \<open>
  The scan of a directory: \<^term>\<open>None\<close> when the name exists, otherwise the index it stopped at
  and the index to write to, where 0 also means that there is none.
\<close>

fun dir_scan :: "byte list \<Rightarrow> FAT_NODE \<Rightarrow> nat \<Rightarrow> nat list \<Rightarrow> nat \<Rightarrow> (nat \<times> nat) option" where
  "dir_scan dirs nd len [] place = Some (len, place)"
| "dir_scan dirs nd len (i # is) place =
     (let e = entry_at dirs i in
      if filename nd = filename e then None
      else let place = (if filename e ! 0 = 0xE5 \<and> place = 0 then i else place) in
           if filename e ! 0 = 0 then Some (i, if place = 0 then i else place)
           else dir_scan dirs nd len is place)"

text \<open>
  \<^verbatim>\<open>directories + (node_to_write >> 4)\<close> counts entries: the sector written starts that many entries,
  not sectors, behind the start of the directory.
\<close>

definition add_node_dir :: "'d FAT12 \<Rightarrow> u32 \<Rightarrow> FAT_NODE \<Rightarrow> 'd FAT12 option" where
  "add_node_dir s reference nd = do {
     (dirs, clusters, s) \<leftarrow> read_chain s reference;
     let len = clusters * 16;
     case dir_scan dirs nd len [0..<len] 0 of
       None \<Rightarrow> Some s
     | Some (i, place) \<Rightarrow>
         if len \<le> i \<and> place = 0
         then do {
           (r, s) \<leftarrow> resize_chain s reference (clusters + 1);
           cells \<leftarrow> r;
           let buf = patch (replicate 512 0) 0 (bytes_of_node nd);
           (_, s) \<leftarrow> (if clusters < length cells
                     then write12 s buf 1 (cells ! clusters + data_offset12 (partition12 s) - 2) else None);
           Some s
         }
         else do {
           dirs \<leftarrow> copy_into dirs (32 * place) (bytes_of_node nd);
           buf \<leftarrow> copy_from dirs (32 * (place div 16)) 512;
           fill_chain_sector_from_begin_offset s reference buf (place div 16)
         }
   }"

text \<open>Removing: the entry with the name is cleared and marked as deleted.\<close>

fun remove_entry :: "byte list \<Rightarrow> byte list \<Rightarrow> nat list \<Rightarrow> byte list option" where
  "remove_entry nodes name [] = None"
| "remove_entry nodes name (i # is) =
     (if filename (entry_at nodes i) = take 11 name
      then Some (patch nodes (32 * i) (0xE5 # replicate 31 0))
      else remove_entry nodes name is)"

definition remove_in_sector :: "'d FAT12 \<Rightarrow> byte list \<Rightarrow> u32 \<Rightarrow> (E_DEVICE option \<times> 'd FAT12) option" where
  "remove_in_sector s name lba = do {
     (_, nodes, s) \<leftarrow> read12 s (replicate 512 0) 1 lba;
     case remove_entry nodes name [0..<16] of
       None \<Rightarrow> Some (None, s)
     | Some nodes \<Rightarrow> do { (error, s) \<leftarrow> write12 s nodes 1 lba; Some (Some error, s) }
   }"

partial_function (option) remove_dir_loop :: "'d FAT12 \<Rightarrow> byte list \<Rightarrow> u32 \<Rightarrow> (E_DEVICE option \<times> 'd FAT12) option" where
  "remove_dir_loop s name cluster =
     (if 0 < cluster \<and> cluster < 0xFF8
      then do {
        (r, s) \<leftarrow> remove_in_sector s name (data_offset12 (partition12 s) - 2 + cluster);
        case r of
          Some error \<Rightarrow> Some (Some error, s)
        | None \<Rightarrow> do { (v, s) \<leftarrow> read_fat_value s cluster; remove_dir_loop s name v }
      }
      else Some (None, s))"

fun remove_root_loop :: "'d FAT12 \<Rightarrow> byte list \<Rightarrow> u32 list \<Rightarrow> (E_DEVICE option \<times> 'd FAT12) option" where
  "remove_root_loop s name [] = Some (None, s)"
| "remove_root_loop s name (i # is) = do {
     (r, s) \<leftarrow> remove_in_sector s name (root_offset12 (partition12 s) + i);
     case r of Some error \<Rightarrow> Some (Some error, s) | None \<Rightarrow> remove_root_loop s name is
   }"

definition ERROR_FAT :: u32 where \<comment> \<open>\<^verbatim>\<open>ED_FAT | E_ERROR\<close>\<close>
  "ERROR_FAT = 0x0280"

definition fat12_remove_node :: "'d FAT12 \<Rightarrow> FAT_NODE \<Rightarrow> byte list \<Rightarrow> (u32 \<times> 'd FAT12) option" where
  "fat12_remove_node s parent name = do {
     (resolved, s) \<leftarrow> fat_12_stat_resolve_path s name;
     (r, s) \<leftarrow> (if start_low parent \<noteq> 0 then remove_dir_loop s resolved (ucast (start_low parent))
               else remove_root_loop s resolved (map of_nat [0..<unat (root_size12 (partition12 s))]));
     Some (case r of Some error \<Rightarrow> of_nat (E_DEVICE_code error) | None \<Rightarrow> ERROR_FAT, s)
   }"

end
