(* ===== verification/Fat12_File.thy ===== *)
theory Fat12_File
  imports Fat12_Dir Util
begin

text \<open>
  The FAT12 driver, last part: the operations a partition and its nodes offer, which are
  \<^verbatim>\<open>fat12_open_file\<close> and its siblings and the transfers \<^verbatim>\<open>fat12_read_file\<close> and
  \<^verbatim>\<open>fat12_write_file\<close>. Arrays on the stack that a read fills completely start as zeros.
\<close>

subsection \<open>Nodes of the virtual file system\<close>

datatype NODE12_TYPE = DIRECTORY12 | FILE12

text \<open>
  The members of \<^verbatim>\<open>struct VFS_NODE\<close> that differ between nodes; the function pointers are always those of
  this file. The empty node is \<^term>\<open>None\<close>, and so is a position that is null or was never set.
\<close>

record NODE12 =
  vn_size :: u32
  FS_reference :: u32
  vn_type :: NODE12_TYPE
  vn_position :: "FAT_NODE_POSITION option"
  vn_name :: "byte list"

text \<open>
  The test for an empty entry compares the bytes of the pointer \<^verbatim>\<open>fat_node\<close> itself, which is not null,
  so it never holds.
\<close>

definition fat_to_vfs :: "FAT_NODE \<Rightarrow> FAT_NODE_POSITION option \<Rightarrow> NODE12 option option" where
  "fat_to_vfs nd position = do {
     name \<leftarrow> str_cpy_size (filename nd) (replicate 11 0) 11;
     Some (Some \<lparr>vn_size = node_size nd, FS_reference = ucast (start_low nd),
       vn_type = (if is_dir12 nd then DIRECTORY12 else FILE12), vn_position = position, vn_name = name\<rparr>)
   }"

subsection \<open>Opening\<close>

definition fat12_open_file :: "'d FAT12 \<Rightarrow> byte list \<Rightarrow> (NODE12 option \<times> 'd FAT12) option" where
  "fat12_open_file s path = do {
     (parent, path, s) \<leftarrow> resolve_directories s path;
     if is_node_empty parent then Some (None, s)
     else do {
       (nd, pos, s) \<leftarrow> find_in_directory s parent path;
       if is_dir12 nd then Some (None, s)
       else do { v \<leftarrow> fat_to_vfs nd pos; Some (v, s) }
     }
   }"

definition fat12_open_dir :: "'d FAT12 \<Rightarrow> byte list \<Rightarrow> (NODE12 option \<times> 'd FAT12) option" where
  "fat12_open_dir s path = do {
     (parent, path, s) \<leftarrow> resolve_directories s path;
     if is_node_empty parent then Some (None, s)
     else do {
       (nd, _, s) \<leftarrow> find_in_directory s parent path;
       if \<not> is_dir12 nd then Some (None, s)
       else do { v \<leftarrow> fat_to_vfs nd None; Some (v, s) }
     }
   }"

subsection \<open>Creating and removing\<close>

definition add_node :: "'d FAT12 \<Rightarrow> FAT_NODE \<Rightarrow> FAT_NODE \<Rightarrow> 'd FAT12 option" where
  "add_node s parent nd =
     (if start_low parent = 0 then do { (_, s) \<leftarrow> add_node_root s nd; Some s }
      else do {
        v \<leftarrow> fat_to_vfs parent None;
        v \<leftarrow> v;
        add_node_dir s (FS_reference v) nd
      })"

definition fat12_create_file :: "'d FAT12 \<Rightarrow> byte list \<Rightarrow> (u32 \<times> 'd FAT12) option" where
  "fat12_create_file s path = do {
     (parent, path, s) \<leftarrow> resolve_directories s path;
     if is_node_empty parent then Some (ERROR_FAT, s)
     else do {
       (nd, _, s) \<leftarrow> find_in_directory s parent path;
       if is_node_empty nd
       then do {
         (cs, s) \<leftarrow> reserve_chain s 1;
         cs \<leftarrow> cs;
         s \<leftarrow> fill_chain s cs 1 (replicate 512 0);
         new_node \<leftarrow> fill_node zero_node (path_buffer s) 0 (hd cs) 0;
         s \<leftarrow> add_node s parent new_node;
         Some (0, s)
       }
       else Some (ERROR_FAT, s)
     }
   }"

definition fat12_remove_file :: "'d FAT12 \<Rightarrow> byte list \<Rightarrow> (u32 \<times> 'd FAT12) option" where
  "fat12_remove_file s path = do {
     (parent, path, s) \<leftarrow> resolve_directories s path;
     if is_node_empty parent then Some (ERROR_FAT, s)
     else do {
       (nd, _, s) \<leftarrow> find_in_directory s parent path;
       if is_dir12 nd then Some (ERROR_FAT, s) else fat12_remove_node s parent path
     }
   }"

definition fat12_make_dir :: "'d FAT12 \<Rightarrow> byte list \<Rightarrow> (u32 \<times> 'd FAT12) option" where
  "fat12_make_dir s path = do {
     (parent, path, s) \<leftarrow> resolve_directories s path;
     if is_node_empty parent then Some (ERROR_FAT, s)
     else do {
       (nd, _, s) \<leftarrow> find_in_directory s parent path;
       if is_node_empty nd
       then do {
         (cs, s) \<leftarrow> reserve_chain s 1;
         (resolved, s) \<leftarrow> fat_12_stat_resolve_path s path;
         cs \<leftarrow> cs;
         here_dir \<leftarrow> fill_node zero_node (bytes_of ''.'' @ [0]) FAT32_DA_DIR (hd cs) 0;
         back_dir \<leftarrow> fill_node zero_node (bytes_of ''..'' @ [0]) FAT32_DA_DIR (ucast (start_low parent)) 0;
         nd \<leftarrow> fill_node nd resolved FAT32_DA_DIR (hd cs) 0;
         s \<leftarrow> fill_chain s cs 1 (bytes_of_node here_dir @ bytes_of_node back_dir @ replicate 448 0);
         s \<leftarrow> add_node s parent nd;
         Some (0, s)
       }
       else Some (ERROR_FAT, s)
     }
   }"

definition fat12_remove_dir :: "'d FAT12 \<Rightarrow> byte list \<Rightarrow> (u32 \<times> 'd FAT12) option" where
  "fat12_remove_dir s path = Some (ERROR_FAT, s)"

subsection \<open>Reading\<close>

text \<open>
  One cluster of a transfer: the part of the range from \<open>offset\<close> to \<open>end\<close> in cluster \<open>i\<close>.
\<close>

definition low_in :: "u32 \<Rightarrow> nat \<Rightarrow> u32" where
  "low_in offset i = clamp offset (of_nat i * 512) (of_nat (i + 1) * 512)"

definition in_bounds :: "byte list \<Rightarrow> u32 \<Rightarrow> u32 \<Rightarrow> bool" where
  "in_bounds buf pos len \<longleftrightarrow> unat pos + unat len \<le> length buf"

definition read_step :: "'d FAT12 \<Rightarrow> u32 \<Rightarrow> u32 \<Rightarrow> u32 \<Rightarrow> byte list \<Rightarrow> u32 \<Rightarrow> (byte list \<times> u32 \<times> 'd FAT12) option" where
  "read_step s cluster low high buf bytes_read =
     (if low < high
      then if low mod 512 = 0 \<and> high mod 512 = 0
        then if in_bounds buf bytes_read 512
          then do {
            (_, b, s) \<leftarrow> read12 s (take 512 (drop (unat bytes_read) buf)) 1 (cluster_lba12 s cluster);
            Some (patch buf (unat bytes_read) b, bytes_read + 512, s)
          }
          else None
        else do {
          (_, b, s) \<leftarrow> read12 s (replicate 512 0) 1 (cluster_lba12 s cluster);
          part \<leftarrow> copy_from b (unat (low mod 512)) (unat (high - low));
          buf \<leftarrow> copy_into buf (unat bytes_read) part;
          Some (buf, bytes_read + (high - low), s)
        }
      else Some (buf, bytes_read, s))"

fun read_loop12 ::
  "'d FAT12 \<Rightarrow> u32 \<Rightarrow> u32 \<Rightarrow> nat list \<Rightarrow> u32 \<Rightarrow> byte list \<Rightarrow> u32 \<Rightarrow> (u32 \<times> byte list \<times> 'd FAT12) option" where
  "read_loop12 s offset fin [] cluster buf bytes_read = Some (0, buf, s)"
| "read_loop12 s offset fin (i # is) cluster buf bytes_read =
     (if \<not> (0 < cluster \<and> cluster < 0xFF8) then Some (ERROR_FAT, buf, s)
      else do {
        (buf, bytes_read, s) \<leftarrow> read_step s cluster (low_in offset i) (low_in fin i) buf bytes_read;
        (v, s) \<leftarrow> read_fat_value s cluster;
        read_loop12 s offset fin is v buf bytes_read
      })"

definition fat12_read_file :: "'d FAT12 \<Rightarrow> NODE12 \<Rightarrow> byte list \<Rightarrow> u32 \<Rightarrow> u32 \<Rightarrow> (u32 \<times> byte list \<times> 'd FAT12) option" where
  "fat12_read_file s this buf sz offset =
     read_loop12 s offset (offset + sz) [0..<unat ((offset + sz) div 512 + 1)] (FS_reference this) buf 0"

subsection \<open>Writing\<close>

text \<open>The search for a free cluster; \<^term>\<open>Some None\<close> when it reaches \<^verbatim>\<open>0xff8\<close>.\<close>

partial_function (option) find_free_cluster :: "'d FAT12 \<Rightarrow> u32 \<Rightarrow> (u32 option \<times> 'd FAT12) option" where
  "find_free_cluster s cluster = do {
     (v, s) \<leftarrow> read_fat_value s cluster;
     if v = 0 then Some (Some cluster, s)
     else if 0xFF8 \<le> cluster + 1 then Some (None, s)
     else find_free_cluster s (cluster + 1)
   }"

text \<open>A new cluster is linked behind \<open>prev\<close>, which is not initialised before the first one.\<close>

definition extend_chain :: "'d FAT12 \<Rightarrow> u32 option \<Rightarrow> u32 \<Rightarrow> (u32 option \<times> 'd FAT12) option" where
  "extend_chain s prev cluster = do {
     (r, s) \<leftarrow> find_free_cluster s cluster;
     case r of
       None \<Rightarrow> Some (None, s)
     | Some cluster \<Rightarrow> do {
         l \<leftarrow> prev;
         s \<leftarrow> write_fat_value s l cluster;
         s \<leftarrow> write_fat_value s cluster 0xFF8;
         Some (Some cluster, s)
       }
   }"

definition write_step :: "'d FAT12 \<Rightarrow> u32 \<Rightarrow> u32 \<Rightarrow> u32 \<Rightarrow> byte list \<Rightarrow> u32 \<Rightarrow> (u32 \<times> 'd FAT12) option" where
  "write_step s cluster low high buf bytes_written =
     (if low < high
      then if low mod 512 = 0 \<and> high mod 512 = 0
        then do {
          part \<leftarrow> copy_from buf (unat bytes_written) 512;
          (_, s) \<leftarrow> write12 s part 1 (cluster_lba12 s cluster);
          Some (bytes_written + 512, s)
        }
        else do {
          (_, temp, s) \<leftarrow> read12 s (replicate 512 0) 1 (cluster_lba12 s cluster);
          part \<leftarrow> copy_from buf (unat bytes_written) (unat (high - low));
          temp \<leftarrow> copy_into temp (unat (low mod 512)) part;
          (_, s) \<leftarrow> write12 s temp 1 (cluster_lba12 s cluster);
          Some (bytes_written + (high - low), s)
        }
      else Some (bytes_written, s))"

text \<open>\<^term>\<open>Some False\<close>: the search for a free cluster failed, and the function returns at once.\<close>

fun write_loop12 ::
  "'d FAT12 \<Rightarrow> byte list \<Rightarrow> u32 \<Rightarrow> u32 \<Rightarrow> nat list \<Rightarrow> u32 \<Rightarrow> u32 option \<Rightarrow> bool \<Rightarrow> u32 \<Rightarrow> (bool \<times> 'd FAT12) option" where
  "write_loop12 s buf offset fin [] cluster prev writing bytes_written = Some (True, s)"
| "write_loop12 s buf offset fin (i # is) cluster prev writing bytes_written = do {
     let (writing, cluster) =
       (if \<not> writing \<and> \<not> (0 < cluster \<and> cluster < 0xFF8) then (True, 2) else (writing, cluster));
     (r, s) \<leftarrow> (if writing then extend_chain s prev cluster else Some (Some cluster, s));
     case r of
       None \<Rightarrow> Some (False, s)
     | Some cluster \<Rightarrow> do {
         (bytes_written, s) \<leftarrow> write_step s cluster (low_in offset i) (low_in fin i) buf bytes_written;
         if writing then write_loop12 s buf offset fin is cluster (Some cluster) True bytes_written
         else do {
           (v, s) \<leftarrow> read_fat_value s cluster;
           write_loop12 s buf offset fin is v (Some cluster) False bytes_written
         }
       }
   }"

text \<open>At last the size in the directory entry at the node's position.\<close>

definition update_size :: "'d FAT12 \<Rightarrow> NODE12 \<Rightarrow> u32 \<Rightarrow> 'd FAT12 option" where
  "update_size s this fin = do {
     position \<leftarrow> vn_position this;
     (_, temp, s) \<leftarrow> read12 s (replicate 512 0) 1 (sector_of_position position);
     temp \<leftarrow> copy_into temp (32 * unat (offset_of_position position) + 28) (bytes32 (math_max (vn_size this) fin));
     (_, s) \<leftarrow> write12 s temp 1 (sector_of_position position);
     Some s
   }"

definition fat12_write_file :: "'d FAT12 \<Rightarrow> NODE12 \<Rightarrow> byte list \<Rightarrow> u32 \<Rightarrow> u32 \<Rightarrow> (u32 \<times> 'd FAT12) option" where
  "fat12_write_file s this buf sz offset = do {
     (ok, s) \<leftarrow> write_loop12 s buf offset (offset + sz) [0..<unat ((offset + sz) div 512 + 1)]
                 (FS_reference this) None False 0;
     if \<not> ok then Some (ERROR_FAT, s)
     else do {
       s \<leftarrow> flush_fat_buffer s;
       s \<leftarrow> update_size s this (offset + sz);
       Some (0, s)
     }
   }"

subsection \<open>Listing\<close>

text \<open>The entries up to the end mark, without deleted and hidden ones, as nodes without a position.\<close>

fun list_entries12 :: "byte list \<Rightarrow> nat list \<Rightarrow> NODE12 list option" where
  "list_entries12 nodes [] = Some []"
| "list_entries12 nodes (i # is) =
     (if 32 * i + 32 \<le> length nodes
      then let e = entry_at nodes i in
        if filename e ! 0 = 0 then Some []
        else if filename e ! 0 = 0xE5 \<or> attributes e AND FAT32_DA_HIDDEN = FAT32_DA_HIDDEN then list_entries12 nodes is
        else do {
          v \<leftarrow> fat_to_vfs e None;
          v \<leftarrow> v;
          vs \<leftarrow> list_entries12 nodes is;
          Some (v # vs)
        }
      else None)"

definition fat12_list_dir :: "'d FAT12 \<Rightarrow> NODE12 \<Rightarrow> (NODE12 list \<times> nat \<times> 'd FAT12) option" where
  "fat12_list_dir s this = do {
     (nodes, max_entries, s) \<leftarrow> (if FS_reference this = 0 then list_root s else list_dir12 s (FS_reference this));
     entries \<leftarrow> list_entries12 nodes [0..<max_entries];
     Some (entries, max_entries, s)
   }"

end
