(* ===== verification/Fat12_File_Theorems.thy ===== *)
theory Fat12_File_Theorems
  imports Fat12_Chain_Theorems Fat12_File
begin

text \<open>
  Reading and writing files on a FAT12 volume: the transfers against the contents of the chain.
\<close>

subsection \<open>Keeping table and disk\<close>

text \<open>What a read does.\<close>

definition unchanged12 :: "nat \<Rightarrow> 'd FAT12 \<Rightarrow> 'd FAT12 \<Rightarrow> bool" where
  "unchanged12 n s s' \<longleftrightarrow> fat12_ok n s' \<and> table12 s' = table12 s \<and> same_rest s s' \<and> same_sectors n s s'"

lemma unchanged12_trans: "unchanged12 n a b \<Longrightarrow> unchanged12 n b c \<Longrightarrow> unchanged12 n a c"
  using same_rest_trans same_sectors_trans by (auto simp: unchanged12_def)

lemma unchanged12_cong:
  assumes "unchanged12 n s s'"
  shows "fat12_ok n s'" "fat12_value s' = fat12_value s" "data_cluster n s' = data_cluster n s"
    "fat12_ok n s \<Longrightarrow> data_cluster n s c \<Longrightarrow> data12 s' c = data12 s c"
proof -
  show a: "fat12_ok n s'" "fat12_value s' = fat12_value s" using assms value_cong by (auto simp: unchanged12_def)
  have g: "fat12_start s' = fat12_start s" "fat12_size s' = fat12_size s" "data_start12 s' = data_start12 s"
    using assms same_rest_geometry by (auto simp: unchanged12_def same_rest_def data_start12_def)
  show "data_cluster n s' = data_cluster n s" by (simp add: data_cluster_def g fun_eq_iff)
  show "fat12_ok n s \<Longrightarrow> data_cluster n s c \<Longrightarrow> data12 s' c = data12 s c"
    using assms data_lba12 [of n s c] by (simp add: unchanged12_def same_sectors_def data12_def g)
qed

lemma read_cluster12:
  assumes s: "fat12_ok n s" and c: "data_cluster n s c" and b: "length buf = 512"
  shows "\<exists>s'. read12 s buf 1 (cluster_lba12 s c) = Some (E_DEVICE_OK, data12 s c, s') \<and> unchanged12 n s s'"
proof -
  have l: "unat (cluster_lba12 s c) + unat (1 :: u32) \<le> n" using data_lba12(2) [OF s c] by simp
  obtain dv where dv: "read12 s buf 1 (cluster_lba12 s c) = Some (E_DEVICE_OK, data12 s c, s\<lparr>device12 := dv\<rparr>)"
    "same_disk n (device12 s) dv"
    using read12_ok [OF fat12_okD(1) [OF s] _ _ l, of buf] b data_lba12(1) [OF s c] by (auto simp: data12_def)
  have L: "fat12_start s + 3 \<le> n" using fat12_okD(3,4) [OF s] by linarith
  have d: "disk_table (s\<lparr>device12 := dv\<rparr>) = disk_table s"
    unfolding disk_table_def by (intro arg_cong [of _ _ concat] map_cong) (use dv(2) L in \<open>auto simp: same_disk_def fat12_start_def\<close>)
  then have t: "table12 (s\<lparr>device12 := dv\<rparr>) = table12 s" by (simp add: table12_def)
  have "fat12_ok n (s\<lparr>device12 := dv\<rparr>)"
    using s dv(2) d t by (simp add: fat12_ok_def same_disk_def fat12_start_def fat12_size_def)
  then show ?thesis using dv d t by (auto simp: unchanged12_def same_rest_def same_sectors_def same_disk_def)
qed

subsection \<open>Reading\<close>

lemma low_in_nat:
  assumes "512 * (i + 1) < 2 ^ 32"
  shows "unat (low_in off i) = max (512 * i) (min (unat off) (512 * (i + 1)))"
proof -
  have e: "of_nat i * 512 = (of_nat (512 * i) :: u32)" "of_nat (i + 1) * 512 = (of_nat (512 * (i + 1)) :: u32)" by simp_all
  have a: "unat (of_nat i * 512 :: u32) = 512 * i" "unat (of_nat (i + 1) * 512 :: u32) = 512 * (i + 1)"
    using unat_of_nat_u32 [of "512 * i"] unat_of_nat_u32 [of "512 * (i + 1)"] assms by (simp_all only: e) simp_all
  have m: "unat (max a b) = max (unat a) (unat b)" "unat (min a b) = min (unat a) (unat b)" for a b :: u32
    by (auto simp: max_def min_def word_le_nat_alt)
  show ?thesis unfolding low_in_def clamp_def math_min_max m a ..
qed

lemma aligned_cluster:
  assumes "512 * i \<le> x" "x < y" "y \<le> 512 * (i + 1)" "x mod 512 = 0" "y mod 512 = (0 :: nat)"
  shows "x = 512 * i" "y = 512 * (i + 1)"
proof -
  obtain a b where "x = 512 * a" "y = 512 * b" using assms(4,5) by (auto simp: mod_eq_0_iff_dvd elim!: dvdE)
  moreover from this have "i \<le> a" "a < b" "b \<le> i + 1" using assms(1-3) by auto
  ultimately show "x = 512 * i" "y = 512 * (i + 1)" by auto
qed

text \<open>One cluster: the part of it from \<open>low\<close> to \<open>high\<close>, which are offsets in the file.\<close>

lemma read_step_ok:
  assumes s: "fat12_ok n s" and c: "data_cluster n s c"
    and lh: "512 * i \<le> unat lo" "unat lo \<le> unat hi" "unat hi \<le> 512 * (i + 1)"
    and b: "unat br + (unat hi - unat lo) \<le> length buf" "unat br + (unat hi - unat lo) < 2 ^ 32"
  shows "\<exists>s' br'. read_step s c lo hi buf br
      = Some (patch buf (unat br) (take (unat hi - unat lo) (drop (unat lo - 512 * i) (data12 s c))), br', s')
    \<and> unat br' = unat br + (unat hi - unat lo) \<and> unchanged12 n s s'"
proof -
  have D: "length (data12 s c) = 512" by (rule length_data12 [OF s c])
  show ?thesis
  proof (cases "lo < hi")
    case False
    then have "unat hi = unat lo" using lh(2) by (simp add: word_less_nat_alt)
    moreover have "unchanged12 n s s" using s by (simp add: unchanged12_def)
    ultimately show ?thesis using False b by (intro exI [of _ s] exI [of _ br]) (simp add: read_step_def)
  next
    case True
    then have lt: "unat lo < unat hi" by (simp add: word_less_nat_alt)
    have m: "lo mod 512 = 0 \<longleftrightarrow> unat lo mod 512 = 0" "hi mod 512 = 0 \<longleftrightarrow> unat hi mod 512 = 0"
      using unat_mod [of lo 512] unat_mod [of hi 512] unat_0_iff_u32 [of "lo mod 512"] unat_0_iff_u32 [of "hi mod 512"] by simp_all
    show ?thesis
    proof (cases "lo mod 512 = 0 \<and> hi mod 512 = 0")
      case full: True
      then have e: "unat lo = 512 * i" "unat hi = 512 * (i + 1)" using aligned_cluster [OF lh(1) lt lh(3)] by (simp_all only: m)
      have br: "unat (br + 512) = unat br + 512" "in_bounds buf br 512" using b e by (simp_all add: unat_add_u32 in_bounds_def)
      obtain s' where "read12 s (take 512 (drop (unat br) buf)) 1 (cluster_lba12 s c) = Some (E_DEVICE_OK, data12 s c, s')" "unchanged12 n s s'"
        using read_cluster12 [OF s c, of "take 512 (drop (unat br) buf)"] b e by auto
      then show ?thesis using True full br D e by (intro exI [of _ s'] exI [of _ "br + 512"]) (simp add: read_step_def)
    next
      case part: False
      have lm: "unat (lo mod 512) = unat lo - 512 * i" "unat lo - 512 * i + (unat hi - unat lo) \<le> 512"
      proof -
        have "unat lo < 512 * i + 512" using lt lh by simp
        then have "unat lo - 512 * i < 512" using lh(1) by arith
        moreover have "unat lo = 512 * i + (unat lo - 512 * i)" using lh by simp
        ultimately have "unat lo mod 512 = unat lo - 512 * i" by (metis mod_less mod_mult_self4)
        then show "unat (lo mod 512) = unat lo - 512 * i" by (simp add: unat_mod)
      qed (use lh in auto)
      have h: "unat (hi - lo) = unat hi - unat lo" using True by (simp add: unat_diff_u32)
      obtain s' where r: "read12 s (replicate 512 0) 1 (cluster_lba12 s c) = Some (E_DEVICE_OK, data12 s c, s')" "unchanged12 n s s'"
        using read_cluster12 [OF s c, of "replicate 512 0"] by auto
      have "copy_from (data12 s c) (unat (lo mod 512)) (unat (hi - lo)) = Some (take (unat hi - unat lo) (drop (unat lo - 512 * i) (data12 s c)))"
        using lm D h by (simp add: copy_from_Some)
      moreover have "unat br + length (take (unat hi - unat lo) (drop (unat lo - 512 * i) (data12 s c))) \<le> length buf" using b(1) by simp
      ultimately show ?thesis using True part r b h
        by (intro exI [of _ s'] exI [of _ "br + (hi - lo)"]) (auto simp: read_step_def copy_into_Some unat_add_u32)
    qed
  qed
qed


text \<open>The contents of a list of clusters.\<close>

definition contents12 :: "'d FAT12 \<Rightarrow> u32 list \<Rightarrow> byte list" where
  "contents12 s cs = concat (map (data12 s) cs)"

lemma length_contents12:
  "fat12_ok n s \<Longrightarrow> \<forall>c\<in>set cs. data_cluster n s c \<Longrightarrow> length (contents12 s cs) = 512 * length cs"
  by (induction cs) (auto simp: contents12_def length_data12)

lemma contents12_cong:
  "fat12_ok n s \<Longrightarrow> \<forall>c\<in>set cs. data_cluster n s c \<Longrightarrow> unchanged12 n s s' \<Longrightarrow> contents12 s' cs = contents12 s cs"
  unfolding contents12_def by (intro arg_cong [of _ _ concat] map_cong) (auto intro: unchanged12_cong(4))

text \<open>The range from \<open>o\<close> to \<open>f\<close>, split at the end of cluster \<open>i\<close>.\<close>

lemma range_split:
  fixes off fin i :: nat
  assumes "length D = 512" "off \<le> fin"
  defines "lo \<equiv> max (512 * i) (min off (512 * (i + 1)))" and "hi \<equiv> max (512 * i) (min fin (512 * (i + 1)))"
  shows "take (fin - max off (512 * i)) (drop (max off (512 * i) - 512 * i) (D @ R))
     = take (hi - lo) (drop (lo - 512 * i) D) @ take (fin - max off (512 * (i + 1))) (drop (max off (512 * (i + 1)) - 512 * (i + 1)) R)"
    and "fin - max off (512 * i) = (hi - lo) + (fin - max off (512 * (i + 1)))"
    and "512 * i \<le> lo" "lo \<le> hi" "hi \<le> 512 * (i + 1)"
proof -
  show n: "fin - max off (512 * i) = (hi - lo) + (fin - max off (512 * (i + 1)))"
    "512 * i \<le> lo" "lo \<le> hi" "hi \<le> 512 * (i + 1)"
    using assms(2) by (auto simp: lo_def hi_def max_def min_def)
  show "take (fin - max off (512 * i)) (drop (max off (512 * i) - 512 * i) (D @ R))
     = take (hi - lo) (drop (lo - 512 * i) D) @ take (fin - max off (512 * (i + 1))) (drop (max off (512 * (i + 1)) - 512 * (i + 1)) R)"
  proof (cases "off \<le> 512 * (i + 1)")
    case True
    have lo: "lo = max off (512 * i)" using True by (auto simp: lo_def)
    have m: "max off (512 * (i + 1)) = 512 * (i + 1)" using True by simp
    have d: "drop (lo - 512 * i) (D @ R) = drop (lo - 512 * i) D @ R" using n(2-4) assms(1) by simp
    show ?thesis
    proof (cases "fin \<le> 512 * (i + 1)")
      case True
      then have "fin - max off (512 * i) = hi - lo" "fin - 512 * (i + 1) = 0" using n(1) m by simp_all
      moreover have "hi - lo \<le> length (drop (lo - 512 * i) D)" using n(2-4) assms(1) by simp
      ultimately show ?thesis unfolding m lo [symmetric] d by simp
    next
      case False
      then have "hi = 512 * (i + 1)" by (auto simp: hi_def)
      then have l: "hi - lo = length (drop (lo - 512 * i) D)" using n(2-4) assms(1) by simp
      then have "take ((hi - lo) + k) (drop (lo - 512 * i) D @ R) = take (hi - lo) (drop (lo - 512 * i) D) @ take k R" for k by simp
      then show ?thesis unfolding n(1) unfolding m lo [symmetric] d by simp
    qed
  next
    case False
    then have lo: "lo = 512 * (i + 1)" "hi = 512 * (i + 1)" "max off (512 * i) = off" "max off (512 * (i + 1)) = off"
      using assms(2) by (auto simp: lo_def hi_def)
    have "drop (off - 512 * i) (D @ R) = drop (off - 512 * (i + 1)) R" using False assms(1) by (simp add: add.commute)
    then show ?thesis by (simp only: lo) simp
  qed
qed

lemma read_loop12_ok:
  assumes "fat12_ok n s" "chain12 (fat12_value s) c cs" "\<forall>x\<in>set cs. data_cluster n s x"
    and "unat off \<le> unat fin" "unat fin \<le> 512 * (i + length cs)" "512 * (i + length cs + 1) < 2 ^ 32"
    and "unat br + (unat fin - max (unat off) (512 * i)) \<le> length buf" "unat br + (unat fin - max (unat off) (512 * i)) < 2 ^ 32"
    and "N = unat fin div 512 + 1"
  shows "\<exists>s'. read_loop12 s off fin [i..<N] c buf br
      = Some (if i + length cs < N then ERROR_FAT else 0,
          patch buf (unat br) (take (unat fin - max (unat off) (512 * i)) (drop (max (unat off) (512 * i) - 512 * i) (contents12 s cs))), s')
    \<and> unchanged12 n s s'"
  using assms(1-8)
proof (induction cs arbitrary: s c i br buf)
  case Nil
  have u: "unchanged12 n s s" using Nil by (simp add: unchanged12_def)
  have z: "unat fin - max (unat off) (512 * i) = 0" using Nil by simp
  show ?case
  proof (cases "i < N")
    case True
    then have "[i..<N] = i # [Suc i..<N]" by (simp add: upt_conv_Cons)
    then show ?thesis using Nil.prems(2,7) u z True by (intro exI [of _ s]) (simp add: contents12_def)
  qed (use u z Nil.prems in \<open>auto intro!: exI [of _ s] simp: contents12_def\<close>)
next
  case (Cons x cs)
  have c: "x = c" "0 < c" "c < 0xFF8" "chain12 (fat12_value s) (fat12_value s c) cs" using Cons.prems(2) by auto
  have dc: "data_cluster n s c" using Cons.prems(3) c(1) by simp
  have D: "length (data12 s c) = 512" by (rule length_data12 [OF Cons.prems(1) dc])
  show ?case
  proof (cases "i < N")
    case False
    then have "unat fin < 512 * i" using assms(9) by (simp add: not_less div_less_iff_less_mult Suc_le_eq mult.commute)
    then show ?thesis using False Cons.prems by (intro exI [of _ s]) (auto simp: unchanged12_def)
  next
    case True
    let ?lo = "low_in off i" and ?hi = "low_in fin i"
    have b: "512 * (i + 1) < 2 ^ 32" using Cons.prems(6) by simp
    note lo = low_in_nat [OF b, of off] low_in_nat [OF b, of fin]
    note rs = range_split [OF D Cons.prems(4), of i, folded lo]
    have l1: "unat br + (unat ?hi - unat ?lo) \<le> length buf" "unat br + (unat ?hi - unat ?lo) < 2 ^ 32"
      using Cons.prems(7,8) rs(2) by simp_all
    obtain s1 br1 where s1: "read_step s c ?lo ?hi buf br
        = Some (patch buf (unat br) (take (unat ?hi - unat ?lo) (drop (unat ?lo - 512 * i) (data12 s c))), br1, s1)"
      "unat br1 = unat br + (unat ?hi - unat ?lo)" "unchanged12 n s s1"
      using read_step_ok [OF Cons.prems(1) dc rs(3-5) l1] by blast
    let ?A = "take (unat ?hi - unat ?lo) (drop (unat ?lo - 512 * i) (data12 s c))"
    have la: "length ?A = unat ?hi - unat ?lo" using rs(3-5) D by simp
    note cg = unchanged12_cong [OF s1(3)]
    have dc1: "data_cluster n s1 c" using dc cg(3) by simp
    obtain s2 where s2: "read_fat_value s1 c = Some (fat12_value s1 c, s2)" "unchanged12 n s1 s2"
      using read_value [OF cg(1), of c] dc by (auto simp: data_cluster_def unchanged12_def)
    note u = unchanged12_trans [OF s1(3) s2(2)]
    note cg2 = unchanged12_cong [OF u]
    have "\<exists>s'. read_loop12 s2 off fin [Suc i..<N] (fat12_value s c) (patch buf (unat br) ?A) br1
      = Some (if Suc i + length cs < N then ERROR_FAT else 0,
          patch (patch buf (unat br) ?A) (unat br1) (take (unat fin - max (unat off) (512 * Suc i)) (drop (max (unat off) (512 * Suc i) - 512 * Suc i) (contents12 s2 cs))), s')
      \<and> unchanged12 n s2 s'"
    proof (rule Cons.IH)
      show "chain12 (fat12_value s2) (fat12_value s c) cs" using c(4) cg2(2) by simp
      show "\<forall>x\<in>set cs. data_cluster n s2 x" using Cons.prems(3) cg2(3) by simp
      show "unat br1 + (unat fin - max (unat off) (512 * Suc i)) \<le> length (patch buf (unat br) ?A)"
        using Cons.prems(7) rs(2) s1(2) l1(1) la by simp
      show "unat br1 + (unat fin - max (unat off) (512 * Suc i)) < 2 ^ 32" using Cons.prems(8) rs(2) s1(2) by simp
    qed (use Cons.prems cg2(1) in auto)
    then obtain s' where s': "read_loop12 s2 off fin [Suc i..<N] (fat12_value s c) (patch buf (unat br) ?A) br1
      = Some (if Suc i + length cs < N then ERROR_FAT else 0,
          patch (patch buf (unat br) ?A) (unat br1) (take (unat fin - max (unat off) (512 * Suc i)) (drop (max (unat off) (512 * Suc i) - 512 * Suc i) (contents12 s2 cs))), s')"
      "unchanged12 n s2 s'" by blast
    have cc: "contents12 s2 cs = contents12 s cs" using contents12_cong [OF Cons.prems(1) _ u] Cons.prems(3) by simp
    have R: "length (contents12 s cs) = 512 * length cs" using length_contents12 [OF Cons.prems(1)] Cons.prems(3) by simp
    let ?B = "take (unat fin - max (unat off) (512 * Suc i)) (drop (max (unat off) (512 * Suc i) - 512 * Suc i) (contents12 s cs))"
    have "length ?B \<le> unat fin - max (unat off) (512 * Suc i)" unfolding length_take by (rule min.cobounded2)
    moreover have "unat br + (unat ?hi - unat ?lo) + (unat fin - max (unat off) (512 * Suc i)) \<le> length buf"
      using Cons.prems(7) rs(2) by simp
    ultimately have "unat br + length ?A + length ?B \<le> length buf" unfolding la by linarith
    moreover have q: "unat br1 = unat br + length ?A" by (simp only: la s1(2))
    ultimately have p: "patch (patch buf (unat br) ?A) (unat br1) ?B = patch buf (unat br) (?A @ ?B)"
      unfolding q by (intro patch_patch_right)
    have e: "i + length (x # cs) = Suc i + length cs" "[i..<N] = i # [Suc i..<N]" using True by (simp_all add: upt_conv_Cons)
    have "read_loop12 s off fin [i..<N] c buf br
      = Some (if i + length (x # cs) < N then ERROR_FAT else 0, patch buf (unat br) (?A @ ?B), s')"
      unfolding e read_loop12.simps(2) using c(2,3)
      by (simp only: simp_thms if_False s1(1) s2(1) [unfolded cg(2)] s'(1) cc p Option.bind.simps prod.case)
    moreover have "?A @ ?B = take (unat fin - max (unat off) (512 * i)) (drop (max (unat off) (512 * i) - 512 * i) (contents12 s (x # cs)))"
      using rs(1) [of "contents12 s cs"] c(1) unfolding contents12_def by (simp only: list.map concat.simps Suc_eq_plus1)
    ultimately show ?thesis using unchanged12_trans [OF u s'(2)] by (intro exI [of _ s']) (simp only: simp_thms)
  qed
qed

text \<open>C28. Reading a range that lies in the chain of the file fills the buffer with exactly these bytes of
  its contents and changes nothing. It reports an error when the range ends where the chain
  does, although the bytes have been read: the loop looks at one cluster too many.\<close>

theorem fat12_read_file_correct:
  assumes s: "fat12_ok n s" and c: "chain12 (fat12_value s) (FS_reference this) cs" "\<forall>x\<in>set cs. data_cluster n s x"
    and r: "unat off + unat sz \<le> 512 * length cs" "512 * (length cs + 1) < 2 ^ 32" "unat sz \<le> length buf"
  shows "\<exists>s'. fat12_read_file s this buf sz off
      = Some (if unat off + unat sz = 512 * length cs then ERROR_FAT else 0,
          patch buf 0 (take (unat sz) (drop (unat off) (contents12 s cs))), s')
    \<and> unchanged12 n s s'"
proof -
  have f: "unat (off + sz) = unat off + unat sz" using r by (simp add: unat_add_u32)
  have d: "unat ((off + sz) div 512) = (unat off + unat sz) div 512" using f by (simp add: unat_div)
  have "(unat off + unat sz) div 512 \<le> length cs" using r(1) by (simp add: div_le_mono [of _ "512 * length cs" 512, simplified])
  then have N: "unat ((off + sz) div 512 + 1) = unat (off + sz) div 512 + 1"
    using d f r(2) by (simp add: unat_add_u32)
  have code: "length cs < unat (off + sz) div 512 + 1 \<longleftrightarrow> unat off + unat sz = 512 * length cs"
    using f r(1) by (simp add: less_Suc_eq_le less_eq_div_iff_mult_less_eq) linarith
  obtain s' where "read_loop12 s off (off + sz) [0..<unat ((off + sz) div 512 + 1)] (FS_reference this) buf 0
      = Some (if 0 + length cs < unat ((off + sz) div 512 + 1) then ERROR_FAT else 0,
          patch buf (unat (0 :: u32)) (take (unat (off + sz) - max (unat off) (512 * 0)) (drop (max (unat off) (512 * 0) - 512 * 0) (contents12 s cs))), s')"
    "unchanged12 n s s'"
    using read_loop12_ok [OF s c, of off "off + sz" 0 0 buf, OF _ _ _ _ _ N] f r by auto
  then show ?thesis using code unfolding fat12_read_file_def N by (simp add: f)
qed

subsection \<open>Writing\<close>

lemma chain12_unique: "chain12 f c xs \<Longrightarrow> chain12 f c ys \<Longrightarrow> xs = ys"
proof (induction xs arbitrary: c ys)
  case Nil
  then show ?case by (cases ys) auto
next
  case (Cons x xs)
  then show ?case by (cases ys) auto
qed

lemma chain12_suffix: "chain12 f c xs \<Longrightarrow> x \<in> set xs \<Longrightarrow> \<exists>ys. chain12 f x ys \<and> length ys \<le> length xs"
proof (induction xs arbitrary: c)
  case (Cons y xs)
  show ?case
  proof (cases "x = y")
    case True
    then show ?thesis using Cons.prems(1) by (intro exI [of _ "y # xs"]) simp
  next
    case False
    then show ?thesis using Cons by fastforce
  qed
qed simp

lemma chain12_distinct: "chain12 f c xs \<Longrightarrow> distinct xs"
proof (induction xs arbitrary: c)
  case (Cons x xs)
  have "x \<notin> set xs"
  proof
    assume x: "x \<in> set xs"
    have c: "chain12 f (f c) xs" using Cons.prems by simp
    obtain ys where ys: "chain12 f x ys" "length ys \<le> length xs" using chain12_suffix [OF c x] by blast
    have "chain12 f x (x # xs)" using Cons.prems by simp
    then show False using chain12_unique [OF ys(1)] ys(2) by fastforce
  qed
  then show ?case using Cons by auto
qed simp

text \<open>What a write to the cluster \<open>c\<close> does.\<close>

definition wrote12 :: "nat \<Rightarrow> 'd FAT12 \<Rightarrow> u32 set \<Rightarrow> 'd FAT12 \<Rightarrow> bool" where
  "wrote12 n s cs s' \<longleftrightarrow> fat12_ok n s' \<and> table12 s' = table12 s \<and> same_rest s s'
     \<and> fb_changed (FAT_buffer s') = fb_changed (FAT_buffer s)
     \<and> (\<forall>k<n. k \<notin> (\<lambda>c. unat (cluster_lba12 s c)) ` cs \<longrightarrow> sector (device12 s') k = sector (device12 s) k)"

lemma wrote12_cong:
  assumes "wrote12 n s cs s'"
  shows "fat12_ok n s'" "fat12_value s' = fat12_value s" "data_cluster n s' = data_cluster n s" "cluster_lba12 s' = cluster_lba12 s"
    "fat12_ok n s \<Longrightarrow> data_cluster n s c \<Longrightarrow> \<forall>x\<in>cs. data_cluster n s x \<Longrightarrow> c \<notin> cs \<Longrightarrow> data12 s' c = data12 s c"
proof -
  show "fat12_ok n s'" "fat12_value s' = fat12_value s" using assms value_cong by (auto simp: wrote12_def)
  have g: "fat12_start s' = fat12_start s" "fat12_size s' = fat12_size s" "data_start12 s' = data_start12 s"
    using assms same_rest_geometry by (auto simp: wrote12_def same_rest_def data_start12_def)
  show "data_cluster n s' = data_cluster n s" by (simp add: data_cluster_def g fun_eq_iff)
  show "cluster_lba12 s' = cluster_lba12 s" using assms by (simp add: wrote12_def same_rest_def cluster_lba12_def fun_eq_iff)
  assume s: "fat12_ok n s" "data_cluster n s c" "\<forall>x\<in>cs. data_cluster n s x" "c \<notin> cs"
  have "unat (cluster_lba12 s c) \<noteq> unat (cluster_lba12 s x)" if "x \<in> cs" for x
  proof -
    have "c \<noteq> x" "2 \<le> unat c" "2 \<le> unat x" using s that by (auto simp: data_cluster_def)
    moreover from this have "unat c \<noteq> unat x" by simp
    ultimately have "unat c + data_start12 s - 2 \<noteq> unat x + data_start12 s - 2" by linarith
    then show ?thesis using s that data_lba12(1) by metis
  qed
  then show "data12 s' c = data12 s c"
    using assms data_lba12 [OF s(1,2)] by (auto simp: wrote12_def data12_def g)
qed

lemma wrote12_trans: "wrote12 n a cs b \<Longrightarrow> wrote12 n b ds c \<Longrightarrow> wrote12 n a (cs \<union> ds) c"
  using wrote12_cong(4) [of n a cs b] same_rest_trans by (auto simp: wrote12_def image_Un)

lemma unchanged12_wrote: "unchanged12 n s s' \<Longrightarrow> fb_changed (FAT_buffer s') = fb_changed (FAT_buffer s) \<Longrightarrow> wrote12 n s {} s'"
  by (auto simp: unchanged12_def wrote12_def same_sectors_def)

lemma write_cluster12:
  assumes s: "fat12_ok n s" and c: "data_cluster n s c" and b: "length buf = 512"
  shows "\<exists>s'. write12 s buf 1 (cluster_lba12 s c) = Some (E_DEVICE_OK, s') \<and> wrote12 n s {c} s' \<and> data12 s' c = buf"
proof -
  note L = data_lba12 [OF s c]
  have l: "unat (cluster_lba12 s c) + unat (1 :: u32) \<le> n" using L(2) by simp
  obtain dv where dv: "write12 s buf 1 (cluster_lba12 s c) = Some (E_DEVICE_OK, s\<lparr>device12 := dv\<rparr>)" "good_blocks n dv"
    "\<forall>k<n. sector dv k = (if k = unat (cluster_lba12 s c) then buf else sector (device12 s) k)"
  proof -
    obtain dv where "write12 s buf 1 (cluster_lba12 s c) = Some (E_DEVICE_OK, s\<lparr>device12 := dv\<rparr>)" "good_blocks n dv"
      "\<forall>k<n. sector dv k = (if unat (cluster_lba12 s c) \<le> k \<and> k < unat (cluster_lba12 s c) + unat (1 :: u32)
         then take 512 (drop (512 * (k - unat (cluster_lba12 s c))) buf) else sector (device12 s) k)"
      using write12_ok [OF fat12_okD(1) [OF s] _ _ l, of buf] b by auto
    then show ?thesis using that b by auto
  qed
  let ?s = "s\<lparr>device12 := dv\<rparr>"
  have T: "sector dv k = sector (device12 s) k" if "fat12_start s \<le> k" "k < fat12_start s + 3" for k
    using dv(3) L that fat12_okD(3,4) [OF s] by (auto simp: in_tables_def)
  have d: "disk_table ?s = disk_table s"
    unfolding disk_table_def by (intro arg_cong [of _ _ concat] map_cong) (use T in \<open>auto simp: fat12_start_def\<close>)
  then have t: "table12 ?s = table12 s" by (simp add: table12_def)
  have "fat12_ok n ?s" using s dv(2) d t by (simp add: fat12_ok_def fat12_start_def fat12_size_def)
  then have "wrote12 n s {c} ?s" using dv(3) t by (simp add: wrote12_def same_rest_def)
  moreover have "data12 ?s c = buf" using dv(3) L by (simp add: data12_def data_start12_def)
  ultimately show ?thesis using dv(1) by blast
qed

lemma write_step_ok:
  assumes s: "fat12_ok n s" and c: "data_cluster n s c"
    and lh: "512 * i \<le> unat lo" "unat lo \<le> unat hi" "unat hi \<le> 512 * (i + 1)"
    and b: "unat bw + (unat hi - unat lo) \<le> length buf" "unat bw + (unat hi - unat lo) < 2 ^ 32"
  shows "\<exists>s' bw'. write_step s c lo hi buf bw = Some (bw', s') \<and> unat bw' = unat bw + (unat hi - unat lo) \<and> wrote12 n s {c} s'
    \<and> data12 s' c = patch (data12 s c) (unat lo - 512 * i) (take (unat hi - unat lo) (drop (unat bw) buf))"
proof -
  have D: "length (data12 s c) = 512" by (rule length_data12 [OF s c])
  show ?thesis
  proof (cases "lo < hi")
    case False
    then have "unat hi = unat lo" using lh(2) by (simp add: word_less_nat_alt)
    moreover have "wrote12 n s {c} s" using s by (simp add: wrote12_def)
    ultimately show ?thesis using False lh D by (intro exI [of _ s] exI [of _ bw]) (simp add: write_step_def)
  next
    case True
    then have lt: "unat lo < unat hi" by (simp add: word_less_nat_alt)
    have m: "lo mod 512 = 0 \<longleftrightarrow> unat lo mod 512 = 0" "hi mod 512 = 0 \<longleftrightarrow> unat hi mod 512 = 0"
      using unat_mod [of lo 512] unat_mod [of hi 512] unat_0_iff_u32 [of "lo mod 512"] unat_0_iff_u32 [of "hi mod 512"] by simp_all
    show ?thesis
    proof (cases "lo mod 512 = 0 \<and> hi mod 512 = 0")
      case full: True
      then have e: "unat lo = 512 * i" "unat hi = 512 * (i + 1)" using aligned_cluster [OF lh(1) lt lh(3)] by (simp_all only: m)
      have bw: "unat (bw + 512) = unat bw + 512" using b e by (simp add: unat_add_u32)
      let ?p = "take 512 (drop (unat bw) buf)"
      have lp: "length ?p = 512" "unat bw + 512 \<le> length buf" using b e by auto
      obtain s' where "write12 s ?p 1 (cluster_lba12 s c) = Some (E_DEVICE_OK, s')" "wrote12 n s {c} s'" "data12 s' c = ?p"
        using write_cluster12 [OF s c lp(1)] by blast
      then show ?thesis using True full bw D e lp by (intro exI [of _ s'] exI [of _ "bw + 512"]) (simp add: write_step_def copy_from_Some)
    next
      case part: False
      have lm: "unat (lo mod 512) = unat lo - 512 * i"
      proof -
        have "unat lo < 512 * i + 512" using lt lh by simp
        then have "unat lo - 512 * i < 512" using lh(1) by arith
        moreover have "unat lo = 512 * i + (unat lo - 512 * i)" using lh by simp
        ultimately have "unat lo mod 512 = unat lo - 512 * i" by (metis mod_less mod_mult_self4)
        then show "unat (lo mod 512) = unat lo - 512 * i" by (simp add: unat_mod)
      qed
      have h: "unat (hi - lo) = unat hi - unat lo" using True by (simp add: unat_diff_u32)
      let ?A = "take (unat hi - unat lo) (drop (unat bw) buf)"
      have A: "length ?A = unat hi - unat lo" "unat lo - 512 * i + length ?A \<le> 512" using b(1) lh by auto
      obtain s1 where r: "read12 s (replicate 512 0) 1 (cluster_lba12 s c) = Some (E_DEVICE_OK, data12 s c, s1)" "unchanged12 n s s1"
        "fb_changed (FAT_buffer s1) = fb_changed (FAT_buffer s)"
        using read_cluster12 [OF s c, of "replicate 512 0"] by (auto simp: read12_def split: bind_splits)
      note cg = unchanged12_cong [OF r(2)]
      have lba: "cluster_lba12 s1 = cluster_lba12 s" using r(2) by (simp add: unchanged12_def same_rest_def cluster_lba12_def fun_eq_iff)
      let ?t = "patch (data12 s c) (unat lo - 512 * i) ?A"
      have lt: "length ?t = 512" using A D by simp
      obtain s' where w: "write12 s1 ?t 1 (cluster_lba12 s1 c) = Some (E_DEVICE_OK, s')" "wrote12 n s1 {c} s'" "data12 s' c = ?t"
        using write_cluster12 [OF cg(1) _ lt, of c] c cg(3) by auto
      have "write_step s c lo hi buf bw = Some (bw + (hi - lo), s')"
        using True part r(1) w(1) h lm lba b(1) A D by (auto simp: write_step_def copy_from_Some copy_into_Some)
      moreover have "wrote12 n s {c} s'" using wrote12_trans [OF unchanged12_wrote [OF r(2,3)] w(2)] by simp
      ultimately show ?thesis using w(3) b(2) h by (intro exI [of _ s'] exI [of _ "bw + (hi - lo)"]) (simp add: unat_add_u32)
    qed
  qed
qed

text \<open>The bytes \<open>W\<close> from \<open>o\<close> to \<open>f\<close>, written across the end of cluster \<open>i\<close>.\<close>

lemma patch_empty: "patch xs p [] = xs"
  by (simp add: patch_def)

lemma patch_split12:
  fixes off fin i :: nat
  assumes "length D = 512" "off \<le> fin" "fin - max off (512 * i) \<le> length W"
  defines "lo \<equiv> max (512 * i) (min off (512 * (i + 1)))" and "hi \<equiv> max (512 * i) (min fin (512 * (i + 1)))"
  shows "patch (D @ R) (max off (512 * i) - 512 * i) (take (fin - max off (512 * i)) W)
     = patch D (lo - 512 * i) (take (hi - lo) W)
       @ patch R (max off (512 * (i + 1)) - 512 * (i + 1)) (take (fin - max off (512 * (i + 1))) (drop (hi - lo) W))"
proof -
  have n: "fin - max off (512 * i) = (hi - lo) + (fin - max off (512 * (i + 1)))" "512 * i \<le> lo" "lo \<le> hi" "hi \<le> 512 * (i + 1)"
    using range_split(2-5) [OF assms(1,2), of i] by (simp_all add: lo_def hi_def)
  show ?thesis
  proof (cases "off \<le> 512 * (i + 1)")
    case True
    have lo: "lo = max off (512 * i)" using True by (auto simp: lo_def)
    have m: "max off (512 * (i + 1)) = 512 * (i + 1)" using True by simp
    show ?thesis
    proof (cases "fin \<le> 512 * (i + 1)")
      case True
      then have z: "fin - 512 * (i + 1) = 0" by simp
      then have "fin - lo = hi - lo" using n(1) m lo by simp
      moreover have "lo - 512 * i + length (take (hi - lo) W) \<le> length D" using n(2-4) assms(1) by simp
      ultimately show ?thesis unfolding m z lo [symmetric] by (simp add: patch_append_left patch_empty)
    next
      case False
      then have "hi = 512 * (i + 1)" by (auto simp: hi_def)
      then have l: "lo - 512 * i \<le> length D" "length (take (hi - lo) W) = length D - (lo - 512 * i)"
        using n assms(1,3) m by auto
      have "take (fin - lo) W = take (hi - lo) W @ take (fin - 512 * (i + 1)) (drop (hi - lo) W)"
        using n(1) unfolding m lo [symmetric] by (simp add: take_add)
      then show ?thesis unfolding m lo [symmetric] using patch_append_both [OF l] by (simp only: diff_self_eq_0)
    qed
  next
    case False
    then have e: "lo = 512 * (i + 1)" "hi = 512 * (i + 1)" "max off (512 * i) = off" "max off (512 * (i + 1)) = off"
      using assms(2) by (auto simp: lo_def hi_def)
    have "length D \<le> off - 512 * i" "off - 512 * i - length D = off - 512 * (i + 1)" using False assms(1) by auto
    then show ?thesis unfolding e by (simp add: patch_append_right patch_empty del: mult_Suc_right)
  qed
qed

lemma write_loop12_ok:
  assumes "fat12_ok n s" "chain12 (fat12_value s) c cs" "\<forall>x\<in>set cs. data_cluster n s x"
    and "unat off \<le> unat fin" "N \<le> i + length cs" "512 * (i + length cs + 1) < 2 ^ 32"
    and "unat bw + (unat fin - max (unat off) (512 * i)) \<le> length buf" "unat bw + (unat fin - max (unat off) (512 * i)) < 2 ^ 32"
    and "N = unat fin div 512 + 1"
  shows "\<exists>s'. write_loop12 s buf off fin [i..<N] c prev False bw = Some (True, s') \<and> wrote12 n s (set cs) s'
    \<and> contents12 s' cs = patch (contents12 s cs) (max (unat off) (512 * i) - 512 * i)
         (take (unat fin - max (unat off) (512 * i)) (drop (unat bw) buf))"
  using assms(1-8)
proof (induction cs arbitrary: s c i bw prev)
  case Nil
  have "unat fin < 512 * N" using assms(9) dividend_less_times_div [of 512 "unat fin"] by simp
  also have "\<dots> \<le> 512 * i" using Nil.prems(5) by simp
  finally have "unat fin - max (unat off) (512 * i) = 0" by simp
  moreover have "wrote12 n s {} s" using Nil by (simp add: wrote12_def)
  ultimately show ?case using Nil.prems(5) by (intro exI [of _ s]) (simp add: contents12_def patch_empty)
next
  case (Cons x cs)
  have c: "x = c" "0 < c" "c < 0xFF8" "chain12 (fat12_value s) (fat12_value s c) cs" using Cons.prems(2) by auto
  have dc: "data_cluster n s c" "\<forall>x\<in>set cs. data_cluster n s x" using Cons.prems(3) c(1) by simp_all
  have nc: "c \<notin> set cs" using chain12_distinct [OF Cons.prems(2)] c(1) by simp
  have D: "length (data12 s c) = 512" by (rule length_data12 [OF Cons.prems(1) dc(1)])
  show ?case
  proof (cases "i < N")
    case False
    then have "unat fin < 512 * i" using assms(9) by (simp add: not_less div_less_iff_less_mult Suc_le_eq mult.commute)
    then have "unat fin - max (unat off) (512 * i) = 0" by simp
    moreover have "wrote12 n s (set (x # cs)) s" using Cons.prems(1) by (simp add: wrote12_def)
    ultimately show ?thesis using False by (intro exI [of _ s]) (simp add: patch_empty)
  next
    case True
    let ?lo = "low_in off i" and ?hi = "low_in fin i"
    have b: "512 * (i + 1) < 2 ^ 32" using Cons.prems(6) by simp
    note lo = low_in_nat [OF b, of off] low_in_nat [OF b, of fin]
    note rs = range_split [OF D Cons.prems(4), of i, folded lo]
    have l1: "unat bw + (unat ?hi - unat ?lo) \<le> length buf" "unat bw + (unat ?hi - unat ?lo) < 2 ^ 32"
      using Cons.prems(7,8) rs(2) by simp_all
    obtain s1 bw1 where s1: "write_step s c ?lo ?hi buf bw = Some (bw1, s1)" "unat bw1 = unat bw + (unat ?hi - unat ?lo)"
      "wrote12 n s {c} s1" "data12 s1 c = patch (data12 s c) (unat ?lo - 512 * i) (take (unat ?hi - unat ?lo) (drop (unat bw) buf))"
      using write_step_ok [OF Cons.prems(1) dc(1) rs(3-5) l1] by blast
    note cg = wrote12_cong [OF s1(3)]
    obtain s2 where s2: "read_fat_value s1 c = Some (fat12_value s c, s2)" "unchanged12 n s1 s2"
      "fb_changed (FAT_buffer s2) = fb_changed (FAT_buffer s1)"
      using read_fat_value_ok [OF cg(1), of c] dc(1) cg(2) by (auto simp: data_cluster_def unchanged12_def fat12_value_def [abs_def] fun_eq_iff)
    note u = wrote12_trans [OF s1(3) unchanged12_wrote [OF s2(2,3)]]
    note cg2 = wrote12_cong [OF u]
    have "\<exists>s'. write_loop12 s2 buf off fin [Suc i..<N] (fat12_value s c) (Some c) False bw1 = Some (True, s') \<and> wrote12 n s2 (set cs) s'
      \<and> contents12 s' cs = patch (contents12 s2 cs) (max (unat off) (512 * Suc i) - 512 * Suc i)
         (take (unat fin - max (unat off) (512 * Suc i)) (drop (unat bw1) buf))"
    proof (rule Cons.IH)
      show "chain12 (fat12_value s2) (fat12_value s c) cs" using c(4) cg2(2) by simp
      show "\<forall>x\<in>set cs. data_cluster n s2 x" using dc(2) cg2(3) by simp
      show "unat bw1 + (unat fin - max (unat off) (512 * Suc i)) \<le> length buf" using Cons.prems(7) rs(2) s1(2) by simp
      show "unat bw1 + (unat fin - max (unat off) (512 * Suc i)) < 2 ^ 32" using Cons.prems(8) rs(2) s1(2) by simp
    qed (use Cons.prems cg2(1) in auto)
    then obtain s' where s': "write_loop12 s2 buf off fin [Suc i..<N] (fat12_value s c) (Some c) False bw1 = Some (True, s')"
      "wrote12 n s2 (set cs) s'"
      "contents12 s' cs = patch (contents12 s2 cs) (max (unat off) (512 * Suc i) - 512 * Suc i)
         (take (unat fin - max (unat off) (512 * Suc i)) (drop (unat bw1) buf))" by blast
    have e: "[i..<N] = i # [Suc i..<N]" using True by (simp add: upt_conv_Cons)
    have ok: "(0 < c \<and> c < 0xFF8) = True" using c(2,3) by simp
    have run: "write_loop12 s buf off fin [i..<N] c prev False bw = Some (True, s')"
      unfolding e write_loop12.simps(2) ok
      by (simp only: Let_def simp_thms if_False if_True prod.case Option.bind.simps option.case s1(1) s2(1) s'(1))
    have w: "wrote12 n s (set (x # cs)) s'" using wrote12_trans [OF u s'(2)] c(1) by simp
    have d2: "data12 s2 c = data12 s1 c" using unchanged12_cong(4) [OF s2(2) cg(1)] dc(1) cg(3) by simp
    have d': "data12 s' c = data12 s1 c" using wrote12_cong(5) [OF s'(2) cg2(1), of c] dc nc cg2(3) d2 by simp
    have r2: "contents12 s2 cs = contents12 s cs"
      unfolding contents12_def using cg2(5) [OF Cons.prems(1)] dc nc by (intro arg_cong [of _ _ concat] map_cong) auto
    have W: "unat fin - max (unat off) (512 * i) \<le> length (drop (unat bw) buf)" using Cons.prems(7) by simp
    have dd: "drop (unat bw1) buf = drop (unat ?hi - unat ?lo) (drop (unat bw) buf)" using s1(2) by (simp add: add.commute)
    have "contents12 s' (x # cs) = data12 s1 c @ contents12 s' cs" using d' c(1) by (simp add: contents12_def)
    also have "\<dots> = patch (data12 s c @ contents12 s cs) (max (unat off) (512 * i) - 512 * i)
         (take (unat fin - max (unat off) (512 * i)) (drop (unat bw) buf))"
      unfolding s1(4) s'(3) r2 dd
      using patch_split12 [OF D Cons.prems(4) W, of "contents12 s cs", folded lo] by (simp only: Suc_eq_plus1)
    finally have "contents12 s' (x # cs) = patch (contents12 s (x # cs)) (max (unat off) (512 * i) - 512 * i)
         (take (unat fin - max (unat off) (512 * i)) (drop (unat bw) buf))" using c(1) by (simp only: contents12_def list.map concat.simps)
    then show ?thesis using run w by blast
  qed
qed

subsection \<open>The directory entry of a file\<close>

lemma entry_at_size:
  assumes "length sec = 512" "i < 16"
  shows "entry_at (patch sec (32 * i + 28) (bytes32 v)) i = (entry_at sec i)\<lparr>node_size := v\<rparr>"
proof -
  let ?p = "patch sec (32 * i + 28) (bytes32 v)"
  have l: "length ?p = 512" using assms by simp
  have n: "bytes_at ?p (32 * i) 32 ! j = (if j < 28 then bytes_at sec (32 * i) 32 ! j else bytes32 v ! (j - 28))" if "j < 32" for j
  proof -
    have "32 * i + 32 \<le> 512" using assms(2) by simp
    then show ?thesis using that assms(1) l by (simp add: bytes_at_def nth_patch)
  qed
  have t: "bytes_at (bytes_at ?p (32 * i) 32) 0 11 = bytes_at (bytes_at sec (32 * i) 32) 0 11"
    using assms by (simp add: bytes_at_def take_drop_patch_other min_def)
  have r: "get32 (bytes_at ?p (32 * i) 32) 28 = v"
    by (simp add: get32_def n) (simp add: bytes32_def le32_bytes)
  show ?thesis unfolding entry_at_def node_of_bytes_def t r
    by (simp add: get8_def get16_def n)
qed

text \<open>A position in a directory sector of the volume, outside the tables.\<close>

definition position_ok :: "nat \<Rightarrow> 'd FAT12 \<Rightarrow> FAT_NODE_POSITION \<Rightarrow> bool" where
  "position_ok n s pos \<longleftrightarrow> unat (sector_of_position pos) < n \<and> \<not> in_tables s (unat (sector_of_position pos)) \<and> unat (offset_of_position pos) < 16"

lemma update_size_ok:
  assumes s: "fat12_ok n s" and p: "vn_position this = Some pos" "position_ok n s pos"
  shows "\<exists>s'. update_size s this v = Some s' \<and> fat12_ok n s' \<and> table12 s' = table12 s \<and> same_rest s s'
    \<and> (\<forall>k<n. sector (device12 s') k = (if k = unat (sector_of_position pos)
         then patch (sector (device12 s) k) (32 * unat (offset_of_position pos) + 28) (bytes32 (max (vn_size this) v))
         else sector (device12 s) k))"
proof -
  let ?k = "unat (sector_of_position pos)"
  have k: "?k < n" "\<not> in_tables s ?k" "unat (offset_of_position pos) < 16" using p(2) by (simp_all add: position_ok_def)
  have l: "?k + unat (1 :: u32) \<le> n" using k by simp
  have L: "length (sector (device12 s) ?k) = 512" using good_blocks_length [OF fat12_okD(1) [OF s] k(1)] .
  obtain dv where dv: "read12 s (replicate 512 0) 1 (sector_of_position pos) = Some (E_DEVICE_OK, sector (device12 s) ?k, s\<lparr>device12 := dv\<rparr>)"
    "same_disk n (device12 s) dv"
    using read12_ok [OF fat12_okD(1) [OF s] _ _ l, of "replicate 512 0"] by auto
  let ?s1 = "s\<lparr>device12 := dv\<rparr>"
  let ?t = "patch (sector (device12 s) ?k) (32 * unat (offset_of_position pos) + 28) (bytes32 (max (vn_size this) v))"
  have t: "copy_into (sector (device12 s) ?k) (32 * unat (offset_of_position pos) + 28) (bytes32 (max (vn_size this) v)) = Some ?t" "length ?t = 512"
    using L k(3) by (simp_all add: copy_into_Some)
  have g: "good_blocks n (device12 ?s1)" using dv(2) by (simp add: same_disk_def)
  obtain dv' where w: "write12 ?s1 ?t 1 (sector_of_position pos) = Some (E_DEVICE_OK, ?s1\<lparr>device12 := dv'\<rparr>)" "good_blocks n dv'"
    "\<forall>j<n. sector dv' j = (if ?k \<le> j \<and> j < ?k + unat (1 :: u32) then take 512 (drop (512 * (j - ?k)) ?t) else sector dv j)"
    using write12_ok [OF g _ _ l, of ?t] t(2) by auto
  let ?s = "s\<lparr>device12 := dv'\<rparr>"
  have sec: "\<forall>j<n. sector dv' j = (if j = ?k then ?t else sector (device12 s) j)"
    using w(3) t(2) dv(2) by (auto simp: same_disk_def)
  have T: "sector dv' j = sector (device12 s) j" if "fat12_start s \<le> j" "j < fat12_start s + 3" for j
    using sec k that fat12_okD(3,4) [OF s] by (auto simp: in_tables_def)
  have d: "disk_table ?s = disk_table s"
    unfolding disk_table_def by (intro arg_cong [of _ _ concat] map_cong) (use T in \<open>auto simp: fat12_start_def\<close>)
  then have tb: "table12 ?s = table12 s" by (simp add: table12_def)
  have "fat12_ok n ?s" using s w(2) d tb by (simp add: fat12_ok_def fat12_start_def fat12_size_def)
  moreover have "update_size s this v = Some ?s"
    using p(1) dv(1) t(1) w(1) by (simp add: update_size_def math_min_max)
  ultimately show ?thesis using sec tb by (intro exI [of _ ?s]) (auto simp: same_rest_def)
qed

text \<open>C27. Writing a range that ends inside the chain of the file replaces exactly these bytes of its
  contents, keeps the table, and records the larger of the old size and the end of the range in
  the directory entry; no other sector outside the tables changes.\<close>

theorem fat12_write_file_correct:
  assumes s: "fat12_ok n s" and c: "chain12 (fat12_value s) (FS_reference this) cs" "\<forall>x\<in>set cs. data_cluster n s x"
    and r: "unat off + unat sz < 512 * length cs" "512 * (length cs + 1) < 2 ^ 32" "unat sz \<le> length buf"
    and p: "vn_position this = Some pos" "position_ok n s pos" "\<forall>x\<in>set cs. unat (cluster_lba12 s x) \<noteq> unat (sector_of_position pos)"
  shows "\<exists>s'. fat12_write_file s this buf sz off = Some (0, s') \<and> fat12_ok n s' \<and> fat12_value s' = fat12_value s
    \<and> contents12 s' cs = patch (contents12 s cs) (unat off) (take (unat sz) buf)
    \<and> entry_at (sector (device12 s') (unat (sector_of_position pos))) (unat (offset_of_position pos))
        = (entry_at (sector (device12 s) (unat (sector_of_position pos))) (unat (offset_of_position pos)))\<lparr>node_size := max (vn_size this) (off + sz)\<rparr>
    \<and> (\<forall>k<n. \<not> in_tables s k \<and> k \<noteq> unat (sector_of_position pos) \<and> k \<notin> (\<lambda>x. unat (cluster_lba12 s x)) ` set cs
         \<longrightarrow> sector (device12 s') k = sector (device12 s) k)"
proof -
  let ?k = "unat (sector_of_position pos)"
  have f: "unat (off + sz) = unat off + unat sz" using r by (simp add: unat_add_u32)
  have d: "unat ((off + sz) div 512) = (unat off + unat sz) div 512" using f by (simp add: unat_div)
  have q: "(unat off + unat sz) div 512 < length cs" using r(1) by (simp add: div_less_iff_less_mult mult.commute)
  then have N: "unat ((off + sz) div 512 + 1) = unat (off + sz) div 512 + 1" using d f r(2) by (simp add: unat_add_u32)
  obtain s1 where s1: "write_loop12 s buf off (off + sz) [0..<unat ((off + sz) div 512 + 1)] (FS_reference this) None False 0 = Some (True, s1)"
    "wrote12 n s (set cs) s1" "contents12 s1 cs = patch (contents12 s cs) (unat off) (take (unat sz) buf)"
    using write_loop12_ok [OF s c, of off "off + sz" "unat ((off + sz) div 512 + 1)" 0 0 buf None, OF _ _ _ _ _ N] f r q N by auto
  note cg = wrote12_cong [OF s1(2)]
  obtain s2 where s2: "flush_fat_buffer s1 = Some s2" "fat12_ok n s2" "table12 s2 = table12 s1" "same_rest s1 s2"
    "\<forall>j<n. sector (device12 s2) j = (if fb_changed (FAT_buffer s1) then flushed s1 j else sector (device12 s1) j)"
    using flush_fat_buffer_ok [OF cg(1)] by blast
  have g1: "fat12_start s1 = fat12_start s" "fat12_size s1 = fat12_size s"
    using s1(2) same_rest_geometry by (auto simp: wrote12_def)
  have g2: "fat12_start s2 = fat12_start s" "fat12_size s2 = fat12_size s" using same_rest_geometry [OF s2(4)] g1 by simp_all
  have o2: "sector (device12 s2) j = sector (device12 s1) j" if "j < n" "\<not> in_tables s j" for j
    using s2(5) that g1 fat12_okD(3) [OF s] by (auto simp: flushed_def in_tables_def)
  have p2: "position_ok n s2 pos" using p(2) g2 by (simp add: position_ok_def in_tables_def)
  obtain s3 where s3: "update_size s2 this (off + sz) = Some s3" "fat12_ok n s3" "table12 s3 = table12 s2" "same_rest s2 s3"
    "\<forall>j<n. sector (device12 s3) j = (if j = ?k
       then patch (sector (device12 s2) j) (32 * unat (offset_of_position pos) + 28) (bytes32 (max (vn_size this) (off + sz)))
       else sector (device12 s2) j)"
    using update_size_ok [OF s2(2) p(1) p2] by blast
  have k: "?k < n" "\<not> in_tables s ?k" "unat (offset_of_position pos) < 16" using p(2) by (simp_all add: position_ok_def)
  have run: "fat12_write_file s this buf sz off = Some (0, s3)"
    using s1(1) s2(1) s3(1) by (simp add: fat12_write_file_def)
  have val: "fat12_value s3 = fat12_value s" using value_cong [OF s3(3)] value_cong [OF s2(3)] cg(2) by simp
  have ds: "data_start12 s3 = data_start12 s1" using s2(4) s3(4) by (simp add: same_rest_def data_start12_def)
  have "data12 s3 x = data12 s1 x" if "x \<in> set cs" for x
  proof -
    have x: "data_cluster n s x" "unat (cluster_lba12 s x) \<noteq> ?k" using c(2) p(3) that by auto
    have "data_start12 s1 = data_start12 s" using s1(2) by (simp add: wrote12_def same_rest_def data_start12_def)
    then show ?thesis using data_lba12 [OF s x(1)] x(2) s3(5) o2 by (simp add: data12_def ds)
  qed
  then have "contents12 s3 cs = contents12 s1 cs" unfolding contents12_def by (intro arg_cong [of _ _ concat] map_cong) auto
  then have con: "contents12 s3 cs = patch (contents12 s cs) (unat off) (take (unat sz) buf)" using s1(3) by simp
  have "?k \<notin> (\<lambda>x. unat (cluster_lba12 s x)) ` set cs" using p(3) by auto
  then have "sector (device12 s2) ?k = sector (device12 s) ?k" using o2 [OF k(1,2)] s1(2) k(1) by (simp add: wrote12_def)
  then have ent: "entry_at (sector (device12 s3) ?k) (unat (offset_of_position pos))
      = (entry_at (sector (device12 s) ?k) (unat (offset_of_position pos)))\<lparr>node_size := max (vn_size this) (off + sz)\<rparr>"
    using s3(5) k entry_at_size [OF good_blocks_length [OF fat12_okD(1) [OF s] k(1)] k(3)] by simp
  have "sector (device12 s3) j = sector (device12 s) j"
    if "j < n" "\<not> in_tables s j" "j \<noteq> ?k" "j \<notin> (\<lambda>x. unat (cluster_lba12 s x)) ` set cs" for j
    using that s3(5) o2 s1(2) by (simp add: wrote12_def)
  then show ?thesis using run s3(2) val con ent by blast
qed

end
