(* ===== verification/Fat12_Search.thy ===== *)
theory Fat12_Search
  imports Fat12_Chain_Theorems Fat12_Dir
begin

text \<open>
  Searching a directory of a FAT12 volume: a directory is a list of sectors, sixteen entries each,
  and a search returns the first live entry with the name in the first sector that has one.
\<close>

subsection \<open>The entries of a sector\<close>

text \<open>An end mark hides the entries behind it in its sector, and only those.\<close>

definition search12 :: "byte list \<Rightarrow> byte list \<Rightarrow> nat option" where
  "search12 sec name = find (\<lambda>i. filename (entry_at sec i) ! 0 \<noteq> 0xE5 \<and> filename (entry_at sec i) = name)
     (takeWhile (\<lambda>i. filename (entry_at sec i) ! 0 \<noteq> 0) [0..<16])"

fun find12 :: "(nat \<Rightarrow> byte list) \<Rightarrow> byte list \<Rightarrow> nat list \<Rightarrow> (nat \<times> nat) option" where
  "find12 f name [] = None"
| "find12 f name (l # ls) = (case search12 (f l) name of Some i \<Rightarrow> Some (l, i) | None \<Rightarrow> find12 f name ls)"

lemma length_filename_at: "32 * i + 32 \<le> length b \<Longrightarrow> length (filename (entry_at b i)) = 11"
  using wf_entry_at [of i b] by (simp add: wf_node_def)

lemma entry_at_append: "32 * i + 32 \<le> length b \<Longrightarrow> entry_at (b @ r) i = entry_at b i"
  by (simp add: entry_at_def bytes_at_def)

lemma resolve_entries_ok:
  assumes "\<forall>i\<in>set is. 32 * i + 32 \<le> length nodes" "length name = 11"
  shows "resolve_entries nodes (name @ r) is
    = Some (find (\<lambda>i. filename (entry_at nodes i) ! 0 \<noteq> 0xE5 \<and> filename (entry_at nodes i) = name)
        (takeWhile (\<lambda>i. filename (entry_at nodes i) ! 0 \<noteq> 0) is))"
  using assms
proof (induction "is")
  case (Cons i "is")
  have "k_memcmp (filename (entry_at nodes i)) (name @ r) 11 = Some (if filename (entry_at nodes i) = name then 0 else 1)"
    using Cons.prems length_filename_at [of i nodes] by (simp add: k_memcmp_correct)
  then show ?case using Cons by (simp add: Let_def)
qed simp

lemma resolve_buffer_ok:
  assumes "length sec = 512" "length name = 11"
  shows "resolve_entries (sec @ r) (name @ r') [0..<16] = Some (search12 sec name)"
proof -
  have e: "entry_at (sec @ r) i = entry_at sec i" if "i < 16" for i
    using assms(1) that by (intro entry_at_append) simp
  have "takeWhile (\<lambda>i. filename (entry_at (sec @ r) i) ! 0 \<noteq> 0) [0..<16] = takeWhile (\<lambda>i. filename (entry_at sec i) ! 0 \<noteq> 0) [0..<16]"
    by (rule takeWhile_cong) (simp_all add: e)
  moreover have "find (\<lambda>i. filename (entry_at (sec @ r) i) ! 0 \<noteq> 0xE5 \<and> filename (entry_at (sec @ r) i) = name) xs
      = find (\<lambda>i. filename (entry_at sec i) ! 0 \<noteq> 0xE5 \<and> filename (entry_at sec i) = name) xs" if "set xs \<subseteq> {0..<16}" for xs
    using that by (intro find_cong) (auto simp: e)
  moreover have "set (takeWhile (\<lambda>i. filename (entry_at sec i) ! 0 \<noteq> 0) [0..<16]) \<subseteq> {0..<16}"
    using set_takeWhileD by fastforce
  ultimately show ?thesis
    using assms by (subst resolve_entries_ok) (auto simp: search12_def)
qed

text \<open>Facts on lists of indices, for any number of them.\<close>

lemma upt_around: "j < m \<Longrightarrow> [0..<m] = [0..<j] @ j # [Suc j..<m]"
  using upt_add_eq_append [of 0 j "m - j"] by (simp add: upt_conv_Cons)

lemma find_none: "\<forall>x\<in>set xs. \<not> P x \<Longrightarrow> find P xs = None"
  by (induction xs) auto

lemma find_after: "find P xs = None \<Longrightarrow> P y \<Longrightarrow> find P (xs @ y # ys) = Some y"
  by (induction xs) (auto split: if_splits)

lemma find_member: "find P xs = Some x \<Longrightarrow> x \<in> set xs \<and> P x"
  by (induction xs) (auto split: if_splits)

lemma find_not_none: "P x \<Longrightarrow> x \<in> set xs \<Longrightarrow> find P xs \<noteq> None"
  by (induction xs) auto

lemma takeWhile_around:
  "j < m \<Longrightarrow> \<forall>i\<le>j. P i \<Longrightarrow> takeWhile P [0..<m] = [0..<j] @ j # takeWhile P [Suc j..<m]"
  by (simp only: upt_around) (subst takeWhile_append2, auto)

text \<open>The first entry with the name, when none before it ends the sector.\<close>

lemma search12_Some:
  assumes j: "j < 16" and b: "\<forall>i<j. filename (entry_at sec i) ! 0 \<noteq> 0 \<and> filename (entry_at sec i) \<noteq> name"
    and e: "filename (entry_at sec j) = name" "name ! 0 \<noteq> 0" "name ! 0 \<noteq> 0xE5"
  shows "search12 sec name = Some j"
proof -
  have "\<forall>i\<le>j. filename (entry_at sec i) ! 0 \<noteq> 0" using b e by (metis le_neq_implies_less)
  then have t: "takeWhile (\<lambda>i. filename (entry_at sec i) ! 0 \<noteq> 0) [0..<16]
      = [0..<j] @ j # takeWhile (\<lambda>i. filename (entry_at sec i) ! 0 \<noteq> 0) [Suc j..<16]" by (rule takeWhile_around [OF j])
  show ?thesis unfolding search12_def t by (intro find_after find_none) (use b e in auto)
qed

lemma search12_None:
  assumes "\<forall>i<16. filename (entry_at sec i) \<noteq> name"
  shows "search12 sec name = None"
  unfolding search12_def by (rule find_none) (use assms in \<open>auto dest!: set_takeWhileD simp del: upt_rec_numeral\<close>)

lemma search12_range: "search12 sec name = Some i \<Longrightarrow> i < 16"
  unfolding search12_def by (auto dest!: find_member set_takeWhileD simp del: upt_rec_numeral)

lemma search12_NoneD:
  assumes "search12 sec name = None" "j < 16" "\<forall>i\<le>j. filename (entry_at sec i) ! 0 \<noteq> 0" "name ! 0 \<noteq> 0xE5"
  shows "filename (entry_at sec j) \<noteq> name"
proof
  assume n: "filename (entry_at sec j) = name"
  have "j \<in> set (takeWhile (\<lambda>i. filename (entry_at sec i) ! 0 \<noteq> 0) [0..<16])"
    unfolding takeWhile_around [OF assms(2,3)] by simp
  then have "search12 sec name \<noteq> None" unfolding search12_def by (rule find_not_none [rotated]) (use n assms(4) in simp)
  then show False using assms(1) by simp
qed

subsection \<open>Sectors of a directory\<close>

text \<open>Name and node buffers do not matter for the volume.\<close>

lemma frame12 [simp]:
  "fat12_ok n (s\<lparr>path_buffer := p\<rparr>) = fat12_ok n s" "table12 (s\<lparr>path_buffer := p\<rparr>) = table12 s"
  "fat12_ok n (s\<lparr>node_buffer := b\<rparr>) = fat12_ok n s" "table12 (s\<lparr>node_buffer := b\<rparr>) = table12 s"
  "fat12_ok n (s\<lparr>node_buffer_lba := l\<rparr>) = fat12_ok n s" "table12 (s\<lparr>node_buffer_lba := l\<rparr>) = table12 s"
  by (simp_all add: fat12_ok_def fat12_start_def fat12_size_def table12_def disk_table_def)

text \<open>What a search keeps: the disk and the table.\<close>

definition kept12 :: "nat \<Rightarrow> 'd FAT12 \<Rightarrow> 'd FAT12 \<Rightarrow> bool" where
  "kept12 n s s' \<longleftrightarrow> fat12_ok n s' \<and> table12 s' = table12 s \<and> partition12 s' = partition12 s
     \<and> fb_changed (FAT_buffer s') = fb_changed (FAT_buffer s)
     \<and> length (node_buffer s') = length (node_buffer s) \<and> same_sectors n s s'"

lemma kept12_refl: "fat12_ok n s \<Longrightarrow> kept12 n s s"
  by (simp add: kept12_def)

lemma kept12_trans: "kept12 n a b \<Longrightarrow> kept12 n b c \<Longrightarrow> kept12 n a c"
  by (simp add: kept12_def same_sectors_def)

lemma kept12_path: "kept12 n s s' \<Longrightarrow> kept12 n s (s'\<lparr>path_buffer := p\<rparr>)"
  by (simp add: kept12_def same_sectors_def)

lemma kept12_value: "kept12 n s s' \<Longrightarrow> fat12_value s' = fat12_value s"
  by (rule value_cong) (simp add: kept12_def)

lemma kept12_geometry: "kept12 n s s' \<Longrightarrow> fat12_start s' = fat12_start s \<and> fat12_size s' = fat12_size s \<and> data_start12 s' = data_start12 s
    \<and> data_cluster n s' = data_cluster n s \<and> cluster_lba12 s' = cluster_lba12 s"
  by (simp add: kept12_def fat12_start_def fat12_size_def data_start12_def data_cluster_def cluster_lba12_def fun_eq_iff)

text \<open>An operation that ran on a copy of the device with the same sectors.\<close>

lemma same_disk_ok:
  assumes s: "fat12_ok n s" and d: "same_disk n (device12 s) dv"
  shows "fat12_ok n (s\<lparr>device12 := dv\<rparr>)" "table12 (s\<lparr>device12 := dv\<rparr>) = table12 s"
proof -
  have L: "fat12_start s + 3 \<le> n" using fat12_okD(3,4) [OF s] by linarith
  have t: "disk_table (s\<lparr>device12 := dv\<rparr>) = disk_table s"
    unfolding disk_table_def by (intro arg_cong [of _ _ concat] map_cong) (use d L in \<open>auto simp: same_disk_def fat12_start_def\<close>)
  then show u: "table12 (s\<lparr>device12 := dv\<rparr>) = table12 s" by (simp add: table12_def)
  show "fat12_ok n (s\<lparr>device12 := dv\<rparr>)" using s d t u by (simp add: fat12_ok_def same_disk_def fat12_start_def fat12_size_def)
qed

lemma kept12_device: "fat12_ok n s \<Longrightarrow> same_disk n (device12 s) dv \<Longrightarrow> kept12 n s (s\<lparr>device12 := dv\<rparr>)"
  using same_disk_ok [of n s dv] by (auto simp: kept12_def same_sectors_def same_disk_def)

text \<open>The state a search runs in: the name in \<^verbatim>\<open>path_buffer\<close>, and \<^verbatim>\<open>node_buffer\<close> at its full size.\<close>

definition searching :: "nat \<Rightarrow> byte list \<Rightarrow> 'd FAT12 \<Rightarrow> bool" where
  "searching n name s \<longleftrightarrow> fat12_ok n s \<and> length name = 11 \<and> path_buffer s = name @ [0, 0] \<and> length (node_buffer s) = 1024"

lemma searching_kept: "searching n name s \<Longrightarrow> kept12 n s s' \<Longrightarrow> path_buffer s' = path_buffer s \<Longrightarrow> searching n name s'"
  by (simp add: searching_def kept12_def)

lemma searching_refl: "searching n name s \<Longrightarrow> kept12 n s s"
  by (simp add: searching_def kept12_def)

lemma resolve_sector_ok:
  assumes s: "searching n name s" and l: "unat lba < n"
  shows "\<exists>s'. resolve_sector s lba
      = Some (map_option (\<lambda>i. (entry_at (sector (device12 s) (unat lba)) i, \<lparr>sector_of_position = lba, offset_of_position = of_nat i\<rparr>))
          (search12 (sector (device12 s) (unat lba)) name), s')
    \<and> kept12 n s s' \<and> path_buffer s' = path_buffer s"
proof -
  let ?sec = "sector (device12 s) (unat lba)"
  let ?s = "s\<lparr>node_buffer_lba := lba\<rparr>"
  have ok: "fat12_ok n s" "length name = 11" "path_buffer s = name @ [0, 0]" "length (node_buffer s) = 1024"
    using s by (simp_all add: searching_def)
  have g: "good_blocks n (device12 ?s)" using fat12_okD(1) [OF ok(1)] by simp
  have l1: "unat lba + unat (1 :: u32) \<le> n" using l by simp
  obtain dv where dv: "read12 ?s (take 512 (node_buffer s)) 1 lba = Some (E_DEVICE_OK, ?sec, ?s\<lparr>device12 := dv\<rparr>)"
    "same_disk n (device12 s) dv"
    using read12_ok [OF g _ _ l1, of "take 512 (node_buffer s)"] ok(4) by auto
  let ?s' = "s\<lparr>node_buffer_lba := lba, device12 := dv, node_buffer := ?sec @ drop 512 (node_buffer s)\<rparr>"
  have L: "length ?sec = 512" using good_blocks_length [OF fat12_okD(1) [OF ok(1)] l] .
  have rb: "resolve_node_buffer ?s' = Some (search12 ?sec name)"
    using resolve_buffer_ok [OF L ok(2), of "drop 512 (node_buffer s)" "[0, 0]"] ok(3) by (simp add: resolve_node_buffer_def)
  have "resolve_sector s lba = Some (map_option (\<lambda>i. (entry_at (?sec @ drop 512 (node_buffer s)) i, \<lparr>sector_of_position = lba, offset_of_position = of_nat i\<rparr>))
          (search12 ?sec name), ?s')"
    using dv(1) rb by (simp add: resolve_sector_def Let_def)
  also have "\<dots> = Some (map_option (\<lambda>i. (entry_at ?sec i, \<lparr>sector_of_position = lba, offset_of_position = of_nat i\<rparr>)) (search12 ?sec name), ?s')"
    using search12_range [of ?sec name] L by (cases "search12 ?sec name") (auto simp: entry_at_append)
  finally have "resolve_sector s lba = \<dots>" .
  moreover have "kept12 n s ?s'"
    using kept12_device [of n ?s dv] dv(2) ok(1) L ok(4)
    by (simp add: kept12_def same_sectors_def)
  ultimately show ?thesis by (intro exI [of _ ?s']) simp
qed

subsection \<open>The loops over the sectors\<close>

text \<open>The result of a search over the sectors of a list, as entry and position.\<close>

definition found_at :: "'d FAT12 \<Rightarrow> (nat \<times> nat) option \<Rightarrow> (FAT_NODE \<times> FAT_NODE_POSITION) option" where
  "found_at s r = map_option (\<lambda>(l, i). (entry_at (sector (device12 s) l) i,
     \<lparr>sector_of_position = of_nat l, offset_of_position = of_nat i\<rparr>)) r"

lemma find12_cong: "(\<And>l. l \<in> set ls \<Longrightarrow> f l = g l) \<Longrightarrow> find12 f name ls = find12 g name ls"
  by (induction ls) (auto split: option.split)

lemma find12_range: "find12 f name ls = Some (l, i) \<Longrightarrow> l \<in> set ls \<and> i < 16"
  by (induction ls) (auto split: option.splits dest: search12_range)

lemma found_at_kept:
  assumes "kept12 n s s'" "\<forall>l\<in>set ls. l < n"
  shows "find12 (sector (device12 s')) name ls = find12 (sector (device12 s)) name ls"
    and "found_at s' (find12 (sector (device12 s)) name ls) = found_at s (find12 (sector (device12 s)) name ls)"
proof -
  have e: "sector (device12 s') l = sector (device12 s) l" if "l \<in> set ls" for l
    using assms that by (simp add: kept12_def same_sectors_def)
  then show "find12 (sector (device12 s')) name ls = find12 (sector (device12 s)) name ls" by (rule find12_cong)
  show "found_at s' (find12 (sector (device12 s)) name ls) = found_at s (find12 (sector (device12 s)) name ls)"
    using e find12_range [of "sector (device12 s)" name ls] by (auto simp: found_at_def split: option.split)
      (cases "find12 (sector (device12 s)) name ls"; auto)
qed

lemma resolve_root_loop_ok:
  assumes "searching n name s" "unat (root_offset12 (partition12 s)) + m \<le> n"
  shows "\<exists>s'. resolve_root_loop s (map of_nat [a..<m])
      = Some (found_at s (find12 (sector (device12 s)) name
          [unat (root_offset12 (partition12 s)) + a..<unat (root_offset12 (partition12 s)) + m]), s')
    \<and> kept12 n s s' \<and> path_buffer s' = path_buffer s"
  using assms
proof (induction "m - a" arbitrary: a s)
  case 0
  then show ?case using searching_refl [of n name s] by (intro exI [of _ s]) (simp add: found_at_def)
next
  case (Suc k)
  let ?ro = "unat (root_offset12 (partition12 s))"
  have am: "a < m" "k = m - Suc a" using Suc.hyps(2) by simp_all
  have n: "n < 2 ^ 32" using Suc.prems(1) fat12_okD(2) by (auto simp: searching_def)
  have u: "unat (of_nat (?ro + a) :: u32) = ?ro + a" using Suc.prems(2) am n by (intro unat_of_nat_u32) simp
  have l: "unat (of_nat (?ro + a) :: u32) < n" using u Suc.prems(2) am by simp
  obtain s1 where s1: "resolve_sector s (of_nat (?ro + a))
      = Some (map_option (\<lambda>i. (entry_at (sector (device12 s) (?ro + a)) i, \<lparr>sector_of_position = of_nat (?ro + a), offset_of_position = of_nat i\<rparr>))
          (search12 (sector (device12 s) (?ro + a)) name), s1)"
    "kept12 n s s1" "path_buffer s1 = path_buffer s"
    using resolve_sector_ok [OF Suc.prems(1) l] unfolding u by blast
  have d: "[a..<m] = a # [Suc a..<m]" "[?ro + a..<?ro + m] = (?ro + a) # [?ro + Suc a..<?ro + m]" using am by (simp_all add: upt_conv_Cons)
  show ?case
  proof (cases "search12 (sector (device12 s) (?ro + a)) name")
    case (Some i)
    then show ?thesis using s1 unfolding d by (intro exI [of _ s1]) (simp add: found_at_def)
  next
    case None
    have p: "partition12 s1 = partition12 s" using s1(2) by (simp add: kept12_def)
    have "\<exists>s'. resolve_root_loop s1 (map of_nat [Suc a..<m])
        = Some (found_at s1 (find12 (sector (device12 s1)) name [?ro + Suc a..<?ro + m]), s')
      \<and> kept12 n s1 s' \<and> path_buffer s' = path_buffer s1"
      using Suc.hyps(1) [OF am(2) searching_kept [OF Suc.prems(1) s1(2,3)]] Suc.prems(2) p by simp
    moreover have "found_at s1 (find12 (sector (device12 s1)) name [?ro + Suc a..<?ro + m])
        = found_at s (find12 (sector (device12 s)) name [?ro + Suc a..<?ro + m])"
      using found_at_kept [OF s1(2), of "[?ro + Suc a..<?ro + m]" name] Suc.prems(2) by simp
    ultimately show ?thesis using s1 None kept12_trans [OF s1(2)] unfolding d by auto
  qed
qed

lemma read_value_kept:
  assumes "fat12_ok n s" "unat c < 1024"
  shows "\<exists>s'. read_fat_value s c = Some (fat12_value s c, s') \<and> kept12 n s s' \<and> path_buffer s' = path_buffer s"
  using read_fat_value_ok [OF assms] by (auto simp: fat12_value_def kept12_def same_rest_def)

text \<open>A directory in clusters: the search goes on behind a sector with an end mark.\<close>

lemma resolve_dir_loop_ok:
  assumes "searching n name s" "chain12 (fat12_value s) c cs" "\<forall>x\<in>set cs. data_cluster n s x"
  shows "\<exists>s'. resolve_dir_loop s c
      = Some (found_at s (find12 (sector (device12 s)) name (map (\<lambda>x. unat (cluster_lba12 s x)) cs)), s')
    \<and> kept12 n s s' \<and> path_buffer s' = path_buffer s"
  using assms
proof (induction cs arbitrary: c s)
  case Nil
  then have "resolve_dir_loop s c = Some (None, s)" by (subst resolve_dir_loop.simps) auto
  then show ?case using searching_refl [OF Nil.prems(1)] by (intro exI [of _ s]) (simp add: found_at_def)
next
  case (Cons x cs)
  have c: "x = c" "0 < c" "c < 0xFF8" "chain12 (fat12_value s) (fat12_value s c) cs" using Cons.prems(2) by auto
  have dc: "data_cluster n s c" "\<forall>x\<in>set cs. data_cluster n s x" using Cons.prems(3) c(1) by simp_all
  have ok: "fat12_ok n s" using Cons.prems(1) by (simp add: searching_def)
  have a: "data_offset12 (partition12 s) - 2 + c = cluster_lba12 s c" by (simp add: cluster_lba12_def)
  have w: "of_nat (unat (cluster_lba12 s c)) = cluster_lba12 s c" by simp
  obtain s1 where s1: "resolve_sector s (cluster_lba12 s c)
      = Some (map_option (\<lambda>i. (entry_at (sector (device12 s) (unat (cluster_lba12 s c))) i, \<lparr>sector_of_position = cluster_lba12 s c, offset_of_position = of_nat i\<rparr>))
          (search12 (sector (device12 s) (unat (cluster_lba12 s c))) name), s1)"
    "kept12 n s s1" "path_buffer s1 = path_buffer s"
    using resolve_sector_ok [OF Cons.prems(1) data_lba12(2) [OF ok dc(1)]] by blast
  have step: "resolve_dir_loop s c = do {
        (found, s) \<leftarrow> resolve_sector s (cluster_lba12 s c);
        case found of
          Some r \<Rightarrow> Some (Some r, s)
        | None \<Rightarrow> do { (v, s) \<leftarrow> read_fat_value s c; resolve_dir_loop s v }
      }"
    using c(2,3) by (subst resolve_dir_loop.simps) (simp only: simp_thms if_True a)
  show ?case
  proof (cases "search12 (sector (device12 s) (unat (cluster_lba12 s c))) name")
    case (Some i)
    then show ?thesis using s1 step c(1) w by (intro exI [of _ s1]) (simp add: found_at_def)
  next
    case None
    have ok1: "fat12_ok n s1" using s1(2) by (simp add: kept12_def)
    obtain s2 where s2: "read_fat_value s1 c = Some (fat12_value s c, s2)" "kept12 n s1 s2" "path_buffer s2 = path_buffer s1"
      using read_value_kept [OF ok1, of c] dc(1) kept12_value [OF s1(2)] by (auto simp: data_cluster_def)
    note k = kept12_trans [OF s1(2) s2(2)]
    have sr: "searching n name s2" using searching_kept [OF Cons.prems(1) k] s1(3) s2(3) by simp
    have ch: "chain12 (fat12_value s2) (fat12_value s c) cs" using c(4) kept12_value [OF k] by simp
    have g: "cluster_lba12 s2 = cluster_lba12 s" "\<forall>x\<in>set cs. data_cluster n s2 x" using kept12_geometry [OF k] dc(2) by simp_all
    have f: "\<forall>l\<in>set (map (\<lambda>x. unat (cluster_lba12 s x)) cs). l < n" using data_lba12(2) [OF ok] dc(2) by auto
    obtain s3 where "resolve_dir_loop s2 (fat12_value s c)
        = Some (found_at s2 (find12 (sector (device12 s2)) name (map (\<lambda>x. unat (cluster_lba12 s x)) cs)), s3)"
      "kept12 n s2 s3" "path_buffer s3 = path_buffer s2"
      using Cons.IH [OF sr ch g(2)] unfolding g(1) by blast
    then show ?thesis
      using step s1 s2 None c(1) found_at_kept [OF k f] kept12_trans [OF k] by (intro exI [of _ s3]) simp
  qed
qed

subsection \<open>Finding an entry\<close>

text \<open>The sectors of a directory: the root directory, or a chain of clusters.\<close>

definition root_sectors12 :: "'d FAT12 \<Rightarrow> nat list" where
  "root_sectors12 s = [unat (root_offset12 (partition12 s))..<unat (root_offset12 (partition12 s)) + unat (root_size12 (partition12 s))]"

definition directory12 :: "nat \<Rightarrow> 'd FAT12 \<Rightarrow> FAT_NODE \<Rightarrow> nat list \<Rightarrow> bool" where
  "directory12 n s nd ls \<longleftrightarrow> (if start_low nd = 0
     then ls = root_sectors12 s \<and> unat (root_offset12 (partition12 s)) + unat (root_size12 (partition12 s)) \<le> n
     else \<exists>cs. chain12 (fat12_value s) (ucast (start_low nd)) cs \<and> (\<forall>x\<in>set cs. data_cluster n s x)
       \<and> ls = map (\<lambda>x. unat (cluster_lba12 s x)) cs)"

text \<open>A path component and the name it stands for.\<close>

definition named12 :: "'d FAT12 \<Rightarrow> byte list \<Rightarrow> byte list \<Rightarrow> bool" where
  "named12 s path name \<longleftrightarrow> length name = 11 \<and> name ! 0 \<noteq> 0x20
     \<and> fat_12_stat_resolve_path s path = Some (name @ [0, 0], s\<lparr>path_buffer := name @ [0, 0]\<rparr>)"

lemma find_in_directory_ok:
  assumes s: "fat12_ok n s" "length (node_buffer s) = 1024" and d: "directory12 n s nd ls" and p: "named12 s path name"
  shows "\<exists>s'. find_in_directory s nd path
      = Some (case found_at s (find12 (sector (device12 s)) name ls) of
          None \<Rightarrow> (zero_node, None, s') | Some (e, pos) \<Rightarrow> (e, Some pos, s'))
    \<and> kept12 n s s' \<and> path_buffer s' = name @ [0, 0]"
proof -
  let ?s = "s\<lparr>path_buffer := name @ [0, 0]\<rparr>"
  have sr: "searching n name ?s" using s p by (simp add: searching_def named12_def)
  have k: "kept12 n s ?s" using s(1) by (simp add: kept12_def same_sectors_def)
  have f: "found_at ?s r = found_at s r" for r by (simp add: found_at_def)
  have "\<exists>s'. resolve_in ?s nd = Some (map_option (\<lambda>(nd, pos). (nd, Some pos)) (found_at s (find12 (sector (device12 s)) name ls)), s')
      \<and> kept12 n ?s s' \<and> path_buffer s' = path_buffer ?s"
  proof (cases "start_low nd = 0")
    case True
    have r: "ls = [unat (root_offset12 (partition12 s)) + 0..<unat (root_offset12 (partition12 s)) + unat (root_size12 (partition12 s))]"
      "unat (root_offset12 (partition12 ?s)) + unat (root_size12 (partition12 s)) \<le> n"
      using d True by (simp_all add: directory12_def root_sectors12_def)
    have b: "path_buffer ?s ! 0 \<noteq> 0x20" using p by (simp add: named12_def nth_append)
    obtain s' where "resolve_root_loop ?s (map of_nat [0..<unat (root_size12 (partition12 s))])
        = Some (found_at s (find12 (sector (device12 s)) name ls), s')" "kept12 n ?s s'" "path_buffer s' = path_buffer ?s"
      using resolve_root_loop_ok [OF sr r(2), of 0] unfolding r(1) f by auto
    then show ?thesis using True b by (intro exI [of _ s']) (simp add: resolve_in_def resolve_root_def)
  next
    case False
    then obtain cs where cs: "chain12 (fat12_value s) (ucast (start_low nd)) cs" "\<forall>x\<in>set cs. data_cluster n s x"
      "ls = map (\<lambda>x. unat (cluster_lba12 s x)) cs" using d by (auto simp: directory12_def)
    have c: "chain12 (fat12_value ?s) (ucast (start_low nd)) cs" "\<forall>x\<in>set cs. data_cluster n ?s x" "cluster_lba12 ?s = cluster_lba12 s"
      using cs kept12_geometry [OF k] kept12_value [OF k] by simp_all
    obtain s' where "resolve_dir_loop ?s (ucast (start_low nd)) = Some (found_at s (find12 (sector (device12 s)) name ls), s')"
      "kept12 n ?s s'" "path_buffer s' = path_buffer ?s"
      using resolve_dir_loop_ok [OF sr c(1,2)] unfolding cs(3) c(3) f by auto
    then show ?thesis using False by (intro exI [of _ s']) (simp add: resolve_in_def resolve_dir_def)
  qed
  then obtain s' where "resolve_in ?s nd = Some (map_option (\<lambda>(nd, pos). (nd, Some pos)) (found_at s (find12 (sector (device12 s)) name ls)), s')"
    "kept12 n ?s s'" "path_buffer s' = path_buffer ?s" by blast
  then show ?thesis
    using p kept12_trans [OF k] by (intro exI [of _ s'])
      (auto simp: find_in_directory_def named12_def split: option.split)
qed

text \<open>C31. Looking up a name in the root directory or in a directory of clusters returns the first live
  entry with that name in the first sector that has one, with its sector and index as the
  position, or the empty entry when no sector has one; table and disk stay as they were.\<close>

theorem fat12_find_in_directory_first:
  assumes "fat12_ok n s" "length (node_buffer s) = 1024" "directory12 n s nd ls" "named12 s path name"
  shows "\<exists>s'. find_in_directory s nd path
      = Some (case find12 (sector (device12 s)) name ls of
          None \<Rightarrow> (zero_node, None, s')
        | Some (l, i) \<Rightarrow> (entry_at (sector (device12 s) l) i,
            Some \<lparr>sector_of_position = of_nat l, offset_of_position = of_nat i\<rparr>, s'))
    \<and> fat12_ok n s' \<and> fat12_value s' = fat12_value s \<and> same_sectors n s s'"
proof -
  obtain s' where s': "find_in_directory s nd path
      = Some (case found_at s (find12 (sector (device12 s)) name ls) of
          None \<Rightarrow> (zero_node, None, s') | Some (e, pos) \<Rightarrow> (e, Some pos, s'))" "kept12 n s s'"
    using find_in_directory_ok [OF assms] by blast
  show ?thesis
    using s'(1) s'(2) kept12_value [OF s'(2)] by (intro exI [of _ s'])
      (auto simp: found_at_def kept12_def split: option.split)
qed

end
