(* ===== verification/Fat12_Root.thy ===== *)
theory Fat12_Root
  imports Fat12_Search
begin

text \<open>
  The root directory of a FAT12 volume as an array of entries: adding an entry puts it in the first
  deleted place, or at the end mark, and a search then finds it.
\<close>

subsection \<open>The root directory as an array\<close>

lemma slice_concat:
  assumes "\<forall>l. a \<le> l \<and> l < a + m \<longrightarrow> length (f l) = 512" "q < m"
  shows "take 512 (drop (512 * q) (concat (map f [a..<a + m]))) = f (a + q)"
  using assms
proof (induction q arbitrary: a m)
  case 0
  then show ?case by (simp add: upt_conv_Cons)
next
  case (Suc q)
  have u: "[a..<a + m] = a # [Suc a..<Suc a + (m - 1)]" using Suc.prems(2) by (simp add: upt_conv_Cons)
  have "take 512 (drop (512 * q) (concat (map f [Suc a..<Suc a + (m - 1)]))) = f (Suc a + q)"
    by (rule Suc.IH) (use Suc.prems in auto)
  moreover have "length (f a) = 512" using Suc.prems by simp
  ultimately show ?case unfolding u by (simp add: drop_append)
qed

lemma entry_at_slice:
  assumes "j < 16" "512 * q + 512 \<le> length b"
  shows "entry_at (take 512 (drop (512 * q) b)) j = entry_at b (16 * q + j)"
proof -
  have "32 * j + 32 \<le> 512" using assms(1) by simp
  then have "take 32 (drop (32 * j) (take 512 (drop (512 * q) b))) = take 32 (drop (32 * (16 * q + j)) b)"
    by (simp add: drop_take min_def algebra_simps)
  then show ?thesis by (simp add: entry_at_def bytes_at_def)
qed

lemma upt_shift: "[a..<a + m] = map ((+) a) [0..<m]"
  by (induction m) auto

definition root_entry :: "'d FAT12 \<Rightarrow> nat \<Rightarrow> FAT_NODE" where
  "root_entry s i = entry_at (sector (device12 s) (unat (root_offset12 (partition12 s)) + i div 16)) (i mod 16)"

definition root_len :: "'d FAT12 \<Rightarrow> nat" where
  "root_len s = 16 * unat (root_size12 (partition12 s))"

definition root_ok :: "nat \<Rightarrow> 'd FAT12 \<Rightarrow> bool" where
  "root_ok n s \<longleftrightarrow> fat12_ok n s \<and> 0 < unat (root_size12 (partition12 s)) \<and> unat (root_size12 (partition12 s)) \<le> 255
     \<and> unat (root_offset12 (partition12 s)) + unat (root_size12 (partition12 s)) \<le> n
     \<and> fat12_start s + 2 * fat12_size s \<le> unat (root_offset12 (partition12 s))"

lemma find12_append: "\<forall>l\<in>set xs. search12 (f l) name = None \<Longrightarrow> find12 f name (xs @ ys) = find12 f name ys"
  by (induction xs) auto

lemma find12_root:
  assumes k: "k < root_len s" and b: "\<forall>i<k. filename (root_entry s i) ! 0 \<noteq> 0 \<and> filename (root_entry s i) \<noteq> name"
    and e: "filename (root_entry s k) = name" "name ! 0 \<noteq> 0" "name ! 0 \<noteq> 0xE5"
  shows "find12 (sector (device12 s)) name (root_sectors12 s) = Some (unat (root_offset12 (partition12 s)) + k div 16, k mod 16)"
proof -
  let ?ro = "unat (root_offset12 (partition12 s))" and ?rs = "unat (root_size12 (partition12 s))"
  have q: "k div 16 < ?rs" using k by (simp add: root_len_def div_less_iff_less_mult mult.commute)
  have kk: "16 * (k div 16) + k mod 16 = k" by simp
  have R: "root_entry s (16 * q + j) = entry_at (sector (device12 s) (?ro + q)) j" if "j < 16" for q j
    using that by (simp add: root_entry_def)
  have n: "search12 (sector (device12 s) (?ro + p)) name = None" if "p < k div 16" for p
  proof (rule search12_None, intro allI impI)
    fix i :: nat assume i: "i < 16"
    have "16 * p + i < k" using that i kk by linarith
    then show "filename (entry_at (sector (device12 s) (?ro + p)) i) \<noteq> name" using b R [OF i] by metis
  qed
  have y: "search12 (sector (device12 s) (?ro + k div 16)) name = Some (k mod 16)"
  proof (rule search12_Some)
    show "k mod 16 < 16" by simp
    show "\<forall>i<k mod 16. filename (entry_at (sector (device12 s) (?ro + k div 16)) i) ! 0 \<noteq> 0
        \<and> filename (entry_at (sector (device12 s) (?ro + k div 16)) i) \<noteq> name"
    proof (intro allI impI)
      fix i assume i: "i < k mod 16"
      have m: "k mod 16 < 16" by simp
      have "16 * (k div 16) + i < k" "i < 16" using i m kk by linarith+
      then show "filename (entry_at (sector (device12 s) (?ro + k div 16)) i) ! 0 \<noteq> 0
          \<and> filename (entry_at (sector (device12 s) (?ro + k div 16)) i) \<noteq> name" using b R [of i "k div 16"] by metis
    qed
    show "filename (entry_at (sector (device12 s) (?ro + k div 16)) (k mod 16)) = name" using e(1) by (simp add: root_entry_def)
  qed (use e in simp_all)
  have u: "root_sectors12 s = map ((+) ?ro) ([0..<k div 16] @ k div 16 # [Suc (k div 16)..<?rs])"
    unfolding root_sectors12_def upt_around [OF q, symmetric] by (rule upt_shift)
  have n': "\<forall>l\<in>set (map ((+) ?ro) [0..<k div 16]). search12 (sector (device12 s) l) name = None"
    using n by (auto simp only: set_map image_iff set_upt atLeastLessThan_iff)
  show ?thesis unfolding u map_append find12_append [OF n'] using y by simp
qed

lemma find12_root_None:
  assumes "find12 (sector (device12 s)) name (root_sectors12 s) = None" "e \<le> root_len s" "name ! 0 \<noteq> 0xE5"
    and "\<forall>i<e. filename (root_entry s i) ! 0 \<noteq> 0" "i < e"
  shows "filename (root_entry s i) \<noteq> name"
proof -
  let ?ro = "unat (root_offset12 (partition12 s))"
  have "i < 16 * unat (root_size12 (partition12 s))" using assms(2,5) by (simp add: root_len_def)
  then have m: "?ro + i div 16 \<in> set (root_sectors12 s)"
    by (simp add: root_sectors12_def div_less_iff_less_mult mult.commute)
  have "find12 f name ls = None \<Longrightarrow> l \<in> set ls \<Longrightarrow> search12 (f l) name = None" for f ls l
    by (induction ls) (auto split: option.splits)
  then have n: "search12 (sector (device12 s) (?ro + i div 16)) name = None" using assms(1) m by blast
  have "filename (entry_at (sector (device12 s) (?ro + i div 16)) j) ! 0 \<noteq> 0" if "j \<le> i mod 16" for j
  proof -
    have "i = 16 * (i div 16) + i mod 16" "i mod 16 < 16" by simp_all
    then have "16 * (i div 16) + j < e" "j < 16" using that assms(5) by linarith+
    moreover from this have "filename (root_entry s (16 * (i div 16) + j)) ! 0 \<noteq> 0" using assms(4) by blast
    ultimately show ?thesis by (simp add: root_entry_def)
  qed
  then show ?thesis using search12_NoneD [OF n _ _ assms(3), of "i mod 16"] by (simp add: root_entry_def)
qed

subsection \<open>Adding an entry\<close>

lemma root_scan_ok:
  assumes "\<forall>i\<in>set xs. filename (entry_at R i) ! 0 \<noteq> 0 \<and> filename (entry_at R i) \<noteq> filename nd" "filename (entry_at R e) ! 0 = 0"
  shows "root_scan R nd (xs @ e # ys) p
    = Some (Some (if p = None then find (\<lambda>i. filename (entry_at R i) ! 0 = 0xE5) xs else p, e))"
  using assms by (induction xs arbitrary: p) (auto simp: Let_def)

lemma find_first:
  "case find P [0..<n] of None \<Rightarrow> \<forall>i<n. \<not> P i | Some k \<Rightarrow> k < n \<and> P k \<and> (\<forall>i<k. \<not> P i)"
proof (cases "find P [0..<n]")
  case None
  then have "\<forall>i<n. \<not> P i" unfolding find_None_iff by auto
  then show ?thesis by (simp add: None)
next
  case (Some k)
  then have "k < n \<and> P k \<and> (\<forall>i<k. \<not> P i)" unfolding find_Some_iff by auto
  then show ?thesis by (simp add: Some)
qed

lemma add_node_root_ok:
  assumes r: "root_ok n s" and w: "wf_node nd"
    and e: "e < root_len s" "e < unat (root_entries12 (partition12 s))" "filename (root_entry s e) ! 0 = 0"
      "\<forall>i<e. filename (root_entry s i) ! 0 \<noteq> 0 \<and> filename (root_entry s i) \<noteq> filename nd"
  shows "\<exists>k s'. k \<le> e \<and> (filename (root_entry s k) ! 0 = 0xE5 \<or> k = e)
    \<and> (\<forall>i<k. filename (root_entry s i) ! 0 \<noteq> 0xE5) \<and> add_node_root s nd = Some (1, s') \<and> fat12_ok n s' \<and> table12 s' = table12 s
    \<and> same_rest s s' \<and> fb_changed (FAT_buffer s') = fb_changed (FAT_buffer s)
    \<and> (\<forall>i < root_len s. root_entry s' i = (if i = k then nd else root_entry s i))
    \<and> (\<forall>l<n. l \<notin> set (root_sectors12 s) \<longrightarrow> sector (device12 s') l = sector (device12 s) l)"
proof -
  let ?p = "partition12 s"
  let ?ro = "unat (root_offset12 ?p)" and ?rs = "unat (root_size12 ?p)"
  have ok: "fat12_ok n s" "0 < ?rs" "?rs \<le> 255" "?ro + ?rs \<le> n" "fat12_start s + 2 * fat12_size s \<le> ?ro" using r by (simp_all add: root_ok_def)
  define R where "R = concat (map (sector (device12 s)) [?ro..<?ro + ?rs])"
  have lR: "length R = 512 * ?rs" using length_sectors [OF fat12_okD(1) [OF ok(1)] ok(4)] by (simp add: R_def)
  have RE: "entry_at R i = root_entry s i" if "i < root_len s" for i
  proof -
    have q: "i div 16 < ?rs" using that by (simp add: root_len_def div_less_iff_less_mult mult.commute)
    have "take 512 (drop (512 * (i div 16)) R) = sector (device12 s) (?ro + i div 16)"
      unfolding R_def using good_blocks_length [OF fat12_okD(1) [OF ok(1)]] ok(4) q by (intro slice_concat) auto
    then show ?thesis using entry_at_slice [of "i mod 16" "i div 16" R] q lR by (simp add: root_entry_def)
  qed
  obtain dv where dv: "read12 s (replicate (?rs * 512) 0) (root_size12 ?p) (root_offset12 ?p) = Some (E_DEVICE_OK, R, s\<lparr>device12 := dv\<rparr>)"
    "same_disk n (device12 s) dv"
    unfolding R_def using read12_ok [OF fat12_okD(1) [OF ok(1)] ok(2-4), of "replicate (?rs * 512) 0"] by auto
  let ?s1 = "s\<lparr>device12 := dv\<rparr>"
  have ok1: "fat12_ok n ?s1" "table12 ?s1 = table12 s" using same_disk_ok [OF ok(1) dv(2)] by simp_all
  let ?place = "find (\<lambda>i. filename (entry_at R i) ! 0 = 0xE5) [0..<e]"
  have sc: "root_scan R nd [0..<length R div 32] None = Some (Some (?place, e))"
  proof -
    have "length R div 32 = root_len s" using lR by (simp add: root_len_def)
    then show ?thesis unfolding \<open>length R div 32 = root_len s\<close> upt_around [OF e(1)]
      using e RE by (subst root_scan_ok) auto
  qed
  define k where "k = (case ?place of None \<Rightarrow> e | Some j \<Rightarrow> j)"
  have k: "k \<le> e" "filename (root_entry s k) ! 0 = 0xE5 \<or> k = e" "\<forall>i<k. filename (root_entry s i) ! 0 \<noteq> 0xE5"
    using find_first [where P = "\<lambda>i. filename (entry_at R i) ! 0 = 0xE5" and n = e] RE e(1)
    by (cases ?place; force simp: k_def)+
  have kl: "k < root_len s" using k e by simp
  have pl: "(if ?place = None \<and> e < unat (root_entries12 ?p) then Some e else ?place) = Some k"
    using e(2) by (auto simp: k_def split: option.split)
  let ?R' = "patch R (32 * k) (bytes_of_node nd)"
  have kR: "32 * k + 32 \<le> length R" using kl lR by (simp add: root_len_def)
  have R': "copy_into R (32 * k) (bytes_of_node nd) = Some ?R'" "length ?R' = 512 * ?rs"
    using kR lR length_bytes_of_node [OF w] by (simp_all add: copy_into_Some)
  obtain dv' where wr: "write12 ?s1 ?R' (root_size12 ?p) (root_offset12 ?p) = Some (E_DEVICE_OK, ?s1\<lparr>device12 := dv'\<rparr>)" "good_blocks n dv'"
    "\<forall>j<n. sector dv' j = (if ?ro \<le> j \<and> j < ?ro + ?rs then take 512 (drop (512 * (j - ?ro)) ?R') else sector dv j)"
    using write12_ok [OF fat12_okD(1) [OF ok1(1)] ok(2-4) R'(2)] by auto
  let ?s' = "s\<lparr>device12 := dv'\<rparr>"
  have run: "add_node_root s nd = Some (1, ?s')"
    using dv(1) sc pl R'(1) wr(1) by (simp add: add_node_root_def list_root_def Let_def)
  have out: "sector dv' l = sector (device12 s) l" if "l < n" "l \<notin> set (root_sectors12 s)" for l
    using wr(3) dv(2) that by (auto simp: root_sectors12_def same_disk_def)
  have d: "disk_table ?s' = disk_table s"
    unfolding disk_table_def
    by (intro arg_cong [of _ _ concat] map_cong)
      (use out ok(5) fat12_okD(3,4) [OF ok(1)] in \<open>auto simp: fat12_start_def root_sectors12_def\<close>)
  have t: "table12 ?s' = table12 s" using d by (simp add: table12_def)
  have "fat12_ok n ?s'" using ok(1) wr(2) d t by (simp add: fat12_ok_def fat12_start_def fat12_size_def)
  moreover have "root_entry ?s' i = (if i = k then nd else root_entry s i)" if i: "i < root_len s" for i
  proof -
    have q: "i div 16 < ?rs" using i by (simp add: root_len_def div_less_iff_less_mult mult.commute)
    then have q': "512 * (i div 16) + 512 \<le> length ?R'" using R'(2) by simp
    have "sector dv' (?ro + i div 16) = take 512 (drop (512 * (i div 16)) ?R')" using wr(3) ok(4) q by simp
    then have "root_entry ?s' i = entry_at ?R' i" using entry_at_slice [OF _ q', of "i mod 16"] by (simp add: root_entry_def)
    moreover have "32 * i + 32 \<le> length R" using i lR by (simp add: root_len_def)
    ultimately show ?thesis
      using entry_at_patch_same [OF w kR] entry_at_patch_other [OF w kR, of i] RE [OF i] by auto
  qed
  ultimately show ?thesis using k run t out by (intro exI [of _ k] exI [of _ ?s']) (auto simp: same_rest_def)
qed

end
