(* ===== verification/Fat12_Dir_Theorems.thy ===== *)
theory Fat12_Dir_Theorems
  imports Fat12_Dir Fat32_Name
begin

text \<open>
  Names and directories of the FAT12 driver: the name routine agrees with that of the FAT32 driver on
  names of the form \<open>base.ext\<close>, and searching a directory finds the first entry with the name.
\<close>

subsection \<open>Names\<close>

lemma upper_eq: "(if ch CHR ''a'' \<le> c \<and> c \<le> ch CHR ''z'' then c - 32 else c) = to_upper_case c"
  by (simp add: to_upper_case_def ch_def)

lemma upper_not_zero: "c \<noteq> 0 \<Longrightarrow> to_upper_case c \<noteq> 0"
  by (auto simp: to_upper_case_def ch_def word_le_nat_alt)

lemma upper_not_dot: "c \<noteq> ch CHR ''.'' \<Longrightarrow> to_upper_case c \<noteq> ch CHR ''.''"
proof (cases "ch CHR ''a'' \<le> c \<and> c \<le> ch CHR ''z''")
  case True
  then have "97 \<le> unat c" "unat c \<le> 122" by (simp_all add: ch_def word_le_nat_alt)
  then have "unat (to_upper_case c) = unat c - 32"
    using True unat_sub [of 32 c] by (simp add: to_upper_case_def ch_def word_le_nat_alt)
  then have "unat (to_upper_case c) \<noteq> 46" using \<open>97 \<le> unat c\<close> by simp
  then show ?thesis by (auto simp: ch_def)
next
  case False
  assume "c \<noteq> ch CHR ''.''"
  moreover have "to_upper_case c = c" unfolding to_upper_case_def using False by (simp only: if_False)
  ultimately show ?thesis by simp
qed

lemma upper_dot: "to_upper_case (ch CHR ''.'') = ch CHR ''.''"
  by (simp add: to_upper_case_def ch_def)

lemma upper_image:
  assumes "0 \<notin> set s" "ch CHR ''.'' \<notin> set s"
  shows "0 \<notin> set (map to_upper_case s)" "ch CHR ''.'' \<notin> set (map to_upper_case s)"
proof -
  have z: "0 \<noteq> to_upper_case c" if "c \<in> set s" for c using upper_not_zero [of c] assms(1) that by metis
  have d: "ch CHR ''.'' \<noteq> to_upper_case c" if "c \<in> set s" for c using upper_not_dot [of c] assms(2) that by metis
  show "0 \<notin> set (map to_upper_case s)" "ch CHR ''.'' \<notin> set (map to_upper_case s)"
    unfolding set_map using z d by blast+
qed

lemma str_cpy_size_prefix:
  "0 \<notin> set s \<Longrightarrow> length s \<le> m \<Longrightarrow> length s \<le> length d \<Longrightarrow> str_cpy_size (s @ 0 # r) d m = Some (s @ drop (length s) d)"
proof (induction s arbitrary: d m)
  case Nil
  then show ?case by (cases m) auto
next
  case (Cons c s)
  then show ?case by (cases m; cases d) auto
qed

lemma zero_drop: "(0 :: byte) # drop m (0 # replicate k 0) = replicate (Suc (Suc k - m)) 0"
  by (metis drop_replicate replicate_Suc)

text \<open>The eleven bytes for \<open>base.ext\<close>, and the names they are computed for.\<close>

definition name12 :: "byte list \<Rightarrow> byte list \<Rightarrow> byte list" where
  "name12 base_part ext = map to_upper_case base_part @ replicate (8 - length base_part) blank
     @ map to_upper_case ext @ replicate (3 - length ext) blank"

definition short_name :: "byte list \<Rightarrow> byte list \<Rightarrow> bool" where
  "short_name base_part ext \<longleftrightarrow> base_part \<noteq> [] \<and> length base_part \<le> 8 \<and> 0 \<notin> set base_part \<and> ch CHR ''.'' \<notin> set base_part
     \<and> ext \<noteq> [] \<and> length ext \<le> 3 \<and> 0 \<notin> set ext \<and> ch CHR ''.'' \<notin> set ext"

lemma resolve_short_name:
  assumes short: "short_name base_part ext"
  shows "fat_12_stat_resolve_path s (base_part @ ch CHR ''.'' # ext @ 0 # r)
    = Some (name12 base_part ext @ [0, 0], s\<lparr>path_buffer := name12 base_part ext @ [0, 0]\<rparr>)"
proof -
  let ?dot = "ch CHR ''.''" and ?name = "base_part @ ch CHR ''.'' # ext"
  let ?B = "map to_upper_case base_part" and ?E = "map to_upper_case ext"
  have b: "base_part \<noteq> []" "length base_part \<le> 8" "0 \<notin> set base_part" "?dot \<notin> set base_part"
    and e: "ext \<noteq> []" "length ext \<le> 3" "0 \<notin> set ext" "?dot \<notin> set ext" using short by (simp_all add: short_name_def)
  have nz: "?dot \<noteq> 0" "blank \<noteq> 0" by (simp_all add: ch_def blank_def)
  have z: "0 \<notin> set ?name" using b e nz by auto
  define nm where "nm = ?B @ replicate (8 - length base_part) blank @ ?E @ replicate (3 - length ext) blank"
  have N: "nm = name12 base_part ext" by (simp add: nm_def name12_def)
  have lnm: "length nm = 11" using b(2) e(2) by (simp add: nm_def)
  have n0: "0 \<notin> set nm" using upper_image [OF b(3,4)] upper_image [OF e(3,4)] nz by (auto simp: nm_def simp del: set_map)
  define k where "k = 11 - length base_part - length ext"
  have t1: "str_cpy_size (base_part @ ?dot # ext @ 0 # r) (replicate 13 0) 12 = Some (?name @ 0 # replicate k 0)"
  proof -
    have "12 - (length base_part + length ext) = Suc k" using b(2) e(2) by (simp add: k_def)
    then have "drop (length ?name) (replicate 13 0) = 0 # replicate k (0 :: byte)" by simp
    then show ?thesis using str_cpy_size_prefix [OF z, of 12 "replicate 13 0" r] b(2) e(2) by simp
  qed
  have t2: "str_upper_case (?name @ 0 # replicate k 0) = Some (?B @ ?dot # ?E @ 0 # replicate k 0)"
    using str_upper_case_correct [OF z, of "replicate k 0"] by (simp add: upper_eq upper_dot)
  have zB: "0 \<notin> set (?B @ ?dot # ?E)" using upper_image(1) [OF b(3,4)] upper_image(1) [OF e(3,4)] nz by auto
  have t3: "str_until (?B @ ?dot # ?E @ 0 # replicate k 0) ?dot = Some (length base_part)"
  proof -
    have "\<And>c. c \<in> set ?B \<Longrightarrow> c \<noteq> ?dot" using upper_image(2) [OF b(3,4)] by metis
    then have "takeWhile (\<lambda>c. c \<noteq> ?dot) (?B @ ?dot # ?E) = ?B" by (subst takeWhile_append2) simp_all
    then show ?thesis using str_until_correct [OF zB, of ?dot "replicate k 0"] nz by simp
  qed
  have t4: "str_trail_char (?dot # ?E @ 0 # replicate k 0) ?dot = Some (?E @ 0 # 0 # replicate k 0)"
    using str_trail_char_head [OF upper_image [OF e(3,4)] nz(1)] by simp
  define T where "T = ?B @ replicate (8 - length base_part) blank @ ?E @ replicate (5 - length ext) 0"
  have t5: "(if length base_part < 8
      then do { tl \<leftarrow> str_insert (?E @ 0 # 0 # replicate k 0) blank (of_nat (8 - length base_part)); Some (?B @ tl) }
      else do { tl \<leftarrow> k_memset (drop 8 (?B @ ?E @ 0 # 0 # replicate k 0)) (length base_part - 8) blank;
                Some (take 8 (?B @ ?E @ 0 # 0 # replicate k 0) @ tl) }) = Some T"
  proof (cases "length base_part < 8")
    case True
    have u: "unat (of_nat (8 - length base_part) :: u16) = 8 - length base_part" by (simp add: unat_of_nat take_bit_nat_eq_self)
    have "Suc (Suc k - (8 - length base_part)) = 5 - length ext" using b e True by (simp add: k_def)
    then have "0 # drop (8 - length base_part) (0 # replicate k 0) = replicate (5 - length ext) (0 :: byte)"
      using zero_drop [of "8 - length base_part" k] by simp
    then show ?thesis
      using str_insert_correct [of ?E "of_nat (8 - length base_part)" "0 # replicate k 0" blank] upper_image(1) [OF e(3,4)] u b e True
      by (simp add: T_def k_def)
  next
    case False
    then have l: "length base_part = 8" using b(2) by simp
    have "Suc (Suc k) = 5 - length ext" using e(2) l by (simp add: k_def)
    then have "0 # 0 # replicate k (0 :: byte) = replicate (5 - length ext) 0" by (metis replicate_Suc)
    then show ?thesis using l by (simp add: T_def)
  qed
  have t6: "k_memreplace T 0 blank 11 = Some (nm @ [0, 0])"
  proof -
    have m: "map (\<lambda>c. if c = 0 then blank else c) xs = xs" if "0 \<notin> set xs" for xs :: "byte list"
      using that by (induction xs) auto
    have "5 - length ext = (3 - length ext) + 2" using e(2) by simp
    then have "replicate (5 - length ext) (0 :: byte) = replicate (3 - length ext) 0 @ [0, 0]"
      by (simp only: replicate_add) (simp add: numeral_2_eq_2)
    then have T: "T = (?B @ replicate (8 - length base_part) blank @ ?E @ replicate (3 - length ext) 0) @ [0, 0]"
      by (simp add: T_def)
    have l: "length (?B @ replicate (8 - length base_part) blank @ ?E @ replicate (3 - length ext) 0) = 11" using b(2) e(2) by simp
    show ?thesis unfolding T k_memreplace_zero
      using l m [of ?B] m [of ?E] upper_image(1) [OF b(3,4)] upper_image(1) [OF e(3,4)] nz by (simp add: nm_def)
  qed
  have c: "str_cmp (base_part @ ?dot # ext @ 0 # r) (bytes_of ''..'' @ [0]) = Some 1"
    "str_cmp (base_part @ ?dot # ext @ 0 # r) (bytes_of ''.'' @ [0]) = Some 1"
    using str_cmp_correct [OF z, of "bytes_of ''..''" r "[]"] str_cmp_correct [OF z, of "bytes_of ''.''" r "[]"] b(1,4) nz
    by (cases base_part; auto simp: bytes_of_def ch_def)+
  have p: "plain_name (base_part @ ?dot # ext @ 0 # r) = Some (nm @ [0, 0])"
  proof -
    have td: "take (length base_part) (?B @ xs) = ?B" "drop (length base_part) (?B @ xs) = xs" for xs by simp_all
    show ?thesis
      unfolding plain_name_def t1 t2 t3 t4 td Option.bind.simps Let_def
      using b(1) by (simp only: t5 length_0_conv if_False Option.bind.simps t6 not_False_eq_True simp_thms if_True)
  qed
  have q: "str_cpy (nm @ [0, 0]) (replicate 13 0) = Some (nm @ [0, 0])"
    using str_cpy_correct [OF n0, of "replicate 13 0" "[0]"] lnm by (simp add: drop_replicate numeral_2_eq_2)
  show ?thesis
    unfolding N [symmetric] using c p q by (simp add: fat_12_stat_resolve_path_def)
qed

text \<open>On names \<open>base.ext\<close> the name routine of the FAT12 driver computes the same eleven bytes as
  \<^verbatim>\<open>make_8point3_name\<close> of the FAT32 driver, which \<^verbatim>\<open>path_buffer\<close> then holds.\<close>

theorem fat12_name_agrees_with_fat32:
  assumes short: "short_name base_part ext" and a: "alphanumeric (hd ext)"
  shows "\<exists>name. make_8point3_name (base_part @ ch CHR ''.'' # ext) = Some name
    \<and> fat_12_stat_resolve_path s (base_part @ ch CHR ''.'' # ext @ 0 # r) = Some (name @ [0, 0], s\<lparr>path_buffer := name @ [0, 0]\<rparr>)"
proof -
  let ?dot = "ch CHR ''.''" and ?name = "base_part @ ch CHR ''.'' # ext"
  have b: "length base_part \<le> 8" "?dot \<notin> set base_part" and e: "ext \<noteq> []" "length ext \<le> 3" "?dot \<notin> set ext"
    using short by (simp_all add: short_name_def)
  have sp: "split_dot ?name i \<longleftrightarrow> i = length base_part" if "i < length ?name" for i
  proof
    assume "split_dot ?name i"
    then have d: "?name ! i = ?dot" by (simp add: split_dot_def)
    show "i = length base_part"
    proof (rule ccontr)
      assume "i \<noteq> length base_part"
      then have "?name ! i \<in> set base_part \<union> set ext" using that by (auto simp: nth_append nth_Cons')
      then show False using d b(2) e(3) by auto
    qed
  next
    assume "i = length base_part"
    then show "split_dot ?name i" using e(1) a by (cases ext) (auto simp: split_dot_def nth_append)
  qed
  have ld: "last_dot ?name = length base_part"
  proof -
    have "{i. i < length ?name \<and> split_dot ?name i} = {length base_part}" using sp by fastforce
    moreover have "\<exists>i < length ?name. split_dot ?name i"
      by (rule exI [of _ "length base_part"]) (use sp [of "length base_part"] in simp)
    ultimately show ?thesis by (simp add: last_dot_def)
  qed
  have "name83 ?name = name12 base_part ext" using b(1) e(2) by (simp add: name83_def ld pad_def name12_def blank_def)
  then show ?thesis using make_8point3_name_correct [of ?name] resolve_short_name [OF short] by simp
qed

end
