(* ===== verification/Fat12_Create_Theorems.thy ===== *)
theory Fat12_Create_Theorems
  imports Fat12_Root Fat12_File Fat12_Dir_Theorems
begin

text \<open>
  Creating and removing files in the root directory of a FAT12 volume, end to end: name, search, reservation,
  directory entry.
\<close>

subsection \<open>Paths in the root directory\<close>

text \<open>A name without directories whose entry is not taken for a blank or a deleted one.\<close>

definition plain_path :: "byte list \<Rightarrow> byte list \<Rightarrow> bool" where
  "plain_path base_part ext \<longleftrightarrow> short_name base_part ext \<and> hd base_part \<noteq> blank \<and> hd base_part \<noteq> 0xE5
     \<and> ch CHR ''/'' \<notin> set base_part \<union> set ext"

definition path12 :: "byte list \<Rightarrow> byte list \<Rightarrow> byte list \<Rightarrow> byte list" where
  "path12 base_part ext r = base_part @ ch CHR ''.'' # ext @ 0 # r"

lemma to_upper_hd: "c \<noteq> 0 \<Longrightarrow> c \<noteq> blank \<Longrightarrow> c \<noteq> 0xE5 \<Longrightarrow> to_upper_case c \<noteq> blank \<and> to_upper_case c \<noteq> 0xE5 \<and> to_upper_case c \<noteq> 0"
proof (cases "ch CHR ''a'' \<le> c \<and> c \<le> ch CHR ''z''")
  case True
  then have u: "97 \<le> unat c" "unat c \<le> 122" by (simp_all add: ch_def word_le_nat_alt)
  then have "unat (to_upper_case c) = unat c - 32"
    using True unat_sub [of 32 c] by (simp add: to_upper_case_def ch_def word_le_nat_alt)
  then have "65 \<le> unat (to_upper_case c)" "unat (to_upper_case c) \<le> 90" using u by simp_all
  then show ?thesis by (auto simp: blank_def ch_def)
next
  case False
  assume "c \<noteq> 0" "c \<noteq> blank" "c \<noteq> 0xE5"
  moreover have "to_upper_case c = c" unfolding to_upper_case_def using False by (simp only: if_False)
  ultimately show ?thesis by simp
qed

lemma name12_facts:
  assumes "plain_path base_part ext"
  shows "length (name12 base_part ext) = 11" "name12 base_part ext ! 0 \<noteq> 0x20" "name12 base_part ext ! 0 \<noteq> 0"
    "name12 base_part ext ! 0 \<noteq> 0xE5" "0 \<notin> set (name12 base_part ext)"
proof -
  have s: "base_part \<noteq> []" "length base_part \<le> 8" "0 \<notin> set base_part" "ch CHR ''.'' \<notin> set base_part" "length ext \<le> 3" "0 \<notin> set ext"
    "ch CHR ''.'' \<notin> set ext" "hd base_part \<noteq> blank" "hd base_part \<noteq> 0xE5"
    using assms by (simp_all add: plain_path_def short_name_def)
  show "length (name12 base_part ext) = 11" using s by (simp add: name12_def)
  have h: "name12 base_part ext ! 0 = to_upper_case (hd base_part)" using s(1) by (cases base_part) (simp_all add: name12_def)
  have z: "hd base_part \<noteq> 0" using s(1,3) by (cases base_part) auto
  have b: "blank = 0x20" by (simp add: blank_def ch_def)
  show "name12 base_part ext ! 0 \<noteq> 0x20" "name12 base_part ext ! 0 \<noteq> 0" "name12 base_part ext ! 0 \<noteq> 0xE5"
    using to_upper_hd [OF z s(8,9)] unfolding h b by simp_all
  show "0 \<notin> set (name12 base_part ext)"
    using upper_image(1) [OF s(3,4)] upper_image(1) [OF s(6,7)] b by (auto simp: name12_def simp del: set_map)
qed

lemma named_plain: "plain_path base_part ext \<Longrightarrow> named12 s (path12 base_part ext r) (name12 base_part ext)"
  using resolve_short_name [of base_part ext s r] name12_facts [of base_part ext] by (simp add: named12_def plain_path_def path12_def)

lemma resolve_directories_plain:
  assumes "plain_path base_part ext"
  shows "resolve_directories s (path12 base_part ext r) = Some (root_dir, path12 base_part ext r, s)"
proof -
  let ?n = "base_part @ ch CHR ''.'' # ext"
  have s: "base_part \<noteq> []" "0 \<notin> set base_part" "0 \<notin> set ext" "ch CHR ''/'' \<notin> set base_part" "ch CHR ''/'' \<notin> set ext"
    using assms by (simp_all add: plain_path_def short_name_def)
  have z: "0 \<notin> set ?n" "ch CHR ''/'' \<notin> set ?n" using s by (auto simp: ch_def)
  have "str_until (?n @ 0 # r) (ch CHR ''/'') = Some 0"
    using str_until_correct [OF z(1), of "ch CHR ''/''" r] z(2) by (simp add: ch_def)
  then have l: "resolve_directories_loop s root_dir (path12 base_part ext r) = Some (root_dir, path12 base_part ext r, s)"
    by (subst resolve_directories_loop.simps) (simp add: path12_def)
  obtain c t where "path12 base_part ext r = c # t" "c \<noteq> ch CHR ''/''" using s(1,4) by (cases base_part) (auto simp: path12_def)
  then show ?thesis using l by (simp add: resolve_directories_def)
qed

lemma empty_nodes: "\<not> is_node_empty root_dir" "is_node_empty zero_node"
  by code_simp+

lemma root_dir_low: "start_low root_dir = 0"
  by (simp add: root_dir_def zero_node_def)

lemma directory_root: "root_ok n s \<Longrightarrow> directory12 n s root_dir (root_sectors12 s)"
  by (simp add: directory12_def root_dir_low root_ok_def)

subsection \<open>New entries\<close>

definition new_entry :: "byte list \<Rightarrow> u32 \<Rightarrow> FAT_NODE" where
  "new_entry name c = zero_node\<lparr>filename := name, start_low := ucast c\<rparr>"

lemma wf_new_entry: "length name = 11 \<Longrightarrow> wf_node (new_entry name c)"
  by (simp add: new_entry_def wf_node_def)

lemma fill_new_node:
  assumes "length name = 11" "0 \<notin> set name"
  shows "fill_node zero_node (name @ [0, 0]) 0 c 0 = Some (new_entry name c)"
proof -
  let ?z = "zero_node\<lparr>filename := name\<rparr>"
  have w: "wf_node ?z" using assms by (simp add: wf_node_def)
  have b: "bytes_of_node ?z = name @ drop (length name) (bytes_of_node zero_node)"
    using assms(1) by (simp add: bytes_of_node_def zero_node_def)
  have lz: "length (bytes_of_node zero_node) = 32" using length_bytes_of_node [of zero_node] by (simp add: wf_node_def zero_node_def)
  have cp: "str_cpy (name @ [0, 0]) (bytes_of_node zero_node) = Some (bytes_of_node ?z)"
    using str_cpy_correct [OF assms(2), of "bytes_of_node zero_node" "[0]"] assms(1) lz b by simp
  have m: "map (\<lambda>x. if x = 0 then blank else x) name = name" using assms(2) by (induction name) auto
  have "k_memreplace (bytes_of_node ?z) 0 blank 11 = Some (bytes_of_node ?z)"
    using assms(1) lz m unfolding b by (simp add: k_memreplace_zero)
  then show ?thesis
    using cp w by (simp add: fill_node_def node_of_bytes_of_node new_entry_def zero_node_def)
qed

lemma new_entry_vfs:
  assumes "length name = 11" "0 \<notin> set name" "unat c < 1024"
  shows "fat_to_vfs (new_entry name c) pos = Some (Some \<lparr>vn_size = 0, FS_reference = c, vn_type = FILE12, vn_position = pos, vn_name = name\<rparr>)"
proof -
  have "str_cpy_size name (replicate (length name) 0) (length name) = Some name" if "0 \<notin> set name" for name :: "byte list"
    using that by (induction name) auto
  then have "str_cpy_size name (replicate 11 0) 11 = Some name" using assms(1,2) by metis
  moreover have "(ucast (ucast c :: u16) :: u32) = c"
  proof (rule bit_word_eqI)
    fix i assume "i < LENGTH(32)"
    have "unat (take_bit 10 c) = unat c" using assms(3) by (simp add: unsigned_take_bit_eq take_bit_nat_eq_self)
    then have "take_bit 10 c = c" by (simp only: unat_inj_u32)
    then have "\<not> bit c i" if "10 \<le> i" using that bit_take_bit_iff [of 10 c i] by simp
    then show "bit (ucast (ucast c :: u16) :: u32) i = bit c i" by (cases "i < 10") (auto simp: bit_simps)
  qed
  ultimately show ?thesis by (simp add: fat_to_vfs_def new_entry_def zero_node_def is_dir12_def)
qed

subsection \<open>Creating a file\<close>

text \<open>A sector written outside the tables.\<close>

lemma write12_kept:
  assumes s: "fat12_ok n s" and l: "unat lba < n" "\<not> in_tables s (unat lba)" and b: "length buf = 512"
  shows "\<exists>s'. write12 s buf 1 lba = Some (E_DEVICE_OK, s') \<and> fat12_ok n s' \<and> table12 s' = table12 s \<and> same_rest s s'
    \<and> FAT_buffer s' = FAT_buffer s \<and> (\<forall>k<n. sector (device12 s') k = (if k = unat lba then buf else sector (device12 s) k))"
proof -
  have l1: "unat lba + unat (1 :: u32) \<le> n" using l by simp
  obtain dv where w: "write12 s buf 1 lba = Some (E_DEVICE_OK, s\<lparr>device12 := dv\<rparr>)" "good_blocks n dv"
    "\<forall>k<n. sector dv k = (if unat lba \<le> k \<and> k < unat lba + unat (1 :: u32) then take 512 (drop (512 * (k - unat lba)) buf)
       else sector (device12 s) k)"
    using write12_ok [OF fat12_okD(1) [OF s] _ _ l1, of buf] b by auto
  have sec: "\<forall>k<n. sector dv k = (if k = unat lba then buf else sector (device12 s) k)" using w(3) b by auto
  let ?s = "s\<lparr>device12 := dv\<rparr>"
  have "disk_table ?s = disk_table s"
    unfolding disk_table_def by (intro arg_cong [of _ _ concat] map_cong)
      (use sec l fat12_okD(3,4) [OF s] in \<open>auto simp: fat12_start_def in_tables_def\<close>)
  moreover from this have "table12 ?s = table12 s" by (simp add: table12_def)
  ultimately show ?thesis using s w(1,2) sec
    by (intro exI [of _ ?s]) (simp add: fat12_ok_def fat12_start_def fat12_size_def same_rest_def)
qed

definition opened12 :: "byte list \<Rightarrow> u32 \<Rightarrow> NODE12 \<Rightarrow> bool" where
  "opened12 name c v \<longleftrightarrow> vn_size v = 0 \<and> FS_reference v = c \<and> vn_type v = FILE12 \<and> vn_name v = name"

text \<open>Opening a file whose entry is the first with its name.\<close>

lemma open_root_file:
  assumes s: "root_ok n s" "length (node_buffer s) = 1024" and p: "plain_path base_part ext"
    and k: "k < root_len s" "\<forall>i<k. filename (root_entry s i) ! 0 \<noteq> 0 \<and> filename (root_entry s i) \<noteq> name12 base_part ext"
      "root_entry s k = new_entry (name12 base_part ext) c" "unat c < 1024"
  shows "\<exists>v s'. fat12_open_file s (path12 base_part ext r) = Some (Some v, s') \<and> opened12 (name12 base_part ext) c v \<and> kept12 n s s'
    \<and> vn_position v = Some \<lparr>sector_of_position = of_nat (unat (root_offset12 (partition12 s)) + k div 16), offset_of_position = of_nat (k mod 16)\<rparr>"
proof -
  note nm = name12_facts [OF p]
  have ok: "fat12_ok n s" using s(1) by (simp add: root_ok_def)
  have f: "find12 (sector (device12 s)) (name12 base_part ext) (root_sectors12 s) = Some (unat (root_offset12 (partition12 s)) + k div 16, k mod 16)"
    using find12_root [OF k(1,2) _ nm(3,4)] k(3) by (simp add: new_entry_def)
  let ?pos = "\<lparr>sector_of_position = of_nat (unat (root_offset12 (partition12 s)) + k div 16), offset_of_position = of_nat (k mod 16)\<rparr>"
  obtain s' where s': "find_in_directory s root_dir (path12 base_part ext r) = Some (new_entry (name12 base_part ext) c, Some ?pos, s')" "kept12 n s s'"
    using find_in_directory_ok [OF ok s(2) directory_root [OF s(1)] named_plain [OF p]] k(3) unfolding f
    by (auto simp: found_at_def root_entry_def)
  have nd: "\<not> is_dir12 (new_entry (name12 base_part ext) c)" by (simp add: is_dir12_def new_entry_def zero_node_def)
  show ?thesis
    using resolve_directories_plain [OF p, of s r] empty_nodes(1) s' nd new_entry_vfs [OF nm(1,5) k(4), of "Some ?pos"]
    by (simp add: fat12_open_file_def opened12_def)
qed

text \<open>C26. Creating a file under a new name in the root directory, with a free cluster left and an end
  mark in the directory, succeeds: the first free cluster is taken and cleared, the entry goes to
  the first place of the directory that is deleted or the end mark, all other entries stay as they
  are, so do the other clusters and sectors, and opening
  the same path yields a file of size 0 that starts at this cluster.\<close>

theorem fat12_create_then_open:
  assumes r: "root_ok n s" "length (node_buffer s) = 1024" "unat (root_offset12 (partition12 s)) + unat (root_size12 (partition12 s)) \<le> data_start12 s"
    and p: "plain_path base_part ext" "find12 (sector (device12 s)) (name12 base_part ext) (root_sectors12 s) = None"
    and e: "e < root_len s" "e < unat (root_entries12 (partition12 s))" "filename (root_entry s e) ! 0 = 0"
      "\<forall>i<e. filename (root_entry s i) ! 0 \<noteq> 0"
    and c: "m \<le> 1024" "m \<le> unat (sectors12 (partition12 s)) + 1" "free_clusters12 s m = c # cs" "data_cluster n s c"
  shows "\<exists>s'. fat12_create_file s (path12 base_part ext q) = Some (0, s') \<and> fat12_ok n s'
    \<and> fat12_value s' c = 0xFFF \<and> (\<forall>x. unat x < 1024 \<and> x \<noteq> c \<longrightarrow> fat12_value s' x = fat12_value s x)
    \<and> data12 s' c = replicate 512 0
    \<and> (\<exists>k\<le>e. (filename (root_entry s k) ! 0 = 0xE5 \<or> filename (root_entry s k) ! 0 = 0)
        \<and> (\<forall>i<k. filename (root_entry s i) ! 0 \<noteq> 0xE5 \<and> filename (root_entry s i) ! 0 \<noteq> 0)
        \<and> (\<forall>i < root_len s. root_entry s' i = (if i = k then new_entry (name12 base_part ext) c else root_entry s i)))
    \<and> (\<forall>l<n. \<not> in_tables s l \<and> l \<notin> set (root_sectors12 s) \<and> l \<noteq> unat (cluster_lba12 s c) \<longrightarrow> sector (device12 s') l = sector (device12 s) l)
    \<and> (\<exists>v s''. fat12_open_file s' (path12 base_part ext q) = Some (Some v, s'') \<and> opened12 (name12 base_part ext) c v)"
proof -
  let ?name = "name12 base_part ext" and ?ro = "unat (root_offset12 (partition12 s))" and ?rs = "unat (root_size12 (partition12 s))"
  note nm = name12_facts [OF p(1)]
  have ok: "fat12_ok n s" "?ro + ?rs \<le> n" "fat12_start s + 2 * fat12_size s \<le> ?ro" using r(1) by (simp_all add: root_ok_def)
  obtain s1 where s1: "find_in_directory s root_dir (path12 base_part ext q) = Some (zero_node, None, s1)"
    "kept12 n s s1" "path_buffer s1 = ?name @ [0, 0]"
    using find_in_directory_ok [OF ok(1) r(2) directory_root [OF r(1)] named_plain [OF p(1)]] p(2) by (auto simp: found_at_def)
  have k1: "fat12_ok n s1" "partition12 s1 = partition12 s" "fat12_value s1 = fat12_value s" "same_sectors n s s1" "length (node_buffer s1) = 1024"
    using s1(2) kept12_value [OF s1(2)] r(2) by (simp_all add: kept12_def)
  have free1: "free_clusters12 s1 m = c # cs" using c(3) k1(3) by (simp add: free_clusters12_def)
  have m2: "2 \<le> m" using c(3) by (cases "2 \<le> m") (auto simp: free_clusters12_def)
  have c1: "0 < unat (1 :: u32)" "unat (1 :: u32) \<le> length (free_clusters12 s1 m)" "m \<le> unat (sectors12 (partition12 s1)) + 1"
    using free1 c(2) k1(2) by simp_all
  obtain s2 where s2: "reserve_chain s1 1 = Some (Some [c, 0xFFF], s2)" "fat12_ok n s2" "fat12_value s2 c = 0xFFF"
    "\<forall>x. unat x < 1024 \<and> x \<noteq> c \<longrightarrow> fat12_value s2 x = fat12_value s1 x" "same_rest s1 s2"
    "\<forall>j<n. \<not> in_tables s1 j \<longrightarrow> sector (device12 s2) j = sector (device12 s1) j"
    using reserve_chain_ok [OF k1(1) c(1) m2 c1(3) c1(1,2)] unfolding free1 by auto
  have g: "in_tables s1 = in_tables s" "in_tables s2 = in_tables s" "partition12 s2 = partition12 s" "cluster_lba12 s2 = cluster_lba12 s"
    using k1(2) s2(5) by (simp_all add: in_tables_def fat12_start_def fat12_size_def same_rest_def cluster_lba12_def fun_eq_iff)
  have o2: "sector (device12 s2) l = sector (device12 s) l" if "l < n" "\<not> in_tables s l" for l
    using that s2(6) k1(4) g by (simp add: same_sectors_def)
  note L = data_lba12 [OF ok(1) c(4)]
  have dc: "data_start12 s \<le> unat (cluster_lba12 s c)" using L(1) c(4) unfolding data_cluster_def by linarith
  obtain s3 where s3: "write12 s2 (replicate 512 0) 1 (cluster_lba12 s c) = Some (E_DEVICE_OK, s3)" "fat12_ok n s3" "table12 s3 = table12 s2"
    "same_rest s2 s3" "\<forall>k<n. sector (device12 s3) k = (if k = unat (cluster_lba12 s c) then replicate 512 0 else sector (device12 s2) k)"
    using write12_kept [OF s2(2), of "cluster_lba12 s c" "replicate 512 0"] L(2,3) g(2) by auto
  have fc: "fill_chain s2 [c, 0xFFF] 1 (replicate 512 0) = Some s3"
  proof -
    have "data_offset12 (partition12 s) - 2 + c = cluster_lba12 s c" by (simp add: cluster_lba12_def)
    then show ?thesis using s3(1) g(3) by (simp add: fill_chain_def)
  qed
  have p3: "partition12 s3 = partition12 s" "path_buffer s3 = ?name @ [0, 0]" "length (node_buffer s3) = 1024"
    using g(3) s3(4) s2(5) s1(3) k1(5) by (simp_all add: same_rest_def)
  have g3: "root_len s3 = root_len s" "root_sectors12 s3 = root_sectors12 s" "data_start12 s3 = data_start12 s"
    by (simp_all add: root_len_def root_sectors12_def data_start12_def p3(1))
  have e3: "root_entry s3 i = root_entry s i" if "i < root_len s" for i
  proof -
    have "i div 16 < ?rs" using that by (simp add: root_len_def div_less_iff_less_mult mult.commute)
    then have "?ro + i div 16 < n" "\<not> in_tables s (?ro + i div 16)" "?ro + i div 16 \<noteq> unat (cluster_lba12 s c)"
      using ok(2,3) r(3) dc by (auto simp: in_tables_def)
    then show ?thesis using s3(5) o2 by (simp add: root_entry_def p3(1))
  qed
  have r3: "root_ok n s3" using r(1) s3(2) p3(1) by (simp add: root_ok_def fat12_start_def fat12_size_def)
  have fresh: "filename (root_entry s i) \<noteq> ?name" if "i < e" for i
    using find12_root_None [OF p(2) _ nm(4) e(4) that] e(1) by simp
  have E: "e < root_len s3" "e < unat (root_entries12 (partition12 s3))" "filename (root_entry s3 e) ! 0 = 0"
    "\<forall>i<e. filename (root_entry s3 i) ! 0 \<noteq> 0 \<and> filename (root_entry s3 i) \<noteq> filename (new_entry ?name c)"
    using e fresh e3 p3(1) g3(1) by (simp_all add: new_entry_def)
  obtain k s4 where s4: "k \<le> e" "add_node_root s3 (new_entry ?name c) = Some (1, s4)" "fat12_ok n s4" "table12 s4 = table12 s3" "same_rest s3 s4"
    "\<forall>i < root_len s3. root_entry s4 i = (if i = k then new_entry ?name c else root_entry s3 i)"
    "\<forall>l<n. l \<notin> set (root_sectors12 s3) \<longrightarrow> sector (device12 s4) l = sector (device12 s3) l"
    "filename (root_entry s3 k) ! 0 = 0xE5 \<or> k = e" "\<forall>i<k. filename (root_entry s3 i) ! 0 \<noteq> 0xE5"
    using add_node_root_ok [OF r3 wf_new_entry [OF nm(1)] E] by blast
  have p4: "partition12 s4 = partition12 s" "length (node_buffer s4) = 1024" using s4(5) p3 by (simp_all add: same_rest_def)
  have v: "fat12_value s4 = fat12_value s2" using value_cong [OF s4(4)] value_cong [OF s3(3)] by simp
  have run: "fat12_create_file s (path12 base_part ext q) = Some (0, s4)"
    using resolve_directories_plain [OF p(1), of s q] empty_nodes s1(1) s2(1) fc fill_new_node [OF nm(1,5), of c] s4(2) p3(2) s3(4)
    by (simp add: fat12_create_file_def add_node_def root_dir_low same_rest_def)
  have entries: "root_entry s4 i = (if i = k then new_entry ?name c else root_entry s i)" if "i < root_len s" for i
    using s4(6) that g3(1) e3 by simp
  have r4: "root_ok n s4" using r(1) s4(3) p4(1) by (simp add: root_ok_def fat12_start_def fat12_size_def)
  have g4: "root_len s4 = root_len s" "data_start12 s4 = data_start12 s" by (simp_all add: root_len_def data_start12_def p4(1))
  have c4: "unat c < 1024" using c(4) by (simp add: data_cluster_def)
  have o4: "filename (root_entry s4 i) ! 0 \<noteq> 0 \<and> filename (root_entry s4 i) \<noteq> ?name" if "i < k" for i
    using entries [of i] that s4(1) e(1,4) fresh by simp
  have "\<exists>v s''. fat12_open_file s4 (path12 base_part ext q) = Some (Some v, s'') \<and> opened12 ?name c v"
    using open_root_file [OF r4 p4(2) p(1), of k c q] o4 entries [of k] s4(1) e(1) g4(1) c4 by auto
  moreover have "data12 s4 c = replicate 512 0"
  proof -
    have "unat (cluster_lba12 s c) \<notin> set (root_sectors12 s3)" using dc r(3) g3(2) by (simp add: root_sectors12_def)
    then show ?thesis using s4(7) s3(5) L by (simp add: data12_def g4(2))
  qed
  moreover have "sector (device12 s4) l = sector (device12 s) l"
    if "l < n" "\<not> in_tables s l" "l \<notin> set (root_sectors12 s)" "l \<noteq> unat (cluster_lba12 s c)" for l
    using that s4(7) s3(5) o2 g3(2) by simp
  moreover have "\<forall>x. unat x < 1024 \<and> x \<noteq> c \<longrightarrow> fat12_value s4 x = fat12_value s x" using v s2(4) k1(3) by simp
  moreover have "(filename (root_entry s k) ! 0 = 0xE5 \<or> filename (root_entry s k) ! 0 = 0)
      \<and> (\<forall>i<k. filename (root_entry s i) ! 0 \<noteq> 0xE5 \<and> filename (root_entry s i) ! 0 \<noteq> 0)"
    using s4(1,8,9) e3 e(1,3,4) by auto
  ultimately show ?thesis using run s4(1,3) s2(3) v entries by (intro exI [of _ s4]) auto
qed

end
