(* ===== verification/Fat12_Remove_Theorems.thy ===== *)
theory Fat12_Remove_Theorems
  imports Fat12_Create_Theorems
begin

text \<open>
  Removing files of the root directory of a FAT12 volume: the entry is marked as deleted, and that
  is all; the clusters of the file stay reserved.
\<close>

subsection \<open>One sector\<close>

definition deleted_entry :: FAT_NODE where
  "deleted_entry = zero_node\<lparr>filename := 0xE5 # replicate 10 0\<rparr>"

lemma deleted_entry_bytes: "bytes_of_node deleted_entry = 0xE5 # replicate 31 0" "wf_node deleted_entry"
  by code_simp+

lemma remove_entry_ok:
  assumes "\<forall>i\<in>set xs. filename (entry_at nodes i) \<noteq> take 11 name" "filename (entry_at nodes j) = take 11 name"
  shows "remove_entry nodes name (xs @ j # ys) = Some (patch nodes (32 * j) (bytes_of_node deleted_entry))"
  using assms by (induction xs) (auto simp: deleted_entry_bytes)

lemma remove_entry_none:
  "\<forall>i\<in>set xs. filename (entry_at nodes i) \<noteq> take 11 name \<Longrightarrow> remove_entry nodes name xs = None"
  by (induction xs) auto

lemma read12_kept:
  assumes s: "fat12_ok n s" and l: "unat lba < n"
  shows "\<exists>s'. read12 s (replicate 512 0) 1 lba = Some (E_DEVICE_OK, sector (device12 s) (unat lba), s') \<and> kept12 n s s' \<and> same_rest s s'
    \<and> FAT_buffer s' = FAT_buffer s"
proof -
  have l1: "unat lba + unat (1 :: u32) \<le> n" using l by simp
  obtain dv where "read12 s (replicate 512 0) 1 lba = Some (E_DEVICE_OK, sector (device12 s) (unat lba), s\<lparr>device12 := dv\<rparr>)"
    "same_disk n (device12 s) dv"
    using read12_ok [OF fat12_okD(1) [OF s] _ _ l1, of "replicate 512 0"] by auto
  then show ?thesis using kept12_device [OF s] by (intro exI [of _ "s\<lparr>device12 := dv\<rparr>"]) (simp add: same_rest_def)
qed

lemma remove_in_sector_none:
  assumes s: "fat12_ok n s" and l: "unat lba < n" and e: "\<forall>i<16. filename (entry_at (sector (device12 s) (unat lba)) i) \<noteq> take 11 name"
  shows "\<exists>s'. remove_in_sector s name lba = Some (None, s') \<and> kept12 n s s' \<and> same_rest s s'"
proof -
  have "remove_entry (sector (device12 s) (unat lba)) name [0..<16] = None"
    by (rule remove_entry_none) (use e in \<open>auto simp del: upt_rec_numeral\<close>)
  then show ?thesis using read12_kept [OF s l] by (auto simp: remove_in_sector_def simp del: upt_rec_numeral)
qed

lemma remove_in_sector_ok:
  assumes s: "fat12_ok n s" and l: "unat lba < n" "\<not> in_tables s (unat lba)" and j: "j < 16"
    and e: "filename (entry_at (sector (device12 s) (unat lba)) j) = take 11 name"
      "\<forall>i<j. filename (entry_at (sector (device12 s) (unat lba)) i) \<noteq> take 11 name"
  shows "\<exists>s'. remove_in_sector s name lba = Some (Some E_DEVICE_OK, s') \<and> fat12_ok n s' \<and> table12 s' = table12 s \<and> same_rest s s'
    \<and> (\<forall>k<n. sector (device12 s') k = (if k = unat lba
         then patch (sector (device12 s) k) (32 * j) (bytes_of_node deleted_entry) else sector (device12 s) k))"
proof -
  let ?sec = "sector (device12 s) (unat lba)"
  let ?n = "patch ?sec (32 * j) (bytes_of_node deleted_entry)"
  have L: "length ?sec = 512" using good_blocks_length [OF fat12_okD(1) [OF s] l(1)] .
  have re: "remove_entry ?sec name [0..<16] = Some ?n"
    unfolding upt_around [OF j] by (rule remove_entry_ok) (use e in auto)
  obtain s1 where s1: "read12 s (replicate 512 0) 1 lba = Some (E_DEVICE_OK, ?sec, s1)" "kept12 n s s1" "same_rest s s1"
    using read12_kept [OF s l(1)] by blast
  have k1: "fat12_ok n s1" "in_tables s1 = in_tables s" "table12 s1 = table12 s"
    using s1(2) kept12_geometry [OF s1(2)] by (simp_all add: kept12_def in_tables_def fun_eq_iff)
  have L': "length ?n = 512" using L j length_bytes_of_node [OF deleted_entry_bytes(2)] by simp
  obtain s2 where s2: "write12 s1 ?n 1 lba = Some (E_DEVICE_OK, s2)" "fat12_ok n s2" "table12 s2 = table12 s1" "same_rest s1 s2"
    "\<forall>k<n. sector (device12 s2) k = (if k = unat lba then ?n else sector (device12 s1) k)"
    using write12_kept [OF k1(1) l(1) _ L'] l(2) k1(2) by auto
  have "remove_in_sector s name lba = Some (Some E_DEVICE_OK, s2)" using s1(1) re s2(1) by (simp add: remove_in_sector_def del: upt_rec_numeral)
  then show ?thesis using s2 k1(3) same_rest_trans [OF s1(3) s2(4)] s1(2) by (intro exI [of _ s2]) (simp add: kept12_def same_sectors_def)
qed

subsection \<open>The root directory\<close>

lemma remove_root_loop_ok:
  assumes r: "root_ok n s" and k: "k < root_len s" "a \<le> k div 16" "filename (root_entry s k) = take 11 name"
      "\<forall>i<k. filename (root_entry s i) \<noteq> take 11 name"
  shows "\<exists>s'. remove_root_loop s name (map of_nat [a..<unat (root_size12 (partition12 s))]) = Some (Some E_DEVICE_OK, s')
    \<and> fat12_ok n s' \<and> table12 s' = table12 s \<and> partition12 s' = partition12 s
    \<and> node_buffer s' = node_buffer s
    \<and> (\<forall>l<n. sector (device12 s') l = (if l = unat (root_offset12 (partition12 s)) + k div 16
         then patch (sector (device12 s) l) (32 * (k mod 16)) (bytes_of_node deleted_entry) else sector (device12 s) l))"
  using assms
proof (induction "k div 16 - a" arbitrary: a s)
  case (0 a s)
  let ?ro = "unat (root_offset12 (partition12 s))" and ?rs = "unat (root_size12 (partition12 s))"
  have ok: "fat12_ok n s" "?ro + ?rs \<le> n" "fat12_start s + 2 * fat12_size s \<le> ?ro" using 0(2) by (simp_all add: root_ok_def)
  have a: "a = k div 16" using 0 by simp
  have q: "k div 16 < ?rs" using 0(3) by (simp add: root_len_def div_less_iff_less_mult mult.commute)
  have u: "unat (root_offset12 (partition12 s) + of_nat (k div 16)) = ?ro + k div 16"
    using q ok(2) fat12_okD(2) [OF ok(1)] by (simp add: unat_add_u32 unat_of_nat_u32)
  have e: "filename (entry_at (sector (device12 s) (?ro + k div 16)) (k mod 16)) = take 11 name"
    "\<forall>i<k mod 16. filename (entry_at (sector (device12 s) (?ro + k div 16)) i) \<noteq> take 11 name"
  proof -
    show "filename (entry_at (sector (device12 s) (?ro + k div 16)) (k mod 16)) = take 11 name" using 0(5) by (simp add: root_entry_def)
    show "\<forall>i<k mod 16. filename (entry_at (sector (device12 s) (?ro + k div 16)) i) \<noteq> take 11 name"
    proof (intro allI impI)
      fix i assume i: "i < k mod 16"
      have "16 * (k div 16) + k mod 16 = k" "k mod 16 < 16" by simp_all
      then have "16 * (k div 16) + i < k" "i < 16" using i by linarith+
      moreover from this have "root_entry s (16 * (k div 16) + i) = entry_at (sector (device12 s) (?ro + k div 16)) i" by (simp add: root_entry_def)
      ultimately show "filename (entry_at (sector (device12 s) (?ro + k div 16)) i) \<noteq> take 11 name" using 0(6) by metis
    qed
  qed
  have l: "unat (root_offset12 (partition12 s) + of_nat (k div 16)) < n" "\<not> in_tables s (unat (root_offset12 (partition12 s) + of_nat (k div 16)))"
    using u q ok by (auto simp: in_tables_def)
  have m: "k mod 16 < 16" by simp
  obtain s' where s': "remove_in_sector s name (root_offset12 (partition12 s) + of_nat (k div 16)) = Some (Some E_DEVICE_OK, s')"
    "fat12_ok n s'" "table12 s' = table12 s" "same_rest s s'"
    "\<forall>l<n. sector (device12 s') l = (if l = ?ro + k div 16
         then patch (sector (device12 s) l) (32 * (k mod 16)) (bytes_of_node deleted_entry) else sector (device12 s) l)"
    using remove_in_sector_ok [OF ok(1) l m] e unfolding u by blast
  have d: "[a..<?rs] = k div 16 # [Suc a..<?rs]" using q a by (simp add: upt_conv_Cons)
  show ?case using s' unfolding d by (intro exI [of _ s']) (simp add: same_rest_def)
next
  case (Suc x a s)
  let ?ro = "unat (root_offset12 (partition12 s))" and ?rs = "unat (root_size12 (partition12 s))"
  have ok: "fat12_ok n s" "?ro + ?rs \<le> n" using Suc(3) by (simp_all add: root_ok_def)
  have a: "a < k div 16" "x = k div 16 - Suc a" "Suc a \<le> k div 16" using Suc(2) by simp_all
  have "k div 16 < ?rs" using Suc(4) by (simp add: root_len_def div_less_iff_less_mult mult.commute)
  then have q: "a < ?rs" using a(1) by (rule less_trans [rotated])
  have u: "unat (root_offset12 (partition12 s) + of_nat a) = ?ro + a"
    using q ok(2) fat12_okD(2) [OF ok(1)] by (simp add: unat_add_u32 unat_of_nat_u32)
  have l: "unat (root_offset12 (partition12 s) + of_nat a) < n" using u q ok(2) by simp
  have e: "\<forall>i<16. filename (entry_at (sector (device12 s) (unat (root_offset12 (partition12 s) + of_nat a))) i) \<noteq> take 11 name"
  proof (intro allI impI)
    fix i :: nat assume i: "i < 16"
    have "16 * (k div 16) \<le> k" "Suc a \<le> k div 16" using a by simp_all
    then have "16 * a + i < k" using i by linarith
    moreover have "root_entry s (16 * a + i) = entry_at (sector (device12 s) (?ro + a)) i" using i by (simp add: root_entry_def)
    ultimately show "filename (entry_at (sector (device12 s) (unat (root_offset12 (partition12 s) + of_nat a))) i) \<noteq> take 11 name"
      using Suc(7) unfolding u by metis
  qed
  obtain s1 where s1: "remove_in_sector s name (root_offset12 (partition12 s) + of_nat a) = Some (None, s1)" "kept12 n s s1" "same_rest s s1"
    using remove_in_sector_none [OF ok(1) l e] by blast
  have p: "partition12 s1 = partition12 s" "node_buffer s1 = node_buffer s" using s1(3) by (simp_all add: same_rest_def)
  have r1: "root_ok n s1" using Suc(3) s1(2) p by (simp add: root_ok_def kept12_def fat12_start_def fat12_size_def)
  have sec: "sector (device12 s1) j = sector (device12 s) j" if "j < n" for j using s1(2) that by (simp add: kept12_def same_sectors_def)
  have en: "root_entry s1 i = root_entry s i" if "i < root_len s" for i
  proof -
    have "i div 16 < ?rs" using that by (simp add: root_len_def div_less_iff_less_mult mult.commute)
    then show ?thesis using sec ok(2) p(1) by (simp add: root_entry_def)
  qed
  have g: "root_len s1 = root_len s" by (simp add: root_len_def p(1))
  have K: "k < root_len s1" "filename (root_entry s1 k) = take 11 name" "\<forall>i<k. filename (root_entry s1 i) \<noteq> take 11 name"
    using Suc(4,6,7) en g by (simp_all add: less_trans)
  obtain s' where s': "remove_root_loop s1 name (map of_nat [Suc a..<?rs]) = Some (Some E_DEVICE_OK, s')"
    "fat12_ok n s'" "table12 s' = table12 s1" "partition12 s' = partition12 s1" "node_buffer s' = node_buffer s1"
    "\<forall>l<n. sector (device12 s') l = (if l = ?ro + k div 16
         then patch (sector (device12 s1) l) (32 * (k mod 16)) (bytes_of_node deleted_entry) else sector (device12 s1) l)"
    using Suc(1) [OF a(2) r1 K(1) a(3) K(2,3)] unfolding p by blast
  have d: "[a..<?rs] = a # [Suc a..<?rs]" using q by (simp add: upt_conv_Cons)
  show ?case using s' s1 sec p unfolding d by (intro exI [of _ s']) (simp add: kept12_def)
qed

text \<open>C32. Removing a file of the root directory replaces its entry by a deleted one and leaves every other
  entry, every cluster value and every other sector as it was: the clusters of the file are not
  freed. If no other entry has the name, looking it up then fails.\<close>

theorem fat12_remove_file_marks_entry:
  assumes r: "root_ok n s" "length (node_buffer s) = 1024" and p: "plain_path base_part ext"
    and k: "k < root_len s" "filename (root_entry s k) = name12 base_part ext" "\<not> is_dir12 (root_entry s k)"
      "\<forall>i<k. filename (root_entry s i) ! 0 \<noteq> 0 \<and> filename (root_entry s i) \<noteq> name12 base_part ext"
  shows "\<exists>s'. fat12_remove_file s (path12 base_part ext q) = Some (0, s') \<and> fat12_ok n s' \<and> fat12_value s' = fat12_value s
    \<and> (\<forall>i < root_len s. root_entry s' i = (if i = k then deleted_entry else root_entry s i))
    \<and> (\<forall>l<n. l \<noteq> unat (root_offset12 (partition12 s)) + k div 16 \<longrightarrow> sector (device12 s') l = sector (device12 s) l)
    \<and> ((\<forall>i < root_len s. i \<noteq> k \<longrightarrow> filename (root_entry s i) \<noteq> name12 base_part ext)
        \<longrightarrow> find12 (sector (device12 s')) (name12 base_part ext) (root_sectors12 s') = None)"
proof -
  let ?name = "name12 base_part ext" and ?ro = "unat (root_offset12 (partition12 s))" and ?rs = "unat (root_size12 (partition12 s))"
  note nm = name12_facts [OF p]
  have ok: "fat12_ok n s" "?ro + ?rs \<le> n" using r(1) by (simp_all add: root_ok_def)
  have f: "find12 (sector (device12 s)) ?name (root_sectors12 s) = Some (?ro + k div 16, k mod 16)"
    using find12_root [OF k(1,4,2) nm(3,4)] .
  obtain pos s1 where s1: "find_in_directory s root_dir (path12 base_part ext q) = Some (root_entry s k, pos, s1)" "kept12 n s s1"
    using find_in_directory_ok [OF ok(1) r(2) directory_root [OF r(1)] named_plain [OF p, of s q]] unfolding f
    by (auto simp: found_at_def root_entry_def)
  let ?s2 = "s1\<lparr>path_buffer := ?name @ [0, 0]\<rparr>"
  have k2: "kept12 n s ?s2" using s1(2) by (rule kept12_path)
  then have p2: "partition12 ?s2 = partition12 s" "table12 ?s2 = table12 s" by (simp_all add: kept12_def)
  have r2: "root_ok n ?s2" using r(1) k2 by (simp add: root_ok_def kept12_def fat12_start_def fat12_size_def)
  have sec: "sector (device12 ?s2) j = sector (device12 s) j" if "j < n" for j using k2 that by (simp add: kept12_def same_sectors_def)
  have lt: "?ro + i div 16 < n" if "i < root_len s" for i
  proof -
    have "i div 16 < ?rs" using that by (simp add: root_len_def div_less_iff_less_mult mult.commute)
    then show ?thesis using ok(2) by simp
  qed
  have en: "root_entry ?s2 i = root_entry s i" if "i < root_len s" for i
    using sec [OF lt [OF that]] p2(1) unfolding root_entry_def by metis
  have g: "root_len ?s2 = root_len s" unfolding root_len_def p2(1) ..
  have t: "take 11 (?name @ [0, 0]) = ?name" using nm(1) by simp
  have K: "k < root_len ?s2" "filename (root_entry ?s2 k) = take 11 (?name @ [0, 0])" "\<forall>i<k. filename (root_entry ?s2 i) \<noteq> take 11 (?name @ [0, 0])"
    unfolding t g using k en by simp_all
  obtain s' where s': "remove_root_loop ?s2 (?name @ [0, 0]) (map of_nat [0..<?rs]) = Some (Some E_DEVICE_OK, s')"
    "fat12_ok n s'" "table12 s' = table12 s" "partition12 s' = partition12 s"
    "\<forall>l<n. sector (device12 s') l = (if l = ?ro + k div 16
         then patch (sector (device12 ?s2) l) (32 * (k mod 16)) (bytes_of_node deleted_entry) else sector (device12 ?s2) l)"
    using remove_root_loop_ok [OF r2 K(1) _ K(2,3), of 0] unfolding p2 by blast
  have rn: "fat_12_stat_resolve_path s1 (path12 base_part ext q) = Some (?name @ [0, 0], ?s2)"
    using named_plain [OF p, of s1 q] by (simp add: named12_def)
  have "fat12_remove_node s1 root_dir (path12 base_part ext q) = Some (0, s')"
    using rn s'(1) p2(1) by (simp add: fat12_remove_node_def root_dir_low)
  then have run: "fat12_remove_file s (path12 base_part ext q) = Some (0, s')"
    using resolve_directories_plain [OF p, of s q] empty_nodes(1) s1(1) k(3) by (simp add: fat12_remove_file_def)
  have out: "sector (device12 s') l = sector (device12 s) l" if "l < n" "l \<noteq> ?ro + k div 16" for l
    using s'(5) that sec by simp
  have ent: "root_entry s' i = (if i = k then deleted_entry else root_entry s i)" if i: "i < root_len s" for i
  proof (cases "i div 16 = k div 16")
    case False
    then have "i \<noteq> k" by auto
    then show ?thesis using False out [OF lt [OF i]] s'(4) by (simp add: root_entry_def)
  next
    case True
    let ?sec = "sector (device12 s) (?ro + k div 16)"
    have L: "length ?sec = 512" using good_blocks_length [OF fat12_okD(1) [OF ok(1)] lt [OF k(1)]] .
    have b: "32 * (k mod 16) + 32 \<le> length ?sec" "32 * (i mod 16) + 32 \<le> length ?sec" using L by simp_all
    have "root_entry s' i = entry_at (patch ?sec (32 * (k mod 16)) (bytes_of_node deleted_entry)) (i mod 16)"
      using True s'(4,5) lt [OF k(1)] sec by (simp add: root_entry_def)
    moreover have "i mod 16 = k mod 16 \<longleftrightarrow> i = k" using True by (metis mult_div_mod_eq)
    ultimately show ?thesis
      using entry_at_patch_same [OF deleted_entry_bytes(2) b(1)] entry_at_patch_other [OF deleted_entry_bytes(2) b(1), of "i mod 16"] b(2) True
      by (auto simp: root_entry_def)
  qed
  have "find12 (sector (device12 s')) ?name (root_sectors12 s') = None"
    if o: "\<forall>i < root_len s. i \<noteq> k \<longrightarrow> filename (root_entry s i) \<noteq> ?name"
  proof -
    have "filename deleted_entry ! 0 = 0xE5" by (simp add: deleted_entry_def)
    then have d: "filename deleted_entry \<noteq> ?name" using nm(4) by metis
    have "search12 (sector (device12 s') l) ?name = None" if l: "l \<in> set (root_sectors12 s')" for l
    proof (rule search12_None, intro allI impI)
      fix i :: nat assume i: "i < 16"
      have l': "?ro \<le> l" "l - ?ro < ?rs" using l s'(4) by (auto simp: root_sectors12_def)
      then have x: "16 * (l - ?ro) + i < root_len s" using i by (simp add: root_len_def)
      have "entry_at (sector (device12 s') l) i = root_entry s' (16 * (l - ?ro) + i)" using i l' s'(4) by (simp add: root_entry_def)
      then show "filename (entry_at (sector (device12 s') l) i) \<noteq> ?name" using ent [OF x] o x d by auto
    qed
    then have "find12 (sector (device12 s')) ?name (root_sectors12 s' @ []) = find12 (sector (device12 s')) ?name []"
      by (intro find12_append) simp
    then show ?thesis by simp
  qed
  then show ?thesis using run s'(2) value_cong [OF s'(3)] ent out by (intro exI [of _ s']) simp
qed

end
