(* ===== verification/Fat12_Mount.thy ===== *)
theory Fat12_Mount
  imports Fat12_Chain_Theorems
begin

text \<open>
  The table of a FAT12 volume from mounting on: whatever sequence of reads, writes and flushes the
  driver performs, its results are those of a plain table, and the state stays well-formed.
\<close>

subsection \<open>Sequences of table operations\<close>

datatype table_op = Read_Entry u32 | Write_Entry u32 u32 | Flush_Table

fun op_ok :: "table_op \<Rightarrow> bool" where
  "op_ok (Read_Entry c) \<longleftrightarrow> unat c < 1024"
| "op_ok (Write_Entry c v) \<longleftrightarrow> unat c < 1024"
| "op_ok Flush_Table \<longleftrightarrow> True"

text \<open>The driver: the values read, in order, and the state reached.\<close>

fun run_ops :: "'d FAT12 \<Rightarrow> table_op list \<Rightarrow> (u32 list \<times> 'd FAT12) option" where
  "run_ops s [] = Some ([], s)"
| "run_ops s (Read_Entry c # ops) = do {
     (v, s) \<leftarrow> read_fat_value s c;
     (vs, s) \<leftarrow> run_ops s ops;
     Some (v # vs, s)
   }"
| "run_ops s (Write_Entry c v # ops) = do { s \<leftarrow> write_fat_value s c v; run_ops s ops }"
| "run_ops s (Flush_Table # ops) = do { s \<leftarrow> flush_fat_buffer s; run_ops s ops }"

text \<open>The specification: a function from clusters to values of 12 bits.\<close>

fun spec_ops :: "(u32 \<Rightarrow> u32) \<Rightarrow> table_op list \<Rightarrow> u32 list \<times> (u32 \<Rightarrow> u32)" where
  "spec_ops t [] = ([], t)"
| "spec_ops t (Read_Entry c # ops) = (t c # fst (spec_ops t ops), snd (spec_ops t ops))"
| "spec_ops t (Write_Entry c v # ops) = spec_ops (t(c := v AND 0xFFF)) ops"
| "spec_ops t (Flush_Table # ops) = spec_ops t ops"

text \<open>Only the entries of the first window matter.\<close>

lemma spec_ops_cong:
  "\<forall>x. unat x < 1024 \<longrightarrow> t x = t' x \<Longrightarrow> list_all op_ok ops \<Longrightarrow>
   fst (spec_ops t ops) = fst (spec_ops t' ops) \<and> (\<forall>x. unat x < 1024 \<longrightarrow> snd (spec_ops t ops) x = snd (spec_ops t' ops) x)"
proof (induction ops arbitrary: t t')
  case (Cons a ops)
  then show ?case
  proof (cases a)
    case (Write_Entry c v)
    have "\<forall>x. unat x < 1024 \<longrightarrow> (t(c := v AND 0xFFF)) x = (t'(c := v AND 0xFFF)) x" using Cons.prems(1) by simp
    then show ?thesis using Cons Write_Entry by simp
  qed auto
qed simp

lemma run_ops_ok:
  assumes "fat12_ok n s" "list_all op_ok ops"
  shows "\<exists>s'. run_ops s ops = Some (fst (spec_ops (fat12_value s) ops), s') \<and> fat12_ok n s'
    \<and> (\<forall>x. unat x < 1024 \<longrightarrow> fat12_value s' x = snd (spec_ops (fat12_value s) ops) x) \<and> same_rest s s'
    \<and> (\<forall>k<n. \<not> in_tables s k \<longrightarrow> sector (device12 s') k = sector (device12 s) k)"
  using assms
proof (induction ops arbitrary: s)
  case Nil
  then show ?case by (intro exI [of _ s]) simp
next
  case (Cons a ops)
  have ops: "list_all op_ok ops" "op_ok a" using Cons.prems(2) by simp_all
  have tables: "in_tables s1 = in_tables s" if "same_rest s s1" for s1 :: "'a FAT12"
    using same_rest_geometry [OF that] by (simp add: in_tables_def fun_eq_iff)
  show ?case
  proof (cases a)
    case (Read_Entry c)
    obtain s1 where s1: "read_fat_value s c = Some (fat12_value s c, s1)" "fat12_ok n s1" "table12 s1 = table12 s" "same_rest s s1"
      "same_sectors n s s1" using read_value [OF Cons.prems(1)] ops(2) Read_Entry by fastforce
    obtain s' where s': "run_ops s1 ops = Some (fst (spec_ops (fat12_value s) ops), s')" "fat12_ok n s'"
      "\<forall>x. unat x < 1024 \<longrightarrow> fat12_value s' x = snd (spec_ops (fat12_value s) ops) x" "same_rest s1 s'"
      "\<forall>k<n. \<not> in_tables s k \<longrightarrow> sector (device12 s') k = sector (device12 s1) k"
      using Cons.IH [OF s1(2) ops(1)] unfolding value_cong [OF s1(3)] tables [OF s1(4)] by blast
    show ?thesis using s1 s' Read_Entry same_rest_trans [OF s1(4) s'(4)] by (intro exI [of _ s']) (simp add: same_sectors_def)
  next
    case (Write_Entry c v)
    obtain s1 where s1: "write_fat_value s c v = Some s1" "fat12_ok n s1"
      "\<forall>x. unat x < 1024 \<longrightarrow> fat12_value s1 x = (if x = c then v AND 0xFFF else fat12_value s x)" "same_rest s s1" "same_sectors n s s1"
      using write_value [OF Cons.prems(1)] ops(2) Write_Entry by fastforce
    have t: "\<forall>x. unat x < 1024 \<longrightarrow> fat12_value s1 x = ((fat12_value s)(c := v AND 0xFFF)) x" using s1(3) by simp
    note sp = spec_ops_cong [of "fat12_value s1" "(fat12_value s)(c := v AND 0xFFF)", OF t ops(1)]
    obtain s' where s': "run_ops s1 ops = Some (fst (spec_ops (fat12_value s1) ops), s')" "fat12_ok n s'"
      "\<forall>x. unat x < 1024 \<longrightarrow> fat12_value s' x = snd (spec_ops (fat12_value s1) ops) x" "same_rest s1 s'"
      "\<forall>k<n. \<not> in_tables s k \<longrightarrow> sector (device12 s') k = sector (device12 s1) k"
      using Cons.IH [OF s1(2) ops(1)] unfolding tables [OF s1(4)] by blast
    show ?thesis using s1 s' Write_Entry sp same_rest_trans [OF s1(4) s'(4)] by (intro exI [of _ s']) (simp add: same_sectors_def)
  next
    case Flush_Table
    obtain s1 where s1: "flush_fat_buffer s = Some s1" "fat12_ok n s1" "table12 s1 = table12 s" "same_rest s s1"
      "\<forall>k<n. \<not> in_tables s k \<longrightarrow> sector (device12 s1) k = sector (device12 s) k"
    proof (cases "fb_changed (FAT_buffer s)")
      case True
      then show ?thesis using flush_changed [OF Cons.prems(1) True] that by blast
    next
      case False
      then show ?thesis using Cons.prems(1) that [of s] by (simp add: flush_fat_buffer_def)
    qed
    obtain s' where s': "run_ops s1 ops = Some (fst (spec_ops (fat12_value s) ops), s')" "fat12_ok n s'"
      "\<forall>x. unat x < 1024 \<longrightarrow> fat12_value s' x = snd (spec_ops (fat12_value s) ops) x" "same_rest s1 s'"
      "\<forall>k<n. \<not> in_tables s k \<longrightarrow> sector (device12 s') k = sector (device12 s1) k"
      using Cons.IH [OF s1(2) ops(1)] unfolding value_cong [OF s1(3)] tables [OF s1(4)] by blast
    show ?thesis using s1 s' Flush_Table same_rest_trans [OF s1(4) s'(4)] by (intro exI [of _ s']) simp
  qed
qed

subsection \<open>Mounting\<close>

text \<open>A boot record whose tables, at least as long as the window, are on the device.\<close>

definition boot12_ok :: "nat \<Rightarrow> byte list \<Rightarrow> bool" where
  "boot12_ok n sec \<longleftrightarrow> 3 \<le> unat (bpb_sectors_per_fat (bpb_of_bytes sec))
     \<and> unat (bpb_reserved_sectors (bpb_of_bytes sec)) + 2 * unat (bpb_sectors_per_fat (bpb_of_bytes sec)) \<le> n"

definition signed12 :: "byte list \<Rightarrow> bool" where
  "signed12 sec \<longleftrightarrow> signature12 (ebr12_of_bytes sec) \<in> {0x28, 0x29} \<and> boot_signature12 (ebr12_of_bytes sec) = 0xAA55"

lemma fat12_init_ok:
  assumes g: "good_blocks n (device12 s)" "n + 2 \<le> 2 ^ 32" and b: "boot12_ok n (sector (device12 s) 0)"
    and s: "length mem = 512" "FAT_buffer s = FAT_buffer_init"
  shows "\<exists>e s'. fat12_init mem s = Some (e, s') \<and> (e = 0 \<longleftrightarrow> signed12 (sector (device12 s) 0)) \<and> fat12_ok n s'
    \<and> partition12 s' = init_partition12 (bpb_of_bytes (sector (device12 s) 0)) (ebr12_of_bytes (sector (device12 s) 0))
    \<and> same_sectors n s s'"
proof -
  let ?sec = "sector (device12 s) 0"
  let ?p = "init_partition12 (bpb_of_bytes ?sec) (ebr12_of_bytes ?sec)"
  have l: "unat (0 :: u32) + unat (1 :: u32) \<le> n" using b by (simp add: boot12_ok_def)
  obtain dv where dv: "read12 s mem 1 0 = Some (E_DEVICE_OK, ?sec, s\<lparr>device12 := dv\<rparr>)" "same_disk n (device12 s) dv"
    using read12_ok [OF g(1) _ _ l, of mem] s(1) by auto
  let ?s = "s\<lparr>device12 := dv, partition12 := ?p\<rparr>"
  have "unat (ucast (bpb_reserved_sectors (bpb_of_bytes ?sec)) :: u32) = unat (bpb_reserved_sectors (bpb_of_bytes ?sec))"
    using unsigned_less [of "bpb_reserved_sectors (bpb_of_bytes ?sec)", where 'a = nat]
    by (simp add: unsigned_ucast_eq take_bit_nat_eq_self)
  then have geo: "fat12_start ?s = unat (bpb_reserved_sectors (bpb_of_bytes ?sec))" "fat12_size ?s = unat (bpb_sectors_per_fat (bpb_of_bytes ?sec))"
    by (simp_all add: fat12_start_def fat12_size_def init_partition12_def Let_def)
  have fb: "FAT_buffer ?s = FAT_buffer_init" using s(2) by simp
  have "table12 ?s = disk_table ?s" unfolding table12_def fb by (simp add: FAT_buffer_init_def)
  then have "fat12_ok n ?s" using g(2) b dv(2) geo unfolding fat12_ok_def fb
    by (simp add: boot12_ok_def same_disk_def) (simp add: FAT_buffer_init_def)
  moreover have "\<exists>e. fat12_init mem s = Some (e, ?s) \<and> (e = 0 \<longleftrightarrow> signed12 ?sec)"
    using dv(1) by (auto simp: fat12_init_def signed12_def Let_def)
  ultimately show ?thesis using dv(2) by (auto simp: same_sectors_def same_disk_def)
qed

subsection \<open>Entries behind the first window\<close>

text \<open>The window with the entry of a cluster is on the disk.\<close>

fun op_on_disk :: "nat \<Rightarrow> nat \<Rightarrow> table_op \<Rightarrow> bool" where
  "op_on_disk n start (Read_Entry c) \<longleftrightarrow> unat c < 2 ^ 31 \<and> start + unat (cluster_FAT_offset c div 3 * 3) + 3 \<le> n"
| "op_on_disk n start (Write_Entry c v) \<longleftrightarrow> unat c < 2 ^ 31 \<and> start + unat (cluster_FAT_offset c div 3 * 3) + 3 \<le> n"
| "op_on_disk n start Flush_Table \<longleftrightarrow> True"

lemma run_ops_undefined:
  "run_ops s xs = Some (vs, s') \<Longrightarrow> run_ops s' ys = None \<Longrightarrow> run_ops s (xs @ ys) = None"
proof (induction xs arbitrary: s vs)
  case (Cons a xs)
  then show ?case by (cases a) (auto split: bind_splits)
qed simp

lemma run_ops_outside:
  assumes "fat12_ok n s" "\<not> list_all op_ok ops" "list_all (op_on_disk n (fat12_start s)) ops"
  shows "run_ops s ops = None"
proof -
  define xs ys where "xs = takeWhile op_ok ops" and "ys = dropWhile op_ok ops"
  have ops: "ops = xs @ ys" by (simp add: xs_def ys_def)
  have "ys \<noteq> []" using assms(2) by (auto simp: ys_def dropWhile_eq_Nil_conv list_all_iff)
  then obtain a zs where ys: "ys = a # zs" by (cases ys) auto
  have "\<not> op_ok a" using ys hd_dropWhile [of op_ok ops] \<open>ys \<noteq> []\<close> by (simp add: ys_def)
  have xs: "list_all op_ok xs" by (auto simp: xs_def list_all_iff dest: set_takeWhileD)
  obtain s' vs where s': "run_ops s xs = Some (vs, s')" "fat12_ok n s'" "same_rest s s'"
    using run_ops_ok [OF assms(1) xs] by blast
  have st: "fat12_start s' = fat12_start s" using same_rest_geometry [OF s'(3)] by simp
  have a: "op_on_disk n (fat12_start s') a" using assms(3) st by (simp add: ops ys)
  have "run_ops s' ys = None"
  proof (cases a)
    case (Read_Entry c)
    then show ?thesis using entry_outside [OF s'(2), of c] a \<open>\<not> op_ok a\<close> by (simp add: ys)
  next
    case (Write_Entry c v)
    then show ?thesis using entry_outside [OF s'(2), of c] a \<open>\<not> op_ok a\<close> by (simp add: ys)
  next
    case Flush_Table
    then show ?thesis using \<open>\<not> op_ok a\<close> by simp
  qed
  then show ?thesis unfolding ops by (rule run_ops_undefined [OF s'(1)])
qed

text \<open>C29. Mounting reports success exactly for a signed boot record and sets up a well-formed state, with
  the window not loaded. A sequence of reads, writes and flushes of entries below 1024 keeps it
  well-formed, returns what a plain table of 12-bit values returns, ends with that table, and
  changes no sector outside the two copies. A sequence with an entry from 1024 on has no defined
  result: the offset of such an entry leaves the buffer of the window.\<close>

theorem fat12_mounted_table_operations:
  assumes g: "good_blocks n (device12 s)" "n + 2 \<le> 2 ^ 32" and b: "boot12_ok n (sector (device12 s) 0)"
    and s: "length mem = 512" "FAT_buffer s = FAT_buffer_init"
    and o: "list_all (op_on_disk n (unat (bpb_reserved_sectors (bpb_of_bytes (sector (device12 s) 0))))) ops"
  shows "\<exists>e s0. fat12_init mem s = Some (e, s0) \<and> (e = 0 \<longleftrightarrow> signed12 (sector (device12 s) 0)) \<and> fat12_ok n s0
    \<and> (if list_all op_ok ops
       then \<exists>s'. run_ops s0 ops = Some (fst (spec_ops (fat12_value s0) ops), s') \<and> fat12_ok n s'
         \<and> (\<forall>x. unat x < 1024 \<longrightarrow> fat12_value s' x = snd (spec_ops (fat12_value s0) ops) x)
         \<and> (\<forall>k<n. \<not> in_tables s0 k \<longrightarrow> sector (device12 s') k = sector (device12 s) k)
       else run_ops s0 ops = None)"
proof -
  let ?sec = "sector (device12 s) 0"
  obtain e s0 where s0: "fat12_init mem s = Some (e, s0)" "e = 0 \<longleftrightarrow> signed12 ?sec" "fat12_ok n s0" "same_sectors n s s0"
    "partition12 s0 = init_partition12 (bpb_of_bytes ?sec) (ebr12_of_bytes ?sec)"
    using fat12_init_ok [OF g b s] by blast
  have "unat (ucast (bpb_reserved_sectors (bpb_of_bytes ?sec)) :: u32) = unat (bpb_reserved_sectors (bpb_of_bytes ?sec))"
    using unsigned_less [of "bpb_reserved_sectors (bpb_of_bytes ?sec)", where 'a = nat]
    by (simp add: unsigned_ucast_eq take_bit_nat_eq_self)
  then have st: "fat12_start s0 = unat (bpb_reserved_sectors (bpb_of_bytes ?sec))"
    by (simp add: fat12_start_def s0(5) init_partition12_def Let_def)
  show ?thesis
  proof (cases "list_all op_ok ops")
    case True
    then show ?thesis using s0(1-4) run_ops_ok [OF s0(3) True] by (auto simp: same_sectors_def)
  next
    case False
    then show ?thesis using s0(1-3) run_ops_outside [OF s0(3) False] o st by auto
  qed
qed

end
