(* ===== verification/Fat12_Demo.thy ===== *)
theory Fat12_Demo
  imports Fat12_File_Theorems Fat12_Remove_Theorems Fat12_Mount Demo_Volume
begin

text \<open>
  A concrete FAT12 volume for the witnesses: a disk held in memory that moves several sectors per
  call, two tables of three sectors, a root directory of one sector, a file in clusters 2 and 3,
  a directory in cluster 4, and free clusters from 5 on.
\<close>

subsection \<open>A disk in memory\<close>

definition ram_reads :: "ram READ_DEVICE" where
  "ram_reads d buf cnt lba = Some (E_DEVICE_OK, concat (map d [unat lba..<unat lba + unat cnt]), d)"

definition ram_writes :: "ram WRITE_DEVICE" where
  "ram_writes d buf cnt lba = Some (E_DEVICE_OK, \<lambda>k. if unat lba \<le> k \<and> k < unat lba + unat cnt
     then take 512 (drop (512 * (k - unat lba)) buf) else d k)"

definition ram_disk :: "ram \<Rightarrow> ram VFS_DEVICE" where
  "ram_disk d = \<lparr>device_data = d, read_m = Some ram_reads, write_m = Some ram_writes\<rparr>"

lemma ram_stores_blocks: "stores_blocks n (\<lambda>d. \<forall>k. length (d k) = 512) (\<lambda>d. d) ram_reads ram_writes"
proof -
  have "512 \<le> 512 * c - 512 * (k - l)" if "l \<le> k" "k < l + c" for c k l :: nat
  proof -
    have "512 * (k - l) + 512 \<le> 512 * c" using that by simp
    then show ?thesis by linarith
  qed
  then show ?thesis unfolding stores_blocks_def ram_reads_def ram_writes_def by (simp add: min_absorb2)
qed

lemma ram_disk_good: "(\<And>k. length (d k) = 512) \<Longrightarrow> n \<le> 2 ^ 32 \<Longrightarrow> good_blocks n (ram_disk d)"
  using ram_stores_blocks [of n] unfolding good_blocks_def ram_disk_def by auto

lemma ram_disk_sector: "k < 2 ^ 32 \<Longrightarrow> sector (ram_disk d) k = d k"
  by (simp add: sector_def ram_disk_def ram_reads_def unat_of_nat_u32)

subsection \<open>The volume\<close>

definition table12_bytes :: "byte list" where
  "table12_bytes = [0xF8, 0xFF, 0xFF, 0x03, 0x80, 0xFF, 0xFF, 0x0F, 0] @ replicate 1527 0"

definition file12_entry :: FAT_NODE where
  "file12_entry = zero_node\<lparr>filename := bytes_of ''KERNEL  TXT'', start_low := 2, node_size := 600\<rparr>"

text \<open>A boot record: one reserved sector, two tables of three sectors, sixteen entries in the root directory.\<close>

definition demo12_boot :: "byte list" where
  "demo12_boot = map (\<lambda>i. if i = 13 then 1 else if i = 14 then 1 else if i = 16 then 2 else if i = 17 then 16
     else if i = 19 then 20 else if i = 22 then 3 else if i = 38 then 0x29 else if i = 510 then 0x55
     else if i = 511 then 0xAA else 0) [0..<512::nat]"

definition demo12_disk :: ram where
  "demo12_disk k = (if k = 0 then demo12_boot else if 1 \<le> k \<and> k < 4 then take 512 (drop (512 * (k - 1)) table12_bytes)
     else if 4 \<le> k \<and> k < 7 then take 512 (drop (512 * (k - 4)) table12_bytes)
     else if k = 7 then bytes_of_node file12_entry @ replicate 480 0
     else if k = 8 \<or> k = 9 then replicate 512 65
     else replicate 512 0)"

definition demo12 :: "ram FAT12" where
  "demo12 = \<lparr>partition12 = \<lparr>sectors_per_cluster12 = 1, reserved_sectors12 = 1, FATs12 = 2, root_entries12 = 16,
       sectors12 = 20, sectors_per_fat12 = 3, hidden_sectors12 = 0, label12 = [], fat_offset12 = 1, root_offset12 = 7,
       data_offset12 = 8, root_size12 = 1, buffer12 = FAT_buffer_init\<rparr>,
     device12 = ram_disk demo12_disk, FAT_buffer = FAT_buffer_init, node_buffer = replicate 1024 0,
     node_buffer_lba = 0, path_buffer = replicate 13 0\<rparr>"

definition file12 :: NODE12 where
  "file12 = \<lparr>vn_size = 600, FS_reference = 2, vn_type = FILE12, vn_position = Some \<lparr>sector_of_position = 7, offset_of_position = 0\<rparr>,
     vn_name = bytes_of ''KERNEL  TXT''\<rparr>"

lemma length_table12_bytes [simp]: "length table12_bytes = 1536"
  by (simp add: table12_bytes_def)

lemma length_demo12_boot [simp]: "length demo12_boot = 512"
  by (simp add: demo12_boot_def)

lemma demo12_boot_nth: "i < 512 \<Longrightarrow> demo12_boot ! i = (if i = 13 then 1 else if i = 14 then 1 else if i = 16 then 2
     else if i = 17 then 16 else if i = 19 then 20 else if i = 22 then 3 else if i = 38 then 0x29 else if i = 510 then 0x55
     else if i = 511 then 0xAA else 0)"
  by (simp add: demo12_boot_def)

lemma file12_entry_wf: "wf_node file12_entry"
  by (simp add: wf_node_def file12_entry_def)

lemma length_demo12_disk: "length (demo12_disk k) = 512"
proof -
  have "512 * (k - a) + 512 \<le> 1536" if "a \<le> k" "k < a + 3" for a using that by simp
  then show ?thesis using length_bytes_of_node [OF file12_entry_wf] by (auto simp: demo12_disk_def min_def)
qed

lemma demo12_geometry [simp]: "fat12_start demo12 = 1" "fat12_size demo12 = 3" "data_start12 demo12 = 8"
  "device12 demo12 = ram_disk demo12_disk" "sectors12 (partition12 demo12) = 20" "root_size12 (partition12 demo12) = 1"
  "root_entries12 (partition12 demo12) = 16" "root_offset12 (partition12 demo12) = 7" "data_offset12 (partition12 demo12) = 8"
  "fat_offset12 (partition12 demo12) = 1" "FAT_buffer demo12 = FAT_buffer_init" "node_buffer demo12 = replicate 1024 0"
  by (simp_all add: fat12_start_def fat12_size_def data_start12_def demo12_def)

lemma demo12_disk_table: "disk_table demo12 = table12_bytes"
proof -
  have "concat (map (sector (ram_disk demo12_disk)) [1..<1 + 3]) = table12_bytes"
    by (rule concat_slices) (simp_all add: ram_disk_sector demo12_disk_def)
  then show ?thesis by (simp add: disk_table_def)
qed

lemma demo12_table: "table12 demo12 = table12_bytes"
  by (simp add: table12_def FAT_buffer_init_def demo12_disk_table)

lemma demo12_ok: "fat12_ok 20 demo12"
  using ram_disk_good [OF length_demo12_disk, of 20]
  by (simp add: fat12_ok_def demo12_table demo12_disk_table) (simp add: FAT_buffer_init_def)

lemma demo12_values:
  "fat12_value demo12 2 = 3" "fat12_value demo12 3 = 0xFF8" "fat12_value demo12 4 = 0xFFF"
  "fat12_value demo12 5 = 0" "fat12_value demo12 6 = 0" "fat12_value demo12 7 = 0"
  by (simp_all add: fat12_value_def demo12_table entry12_def table12_bytes_def nth_append)

lemma demo12_chain: "chain12 (fat12_value demo12) 2 [2, 3]"
  by (simp add: demo12_values)

lemma demo12_free: "free_clusters12 demo12 8 = [5, 6, 7]"
  by (simp add: free_clusters12_def demo12_values upt_rec)

lemma demo12_clusters: "\<forall>x\<in>set [2, 3]. data_cluster 20 demo12 x"
  by (simp add: data_cluster_def)

lemma demo12_position: "position_ok 20 demo12 \<lparr>sector_of_position = 7, offset_of_position = 0\<rparr>"
  by (simp add: position_ok_def in_tables_def)

lemma demo12_root_ok: "root_ok 20 demo12"
  using demo12_ok by (simp add: root_ok_def)

lemma demo12_root_len: "root_len demo12 = 16"
  by (simp add: root_len_def)

lemma demo12_root_entry:
  assumes "i < 16"
  shows "root_entry demo12 i = (if i = 0 then file12_entry else zero_node)"
proof -
  let ?b = "bytes_of_node file12_entry"
  have b: "length ?b = 32" using length_bytes_of_node [OF file12_entry_wf] .
  have d: "sector (ram_disk demo12_disk) 7 = ?b @ replicate 480 0" by (simp add: ram_disk_sector demo12_disk_def)
  have r: "root_entry demo12 i = entry_at (?b @ replicate 480 0) i" using assms by (simp add: root_entry_def d)
  have z: "bytes_of_node zero_node = replicate 32 0" by code_simp
  have w: "wf_node zero_node" by (simp add: wf_node_def zero_node_def)
  show ?thesis
  proof (cases "i = 0")
    case True
    then show ?thesis using r b entry_at_append [of 0 ?b "replicate 480 0"] node_of_bytes_of_node [OF file12_entry_wf]
      by (simp add: entry_at_def bytes_at_def)
  next
    case False
    have "32 * i - 32 + 32 \<le> 480" "32 \<le> 32 * i" using assms False by simp_all
    then have "take 32 (drop (32 * i) (?b @ replicate 480 0)) = replicate 32 0" using b by (simp add: min_def)
    then show ?thesis using r False node_of_bytes_of_node [OF w] z by (simp add: entry_at_def bytes_at_def)
  qed
qed

lemma demo12_plain: "plain_path (bytes_of ''NEW'') (bytes_of ''TXT'')" "plain_path (bytes_of ''KERNEL'') (bytes_of ''TXT'')"
  by (simp_all add: plain_path_def short_name_def bytes_of_def ch_def blank_def)

lemma demo12_names: "name12 (bytes_of ''NEW'') (bytes_of ''TXT'') = bytes_of ''NEW     TXT''"
  "name12 (bytes_of ''KERNEL'') (bytes_of ''TXT'') = bytes_of ''KERNEL  TXT''"
  by (code_simp)+

lemma demo12_new: "find12 (sector (device12 demo12)) (name12 (bytes_of ''NEW'') (bytes_of ''TXT'')) (root_sectors12 demo12) = None"
proof -
  have "search12 (sector (device12 demo12) 7) (bytes_of ''NEW     TXT'') = None"
  proof (rule search12_None, intro allI impI)
    fix i :: nat assume i: "i < 16"
    then have "entry_at (sector (device12 demo12) 7) i = root_entry demo12 i" by (simp add: root_entry_def)
    moreover have "filename (root_entry demo12 i) ! 0 \<noteq> bytes_of ''NEW     TXT'' ! 0"
      using demo12_root_entry [OF i] by (simp add: file12_entry_def zero_node_def bytes_of_def)
    ultimately show "filename (entry_at (sector (device12 demo12) 7) i) \<noteq> bytes_of ''NEW     TXT''" by metis
  qed
  then show ?thesis unfolding demo12_names by (simp add: root_sectors12_def)
qed

lemma demo12_boot_ok: "boot12_ok 20 demo12_boot" "signed12 demo12_boot"
  by (simp_all add: boot12_ok_def signed12_def bpb_of_bytes_def ebr12_of_bytes_def get8_def get16_def demo12_boot_nth le16_def)

subsection \<open>Witnesses\<close>

theorem fat12_mounted_table_operations_witness:
  "\<exists>s0 s'. fat12_init (replicate 512 0) demo12 = Some (0, s0)
    \<and> run_ops s0 [Write_Entry 5 0x123, Write_Entry 6 0xFFF, Flush_Table, Read_Entry 5] = Some ([0x123], s') \<and> fat12_ok 20 s'"
proof -
  let ?ops = "[Write_Entry 5 0x123, Write_Entry 6 0xFFF, Flush_Table, Read_Entry 5]"
  have d: "sector (device12 demo12) 0 = demo12_boot" by (simp add: ram_disk_sector demo12_disk_def)
  have r: "unat (bpb_reserved_sectors (bpb_of_bytes demo12_boot)) + 3 \<le> 20"
    using demo12_boot_ok(1) by (simp add: boot12_ok_def)
  have a: "good_blocks 20 (device12 demo12)" "(20 :: nat) + 2 \<le> 2 ^ 32" "boot12_ok 20 (sector (device12 demo12) 0)"
    "length (replicate 512 (0 :: byte)) = 512" "FAT_buffer demo12 = FAT_buffer_init"
    "list_all (op_on_disk 20 (unat (bpb_reserved_sectors (bpb_of_bytes (sector (device12 demo12) 0))))) ?ops"
    using fat12_okD(1) [OF demo12_ok] demo12_boot_ok(1) d r by (simp_all add: cluster_FAT_offset_def)
  show ?thesis using fat12_mounted_table_operations [OF a] demo12_boot_ok(2) unfolding d by auto
qed

theorem fat12_entry_behind_window_witness: "read_fat_value demo12 1024 = None \<and> write_fat_value demo12 1024 7 = None"
  by (rule fat12_entry_behind_window [OF demo12_ok]) (simp_all add: cluster_FAT_offset_def)

theorem reserve_chain_first_fit_witness:
  "\<exists>s'. reserve_chain demo12 2 = Some (Some [5, 6, 0xFFF], s') \<and> fat12_value s' 5 = 6 \<and> fat12_value s' 6 = 0xFFF \<and> copies_agree s'"
proof -
  have k: "(8 :: nat) \<le> 1024" "(2 :: nat) \<le> 8" "8 \<le> unat (sectors12 (partition12 demo12)) + 1" "0 < unat (2 :: u32)"
    "unat (2 :: u32) \<le> length (free_clusters12 demo12 8)" by (simp_all add: demo12_free)
  have t: "take (unat (2 :: u32)) (free_clusters12 demo12 8) = [5, 6]" by (simp add: demo12_free)
  obtain s' where s': "reserve_chain demo12 2 = Some (Some ([5, 6] @ [0xFFF]), s')"
    "\<forall>i < unat (2 :: u32). fat12_value s' ([5, 6] ! i) = ([5, 6] @ [0xFFF]) ! Suc i" "copies_agree s'"
    using reserve_chain_first_fit [OF demo12_ok k] unfolding t by blast
  have "fat12_value s' 5 = 6" "fat12_value s' 6 = 0xFFF" using s'(2) [rule_format, of 0] s'(2) [rule_format, of 1] by simp_all
  then show ?thesis using s' by auto
qed

theorem fat12_read_file_correct_witness:
  "\<exists>s'. fat12_read_file demo12 file12 (replicate 100 0) 100 462
     = Some (0, patch (replicate 100 0) 0 (take (unat (100 :: u32)) (drop (unat (462 :: u32)) (contents12 demo12 [2, 3]))), s')"
proof -
  have c: "chain12 (fat12_value demo12) (FS_reference file12) [2, 3]" using demo12_chain by (simp add: file12_def del: chain12.simps)
  show ?thesis using fat12_read_file_correct [OF demo12_ok c demo12_clusters, of 462 100 "replicate 100 0"] by auto
qed

theorem fat12_write_file_correct_witness:
  "\<exists>s'. fat12_write_file demo12 file12 (replicate 100 66) 100 462 = Some (0, s')
    \<and> contents12 s' [2, 3] = patch (contents12 demo12 [2, 3]) 462 (replicate 100 66)"
proof -
  have c: "chain12 (fat12_value demo12) (FS_reference file12) [2, 3]" "vn_position file12 = Some \<lparr>sector_of_position = 7, offset_of_position = 0\<rparr>"
    using demo12_chain by (simp_all add: file12_def del: chain12.simps)
  have l: "\<forall>x\<in>set [2, 3]. unat (cluster_lba12 demo12 x) \<noteq> unat (sector_of_position \<lparr>sector_of_position = 7, offset_of_position = 0\<rparr>)"
    by (simp add: cluster_lba12_def)
  show ?thesis
    using fat12_write_file_correct [OF demo12_ok c(1) demo12_clusters _ _ _ c(2) demo12_position l, of 462 100 "replicate 100 66"] by auto
qed

theorem fat12_name_agrees_with_fat32_witness:
  "\<exists>name. make_8point3_name (bytes_of ''NEW'' @ ch CHR ''.'' # bytes_of ''TXT'') = Some name
    \<and> fat_12_stat_resolve_path demo12 (bytes_of ''NEW'' @ ch CHR ''.'' # bytes_of ''TXT'' @ 0 # []) = Some (name @ [0, 0], demo12\<lparr>path_buffer := name @ [0, 0]\<rparr>)"
proof (rule fat12_name_agrees_with_fat32)
  show "short_name (bytes_of ''NEW'') (bytes_of ''TXT'')" using demo12_plain(1) by (simp add: plain_path_def)
  show "alphanumeric (hd (bytes_of ''TXT''))" by (simp add: alphanumeric_def bytes_of_def ch_def)
qed

theorem fat12_find_in_directory_first_witness:
  "\<exists>s'. find_in_directory demo12 root_dir (path12 (bytes_of ''KERNEL'') (bytes_of ''TXT'') [])
     = Some (file12_entry, Some \<lparr>sector_of_position = 7, offset_of_position = 0\<rparr>, s')"
proof -
  have "find12 (sector (device12 demo12)) (bytes_of ''KERNEL  TXT'') (root_sectors12 demo12) = Some (7 + 0 div 16, 0 mod 16)"
    using find12_root [of 0 demo12 "bytes_of ''KERNEL  TXT''"] demo12_root_entry [of 0] demo12_root_len
    by (simp add: file12_entry_def bytes_of_def)
  then have f: "find12 (sector (device12 demo12)) (name12 (bytes_of ''KERNEL'') (bytes_of ''TXT'')) (root_sectors12 demo12) = Some (7, 0)"
    unfolding demo12_names by simp
  have e: "entry_at (sector (device12 demo12) 7) 0 = file12_entry" using demo12_root_entry [of 0] by (simp add: root_entry_def)
  have b: "length (node_buffer demo12) = 1024" by simp
  show ?thesis
    using fat12_find_in_directory_first [OF demo12_ok b directory_root [OF demo12_root_ok] named_plain [OF demo12_plain(2), of demo12 "[]"]]
    unfolding f by (auto simp: e simp del: demo12_geometry)
qed

theorem fat12_create_then_open_witness:
  "\<exists>s'. fat12_create_file demo12 (path12 (bytes_of ''NEW'') (bytes_of ''TXT'') []) = Some (0, s') \<and> fat12_value s' 5 = 0xFFF
    \<and> (\<exists>v s''. fat12_open_file s' (path12 (bytes_of ''NEW'') (bytes_of ''TXT'') []) = Some (Some v, s'') \<and> opened12 (bytes_of ''NEW     TXT'') 5 v)"
proof -
  have a: "length (node_buffer demo12) = 1024"
    "unat (root_offset12 (partition12 demo12)) + unat (root_size12 (partition12 demo12)) \<le> data_start12 demo12" by simp_all
  have e: "(1 :: nat) < root_len demo12" "1 < unat (root_entries12 (partition12 demo12))" "filename (root_entry demo12 1) ! 0 = 0"
    "\<forall>i<1. filename (root_entry demo12 i) ! 0 \<noteq> 0"
    using demo12_root_entry [of 0] demo12_root_entry [of 1] demo12_root_len by (simp_all add: file12_entry_def zero_node_def bytes_of_def)
  have c: "(8 :: nat) \<le> 1024" "8 \<le> unat (sectors12 (partition12 demo12)) + 1" "data_cluster 20 demo12 5" by (simp_all add: data_cluster_def)
  show ?thesis
    using fat12_create_then_open [OF demo12_root_ok a demo12_plain(1) demo12_new e c(1,2) demo12_free c(3), of "[]"]
    unfolding demo12_names by (elim ex_forward) (elim conjE, intro conjI; assumption)
qed

theorem fat12_remove_file_marks_entry_witness:
  "\<exists>s'. fat12_remove_file demo12 (path12 (bytes_of ''KERNEL'') (bytes_of ''TXT'') []) = Some (0, s') \<and> fat12_value s' = fat12_value demo12
    \<and> root_entry s' 0 = deleted_entry"
proof -
  have b: "length (node_buffer demo12) = 1024" by simp
  have k: "0 < root_len demo12" "filename (root_entry demo12 0) = name12 (bytes_of ''KERNEL'') (bytes_of ''TXT'')" "\<not> is_dir12 (root_entry demo12 0)"
    "\<forall>i<0. filename (root_entry demo12 i) ! 0 \<noteq> 0 \<and> filename (root_entry demo12 i) \<noteq> name12 (bytes_of ''KERNEL'') (bytes_of ''TXT'')"
    using demo12_root_entry [of 0] demo12_root_len unfolding demo12_names
    by (simp_all add: file12_entry_def is_dir12_def zero_node_def)
  show ?thesis using fat12_remove_file_marks_entry [OF demo12_root_ok b demo12_plain(2) k, of "[]"] k(1) by auto
qed

end
