(* ===== verification/Spec2Isabelle.thy ===== *)
theory Spec2Isabelle
  imports Fat32_Theorems Vfs_Theorems Kernel_Boot Disk_Boot
    Console_Theorems Floppy_Archive_Theorems Fat12_Demo
begin

text \<open>
  FileOS, a small kernel for the i686: a verification of its file system, memory management,
  interrupt handling and drivers. Paths are relative to \<^verbatim>\<open>src/\<close>.

  \<^bold>\<open>The program.\<close> \<^verbatim>\<open>kernel/kernel.c\<close> initialises the heap, the interrupts, the keyboard, the screen and the
  disk drivers and then idles; everything else happens in interrupts or through the file
  system interface. A disk driver registers itself with the virtual file system (\<^verbatim>\<open>fs/vfs.c\<close>)
  as a device with a read and a write function; the VFS looks for partitions on it, and FAT32
  (\<^verbatim>\<open>fs/fat32.c\<close>) registers those it recognises. A file operation goes from the VFS by the
  letter of the path to the partition, from there to FAT32, which works on a cached sector of the
  allocation table, and back through the device functions to the driver.

  \<^bold>\<open>Conventions.\<close> A C integer is a word of its width (\<^theory_text>\<open>Prelude\<close>), except where the code keeps small
  screen offsets in an \<^verbatim>\<open>int\<close>, which is an \<^typ>\<open>int\<close>. A computation that may not return, leaves an object,
  overflows a signed integer or reads an uninitialised pointer has an \<open>option\<close> result and is
  \<^term>\<open>None\<close> there; loops that need not end are \<open>partial_function (option)\<close>, and every theorem about them
  states that the result exists. An uninitialised variable that is read is a parameter, and so
  is what the kernel does not define: the hardware behind the ports (\<^theory_text>\<open>Ports\<close>), the memory a block of
  \<^verbatim>\<open>k_malloc\<close> has before it is written, the addresses of the assembly stubs. What the code relies on of
  such a parameter is a locale: \<open>ata_drive\<close> (\<^theory_text>\<open>Ata_Drive\<close>, extended by \<open>lone_master\<close> in \<^theory_text>\<open>Ata_Identify\<close>), \<open>crtc\<close> (\<^theory_text>\<open>Terminal\<close>),
  \<open>console\<close> (\<^theory_text>\<open>Console\<close>, extended by \<open>boot_console\<close> in \<^theory_text>\<open>Kernel_Boot\<close>) and \<open>fdc\<close> (\<^theory_text>\<open>Floppy_Controller\<close>, extended
  by \<open>quick_fdc\<close> in \<^theory_text>\<open>Floppy_Archive_Theorems\<close>) for hardware, \<open>sector_reader\<close> and its extension \<open>block_device\<close>
  (\<^theory_text>\<open>Vfs_Device\<close>) and \<open>allocator\<close> (\<^theory_text>\<open>Heap_Free\<close>) between components.

  \<^bold>\<open>FAT32.\<close>
  \<^item> \<^theory_text>\<open>Fat32_Layout\<close>: the packed structures on disk and their codecs (\<^verbatim>\<open>fat32.h\<close>); \<^theory_text>\<open>Vfs_Device\<close>,
    \<^theory_text>\<open>Vfs_Partition\<close>: devices, and volumes, which are partitions with the device their pointer leads to.
  \<^item> \<^theory_text>\<open>Fat32_Table\<close>, \<^theory_text>\<open>Fat32_Cluster\<close>, \<^theory_text>\<open>Fat32_Alloc\<close>: the cached table sector (\<^verbatim>\<open>save_current_fat\<close>,
    \<^verbatim>\<open>load_fat_sector\<close>, \<^verbatim>\<open>change_fat\<close>), cluster transfer, allocation and deletion of chains. The abstract
    volume is a table (a map from clusters to links) and the cluster contents; every operation is
    shown to refine an update of it. The invariant of a mounted volume is \<open>vol_ok\<close>; \<open>vol_state False\<close>
    asks only that the device can be read, which is enough for lookup and reading.
  \<^item> \<^theory_text>\<open>Fat32_File\<close>, \<^theory_text>\<open>Fat32_Read\<close>, \<^theory_text>\<open>Fat32_Write\<close>: \<^verbatim>\<open>fat32_read_file\<close>, \<^verbatim>\<open>fat32_write_file\<close>, \<^verbatim>\<open>fat32_lseek\<close>; a file is
    the bytes of its chain up to its size.
  \<^item> \<^theory_text>\<open>Fat32_Name\<close>, \<^theory_text>\<open>Fat32_Dir\<close>, \<^theory_text>\<open>Fat32_Lookup\<close>, \<^theory_text>\<open>Fat32_Create\<close>, \<^theory_text>\<open>Fat32_Path\<close>: 8.3 names, directory
    search and creation of entries, paths; a directory is the list of its slots.
  \<^item> \<^theory_text>\<open>Fat32_Theorems\<close>, \<^theory_text>\<open>Fat32_Dir_Theorems\<close>: the properties, with the volume of \<^theory_text>\<open>Demo_Volume\<close> as
    the concrete input of the witnesses.

  \<^bold>\<open>FAT12.\<close> The earlier file system driver of \<^verbatim>\<open>archive/fat12.c\<close>, not compiled into the kernel, with the
  interface of an earlier VFS.
  \<^item> \<^theory_text>\<open>Fat12_Table\<close>, \<^theory_text>\<open>Fat12_Chain\<close>, \<^theory_text>\<open>Fat12_Dir\<close>, \<^theory_text>\<open>Fat12_File\<close>: the whole file, in the order table window,
    cluster chains, names and directories, file operations; the state is the partition with its
    device and the static variables of the file.
  \<^item> \<^theory_text>\<open>Vfs_Blocks\<close>: the contract of a device that moves several sectors per call. \<^theory_text>\<open>Fat12_Store\<close> reads the
    packed table as a function from clusters to values under the invariant \<open>fat12_ok\<close>; \<^theory_text>\<open>Fat12_Mount\<close> shows
    that it holds after mounting and that any sequence of table operations on entries below 1024 behaves
    like a plain table; \<^theory_text>\<open>Fat12_Chain_Theorems\<close> has the reservation of chains, \<^theory_text>\<open>Fat12_File_Theorems\<close> the transfers.
  \<^item> \<^theory_text>\<open>Fat12_Search\<close>, \<^theory_text>\<open>Fat12_Root\<close>, \<^theory_text>\<open>Fat12_Dir_Theorems\<close>, \<^theory_text>\<open>Fat12_Create_Theorems\<close> and \<^theory_text>\<open>Fat12_Remove_Theorems\<close>:
    lookup, names, and creating, opening and removing files end to end; \<^theory_text>\<open>Fat12_Demo\<close> the witnesses.

  \<^bold>\<open>VFS.\<close> \<^theory_text>\<open>Vfs\<close> models the tables of devices and partitions, descriptors and the dispatch of every
  operation. Partitions point to entries of the shared device table, and the devices share the
  hardware: a call loads the volume of its partition and stores it back, so a second partition on
  the device sees what the first did to it, while each partition keeps its own cached table sector.
  \<^theory_text>\<open>Vfs_Theorems\<close> shows that mounting establishes the volume invariant and that a file opened by its
  path reads as its contents. \<^theory_text>\<open>Strings\<close> and \<^theory_text>\<open>Memory\<close> are the routines of \<^verbatim>\<open>libc/strings.c\<close> and the
  block functions of \<^verbatim>\<open>libc/memory.c\<close> and \<^verbatim>\<open>kernel/util.c\<close>.

  \<^bold>\<open>Memory.\<close> \<^theory_text>\<open>Flat_Memory\<close> is the address space as a function to bytes. \<^theory_text>\<open>Heap\<close> and \<^theory_text>\<open>Heap_Free\<close> model the
  allocator of \<^verbatim>\<open>libc/memory.c\<close> on it and refine it to a tiling of the heap by free and used blocks;
  \<^theory_text>\<open>Heap_Theorems\<close> has first fit, coalescing, round trip and separation. \<^theory_text>\<open>Pages\<close> (\<^verbatim>\<open>cpu/pages.c\<close>) is read
  back by a page walk, \<^theory_text>\<open>Task\<close> (\<^verbatim>\<open>task/task.c\<close>) allocates the boot task on the heap.

  \<^bold>\<open>Interrupts and console.\<close> \<^theory_text>\<open>Cpu\<close> models the descriptor table, its installation, the dispatch
  (\<^verbatim>\<open>cpu/idt.c\<close>, \<^verbatim>\<open>cpu/isr.c\<close>) and the timer; \<^theory_text>\<open>Kernel_Theorems\<close> its properties. \<^theory_text>\<open>Screen\<close> models
  \<^verbatim>\<open>drivers/screen.c\<close> on video memory and the cursor registers, and \<^theory_text>\<open>Terminal\<close> refines it to a terminal of
  2000 cells. \<^theory_text>\<open>Util\<close> (\<^verbatim>\<open>kernel/util.c\<close>, \<^verbatim>\<open>libc/math.c\<close>), \<^theory_text>\<open>Stdout\<close> (\<^verbatim>\<open>libc/stdout.c\<close>) and \<^theory_text>\<open>Exceptions\<close>
  (\<^verbatim>\<open>isr_handler\<close>) print on it; \<^theory_text>\<open>Keyboard\<close> models \<^verbatim>\<open>drivers/keyboard.c\<close> and the callback of
  \<^verbatim>\<open>kernel/kernel.c\<close>, and \<^theory_text>\<open>Console\<close> shows that dispatch, driver, callback and screen together are a line
  editor. \<^theory_text>\<open>Console_Theorems\<close> has the properties and hardware that satisfies the interface. \<^theory_text>\<open>Kernel_Boot\<close>
  composes heap, interrupts, keyboard and screen to \<^verbatim>\<open>main\<close>, up to the point where it enables interrupts, and
  shows that the line editor runs from there on.

  \<^bold>\<open>Disk drivers.\<close> \<^theory_text>\<open>Ata\<close> models \<^verbatim>\<open>drivers/ata/ata.c\<close>; under the interface \<open>ata_drive\<close> (task file,
  identification and transfer commands, busy bit, data register) \<^theory_text>\<open>Ata_Drive\<close> proves single transfers,
  whatever time the drive takes. The driver does not wait for the drive behind a write, and \<^theory_text>\<open>Ata_Theorems\<close>
  shows both sides of it: a drive that \<open>settles\<close> within the 15 status reads is a device that stores
  sectors, the hypothesis the theorems on changing files start from; on a drive that is still busy the
  next read reports success without the data. \<^theory_text>\<open>Ata_Identify\<close> runs \<^verbatim>\<open>identify_ata\<close> on a channel with a
  master only; \<^theory_text>\<open>Ata_Init\<close> has \<^verbatim>\<open>ata_init\<close> and mounts its formatted disk; \<^theory_text>\<open>Disk_Boot\<close> composes it with the
  file system: after \<^verbatim>\<open>ata_init\<close> a file of the disk is opened by its path and its bytes are read, on every
  such drive. \<^theory_text>\<open>Floppy_Common\<close>, \<^theory_text>\<open>Floppy_Pio\<close>
  and \<^theory_text>\<open>Floppy_Dma\<close> model \<^verbatim>\<open>drivers/floppy/\<close>; \<^theory_text>\<open>Floppy_Theorems\<close> has the geometry, the bounded handshake, the
  DMA window and the behaviour without a drive. \<^theory_text>\<open>Floppy_Controller\<close> is the interface \<open>fdc\<close> of the
  controller (phases of a command, status, delays), under which \<^theory_text>\<open>Floppy_Transfer\<close> shows that reads and
  writes on a track end, what they move, and how errors come back. \<^theory_text>\<open>Floppy_Archive\<close> is the first driver,
  \<^verbatim>\<open>archive/floppy_PIO.c\<close>, which is not compiled, and \<^theory_text>\<open>Floppy_Archive_Theorems\<close> its transfers, under
  \<open>quick_fdc\<close>, the same interface with shorter delays.

  \<^bold>\<open>Bounds.\<close> The polling counts (600 of the floppy driver, 256 of the first one, 15 of the ATA driver) and the attempt counts (3,
  10, 20) are those of the code. \<open>vol_ok\<close> bounds a volume by the sectors of its device, so that no
  sector address wraps around; the theorem on printing numbers is about 1 to 999999999, the
  numbers \<^verbatim>\<open>print_int\<close> prints in decimal (\<open>print_int_prints\<close> says what it prints for 0 and negative ones); those on FAT12 hold for the clusters below 1024, whose entries the first
  window holds, since the code accesses all others outside of its buffer (\<open>fat12_entry_behind_window\<close>).
  Opening a file does not set the offset of its descriptor, so theorems on a file just opened are about
  every offset the memory may have held within the file.

  \<^bold>\<open>Not modelled.\<close> The assembly (\<^verbatim>\<open>boot/\<close>, \<^verbatim>\<open>cpu/*.asm\<close>, \<^verbatim>\<open>task/context_switch.asm\<close>), the inline assembly of
  \<^verbatim>\<open>drivers/ports.c\<close>, and the linker script. The rest of
  \<^verbatim>\<open>main\<close> initialises the disk drivers with interrupts on; what they allocate on the heap is not part of
  their models, so it is not composed. Of FAT12 there are no theorems on
  \<^verbatim>\<open>resize_chain\<close>, on entries added to directories other than the root, and on listing. \<^verbatim>\<open>floppy_read\<close> and \<^verbatim>\<open>floppy_write\<close> have no body.
\<close>

end
